(* ===== verification/Go_Prelude.thy ===== *)
theory Go_Prelude
  imports Main "HOL-Library.Sublist"
begin

section \<open>Go strings and slices\<close>

text \<open>
  The part of Go's standard library (packages strings and unicode/utf8) that the modelled
  sources call, and the generic facts about it that the component theories share.

  A Go string is a sequence of bytes, so it is a HOL \<^typ>\<open>string\<close>: a \<^typ>\<open>char\<close> is one byte.
  A loop \<open>for _, r := range s\<close> decodes runes.  Every rune the sources compare against is ASCII,
  and no byte of a multi-byte encoding is ASCII, so a loop that only compares runes and slices
  the string at byte offsets is a loop over the bytes.  A loop that writes the rune back
  (\<open>WriteRune\<close>) replaces every byte that is not part of a valid encoding by the encoding of
  U+FFFD; that is \<open>rangeBytes\<close> below.

  Letter case beyond ASCII is decided by Unicode tables that are data of the Go distribution.
  They are a parameter of the model, \<open>unicode_tables\<close>, consulted exactly where the library leaves
  its ASCII fast path; no theorem assumes anything about them.
\<close>

named_theorems go_len \<open>lengths of the results of the string library\<close>
named_theorems go_sub \<open>string library results as parts of their arguments\<close>

abbreviation SQ :: char where "SQ \<equiv> CHR 0x27"
abbreviation DQ :: char where "DQ \<equiv> CHR 0x22"
abbreviation BQ :: char where "BQ \<equiv> CHR 0x60"
abbreviation SP :: char where "SP \<equiv> CHR 0x20"
abbreviation TAB :: char where "TAB \<equiv> CHR 0x09"
abbreviation NL :: char where "NL \<equiv> CHR 0x0A"
abbreviation SLASH :: char where "SLASH \<equiv> CHR 0x2F"

subsection \<open>Prefixes, suffixes and substrings\<close>

fun HasPrefix :: "string \<Rightarrow> string \<Rightarrow> bool" where
  "HasPrefix s [] = True"
| "HasPrefix [] (p # ps) = False"
| "HasPrefix (c # s) (p # ps) = (c = p \<and> HasPrefix s ps)"

definition HasSuffix :: "string \<Rightarrow> string \<Rightarrow> bool" where
  "HasSuffix s t = HasPrefix (rev s) (rev t)"

text \<open>\<open>strings.Index\<close>, with None for -1.\<close>

fun Index :: "string \<Rightarrow> string \<Rightarrow> nat option" where
  "Index [] p = (if p = [] then Some 0 else None)"
| "Index (c # s) p = (if HasPrefix (c # s) p then Some 0 else map_option Suc (Index s p))"

definition Contains :: "string \<Rightarrow> string \<Rightarrow> bool" where
  "Contains s p = (Index s p \<noteq> None)"

text \<open>\<open>strings.IndexAny\<close> for a set of ASCII characters, and \<open>strings.IndexByte\<close>.\<close>

fun IndexAny :: "string \<Rightarrow> char list \<Rightarrow> nat option" where
  "IndexAny [] cs = None"
| "IndexAny (c # s) cs = (if c \<in> set cs then Some 0 else map_option Suc (IndexAny s cs))"

text \<open>\<open>strings.LastIndexByte\<close>.\<close>

fun LastIndexByte :: "string \<Rightarrow> char \<Rightarrow> nat option" where
  "LastIndexByte [] b = None"
| "LastIndexByte (c # s) b =
     (case LastIndexByte s b of Some i \<Rightarrow> Some (Suc i) | None \<Rightarrow> if c = b then Some 0 else None)"

subsection \<open>Splitting, joining, replacing\<close>

fun Join :: "string list \<Rightarrow> string \<Rightarrow> string" where
  "Join [] sep = []"
| "Join [w] sep = w"
| "Join (w # v # ws) sep = w @ sep @ Join (v # ws) sep"

text \<open>\<open>strings.Split\<close> at a one-byte separator: always at least one piece.\<close>

fun SplitByte :: "char \<Rightarrow> string \<Rightarrow> string list" where
  "SplitByte b [] = [[]]"
| "SplitByte b (c # s) =
     (if c = b then [] # SplitByte b s
      else (case SplitByte b s of [] \<Rightarrow> [[c]] | w # ws \<Rightarrow> (c # w) # ws))"

text \<open>\<open>strings.ReplaceAll\<close> for a non-empty old string.\<close>

function ReplaceAll :: "string \<Rightarrow> string \<Rightarrow> string \<Rightarrow> string" where
  "ReplaceAll [] old new = []"
| "ReplaceAll (c # s) old new =
     (if old \<noteq> [] \<and> HasPrefix (c # s) old
      then new @ ReplaceAll (drop (length old) (c # s)) old new
      else c # ReplaceAll s old new)"
  by pat_completeness auto
termination
  by (relation "measure (\<lambda>(s, old, new). length s)") (auto simp: Suc_le_eq)

subsection \<open>UTF-8\<close>

definition isCont :: "char \<Rightarrow> bool" where
  "isCont c = (digit7 c \<and> \<not> digit6 c)"

text \<open>\<open>utf8.RuneStart\<close>: every byte but a continuation byte.\<close>

definition RuneStart :: "char \<Rightarrow> bool" where
  "RuneStart c = (\<not> isCont c)"

definition byteIn :: "nat \<Rightarrow> nat \<Rightarrow> char \<Rightarrow> bool" where
  "byteIn lo hi c = (lo \<le> of_char c \<and> of_char c \<le> hi)"

text \<open>
  The length of the rune encoding at the head of a string, as \<open>utf8.DecodeRuneInString\<close> accepts
  it (no overlong forms, no surrogates, nothing above U+10FFFF); 0 where it returns
  \<open>(RuneError, 1)\<close> for an invalid byte, and 0 for the empty string.
\<close>

definition secondLo :: "char \<Rightarrow> nat" where
  "secondLo c = (if of_char c = (0xE0::nat) then 0xA0 else if of_char c = (0xF0::nat) then 0x90 else 0x80)"

definition secondHi :: "char \<Rightarrow> nat" where
  "secondHi c = (if of_char c = (0xED::nat) then 0x9F else if of_char c = (0xF4::nat) then 0x8F else 0xBF)"

fun tail2 :: "string \<Rightarrow> nat" where
  "tail2 (b # _) = (if isCont b then 2 else 0)"
| "tail2 _ = 0"

fun tail3 :: "char \<Rightarrow> string \<Rightarrow> nat" where
  "tail3 c (b # d # _) = (if byteIn (secondLo c) (secondHi c) b \<and> isCont d then 3 else 0)"
| "tail3 c _ = 0"

fun tail4 :: "char \<Rightarrow> string \<Rightarrow> nat" where
  "tail4 c (b # d # e # _) =
     (if byteIn (secondLo c) (secondHi c) b \<and> isCont d \<and> isCont e then 4 else 0)"
| "tail4 c _ = 0"

fun runeLen :: "string \<Rightarrow> nat" where
  "runeLen [] = 0"
| "runeLen (c # s) =
     (if \<not> digit7 c then 1
      else if byteIn 0xC2 0xDF c then tail2 s
      else if byteIn 0xE0 0xEF c then tail3 c s
      else if byteIn 0xF0 0xF4 c then tail4 c s
      else 0)"

text \<open>The bytes a \<open>range\<close> loop writes back with \<open>WriteRune\<close>.\<close>

function rangeBytes :: "string \<Rightarrow> string" where
  "rangeBytes [] = []"
| "rangeBytes (c # s) =
     (if runeLen (c # s) = 0 then [CHR 0xEF, CHR 0xBF, CHR 0xBD] @ rangeBytes s
      else take (runeLen (c # s)) (c # s) @ rangeBytes (drop (runeLen (c # s)) (c # s)))"
  by pat_completeness auto
termination
  by (relation "measure length") auto

text \<open>\<open>utf8.ValidString\<close>.\<close>

function validUTF8 :: "string \<Rightarrow> bool" where
  "validUTF8 s =
     (if s = [] then True else if runeLen s = 0 then False else validUTF8 (drop (runeLen s) s))"
  by pat_completeness auto
termination
  by (relation "measure length") auto

declare validUTF8.simps [simp del]

definition isASCII :: "string \<Rightarrow> bool" where
  "isASCII s = list_all (\<lambda>c. \<not> digit7 c) s"

subsection \<open>Decimal numbers\<close>

text \<open>The \<open>%d\<close> of \<open>fmt.Sprintf\<close>.\<close>

definition digitChar :: "nat \<Rightarrow> char" where
  "digitChar d = char_of (48 + d)"

fun natString :: "nat \<Rightarrow> string" where
  "natString n = (if n < 10 then [digitChar n] else natString (n div 10) @ [digitChar (n mod 10)])"

declare natString.simps [simp del]

definition intString :: "int \<Rightarrow> string" where
  "intString i = (if i < 0 then CHR ''-'' # natString (nat (- i)) else natString (nat i))"

text \<open>Arithmetic on an \<open>int64\<close> wraps.\<close>

definition wrap64 :: "int \<Rightarrow> int" where
  "wrap64 x = (x + 2 ^ 63) mod 2 ^ 64 - 2 ^ 63"

subsection \<open>White space and letter case\<close>

text \<open>The encodings of the runes with \<open>unicode.IsSpace\<close>.\<close>

definition spaceRunes :: "string list" where
  "spaceRunes =
     [[SP], [TAB], [NL], [CHR 0x0B], [CHR 0x0C], [CHR 0x0D],
      [CHR 0xC2, CHR 0x85], [CHR 0xC2, CHR 0xA0], [CHR 0xE1, CHR 0x9A, CHR 0x80],
      [CHR 0xE2, CHR 0x80, CHR 0x80], [CHR 0xE2, CHR 0x80, CHR 0x81],
      [CHR 0xE2, CHR 0x80, CHR 0x82], [CHR 0xE2, CHR 0x80, CHR 0x83],
      [CHR 0xE2, CHR 0x80, CHR 0x84], [CHR 0xE2, CHR 0x80, CHR 0x85],
      [CHR 0xE2, CHR 0x80, CHR 0x86], [CHR 0xE2, CHR 0x80, CHR 0x87],
      [CHR 0xE2, CHR 0x80, CHR 0x88], [CHR 0xE2, CHR 0x80, CHR 0x89],
      [CHR 0xE2, CHR 0x80, CHR 0x8A], [CHR 0xE2, CHR 0x80, CHR 0xA8],
      [CHR 0xE2, CHR 0x80, CHR 0xA9], [CHR 0xE2, CHR 0x80, CHR 0xAF],
      [CHR 0xE2, CHR 0x81, CHR 0x9F], [CHR 0xE3, CHR 0x80, CHR 0x80]]"

function trimLeftRunes :: "string list \<Rightarrow> string \<Rightarrow> string" where
  "trimLeftRunes sps s =
     (case find (\<lambda>w. w \<noteq> [] \<and> HasPrefix s w) sps of
        None \<Rightarrow> s
      | Some w \<Rightarrow> trimLeftRunes sps (drop (length w) s))"
  by pat_completeness auto
termination
proof (relation "measure (\<lambda>(sps, s). length s)")
  show "wf (measure (\<lambda>(sps :: string list, s :: string). length s))" by simp
next
  fix sps :: "string list" and s w :: string
  assume "find (\<lambda>w. w \<noteq> [] \<and> HasPrefix s w) sps = Some w"
  then have "w \<noteq> []" "HasPrefix s w" by (auto simp: find_Some_iff)
  then show "((sps, drop (length w) s), sps, s) \<in> measure (\<lambda>(sps, s). length s)"
    by (cases s; cases w) auto
qed

declare trimLeftRunes.simps [simp del]

text \<open>\<open>strings.TrimSpace\<close>.  A suffix that is the encoding of a rune is the rune that decoding
  backwards from the end finds.\<close>

definition TrimSpace :: "string \<Rightarrow> string" where
  "TrimSpace s = rev (trimLeftRunes (map rev spaceRunes) (rev (trimLeftRunes spaceRunes s)))"

text \<open>\<open>strings.TrimLeft\<close> with an ASCII cut set.\<close>

definition TrimLeft :: "string \<Rightarrow> char list \<Rightarrow> string" where
  "TrimLeft s cs = dropWhile (\<lambda>c. c \<in> set cs) s"

record unicode_tables =
  mapLower :: "string \<Rightarrow> string"              \<comment> \<open>\<open>strings.Map(unicode.ToLower, s)\<close>\<close>
  foldTail :: "string \<Rightarrow> string \<Rightarrow> bool"       \<comment> \<open>\<open>EqualFold\<close> from the first non-ASCII byte on\<close>

definition lowerByte :: "char \<Rightarrow> char" where
  "lowerByte c = (if byteIn 0x41 0x5A c then char_of ((of_char c :: nat) + 32) else c)"

definition ToLower :: "unicode_tables \<Rightarrow> string \<Rightarrow> string" where
  "ToLower U s = (if isASCII s then map lowerByte s else mapLower U s)"

fun EqualFold :: "unicode_tables \<Rightarrow> string \<Rightarrow> string \<Rightarrow> bool" where
  "EqualFold U [] [] = True"
| "EqualFold U [] (d # t) = False"
| "EqualFold U (c # s) [] = False"
| "EqualFold U (c # s) (d # t) =
     (if digit7 c \<or> digit7 d then foldTail U (c # s) (d # t)
      else lowerByte c = lowerByte d \<and> EqualFold U s t)"

text \<open>A concrete instance of the tables, in which only ASCII letters have case.\<close>

definition asciiTables :: unicode_tables where
  "asciiTables = \<lparr>mapLower = map lowerByte, foldTail = (\<lambda>s t. map lowerByte s = map lowerByte t)\<rparr>"

subsection \<open>Facts\<close>

lemma HasPrefix_iff [go_sub]: "HasPrefix s p \<longleftrightarrow> prefix p s"
  by (induction s p rule: HasPrefix.induct) auto

lemma HasPrefix_append [simp]: "HasPrefix (p @ s) p"
  by (simp add: HasPrefix_iff)

lemma HasPrefix_take: "HasPrefix s p \<Longrightarrow> s = p @ drop (length p) s"
  by (auto simp: HasPrefix_iff prefix_def)

lemma HasSuffix_iff [go_sub]: "HasSuffix s p \<longleftrightarrow> suffix p s"
  by (simp add: HasSuffix_def HasPrefix_iff suffix_to_prefix)

lemma Index_Some:
  "Index s p = Some i \<Longrightarrow> i + length p \<le> length s \<and> s = take i s @ p @ drop (i + length p) s"
proof (induction s p arbitrary: i rule: Index.induct)
  case (1 p)
  then show ?case by (auto split: if_splits)
next
  case (2 c s p)
  show ?case
  proof (cases "HasPrefix (c # s) p")
    case True
    with "2.prems" have "i = 0" by simp
    moreover from True have "length p \<le> length (c # s)"
      by (metis HasPrefix_iff prefix_length_le)
    ultimately show ?thesis using HasPrefix_take [OF True] by simp
  next
    case False
    with "2.prems" obtain j where "Index s p = Some j" "i = Suc j" by auto
    with "2.IH" [OF False] show ?thesis by auto
  qed
qed

lemma Index_None: "Index s p = None \<longleftrightarrow> \<not> sublist p s"
proof (induction s p rule: Index.induct)
  case (1 p)
  then show ?case by simp
next
  case (2 c s p)
  then show ?case by (auto simp: HasPrefix_iff sublist_Cons_right)
qed

lemma Contains_iff [go_sub]: "Contains s p \<longleftrightarrow> sublist p s"
  by (simp add: Contains_def Index_None)

lemma IndexAny_Some:
  "IndexAny s cs = Some i \<Longrightarrow> i < length s \<and> s ! i \<in> set cs \<and> (\<forall>j<i. s ! j \<notin> set cs)"
proof (induction s cs arbitrary: i rule: IndexAny.induct)
  case (1 cs)
  then show ?case by simp
next
  case (2 c s cs)
  show ?case
  proof (cases "c \<in> set cs")
    case False
    with "2.prems" obtain j where "IndexAny s cs = Some j" "i = Suc j" by auto
    with "2.IH" [OF False] False show ?thesis by (auto simp: less_Suc_eq_0_disj)
  qed (use "2.prems" in auto)
qed

lemma IndexAny_None: "IndexAny s cs = None \<longleftrightarrow> set s \<inter> set cs = {}"
  by (induction s cs rule: IndexAny.induct) auto

lemma LastIndexByte_None: "LastIndexByte s b = None \<longleftrightarrow> b \<notin> set s"
  by (induction s b rule: LastIndexByte.induct) (auto split: option.splits)

lemma sublist_same_length: "sublist a b \<Longrightarrow> length a = length b \<Longrightarrow> a = b"
  by (auto simp: sublist_def)

lemma trimLeftRunes_suffix: "suffix (trimLeftRunes sps s) s"
proof (induction sps s rule: trimLeftRunes.induct)
  case (1 sps s)
  show ?case
    by (subst trimLeftRunes.simps)
       (auto split: option.splits intro: suffix_order.trans [OF "1.IH"] suffix_drop)
qed

lemma TrimSpace_sublist [go_sub]: "sublist (TrimSpace s) s"
proof -
  let ?l = "trimLeftRunes spaceRunes s"
  have "prefix (TrimSpace s) ?l"
    unfolding TrimSpace_def using trimLeftRunes_suffix [of "map rev spaceRunes" "rev ?l"]
    by (simp add: suffix_to_prefix)
  moreover have "suffix ?l s" by (rule trimLeftRunes_suffix)
  ultimately show ?thesis by (metis prefix_imp_sublist suffix_imp_sublist sublist_order.order_trans)
qed

lemma TrimSpace_length [go_len]: "length (TrimSpace s) \<le> length s"
  using TrimSpace_sublist by (rule sublist_length_le)

lemma TrimSpace_length_le [go_len]: "length s \<le> n \<Longrightarrow> length (TrimSpace s) \<le> n"
  using TrimSpace_length [of s] by linarith

text \<open>A string is trimmed when no white-space rune starts or ends it.\<close>

definition trimmed :: "string \<Rightarrow> bool" where
  "trimmed s = list_all (\<lambda>w. \<not> HasPrefix s w \<and> \<not> HasSuffix s w) spaceRunes"

lemma trimLeftRunes_decomp: "\<exists>ws. set ws \<subseteq> set sps \<and> s = concat ws @ trimLeftRunes sps s"
proof (induction sps s rule: trimLeftRunes.induct)
  case (1 sps s)
  show ?case
  proof (cases "find (\<lambda>w. w \<noteq> [] \<and> HasPrefix s w) sps")
    case None
    then have "s = concat [] @ trimLeftRunes sps s" by (subst trimLeftRunes.simps) simp
    then show ?thesis by (metis empty_subsetI list.set(1))
  next
    case (Some w)
    then have w: "w \<in> set sps" "s = w @ drop (length w) s"
      by (auto simp: find_Some_iff dest: HasPrefix_take)
    from "1.IH" [OF Some] obtain ws where
      "set ws \<subseteq> set sps" "drop (length w) s = concat ws @ trimLeftRunes sps (drop (length w) s)"
      by blast
    moreover have "trimLeftRunes sps s = trimLeftRunes sps (drop (length w) s)"
      using Some by (subst trimLeftRunes.simps) simp
    ultimately have "set (w # ws) \<subseteq> set sps \<and> s = concat (w # ws) @ trimLeftRunes sps s"
      using w by simp
    then show ?thesis by blast
  qed
qed

lemma trimLeftRunes_stop:
  "w \<in> set sps \<Longrightarrow> w \<noteq> [] \<Longrightarrow> \<not> HasPrefix (trimLeftRunes sps s) w"
proof (induction sps s rule: trimLeftRunes.induct)
  case (1 sps s)
  then show ?case
    by (subst trimLeftRunes.simps) (auto simp: find_None_iff split: option.splits)
qed

lemma trimLeftRunes_id:
  "(\<And>w. w \<in> set sps \<Longrightarrow> \<not> HasPrefix s w) \<Longrightarrow> trimLeftRunes sps s = s"
  by (subst trimLeftRunes.simps) (auto simp: find_Some_iff split: option.splits)

lemma spaceRunes_nonempty: "w \<in> set spaceRunes \<Longrightarrow> w \<noteq> []"
  by (auto simp: spaceRunes_def)

lemma trimmed_TrimSpace: "trimmed (TrimSpace s)"
proof -
  let ?l = "trimLeftRunes spaceRunes s"
  have pre: "prefix (TrimSpace s) ?l"
    unfolding TrimSpace_def using trimLeftRunes_suffix [of "map rev spaceRunes" "rev ?l"]
    by (simp add: suffix_to_prefix)
  have "\<not> HasPrefix (TrimSpace s) w" if "w \<in> set spaceRunes" for w
    using trimLeftRunes_stop [OF that spaceRunes_nonempty [OF that], of s] pre
    by (auto simp: HasPrefix_iff dest: prefix_order.trans)
  moreover have "\<not> HasSuffix (TrimSpace s) w" if "w \<in> set spaceRunes" for w
    using trimLeftRunes_stop [of "rev w" "map rev spaceRunes" "rev ?l"] that
      spaceRunes_nonempty [OF that]
    by (auto simp: HasSuffix_def TrimSpace_def)
  ultimately show ?thesis by (simp add: trimmed_def list_all_iff)
qed

lemma TrimSpace_id: "trimmed s \<Longrightarrow> TrimSpace s = s"
proof -
  assume t: "trimmed s"
  then have "trimLeftRunes spaceRunes s = s"
    by (intro trimLeftRunes_id) (auto simp: trimmed_def list_all_iff)
  moreover from t have "trimLeftRunes (map rev spaceRunes) (rev s) = rev s"
    by (intro trimLeftRunes_id) (auto simp: trimmed_def list_all_iff HasSuffix_def)
  ultimately show ?thesis by (simp add: TrimSpace_def)
qed

lemma TrimSpace_idem [simp]: "TrimSpace (TrimSpace s) = TrimSpace s"
  by (simp add: TrimSpace_id trimmed_TrimSpace)

lemma TrimSpace_decomp:
  obtains a b where "s = concat a @ TrimSpace s @ concat b"
    "set a \<subseteq> set spaceRunes" "set b \<subseteq> set spaceRunes"
proof -
  let ?l = "trimLeftRunes spaceRunes s"
  obtain a where a: "set a \<subseteq> set spaceRunes" "s = concat a @ ?l"
    using trimLeftRunes_decomp by blast
  obtain b where b: "set b \<subseteq> set (map rev spaceRunes)"
      "rev ?l = concat b @ trimLeftRunes (map rev spaceRunes) (rev ?l)"
    using trimLeftRunes_decomp by blast
  then have "?l = rev (concat b @ rev (TrimSpace s))"
    by (metis TrimSpace_def rev_rev_ident)
  then have "?l = TrimSpace s @ concat (rev (map rev b))"
    by (simp add: rev_concat rev_map)
  moreover have "set (rev (map rev b)) \<subseteq> set spaceRunes" using b(1) by auto
  ultimately show ?thesis using a that by metis
qed

subsubsection \<open>Valid encodings\<close>

lemma tail2_append: "tail2 s \<noteq> 0 \<Longrightarrow> tail2 (s @ t) = tail2 s"
  by (cases s) auto

lemma tail3_append: "tail3 c s \<noteq> 0 \<Longrightarrow> tail3 c (s @ t) = tail3 c s"
  by (cases "(c, s)" rule: tail3.cases) auto

lemma tail4_append: "tail4 c s \<noteq> 0 \<Longrightarrow> tail4 c (s @ t) = tail4 c s"
  by (cases "(c, s)" rule: tail4.cases) auto

lemma tail2_le: "tail2 s \<le> Suc (length s)"
  by (cases s) auto

lemma tail3_le: "tail3 c s \<le> Suc (length s)"
  by (cases "(c, s)" rule: tail3.cases) auto

lemma tail4_le: "tail4 c s \<le> Suc (length s)"
  by (cases "(c, s)" rule: tail4.cases) auto

lemma runeLen_append: "runeLen s \<noteq> 0 \<Longrightarrow> runeLen (s @ t) = runeLen s"
  by (cases s) (auto simp: tail2_append tail3_append tail4_append split: if_splits)

lemma runeLen_le: "runeLen s \<le> length s"
  by (cases s) (auto simp: tail2_le tail3_le tail4_le)

declare runeLen.simps(2) [simp del]

lemma rangeBytes_step:
  "runeLen s \<noteq> 0 \<Longrightarrow> rangeBytes s = take (runeLen s) s @ rangeBytes (drop (runeLen s) s)"
  by (cases s) auto

lemma validUTF8_step: "runeLen s \<noteq> 0 \<Longrightarrow> validUTF8 s = validUTF8 (drop (runeLen s) s)"
  by (subst validUTF8.simps) auto

lemma validUTF8_runeLen: "validUTF8 s \<Longrightarrow> s \<noteq> [] \<Longrightarrow> runeLen s \<noteq> 0"
  by (simp add: validUTF8.simps [of s] split: if_splits)

lemma rangeBytes_valid_append: "validUTF8 s \<Longrightarrow> rangeBytes (s @ t) = s @ rangeBytes t"
proof (induction s rule: validUTF8.induct)
  case (1 s)
  show ?case
  proof (cases "s = []")
    case False
    note r = validUTF8_runeLen [OF "1.prems" False]
    note ra = runeLen_append [OF r, of t]
    from r ra have "rangeBytes (s @ t) = take (runeLen s) s @ rangeBytes (drop (runeLen s) s @ t)"
      using rangeBytes_step [of "s @ t"] runeLen_le [of s] by simp
    with "1.IH" [OF False r] validUTF8_step [OF r] "1.prems" show ?thesis by simp
  qed simp
qed

lemma rangeBytes_valid: "validUTF8 s \<Longrightarrow> rangeBytes s = s"
  using rangeBytes_valid_append [of s "[]"] by simp

lemma validUTF8_append: "validUTF8 s \<Longrightarrow> validUTF8 t \<Longrightarrow> validUTF8 (s @ t)"
proof (induction s rule: validUTF8.induct)
  case (1 s)
  show ?case
  proof (cases "s = []")
    case False
    note r = validUTF8_runeLen [OF "1.prems"(1) False]
    note ra = runeLen_append [OF r, of t]
    from r "1.IH" [OF False r] "1.prems" have "validUTF8 (drop (runeLen s) s @ t)"
      using validUTF8_step [OF r] by simp
    with r ra runeLen_le [of s] show ?thesis using validUTF8_step [of "s @ t"] by simp
  qed (use "1.prems" in simp)
qed

lemma runeLen_ASCII: "\<not> digit7 c \<Longrightarrow> runeLen (c # s) = 1"
  by (simp add: runeLen.simps)

lemma validUTF8_ASCII: "isASCII s \<Longrightarrow> validUTF8 s"
  by (induction s) (auto simp: isASCII_def validUTF8_step runeLen_ASCII validUTF8.simps [of "[]"])

lemma rangeBytes_ASCII: "isASCII s \<Longrightarrow> rangeBytes s = s"
  by (simp add: rangeBytes_valid validUTF8_ASCII)

lemma of_char_bits: "\<exists>low<64. of_char c = low + 64 * of_bool (digit6 c) + (128::nat) * of_bool (digit7 c)"
proof (cases c)
  case (Char b0 b1 b2 b3 b4 b5 b6 b7)
  let ?low = "of_bool b0 + 2 * of_bool b1 + 4 * of_bool b2 + 8 * of_bool b3 + 16 * of_bool b4 + 32 * of_bool b5 :: nat"
  have "?low < 64" by (simp add: of_bool_def)
  moreover have "of_char c = ?low + 64 * of_bool (digit6 c) + 128 * of_bool (digit7 c)"
    using Char by (simp add: of_char_def)
  ultimately show ?thesis by blast
qed

lemma byteIn_isCont: "byteIn lo hi c \<Longrightarrow> 0x80 \<le> lo \<Longrightarrow> hi \<le> 0xBF \<Longrightarrow> isCont c"
  using of_char_bits [of c] by (auto simp: byteIn_def isCont_def of_bool_def split: if_splits)

lemma byteIn_RuneStart: "byteIn lo hi c \<Longrightarrow> 0xC0 \<le> lo \<Longrightarrow> RuneStart c"
  using of_char_bits [of c] by (auto simp: byteIn_def isCont_def RuneStart_def of_bool_def split: if_splits)

lemma second_isCont: "byteIn (secondLo c) (secondHi c) b \<Longrightarrow> isCont b"
  by (erule byteIn_isCont) (auto simp: secondLo_def secondHi_def)

lemma runeLen_hd: "runeLen (c # s) \<noteq> 0 \<Longrightarrow> RuneStart c"
  by (auto simp: runeLen.simps RuneStart_def isCont_def dest: byteIn_RuneStart split: if_splits)

lemma tail2_cont: "tail2 s \<noteq> 0 \<Longrightarrow> tail2 s = 2 \<and> isCont (s ! 0)"
  by (cases s rule: tail2.cases) (auto split: if_splits)

lemma tail3_cont: "tail3 c s \<noteq> 0 \<Longrightarrow> tail3 c s = 3 \<and> isCont (s ! 0) \<and> isCont (s ! 1)"
  by (cases "(c, s)" rule: tail3.cases) (auto split: if_splits dest: second_isCont)

lemma tail4_cont:
  "tail4 c s \<noteq> 0 \<Longrightarrow> tail4 c s = 4 \<and> isCont (s ! 0) \<and> isCont (s ! 1) \<and> isCont (s ! 2)"
  by (cases "(c, s)" rule: tail4.cases) (auto split: if_splits dest: second_isCont)

lemma runeLen_cont: "0 < j \<Longrightarrow> j < runeLen s \<Longrightarrow> isCont (s ! j)"
proof (cases s)
  case (Cons c t)
  assume j: "0 < j" "j < runeLen s"
  consider "runeLen s = 1" | "runeLen s = tail2 t" "tail2 t \<noteq> 0" | "runeLen s = tail3 c t" "tail3 c t \<noteq> 0"
    | "runeLen s = tail4 c t" "tail4 c t \<noteq> 0"
    using j Cons by (auto simp: runeLen.simps split: if_splits)
  then show ?thesis
  proof cases
    case 2 with j Cons tail2_cont [of t] show ?thesis by (auto simp: less_Suc_eq numeral_2_eq_2)
  next
    case 3 with j Cons tail3_cont [of c t] show ?thesis by (auto simp: less_Suc_eq numeral_3_eq_3)
  next
    case 4 with j Cons tail4_cont [of c t] show ?thesis by (auto simp: less_Suc_eq numeral_eq_Suc)
  qed (use j in simp)
qed simp

lemma runeLen_le4: "runeLen s \<le> 4"
proof (cases s)
  case (Cons c t)
  have "tail2 t \<le> 4" by (cases "tail2 t = 0") (simp_all add: tail2_cont)
  moreover have "tail3 c t \<le> 4" by (cases "tail3 c t = 0") (simp_all add: tail3_cont)
  moreover have "tail4 c t \<le> 4" by (cases "tail4 c t = 0") (simp_all add: tail4_cont)
  ultimately show ?thesis using Cons by (auto simp: runeLen.simps)
qed simp

lemma runeLen_take_self: "runeLen s \<noteq> 0 \<Longrightarrow> runeLen (take (runeLen s) s) = runeLen s"
proof (cases s)
  case (Cons c t)
  assume r: "runeLen s \<noteq> 0"
  have "tail2 (take 1 t) = tail2 t" if "tail2 t \<noteq> 0" using that by (cases t) auto
  moreover have "tail3 c (take 2 t) = tail3 c t" if "tail3 c t \<noteq> 0"
    using that by (cases "(c, t)" rule: tail3.cases) (auto simp: numeral_2_eq_2)
  moreover have "tail4 c (take 3 t) = tail4 c t" if "tail4 c t \<noteq> 0"
    using that by (cases "(c, t)" rule: tail4.cases) (auto simp: numeral_3_eq_3)
  ultimately show ?thesis
    using r Cons tail2_cont [of t] tail3_cont [of c t] tail4_cont [of c t]
    by (auto simp: runeLen.simps take_Cons' split: if_splits)
qed simp

lemma runeLen_take: "runeLen s \<noteq> 0 \<Longrightarrow> runeLen s \<le> k \<Longrightarrow> runeLen (take k s) = runeLen s"
proof -
  assume r: "runeLen s \<noteq> 0" "runeLen s \<le> k"
  have "runeLen (take (runeLen s) s) = runeLen s" by (rule runeLen_take_self [OF r(1)])
  moreover have "take k s = take (runeLen s) s @ drop (runeLen s) (take k s)"
    using r(2) by (metis append_take_drop_id min.absorb1 take_take)
  ultimately show ?thesis using r(1) runeLen_append [of "take (runeLen s) s" "drop (runeLen s) (take k s)"] by simp
qed

lemma validUTF8_split:
  "validUTF8 s \<Longrightarrow> k < length s \<Longrightarrow> RuneStart (s ! k) \<Longrightarrow> validUTF8 (take k s) \<and> validUTF8 (drop k s)"
proof (induction s arbitrary: k rule: validUTF8.induct)
  case (1 s)
  let ?r = "runeLen s"
  from "1.prems" have ne: "s \<noteq> []" by auto
  then have r: "?r \<noteq> 0" using validUTF8_runeLen "1.prems" by blast
  have rest: "validUTF8 (drop ?r s)" using validUTF8_step [OF r] "1.prems" by simp
  show ?case
  proof (cases "k < ?r")
    case True
    with "1.prems" have "k = 0" using runeLen_cont [of k s] by (auto simp: RuneStart_def)
    with "1.prems" show ?thesis by (simp add: validUTF8.simps [of "[]"])
  next
    case False
    then have k: "drop ?r s ! (k - ?r) = s ! k" "take k s = take ?r s @ take (k - ?r) (drop ?r s)"
      "drop (k - ?r) (drop ?r s) = drop k s"
      using "1.prems" by (auto simp flip: take_add)
    from "1.IH" [OF ne r rest, of "k - ?r"] "1.prems" False k
    have IH: "validUTF8 (take (k - ?r) (drop ?r s))" "validUTF8 (drop k s)" by auto
    have "runeLen (take k s) = ?r"
      using runeLen_take [OF r, of k] False by simp
    moreover have "drop ?r (take k s) = take (k - ?r) (drop ?r s)" by (simp add: drop_take)
    ultimately have "validUTF8 (take k s)" using IH(1) r by (simp add: validUTF8_step)
    with IH show ?thesis by simp
  qed
qed

end
