(* ===== verification/Shell_Lex.thy ===== *)
theory Shell_Lex
  imports Go_Prelude
begin

section \<open>Quote-aware scanning of command lines\<close>

text \<open>
  The lexical half of \<^verbatim>\<open>internal/sandbox/command_guard.go\<close>: the scanners that walk a command line
  with the two flags \<open>inSingle\<close> and \<open>inDouble\<close>, the word-boundary prefix match, the splitting on
  chain operators, the peeling of wrapper commands, the leading variable assignments and the
  extraction of \<open>$(...)\<close> substitutions.  Loops over a byte index are recursions on the remaining
  input; where the code keeps byte positions (\<open>splitByOperators\<close>) the model keeps them too.
\<close>

subsection \<open>Definitions\<close>

datatype lex_error = UnterminatedQuote

text \<open>\<open>unquotedStructure\<close>: the contents of every quoted span removed, the quotes too.\<close>

fun unquotedLoop :: "bool \<Rightarrow> bool \<Rightarrow> string \<Rightarrow> string" where
  "unquotedLoop inSingle inDouble [] = []"
| "unquotedLoop inSingle inDouble (r # rs) =
     (if inSingle then unquotedLoop (r \<noteq> SQ) inDouble rs
      else if inDouble then unquotedLoop inSingle (r \<noteq> DQ) rs
      else if r = SQ then unquotedLoop True inDouble rs
      else if r = DQ then unquotedLoop inSingle True rs
      else r # unquotedLoop inSingle inDouble rs)"

definition unquotedStructure :: "string \<Rightarrow> string" where
  "unquotedStructure command = unquotedLoop False False (rangeBytes command)"

definition shellOperators :: "string list" where
  "shellOperators = [[NL], ''&'']"

definition ContainsShellOperators :: "string \<Rightarrow> bool" where
  "ContainsShellOperators command =
     (let structure = unquotedStructure command in
      list_ex (\<lambda>op. Contains structure op \<and>
                 \<not> (op = ''&'' \<and> \<not> Contains (ReplaceAll structure ''&&'' []) ''&''))
        shellOperators)"

definition chainOperators :: "string list" where
  "chainOperators = [''&&'', ''||'', ''|'', '';'']"

definition ContainsChainOperators :: "string \<Rightarrow> bool" where
  "ContainsChainOperators command =
     (let structure = unquotedStructure command in
      list_ex (Contains structure) chainOperators)"

text \<open>\<open>SplitArgs\<close>: the accumulated arguments, the current token and the three flags.\<close>

fun splitArgsLoop ::
  "string list \<Rightarrow> string \<Rightarrow> bool \<Rightarrow> bool \<Rightarrow> bool \<Rightarrow> string \<Rightarrow> lex_error + string list" where
  "splitArgsLoop args cur inSingle inDouble hasToken [] =
     (if inSingle \<or> inDouble then Inl UnterminatedQuote
      else if hasToken then Inr (args @ [cur]) else Inr args)"
| "splitArgsLoop args cur inSingle inDouble hasToken (r # rs) =
     (if inSingle then
        (if r = SQ then splitArgsLoop args cur False inDouble hasToken rs
         else splitArgsLoop args (cur @ [r]) inSingle inDouble hasToken rs)
      else if inDouble then
        (if r = DQ then splitArgsLoop args cur inSingle False hasToken rs
         else splitArgsLoop args (cur @ [r]) inSingle inDouble hasToken rs)
      else if r = SQ then splitArgsLoop args cur True inDouble True rs
      else if r = DQ then splitArgsLoop args cur inSingle True True rs
      else if r = SP \<or> r = TAB then
        (if hasToken then splitArgsLoop (args @ [cur]) [] inSingle inDouble False rs
         else splitArgsLoop args cur inSingle inDouble hasToken rs)
      else splitArgsLoop args (cur @ [r]) inSingle inDouble True rs)"

definition SplitArgs :: "string \<Rightarrow> lex_error + string list" where
  "SplitArgs command = splitArgsLoop [] [] False False False (rangeBytes command)"

definition matchesPrefix :: "string \<Rightarrow> string \<Rightarrow> bool" where
  "matchesPrefix command pfx = (command = pfx \<or> HasPrefix command (pfx @ '' ''))"

fun longestLoop :: "string \<Rightarrow> string \<Rightarrow> string list \<Rightarrow> string" where
  "longestLoop command best [] = best"
| "longestLoop command best (p # ps) =
     longestLoop command
       (if matchesPrefix command p \<and> length p > length best then p else best) ps"

definition longestPrefixMatch :: "string \<Rightarrow> string list \<Rightarrow> string" where
  "longestPrefixMatch command pfxs = longestLoop command [] pfxs"

text \<open>\<open>splitByOperators\<close>: first the positions of the operators outside quotes, then the cuts.\<close>

fun splitPoints :: "bool \<Rightarrow> bool \<Rightarrow> nat \<Rightarrow> string \<Rightarrow> (nat \<times> string) list" where
  "splitPoints inSingle inDouble i [] = []"
| "splitPoints inSingle inDouble i (r # rs) =
     (if inSingle then splitPoints (r \<noteq> SQ) inDouble (i + 1) rs
      else if inDouble then splitPoints inSingle (r \<noteq> DQ) (i + 1) rs
      else if r = SQ then splitPoints True inDouble (i + 1) rs
      else if r = DQ then splitPoints inSingle True (i + 1) rs
      else if HasPrefix (r # rs) ''&&'' then
        (i, ''&&'') # splitPoints inSingle inDouble (i + 2) (drop 1 rs)
      else if HasPrefix (r # rs) ''||'' then
        (i, ''||'') # splitPoints inSingle inDouble (i + 2) (drop 1 rs)
      else if r = CHR '';'' then (i, '';'') # splitPoints inSingle inDouble (i + 1) rs
      else if r = CHR ''|'' then (i, ''|'') # splitPoints inSingle inDouble (i + 1) rs
      else splitPoints inSingle inDouble (i + 1) rs)"

fun cutAtPoints :: "string \<Rightarrow> nat \<Rightarrow> (nat \<times> string) list \<Rightarrow> string list \<times> string list" where
  "cutAtPoints cmd start [] =
     (let last = TrimSpace (drop start cmd) in (if last \<noteq> [] then [last] else [], []))"
| "cutAtPoints cmd start ((pos, op) # points) =
     (let sub = TrimSpace (take (pos - start) (drop start cmd));
          (subs, ops) = cutAtPoints cmd (pos + length op) points
      in if sub \<noteq> [] then (sub # subs, op # ops) else (subs, ops))"

definition splitByOperators :: "string \<Rightarrow> string list \<times> string list" where
  "splitByOperators command =
     (let cmd = TrimSpace command; points = splitPoints False False 0 cmd in
      if points = [] then ([cmd], []) else cutAtPoints cmd 0 points)"

definition SplitCommands :: "string \<Rightarrow> string list" where
  "SplitCommands command = fst (splitByOperators command)"

definition skipFirstArg :: "string \<Rightarrow> string" where
  "skipFirstArg s0 =
     (let s = TrimSpace s0 in
      case IndexAny s [SP, TAB] of None \<Rightarrow> [] | Some idx \<Rightarrow> TrimSpace (drop idx s))"

function skipEnvArgs :: "string \<Rightarrow> string" where
  "skipEnvArgs s0 =
     (let s = TrimSpace s0 in
      case IndexAny s [SP, TAB] of
        None \<Rightarrow> if Contains s ''='' then [] else s
      | Some idx \<Rightarrow>
          if \<not> Contains (take idx s) ''='' then s else skipEnvArgs (drop (idx + 1) s))"
  by pat_completeness auto
termination
proof (relation "measure length")
  fix s0 s idx
  assume "s = TrimSpace s0" "IndexAny s [SP, TAB] = Some idx"
  then have "idx < length s" "length s \<le> length s0"
    by (auto dest: IndexAny_Some simp: go_len)
  then show "(drop (idx + 1) s, s0) \<in> measure length" by simp
qed simp

declare skipEnvArgs.simps [simp del]

text \<open>The loop of the \<open>stdbuf\<close> case, which drops one flag per round, and that of the \<open>sudo\<close> case,
  which drops a flag and the word after it.\<close>

lemma skipFirstArg_length: "length (skipFirstArg s) \<le> length s"
proof -
  have "length (TrimSpace s) - i \<le> length s" for i
    using TrimSpace_length [of s] by linarith
  then show ?thesis
    by (auto simp: skipFirstArg_def Let_def split: option.splits intro!: TrimSpace_length_le)
qed

lemma skipFirstArg_flag: "HasPrefix s ''-'' \<Longrightarrow> length (skipFirstArg s) < length s"
proof -
  assume flag: "HasPrefix s ''-''"
  then obtain s' where s: "s = CHR ''-'' # s'" by (cases s) auto
  show ?thesis
  proof (cases "IndexAny (TrimSpace s) [SP, TAB]")
    case None
    with s show ?thesis by (simp add: skipFirstArg_def)
  next
    case (Some i)
    have le: "length (TrimSpace (drop i (TrimSpace s))) \<le> length (TrimSpace s) - i"
      using TrimSpace_length [of "drop i (TrimSpace s)"] by simp
    have "length (TrimSpace s) - i < length s"
    proof (cases "length (TrimSpace s) = length s")
      case True
      then have "TrimSpace s = s"
        using TrimSpace_sublist by (metis sublist_same_length)
      with Some s have "i \<noteq> 0" by (auto dest!: IndexAny_Some)
      with True s show ?thesis by simp
    next
      case False
      with TrimSpace_length [of s] show ?thesis by linarith
    qed
    with le Some show ?thesis by (simp add: skipFirstArg_def)
  qed
qed

function skipFlags :: "string \<Rightarrow> string" where
  "skipFlags rest = (if HasPrefix rest ''-'' then skipFlags (skipFirstArg rest) else rest)"
  by pat_completeness auto
termination
  by (relation "measure length") (auto dest: skipFirstArg_flag)

function skipFlagValues :: "string \<Rightarrow> string" where
  "skipFlagValues rest =
     (if HasPrefix rest ''-'' then skipFlagValues (skipFirstArg (skipFirstArg rest)) else rest)"
  by pat_completeness auto
termination
  by (relation "measure length")
     (auto dest: skipFirstArg_flag intro: le_less_trans [OF skipFirstArg_length])

declare skipFlags.simps [simp del] skipFlagValues.simps [simp del]

definition safeWrappers :: "string list" where
  "safeWrappers = [''timeout'', ''time'', ''env'', ''nohup'', ''nice'', ''sudo'', ''stdbuf'']"

text \<open>The \<open>switch w\<close> of \<open>peelWrappers\<close>: what is left of the text after the wrapper's name.\<close>

definition wrapperRest :: "string \<Rightarrow> string \<Rightarrow> string" where
  "wrapperRest w rest =
     (if w = ''timeout'' then skipFirstArg rest
      else if w = ''env'' then skipEnvArgs rest
      else if w = ''nice'' then
        (if HasPrefix rest ''-n '' then skipFirstArg (skipFirstArg rest)
         else if HasPrefix rest ''-'' then skipFirstArg rest
         else rest)
      else if w = ''stdbuf'' then skipFlags rest
      else if w = ''sudo'' then
        (let rest' = skipFlagValues rest in
         if HasPrefix rest' ''-- '' then drop 3 rest' else rest')
      else rest)"

lemma skipEnvArgs_length: "length (skipEnvArgs s) \<le> length s"
proof (induction s rule: skipEnvArgs.induct)
  case (1 s0)
  have step: "length (skipEnvArgs (drop (i + 1) (TrimSpace s0))) \<le> length s0"
    if "IndexAny (TrimSpace s0) [SP, TAB] = Some i" "Contains (take i (TrimSpace s0)) ''=''" for i
    using "1.IH" [OF refl that(1)] that(2) TrimSpace_length [of s0] by auto
  show ?case
    by (subst skipEnvArgs.simps)
       (use step in \<open>auto simp: Let_def go_len split: option.splits\<close>)
qed

lemma skipFlags_length: "length (skipFlags s) \<le> length s"
proof (induction s rule: skipFlags.induct)
  case (1 s)
  then show ?case
    by (subst skipFlags.simps) (auto intro: order.trans [OF _ skipFirstArg_length])
qed

lemma skipFlagValues_length: "length (skipFlagValues s) \<le> length s"
proof (induction s rule: skipFlagValues.induct)
  case (1 s)
  then show ?case
    by (subst skipFlagValues.simps)
       (auto intro: order.trans [OF _ order.trans [OF skipFirstArg_length skipFirstArg_length]])
qed

lemma wrapperRest_length: "length (wrapperRest w rest) \<le> length rest"
  using skipFirstArg_length [of rest] skipEnvArgs_length [of rest] skipFlags_length [of rest]
    skipFlagValues_length [of rest] skipFirstArg_length [of "skipFirstArg rest"]
  by (auto simp: wrapperRest_def Let_def)

function peelLoop :: "string \<Rightarrow> string" where
  "peelLoop cmd =
     (case find (\<lambda>w. cmd = w \<or> HasPrefix cmd (w @ '' '')) safeWrappers of
        None \<Rightarrow> cmd
      | Some w \<Rightarrow>
          (let rest = TrimSpace (drop (length w) cmd) in
           if rest = [] then cmd else peelLoop (TrimSpace (wrapperRest w rest))))"
  by pat_completeness auto
termination
proof (relation "measure length")
  fix cmd w rest
  assume w: "find (\<lambda>w. cmd = w \<or> HasPrefix cmd (w @ '' '')) safeWrappers = Some w"
    and rest: "rest = TrimSpace (drop (length w) cmd)" "rest \<noteq> []"
  from w have "w \<in> set safeWrappers" by (auto simp: find_Some_iff)
  then have "0 < length w" by (auto simp: safeWrappers_def)
  moreover have "length rest \<le> length cmd - length w"
    using TrimSpace_length [of "drop (length w) cmd"] rest(1) by simp
  moreover have "0 < length rest" using rest(2) by simp
  ultimately have "length rest < length cmd" by linarith
  moreover have "length (TrimSpace (wrapperRest w rest)) \<le> length rest"
    by (rule order.trans [OF TrimSpace_length wrapperRest_length])
  ultimately show "(TrimSpace (wrapperRest w rest), cmd) \<in> measure length" by simp
qed simp

declare peelLoop.simps [simp del]

definition peelWrappers :: "string \<Rightarrow> string" where
  "peelWrappers command = peelLoop (TrimSpace command)"

text \<open>\<open>extractBracketContent\<close>: the byte index of the bracket that closes depth 1, if any.\<close>

fun closingBracket :: "nat \<Rightarrow> bool \<Rightarrow> bool \<Rightarrow> nat \<Rightarrow> string \<Rightarrow> nat option" where
  "closingBracket depth inSingle inDouble i [] = None"
| "closingBracket depth inSingle inDouble i (r # rs) =
     (if inSingle then closingBracket depth (r \<noteq> SQ) inDouble (i + 1) rs
      else if inDouble then closingBracket depth inSingle (r \<noteq> DQ) (i + 1) rs
      else if r = SQ then closingBracket depth True inDouble (i + 1) rs
      else if r = DQ then closingBracket depth inSingle True (i + 1) rs
      else if r = CHR ''('' then closingBracket (depth + 1) inSingle inDouble (i + 1) rs
      else if r = CHR '')'' then
        (if depth - 1 = 0 then Some i else closingBracket (depth - 1) inSingle inDouble (i + 1) rs)
      else closingBracket depth inSingle inDouble (i + 1) rs)"

definition extractBracketContent :: "string \<Rightarrow> string \<times> nat" where
  "extractBracketContent s =
     (case closingBracket 1 False False 0 s of Some i \<Rightarrow> (take i s, i) | None \<Rightarrow> ([], 0))"

function extractLoop :: "bool \<Rightarrow> bool \<Rightarrow> string \<Rightarrow> string list" where
  "extractLoop inSingle inDouble [] = []"
| "extractLoop inSingle inDouble (r # rs) =
     (if inSingle then extractLoop (r \<noteq> SQ) inDouble rs
      else if inDouble then
        (if HasPrefix (r # rs) ''$('' then
           (let (inner, end) = extractBracketContent (drop 2 (r # rs)) in
            (if inner \<noteq> [] then [TrimSpace inner] else []) @
            extractLoop inSingle inDouble (drop (2 + end + 1) (r # rs)))
         else extractLoop inSingle (r \<noteq> DQ) rs)
      else if r = SQ then extractLoop True inDouble rs
      else if r = DQ then extractLoop inSingle True rs
      else if HasPrefix (r # rs) ''$('' then
        (let (inner, end) = extractBracketContent (drop 2 (r # rs)) in
         (if inner \<noteq> [] then [TrimSpace inner] else []) @
         extractLoop inSingle inDouble (drop (2 + end + 1) (r # rs)))
      else extractLoop inSingle inDouble rs)"
  by pat_completeness auto
termination
  by (relation "measure (\<lambda>(inSingle, inDouble, s). length s)") auto

definition extractCommandSubstitutions :: "string \<Rightarrow> string list" where
  "extractCommandSubstitutions command = extractLoop False False command"

definition dangerousEnvVars :: "string list" where
  "dangerousEnvVars =
     [''PATH'', ''LD_PRELOAD'', ''LD_LIBRARY_PATH'', ''DYLD_INSERT_LIBRARIES'',
      ''DYLD_LIBRARY_PATH'', ''PYTHONPATH'', ''RUBYOPT'', ''RUBYLIB'', ''PERL5LIB'', ''PERLLIB'',
      ''BASH_ENV'', ''ENV'', ''SHELLOPTS'', ''GIT_EXEC_PATH'', ''GIT_TEMPLATE_DIR'',
      ''NPM_CONFIG_REGISTRY'', ''YARN_REGISTRY'', ''PIP_INDEX_URL'', ''PIP_TRUSTED_HOST'']"

text \<open>The first word of a command, up to a blank, and whether it is a \<open>VAR=val\<close> assignment.\<close>

definition firstWord :: "string \<Rightarrow> string" where
  "firstWord cmd = (case IndexAny cmd [SP, TAB] of None \<Rightarrow> cmd | Some idx \<Rightarrow> take idx cmd)"

definition isAssignment :: "string \<Rightarrow> bool" where
  "isAssignment word = (Contains word ''='' \<and> \<not> HasPrefix word ''-'')"

definition assignedVar :: "string \<Rightarrow> string" where
  "assignedVar word = (case Index word ''='' of Some i \<Rightarrow> take i word | None \<Rightarrow> word)"

lemma dropWord_length:
  assumes "isAssignment (firstWord cmd)" "IndexAny cmd [SP, TAB] = Some idx"
  shows "length (TrimSpace (drop idx cmd)) < length cmd"
proof -
  from assms have "Contains (take idx cmd) ''=''" by (simp add: isAssignment_def firstWord_def)
  then have "idx \<noteq> 0" by (cases idx) (auto simp: Contains_def)
  moreover from assms(2) have "idx < length cmd" by (auto dest: IndexAny_Some)
  moreover have "length (TrimSpace (drop idx cmd)) \<le> length cmd - idx"
    using TrimSpace_length [of "drop idx cmd"] by simp
  ultimately show ?thesis by linarith
qed

function dangerousLoop :: "unicode_tables \<Rightarrow> string \<Rightarrow> string option" where
  "dangerousLoop U cmd =
     (if isAssignment (firstWord cmd) then
        (case find (EqualFold U (assignedVar (firstWord cmd))) dangerousEnvVars of
           Some d \<Rightarrow> Some d
         | None \<Rightarrow>
             (case IndexAny cmd [SP, TAB] of
                None \<Rightarrow> None
              | Some idx \<Rightarrow> dangerousLoop U (TrimSpace (drop idx cmd))))
      else None)"
  by pat_completeness auto
termination
  by (relation "measure (\<lambda>(U, s). length s)") (auto dest: dropWord_length)

declare dangerousLoop.simps [simp del]

definition hasDangerousAssignment :: "unicode_tables \<Rightarrow> string \<Rightarrow> string option" where
  "hasDangerousAssignment U command = dangerousLoop U (TrimSpace command)"

function stripLoop :: "unicode_tables \<Rightarrow> string \<Rightarrow> string \<Rightarrow> string" where
  "stripLoop U command cmd =
     (if isAssignment (firstWord cmd) then
        (if hasDangerousAssignment U (firstWord cmd) \<noteq> None then command
         else
           (case IndexAny cmd [SP, TAB] of
              None \<Rightarrow> TrimSpace (drop (length (firstWord cmd)) cmd)
            | Some idx \<Rightarrow> stripLoop U command (TrimSpace (drop idx cmd))))
      else cmd)"
  by pat_completeness auto
termination
  by (relation "measure (\<lambda>(U, c, s). length s)") (auto dest: dropWord_length)

declare stripLoop.simps [simp del]

definition stripSafeAssignments :: "unicode_tables \<Rightarrow> string \<Rightarrow> string" where
  "stripSafeAssignments U command = stripLoop U command (TrimSpace command)"

definition ContainsCommandSubstitution :: "string \<Rightarrow> bool" where
  "ContainsCommandSubstitution command = Contains (unquotedStructure command) ''$(''"

definition ContainsAssignment :: "string \<Rightarrow> bool" where
  "ContainsAssignment command =
     (let structure = unquotedStructure command in
      Contains structure ''='' \<and> \<not> Contains structure ''=='')"

definition ContainsRedirect :: "string \<Rightarrow> bool" where
  "ContainsRedirect command =
     (let structure = unquotedStructure command in
      Contains structure ''>'' \<or> Contains structure ''<'')"

function backtickLoop :: "bool \<Rightarrow> string \<Rightarrow> string" where
  "backtickLoop inSingle [] = []"
| "backtickLoop inSingle (r # rs) =
     (if inSingle then r # backtickLoop (r \<noteq> SQ) rs
      else if r = SQ then r # backtickLoop True rs
      else if r = BQ then
        (case IndexAny rs [BQ] of
           None \<Rightarrow> r # backtickLoop inSingle rs
         | Some e \<Rightarrow> ''$('' @ take e rs @ '')'' @ backtickLoop inSingle (drop (e + 1) rs))
      else r # backtickLoop inSingle rs)"
  by pat_completeness auto
termination
  by (relation "measure (\<lambda>(inSingle, s). length s)") auto

definition ConvertBackticks :: "string \<Rightarrow> string" where
  "ConvertBackticks command =
     (if \<not> Contains command ''`'' then command else backtickLoop False command)"

text \<open>Specification vocabulary: the quote flags after a scan, balanced quotes, and single quoting.\<close>

fun quoteState :: "bool \<Rightarrow> bool \<Rightarrow> string \<Rightarrow> bool \<times> bool" where
  "quoteState inSingle inDouble [] = (inSingle, inDouble)"
| "quoteState inSingle inDouble (r # rs) =
     (if inSingle then quoteState (r \<noteq> SQ) inDouble rs
      else if inDouble then quoteState inSingle (r \<noteq> DQ) rs
      else if r = SQ then quoteState True inDouble rs
      else if r = DQ then quoteState inSingle True rs
      else quoteState inSingle inDouble rs)"

definition balanced :: "string \<Rightarrow> bool" where
  "balanced s = (quoteState False False s = (False, False))"

definition quoteArg :: "string \<Rightarrow> string" where
  "quoteArg a = SQ # a @ [SQ]"

subsection \<open>Quoted text is invisible\<close>

text \<open>The contract of a scanner that skips what is quoted, whatever it collects outside quotes.\<close>

lemma quoteState_append:
  "quoteState a b (s @ t) = (case quoteState a b s of (a', b') \<Rightarrow> quoteState a' b' t)"
  by (induction a b s rule: quoteState.induct) auto

lemma quoteState_not_both: "quoteState a b s \<noteq> (True, True) \<or> (a \<and> b)"
  by (induction a b s rule: quoteState.induct) auto

locale quote_masking =
  fixes scan :: "bool \<Rightarrow> bool \<Rightarrow> string \<Rightarrow> 'a list"
  assumes scan_single: "scan True b (r # rs) = scan (r \<noteq> SQ) b rs"
    and scan_double: "scan False True (r # rs) = scan False (r \<noteq> DQ) rs"
    and scan_open_single: "scan False False (SQ # rs) = scan True False rs"
    and scan_open_double: "scan False False (DQ # rs) = scan False True rs"
begin

lemma in_single: "SQ \<notin> set body \<Longrightarrow> scan True b (body @ SQ # rest) = scan False b rest"
  by (induction body) (auto simp: scan_single)

lemma in_double: "DQ \<notin> set body \<Longrightarrow> scan False True (body @ DQ # rest) = scan False False rest"
  by (induction body) (auto simp: scan_double)

lemma single_quoted_invisible:
  "SQ \<notin> set body \<Longrightarrow> scan False False (SQ # body @ SQ # rest) = scan False False rest"
  by (simp add: scan_open_single in_single)

lemma double_quoted_invisible:
  "DQ \<notin> set body \<Longrightarrow> scan False False (DQ # body @ DQ # rest) = scan False False rest"
  by (simp add: scan_open_double in_double)

end

interpretation uq: quote_masking unquotedLoop
  by unfold_locales simp_all

lemma splitPoints_shift: "splitPoints a b (i + k) s = map (\<lambda>(p, op). (p + k, op)) (splitPoints a b i s)"
proof (induction a b i s rule: splitPoints.induct)
  case (2 a b i r rs)
  then show ?case by (simp add: ac_simps)
qed simp

lemma splitPoints_ops: "map snd (splitPoints a b i s) = map snd (splitPoints a b 0 s)"
  using splitPoints_shift [of a b 0 i s] by (simp add: split_beta comp_def)

interpretation sp: quote_masking "\<lambda>a b s. map snd (splitPoints a b 0 s)"
  by unfold_locales (simp_all add: splitPoints_ops [of _ _ "Suc 0"])

lemma unquotedLoop_append:
  "unquotedLoop a b (s @ t) =
     unquotedLoop a b s @ (case quoteState a b s of (a', b') \<Rightarrow> unquotedLoop a' b' t)"
  by (induction a b s rule: unquotedLoop.induct) auto

lemma validUTF8_quoteArg: "validUTF8 a \<Longrightarrow> validUTF8 (quoteArg a)"
  unfolding quoteArg_def
  using validUTF8_append [of "[SQ]" "a @ [SQ]"] validUTF8_append [of a "[SQ]"]
    validUTF8_ASCII [of "[SQ]"] by (simp add: isASCII_def)

text \<open>What stands between single quotes never reaches the pattern checks: a single-quoted span
  after a text with balanced quotes contributes nothing to \<open>unquotedStructure\<close>, whatever operators,
  redirects or blocked patterns it spells.\<close>

theorem unquotedStructure_masks_quotes:
  assumes "validUTF8 pre" "balanced pre" "validUTF8 body" "SQ \<notin> set body"
  shows "unquotedStructure (pre @ quoteArg body @ post) = unquotedStructure pre @ unquotedStructure post"
proof -
  have "rangeBytes (pre @ quoteArg body @ post) = pre @ SQ # body @ SQ # rangeBytes post"
    using rangeBytes_valid_append [OF validUTF8_append [OF assms(1) validUTF8_quoteArg [OF assms(3)]], of post]
    by (simp add: quoteArg_def)
  moreover have "quoteState False False pre = (False, False)"
    using assms(2) by (simp add: balanced_def)
  ultimately show ?thesis
    using assms(1,4) unquotedLoop_append [of False False pre]
    by (simp add: unquotedStructure_def rangeBytes_valid uq.single_quoted_invisible
        del: unquotedLoop.simps)
qed

theorem unquotedStructure_masks_quotes_witness:
  "unquotedStructure (''echo '' @ quoteArg ''rm -rf /; $(x)'' @ '' end'') =
     unquotedStructure ''echo '' @ unquotedStructure '' end''"
  by (rule unquotedStructure_masks_quotes) code_simp+

lemma splitArgs_body:
  "SQ \<notin> set body \<Longrightarrow> splitArgsLoop args cur True False tok (body @ SQ # rest) =
     splitArgsLoop args (cur @ body) False False tok rest"
  by (induction body arbitrary: cur) auto

lemma splitArgs_quoteArg:
  "SQ \<notin> set a \<Longrightarrow> splitArgsLoop args cur False False tok (quoteArg a @ rest) =
     splitArgsLoop args (cur @ a) False False True rest"
  by (simp add: quoteArg_def splitArgs_body)

lemma splitArgs_Join:
  "list_all (\<lambda>a. SQ \<notin> set a) (a # as) \<Longrightarrow>
   splitArgsLoop args [] False False False (Join (map quoteArg (a # as)) '' '') = Inr (args @ a # as)"
proof (induction as arbitrary: a args)
  case Nil
  then show ?case using splitArgs_quoteArg [of a args "[]" False "[]"] by simp
next
  case (Cons b bs)
  then show ?case by (simp add: splitArgs_quoteArg)
qed

lemma validUTF8_Join:
  "list_all validUTF8 ws \<Longrightarrow> isASCII sep \<Longrightarrow> validUTF8 (Join ws sep)"
  by (induction ws sep rule: Join.induct)
     (auto intro!: validUTF8_append simp: validUTF8_ASCII validUTF8.simps [of "[]"])



lemma splitArgsLoop_error:
  "(splitArgsLoop args cur a b tok s = Inl UnterminatedQuote) \<longleftrightarrow> quoteState a b s \<noteq> (False, False)"
proof (induction s arbitrary: args cur a b tok)
  case (Cons r rs)
  show ?case
    by (simp only: splitArgsLoop.simps quoteState.simps Cons.IH split: if_split) simp
qed simp

text \<open>\<open>SplitArgs\<close> fails exactly on the commands whose quotes do not balance.\<close>

theorem SplitArgs_error_iff:
  "(SplitArgs command = Inl UnterminatedQuote) \<longleftrightarrow> \<not> balanced (rangeBytes command)"
  by (simp add: SplitArgs_def splitArgsLoop_error balanced_def)

lemma longestLoop_max:
  "matchesPrefix cmd best \<or> best = [] \<Longrightarrow>
   let r = longestLoop cmd best ps in
     (r = [] \<or> matchesPrefix cmd r) \<and> (r = best \<or> r \<in> set ps) \<and> length best \<le> length r \<and>
     (\<forall>p\<in>set ps. matchesPrefix cmd p \<longrightarrow> length p \<le> length r)"
proof (induction cmd best ps rule: longestLoop.induct)
  case (2 cmd best p ps)
  then show ?case
    by (cases "matchesPrefix cmd p \<and> length best < length p")
       (auto simp: Let_def intro: order.trans less_imp_le)
qed auto

lemma matchesPrefix_prefix: "matchesPrefix cmd p \<Longrightarrow> prefix p cmd"
  by (auto simp: matchesPrefix_def HasPrefix_iff dest: append_prefixD)

lemma matchesPrefix_unique:
  "matchesPrefix cmd p \<Longrightarrow> matchesPrefix cmd q \<Longrightarrow> length p = length q \<Longrightarrow> p = q"
  using matchesPrefix_prefix by (metis prefix_length_prefix prefix_order.dual_order.eq_iff order_refl)

lemma longestPrefixMatch_spec:
  "longestPrefixMatch cmd ps = r \<longleftrightarrow>
     (if \<exists>p\<in>set ps. matchesPrefix cmd p \<and> p \<noteq> []
      then r \<in> set ps \<and> matchesPrefix cmd r \<and>
           (\<forall>p\<in>set ps. matchesPrefix cmd p \<longrightarrow> length p \<le> length r)
      else r = [])"
proof -
  note spec = longestLoop_max [of cmd "[]" ps, simplified, unfolded Let_def, folded longestPrefixMatch_def]
  show ?thesis
  proof (cases "\<exists>p\<in>set ps. matchesPrefix cmd p \<and> p \<noteq> []")
    case True
    let ?m = "longestPrefixMatch cmd ps"
    from True spec have m: "?m \<noteq> []" by fastforce
    with spec have m2: "?m \<in> set ps" "matchesPrefix cmd ?m" by auto
    show ?thesis
    proof
      assume "longestPrefixMatch cmd ps = r"
      with True m2 spec show "if \<exists>p\<in>set ps. matchesPrefix cmd p \<and> p \<noteq> [] then r \<in> set ps \<and> matchesPrefix cmd r \<and>
           (\<forall>p\<in>set ps. matchesPrefix cmd p \<longrightarrow> length p \<le> length r) else r = []" by auto
    next
      assume "if \<exists>p\<in>set ps. matchesPrefix cmd p \<and> p \<noteq> [] then r \<in> set ps \<and> matchesPrefix cmd r \<and>
           (\<forall>p\<in>set ps. matchesPrefix cmd p \<longrightarrow> length p \<le> length r) else r = []"
      with True have r: "r \<in> set ps" "matchesPrefix cmd r"
        "\<forall>p\<in>set ps. matchesPrefix cmd p \<longrightarrow> length p \<le> length r" by auto
      with m2 spec have "length r = length ?m" by (meson order_antisym)
      with r m2 show "?m = r" using matchesPrefix_unique by metis
    qed
  next
    case False
    with spec have "longestPrefixMatch cmd ps = []" by auto
    with False show ?thesis by auto
  qed
qed

lemma longestPrefixMatch_order:
  "set ps = set qs \<Longrightarrow> longestPrefixMatch cmd ps = longestPrefixMatch cmd qs"
  using longestPrefixMatch_spec [of cmd ps "longestPrefixMatch cmd qs"]
    longestPrefixMatch_spec [of cmd qs "longestPrefixMatch cmd qs"] by simp

subsection \<open>Splitting on the chain operators\<close>

text \<open>The reference: one pass that closes a segment at every operator outside quotes.  The code
  collects byte positions first and cuts the string at them afterwards.\<close>
definition shellChars :: "char set" where
  "shellChars = {SQ, DQ, CHR ''&'', CHR ''|'', CHR '';''}"

definition opLen :: "bool \<Rightarrow> bool \<Rightarrow> string \<Rightarrow> nat" where
  "opLen inSingle inDouble s =
     (if inSingle \<or> inDouble then 0
      else (case find (HasPrefix s) chainOperators of None \<Rightarrow> 0 | Some op \<Rightarrow> length op))"

function segLoop :: "bool \<Rightarrow> bool \<Rightarrow> string \<Rightarrow> string \<Rightarrow> string list" where
  "segLoop a b cur [] = [cur]"
| "segLoop a b cur (r # rs) =
     (if opLen a b (r # rs) = 0
      then (case quoteState a b [r] of (a', b') \<Rightarrow> segLoop a' b' (cur @ [r]) rs)
      else cur # segLoop a b [] (drop (opLen a b (r # rs)) (r # rs)))"
  by pat_completeness auto
termination
  by (relation "measure (\<lambda>(a, b, cur, s). length s)") auto

definition segments :: "string \<Rightarrow> string list" where
  "segments s = segLoop False False [] s"

lemma opLen_cases: "opLen a b s = 0 \<or> (\<not> a \<and> \<not> b \<and> opLen a b s \<in> {1, 2} \<and> opLen a b s \<le> length s)"
  by (auto simp: opLen_def chainOperators_def HasPrefix_iff prefix_def split: option.splits if_splits)

lemma splitPoints_step:
  "splitPoints a b i (r # rs) =
     (if opLen a b (r # rs) = 0
      then (case quoteState a b [r] of (a', b') \<Rightarrow> splitPoints a' b' (Suc i) rs)
      else (i, take (opLen a b (r # rs)) (r # rs)) #
           splitPoints a b (i + opLen a b (r # rs)) (drop (opLen a b (r # rs)) (r # rs)))"
proof (cases "a \<or> b")
  case True
  then show ?thesis by (cases a; cases b) (simp_all add: opLen_def)
next
  case False
  show ?thesis
  proof (cases "r \<in> {CHR ''&'', CHR ''|'', CHR '';''}")
    case True
    with False show ?thesis
      by (cases rs) (auto simp: opLen_def chainOperators_def)
  next
    case nop: False
    then have "opLen a b (r # rs) = 0" by (simp add: opLen_def chainOperators_def)
    with nop False show ?thesis by simp
  qed
qed

lemma cutAtPoints_segLoop:
  "length pre = start \<Longrightarrow>
   fst (cutAtPoints (pre @ cur @ s) start (splitPoints a b (start + length cur) s)) =
   filter (\<lambda>x. x \<noteq> []) (map TrimSpace (segLoop a b cur s))"
proof (induction a b cur s arbitrary: pre start rule: segLoop.induct)
  case (2 a b cur r rs)
  let ?k = "opLen a b (r # rs)"
  show ?case
  proof (cases "?k = 0")
    case True
    obtain a' b' where q: "quoteState a b [r] = (a', b')" by fastforce
    from "2.IH"(1) [OF True q [symmetric] "2.prems"] show ?thesis
      using True q by (simp add: splitPoints_step del: splitPoints.simps quoteState.simps)
  next
    case False
    then have k: "?k \<le> Suc (length rs)" using opLen_cases [of a b "r # rs"] by auto
    from "2.IH"(2) [OF False, of "pre @ cur @ take ?k (r # rs)" "start + length cur + ?k"] "2.prems" k
    show ?thesis
      using False
      by (simp add: splitPoints_step split_beta Let_def del: splitPoints.simps quoteState.simps take_Cons' drop_Cons')
  qed
qed (simp add: Let_def)

lemma segLoop_Nil: "splitPoints a b i s = [] \<Longrightarrow> segLoop a b cur s = [cur @ s]"
proof (induction a b cur s arbitrary: i rule: segLoop.induct)
  case (2 a b cur r rs)
  obtain a' b' where q: "quoteState a b [r] = (a', b')" by fastforce
  with 2 show ?case by (simp add: splitPoints_step del: splitPoints.simps quoteState.simps split: if_splits)
qed simp

lemma SplitCommands_segments:
  "SplitCommands command =
     (let cmd = TrimSpace command; subs = filter (\<lambda>s. s \<noteq> []) (map TrimSpace (segments cmd)) in
      if cmd = [] then [[]] else subs)"
proof -
  let ?cmd = "TrimSpace command"
  have "fst (cutAtPoints ?cmd 0 (splitPoints False False 0 ?cmd)) = filter (\<lambda>s. s \<noteq> []) (map TrimSpace (segments ?cmd))"
    using cutAtPoints_segLoop [of "[]" 0 "[]" ?cmd False False] by (simp add: segments_def)
  then show ?thesis
    using segLoop_Nil [of False False 0 ?cmd "[]"]
    by (auto simp: SplitCommands_def splitByOperators_def Let_def segments_def TrimSpace_idem)
qed

definition noOps :: "bool \<Rightarrow> bool \<Rightarrow> string \<Rightarrow> bool" where
  "noOps a b s \<longleftrightarrow> splitPoints a b 0 s = []"

lemma noOps_iff: "splitPoints a b i s = [] \<longleftrightarrow> noOps a b s"
  using splitPoints_shift [of a b 0 i s] by (simp add: noOps_def)

lemma noOps_Cons:
  "noOps a b (r # rs) \<longleftrightarrow> opLen a b (r # rs) = 0 \<and> (case quoteState a b [r] of (a', b') \<Rightarrow> noOps a' b' rs)"
  unfolding noOps_def [of _ _ "r # rs"]
  by (simp add: splitPoints_step noOps_iff del: splitPoints.simps quoteState.simps split: prod.splits)

lemma opLen_prefix: "opLen a b s = 0 \<Longrightarrow> prefix p s \<Longrightarrow> opLen a b p = 0"
  by (auto simp: opLen_def find_None_iff find_Some_iff chainOperators_def HasPrefix_iff
      split: option.splits if_splits dest: prefix_order.trans)

lemma noOps_prefix: "noOps a b s \<Longrightarrow> prefix p s \<Longrightarrow> noOps a b p"
proof (induction s arbitrary: a b p)
  case (Cons r rs)
  show ?case
  proof (cases p)
    case (Cons c p')
    with Cons.prems have p': "c = r" "prefix p' rs" by auto
    with Cons.prems Cons.IH opLen_prefix [of a b "r # rs" p] Cons show ?thesis
      by (auto simp: noOps_Cons simp del: quoteState.simps split: prod.splits)
  qed (simp add: noOps_def)
qed simp

lemma segLoop_noOps:
  "\<exists>p rest. segLoop a b cur s = (cur @ p) # rest \<and> prefix p s \<and> noOps a b p \<and>
     (\<forall>q\<in>set rest. noOps False False q)"
proof (induction a b cur s rule: segLoop.induct)
  case (2 a b cur r rs)
  show ?case
  proof (cases "opLen a b (r # rs) = 0")
    case True
    obtain a' b' where q: "quoteState a b [r] = (a', b')" by fastforce
    from "2.IH"(1) [OF True q [symmetric]] obtain p rest where
      p: "segLoop a' b' (cur @ [r]) rs = ((cur @ [r]) @ p) # rest" "prefix p rs" "noOps a' b' p"
      "\<forall>q\<in>set rest. noOps False False q" by blast
    moreover from p(2) True opLen_prefix have "opLen a b (r # p) = 0" by (metis Cons_prefix_Cons)
    ultimately have "segLoop a b cur (r # rs) = (cur @ r # p) # rest \<and> prefix (r # p) (r # rs) \<and>
        noOps a b (r # p) \<and> (\<forall>q\<in>set rest. noOps False False q)"
      using True q by (simp add: noOps_Cons del: quoteState.simps)
    then show ?thesis by blast
  next
    case False
    then have ab: "\<not> a" "\<not> b" using opLen_cases [of a b "r # rs"] by auto
    from "2.IH"(2) [OF False] obtain p rest where
      p: "segLoop a b [] (drop (opLen a b (r # rs)) (r # rs)) = p # rest" "noOps a b p"
      "\<forall>q\<in>set rest. noOps False False q" by auto
    with ab False have "segLoop a b cur (r # rs) = (cur @ []) # p # rest \<and> prefix [] (r # rs) \<and>
        noOps a b [] \<and> (\<forall>q\<in>set (p # rest). noOps False False q)" by (simp add: noOps_def)
    then show ?thesis by blast
  qed
qed (simp add: noOps_def)

lemma noOps_blank:
  "set w \<inter> shellChars = {} \<Longrightarrow>
   noOps False False (w @ s) \<longleftrightarrow> noOps False False s"
proof (induction w)
  case (Cons c w)
  then have "opLen False False (c # w @ s) = 0" by (auto simp: opLen_def chainOperators_def shellChars_def)
  with Cons show ?case by (auto simp: noOps_Cons shellChars_def)
qed simp

lemma concat_disjoint: "(\<And>w. w \<in> set ws \<Longrightarrow> set w \<inter> S = {}) \<Longrightarrow> set (concat ws) \<inter> S = {}"
  by auto

lemma spaceRunes_plain: "w \<in> set spaceRunes \<Longrightarrow> set w \<inter> shellChars = {}"
  by (auto simp: spaceRunes_def shellChars_def)

lemma noOps_TrimSpace: "noOps False False s \<Longrightarrow> noOps False False (TrimSpace s)"
proof -
  assume ops: "noOps False False s"
  obtain a b where s: "s = concat a @ TrimSpace s @ concat b" and a: "set a \<subseteq> set spaceRunes"
    and "set b \<subseteq> set spaceRunes" by (rule TrimSpace_decomp)
  have "set (concat a) \<inter> shellChars = {}"
    by (rule concat_disjoint) (rule spaceRunes_plain, rule subsetD [OF a])
  from noOps_blank [OF this, of "TrimSpace s @ concat b"] subst [OF s, of "noOps False False", OF ops]
  have "noOps False False (TrimSpace s @ concat b)" by blast
  then show ?thesis by (rule noOps_prefix) simp
qed

lemma SplitCommands_atomic:
  assumes "sub \<in> set (SplitCommands command)"
  shows "SplitCommands sub = [sub]"
proof (cases "TrimSpace command = []")
  case True
  then have "SplitCommands command = [[]]" by (simp add: SplitCommands_segments)
  with assms have "sub = []" by simp
  moreover have "TrimSpace [] = []" using TrimSpace_length [of "[]"] by simp
  ultimately show ?thesis by (simp add: SplitCommands_segments)
next
  case False
  with assms obtain q where q: "q \<in> set (segments (TrimSpace command))" "sub = TrimSpace q"
    by (auto simp: SplitCommands_segments Let_def)
  moreover have "noOps False False q"
    using q(1) segLoop_noOps [of False False "[]" "TrimSpace command"] by (auto simp: segments_def)
  ultimately have "splitPoints False False 0 sub = []"
    using noOps_TrimSpace noOps_iff by blast
  with q(2) show ?thesis by (simp add: SplitCommands_def splitByOperators_def)
qed

text \<open>\<open>SplitCommands\<close>, which collects byte positions and cuts the string at them, computes the
  non-empty trimmed segments of the one-pass reference splitter, and each of its sub-commands is
  atomic: splitting it again returns it alone.\<close>

theorem SplitCommands_reference:
  "(TrimSpace command \<noteq> [] \<longrightarrow>
      SplitCommands command = filter (\<lambda>s. s \<noteq> []) (map TrimSpace (segments (TrimSpace command)))) \<and>
   (\<forall>sub\<in>set (SplitCommands command). SplitCommands sub = [sub])"
  using SplitCommands_atomic [of _ command] by (simp add: SplitCommands_segments Let_def)

theorem SplitCommands_reference_witness:
  "SplitCommands ''ls && echo ''  = [''ls'', ''echo''] \<and> SplitCommands ''echo'' = [''echo'']"
proof -
  have "SplitCommands ''ls && echo ''  = [''ls'', ''echo'']" by code_simp
  with SplitCommands_reference [of "''ls && echo ''"] show ?thesis by simp
qed

end
