(* ===== verification/Shell_Ast.thy ===== *)
theory Shell_Ast
  imports Shell_Lex
begin

section \<open>The command parser\<close>

text \<open>
  \<^verbatim>\<open>internal/sandbox/ast/ast.go\<close>: the recursive-descent parser whose statements the policy
  classifies one by one.  The tokenizer's state (\<open>raw\<close>, \<open>pos\<close>) is the unread input \<open>raw[pos:]\<close>;
  every reader skips blanks first, so the position \<open>hasPrefix\<close> leaves behind is the one the next
  reader starts from.
\<close>

subsection \<open>Definitions\<close>

type_synonym tokenizer = string

record Redirect =
  Op :: string
  Target :: string

record Command =
  Program :: string
  Args :: "string list"
  Assignments :: "string list"
  Redirects :: "Redirect list"

record Statement =
  Cmd :: "Command option"
  StOp :: string
  TooComplex :: bool

type_synonym Program = "Statement list"

definition skipSpace :: "tokenizer \<Rightarrow> tokenizer" where
  "skipSpace t = dropWhile (\<lambda>c. c = SP \<or> c = TAB) t"

definition tokHasPrefix :: "tokenizer \<Rightarrow> string \<Rightarrow> bool" where
  "tokHasPrefix t s = HasPrefix (skipSpace t) s"

definition skipBytes :: "tokenizer \<Rightarrow> nat \<Rightarrow> tokenizer" where
  "skipBytes t n = drop n (skipSpace t)"

text \<open>\<open>readWord\<close>: the word ends before a blank or an operator outside quotes; an operator at
  index 0 gives the empty word.\<close>

fun readWordLoop :: "bool \<Rightarrow> bool \<Rightarrow> string \<Rightarrow> string" where
  "readWordLoop inSingle inDouble [] = []"
| "readWordLoop inSingle inDouble (r # rs) =
     (if inSingle then r # readWordLoop (r \<noteq> SQ) inDouble rs
      else if inDouble then r # readWordLoop inSingle (r \<noteq> DQ) rs
      else if r = SQ then r # readWordLoop True inDouble rs
      else if r = DQ then r # readWordLoop inSingle True rs
      else if r = SP \<or> r = TAB then []
      else if r \<in> set '';|&><'' then []
      else r # readWordLoop inSingle inDouble rs)"

definition readWord :: "string \<Rightarrow> string" where
  "readWord s = readWordLoop False False s"

definition peekWord :: "tokenizer \<Rightarrow> string" where
  "peekWord t =
     (let rest = skipSpace t in
      case rest of
        [] \<Rightarrow> []
      | c # _ \<Rightarrow>
          if HasPrefix rest ''&&'' \<or> HasPrefix rest ''||'' then take 2 rest
          else if HasPrefix rest ''>>'' \<or> HasPrefix rest ''2>'' \<or> HasPrefix rest ''&>''
          then take 2 rest
          else if c \<in> set '';|><'' then [c]
          else readWord rest)"

definition skipWord :: "tokenizer \<Rightarrow> tokenizer" where
  "skipWord t = drop (length (peekWord t)) (skipSpace t)"

lemma skipSpace_length: "length (skipSpace t) \<le> length t"
  by (simp add: skipSpace_def length_dropWhile_le)

lemma skipWord_length: "length (skipWord t) \<le> length t"
  using skipSpace_length [of t] by (simp add: skipWord_def)

lemma skipWord_shorter: "peekWord t \<noteq> [] \<Longrightarrow> length (skipWord t) < length t"
proof -
  assume ne: "peekWord t \<noteq> []"
  then have "skipSpace t \<noteq> []" by (auto simp: peekWord_def)
  with ne skipSpace_length [of t] show ?thesis
    by (cases "peekWord t"; cases "skipSpace t") (auto simp: skipWord_def)
qed

function parseAssignments :: "tokenizer \<Rightarrow> string list \<times> tokenizer" where
  "parseAssignments t =
     (let word = peekWord t in
      if word = [] \<or> \<not> Contains word ''='' \<or> HasPrefix word ''-'' then ([], t)
      else (let (as, t') = parseAssignments (skipWord t) in (word # as, t')))"
  by pat_completeness auto
termination
  by (relation "measure length") (auto intro: skipWord_shorter)

declare parseAssignments.simps [simp del]

text \<open>\<open>parseSimpleCommand\<close>: one round of its loop for a word that is neither empty nor an operator
  of the list grammar; the words and the redirects collected so far are accumulators.\<close>

definition simpleStop :: "string \<Rightarrow> bool" where
  "simpleStop word = (word = [] \<or> word \<in> {''&&'', '';'', ''|'', ''||''})"

definition simpleStep ::
  "string list \<Rightarrow> Redirect list \<Rightarrow> tokenizer \<Rightarrow> string list \<times> Redirect list \<times> tokenizer" where
  "simpleStep words redirs t =
     (let word = peekWord t in
      if word \<in> {''>'', ''>>'', ''2>'', ''&>'', ''<''} then
        (let t1 = skipWord t; target = peekWord t1 in
         (words, redirs @ [\<lparr>Op = word, Target = target\<rparr>],
          if target \<noteq> [] then skipWord t1 else t1))
      else if HasPrefix word ''2>'' \<or> HasPrefix word ''&>'' then
        (words,
         (if HasPrefix word ''2>&'' then
            redirs @ [\<lparr>Op = ''2>&'' @ drop 3 word, Target = drop 3 word\<rparr>]
          else if length word > 2 then redirs @ [\<lparr>Op = take 2 word, Target = drop 2 word\<rparr>]
          else redirs), skipWord t)
      else (words @ [word], redirs, skipWord t))"

lemma simpleStep_shorter:
  "\<not> simpleStop (peekWord t) \<Longrightarrow> length (snd (snd (simpleStep ws rs t))) < length t"
  using skipWord_shorter [of t] skipWord_length [of "skipWord t"]
  by (auto simp: simpleStep_def simpleStop_def Let_def)

function simpleLoop ::
  "string list \<Rightarrow> Redirect list \<Rightarrow> tokenizer \<Rightarrow> string list \<times> Redirect list \<times> tokenizer" where
  "simpleLoop words redirs t =
     (if simpleStop (peekWord t) then (words, redirs, t)
      else (case simpleStep words redirs t of (w, r, t') \<Rightarrow> simpleLoop w r t'))"
  by pat_completeness auto
termination
  by (relation "measure (\<lambda>(w, r, t). length t)") (simp, simp add: split_beta simpleStep_shorter)

declare simpleLoop.simps [simp del]

definition parseSimpleCommand :: "tokenizer \<Rightarrow> Command \<times> tokenizer" where
  "parseSimpleCommand t =
     (let (words, redirs, t') = simpleLoop [] [] t in
      (\<lparr>Program = (case words of [] \<Rightarrow> [] | w # _ \<Rightarrow> w), Args = words, Assignments = [],
        Redirects = redirs\<rparr>, t'))"

lemma parseAssignments_length: "length (snd (parseAssignments t)) \<le> length t"
proof (induction t rule: parseAssignments.induct)
  case (1 t)
  show ?case
  proof (cases "peekWord t = [] \<or> \<not> Contains (peekWord t) ''='' \<or> HasPrefix (peekWord t) ''-''")
    case True
    then show ?thesis by (subst parseAssignments.simps) simp
  next
    case False
    with "1.IH" [OF refl False] skipWord_length [of t] show ?thesis
      by (subst parseAssignments.simps) (simp add: Let_def split_beta)
  qed
qed

lemma simpleLoop_length: "length (snd (snd (simpleLoop ws rs t))) \<le> length t"
proof (induction ws rs t rule: simpleLoop.induct)
  case (1 ws rs t)
  show ?case
  proof (cases "simpleStop (peekWord t)")
    case True
    then show ?thesis by (subst simpleLoop.simps) simp
  next
    case False
    obtain w r t' where st: "simpleStep ws rs t = (w, r, t')" by (metis prod_cases3)
    with "1.IH" [OF False st [symmetric] refl] simpleStep_shorter [OF False, of ws rs] False
    show ?thesis by (subst simpleLoop.simps) simp
  qed
qed

lemma parseSimpleCommand_length: "length (snd (parseSimpleCommand t)) \<le> length t"
  using simpleLoop_length [of "[]" "[]" t]
  by (simp add: parseSimpleCommand_def split_beta)

lemma skipBytes_shorter: "tokHasPrefix t p \<Longrightarrow> p \<noteq> [] \<Longrightarrow> length (skipBytes t (length p)) < length t"
  using skipSpace_length [of t]
  by (cases "skipSpace t"; cases p) (auto simp: tokHasPrefix_def skipBytes_def)

lemma skipPipe_shorter:
  "tokHasPrefix t ''|'' \<Longrightarrow> length (snd (parseSimpleCommand (skipBytes t (Suc 0)))) < length t"
  using skipBytes_shorter [of t "''|''"] parseSimpleCommand_length [of "skipBytes t (Suc 0)"]
  by simp

function pipeLoop :: "Command list \<Rightarrow> tokenizer \<Rightarrow> Command list \<times> tokenizer" where
  "pipeLoop piped t =
     (if tokHasPrefix t ''|'' \<and> \<not> tokHasPrefix t ''||'' then
        (let (cmd, t') = parseSimpleCommand (skipBytes t 1) in pipeLoop (piped @ [cmd]) t')
      else (piped, t))"
  by pat_completeness auto
termination
  by (relation "measure (\<lambda>(p, t). length t)") (auto, metis skipPipe_shorter snd_conv)

declare pipeLoop.simps [simp del]

definition complexStart :: "string list" where
  "complexStart = [''if '', ''for '', ''while '', ''case '', ''function '', ''('', ''{'']"

definition parseStatement :: "tokenizer \<Rightarrow> Statement \<times> tokenizer" where
  "parseStatement t =
     (if list_ex (tokHasPrefix t) complexStart then
        (\<lparr>Cmd = Some \<lparr>Program = [], Args = [TrimSpace (skipSpace t)], Assignments = [], Redirects = []\<rparr>,
          StOp = [], TooComplex = True\<rparr>, t)
      else
        (let (assignments, t1) = parseAssignments t;
             (cmd0, t2) = parseSimpleCommand t1;
             cmd1 = cmd0\<lparr>Assignments := assignments\<rparr>;
             cmd = (if Program cmd1 = [] \<and> Args cmd1 = [] \<and> assignments \<noteq> []
                    then cmd1\<lparr>Program := hd assignments\<rparr> else cmd1)
         in if tokHasPrefix t2 ''|'' \<and> \<not> tokHasPrefix t2 ''||'' then
              (let (piped, t3) = pipeLoop [cmd] t2 in
               (\<lparr>Cmd = Some (hd piped), StOp = [], TooComplex = False\<rparr>, t3))
            else (\<lparr>Cmd = Some cmd, StOp = [], TooComplex = False\<rparr>, t2)))"

lemma pipeLoop_length: "length (snd (pipeLoop piped t)) \<le> length t"
proof (induction piped t rule: pipeLoop.induct)
  case (1 piped t)
  have "length (skipBytes t 1) \<le> length t"
    using skipSpace_length [of t] by (simp add: skipBytes_def)
  with "1.IH" parseSimpleCommand_length [of "skipBytes t 1"] show ?case
    by (subst pipeLoop.simps) (fastforce simp: Let_def split: prod.splits)
qed

lemma parseStatement_length: "length (snd (parseStatement t)) \<le> length t"
proof -
  obtain as t1 where a: "parseAssignments t = (as, t1)" by fastforce
  obtain c t2 where c: "parseSimpleCommand t1 = (c, t2)" by fastforce
  have t1: "length t1 \<le> length t" using parseAssignments_length [of t] a by simp
  moreover have t2: "length t2 \<le> length t1" using parseSimpleCommand_length [of t1] c by simp
  moreover have "length (snd (pipeLoop p t2)) \<le> length t2" for p by (rule pipeLoop_length)
  ultimately show ?thesis
    by (simp add: parseStatement_def a c Let_def split_beta) (meson order.trans)
qed

text \<open>\<open>parseProgram\<close>: statements separated by \<open>&&\<close>, \<open>||\<close> and \<open>;\<close>.\<close>

definition separatorLen :: "tokenizer \<Rightarrow> nat" where
  "separatorLen t =
     (if tokHasPrefix t ''&&'' then 2 else if tokHasPrefix t ''||'' then 2
      else if tokHasPrefix t '';'' then 1 else 0)"

lemma separatorLen_shorter:
  "separatorLen t \<noteq> 0 \<Longrightarrow> length (skipBytes t (separatorLen t)) < length t"
  using skipBytes_shorter [of t "''&&''"] skipBytes_shorter [of t "''||''"]
    skipBytes_shorter [of t "'';''"]
  by (auto simp: separatorLen_def numeral_2_eq_2 split: if_splits)

function parseProgram :: "tokenizer \<Rightarrow> Program" where
  "parseProgram t =
     (case parseStatement t of (st, t') \<Rightarrow>
        st # (if separatorLen t' = 0 then [] else parseProgram (skipBytes t' (separatorLen t'))))"
  by pat_completeness auto
termination
proof (relation "measure length")
  fix t x y
  assume st: "(x, y) = parseStatement t" and sep: "separatorLen y \<noteq> 0"
  then have "length y \<le> length t" using parseStatement_length [of t] by (metis snd_conv)
  with separatorLen_shorter [OF sep]
  show "(skipBytes y (separatorLen y), t) \<in> measure length" by simp
qed simp

declare parseProgram.simps [simp del]

fun findOperators :: "bool \<Rightarrow> bool \<Rightarrow> string \<Rightarrow> string list" where
  "findOperators inSingle inDouble [] = []"
| "findOperators inSingle inDouble (r # rs) =
     (if inSingle then findOperators (r \<noteq> SQ) inDouble rs
      else if inDouble then findOperators inSingle (r \<noteq> DQ) rs
      else if r = SQ then findOperators True inDouble rs
      else if r = DQ then findOperators inSingle True rs
      else if HasPrefix (r # rs) ''&&'' then ''&&'' # findOperators inSingle inDouble (drop 1 rs)
      else if HasPrefix (r # rs) ''||'' then ''||'' # findOperators inSingle inDouble (drop 1 rs)
      else if r = CHR '';'' then '';'' # findOperators inSingle inDouble rs
      else findOperators inSingle inDouble rs)"

fun assignOperators :: "string list \<Rightarrow> Program \<Rightarrow> Program" where
  "assignOperators ops [] = []"
| "assignOperators [] (st # sts) = st # sts"
| "assignOperators (op # ops) (st # sts) = st\<lparr>StOp := op\<rparr> # assignOperators ops sts"

definition Parse :: "string \<Rightarrow> Program" where
  "Parse command =
     (let cmd = TrimSpace command in
      if cmd = [] then []
      else assignOperators (findOperators False False cmd) (parseProgram cmd))"

subsection \<open>Facts\<close>

interpretation fo: quote_masking findOperators
  by unfold_locales simp_all

text \<open>Whatever follows \<open>2>&1\<close> is not part of the parsed program.\<close>

theorem Parse_stops_at_merge:
  "parseProgram (''ls 2>&1'' @ rest) =
     [\<lparr>Cmd = Some \<lparr>Program = ''ls'', Args = [''ls''], Assignments = [],
                   Redirects = [\<lparr>Op = ''2>'', Target = []\<rparr>]\<rparr>, StOp = [], TooComplex = False\<rparr>]"
  by (subst parseProgram.simps)
     (simp add: parseStatement_def parseSimpleCommand_def Let_def complexStart_def tokHasPrefix_def
        separatorLen_def parseAssignments.simps simpleLoop.simps simpleStep_def simpleStop_def peekWord_def
        skipWord_def skipSpace_def readWord_def Contains_def)

end
