(* ===== verification/Danger.thy ===== *)
theory Danger
  imports Shell_Lex
begin

section \<open>Dangerous tokens, network commands and protected paths\<close>

text \<open>
  \<^verbatim>\<open>internal/sandbox/danger.go\<close> (token patterns matched in order against the argument vector),
  \<^verbatim>\<open>internal/sandbox/network.go\<close> (commands that reach the network) and
  \<^verbatim>\<open>internal/sandbox/protected.go\<close> (file names that hold secrets).
\<close>

subsection \<open>Definitions\<close>

record dangerousTokenPattern =
  tokens :: "string list"
  desc :: string

abbreviation pat :: "string list \<Rightarrow> string \<Rightarrow> dangerousTokenPattern" where
  "pat ts d \<equiv> \<lparr>tokens = ts, desc = d\<rparr>"

definition dangerousPatterns :: "dangerousTokenPattern list" where
  "dangerousPatterns =
     [pat [''push'', ''--force'', ''main''] ''force-push to main branch'',
      pat [''push'', ''-f'', ''main''] ''force-push to main branch'',
      pat [''push'', ''--force'', ''master''] ''force-push to master branch'',
      pat [''push'', ''-f'', ''master''] ''force-push to master branch'',
      pat [''push'', ''--force-with-lease'', ''main''] ''force-push to main branch'',
      pat [''push'', ''--force-with-lease'', ''master''] ''force-push to master branch'',
      pat [''push'', ''--delete'', ''main''] ''delete main branch on remote'',
      pat [''push'', ''--delete'', ''master''] ''delete master branch on remote'',
      pat [''rm'', ''-rf'', ''.''] ''recursive delete of current directory'',
      pat [''rm'', ''-fr'', ''.''] ''recursive delete of current directory'',
      pat [''rm'', ''-r'', ''-f'', ''.''] ''recursive delete of current directory'',
      pat [''rm'', ''-rf'', ''~''] ''recursive delete of home directory'',
      pat [''git'', ''reset'', ''--hard''] ''hard git reset discards all working-tree changes'',
      pat [''git'', ''clean'', ''-fd''] ''force-delete untracked files and directories'',
      pat [''git'', ''clean'', ''-fdx''] ''force-delete all untracked files including gitignored'',
      pat [''git'', ''checkout'', ''--force''] ''force checkout discards working-tree changes'',
      pat [''chmod'', ''-R'', ''777''] ''recursive world-writable permission change'',
      pat [''chmod'', ''777''] ''world-writable permission change'',
      pat [''curl'', ''|'', ''bash''] ''downloading and executing remote code via shell pipe'',
      pat [''curl'', ''|'', ''sh''] ''downloading and executing remote code via shell pipe'',
      pat [''wget'', ''|'', ''bash''] ''downloading and executing remote code via shell pipe'',
      pat [''wget'', ''|'', ''sh''] ''downloading and executing remote code via shell pipe'',
      pat [''cat'', ''*.env*'', ''|''] ''attempt to pipe .env content to another command'',
      pat [''cat'', ''*.env*'', ''>''] ''attempt to redirect .env content'',
      pat [''curl'', ''*.env*''] ''suspicious .env reference with curl'',
      pat [''curl'', ''*token*''] ''suspicious token reference with curl'',
      pat [''eval'', ''*$*''] ''eval with variable expansion'',
      pat [''source'', ''*/dev*''] ''sourcing from /dev'']"

text \<open>One pattern token against one argument: \<open>*x*\<close> is a substring match, anything else an exact
  match, both ignoring case.  A single star would panic in the Go slice expression; the table
  holds none.\<close>

definition isContainsToken :: "string \<Rightarrow> bool" where
  "isContainsToken pt = (HasPrefix pt ''*'' \<and> HasSuffix pt ''*'')"

definition tokenMatches :: "unicode_tables \<Rightarrow> string \<Rightarrow> string \<Rightarrow> bool" where
  "tokenMatches U pt arg =
     (if isContainsToken pt
      then Contains (ToLower U arg) (ToLower U (butlast (tl pt)))
      else EqualFold U arg pt)"

text \<open>\<open>matchTokenSequence\<close>: \<open>argIdx\<close> is how much of the argument list is consumed.\<close>

fun seekToken :: "unicode_tables \<Rightarrow> string \<Rightarrow> string list \<Rightarrow> string list option" where
  "seekToken U pt [] = None"
| "seekToken U pt (a # args) = (if tokenMatches U pt a then Some args else seekToken U pt args)"

fun matchTokenSequence :: "unicode_tables \<Rightarrow> string list \<Rightarrow> string list \<Rightarrow> bool" where
  "matchTokenSequence U args [] = True"
| "matchTokenSequence U args (pt # pts) =
     (if pt = [] then matchTokenSequence U (drop 1 args) pts
      else (case seekToken U pt args of
              None \<Rightarrow> False
            | Some rest \<Rightarrow> matchTokenSequence U rest pts))"

definition matchDangerousTokens ::
  "unicode_tables \<Rightarrow> string list \<Rightarrow> dangerousTokenPattern option" where
  "matchDangerousTokens U args = find (\<lambda>dp. matchTokenSequence U args (tokens dp)) dangerousPatterns"

definition NetworkCommandPrefixes :: "string list" where
  "NetworkCommandPrefixes =
     [''curl'', ''wget'', ''ssh'', ''scp'', ''sftp'', ''telnet'', ''nc'', ''ncat'', ''socat'',
      ''git push'', ''git pull'', ''git fetch'', ''git clone'', ''git remote add'',
      ''git submodule update'', ''git lfs fetch'', ''git lfs pull'',
      ''npm install'', ''npm ci'', ''npm publish'', ''npm login'', ''npm logout'',
      ''yarn add'', ''yarn install'', ''yarn publish'', ''pnpm add'', ''pnpm install'',
      ''pnpm publish'', ''bun install'', ''bun add'', ''npx'',
      ''pip install'', ''pip3 install'', ''pip download'', ''pip3 download'', ''pipx install'',
      ''go get'', ''go install'', ''go mod download'',
      ''cargo add'', ''cargo publish'', ''cargo update'', ''cargo fetch'', ''cargo install'',
      ''mvn dependency:get'', ''gradle dependencies'', ''pod install'', ''pod update'',
      ''docker pull'', ''docker push'', ''docker login'', ''docker logout'', ''docker build'',
      ''docker run'', ''docker compose pull'',
      ''brew install'', ''brew update'', ''brew upgrade'', ''brew tap'',
      ''apt-get install'', ''apt-get update'', ''apt install'', ''apt update'',
      ''yum install'', ''yum update'', ''dnf install'', ''dnf update'']"

definition IsNetworkCommand :: "string \<Rightarrow> bool" where
  "IsNetworkCommand command = list_ex (matchesPrefix (TrimSpace command)) NetworkCommandPrefixes"

definition DefaultProtectedPaths :: "string list" where
  "DefaultProtectedPaths =
     [''.env'', ''.env.local'', ''.env.production'', ''.env.staging'', ''.env.development'',
      ''.git-credentials'', ''.gitconfig'', ''credentials'', ''secrets'', ''tokens'',
      ''private.key'', ''id_rsa'', ''id_ed25519'', ''id_ecdsa'', ''*.pem'', ''*.key'']"

text \<open>The second loop of \<open>ProtectedPaths\<close>: \<open>seen\<close> holds the lower-cased patterns so far.\<close>

fun addProtected ::
  "unicode_tables \<Rightarrow> string list \<Rightarrow> string list \<Rightarrow> string list \<Rightarrow> string list" where
  "addProtected U seen out [] = out"
| "addProtected U seen out (p # ps) =
     (if p = [] then addProtected U seen out ps
      else if ToLower U p \<in> set seen then addProtected U seen out ps
      else addProtected U (ToLower U p # seen) (out @ [p]) ps)"

definition ProtectedPaths :: "unicode_tables \<Rightarrow> string list \<Rightarrow> string list" where
  "ProtectedPaths U extra =
     addProtected U (map (ToLower U) DefaultProtectedPaths) DefaultProtectedPaths extra"

text \<open>The middle pieces of a glob, each found leftmost in what is left.\<close>

fun midMatch :: "unicode_tables \<Rightarrow> string \<Rightarrow> string list \<Rightarrow> string option" where
  "midMatch U rest [] = Some rest"
| "midMatch U rest (mid # mids) =
     (case Index (ToLower U rest) (ToLower U mid) of
        None \<Rightarrow> None
      | Some idx \<Rightarrow> midMatch U (drop (idx + length mid) rest) mids)"

definition matchPathPattern :: "unicode_tables \<Rightarrow> string \<Rightarrow> string \<Rightarrow> bool" where
  "matchPathPattern U name pattern =
     (if \<not> Contains pattern ''*'' then EqualFold U name pattern
      else
        (let parts = SplitByte CHR ''*'' pattern in
         if length parts = 1 then EqualFold U name pattern
         else if hd parts \<noteq> [] \<and> \<not> HasPrefix (ToLower U name) (ToLower U (hd parts)) then False
         else
           (case midMatch U (drop (length (hd parts)) name) (butlast (tl parts)) of
              None \<Rightarrow> False
            | Some rest \<Rightarrow>
                last parts = [] \<or> HasSuffix (ToLower U rest) (ToLower U (last parts)))))"

text \<open>\<open>filepath.Base\<close> on a system whose separator is the slash.\<close>

definition pathBase :: "string \<Rightarrow> string" where
  "pathBase path =
     (if path = [] then ''.''
      else
        (let p = rev (dropWhile (\<lambda>c. c = SLASH) (rev path));
             b = rev (takeWhile (\<lambda>c. c \<noteq> SLASH) (rev p))
         in if b = [] then [SLASH] else b))"

definition IsPathProtected :: "unicode_tables \<Rightarrow> string \<Rightarrow> string list \<Rightarrow> bool" where
  "IsPathProtected U rel protected = list_ex (matchPathPattern U (pathBase rel)) protected"

subsection \<open>Facts\<close>

lemma seekToken_Some:
  "seekToken U pt args = Some rest \<Longrightarrow>
     \<exists>pre a. args = pre @ a # rest \<and> tokenMatches U pt a \<and> list_all (\<lambda>b. \<not> tokenMatches U pt b) pre"
proof (induction U pt args rule: seekToken.induct)
  case (2 U pt a args)
  show ?case
  proof (cases "tokenMatches U pt a")
    case True
    with 2 show ?thesis by (intro exI [of _ "[]"] exI [of _ a]) auto
  next
    case False
    with 2 obtain pre x where "args = pre @ x # rest" "tokenMatches U pt x"
      "list_all (\<lambda>b. \<not> tokenMatches U pt b) pre" by auto
    with False show ?thesis by (intro exI [of _ "a # pre"] exI [of _ x]) simp
  qed
qed simp

lemma seekToken_None: "seekToken U pt args = None \<longleftrightarrow> list_all (\<lambda>b. \<not> tokenMatches U pt b) args"
  by (induction args) auto

lemma list_emb_skip:
  "list_emb P (x # xs) (pre @ ys) \<Longrightarrow> list_all (\<lambda>b. \<not> P x b) pre \<Longrightarrow> list_emb P (x # xs) ys"
  by (induction pre) (auto elim: list_emb.cases)

lemma list_emb_tail: "list_emb P (x # xs) ys \<Longrightarrow> list_emb P xs ys"
  by (drule list_emb_ConsD) (auto intro: list_emb_append2 list_emb_Cons)

lemma matchTokenSequence_list_emb:
  "[] \<notin> set pts \<Longrightarrow> matchTokenSequence U args pts \<longleftrightarrow> list_emb (tokenMatches U) pts args"
proof (induction U args pts rule: matchTokenSequence.induct)
  case (2 U args pt pts)
  show ?case
  proof (cases "seekToken U pt args")
    case None
    then have "\<not> list_emb (tokenMatches U) (pt # pts) args"
      using list_emb_skip [of "tokenMatches U" pt pts args "[]"] by (auto simp: seekToken_None)
    with None 2 show ?thesis by auto
  next
    case (Some rest)
    then obtain pre a where args: "args = pre @ a # rest" "tokenMatches U pt a"
      "list_all (\<lambda>b. \<not> tokenMatches U pt b) pre"
      using seekToken_Some by blast
    have "list_emb (tokenMatches U) (pt # pts) args \<longleftrightarrow> list_emb (tokenMatches U) pts rest"
    proof
      assume "list_emb (tokenMatches U) (pt # pts) args"
      then have "list_emb (tokenMatches U) (pt # pts) (pre @ a # rest)" by (simp only: args(1))
      then have "list_emb (tokenMatches U) (pt # pts) (a # rest)"
        using args(3) by (rule list_emb_skip)
      then show "list_emb (tokenMatches U) pts rest"
        by (cases rule: list_emb.cases) (auto dest: list_emb_tail)
    next
      assume "list_emb (tokenMatches U) pts rest"
      then show "list_emb (tokenMatches U) (pt # pts) args"
        unfolding args(1) using args(2) by (intro list_emb_append2 list_emb_Cons2)
    qed
    with Some 2 show ?thesis by auto
  qed
qed simp

lemma dangerousPatterns_nonempty: "list_all (\<lambda>dp. [] \<notin> set (tokens dp)) dangerousPatterns"
  by (simp add: dangerousPatterns_def)

text \<open>An argument vector is reported as dangerous exactly when the tokens of some pattern of the
  table occur in it in order, possibly with other arguments between them: the greedy left-to-right
  search of \<open>matchTokenSequence\<close> misses no embedding.\<close>

theorem matchDangerousTokens_iff:
  "(matchDangerousTokens U args \<noteq> None) =
     list_ex (\<lambda>dp. list_emb (tokenMatches U) (tokens dp) args) dangerousPatterns"
proof -
  have "matchTokenSequence U args (tokens dp) = list_emb (tokenMatches U) (tokens dp) args"
    if "dp \<in> set dangerousPatterns" for dp
    using that dangerousPatterns_nonempty by (intro matchTokenSequence_list_emb) (auto simp: list_all_iff)
  then show ?thesis
    by (auto simp: matchDangerousTokens_def find_None_iff list_ex_iff)
qed

lemma addProtected_out:
  "\<exists>new. addProtected U seen out ps = out @ new \<and> set new \<subseteq> set ps \<and> [] \<notin> set new \<and>
     distinct (map (ToLower U) new) \<and> ToLower U ` set new \<inter> set seen = {} \<and>
     ToLower U ` (set ps - {[]}) \<subseteq> set seen \<union> ToLower U ` set new"
proof (induction U seen out ps rule: addProtected.induct)
  case (2 U seen out p ps)
  show ?case
  proof (cases "p = [] \<or> ToLower U p \<in> set seen")
    case True
    with "2.IH"(1,2) obtain new where n: "addProtected U seen out ps = out @ new" "set new \<subseteq> set ps" "[] \<notin> set new"
      "distinct (map (ToLower U) new)" "ToLower U ` set new \<inter> set seen = {}"
      "ToLower U ` (set ps - {[]}) \<subseteq> set seen \<union> ToLower U ` set new" by metis
    with True show ?thesis by (intro exI [of _ new]) auto
  next
    case False
    with "2.IH"(3) obtain new where
      n: "addProtected U (ToLower U p # seen) (out @ [p]) ps = (out @ [p]) @ new" "set new \<subseteq> set ps" "[] \<notin> set new"
      "distinct (map (ToLower U) new)" "ToLower U ` set new \<inter> set (ToLower U p # seen) = {}"
      "ToLower U ` (set ps - {[]}) \<subseteq> set (ToLower U p # seen) \<union> ToLower U ` set new" by metis
    with False show ?thesis by (intro exI [of _ "p # new"]) auto
  qed
qed simp

lemma DefaultProtected_distinct: "distinct (map (ToLower U) DefaultProtectedPaths)"
  by code_simp

text \<open>\<open>ProtectedPaths\<close> keeps the built-in patterns first and in order, never lists two patterns
  that differ only in case, and covers, up to case, exactly the built-in patterns and the
  non-empty extra ones.\<close>

theorem ProtectedPaths_correct:
  "prefix DefaultProtectedPaths (ProtectedPaths U extra) \<and>
   distinct (map (ToLower U) (ProtectedPaths U extra)) \<and>
   ToLower U ` set (ProtectedPaths U extra) =
     ToLower U ` (set DefaultProtectedPaths \<union> (set extra - {[]}))"
proof -
  let ?D = DefaultProtectedPaths
  obtain new where n: "ProtectedPaths U extra = ?D @ new" "set new \<subseteq> set extra"
      "distinct (map (ToLower U) new)" "ToLower U ` set new \<inter> set (map (ToLower U) ?D) = {}"
      "ToLower U ` (set extra - {[]}) \<subseteq> set (map (ToLower U) ?D) \<union> ToLower U ` set new"
      "[] \<notin> set new"
    using addProtected_out [of U "map (ToLower U) ?D" ?D extra] unfolding ProtectedPaths_def by blast
  then show ?thesis using DefaultProtected_distinct [of U] by (auto simp: image_Un)
qed

end
