(* ===== verification/Policy.thy ===== *)
theory Policy
  imports Shell_Ast Danger
begin

section \<open>The command policy\<close>

text \<open>
  \<^verbatim>\<open>internal/sandbox/policy.go\<close> and \<open>classifyChain\<close> of \<^verbatim>\<open>command_guard.go\<close>: the decision the
  runtime takes on a shell command.

  \<open>Classify\<close>, \<open>classifyChain\<close> and \<open>classifyWithSubstitutions\<close> call each other, and the Go code can
  recurse for ever (see \<open>Classify_returns_iff\<close>).  The model gives \<open>Classify\<close> a number of nested
  calls it may make; None says the number was used up.  The two callees take the recursive call
  as their first argument.
\<close>

subsection \<open>Definitions\<close>

datatype Decision = Allow | Confirm | Block

datatype Level = LevelReadOnly | LevelSafeDev | LevelGitBuild | LevelFullShell | LevelUnknown

record Classification =
  ClCommand :: string
  ClDecision :: Decision
  ClLevel :: Level
  Reason :: string

record CommandPolicy =
  AllowedCommands :: "string list"
  RequiresConfirm :: "string list"
  BlockedCommands :: "string list"
  levels :: "string \<rightharpoonup> Level"

definition allowReadOnly :: "string list" where
  "allowReadOnly =
     [''ls'', ''pwd'', ''cat'', ''echo'', ''head'', ''tail'', ''wc'', ''find'', ''grep'',
      ''rg'', ''tree'', ''file'', ''stat'', ''which'', ''env'', ''date'',
      ''git status'', ''git diff'', ''git log'', ''git show'', ''git branch'',
      ''git remote'', ''git rev-parse'', ''git blame'', ''git describe'',
      ''git ls-files'', ''git shortlog'', ''git tag -l'', ''git tag --list'']"

definition allowSafeDev :: "string list" where
  "allowSafeDev =
     [''go vet'', ''go test'', ''go env'', ''go list'', ''go version'', ''go doc'',
      ''go fmt'', ''gofmt'', ''cargo check'', ''cargo test'', ''cargo clippy'',
      ''pyright'', ''ruff'', ''golangci-lint'']"

definition allowGitBuild :: "string list" where
  "allowGitBuild =
     [''go build'', ''go run'', ''go generate'', ''git add'', ''git fetch'',
      ''cargo build'', ''swift build'', ''xcodebuild build'']"

definition confirmGitBuild :: "string list" where
  "confirmGitBuild =
     [''git commit'', ''git checkout'', ''git switch'', ''git restore'',
      ''git reset'', ''git clean'', ''git stash'', ''git merge'', ''git rebase'',
      ''git pull'', ''git push'', ''git tag'', ''git cherry-pick'', ''git rm'',
      ''git mv'', ''git apply'', ''git revert'']"

definition confirmFullShell :: "string list" where
  "confirmFullShell =
     [''rm'', ''rmdir'', ''mv'', ''cp'', ''chmod'', ''chown'', ''ln'', ''mkdir'', ''touch'',
      ''curl'', ''wget'', ''ssh'', ''scp'', ''kill'', ''pkill'', ''killall'',
      ''bash'', ''sh'', ''zsh'', ''make'', ''npm'', ''yarn'', ''pnpm'', ''pip'', ''pip3'',
      ''docker'', ''sudo'', ''xargs'', ''eval'']"

definition defaultBlocked :: "string list" where
  "defaultBlocked =
     [''rm -rf /'', ''rm -fr /'', ''rm -rf ~'', ''rm -fr ~'', ''rm -rf --no-preserve-root'',
      '':(){'', ''mkfs'', ''dd if='', ''of=/dev/sd'', ''of=/dev/disk'', ''> /dev/sd'',
      ''shutdown'', ''reboot'', ''halt'', ''init 0'', ''init 6'',
      ''git push --force origin main'', ''git push -f origin main'',
      ''git push --force origin master'', ''git push -f origin master'',
      ''chmod -r 000'', ''chmod 000 /'',
      ''bash -c'', ''sh -c'', ''zsh -c'', ''bash -lc'', ''/bin/sh -c'']"

text \<open>\<open>DefaultPolicy\<close> ranges over two Go maps, so the order of the prefixes is not determined; the
  model takes the order of the source text.  \<open>longestPrefixMatch_order\<close> shows that the order has
  no effect on a classification.\<close>

definition levelled :: "Level \<Rightarrow> string list \<Rightarrow> (string \<times> Level) list" where
  "levelled lvl cmds = map (\<lambda>c. (c, lvl)) cmds"

definition DefaultPolicy :: CommandPolicy where
  "DefaultPolicy =
     \<lparr>AllowedCommands = allowReadOnly @ allowSafeDev @ allowGitBuild,
      RequiresConfirm = confirmGitBuild @ confirmFullShell,
      BlockedCommands = defaultBlocked,
      levels = map_of (levelled LevelReadOnly allowReadOnly @ levelled LevelSafeDev allowSafeDev @
        levelled LevelGitBuild allowGitBuild @ levelled LevelGitBuild confirmGitBuild @
        levelled LevelFullShell confirmFullShell)\<rparr>"

definition levelOf :: "CommandPolicy \<Rightarrow> string \<Rightarrow> Level" where
  "levelOf p pfx = (case levels p pfx of Some lvl \<Rightarrow> lvl | None \<Rightarrow> LevelUnknown)"

text \<open>The bytes of the arrow and the dash the reasons contain.\<close>

definition ARROW :: string where "ARROW = [CHR 0xE2, CHR 0x86, CHR 0x92]"
definition EMDASH :: string where "EMDASH = [CHR 0xE2, CHR 0x80, CHR 0x94]"

definition envReason :: "string \<Rightarrow> string" where
  "envReason v = ''dangerous env var '' @ v @ '' '' @ EMDASH @ '' needs confirmation''"

text \<open>\<open>classifyOne\<close> after the assignments: blocked patterns, dangerous tokens, the longest prefix,
  and the escalation of a dangerous assignment.\<close>

definition dangerousPattern :: "unicode_tables \<Rightarrow> string \<Rightarrow> dangerousTokenPattern option" where
  "dangerousPattern U cmd =
     (case SplitArgs cmd of Inr args \<Rightarrow> matchDangerousTokens U args | Inl _ \<Rightarrow> None)"

definition prefixVerdict :: "CommandPolicy \<Rightarrow> string \<Rightarrow> Classification" where
  "prefixVerdict p cmd =
     (let allowPfx = longestPrefixMatch cmd (AllowedCommands p);
          confirmPfx = longestPrefixMatch cmd (RequiresConfirm p)
      in if allowPfx \<noteq> [] \<and> length allowPfx \<ge> length confirmPfx then
           \<lparr>ClCommand = cmd, ClDecision = Allow, ClLevel = levelOf p allowPfx,
            Reason = ''allowed: '' @ allowPfx\<rparr>
         else if confirmPfx \<noteq> [] then
           \<lparr>ClCommand = cmd, ClDecision = Confirm, ClLevel = levelOf p confirmPfx,
            Reason = ''needs confirmation: '' @ confirmPfx\<rparr>
         else
           \<lparr>ClCommand = cmd, ClDecision = Confirm, ClLevel = LevelUnknown,
            Reason = ''unrecognized command; needs confirmation''\<rparr>)"

definition blockedPattern :: "unicode_tables \<Rightarrow> CommandPolicy \<Rightarrow> string \<Rightarrow> string option" where
  "blockedPattern U p cmd =
     find (\<lambda>b. Contains (ToLower U (unquotedStructure cmd)) (ToLower U b)) (BlockedCommands p)"

definition escalate :: "unicode_tables \<Rightarrow> string \<Rightarrow> Classification \<Rightarrow> Classification" where
  "escalate U cmd result =
     (case hasDangerousAssignment U cmd of
        Some v \<Rightarrow>
          if ClDecision result = Allow
          then result\<lparr>ClDecision := Confirm, Reason := envReason v\<rparr> else result
      | None \<Rightarrow> result)"

definition classifyBare :: "unicode_tables \<Rightarrow> CommandPolicy \<Rightarrow> string \<Rightarrow> Classification" where
  "classifyBare U p cmd =
     (case blockedPattern U p cmd of
        Some b \<Rightarrow>
          \<lparr>ClCommand = cmd, ClDecision = Block, ClLevel = LevelFullShell,
           Reason = ''matches blocked pattern: '' @ b\<rparr>
      | None \<Rightarrow>
          (case dangerousPattern U cmd of
             Some dp \<Rightarrow>
               \<lparr>ClCommand = cmd, ClDecision = Block, ClLevel = LevelFullShell,
                Reason = ''dangerous pattern: '' @ desc dp\<rparr>
           | None \<Rightarrow> escalate U cmd (prefixVerdict p cmd)))"

lemma stripLoop_cases: "stripLoop U c s = c \<or> sublist (stripLoop U c s) s"
proof (induction U c s rule: stripLoop.induct)
  case (1 U c s)
  have tr: "sublist (TrimSpace (drop i s)) s" for i
    by (rule sublist_order.order_trans [OF TrimSpace_sublist sublist_drop])
  show ?case
  proof (cases "isAssignment (firstWord s) \<and> hasDangerousAssignment U (firstWord s) = None")
    case False
    then show ?thesis by (subst (1 2) stripLoop.simps) auto
  next
    case True
    show ?thesis
    proof (cases "IndexAny s [SP, TAB]")
      case None
      with True tr show ?thesis by (subst (1 2) stripLoop.simps) auto
    next
      case (Some i)
      have eq: "stripLoop U c s = stripLoop U c (TrimSpace (drop i s))"
        using True Some by (subst stripLoop.simps) simp
      have "stripLoop U c (TrimSpace (drop i s)) = c \<or>
          sublist (stripLoop U c (TrimSpace (drop i s))) (TrimSpace (drop i s))"
        using "1.IH" True Some by simp
      with eq tr [of i] show ?thesis by (metis sublist_order.order_trans)
    qed
  qed
qed

lemma stripSafeAssignments_shorter:
  "stripSafeAssignments U cmd \<noteq> cmd \<Longrightarrow> length (stripSafeAssignments U cmd) < length cmd"
proof -
  assume ne: "stripSafeAssignments U cmd \<noteq> cmd"
  then have "sublist (stripSafeAssignments U cmd) (TrimSpace cmd)"
    using stripLoop_cases [of U cmd "TrimSpace cmd"] by (auto simp: stripSafeAssignments_def)
  then have "sublist (stripSafeAssignments U cmd) cmd"
    using TrimSpace_sublist sublist_order.order_trans by blast
  with ne show ?thesis
    using sublist_same_length sublist_length_le by (metis le_neq_implies_less)
qed

function classifyOne :: "unicode_tables \<Rightarrow> CommandPolicy \<Rightarrow> string \<Rightarrow> Classification" where
  "classifyOne U p cmd =
     (let trimmed = stripSafeAssignments U cmd in
      if trimmed \<noteq> cmd then (escalate U cmd (classifyOne U p trimmed))\<lparr>ClCommand := cmd\<rparr>
      else classifyBare U p cmd)"
  by pat_completeness auto
termination
  by (relation "measure (\<lambda>(U, p, cmd). length cmd)") (auto dest: stripSafeAssignments_shorter)

declare classifyOne.simps [simp del]

text \<open>The aggregation \<open>switch\<close> the three compound classifiers repeat, on the decisions alone.\<close>

definition aggregate :: "Decision \<Rightarrow> Decision \<Rightarrow> Decision" where
  "aggregate c worst =
     (if c = Block \<or> worst = Block then Block
      else if c = Confirm \<or> worst = Confirm then Confirm
      else worst)"

fun worstOf :: "Classification \<Rightarrow> Classification list \<Rightarrow> Classification" where
  "worstOf worst [] = worst"
| "worstOf worst (c # cs) =
     worstOf (worst\<lparr>ClDecision := aggregate (ClDecision c) (ClDecision worst)\<rparr>) cs"

text \<open>The zero value of the struct, which \<open>var worst\<close> starts from and which the loops replace by
  the first classification.\<close>

definition zeroClassification :: Classification where
  "zeroClassification = \<lparr>ClCommand = [], ClDecision = Allow, ClLevel = LevelReadOnly, Reason = []\<rparr>"

definition foldWorst :: "Classification list \<Rightarrow> Classification" where
  "foldWorst cs = (case cs of [] \<Rightarrow> zeroClassification | c # rest \<Rightarrow> worstOf c rest)"

definition hasComplexStructure :: "Program \<Rightarrow> bool" where
  "hasComplexStructure prog =
     list_ex (\<lambda>st. TooComplex st \<or> (case Cmd st of Some c \<Rightarrow> Redirects c \<noteq> [] | None \<Rightarrow> False)) prog"

definition classifyStatement ::
  "unicode_tables \<Rightarrow> CommandPolicy \<Rightarrow> string \<Rightarrow> Statement \<Rightarrow> Classification" where
  "classifyStatement U p originalCommand st =
     (if TooComplex st then
        \<lparr>ClCommand = originalCommand, ClDecision = Confirm, ClLevel = LevelUnknown,
         Reason = ''too complex structure; needs confirmation''\<rparr>
      else
        (case Cmd st of
           Some c \<Rightarrow>
             if Program c \<noteq> [] then
               (let subCmd = Join (Assignments c @ Args c) '' '' in
                (classifyOne U p (peelWrappers subCmd))\<lparr>ClCommand := subCmd\<rparr>)
             else classifyOne U p originalCommand
         | None \<Rightarrow> classifyOne U p originalCommand))"

definition classifyAST ::
  "unicode_tables \<Rightarrow> CommandPolicy \<Rightarrow> Program \<Rightarrow> string \<Rightarrow> Classification" where
  "classifyAST U p prog originalCommand =
     (let cs = map (classifyStatement U p originalCommand) prog in
      (foldWorst cs)\<lparr>ClCommand := originalCommand,
        Reason := ''AST compound ('' @ Join (map Reason cs) ''; '' @ '')''\<rparr>)"

text \<open>\<open>stripSubstitutions\<close>: each \<open>$(...)\<close> replaced by two single quotes.\<close>

function stripSubstLoop :: "bool \<Rightarrow> bool \<Rightarrow> string \<Rightarrow> string" where
  "stripSubstLoop inSingle inDouble [] = []"
| "stripSubstLoop inSingle inDouble (r # rs) =
     (if inSingle then r # stripSubstLoop (r \<noteq> SQ) inDouble rs
      else if inDouble then
        (if HasPrefix (r # rs) ''$('' then
           [SQ, SQ] @ stripSubstLoop inSingle inDouble
             (drop (2 + snd (extractBracketContent (drop 2 (r # rs))) + 1) (r # rs))
         else r # stripSubstLoop inSingle (r \<noteq> DQ) rs)
      else if r = SQ then r # stripSubstLoop True inDouble rs
      else if r = DQ then r # stripSubstLoop inSingle True rs
      else if HasPrefix (r # rs) ''$('' then
        [SQ, SQ] @ stripSubstLoop inSingle inDouble
          (drop (2 + snd (extractBracketContent (drop 2 (r # rs))) + 1) (r # rs))
      else r # stripSubstLoop inSingle inDouble rs)"
  by pat_completeness auto
termination
  by (relation "measure (\<lambda>(inSingle, inDouble, s). length s)") auto

definition stripSubstitutions :: "string \<Rightarrow> string" where
  "stripSubstitutions command = TrimSpace (stripSubstLoop False False command)"

definition substReason :: "string \<Rightarrow> Classification \<Rightarrow> string" where
  "substReason sub c = ''$('' @ sub @ '') '' @ ARROW @ '' '' @ Reason c"

definition classifyWithSubstitutions ::
  "(string \<Rightarrow> Classification option) \<Rightarrow> unicode_tables \<Rightarrow> CommandPolicy \<Rightarrow> string \<Rightarrow> string list
    \<Rightarrow> Classification option" where
  "classifyWithSubstitutions rec U p originalCommand subs =
     (let cs = map (\<lambda>sub. classifyOne U p (peelWrappers sub)) subs;
          reasons = map2 substReason subs cs;
          worst = foldWorst cs;
          finish = (\<lambda>worst reasons. worst\<lparr>ClCommand := originalCommand,
            Reason := ''command substitution ('' @ Join reasons ''; '' @ '')''\<rparr>);
          stripped = stripSubstitutions originalCommand
      in if stripped \<noteq> [] \<and> stripped \<noteq> originalCommand then
           (case rec stripped of
              None \<Rightarrow> None
            | Some outer \<Rightarrow>
                Some (finish
                  (worst\<lparr>ClDecision := aggregate (ClDecision outer) (ClDecision worst)\<rparr>)
                  (reasons @ [''outer: '' @ Reason outer])))
         else Some (finish worst reasons))"

definition classifyChain ::
  "(string \<Rightarrow> Classification option) \<Rightarrow> unicode_tables \<Rightarrow> CommandPolicy \<Rightarrow> string
    \<Rightarrow> Classification option" where
  "classifyChain rec U p command =
     (let cmd = TrimSpace command in
      case dangerousPattern U cmd of
        Some dp \<Rightarrow>
          Some \<lparr>ClCommand = cmd, ClDecision = Block, ClLevel = LevelFullShell,
                Reason = ''dangerous pattern: '' @ desc dp\<rparr>
      | None \<Rightarrow>
          (let subs = fst (splitByOperators cmd) in
           if length subs \<le> 1 then rec cmd
           else
             (let cs = map (\<lambda>sub. classifyOne U p (peelWrappers sub)) subs in
              Some ((foldWorst cs)\<lparr>ClCommand := command,
                Reason := ''compound command ('' @ Join (map Reason cs) ''; '' @ '')''\<rparr>))))"

fun Classify :: "nat \<Rightarrow> unicode_tables \<Rightarrow> CommandPolicy \<Rightarrow> string \<Rightarrow> Classification option" where
  "Classify 0 U p command = None"
| "Classify (Suc n) U p command =
     (let cmd = TrimSpace command in
      if cmd = [] then
        Some \<lparr>ClCommand = cmd, ClDecision = Block, ClLevel = LevelUnknown, Reason = ''empty command''\<rparr>
      else if peelWrappers cmd \<noteq> cmd then
        Some ((classifyOne U p (peelWrappers cmd))\<lparr>ClCommand := cmd\<rparr>)
      else if extractCommandSubstitutions cmd \<noteq> [] then
        classifyWithSubstitutions (Classify n U p) U p cmd (extractCommandSubstitutions cmd)
      else if length (Parse cmd) > 1 \<or> hasComplexStructure (Parse cmd) then
        Some (classifyAST U p (Parse cmd) cmd)
      else if ContainsChainOperators cmd then classifyChain (Classify n U p) U p cmd
      else Some (classifyOne U p cmd))"

text \<open>Specification vocabulary: no substitution left outside single quotes; the commands on which the
  calls do not end; the strictness order; the verdicts on the parts of a command.\<close>

fun substFree :: "bool \<Rightarrow> bool \<Rightarrow> string \<Rightarrow> bool" where
  "substFree a b [] = True"
| "substFree a b (r # rs) =
     ((a \<or> \<not> HasPrefix (r # rs) ''$('') \<and> (case quoteState a b [r] of (a', b') \<Rightarrow> substFree a' b' rs))"

definition chainLoops :: "unicode_tables \<Rightarrow> string \<Rightarrow> bool" where
  "chainLoops U cmd \<longleftrightarrow>
     cmd \<noteq> [] \<and> peelWrappers cmd = cmd \<and> extractCommandSubstitutions cmd = [] \<and>
     length (Parse cmd) \<le> 1 \<and> \<not> hasComplexStructure (Parse cmd) \<and> ContainsChainOperators cmd \<and>
     dangerousPattern U cmd = None \<and> length (SplitCommands cmd) \<le> 1"

definition substLoops :: "unicode_tables \<Rightarrow> string \<Rightarrow> bool" where
  "substLoops U cmd \<longleftrightarrow>
     cmd \<noteq> [] \<and> peelWrappers cmd = cmd \<and> extractCommandSubstitutions cmd \<noteq> [] \<and>
     stripSubstitutions cmd \<noteq> cmd \<and> chainLoops U (stripSubstitutions cmd)"

definition allowWins :: "CommandPolicy \<Rightarrow> string \<Rightarrow> bool" where
  "allowWins p cmd \<longleftrightarrow>
     longestPrefixMatch cmd (AllowedCommands p) \<noteq> [] \<and>
     length (longestPrefixMatch cmd (RequiresConfirm p)) \<le> length (longestPrefixMatch cmd (AllowedCommands p))"

fun strictness :: "Decision \<Rightarrow> nat" where
  "strictness Allow = 0" | "strictness Confirm = 1" | "strictness Block = 2"

instantiation Decision :: linorder
begin
definition less_eq_Decision :: "Decision \<Rightarrow> Decision \<Rightarrow> bool" where
  "less_eq_Decision a b = (strictness a \<le> strictness b)"
definition less_Decision :: "Decision \<Rightarrow> Decision \<Rightarrow> bool" where
  "less_Decision a b = (strictness a < strictness b)"
instance
proof
  fix x y z :: Decision
  show "x \<le> y \<Longrightarrow> y \<le> x \<Longrightarrow> x = y"
    by (cases x; cases y) (simp_all add: less_eq_Decision_def)
qed (auto simp: less_eq_Decision_def less_Decision_def)
end

definition partVerdict :: "unicode_tables \<Rightarrow> CommandPolicy \<Rightarrow> string \<Rightarrow> Decision" where
  "partVerdict U p sub = ClDecision (classifyOne U p (peelWrappers sub))"

definition flatVerdicts :: "unicode_tables \<Rightarrow> CommandPolicy \<Rightarrow> string \<Rightarrow> Decision set" where
  "flatVerdicts U p cmd =
     (if cmd = [] then {Block}
      else if peelWrappers cmd \<noteq> cmd then {partVerdict U p cmd}
      else if length (Parse cmd) > 1 \<or> hasComplexStructure (Parse cmd) then
        (\<lambda>st. ClDecision (classifyStatement U p cmd st)) ` set (Parse cmd)
      else if ContainsChainOperators cmd then
        (if dangerousPattern U cmd \<noteq> None then {Block} else partVerdict U p ` set (SplitCommands cmd))
      else {partVerdict U p cmd})"

definition verdicts :: "unicode_tables \<Rightarrow> CommandPolicy \<Rightarrow> string \<Rightarrow> Decision set" where
  "verdicts U p cmd =
     (let subs = extractCommandSubstitutions cmd; stripped = stripSubstitutions cmd in
      if cmd = [] \<or> peelWrappers cmd \<noteq> cmd \<or> subs = [] then flatVerdicts U p cmd
      else partVerdict U p ` set subs \<union>
        (if stripped \<noteq> [] \<and> stripped \<noteq> cmd then flatVerdicts U p stripped else {}))"

definition sameRules :: "CommandPolicy \<Rightarrow> CommandPolicy \<Rightarrow> bool" where
  "sameRules p q \<longleftrightarrow> set (AllowedCommands p) = set (AllowedCommands q) \<and>
     set (RequiresConfirm p) = set (RequiresConfirm q) \<and>
     BlockedCommands p = BlockedCommands q \<and> levels p = levels q"

subsection \<open>Wrappers and substitutions\<close>

lemma peelLoop_fixed: "trimmed cmd \<Longrightarrow> trimmed (peelLoop cmd) \<and> peelLoop (peelLoop cmd) = peelLoop cmd"
proof (induction cmd rule: peelLoop.induct)
  case (1 cmd)
  let ?f = "find (\<lambda>w. cmd = w \<or> HasPrefix cmd (w @ '' '')) safeWrappers"
  show ?case
  proof (cases ?f)
    case None
    then have "peelLoop cmd = cmd" by (subst peelLoop.simps) simp
    with 1 show ?thesis by simp
  next
    case (Some w)
    show ?thesis
    proof (cases "TrimSpace (drop (length w) cmd) = []")
      case True
      with Some have "peelLoop cmd = cmd" by (subst peelLoop.simps) simp
      with 1 show ?thesis by simp
    next
      case False
      with Some have "peelLoop cmd = peelLoop (TrimSpace (wrapperRest w (TrimSpace (drop (length w) cmd))))"
        by (subst peelLoop.simps) simp
      with "1.IH" [OF Some refl False] show ?thesis by (simp add: trimmed_TrimSpace)
    qed
  qed
qed

lemma peelWrappers_idem: "peelWrappers (peelWrappers command) = peelWrappers command"
  using peelLoop_fixed [OF trimmed_TrimSpace, of command] by (simp add: peelWrappers_def TrimSpace_id)

lemma substFree_extract: "substFree a b s \<Longrightarrow> extractLoop a b s = []"
proof (induction s arbitrary: a b)
  case (Cons r rs)
  then show ?case by (cases a; cases b) (auto split: if_splits)
qed simp

lemma stripSubstLoop_hd: "HasPrefix (stripSubstLoop a b s) ''('' \<Longrightarrow> HasPrefix s ''(''"
  by (cases "(a, b, s)" rule: stripSubstLoop.cases) (auto split: if_splits)

lemma substFree_strip: "substFree a b (stripSubstLoop a b s)"
proof (induction a b s rule: stripSubstLoop.induct)
  case (2 a b r rs)
  have "\<not> HasPrefix (r # stripSubstLoop x y rs) ''$(''" if "\<not> HasPrefix (r # rs) ''$(''" for x y
    using that stripSubstLoop_hd [of x y rs] by auto
  with 2 show ?case
    by (cases a; cases b; cases "HasPrefix (r # rs) ''$(''") (auto simp del: HasPrefix.simps, auto)
qed simp

lemma substFree_prefix: "substFree a b (s @ t) \<Longrightarrow> substFree a b s"
proof (induction s arbitrary: a b)
  case (Cons r rs)
  have "HasPrefix (r # rs) p \<Longrightarrow> HasPrefix ((r # rs) @ t) p" for p
    by (metis HasPrefix_iff prefix_prefix)
  with Cons show ?case
    by (auto simp del: HasPrefix.simps quoteState.simps split: prod.splits)
qed simp

lemma substFree_blank:
  "set w \<inter> {SQ, DQ, CHR ''$''} = {} \<Longrightarrow> substFree False False (w @ s) \<longleftrightarrow> substFree False False s"
  by (induction w) auto

lemma spaceRunes_noSubst: "w \<in> set spaceRunes \<Longrightarrow> set w \<inter> {SQ, DQ, CHR ''$''} = {}"
  by (auto simp: spaceRunes_def)

lemma substFree_TrimSpace: "substFree False False s \<Longrightarrow> substFree False False (TrimSpace s)"
proof -
  assume free: "substFree False False s"
  obtain a b where s: "s = concat a @ TrimSpace s @ concat b" and a: "set a \<subseteq> set spaceRunes"
    and "set b \<subseteq> set spaceRunes" by (rule TrimSpace_decomp)
  have "set (concat a) \<inter> {SQ, DQ, CHR ''$''} = {}"
    by (rule concat_disjoint) (rule spaceRunes_noSubst, rule subsetD [OF a])
  from substFree_blank [OF this, of "TrimSpace s @ concat b"] subst [OF s, of "substFree False False", OF free]
  have "substFree False False (TrimSpace s @ concat b)" by blast
  then show ?thesis by (rule substFree_prefix)
qed

lemma extract_strip: "extractCommandSubstitutions (stripSubstitutions command) = []"
  unfolding extractCommandSubstitutions_def stripSubstitutions_def
  by (intro substFree_extract substFree_TrimSpace substFree_strip)

lemma Classify_chainLoops:
  "chainLoops U (TrimSpace command) \<Longrightarrow> Classify n U p command = None"
  by (induction n arbitrary: command)
     (auto simp: chainLoops_def classifyChain_def SplitCommands_def Let_def)

lemma Classify_substFree:
  assumes "extractCommandSubstitutions (TrimSpace command) = []" "\<not> chainLoops U (TrimSpace command)"
  shows "Classify (Suc n) U p command = Classify 1 U p command \<and> Classify 1 U p command \<noteq> None"
  using assms
  by (auto simp: chainLoops_def classifyChain_def SplitCommands_def Let_def split: option.splits)

lemma TrimSpace_stripSubstitutions [simp]: "TrimSpace (stripSubstitutions c) = stripSubstitutions c"
  by (simp add: stripSubstitutions_def)

lemma classifyWithSubstitutions_cong:
  "rec (stripSubstitutions c) = rec' (stripSubstitutions c) \<Longrightarrow>
   classifyWithSubstitutions rec U p c subs = classifyWithSubstitutions rec' U p c subs"
  by (simp add: classifyWithSubstitutions_def Let_def)

lemma classifyWithSubstitutions_None:
  "classifyWithSubstitutions rec U p c subs = None \<longleftrightarrow>
     stripSubstitutions c \<noteq> [] \<and> stripSubstitutions c \<noteq> c \<and> rec (stripSubstitutions c) = None"
  by (simp add: classifyWithSubstitutions_def Let_def split: option.splits)

lemma Classify_fuel:
  "Classify (Suc (Suc n)) U p command = Classify 2 U p command"
  "Classify 2 U p command = None \<longleftrightarrow>
     chainLoops U (TrimSpace command) \<or> substLoops U (TrimSpace command)"
proof -
  let ?cmd = "TrimSpace command"
  let ?s = "stripSubstitutions ?cmd"
  have "Classify (Suc (Suc n)) U p command = Classify 2 U p command \<and>
    (Classify 2 U p command = None \<longleftrightarrow> chainLoops U ?cmd \<or> substLoops U ?cmd)" for n
  proof (cases "extractCommandSubstitutions ?cmd = []")
    case True
    then have "\<not> substLoops U ?cmd" by (simp add: substLoops_def)
    then show ?thesis
      using Classify_chainLoops [of U command] Classify_substFree [OF True] by (metis numeral_2_eq_2)
  next
    case False
    then have nl: "\<not> chainLoops U ?cmd" by (simp add: chainLoops_def)
    have inner: "Classify (Suc n) U p ?s = Classify 1 U p ?s \<and> (Classify 1 U p ?s = None \<longleftrightarrow> chainLoops U ?s)" for n
      using Classify_chainLoops [of U ?s] Classify_substFree [of ?s U] extract_strip by (metis TrimSpace_stripSubstitutions)
    have ne: "?s \<noteq> []" if "chainLoops U ?s" using that by (simp add: chainLoops_def)
    show ?thesis
    proof (cases "?cmd = [] \<or> peelWrappers ?cmd \<noteq> ?cmd")
      case True
      with nl show ?thesis by (auto simp: numeral_2_eq_2 substLoops_def Let_def)
    next
      case plain: False
      have unfold: "Classify (Suc m) U p command =
          classifyWithSubstitutions (Classify m U p) U p ?cmd (extractCommandSubstitutions ?cmd)" for m
        using plain False by (simp add: Let_def)
      have "substLoops U ?cmd \<longleftrightarrow> ?s \<noteq> ?cmd \<and> chainLoops U ?s"
        using plain False by (auto simp: substLoops_def)
      moreover have "Classify (Suc (Suc n)) U p command = Classify 2 U p command"
        unfolding numeral_2_eq_2 unfold using inner [of n] inner [of 0]
        by (intro classifyWithSubstitutions_cong) simp
      moreover have "Classify 2 U p command = None \<longleftrightarrow> ?s \<noteq> [] \<and> ?s \<noteq> ?cmd \<and> Classify 1 U p ?s = None"
        unfolding numeral_2_eq_2 unfold classifyWithSubstitutions_None One_nat_def ..
      ultimately show ?thesis using inner [of 0] nl ne by blast
    qed
  qed
  then show "Classify (Suc (Suc n)) U p command = Classify 2 U p command"
  "Classify 2 U p command = None \<longleftrightarrow>
     chainLoops U (TrimSpace command) \<or> substLoops U (TrimSpace command)" by blast+
qed
subsection \<open>Decisions\<close>


lemma stripLoop_result:
  "trimmed s \<Longrightarrow> stripLoop U c s = c \<or>
     (trimmed (stripLoop U c s) \<and> \<not> isAssignment (firstWord (stripLoop U c s)))"
proof (induction U c s rule: stripLoop.induct)
  case (1 U c s)
  have nil: "\<not> isAssignment (firstWord [])" by (simp add: isAssignment_def firstWord_def Contains_def)
  show ?case
  proof (cases "isAssignment (firstWord s) \<and> hasDangerousAssignment U (firstWord s) = None")
    case False
    with 1 show ?thesis by (subst (1 2 3) stripLoop.simps) auto
  next
    case True
    show ?thesis
    proof (cases "IndexAny s [SP, TAB]")
      case None
      with True have "stripLoop U c s = TrimSpace []" by (subst stripLoop.simps) (simp add: firstWord_def)
      then show ?thesis using nil by (simp add: trimmed_TrimSpace) (metis TrimSpace_length le_zero_eq length_0_conv list.size(3))
    next
      case (Some i)
      have eq: "stripLoop U c s = stripLoop U c (TrimSpace (drop i s))"
        using True Some by (subst stripLoop.simps) simp
      with "1.IH" True Some show ?thesis by (simp add: trimmed_TrimSpace)
    qed
  qed
qed

lemma stripSafeAssignments_result:
  "stripSafeAssignments U cmd \<noteq> cmd \<Longrightarrow> trimmed (stripSafeAssignments U cmd) \<and>
     \<not> isAssignment (firstWord (stripSafeAssignments U cmd))"
  using stripLoop_result [OF trimmed_TrimSpace, of U cmd cmd] by (auto simp: stripSafeAssignments_def)

lemma stripSafeAssignments_idem:
  "stripSafeAssignments U (stripSafeAssignments U cmd) = stripSafeAssignments U cmd"
proof (cases "stripSafeAssignments U cmd = cmd")
  case False
  let ?s = "stripSafeAssignments U cmd"
  from stripSafeAssignments_result [OF False]
  have "stripLoop U ?s ?s = ?s" by (subst stripLoop.simps) simp
  with stripSafeAssignments_result [OF False] show ?thesis
    by (simp add: stripSafeAssignments_def [of U ?s] TrimSpace_id)
qed simp

lemma core_no_dangerous:
  "stripSafeAssignments U cmd \<noteq> cmd \<Longrightarrow> hasDangerousAssignment U (stripSafeAssignments U cmd) = None"
  using stripSafeAssignments_result [of U cmd]
  by (simp add: hasDangerousAssignment_def TrimSpace_id dangerousLoop.simps)

lemma classifyOne_core:
  "classifyOne U p cmd =
     (let core = stripSafeAssignments U cmd in
      if core \<noteq> cmd then (escalate U cmd (classifyBare U p core))\<lparr>ClCommand := cmd\<rparr>
      else classifyBare U p cmd)"
proof -
  have "classifyOne U p (stripSafeAssignments U cmd) = classifyBare U p (stripSafeAssignments U cmd)"
    by (subst classifyOne.simps) (simp add: stripSafeAssignments_idem)
  then show ?thesis by (subst classifyOne.simps) (simp add: Let_def)
qed

lemma escalate_decision:
  "ClDecision (escalate U cmd c) = (if hasDangerousAssignment U cmd \<noteq> None \<and> ClDecision c = Allow then Confirm else ClDecision c)"
  by (auto simp: escalate_def split: option.splits)

lemma prefixVerdict_decision: "ClDecision (prefixVerdict p cmd) = (if allowWins p cmd then Allow else Confirm)"
  by (auto simp: prefixVerdict_def allowWins_def Let_def)

lemma classifyBare_decision:
  "ClDecision (classifyBare U p cmd) =
     (if blockedPattern U p cmd \<noteq> None \<or> dangerousPattern U cmd \<noteq> None then Block
      else if allowWins p cmd \<and> hasDangerousAssignment U cmd = None then Allow else Confirm)"
  by (auto simp: classifyBare_def escalate_decision prefixVerdict_decision split: option.splits)


lemma aggregate_max: "aggregate c w = max c w"
  by (cases c; cases w) (simp_all add: aggregate_def max_def less_eq_Decision_def)

lemma Allow_least [simp]: "Allow \<le> d"
  by (simp add: less_eq_Decision_def)

lemma le_Allow [simp]: "d \<le> Allow \<longleftrightarrow> d = Allow"
  by (cases d) (simp_all add: less_eq_Decision_def)

lemma worstOf_decision: "ClDecision (worstOf w cs) = fold max (map ClDecision cs) (ClDecision w)"
  by (induction w cs rule: worstOf.induct) (simp_all add: aggregate_max)

lemma foldWorst_decision: "cs \<noteq> [] \<Longrightarrow> ClDecision (foldWorst cs) = Max (ClDecision ` set cs)"
proof (cases cs)
  case (Cons a list)
  then show ?thesis
    using Max.set_eq_fold [of "ClDecision a" "map ClDecision list"]
    by (simp add: foldWorst_def worstOf_decision)
qed simp

locale compound_verdict =
  fixes verdict :: "'a \<Rightarrow> Decision" and whole :: "'a list \<Rightarrow> Decision"
  assumes whole_Max: "parts \<noteq> [] \<Longrightarrow> whole parts = Max (verdict ` set parts)"
begin

lemma part_le_whole: "x \<in> set parts \<Longrightarrow> verdict x \<le> whole parts"
  by (subst whole_Max) auto

lemma whole_is_part: "parts \<noteq> [] \<Longrightarrow> \<exists>x\<in>set parts. whole parts = verdict x"
proof -
  assume ne: "parts \<noteq> []"
  then have "Max (verdict ` set parts) \<in> verdict ` set parts" by (intro Max_in) auto
  then obtain x where "Max (verdict ` set parts) = verdict x" "x \<in> set parts" by (rule imageE)
  with ne show ?thesis by (auto simp: whole_Max)
qed

lemma whole_Allow_iff: "parts \<noteq> [] \<Longrightarrow> whole parts = Allow \<longleftrightarrow> (\<forall>x\<in>set parts. verdict x = Allow)"
  using part_le_whole whole_is_part by (metis le_Allow)

lemma whole_reorder: "set parts = set parts' \<Longrightarrow> parts \<noteq> [] \<Longrightarrow> whole parts = whole parts'"
  by (metis whole_Max set_empty)

end

interpretation ast: compound_verdict "\<lambda>st. ClDecision (classifyStatement U p cmd st)"
  "\<lambda>prog. ClDecision (classifyAST U p prog cmd)" for U p cmd
  by unfold_locales (simp add: classifyAST_def Let_def foldWorst_decision image_image)

interpretation seq: compound_verdict "\<lambda>sub. ClDecision (classifyOne U p (peelWrappers sub))"
  "\<lambda>subs. ClDecision (foldWorst (map (\<lambda>sub. classifyOne U p (peelWrappers sub)) subs))" for U p
  by unfold_locales (simp add: foldWorst_decision image_image)

lemma Classify_flat:
  assumes "Classify n U p command = Some c" "cmd = TrimSpace command"
    "cmd = [] \<or> peelWrappers cmd \<noteq> cmd \<or> extractCommandSubstitutions cmd = []"
  shows "ClDecision c = Max (flatVerdicts U p cmd)" "finite (flatVerdicts U p cmd)" "flatVerdicts U p cmd \<noteq> {}"
proof -
  have A: "Parse cmd \<noteq> []" if "length (Parse cmd) > 1 \<or> hasComplexStructure (Parse cmd)"
    using that by (auto simp: hasComplexStructure_def)
  have fin: "finite (flatVerdicts U p cmd)" by (simp add: flatVerdicts_def)
  obtain m where n: "n = Suc m" using assms(1) by (cases n) auto
  have loops: "\<not> chainLoops U cmd" using Classify_chainLoops assms(1,2) by fastforce
  show "finite (flatVerdicts U p cmd)" by (rule fin)
  consider (e) "cmd = []" | (w) "cmd \<noteq> []" "peelWrappers cmd \<noteq> cmd"
    | (a) "cmd \<noteq> []" "peelWrappers cmd = cmd" "length (Parse cmd) > 1 \<or> hasComplexStructure (Parse cmd)"
    | (c) "cmd \<noteq> []" "peelWrappers cmd = cmd" "\<not> (length (Parse cmd) > 1 \<or> hasComplexStructure (Parse cmd))" "ContainsChainOperators cmd"
    | (s) "cmd \<noteq> []" "peelWrappers cmd = cmd" "\<not> (length (Parse cmd) > 1 \<or> hasComplexStructure (Parse cmd))" "\<not> ContainsChainOperators cmd"
    by blast
  then have "ClDecision c = Max (flatVerdicts U p cmd) \<and> flatVerdicts U p cmd \<noteq> {}"
  proof cases
    case e then show ?thesis using assms n by (auto simp: flatVerdicts_def Let_def)
  next
    case w then show ?thesis using assms n by (auto simp: flatVerdicts_def Let_def partVerdict_def peelWrappers_idem)
  next
    case a
    then show ?thesis using assms n A ast.whole_Max [OF A] by (auto simp: flatVerdicts_def Let_def)
  next
    case c
    then have "length (SplitCommands cmd) > 1 \<or> dangerousPattern U cmd \<noteq> None"
      using loops assms(3) by (auto simp: chainLoops_def)
    moreover have "SplitCommands cmd \<noteq> []" if "length (SplitCommands cmd) > 1" using that by auto
    ultimately show ?thesis
      using c assms n seq.whole_Max [of "SplitCommands cmd" U p]
      by (auto simp: flatVerdicts_def Let_def classifyChain_def partVerdict_def SplitCommands_def split: option.splits)
  next
    case s then show ?thesis using assms n by (auto simp: flatVerdicts_def Let_def partVerdict_def)
  qed
  then show "ClDecision c = Max (flatVerdicts U p cmd)" "flatVerdicts U p cmd \<noteq> {}" by blast+
qed



lemma prefixVerdict_order:
  "set (AllowedCommands p) = set (AllowedCommands q) \<Longrightarrow> set (RequiresConfirm p) = set (RequiresConfirm q) \<Longrightarrow>
   levels p = levels q \<Longrightarrow> prefixVerdict p cmd = prefixVerdict q cmd"
  using longestPrefixMatch_order [of "AllowedCommands p" "AllowedCommands q" cmd]
    longestPrefixMatch_order [of "RequiresConfirm p" "RequiresConfirm q" cmd]
  by (simp add: prefixVerdict_def levelOf_def Let_def)

lemma classifyOne_order: "sameRules p q \<Longrightarrow> classifyOne U p = classifyOne U q"
proof -
  assume same: "sameRules p q"
  then have "prefixVerdict p = prefixVerdict q"
    unfolding sameRules_def using prefixVerdict_order by blast
  moreover have "blockedPattern U p = blockedPattern U q"
    using same by (intro ext) (simp add: blockedPattern_def sameRules_def)
  ultimately have "classifyBare U p = classifyBare U q"
    by (intro ext) (simp only: classifyBare_def)
  then show ?thesis by (intro ext) (simp only: classifyOne_core)
qed

text \<open>Two policies with the same sets of prefixes, whatever their order, classify every command
  alike, reasons included: the iteration order of the Go maps \<open>DefaultPolicy\<close> ranges over is not
  observable.\<close>

theorem Classify_map_order:
  assumes "sameRules p q"
  shows "Classify n U p command = Classify n U q command"
proof (induction n arbitrary: command)
  case (Suc n)
  note order = classifyOne_order [OF assms]
  have "Classify n U p = Classify n U q" using Suc by (intro ext)
  moreover have "classifyStatement U p = classifyStatement U q"
    by (intro ext) (simp only: classifyStatement_def order)
  moreover from this have "classifyAST U p = classifyAST U q"
    by (intro ext) (simp only: classifyAST_def)
  moreover have "classifyChain r U p = classifyChain r U q" for r
    by (intro ext) (simp only: classifyChain_def order)
  moreover have "classifyWithSubstitutions r U p = classifyWithSubstitutions r U q" for r
    by (intro ext) (simp only: classifyWithSubstitutions_def order)
  ultimately show ?case by (simp only: Classify.simps order)
qed simp

theorem Classify_map_order_witness:
  "sameRules DefaultPolicy (DefaultPolicy\<lparr>AllowedCommands := rev (AllowedCommands DefaultPolicy)\<rparr>) \<and>
   Classify 2 asciiTables DefaultPolicy ''git status'' =
   Classify 2 asciiTables (DefaultPolicy\<lparr>AllowedCommands := rev (AllowedCommands DefaultPolicy)\<rparr>) ''git status''"
  using Classify_map_order [of DefaultPolicy "DefaultPolicy\<lparr>AllowedCommands := rev (AllowedCommands DefaultPolicy)\<rparr>"]
  by (simp add: sameRules_def)

text \<open>C15. Two nested calls of \<open>Classify\<close> are always enough, and the calls end for every command but
  those of \<open>chainLoops\<close> (a chain operator is present but fewer than two sub-commands are left, and
  the parser sees one plain statement) and the commands whose outer part is of that kind.\<close>

theorem Classify_returns_iff:
  "Classify (n + 2) U p command = Classify 2 U p command \<and>
   (Classify (n + 2) U p command = None) =
     (chainLoops U (TrimSpace command) \<or> substLoops U (TrimSpace command))"
  using Classify_fuel(1) [of n U p command] Classify_fuel(2) [of U p command] by (simp del: Classify.simps)

text \<open>A command such as \<open>ls |\<close> is of that kind: \<open>classifyChain\<close> finds one sub-command and hands the
  unchanged command back to \<open>Classify\<close>, so no number of nested calls returns.\<close>

theorem Classify_dangling_pipe_diverges: "Classify n U p ''ls |'' = None"
proof -
  have "TrimSpace ''ls |'' = ''ls |''" by code_simp
  moreover have "chainLoops U ''ls |''" by code_simp
  ultimately show ?thesis using Classify_chainLoops by metis
qed

text \<open>Peeling can drop the wrapped command: every \<open>sudo\<close> flag is skipped with the word after it, a
  wrapped chain is handed to \<open>classifyOne\<close> unsplit, and assignments given to \<open>env\<close> disappear before
  the check for dangerous variables.\<close>

theorem peelWrappers_sudo_hides_command:
  "peelWrappers ''sudo -E rm -rf / cat'' = ''cat'' \<and>
   peelWrappers ''timeout 5 ls && rm -rf src'' = ''ls && rm -rf src'' \<and>
   peelWrappers ''env PATH=/tmp/x ls'' = ''ls''"
  by code_simp

text \<open>The parser stops at the \<open>&1\<close> of \<open>2>&1\<close> and reports the statements before it only, so a
  destructive command after it is allowed.\<close>

theorem Classify_merge_allows_rest:
  "map_option ClDecision (Classify 2 U DefaultPolicy ''ls 2>&1; rm -rf /'') = Some Allow"
  by code_simp

text \<open>A statement that is a pipeline is represented by its first command alone, so what the
  pipeline feeds is not classified once the command has two statements.\<close>

theorem Classify_pipe_allows_rest:
  "map_option ClDecision (Classify 2 U DefaultPolicy ''ls; echo x | sh'') = Some Allow"
  by code_simp

end
