(* ===== verification/Transition.thy ===== *)
theory Transition
  imports Main
begin

section \<open>Transition systems\<close>

text \<open>
  The stateful components (turn scheduler, background jobs, goal loop) are operated by several
  goroutines, each of which runs one critical section at a time.  A component is then a set of
  initial states and a labelled step relation whose steps are those critical sections; the states
  it can be in are the reachable ones, whatever the interleaving.
\<close>

subsection \<open>Definitions\<close>

inductive reach :: "('s \<Rightarrow> bool) \<Rightarrow> ('s \<Rightarrow> 'l \<Rightarrow> 's \<Rightarrow> bool) \<Rightarrow> 's \<Rightarrow> bool"
  for init :: "'s \<Rightarrow> bool" and stp :: "'s \<Rightarrow> 'l \<Rightarrow> 's \<Rightarrow> bool" where
  reach_init: "init s \<Longrightarrow> reach init stp s"
| reach_step: "reach init stp s \<Longrightarrow> stp s l t \<Longrightarrow> reach init stp t"

text \<open>\<open>runs\<close>: a sequence of steps with its labels.\<close>

inductive runs :: "('s \<Rightarrow> 'l \<Rightarrow> 's \<Rightarrow> bool) \<Rightarrow> 's \<Rightarrow> 'l list \<Rightarrow> 's \<Rightarrow> bool"
  for stp :: "'s \<Rightarrow> 'l \<Rightarrow> 's \<Rightarrow> bool" where
  runs_Nil: "runs stp s [] s"
| runs_Cons: "stp s l t \<Longrightarrow> runs stp t ls u \<Longrightarrow> runs stp s (l # ls) u"

inductive_cases runs_NilE: "runs stp s [] t"
inductive_cases runs_ConsE: "runs stp s (l # ls) u"

subsection \<open>Invariants\<close>

text \<open>What a component has to show once for all its operations, and what it gets for every
  reachable state and every run.\<close>

locale inductive_invariant =
  fixes init :: "'s \<Rightarrow> bool" and stp :: "'s \<Rightarrow> 'l \<Rightarrow> 's \<Rightarrow> bool" and inv :: "'s \<Rightarrow> bool"
  assumes inv_init: "init s \<Longrightarrow> inv s"
    and inv_step: "inv s \<Longrightarrow> stp s l t \<Longrightarrow> inv t"
begin

lemma inv_reach: "reach init stp s \<Longrightarrow> inv s"
  by (induction rule: reach.induct) (auto intro: inv_init inv_step)

lemma inv_runs: "runs stp s ls t \<Longrightarrow> inv s \<Longrightarrow> inv t"
  by (induction rule: runs.induct) (auto intro: inv_step)

end

text \<open>A relation between a state and a later one that every step establishes and that composes
  holds between the ends of every run.\<close>

locale monotone_system = inductive_invariant init stp inv
  for init :: "'s \<Rightarrow> bool" and stp :: "'s \<Rightarrow> 'l \<Rightarrow> 's \<Rightarrow> bool" and inv :: "'s \<Rightarrow> bool" +
  fixes later :: "'s \<Rightarrow> 's \<Rightarrow> bool"
  assumes later_refl: "later s s"
    and later_trans: "later s t \<Longrightarrow> later t u \<Longrightarrow> later s u"
    and later_step: "inv s \<Longrightarrow> stp s l t \<Longrightarrow> later s t"
begin

lemma later_runs: "runs stp s ls t \<Longrightarrow> inv s \<Longrightarrow> later s t"
  by (induction rule: runs.induct) (auto intro: later_refl later_trans later_step inv_step)

end

end
