(* ===== verification/Scheduler.thy ===== *)
theory Scheduler
  imports Transition "HOL-Library.AList" "HOL-Library.Char_ord" "HOL-Library.List_Lexorder"
begin

section \<open>The turn scheduler\<close>

text \<open>
  \<^verbatim>\<open>internal/conversation/scheduler.go\<close>.  A \<open>*scheduledTurn\<close> is an index into \<open>turns\<close>, the turns
  allocated so far in the order of their \<open>Acquire\<close>; pointer comparison is comparison of indices.  A
  channel is the number of times it was closed, so that a second \<open>close\<close>, which panics in Go, is
  visible.  Every operation is what its function does while it holds \<open>s.mu\<close>; \<open>Acquire\<close> has two such
  sections, the admission and the reaction to a cancelled context.
\<close>

subsection \<open>Definitions\<close>

datatype WorkspaceExecutionMode = SharedWorkspace | IsolatedWorktree | ReadOnlyWorkspace

record TurnScheduleRequest =
  SessionID :: string
  TurnID :: string
  WorkspacePath :: string
  Mode :: WorkspaceExecutionMode
  RunningState :: string

datatype sched_error = NoSessionID | ShutDown | CtxErr | Canceled

record scheduledTurn =
  req :: TurnScheduleRequest
  readyClosed :: nat
  err :: "sched_error option"
  t_running :: bool
  released :: bool

record TurnScheduler =
  maxRunning :: int
  running :: int
  lastStart :: string
  shutdown :: bool
  pending :: "nat list"
  runningSessions :: "string set"
  active :: "(string \<times> nat) list"
  turns :: "scheduledTurn list"

definition NewTurnScheduler :: "int \<Rightarrow> TurnScheduler" where
  "NewTurnScheduler maxConcurrentTurns =
     \<lparr>maxRunning = (if maxConcurrentTurns < 1 then 1 else maxConcurrentTurns), running = 0,
      lastStart = [], shutdown = False, pending = [], runningSessions = {}, active = [], turns = []\<rparr>"

abbreviation sessionOf :: "TurnScheduler \<Rightarrow> nat \<Rightarrow> string" where
  "sessionOf s w \<equiv> SessionID (req (turns s ! w))"

text \<open>An assignment through the pointer \<open>w\<close>.\<close>

definition setTurn :: "nat \<Rightarrow> (scheduledTurn \<Rightarrow> scheduledTurn) \<Rightarrow> TurnScheduler \<Rightarrow> TurnScheduler" where
  "setTurn w f s = s\<lparr>turns := (turns s)[w := f (turns s ! w)]\<rparr>"

fun earlierLoop :: "TurnScheduler \<Rightarrow> nat \<Rightarrow> nat list \<Rightarrow> bool" where
  "earlierLoop s target [] = False"
| "earlierLoop s target (w # ws) =
     (if w = target then False
      else if sessionOf s w = sessionOf s target then True
      else earlierLoop s target ws)"

definition hasEarlierSessionEntryLocked :: "TurnScheduler \<Rightarrow> nat \<Rightarrow> bool" where
  "hasEarlierSessionEntryLocked s target = earlierLoop s target (pending s)"

definition runnableLocked :: "TurnScheduler \<Rightarrow> nat \<Rightarrow> bool" where
  "runnableLocked s w =
     (if sessionOf s w \<in> runningSessions s \<or> hasEarlierSessionEntryLocked s w then False else True)"

text \<open>\<open>nextRunnableLocked\<close>: None stands for the index -1.\<close>

fun nextLoop :: "TurnScheduler \<Rightarrow> nat option \<Rightarrow> nat \<Rightarrow> nat list \<Rightarrow> nat option" where
  "nextLoop s first i [] = first"
| "nextLoop s first i (w # ws) =
     (if \<not> runnableLocked s w then nextLoop s first (i + 1) ws
      else
        (let first' = (if first = None then Some i else first) in
         if sessionOf s w \<noteq> lastStart s then Some i else nextLoop s first' (i + 1) ws))"

definition nextRunnableLocked :: "TurnScheduler \<Rightarrow> nat option" where
  "nextRunnableLocked s = nextLoop s None 0 (pending s)"

text \<open>One round of the loop of \<open>dispatchLocked\<close>: the turn at index \<open>i\<close> of the queue starts.\<close>

definition startTurn :: "nat \<Rightarrow> TurnScheduler \<Rightarrow> TurnScheduler" where
  "startTurn i s =
     (let w = pending s ! i; sid = sessionOf s w in
      setTurn w (\<lambda>t. t\<lparr>t_running := True, readyClosed := readyClosed t + 1\<rparr>)
        (s\<lparr>pending := take i (pending s) @ drop (i + 1) (pending s),
           running := running s + 1,
           runningSessions := insert sid (runningSessions s),
           active := AList.update sid w (active s),
           lastStart := sid\<rparr>))"

lemma nextLoop_bound: "nextLoop s first i ws = Some j \<Longrightarrow> first = Some j \<or> (i \<le> j \<and> j < i + length ws)"
  by (induction s first i ws rule: nextLoop.induct) (fastforce simp: Let_def split: if_splits)+

lemma nextRunnable_bound: "nextRunnableLocked s = Some i \<Longrightarrow> i < length (pending s)"
  using nextLoop_bound [of s None 0 "pending s" i] by (simp add: nextRunnableLocked_def)

lemma pending_startTurn:
  "pending (startTurn i s) = take i (pending s) @ drop (i + 1) (pending s)"
  by (simp add: startTurn_def setTurn_def Let_def)

function dispatchLocked :: "TurnScheduler \<Rightarrow> TurnScheduler" where
  "dispatchLocked s =
     (if running s < maxRunning s then
        (case nextRunnableLocked s of None \<Rightarrow> s | Some i \<Rightarrow> dispatchLocked (startTurn i s))
      else s)"
  by pat_completeness auto
termination
  by (relation "measure (\<lambda>s. length (pending s))")
     (auto dest!: nextRunnable_bound simp: pending_startTurn)

declare dispatchLocked.simps [simp del]

fun removeFirst :: "nat \<Rightarrow> nat list \<Rightarrow> nat list" where
  "removeFirst target [] = []"
| "removeFirst target (w # ws) = (if w = target then ws else w # removeFirst target ws)"

definition removePendingLocked :: "nat \<Rightarrow> TurnScheduler \<Rightarrow> TurnScheduler" where
  "removePendingLocked target s = s\<lparr>pending := removeFirst target (pending s)\<rparr>"

text \<open>The five assignments shared by \<open>releaseLocked\<close> and \<open>ReleaseRunning\<close>.\<close>

definition freeSlot :: "nat \<Rightarrow> string \<Rightarrow> TurnScheduler \<Rightarrow> TurnScheduler" where
  "freeSlot w sid s =
     setTurn w (\<lambda>t. t\<lparr>released := True\<rparr>)
       (s\<lparr>running := running s - 1, runningSessions := runningSessions s - {sid},
          active := AList.delete sid (active s)\<rparr>)"

definition releaseLocked :: "nat \<Rightarrow> TurnScheduler \<Rightarrow> TurnScheduler" where
  "releaseLocked w s =
     (if \<not> t_running (turns s ! w) \<or> released (turns s ! w) then s
      else dispatchLocked (freeSlot w (sessionOf s w) s))"

datatype TurnQueueReason = GlobalCapacity | WorkspaceLease | SessionSerialization

definition queueReasonLocked :: "TurnScheduler \<Rightarrow> nat \<Rightarrow> TurnQueueReason" where
  "queueReasonLocked s w =
     (if sessionOf s w \<in> runningSessions s \<or> hasEarlierSessionEntryLocked s w
      then SessionSerialization else GlobalCapacity)"

fun positionOf :: "nat \<Rightarrow> nat \<Rightarrow> nat list \<Rightarrow> nat" where
  "positionOf w i [] = 0"
| "positionOf w i (v # vs) = (if v = w then i + 1 else positionOf w (i + 1) vs)"

text \<open>\<open>Acquire\<close> up to its \<open>select\<close>: the new turn, its queue position (0 when it runs or was not
  found) and the reason it waits.\<close>

definition newTurn :: "TurnScheduleRequest \<Rightarrow> scheduledTurn" where
  "newTurn r = \<lparr>req = r, readyClosed = 0, err = None, t_running = False, released = False\<rparr>"

definition Acquire ::
  "bool \<Rightarrow> TurnScheduleRequest \<Rightarrow> TurnScheduler
    \<Rightarrow> (sched_error + nat \<times> nat \<times> TurnQueueReason option) \<times> TurnScheduler" where
  "Acquire ctxErr r s =
     (if SessionID r = [] then (Inl NoSessionID, s)
      else if shutdown s then (Inl ShutDown, s)
      else if ctxErr then (Inl CtxErr, s)
      else
        (let w = length (turns s);
             s' = dispatchLocked (s\<lparr>turns := turns s @ [newTurn r], pending := pending s @ [w]\<rparr>);
             pos = (if t_running (turns s' ! w) then 0 else positionOf w 0 (pending s'))
         in (Inr (w, pos, if pos > 0 then Some (queueReasonLocked s' w) else None), s')))"

text \<open>The \<open>select\<close>: with \<open>ready\<close> closed the caller gets the error or the permit; with the context
  done it withdraws, or gives the permit back when dispatch was faster.\<close>

definition awaitReady :: "nat \<Rightarrow> TurnScheduler \<Rightarrow> (sched_error + unit) option" where
  "awaitReady w s =
     (if readyClosed (turns s ! w) = 0 then None
      else Some (case err (turns s ! w) of Some e \<Rightarrow> Inl e | None \<Rightarrow> Inr ()))"

definition acquireCtxDone :: "nat \<Rightarrow> TurnScheduler \<Rightarrow> TurnScheduler" where
  "acquireCtxDone w s =
     (if t_running (turns s ! w) then releaseLocked w s
      else dispatchLocked (removePendingLocked w s))"

text \<open>\<open>w.err = e; close(w.ready)\<close>: what \<open>CancelTurn\<close> and \<open>Shutdown\<close> do to a queued turn.\<close>

definition failTurn :: "sched_error \<Rightarrow> nat \<Rightarrow> TurnScheduler \<Rightarrow> TurnScheduler" where
  "failTurn e w = setTurn w (\<lambda>t. t\<lparr>err := Some e, readyClosed := readyClosed t + 1\<rparr>)"

definition CancelTurn :: "string \<Rightarrow> string \<Rightarrow> TurnScheduler \<Rightarrow> bool \<times> TurnScheduler" where
  "CancelTurn sessionID turnID s =
     (case find (\<lambda>w. sessionOf s w = sessionID \<and>
                  (turnID = [] \<or> TurnID (req (turns s ! w)) = turnID)) (pending s) of
        None \<Rightarrow> (False, s)
      | Some w \<Rightarrow>
          (True, dispatchLocked (failTurn Canceled w (removePendingLocked w s))))"

definition Cancel :: "string \<Rightarrow> TurnScheduler \<Rightarrow> bool \<times> TurnScheduler" where
  "Cancel sessionID s = CancelTurn sessionID [] s"

definition ReleaseRunning :: "string \<Rightarrow> TurnScheduler \<Rightarrow> bool \<times> TurnScheduler" where
  "ReleaseRunning sessionID s =
     (case map_of (active s) sessionID of
        None \<Rightarrow> (False, s)
      | Some w \<Rightarrow>
          if \<not> t_running (turns s ! w) \<or> released (turns s ! w) then (False, s)
          else (True, dispatchLocked (freeSlot w sessionID s)))"

definition Shutdown :: "TurnScheduler \<Rightarrow> TurnScheduler" where
  "Shutdown s =
     (if shutdown s then s
      else
        (fold (failTurn ShutDown) (pending s) (s\<lparr>shutdown := True\<rparr>))\<lparr>pending := []\<rparr>)"

definition Snapshot :: "TurnScheduler \<Rightarrow> int \<times> nat" where
  "Snapshot s = (running s, length (pending s))"

record ScheduledTurnActivity =
  actSessionID :: string
  actTurnID :: string
  State :: string
  QueuePosition :: nat
  QueueReason :: "TurnQueueReason option"

definition activeActivity :: "TurnScheduler \<Rightarrow> string \<times> nat \<Rightarrow> ScheduledTurnActivity" where
  "activeActivity s = (\<lambda>(sid, w).
     \<lparr>actSessionID = sid, actTurnID = TurnID (req (turns s ! w)),
      State = (let st = RunningState (req (turns s ! w)) in if st = [] then ''running'' else st),
      QueuePosition = 0, QueueReason = None\<rparr>)"

definition queuedActivity :: "TurnScheduler \<Rightarrow> nat \<times> nat \<Rightarrow> ScheduledTurnActivity" where
  "queuedActivity s = (\<lambda>(position, w).
     \<lparr>actSessionID = sessionOf s w, actTurnID = TurnID (req (turns s ! w)), State = ''queued'',
      QueuePosition = position + 1, QueueReason = Some (queueReasonLocked s w)\<rparr>)"

definition Activity :: "TurnScheduler \<Rightarrow> ScheduledTurnActivity list" where
  "Activity s =
     sort_key actSessionID (map (activeActivity s) (active s)) @
     map (queuedActivity s) (enumerate 0 (pending s))"

text \<open>The steps of the system: any goroutine may run any critical section at any time.  \<open>Release\<close>
  and \<open>CtxDone\<close> concern a turn that was allocated.\<close>

datatype sched_op =
    OpAcquire bool TurnScheduleRequest | OpCtxDone nat | OpCancelTurn string string
  | OpReleaseRunning string | OpRelease nat | OpShutdown

inductive sched_step :: "TurnScheduler \<Rightarrow> sched_op \<Rightarrow> TurnScheduler \<Rightarrow> bool" where
  acquire: "sched_step s (OpAcquire c r) (snd (Acquire c r s))"
| ctxDone: "w < length (turns s) \<Longrightarrow> sched_step s (OpCtxDone w) (acquireCtxDone w s)"
| cancelTurn: "sched_step s (OpCancelTurn sid tid) (snd (CancelTurn sid tid s))"
| releaseRunning: "sched_step s (OpReleaseRunning sid) (snd (ReleaseRunning sid s))"
| release: "w < length (turns s) \<Longrightarrow> sched_step s (OpRelease w) (releaseLocked w s)"
| shutdown: "sched_step s OpShutdown (Shutdown s)"

inductive_cases sched_stepE: "sched_step s op t"

definition sched_init :: "TurnScheduler \<Rightarrow> bool" where
  "sched_init s = (\<exists>n. s = NewTurnScheduler n)"

text \<open>Specification vocabulary: what a turn, the slots and the queue satisfy; the last four name the
  states the witnesses use.\<close>

definition turn_ok :: "scheduledTurn \<Rightarrow> bool" where
  "turn_ok t \<longleftrightarrow>
     readyClosed t = (if t_running t \<or> err t \<noteq> None then 1 else 0) \<and>
     \<not> (t_running t \<and> err t \<noteq> None) \<and> (released t \<longrightarrow> t_running t)"

definition waiting :: "scheduledTurn \<Rightarrow> bool" where
  "waiting t \<longleftrightarrow> \<not> t_running t \<and> err t = None"

definition holds :: "TurnScheduler \<Rightarrow> nat \<Rightarrow> string \<Rightarrow> bool" where
  "holds s w sid \<longleftrightarrow> w < length (turns s) \<and> t_running (turns s ! w) \<and> \<not> released (turns s ! w) \<and>
     sessionOf s w = sid"

definition slots_ok :: "TurnScheduler \<Rightarrow> bool" where
  "slots_ok s \<longleftrightarrow> 1 \<le> maxRunning s \<and> running s = int (length (active s)) \<and> running s \<le> maxRunning s \<and>
     distinct (map fst (active s)) \<and> runningSessions s = set (map fst (active s)) \<and>
     (\<forall>sid w. map_of (active s) sid = Some w \<longleftrightarrow> holds s w sid)"

definition queue_ok :: "TurnScheduler \<Rightarrow> bool" where
  "queue_ok s \<longleftrightarrow> sorted_wrt (<) (pending s) \<and>
     (\<forall>w\<in>set (pending s). w < length (turns s) \<and> waiting (turns s ! w)) \<and>
     (shutdown s \<longrightarrow> pending s = [])"

definition fifo :: "TurnScheduler \<Rightarrow> bool" where
  "fifo s \<longleftrightarrow> (\<forall>v\<in>set (pending s). \<forall>w<length (turns s).
     t_running (turns s ! w) \<and> sessionOf s w = sessionOf s v \<longrightarrow> w < v)"

definition sched_inv :: "TurnScheduler \<Rightarrow> bool" where
  "sched_inv s \<longleftrightarrow> slots_ok s \<and> queue_ok s \<and> fifo s \<and> (\<forall>t\<in>set (turns s). turn_ok t)"

definition conserving :: "TurnScheduler \<Rightarrow> bool" where
  "conserving s \<longleftrightarrow> (running s < maxRunning s \<longrightarrow> (\<forall>w\<in>set (pending s). \<not> runnableLocked s w))"

definition withdrawn :: "TurnScheduler \<Rightarrow> nat \<Rightarrow> bool" where
  "withdrawn s w \<longleftrightarrow> w < length (turns s) \<and> w \<notin> set (pending s) \<and> \<not> t_running (turns s ! w)"

definition sched_later :: "TurnScheduler \<Rightarrow> TurnScheduler \<Rightarrow> bool" where
  "sched_later s t \<longleftrightarrow> length (turns s) \<le> length (turns t) \<and> (\<forall>w. withdrawn s w \<longrightarrow> withdrawn t w)"

definition demoReq :: "string \<Rightarrow> string \<Rightarrow> TurnScheduleRequest" where
  "demoReq sid tid = \<lparr>SessionID = sid, TurnID = tid, WorkspacePath = ''/w'', Mode = SharedWorkspace, RunningState = []\<rparr>"

definition demoSched :: "int \<Rightarrow> TurnScheduleRequest list \<Rightarrow> TurnScheduler" where
  "demoSched n rs = fold (\<lambda>r s. snd (Acquire False r s)) rs (NewTurnScheduler n)"

abbreviation two_turns :: TurnScheduler where
  "two_turns \<equiv> demoSched 2 [demoReq ''a'' ''1'', demoReq ''a'' ''2'']"

abbreviation slot_freed :: TurnScheduler where
  "slot_freed \<equiv> freeSlot 0 ''a'' (demoSched 1 [demoReq ''a'' ''1'', demoReq ''a'' ''2'', demoReq ''b'' ''3''])"

subsection \<open>The invariant\<close>

lemma nextLoop_None: "nextLoop s first i ws = None \<longleftrightarrow> first = None \<and> (\<forall>w\<in>set ws. \<not> runnableLocked s w)"
  by (induction s first i ws rule: nextLoop.induct) (auto simp: Let_def)

lemma nextLoop_runnable:
  "nextLoop s first i ws = Some j \<Longrightarrow> first = Some j \<or> (i \<le> j \<and> j < i + length ws \<and> runnableLocked s (ws ! (j - i)))"
proof (induction s first i ws rule: nextLoop.induct)
  case (2 s first i w ws)
  show ?case
  proof (cases "i < j")
    case True
    then have "j - i = Suc (j - Suc i)" by simp
    with 2 True show ?thesis by (auto simp: Let_def split: if_splits)
  next
    case False
    with 2 show ?thesis by (auto simp: Let_def split: if_splits)
  qed
qed simp

lemma earlierLoop_iff:
  "distinct ws \<Longrightarrow> i < length ws \<Longrightarrow> earlierLoop s (ws ! i) ws \<longleftrightarrow> (\<exists>j<i. sessionOf s (ws ! j) = sessionOf s (ws ! i))"
proof (induction ws arbitrary: i)
  case (Cons w ws)
  show ?case
  proof (cases i)
    case (Suc k)
    with Cons.prems have "w \<noteq> ws ! k" by auto
    with Cons Suc show ?thesis by (auto simp: less_Suc_eq_0_disj)
  qed simp
qed simp

lemma sorted_wrt_distinct: "sorted_wrt (<) (ws :: nat list) \<Longrightarrow> distinct ws"
  by (simp add: strict_sorted_iff)

lemma runnable_iff:
  "queue_ok s \<Longrightarrow> i < length (pending s) \<Longrightarrow>
   runnableLocked s (pending s ! i) \<longleftrightarrow>
     sessionOf s (pending s ! i) \<notin> runningSessions s \<and>
     (\<forall>j<i. sessionOf s (pending s ! j) \<noteq> sessionOf s (pending s ! i))"
  using earlierLoop_iff [of "pending s" i s]
  by (auto simp: runnableLocked_def hasEarlierSessionEntryLocked_def queue_ok_def strict_sorted_iff)

lemma nextRunnable_Some:
  "nextRunnableLocked s = Some i \<Longrightarrow> i < length (pending s) \<and> runnableLocked s (pending s ! i)"
  using nextLoop_runnable [of s None 0 "pending s" i] by (simp add: nextRunnableLocked_def)

lemma dispatch_conserving: "conserving (dispatchLocked s)"
proof (induction s rule: dispatchLocked.induct)
  case (1 s)
  show ?case
  proof (cases "running s < maxRunning s")
    case True
    show ?thesis
    proof (cases "nextRunnableLocked s")
      case None
      with True have "dispatchLocked s = s" by (simp add: dispatchLocked.simps)
      with None show ?thesis by (simp add: conserving_def nextRunnableLocked_def nextLoop_None)
    next
      case (Some i)
      with True have "dispatchLocked s = dispatchLocked (startTurn i s)" by (simp add: dispatchLocked.simps [of s])
      with 1 True Some show ?thesis by simp
    qed
  next
    case False
    then show ?thesis by (simp add: dispatchLocked.simps conserving_def)
  qed
qed

lemma length_update_new: "k \<notin> set (map fst al) \<Longrightarrow> length (AList.update k v al) = Suc (length al)"
  by (induction al) auto

lemma length_delete_key:
  "distinct (map fst al) \<Longrightarrow> k \<in> fst ` set al \<Longrightarrow> length (AList.delete k al) = length al - 1"
proof -
  assume "distinct (map fst al)" "k \<in> fst ` set al"
  then have "length (map fst (AList.delete k al)) = length (map fst al) - 1"
    unfolding delete_keys by (simp add: distinct_remove1_removeAll [symmetric] length_remove1)
  then show ?thesis by simp
qed

lemma keys_update: "fst ` set (AList.update k v al) = insert k (fst ` set al)"
  by (induction al) auto

lemma take_drop_set:
  assumes "i < length xs" "distinct xs"
  shows "set (take i xs @ drop (i + 1) xs) = set xs - {xs ! i}"
proof -
  have xs: "xs = take i xs @ xs ! i # drop (Suc i) xs" using assms(1) by (rule id_take_nth_drop)
  with assms(2) have "distinct (take i xs @ xs ! i # drop (Suc i) xs)" by simp
  then have "xs ! i \<notin> set (take i xs)" "xs ! i \<notin> set (drop (Suc i) xs)" by auto
  moreover have "set xs = set (take i xs) \<union> {xs ! i} \<union> set (drop (Suc i) xs)" by (subst xs) auto
  ultimately show ?thesis by auto
qed

lemma sorted_wrt_remove:
  assumes "sorted_wrt (<) (xs :: nat list)"
  shows "sorted_wrt (<) (take i xs @ drop (i + 1) xs)"
proof -
  have "sorted_wrt (<) (take i xs @ drop i xs)" using assms by simp
  moreover have "drop (i + 1) xs = tl (drop i xs)" by (simp add: drop_Suc tl_drop)
  ultimately show ?thesis by (cases "drop i xs") (auto simp: sorted_wrt_append)
qed

lemma turns_setTurn [simp]: "turns (setTurn w f s) = (turns s)[w := f (turns s ! w)]"
  and setTurn_fields [simp]: "maxRunning (setTurn w f s) = maxRunning s" "running (setTurn w f s) = running s"
  "lastStart (setTurn w f s) = lastStart s" "shutdown (setTurn w f s) = shutdown s"
  "pending (setTurn w f s) = pending s" "runningSessions (setTurn w f s) = runningSessions s"
  "active (setTurn w f s) = active s"
  by (simp_all add: setTurn_def)

lemma startTurn_fields [simp]:
  "maxRunning (startTurn i s) = maxRunning s" "running (startTurn i s) = running s + 1"
  "shutdown (startTurn i s) = shutdown s"
  "runningSessions (startTurn i s) = insert (sessionOf s (pending s ! i)) (runningSessions s)"
  "active (startTurn i s) = AList.update (sessionOf s (pending s ! i)) (pending s ! i) (active s)"
  "lastStart (startTurn i s) = sessionOf s (pending s ! i)"
  "turns (startTurn i s) = (turns s)[pending s ! i := (turns s ! (pending s ! i))\<lparr>t_running := True,
     readyClosed := readyClosed (turns s ! (pending s ! i)) + 1\<rparr>]"
  by (simp_all add: startTurn_def Let_def)

lemma startTurn_inv:
  assumes inv: "sched_inv s" and next_: "nextRunnableLocked s = Some i" and room: "running s < maxRunning s"
  shows "sched_inv (startTurn i s)"
proof -
  let ?w = "pending s ! i" and ?t = "startTurn i s"
  have i: "i < length (pending s)" "runnableLocked s ?w" using nextRunnable_Some [OF next_] by auto
  have q: "queue_ok s" and sl: "slots_ok s" and ff: "fifo s" and tok: "\<forall>t\<in>set (turns s). turn_ok t"
    using inv by (auto simp: sched_inv_def)
  have srt: "sorted_wrt (<) (pending s)" and dis: "distinct (pending s)"
    using q by (auto simp: queue_ok_def strict_sorted_iff)
  have w: "?w < length (turns s)" "waiting (turns s ! ?w)" using q i(1) by (auto simp: queue_ok_def)
  have free: "sessionOf s ?w \<notin> runningSessions s"
    and first: "\<forall>j<i. sessionOf s (pending s ! j) \<noteq> sessionOf s ?w"
    using runnable_iff [OF q i(1)] i(2) by auto
  have sess: "sessionOf ?t v = sessionOf s v" for v
    using w(1) by (cases "v = ?w") auto
  have pend: "set (pending ?t) = set (pending s) - {?w}"
    using take_drop_set [OF i(1) dis] by (simp add: pending_startTurn)
  have tok_w: "turn_ok (turns s ! ?w)" using tok w(1) by simp
  have "slots_ok ?t"
  proof -
    have none: "map_of (active s) (sessionOf s ?w) = None"
      using free sl by (auto simp: slots_ok_def map_of_eq_None_iff)
    have "map_of (active ?t) sid = Some v \<longleftrightarrow> holds ?t v sid" for sid v
    proof -
      have "holds ?t v sid \<longleftrightarrow> (v = ?w \<and> sid = sessionOf s ?w) \<or> holds s v sid"
        using w tok_w sess by (cases "v = ?w") (auto simp: holds_def waiting_def turn_ok_def)
      moreover have "map_of (active s) sid = Some v \<longleftrightarrow> holds s v sid" using sl by (auto simp: slots_ok_def)
      ultimately show ?thesis using none by (auto simp: update_conv')
    qed
    moreover have "length (AList.update (sessionOf s ?w) ?w (active s)) = Suc (length (active s))"
      using free sl by (simp add: slots_ok_def length_update_new)
    moreover have "distinct (map fst (AList.update (sessionOf s ?w) ?w (active s)))"
      using sl by (simp add: slots_ok_def distinct_update)
    moreover have "set (map fst (AList.update (sessionOf s ?w) ?w (active s))) = insert (sessionOf s ?w) (runningSessions s)"
      using sl by (simp add: slots_ok_def keys_update)
    ultimately show ?thesis using sl room by (simp add: slots_ok_def)
  qed
  moreover have "queue_ok ?t"
    using q pend sorted_wrt_remove [OF srt, of i] w(1)
    by (auto simp: queue_ok_def pending_startTurn nth_list_update)
  moreover have "fifo ?t"
    unfolding fifo_def
  proof (intro ballI allI impI)
    fix v u
    assume v: "v \<in> set (pending ?t)" and u: "u < length (turns ?t)"
      and run: "t_running (turns ?t ! u) \<and> sessionOf ?t u = sessionOf ?t v"
    show "u < v"
    proof (cases "u = ?w")
      case True
      obtain k where k: "k < length (pending s)" "v = pending s ! k" using v pend by (auto simp: in_set_conv_nth)
      from run True have "sessionOf s ?w = sessionOf s v" unfolding sess by simp
      with k first have "\<not> k < i" by auto
      moreover from k v pend have "k \<noteq> i" by auto
      ultimately have "i < k" by simp
      with srt k True show ?thesis by (auto simp: sorted_wrt_iff_nth_less)
    next
      case False
      with ff v u run pend show ?thesis unfolding sess by (auto simp: fifo_def)
    qed
  qed
  moreover have "\<forall>t\<in>set (turns ?t). turn_ok t"
    using tok tok_w w by (auto simp: turn_ok_def waiting_def dest!: set_update_subset_insert [THEN subsetD])
  ultimately show ?thesis by (simp add: sched_inv_def)
qed

lemma dispatch_induct [consumes 1, case_names start]:
  assumes "P s" "\<And>s i. P s \<Longrightarrow> nextRunnableLocked s = Some i \<Longrightarrow> running s < maxRunning s \<Longrightarrow> P (startTurn i s)"
  shows "P (dispatchLocked s)"
  using assms(1)
proof (induction s rule: dispatchLocked.induct)
  case (1 s)
  then show ?case
    using assms(2) [of s] by (subst dispatchLocked.simps) (auto split: option.split)
qed

lemma dispatch_inv: "sched_inv s \<Longrightarrow> sched_inv (dispatchLocked s)"
  by (erule dispatch_induct) (rule startTurn_inv)

lemma removeFirst_set: "distinct ws \<Longrightarrow> set (removeFirst w ws) = set ws - {w}"
  by (induction ws) auto

lemma removeFirst_sorted: "sorted_wrt (<) (ws :: nat list) \<Longrightarrow> sorted_wrt (<) (removeFirst w ws)"
proof -
  have "set (removeFirst w vs) \<subseteq> set vs" for vs by (induction vs) auto
  then show "sorted_wrt (<) ws \<Longrightarrow> ?thesis" by (induction ws) auto
qed

lemma removePending_fields [simp]:
  "maxRunning (removePendingLocked w s) = maxRunning s" "running (removePendingLocked w s) = running s"
  "shutdown (removePendingLocked w s) = shutdown s" "turns (removePendingLocked w s) = turns s"
  "runningSessions (removePendingLocked w s) = runningSessions s" "active (removePendingLocked w s) = active s"
  "pending (removePendingLocked w s) = removeFirst w (pending s)"
  by (simp_all add: removePendingLocked_def)

lemma removePending_inv:
  assumes "sched_inv s"
  shows "sched_inv (removePendingLocked w s)"
proof -
  have "set (removeFirst w (pending s)) = set (pending s) - {w}" "sorted_wrt (<) (removeFirst w (pending s))"
    using assms removeFirst_set [of "pending s" w] removeFirst_sorted [of "pending s" w]
    by (auto simp: sched_inv_def queue_ok_def strict_sorted_iff)
  with assms show ?thesis
    by (auto simp: sched_inv_def slots_ok_def queue_ok_def fifo_def holds_def)
qed

lemma freeSlot_inv:
  assumes inv: "sched_inv s" and h: "holds s w sid"
  shows "sched_inv (freeSlot w sid s)"
proof -
  let ?t = "freeSlot w sid s"
  have sl: "slots_ok s" using inv by (simp add: sched_inv_def)
  have w: "w < length (turns s)" "t_running (turns s ! w)" "sessionOf s w = sid" using h by (auto simp: holds_def)
  have sess: "sessionOf ?t v = sessionOf s v" for v
    using w(1) by (cases "v = w") (auto simp: freeSlot_def)
  have act: "map_of (active s) sid = Some w" using sl h by (auto simp: slots_ok_def)
  have one: "holds s v sid \<Longrightarrow> v = w" for v
    using sl act unfolding slots_ok_def by (metis option.inject)
  have "holds ?t v sid' \<longleftrightarrow> holds s v sid' \<and> sid' \<noteq> sid" for v sid'
    using w one [of v] sess [of v] by (cases "v = w") (auto simp: holds_def freeSlot_def)
  moreover have mem: "sid \<in> fst ` set (active s)" using map_of_SomeD [OF act] by force
  moreover have "length (AList.delete sid (active s)) = length (active s) - 1"
    using sl mem length_delete_key [of "active s" sid] by (simp add: slots_ok_def)
  moreover from mem have "active s \<noteq> []" by auto
  ultimately have "slots_ok ?t"
    using sl by (auto simp: slots_ok_def freeSlot_def delete_conv' distinct_delete delete_keys of_nat_diff Suc_le_eq distinct_removeAll)
  moreover have "queue_ok ?t"
    using inv w by (auto simp: sched_inv_def queue_ok_def freeSlot_def nth_list_update waiting_def)
  moreover have "fifo ?t"
    unfolding fifo_def
  proof (intro ballI allI impI)
    fix v u
    assume "v \<in> set (pending ?t)" "u < length (turns ?t)" "t_running (turns ?t ! u) \<and> sessionOf ?t u = sessionOf ?t v"
    with inv w show "u < v"
      unfolding sess by (auto simp: sched_inv_def fifo_def freeSlot_def nth_list_update split: if_splits)
  qed
  moreover have "\<forall>t\<in>set (turns ?t). turn_ok t"
    using inv w by (auto simp: sched_inv_def turn_ok_def freeSlot_def dest!: set_update_subset_insert [THEN subsetD])
  ultimately show ?thesis by (simp add: sched_inv_def)
qed

lemma enqueue_inv:
  assumes inv: "sched_inv s" and up: "\<not> shutdown s"
  shows "sched_inv (s\<lparr>turns := turns s @ [newTurn r], pending := pending s @ [length (turns s)]\<rparr>)" (is "sched_inv ?t")
proof -
  have old: "turns ?t ! v = turns s ! v" if "v < length (turns s)" for v using that by (simp add: nth_append)
  have new: "turns ?t ! length (turns s) = newTurn r" by simp
  have "holds ?t v sid \<longleftrightarrow> holds s v sid" for v sid
    using old [of v] new by (cases "v < length (turns s)") (auto simp: holds_def newTurn_def less_Suc_eq)
  then have "slots_ok ?t" using inv by (simp add: sched_inv_def slots_ok_def)
  moreover have "queue_ok ?t"
    using inv up old new
    by (fastforce simp: sched_inv_def queue_ok_def sorted_wrt_append nth_append newTurn_def waiting_def)
  moreover have "fifo ?t"
    unfolding fifo_def
  proof (intro ballI allI impI)
    fix v u
    assume v: "v \<in> set (pending ?t)" and u: "u < length (turns ?t)"
      and run: "t_running (turns ?t ! u) \<and> sessionOf ?t u = sessionOf ?t v"
    have u': "u < length (turns s)"
      using u run by (cases "u = length (turns s)") (auto simp: newTurn_def)
    show "u < v"
    proof (cases "v = length (turns s)")
      case False
      with v inv have "v \<in> set (pending s)" "v < length (turns s)" by (auto simp: sched_inv_def queue_ok_def)
      with inv run u' old show ?thesis by (auto simp: sched_inv_def fifo_def)
    qed (use u' in simp)
  qed
  moreover have "\<forall>t\<in>set (turns ?t). turn_ok t"
    using inv by (auto simp: sched_inv_def turn_ok_def newTurn_def)
  ultimately show ?thesis by (simp add: sched_inv_def)
qed

lemma failTurn_inv:
  assumes inv: "sched_inv s" and w: "w < length (turns s)" "waiting (turns s ! w)" "w \<notin> set (pending s)"
  shows "sched_inv (failTurn e w s)"
proof -
  let ?t = "failTurn e w s"
  have sess: "sessionOf ?t v = sessionOf s v" and run: "t_running (turns ?t ! v) = t_running (turns s ! v)"
    and rel: "released (turns ?t ! v) = released (turns s ! v)" for v
    using w(1) by (cases "v = w"; simp add: failTurn_def)+
  then have "holds ?t v sid \<longleftrightarrow> holds s v sid" for v sid by (simp add: holds_def failTurn_def)
  then have "slots_ok ?t" using inv by (simp add: sched_inv_def slots_ok_def failTurn_def)
  moreover have "queue_ok ?t"
    using inv w by (auto simp: sched_inv_def queue_ok_def failTurn_def nth_list_update)
  moreover have "fifo ?t"
    using inv unfolding fifo_def sess run by (simp add: failTurn_def sched_inv_def fifo_def)
  moreover have "\<forall>t\<in>set (turns ?t). turn_ok t"
    using inv w by (auto simp: sched_inv_def turn_ok_def waiting_def failTurn_def dest!: set_update_subset_insert [THEN subsetD])
  ultimately show ?thesis by (simp add: sched_inv_def)
qed

lemma failAll_inv:
  assumes "sched_inv s" "pending s = []" "distinct ws" "\<forall>w\<in>set ws. w < length (turns s) \<and> waiting (turns s ! w)"
  shows "sched_inv (fold (failTurn e) ws s)"
  using assms
proof (induction ws arbitrary: s)
  case (Cons w ws)
  have "sched_inv (failTurn e w s)" using Cons.prems by (intro failTurn_inv) auto
  moreover have "\<forall>v\<in>set ws. v < length (turns (failTurn e w s)) \<and> waiting (turns (failTurn e w s) ! v)"
    using Cons.prems by (auto simp: failTurn_def nth_list_update)
  moreover have "pending (failTurn e w s) = []" using Cons.prems by (simp add: failTurn_def)
  ultimately show ?case using Cons by simp
qed simp

lemma Acquire_inv: "sched_inv s \<Longrightarrow> sched_inv (snd (Acquire c r s))"
  by (auto simp: Acquire_def Let_def intro!: dispatch_inv enqueue_inv)

lemma releaseLocked_inv: "sched_inv s \<Longrightarrow> w < length (turns s) \<Longrightarrow> sched_inv (releaseLocked w s)"
  by (auto simp: releaseLocked_def holds_def intro!: dispatch_inv freeSlot_inv)

lemma acquireCtxDone_inv: "sched_inv s \<Longrightarrow> w < length (turns s) \<Longrightarrow> sched_inv (acquireCtxDone w s)"
  by (auto simp: acquireCtxDone_def intro!: releaseLocked_inv dispatch_inv removePending_inv)

lemma CancelTurn_inv:
  assumes "sched_inv s"
  shows "sched_inv (snd (CancelTurn sid tid s))"
proof (cases "find (\<lambda>w. sessionOf s w = sid \<and> (tid = [] \<or> TurnID (req (turns s ! w)) = tid)) (pending s)")
  case None
  with assms show ?thesis by (simp add: CancelTurn_def)
next
  case (Some w)
  then have w: "w \<in> set (pending s)" by (auto simp: find_Some_iff)
  have "distinct (pending s)" using assms by (simp add: sched_inv_def queue_ok_def strict_sorted_iff)
  then have "w \<notin> set (pending (removePendingLocked w s))" by (simp add: removeFirst_set)
  with w assms have "sched_inv (failTurn Canceled w (removePendingLocked w s))"
    by (intro failTurn_inv removePending_inv) (auto simp: sched_inv_def queue_ok_def)
  with Some show ?thesis by (simp add: CancelTurn_def dispatch_inv)
qed

lemma ReleaseRunning_inv: "sched_inv s \<Longrightarrow> sched_inv (snd (ReleaseRunning sid s))"
  by (auto simp: ReleaseRunning_def sched_inv_def [of s] slots_ok_def split: option.split
      intro!: dispatch_inv freeSlot_inv)

lemma Shutdown_eq:
  "\<not> shutdown s \<Longrightarrow> Shutdown s = fold (failTurn ShutDown) (pending s) (s\<lparr>shutdown := True, pending := []\<rparr>)"
proof -
  have "(failTurn e w s)\<lparr>pending := []\<rparr> = failTurn e w (s\<lparr>pending := []\<rparr>)" for e w and s :: TurnScheduler
    by (cases s) (simp add: failTurn_def setTurn_def)
  then have "(fold (failTurn e) ws s)\<lparr>pending := []\<rparr> = fold (failTurn e) ws (s\<lparr>pending := []\<rparr>)" for e ws and s :: TurnScheduler
    by (induction ws arbitrary: s) simp_all
  moreover assume "\<not> shutdown s"
  ultimately show ?thesis by (simp add: Shutdown_def)
qed

lemma Shutdown_inv: "sched_inv s \<Longrightarrow> sched_inv (Shutdown s)"
proof (cases "shutdown s")
  case False
  assume inv: "sched_inv s"
  then have "sched_inv (s\<lparr>shutdown := True, pending := []\<rparr>)"
    by (auto simp: sched_inv_def slots_ok_def queue_ok_def fifo_def holds_def)
  then show ?thesis
    unfolding Shutdown_eq [OF False]
    using inv by (intro failAll_inv) (auto simp: sched_inv_def queue_ok_def strict_sorted_iff)
qed (simp add: Shutdown_def)

lemma sched_inv_step: "sched_inv s \<Longrightarrow> sched_step s op t \<Longrightarrow> sched_inv t"
  by (erule sched_stepE)
     (simp_all add: Acquire_inv releaseLocked_inv acquireCtxDone_inv CancelTurn_inv ReleaseRunning_inv Shutdown_inv)

lemma sched_inv_init: "sched_init s \<Longrightarrow> sched_inv s"
  by (auto simp: sched_init_def NewTurnScheduler_def sched_inv_def slots_ok_def queue_ok_def fifo_def holds_def)

lemma conserving_init: "sched_init s \<Longrightarrow> conserving s"
  by (auto simp: sched_init_def NewTurnScheduler_def conserving_def)

lemma conserving_step: "conserving s \<Longrightarrow> sched_step s op t \<Longrightarrow> conserving t"
proof (erule sched_stepE)
  assume c: "conserving s" and t: "t = Shutdown s"
  have "pending (Shutdown s) = [] \<or> Shutdown s = s" by (auto simp: Shutdown_def)
  with c t show ?thesis by (auto simp: conserving_def)
qed (auto simp: Acquire_def Let_def acquireCtxDone_def releaseLocked_def CancelTurn_def ReleaseRunning_def
    dispatch_conserving split: option.split)

interpretation sched: inductive_invariant sched_init sched_step "\<lambda>s. sched_inv s \<and> conserving s"
  by unfold_locales (auto intro: sched_inv_init conserving_init sched_inv_step conserving_step)

text \<open>C3. In every reachable state the counter equals the number of turns that hold a permit, it never
  exceeds the limit, and no session holds two permits.\<close>

theorem scheduler_admission:
  assumes "reach sched_init sched_step s"
  shows "running s = int (card {w. \<exists>sid. holds s w sid}) \<and> running s \<le> maxRunning s \<and>
     (holds s w sid \<and> holds s v sid \<longrightarrow> w = v)"
proof -
  have sl: "slots_ok s" using sched.inv_reach [OF assms] by (simp add: sched_inv_def)
  have inj: "inj_on snd (set (active s))"
    using sl by (auto simp: inj_on_def slots_ok_def holds_def)
  have "{w. \<exists>sid. holds s w sid} = snd ` set (active s)"
    using sl by (force simp: slots_ok_def)
  then have "card {w. \<exists>sid. holds s w sid} = length (active s)"
    using card_image [OF inj] sl by (simp add: slots_ok_def distinct_card distinct_map)
  then show ?thesis using sl unfolding slots_ok_def by (metis option.inject)
qed

text \<open>Turns of one session start in the order of their \<open>Acquire\<close>: whatever started was requested
  before everything of that session that still waits.\<close>

theorem scheduler_fifo:
  assumes "reach sched_init sched_step s" "v \<in> set (pending s)" "w < length (turns s)"
    "t_running (turns s ! w)" "sessionOf s w = sessionOf s v"
  shows "w < v"
  using sched.inv_reach [OF assms(1)] assms(2-) by (auto simp: sched_inv_def fifo_def)


text \<open>The round-robin tie-breaker passes the head of the queue over at most once: only the session
  that started last is passed over, and the next choice is then the head.\<close>

theorem scheduler_bypass_once:
  assumes inv: "sched_inv s" and head: "pending s \<noteq> []" "runnableLocked s (hd (pending s))"
    and nxt: "nextRunnableLocked s = Some i" "i \<noteq> 0"
  shows "lastStart s = sessionOf s (hd (pending s)) \<and> nextRunnableLocked (startTurn i s) = Some 0"
proof -
  obtain h q where p: "pending s = h # q" using head(1) by (cases "pending s") auto
  have last: "lastStart s = sessionOf s h"
    using nxt head p by (auto simp: nextRunnableLocked_def Let_def split: if_splits)
  have i: "i < length (pending s)" "runnableLocked s (pending s ! i)" using nextRunnable_Some [OF nxt(1)] by auto
  have q: "queue_ok s" using inv by (simp add: sched_inv_def)
  have other: "sessionOf s (pending s ! i) \<noteq> sessionOf s h"
    using runnable_iff [OF q i(1)] i(2) nxt(2) p by auto
  let ?t = "startTurn i s"
  have pt: "\<exists>q'. pending ?t = h # q'" using p nxt(2) by (cases i) (auto simp: pending_startTurn)
  have w: "pending s ! i < length (turns s)" "h \<noteq> pending s ! i"
    using q i(1) other by (auto simp: queue_ok_def)
  then have sess: "sessionOf ?t h = sessionOf s h" by simp
  have "sessionOf s h \<notin> runningSessions s"
    using head(2) p by (auto simp: runnableLocked_def split: if_splits)
  then have "runnableLocked ?t h"
    using pt sess other by (auto simp: runnableLocked_def hasEarlierSessionEntryLocked_def)
  then show ?thesis using pt sess other last p by (auto simp: nextRunnableLocked_def Let_def)
qed

lemma nth_list_update_if: "j < length xs \<Longrightarrow> xs[i := x] ! j = (if i = j then x else xs ! j)"
  by (metis nth_list_update_eq nth_list_update_neq)

lemma sched_later_refl: "sched_later s s"
  by (simp add: sched_later_def)

lemma sched_later_trans: "sched_later s t \<Longrightarrow> sched_later t u \<Longrightarrow> sched_later s u"
  by (auto simp: sched_later_def)

lemma set_takedrop: "set (take i xs @ drop j xs) \<subseteq> set xs"
  using set_take_subset set_drop_subset by fastforce

lemma startTurn_later: "nextRunnableLocked s = Some i \<Longrightarrow> sched_later s (startTurn i s)"
proof -
  assume "nextRunnableLocked s = Some i"
  then have "pending s ! i \<in> set (pending s)" using nextRunnable_bound by auto
  then show ?thesis
    using set_takedrop [of i "pending s" "i + 1"]
    by (auto simp: sched_later_def withdrawn_def pending_startTurn nth_list_update_if)
qed

lemma dispatch_later: "sched_later s (dispatchLocked s)"
proof -
  have "sched_later s s" by (rule sched_later_refl)
  then show ?thesis by (rule dispatch_induct) (metis sched_later_trans startTurn_later)
qed

lemma removeFirst_subset: "set (removeFirst w ws) \<subseteq> set ws"
  by (induction ws) auto

lemma later_pre:
  "sched_later s (removePendingLocked w s)"
  "sched_later s (failTurn e w s)"
  "sched_later s (freeSlot w sid s)"
  "sched_later s (s\<lparr>turns := turns s @ [newTurn r], pending := pending s @ [length (turns s)]\<rparr>)"
  "sched_later s (s\<lparr>shutdown := True, pending := []\<rparr>)"
  using removeFirst_subset [of w "pending s"]
  by (auto simp: sched_later_def withdrawn_def failTurn_def freeSlot_def nth_list_update_if nth_append)

lemma failAll_later: "sched_later s (fold (failTurn e) ws s)"
  by (induction ws arbitrary: s) (auto intro: sched_later_refl sched_later_trans later_pre)

lemmas later_intros = sched_later_refl dispatch_later later_pre failAll_later

lemma step_later: "sched_step s op t \<Longrightarrow> sched_later s t"
proof (erule sched_stepE)
  assume "t = Shutdown s"
  then show ?thesis
    by (cases "shutdown s") (simp add: Shutdown_def sched_later_refl,
      simp add: Shutdown_eq, metis later_pre(5) failAll_later sched_later_trans)
qed (auto simp: Acquire_def Let_def acquireCtxDone_def releaseLocked_def CancelTurn_def ReleaseRunning_def
    split: option.split intro: later_intros
    sched_later_trans [OF _ dispatch_later] sched_later_trans [OF sched_later_trans [OF later_pre(1) later_pre(2)] dispatch_later])

interpretation sched_mono: monotone_system sched_init sched_step "\<lambda>s. sched_inv s \<and> conserving s" sched_later
  by unfold_locales (auto intro: sched_later_refl sched_later_trans step_later)

text \<open>A turn whose context is cancelled while it is queued never runs afterwards, whatever the other
  goroutines do.\<close>

theorem cancelled_never_starts:
  assumes "reach sched_init sched_step s" "w \<in> set (pending s)"
    "runs sched_step (acquireCtxDone w s) ops t"
  shows "\<not> t_running (turns t ! w) \<and> w \<notin> set (pending t)"
proof -
  have inv: "sched_inv s" "conserving s" using sched.inv_reach [OF assms(1)] by auto
  have w: "w < length (turns s)" "\<not> t_running (turns s ! w)" "distinct (pending s)"
    using inv(1) assms(2) by (auto simp: sched_inv_def queue_ok_def waiting_def strict_sorted_iff)
  then have "withdrawn (removePendingLocked w s) w" by (simp add: withdrawn_def removeFirst_set)
  with w have "withdrawn (acquireCtxDone w s) w"
    using dispatch_later [of "removePendingLocked w s"] by (simp add: acquireCtxDone_def sched_later_def)
  moreover have "sched_inv (acquireCtxDone w s) \<and> conserving (acquireCtxDone w s)"
    using sched_step.ctxDone [OF w(1)] inv sched_inv_step conserving_step by blast
  ultimately have "withdrawn t w"
    using sched_mono.later_runs [OF assms(3)] by (auto simp: sched_later_def)
  then show ?thesis by (simp add: withdrawn_def)
qed

text \<open>A \<open>ready\<close> channel is closed at most once, and a waiting caller obtains the permit exactly when
  dispatch started its turn.\<close>

theorem awaitReady_permit:
  assumes "reach sched_init sched_step s" "w < length (turns s)"
  shows "readyClosed (turns s ! w) \<le> 1 \<and> (awaitReady w s = Some (Inr ())) = t_running (turns s ! w)"
proof -
  have "turn_ok (turns s ! w)" using sched.inv_reach [OF assms(1)] assms(2) by (auto simp: sched_inv_def)
  then show ?thesis by (auto simp: turn_ok_def awaitReady_def split: option.splits)
qed

lemma failAll_turns:
  "distinct ws \<Longrightarrow> \<forall>w\<in>set ws. w < length (turns s) \<Longrightarrow> w < length (turns s) \<Longrightarrow>
   turns (fold (failTurn e) ws s) ! w =
     (if w \<in> set ws then (turns s ! w)\<lparr>err := Some e, readyClosed := readyClosed (turns s ! w) + 1\<rparr> else turns s ! w)"
proof (induction ws arbitrary: s)
  case (Cons v ws)
  then show ?case by (auto simp: failTurn_def nth_list_update)
qed simp

lemma failAll_pending [simp]: "pending (fold (failTurn e) ws s) = pending s" "shutdown (fold (failTurn e) ws s) = shutdown s"
  by (induction ws arbitrary: s) (simp_all add: failTurn_def)

text \<open>\<open>Shutdown\<close> wakes every queued caller with the shutdown error, empties the queue and makes
  every later \<open>Acquire\<close> fail.\<close>

theorem Shutdown_wakes_all:
  assumes "reach sched_init sched_step s" "\<not> shutdown s" "w \<in> set (pending s)"
  shows "awaitReady w (Shutdown s) = Some (Inl ShutDown) \<and> pending (Shutdown s) = [] \<and>
     fst (Acquire c r (Shutdown s)) = Inl (if SessionID r = [] then NoSessionID else ShutDown)"
proof -
  have "sched_inv s" using sched.inv_reach [OF assms(1)] by simp
  then have q: "distinct (pending s)" "\<forall>w\<in>set (pending s). w < length (turns s)"
    by (auto simp: sched_inv_def queue_ok_def strict_sorted_iff)
  with assms(3) have "turns (Shutdown s) ! w = (turns s ! w)\<lparr>err := Some ShutDown, readyClosed := readyClosed (turns s ! w) + 1\<rparr>"
    unfolding Shutdown_eq [OF assms(2)]
    by (subst failAll_turns) auto
  moreover have "shutdown (Shutdown s)" "pending (Shutdown s) = []"
    unfolding Shutdown_eq [OF assms(2)] by simp_all
  ultimately show ?thesis by (simp add: awaitReady_def Acquire_def)
qed

lemma reach_demo: "reach sched_init sched_step (demoSched n rs)"
proof -
  have "reach sched_init sched_step s \<Longrightarrow> reach sched_init sched_step (fold (\<lambda>r s. snd (Acquire False r s)) rs s)" for s
    by (induction rs arbitrary: s) (auto intro: reach_step sched_step.acquire)
  moreover have "reach sched_init sched_step (NewTurnScheduler n)"
    by (rule reach_init) (auto simp: sched_init_def)
  ultimately show ?thesis unfolding demoSched_def by blast
qed

lemma two_turns_state:
  "pending two_turns = [1] \<and> running two_turns = 1 \<and> maxRunning two_turns = 2 \<and> length (turns two_turns) = 2 \<and>
   t_running (turns two_turns ! 0) \<and> \<not> shutdown two_turns \<and> sessionOf two_turns 0 = ''a'' \<and> sessionOf two_turns 1 = ''a''"
  by code_simp

theorem scheduler_admission_witness:
  "running two_turns = 1 \<and> running two_turns = int (card {w. \<exists>sid. holds two_turns w sid}) \<and>
   running two_turns \<le> maxRunning two_turns"
  using scheduler_admission [OF reach_demo, of 2 "[demoReq ''a'' ''1'', demoReq ''a'' ''2'']"] two_turns_state by blast

theorem scheduler_fifo_witness: "(0::nat) < 1 \<and> 1 \<in> set (pending two_turns) \<and> t_running (turns two_turns ! 0)"
  using scheduler_fifo [OF reach_demo, of 1 2 "[demoReq ''a'' ''1'', demoReq ''a'' ''2'']" 0] two_turns_state by simp


theorem cancelled_never_starts_witness:
  "\<not> t_running (turns (acquireCtxDone 1 two_turns) ! 1) \<and> 1 \<notin> set (pending (acquireCtxDone 1 two_turns))"
  by (rule cancelled_never_starts [OF reach_demo _ runs_Nil]) (simp add: two_turns_state)

theorem awaitReady_permit_witness:
  "readyClosed (turns two_turns ! 1) \<le> 1 \<and> (awaitReady 1 two_turns = Some (Inr ())) = t_running (turns two_turns ! 1)"
  by (rule awaitReady_permit [OF reach_demo]) (simp add: two_turns_state)

theorem Shutdown_wakes_all_witness:
  "awaitReady 1 (Shutdown two_turns) = Some (Inl ShutDown) \<and> pending (Shutdown two_turns) = [] \<and>
   fst (Acquire False (demoReq ''b'' ''3'') (Shutdown two_turns)) = Inl (if SessionID (demoReq ''b'' ''3'') = [] then NoSessionID else ShutDown)"
  by (rule Shutdown_wakes_all [OF reach_demo]) (simp_all add: two_turns_state)

theorem scheduler_bypass_once_witness:
  "lastStart slot_freed = sessionOf slot_freed (hd (pending slot_freed)) \<and>
   nextRunnableLocked (startTurn 1 slot_freed) = Some 0"
proof (rule scheduler_bypass_once)
  let ?s = "demoSched 1 [demoReq ''a'' ''1'', demoReq ''a'' ''2'', demoReq ''b'' ''3'']"
  have "sched_inv ?s" using sched.inv_reach [OF reach_demo] by simp
  moreover have "holds ?s 0 ''a''" by code_simp
  ultimately show "sched_inv slot_freed" by (rule freeSlot_inv)
  show "pending slot_freed \<noteq> []" "runnableLocked slot_freed (hd (pending slot_freed))"
    "nextRunnableLocked slot_freed = Some 1" by code_simp+
qed simp

end
