(* ===== verification/Truncate.thy ===== *)
theory Truncate
  imports Go_Prelude
begin

section \<open>Truncation of tool output\<close>

text \<open>
  \<^verbatim>\<open>internal/truncate/truncate.go\<close>: \<open>Head\<close> and \<open>Tail\<close> cut a text to a byte budget without cutting a
  rune, prefer a line boundary within a window, and state how many bytes are missing.
\<close>

subsection \<open>Definitions\<close>

definition lineSearchWindow :: nat where
  "lineSearchWindow = 1000"

fun cutBack :: "string \<Rightarrow> nat \<Rightarrow> nat" where
  "cutBack s 0 = 0"
| "cutBack s (Suc n) = (if \<not> RuneStart (s ! Suc n) then cutBack s n else Suc n)"

definition headMarker :: "nat \<Rightarrow> string" where
  "headMarker n = NL # ''...<truncated: '' @ natString n @ '' bytes omitted>''"

definition headCut :: "string \<Rightarrow> nat \<Rightarrow> nat" where
  "headCut s m =
     (let cut = cutBack s m in
      case LastIndexByte (take cut s) NL of
        Some nl \<Rightarrow> if nl > 0 \<and> cut - nl \<le> lineSearchWindow then nl else cut
      | None \<Rightarrow> cut)"

definition Head :: "string \<Rightarrow> int \<Rightarrow> string" where
  "Head s m =
     (if m \<le> 0 \<or> int (length s) \<le> m then s
      else (let cut = headCut s (nat m) in take cut s @ headMarker (length s - cut)))"

function skipForward :: "string \<Rightarrow> nat \<Rightarrow> nat" where
  "skipForward s start =
     (if start < length s \<and> \<not> RuneStart (s ! start) then skipForward s (start + 1) else start)"
  by pat_completeness auto
termination
  by (relation "measure (\<lambda>(s, start). length s - start)") auto

declare skipForward.simps [simp del]

definition tailMarker :: "nat \<Rightarrow> string" where
  "tailMarker n = ''...<truncated: '' @ natString n @ '' bytes omitted>'' @ [NL]"

definition tailStart :: "string \<Rightarrow> nat \<Rightarrow> nat" where
  "tailStart s m =
     (let start = skipForward s (length s - m) in
      case Index (drop start s) [NL] of
        Some nl \<Rightarrow>
          if nl < lineSearchWindow \<and> start + nl + 1 < length s then start + nl + 1 else start
      | None \<Rightarrow> start)"

definition Tail :: "string \<Rightarrow> int \<Rightarrow> string" where
  "Tail s m =
     (if m \<le> 0 \<or> int (length s) \<le> m then s
      else (let start = tailStart s (nat m) in tailMarker start @ drop start s))"

text \<open>Specification vocabulary: a newline in the search window before a cut, after a start.\<close>

definition lineBefore :: "string \<Rightarrow> nat \<Rightarrow> bool" where
  "lineBefore s c \<longleftrightarrow> (\<exists>p<c. 0 < p \<and> c - p \<le> lineSearchWindow \<and> s ! p = NL)"

definition lineAfter :: "string \<Rightarrow> nat \<Rightarrow> bool" where
  "lineAfter s start \<longleftrightarrow> (\<exists>p<lineSearchWindow. start + p + 1 < length s \<and> s ! (start + p) = NL)"

subsection \<open>Facts\<close>

lemma LastIndexByte_Some: "LastIndexByte s b = Some i \<Longrightarrow> i < length s \<and> s ! i = b \<and> b \<notin> set (drop (Suc i) s)"
  by (induction s b arbitrary: i rule: LastIndexByte.induct) (auto simp: LastIndexByte_None split: option.splits if_splits)

lemma RuneStart_NL: "RuneStart NL"
  by (simp add: RuneStart_def isCont_def)

lemma cutBack_le: "cutBack s n \<le> n"
  by (induction n) auto

lemma cutBack_start: "cutBack s n = 0 \<or> RuneStart (s ! cutBack s n)"
  by (induction n) auto

lemma validUTF8_cut:
  "validUTF8 s \<Longrightarrow> k < length s \<Longrightarrow> k = 0 \<or> RuneStart (s ! k) \<Longrightarrow> validUTF8 (take k s)"
  using validUTF8_split [of s k] by (cases "k = 0") (auto simp: validUTF8.simps [of "[]"])

lemma headCut_cases:
  assumes "m < length s"
  shows "headCut s m \<le> cutBack s m"
    "headCut s m = cutBack s m \<or> (headCut s m < cutBack s m \<and> s ! headCut s m = NL)"
    "lineBefore s (cutBack s m) \<Longrightarrow> s ! headCut s m = NL"
proof -
  let ?c = "cutBack s m"
  have c: "?c < length s" using cutBack_le [of s m] assms by simp
  show A: "headCut s m \<le> ?c" "headCut s m = ?c \<or> (headCut s m < ?c \<and> s ! headCut s m = NL)"
    using c by (auto simp: headCut_def Let_def split: option.splits dest!: LastIndexByte_Some)
  show "s ! headCut s m = NL" if line: "lineBefore s ?c"
  proof -
    obtain p where p: "p < ?c" "0 < p" "?c - p \<le> lineSearchWindow" "s ! p = NL" using line by (auto simp: lineBefore_def)
    then have "NL \<in> set (take ?c s)" using c by (metis in_set_conv_nth length_take min.absorb4 nth_take)
    then obtain nl where nl: "LastIndexByte (take ?c s) NL = Some nl" using LastIndexByte_None by (metis not_Some_eq)
    note f = LastIndexByte_Some [OF nl]
    have "p \<le> nl"
    proof (rule ccontr)
      assume "\<not> p \<le> nl"
      then have "NL \<in> set (drop (Suc nl) (take ?c s))"
        using p c in_set_conv_nth [of NL "drop (Suc nl) (take ?c s)"]
        by (auto intro!: exI [of _ "p - Suc nl"])
      with f show False by blast
    qed
    with p nl f show ?thesis by (auto simp: headCut_def Let_def)
  qed
qed

text \<open>\<open>Head\<close> on a text that does not fit keeps a prefix of at most \<open>max\<close> bytes followed by a marker
  with the exact number of omitted bytes; the kept prefix of valid UTF-8 is valid UTF-8; and when a
  newline lies within the search window before the rune-safe cut, the cut is at a newline.\<close>

theorem Head_correct:
  assumes "0 < m" "m < int (length s)"
  shows "\<exists>cut. Head s m = take cut s @ headMarker (length s - cut) \<and> int cut \<le> m \<and>
     (validUTF8 s \<longrightarrow> validUTF8 (take cut s)) \<and>
     (lineBefore s (cutBack s (nat m)) \<longrightarrow> s ! cut = NL)"
proof -
  let ?m = "nat m" let ?c = "headCut s ?m"
  have m: "?m < length s" using assms by linarith
  note h = headCut_cases [OF m]
  have le: "?c \<le> ?m" using h(1) cutBack_le [of s ?m] by linarith
  have "?c = 0 \<or> RuneStart (s ! ?c)" using h(2) cutBack_start [of s ?m] RuneStart_NL by metis
  then have "validUTF8 s \<longrightarrow> validUTF8 (take ?c s)" using validUTF8_cut [of s ?c] le m by auto
  moreover have "Head s m = take ?c s @ headMarker (length s - ?c)" using assms by (simp add: Head_def Let_def)
  ultimately show ?thesis using le h(3) assms(1) by (intro exI [of _ ?c]) auto
qed

theorem Head_correct_witness:
  "\<exists>cut. Head ''ab'' 1 = take cut ''ab'' @ headMarker (length ''ab'' - cut) \<and> int cut \<le> 1 \<and>
     (validUTF8 ''ab'' \<longrightarrow> validUTF8 (take cut ''ab'')) \<and> (lineBefore ''ab'' (cutBack ''ab'' (nat 1)) \<longrightarrow> ''ab'' ! cut = NL)"
  by (rule Head_correct) simp_all

lemma skipForward_props:
  "start \<le> length s \<Longrightarrow> start \<le> skipForward s start \<and> skipForward s start \<le> length s \<and>
     (skipForward s start = length s \<or> RuneStart (s ! skipForward s start)) \<and>
     (\<forall>j. start \<le> j \<and> j < skipForward s start \<longrightarrow> \<not> RuneStart (s ! j))"
proof (induction s start rule: skipForward.induct)
  case (1 s start)
  show ?case
  proof (cases "start < length s \<and> \<not> RuneStart (s ! start)")
    case True
    then have "skipForward s start = skipForward s (start + 1)" by (simp add: skipForward.simps)
    moreover have "Suc start \<le> skipForward s (Suc start) \<and> skipForward s (Suc start) \<le> length s \<and>
       (skipForward s (Suc start) = length s \<or> RuneStart (s ! skipForward s (Suc start))) \<and>
       (\<forall>j. Suc start \<le> j \<and> j < skipForward s (Suc start) \<longrightarrow> \<not> RuneStart (s ! j))"
      using "1.IH" True by simp
    moreover have "start = j \<or> Suc start \<le> j" if "start \<le> j" for j using that by auto
    ultimately show ?thesis using True by (metis Suc_eq_plus1 Suc_leD)
  next
    case False
    then have "skipForward s start = start" by (subst skipForward.simps) auto
    with 1 False show ?thesis by auto
  qed
qed

lemma Index_NL: "Index s [NL] = Some i \<Longrightarrow> i < length s \<and> s ! i = NL \<and> (\<forall>j<i. s ! j \<noteq> NL)"
proof (induction s arbitrary: i)
  case (Cons c s)
  then show ?case by (cases i) (auto split: if_splits simp: nth_Cons split: nat.splits)
qed simp

lemma Index_NL_None: "Index s [NL] = None \<longleftrightarrow> NL \<notin> set s"
  by (induction s) auto

lemma validUTF8_drop: "validUTF8 s \<Longrightarrow> k = length s \<or> k < length s \<and> RuneStart (s ! k) \<Longrightarrow> validUTF8 (drop k s)"
  using validUTF8_split [of s k] by (auto simp: validUTF8.simps [of "[]"])

lemma validUTF8_after_NL:
  "validUTF8 s \<Longrightarrow> k < length s \<Longrightarrow> s ! k = NL \<Longrightarrow> validUTF8 (drop (Suc k) s)"
proof -
  assume v: "validUTF8 s" "k < length s" "s ! k = NL"
  then have "validUTF8 (drop k s)" using validUTF8_drop RuneStart_NL by metis
  moreover have "drop k s = NL # drop (Suc k) s" using v by (metis Cons_nth_drop_Suc)
  ultimately show ?thesis using validUTF8_step [of "NL # drop (Suc k) s"] runeLen_ASCII [of NL] by simp
qed

text \<open>\<open>Tail\<close> keeps a suffix of at most \<open>max\<close> bytes after a marker with the exact number of omitted
  bytes; the suffix of valid UTF-8 is valid UTF-8; and when a line begins within the search window,
  the suffix begins at the start of a line.\<close>

theorem Tail_correct:
  assumes "0 < m" "m < int (length s)"
  shows "\<exists>start. Tail s m = tailMarker start @ drop start s \<and> int (length (drop start s)) \<le> m \<and>
     (validUTF8 s \<longrightarrow> validUTF8 (drop start s)) \<and>
     (lineAfter s (skipForward s (length s - nat m)) \<longrightarrow> 0 < start \<and> s ! (start - 1) = NL)"
proof -
  let ?b = "skipForward s (length s - nat m)" let ?t = "tailStart s (nat m)"
  note f = skipForward_props [of "length s - nat m" s]
  have b: "length s - nat m \<le> ?b" "?b \<le> length s" "?b = length s \<or> RuneStart (s ! ?b)" using f by auto
  have cases: "?t = ?b \<or> (\<exists>nl. ?t = Suc (?b + nl) \<and> ?b + nl + 1 < length s \<and> s ! (?b + nl) = NL)"
    by (auto simp: tailStart_def Let_def split: option.splits dest!: Index_NL)
  have "validUTF8 s \<longrightarrow> validUTF8 (drop ?t s)"
    using cases validUTF8_drop [of s ?b] validUTF8_after_NL [of s] b by (metis Suc_eq_plus1 Suc_lessD le_neq_implies_less)
  moreover have "int (length (drop ?t s)) \<le> m"
  proof -
    have "?b \<le> ?t" using cases by auto
    then have "length s - ?t \<le> nat m" using b(1) by linarith
    then show ?thesis using assms(1) by simp
  qed
  moreover have "0 < ?t \<and> s ! (?t - 1) = NL" if "lineAfter s ?b"
  proof -
    obtain p where p: "p < lineSearchWindow" "?b + p + 1 < length s" "s ! (?b + p) = NL" using \<open>lineAfter s ?b\<close> by (auto simp: lineAfter_def)
    then have "NL \<in> set (drop ?b s)" using in_set_conv_nth [of NL "drop ?b s"] by (auto intro!: exI [of _ p])
    then obtain nl where nl: "Index (drop ?b s) [NL] = Some nl" using Index_NL_None by (metis not_Some_eq)
    have "nl \<le> p" using Index_NL [OF nl] p by (auto simp: not_less [symmetric])
    with nl p Index_NL [OF nl] show ?thesis by (auto simp: tailStart_def Let_def)
  qed
  moreover have "Tail s m = tailMarker ?t @ drop ?t s" using assms by (simp add: Tail_def Let_def)
  ultimately show ?thesis by blast
qed

theorem Tail_correct_witness:
  "\<exists>start. Tail ''ab'' 1 = tailMarker start @ drop start ''ab'' \<and> int (length (drop start ''ab'')) \<le> 1 \<and>
     (validUTF8 ''ab'' \<longrightarrow> validUTF8 (drop start ''ab'')) \<and>
     (lineAfter ''ab'' (skipForward ''ab'' (length ''ab'' - nat 1)) \<longrightarrow> 0 < start \<and> ''ab'' ! (start - 1) = NL)"
  by (rule Tail_correct) simp_all

end
