(* ===== verification/Jobs.thy ===== *)
theory Jobs
  imports Truncate Transition
begin

section \<open>Background jobs\<close>

text \<open>
  \<^verbatim>\<open>internal/jobs/jobs.go\<close>: the capped output buffer, the argv contract and the life of a job.
  A job is started by one goroutine, finished by another and cancelled by any, so the operations
  are the sections that take the locks: registration, announcement, the outcome of admission and
  \<open>cmd.Start\<close>, output, the return of \<open>cmd.Wait\<close>, and \<open>Cancel\<close>.  The registry records, in order, what
  the outside sees: the calls of the sink and the closing of \<open>done\<close>.  The outcome of the operating
  system (errors of the lease, of \<open>Start\<close> and of \<open>Wait\<close>), the clock (in nanoseconds), the fresh
  identifier and \<open>%q\<close> (the quoting of \<open>strconv\<close>) are inputs.
\<close>

subsection \<open>The capped buffer\<close>

record cappedBuffer =
  buf :: string
  bufMax :: int
  dropped :: nat

definition bufWrite :: "string \<Rightarrow> cappedBuffer \<Rightarrow> cappedBuffer" where
  "bufWrite p c =
     (let b = buf c @ p in
      if bufMax c > 0 \<and> int (length b) > bufMax c then
        c\<lparr>dropped := dropped c + (length b - nat (bufMax c)), buf := drop (length b - nat (bufMax c)) b\<rparr>
      else c\<lparr>buf := b\<rparr>)"

definition UTFMax :: nat where
  "UTFMax = 4"

function runeSkip :: "string \<Rightarrow> nat \<Rightarrow> nat" where
  "runeSkip b start =
     (if start < length b \<and> start < UTFMax \<and> \<not> RuneStart (b ! start)
      then runeSkip b (start + 1) else start)"
  by pat_completeness auto
termination
  by (relation "measure (\<lambda>(b, start). length b - start)") auto

declare runeSkip.simps [simp del]

definition bufString :: "cappedBuffer \<Rightarrow> string" where
  "bufString c =
     (if dropped c = 0 then buf c
      else (let start = runeSkip (buf c) 0 in tailMarker (dropped c + start) @ drop start (buf c)))"

subsection \<open>Jobs and the registry\<close>

datatype Status = Running | Exited | Failed | Canceled

record Owner =
  SessionID :: string
  TurnID :: string
  CallID :: string
  Notify :: bool

record JobSnapshot =
  OutputTail :: string
  snapID :: string
  snapCommand :: string
  snapStatus :: Status
  ExitCode :: int
  DurationMS :: int
  snapOwner :: Owner

text \<open>How far the goroutine that runs \<open>Start\<close>, and then the one that waits, has come.\<close>

datatype phase = Registered | Announced | Launched | Ended

record Job =
  jid :: string
  command :: string
  owner :: Owner
  status :: Status
  exitCode :: int
  started :: int
  ended :: "int option"
  joutput :: cappedBuffer
  canceled :: bool
  doneClosed :: nat
  leaseReleased :: nat
  jobPhase :: phase

datatype event =
    EvStarted JobSnapshot | EvOutput string string | EvFinished JobSnapshot | EvDone string

record Registry =
  jobs :: "string \<rightharpoonup> Job"
  order :: "string list"
  maxOutput :: int
  hasSink :: bool
  events :: "event list"

definition NewRegistry :: "bool \<Rightarrow> Registry" where
  "NewRegistry sink =
     \<lparr>jobs = Map.empty, order = [], maxOutput = 256 * 1024, hasSink = sink, events = []\<rparr>"

definition milliseconds :: "int \<Rightarrow> int" where
  "milliseconds d = (if d < 0 then - ((- d) div 1000000) else d div 1000000)"

definition Snapshot :: "int \<Rightarrow> Job \<Rightarrow> JobSnapshot" where
  "Snapshot now j =
     \<lparr>OutputTail = [], snapID = jid j, snapCommand = command j, snapStatus = status j,
      ExitCode = exitCode j,
      DurationMS = milliseconds ((case ended j of Some e \<Rightarrow> e | None \<Rightarrow> now) - started j),
      snapOwner = owner j\<rparr>"

definition Logs :: "Job \<Rightarrow> string" where
  "Logs j = bufString (joutput j)"

definition terminalSnapshot :: "int \<Rightarrow> Job \<Rightarrow> JobSnapshot" where
  "terminalSnapshot now j = (Snapshot now j)\<lparr>OutputTail := Tail (Logs j) 2000\<rparr>"

definition argvContractNote :: "(string \<Rightarrow> string) \<Rightarrow> string list \<Rightarrow> string" where
  "argvContractNote q argv =
     (case argv of
        [] \<Rightarrow> ''argv is empty: Start requires a full argv with the program at index 0''
      | a # _ \<Rightarrow>
          if a = [] then ''argv[0] is empty: Start requires a full argv with the program name at index 0''
          else if HasPrefix a ''-'' then
            ''argv[0] is '' @ q a @ '': Start requires a full argv with the program at index 0 '' @
            ''(args-only argv is the classic mistake '' @ [CHR 0xE2, CHR 0x80, CHR 0x94] @
            '' e.g. pass ['' @ [DQ] @ ''sh'' @ [DQ] @ '', '' @ [DQ] @ ''-c'' @ [DQ] @ '', cmd], not ['' @
            [DQ] @ ''-c'' @ [DQ] @ '', cmd])''
          else [])"

definition emit :: "event list \<Rightarrow> Registry \<Rightarrow> Registry" where
  "emit es r = (if hasSink r then r\<lparr>events := events r @ es\<rparr> else r)"

definition putJob :: "Job \<Rightarrow> Registry \<Rightarrow> Registry" where
  "putJob j r = r\<lparr>jobs := (jobs r)(jid j \<mapsto> j)\<rparr>"

text \<open>\<open>close(job.done)\<close>: the channel is not part of the sink, so the event is recorded always.\<close>

definition closeDone :: "Job \<Rightarrow> Registry \<Rightarrow> Registry" where
  "closeDone j r =
     (putJob (j\<lparr>doneClosed := doneClosed j + 1\<rparr>) r)\<lparr>events := events r @ [EvDone (jid j)]\<rparr>"

text \<open>\<open>Start\<close>, first section: the job is registered under a fresh identifier.\<close>

definition registerJob :: "string \<Rightarrow> int \<Rightarrow> string \<Rightarrow> Owner \<Rightarrow> Registry \<Rightarrow> Registry" where
  "registerJob i now cmd ow r =
     (putJob
       \<lparr>jid = i, command = cmd, owner = ow, status = Running, exitCode = 0, started = now,
        ended = None, joutput = \<lparr>buf = [], bufMax = maxOutput r, dropped = 0\<rparr>, canceled = False,
        doneClosed = 0, leaseReleased = 0, jobPhase = Registered\<rparr> r)\<lparr>order := order r @ [i]\<rparr>"

definition announceJob :: "int \<Rightarrow> Job \<Rightarrow> Registry \<Rightarrow> Registry" where
  "announceJob now j r =
     emit [EvStarted (Snapshot now j)] (putJob (j\<lparr>jobPhase := Announced\<rparr>) r)"

text \<open>A write to \<open>w\<close>: the buffer first, then the sink (\<open>sinkWriter.Write\<close>).\<close>

definition writeOutput :: "string \<Rightarrow> Job \<Rightarrow> Registry \<Rightarrow> Job \<times> Registry" where
  "writeOutput p j r =
     (let j' = j\<lparr>joutput := bufWrite p (joutput j)\<rparr> in (j', emit [EvOutput (jid j) p] (putJob j' r)))"

definition finish :: "int \<Rightarrow> Status \<Rightarrow> int \<Rightarrow> Job \<Rightarrow> Registry \<Rightarrow> Job \<times> Registry" where
  "finish now st code j r =
     (let j' = j\<lparr>status := st, exitCode := code, ended := Some now\<rparr>;
          r' = closeDone j' r
      in (j'\<lparr>doneClosed := doneClosed j' + 1\<rparr>, r'))"

text \<open>The three failing exits of \<open>Start\<close>, which differ in their message only.\<close>

definition failStart :: "int \<Rightarrow> string \<Rightarrow> Job \<Rightarrow> Registry \<Rightarrow> Registry" where
  "failStart now msg j r =
     (let (j1, r1) = writeOutput msg j r;
          j2 = j1\<lparr>canceled := True, leaseReleased := leaseReleased j1 + 1, jobPhase := Ended\<rparr>;
          (j3, r3) = finish now Failed (- 1) j2 r1
      in emit [EvFinished (terminalSnapshot now j3)] r3)"

definition launchJob ::
  "(string \<Rightarrow> string) \<Rightarrow> int \<Rightarrow> string option \<Rightarrow> string list \<Rightarrow> string option \<Rightarrow> Job \<Rightarrow> Registry \<Rightarrow> Registry" where
  "launchJob q now leaseErr argv startErr j r =
     (case leaseErr of
        Some e \<Rightarrow> failStart now (''failed admission: '' @ e @ [NL]) j r
      | None \<Rightarrow>
          if argvContractNote q argv \<noteq> []
          then failStart now (''failed to start: '' @ argvContractNote q argv @ [NL]) j r
          else
            (case startErr of
               Some e \<Rightarrow> failStart now (''failed to start: '' @ e @ [NL]) j r
             | None \<Rightarrow> putJob (j\<lparr>jobPhase := Launched\<rparr>) r))"

text \<open>What \<open>cmd.Wait\<close> returns, and the goroutine that waits for it.\<close>

datatype waitResult = WaitOk | WaitExitError int | WaitOther

definition waitReturned :: "int \<Rightarrow> waitResult \<Rightarrow> Job \<Rightarrow> Registry \<Rightarrow> Registry" where
  "waitReturned now res j r =
     (let j1 = j\<lparr>canceled := True\<rparr>;
          j2 = (if status j1 \<noteq> Canceled then
                  (case res of
                     WaitOk \<Rightarrow> j1\<lparr>status := Exited, exitCode := 0\<rparr>
                   | WaitExitError code \<Rightarrow> j1\<lparr>status := Failed, exitCode := code\<rparr>
                   | WaitOther \<Rightarrow> j1\<lparr>status := Failed, exitCode := - 1\<rparr>)
                else j1);
          j3 = j2\<lparr>ended := Some now, leaseReleased := leaseReleased j2 + 1, jobPhase := Ended\<rparr>
      in closeDone j3 (emit [EvFinished (terminalSnapshot now j3)] r))"

datatype cancel_error = UnknownJob string | NotRunning string Status

definition Get :: "string \<Rightarrow> Registry \<Rightarrow> Job option" where
  "Get i r = jobs r i"

definition Cancel :: "string \<Rightarrow> Registry \<Rightarrow> cancel_error option \<times> Registry" where
  "Cancel i r =
     (case Get i r of
        None \<Rightarrow> (Some (UnknownJob i), r)
      | Some j \<Rightarrow>
          if status j \<noteq> Running then (Some (NotRunning i (status j)), r)
          else (None, putJob (j\<lparr>status := Canceled, exitCode := - 1, canceled := True\<rparr>) r))"

text \<open>\<open>List\<close>: a missing job would be a nil dereference, the value None.\<close>

definition List :: "int \<Rightarrow> Registry \<Rightarrow> JobSnapshot option list" where
  "List now r = map (\<lambda>i. map_option (Snapshot now) (jobs r i)) (order r)"

datatype job_op =
    OpRegister string int string Owner | OpAnnounce string int
  | OpLaunch string int "string option" "string list" "string option"
  | OpOutput string string | OpWait string int waitResult | OpCancel string

inductive job_step :: "(string \<Rightarrow> string) \<Rightarrow> Registry \<Rightarrow> job_op \<Rightarrow> Registry \<Rightarrow> bool" for q where
  register: "jobs r i = None \<Longrightarrow> job_step q r (OpRegister i now cmd ow) (registerJob i now cmd ow r)"
| announce: "jobs r i = Some j \<Longrightarrow> jobPhase j = Registered \<Longrightarrow>
    job_step q r (OpAnnounce i now) (announceJob now j r)"
| launch: "jobs r i = Some j \<Longrightarrow> jobPhase j = Announced \<Longrightarrow>
    job_step q r (OpLaunch i now le argv se) (launchJob q now le argv se j r)"
| chunk: "jobs r i = Some j \<Longrightarrow> jobPhase j = Launched \<Longrightarrow>
    job_step q r (OpOutput i p) (snd (writeOutput p j r))"
| waitReturn: "jobs r i = Some j \<Longrightarrow> jobPhase j = Launched \<Longrightarrow>
    job_step q r (OpWait i now res) (waitReturned now res j r)"
| cancel: "job_step q r (OpCancel i) (snd (Cancel i r))"

inductive_cases job_stepE: "job_step q r op t"

definition job_init :: "Registry \<Rightarrow> bool" where
  "job_init r = (\<exists>sink. r = NewRegistry sink)"

text \<open>Specification vocabulary: the invariant of a job and of the registry, what an operation on one job
  changes, the jobs whose outcome is settled, and the states the witnesses use.\<close>

definition job_ok :: "Job \<Rightarrow> bool" where
  "job_ok j \<longleftrightarrow>
     (if jobPhase j = Ended
      then status j \<noteq> Running \<and> ended j \<noteq> None \<and> doneClosed j = 1 \<and> leaseReleased j = 1
      else status j \<in> {Running, Canceled} \<and> ended j = None \<and> doneClosed j = 0 \<and> leaseReleased j = 0) \<and>
     (status j = Exited \<longrightarrow> exitCode j = 0) \<and> (status j = Canceled \<longrightarrow> exitCode j = - 1)"

fun isStarted :: "string \<Rightarrow> event \<Rightarrow> bool" where
  "isStarted i (EvStarted s) = (snapID s = i)"
| "isStarted i _ = False"

fun isFinished :: "string \<Rightarrow> event \<Rightarrow> bool" where
  "isFinished i (EvFinished s) = (snapID s = i)"
| "isFinished i _ = False"

definition nStarted :: "string \<Rightarrow> Registry \<Rightarrow> nat" where
  "nStarted i r = length (filter (isStarted i) (events r))"

definition nFinished :: "string \<Rightarrow> Registry \<Rightarrow> nat" where
  "nFinished i r = length (filter (isFinished i) (events r))"

definition announced :: "Registry \<Rightarrow> string \<Rightarrow> bool" where
  "announced r i \<longleftrightarrow> hasSink r \<and> (\<exists>j. jobs r i = Some j \<and> jobPhase j \<noteq> Registered)"

definition over :: "Registry \<Rightarrow> string \<Rightarrow> bool" where
  "over r i \<longleftrightarrow> hasSink r \<and> (\<exists>j. jobs r i = Some j \<and> jobPhase j = Ended)"

definition job_inv :: "Registry \<Rightarrow> bool" where
  "job_inv r \<longleftrightarrow>
     (\<forall>i j. jobs r i = Some j \<longrightarrow> jid j = i \<and> job_ok j) \<and>
     distinct (order r) \<and> set (order r) = dom (jobs r) \<and>
     (\<forall>i. nStarted i r = of_bool (announced r i)) \<and> (\<forall>i. nFinished i r = of_bool (over r i))"

definition touches :: "string \<Rightarrow> Job \<Rightarrow> event list \<Rightarrow> Registry \<Rightarrow> Registry \<Rightarrow> bool" where
  "touches i j es r t \<longleftrightarrow>
     jobs t = (jobs r)(i \<mapsto> j) \<and> hasSink t = hasSink r \<and> events t = events r @ es \<and>
     order t = order r \<and> maxOutput t = maxOutput r"

definition failedJob :: "int \<Rightarrow> string \<Rightarrow> Job \<Rightarrow> Job" where
  "failedJob now msg j =
     j\<lparr>joutput := bufWrite msg (joutput j), canceled := True, leaseReleased := leaseReleased j + 1,
       jobPhase := Ended, status := Failed, exitCode := - 1, ended := Some now, doneClosed := doneClosed j + 1\<rparr>"

definition endedJob :: "int \<Rightarrow> waitResult \<Rightarrow> Job \<Rightarrow> Job" where
  "endedJob now res j =
     (if status j = Canceled then j
      else (case res of WaitOk \<Rightarrow> j\<lparr>status := Exited, exitCode := 0\<rparr>
            | WaitExitError code \<Rightarrow> j\<lparr>status := Failed, exitCode := code\<rparr>
            | WaitOther \<Rightarrow> j\<lparr>status := Failed, exitCode := - 1\<rparr>))
     \<lparr>canceled := True, ended := Some now, leaseReleased := leaseReleased j + 1, jobPhase := Ended\<rparr>"

definition settled :: "Job \<Rightarrow> bool" where
  "settled j \<longleftrightarrow> jobPhase j = Ended \<or> (jobPhase j = Launched \<and> status j = Canceled)"

definition job_later :: "Registry \<Rightarrow> Registry \<Rightarrow> bool" where
  "job_later r t \<longleftrightarrow> (\<forall>i j. jobs r i = Some j \<and> settled j \<longrightarrow>
     (\<exists>j'. jobs t i = Some j' \<and> settled j' \<and> status j' = status j \<and> exitCode j' = exitCode j))"

definition demoOwner :: Owner where
  "demoOwner = \<lparr>SessionID = ''s'', TurnID = ''t'', CallID = ''c'', Notify = True\<rparr>"

definition demoRegistered :: Registry where
  "demoRegistered = registerJob ''j'' 0 ''sleep 1'' demoOwner (NewRegistry True)"

definition demoAnnounced :: Registry where
  "demoAnnounced = announceJob 0 (the (jobs demoRegistered ''j'')) demoRegistered"

definition demoLaunched :: Registry where
  "demoLaunched = launchJob id 0 None [''sleep'', ''1''] None (the (jobs demoAnnounced ''j'')) demoAnnounced"

definition demoEnded :: Registry where
  "demoEnded = waitReturned 5 WaitOk (the (jobs demoLaunched ''j'')) demoLaunched"

subsection \<open>Facts\<close>

lemma drop_keep_last:
  assumes "a \<le> length w"
  shows "drop (length (drop (a - n) w) - n) (drop (a - n) w) = drop (length w - n) w"
    "(a - n) + (length (drop (a - n) w) - n) = length w - n"
proof -
  have "length w - (a - n) - n + (a - n) = length w - n" using assms by arith
  then show "drop (length (drop (a - n) w) - n) (drop (a - n) w) = drop (length w - n) w"
    "(a - n) + (length (drop (a - n) w) - n) = length w - n" by (simp_all add: add.commute)
qed

locale capped_log =
  fixes cap :: nat and wr :: "'a list \<Rightarrow> 'b \<Rightarrow> 'b" and kept :: "'b \<Rightarrow> 'a list" and lost :: "'b \<Rightarrow> nat"
    and ok :: "'b \<Rightarrow> bool"
  assumes write_ok: "ok c \<Longrightarrow> ok (wr p c)"
    and kept_write: "ok c \<Longrightarrow> kept (wr p c) = drop (length (kept c @ p) - cap) (kept c @ p)"
    and lost_write: "ok c \<Longrightarrow> lost (wr p c) = lost c + (length (kept c @ p) - cap)"
begin

lemma write_all:
  "ok c \<Longrightarrow> length (kept c) \<le> cap \<Longrightarrow>
   kept (fold wr ps c) = drop (length (kept c @ concat ps) - cap) (kept c @ concat ps) \<and>
   lost (fold wr ps c) = lost c + (length (kept c @ concat ps) - cap) \<and> ok (fold wr ps c)"
proof (induction ps arbitrary: c)
  case (Cons p ps)
  let ?k = "length (kept c @ p) - cap"
  have k: "kept (wr p c) = drop ?k (kept c @ p)" "lost (wr p c) = lost c + ?k" "ok (wr p c)"
    using Cons.prems by (simp_all only: kept_write lost_write write_ok)
  have "length (kept (wr p c)) \<le> cap" unfolding k by simp
  from Cons.IH [OF k(3) this]
  have IH: "kept (fold wr ps (wr p c)) =
        drop (length (drop ?k (kept c @ p) @ concat ps) - cap) (drop ?k (kept c @ p) @ concat ps)"
      "lost (fold wr ps (wr p c)) = lost c + ?k + (length (drop ?k (kept c @ p) @ concat ps) - cap)"
      "ok (fold wr ps (wr p c))"
    unfolding k by auto
  have d: "drop ?k (kept c @ p) @ concat ps = drop ?k (kept c @ concat (p # ps))" by simp
  have "length (kept c @ p) \<le> length (kept c @ concat (p # ps))" by simp
  note l = drop_keep_last [OF this, of cap]
  show ?case
    unfolding fold_simps IH(1,2) d add.assoc l by (simp add: IH(3))
qed simp

end

interpretation capped: capped_log "nat m" bufWrite buf dropped "\<lambda>c. bufMax c = m \<and> 0 < m" for m
  by unfold_locales (auto simp: bufWrite_def Let_def)

text \<open>The capped buffer refines the plain log: after any sequence of writes it holds the last \<open>max\<close>
  bytes of everything written, never more, and \<open>dropped\<close> counts exactly the rest.\<close>

theorem cappedBuffer_refines_log:
  assumes "0 < m" "c = fold bufWrite ps \<lparr>buf = [], bufMax = m, dropped = 0\<rparr>"
  shows "buf c = drop (length (concat ps) - nat m) (concat ps) \<and>
     dropped c + length (buf c) = length (concat ps) \<and> int (length (buf c)) \<le> m"
  using capped.write_all [of "\<lparr>buf = [], bufMax = m, dropped = 0\<rparr>" m ps] assms by auto

lemma runeSkip_props:
  "runeSkip b i \<le> max i (min UTFMax (length b)) \<and> i \<le> runeSkip b i \<and>
   (runeSkip b i < length b \<and> runeSkip b i < UTFMax \<longrightarrow> RuneStart (b ! runeSkip b i)) \<and>
   (\<forall>j. i \<le> j \<and> j < runeSkip b i \<longrightarrow> \<not> RuneStart (b ! j))"
proof (induction b i rule: runeSkip.induct)
  case (1 b i)
  show ?case
  proof (cases "i < length b \<and> i < UTFMax \<and> \<not> RuneStart (b ! i)")
    case True
    then have eq: "runeSkip b i = runeSkip b (Suc i)" by (subst runeSkip.simps) simp
    have "i = j \<or> Suc i \<le> j" if "i \<le> j" for j using that by auto
    with "1.IH" [OF True] True show ?thesis unfolding eq by (auto simp: max_def min_def split: if_splits)
  next
    case False
    then have "runeSkip b i = i" by (subst runeSkip.simps) auto
    with False show ?thesis by auto
  qed
qed

lemma cont_run_short:
  "validUTF8 s \<Longrightarrow> a \<le> k \<Longrightarrow> k < length s \<Longrightarrow> (\<forall>j. a \<le> j \<and> j \<le> k \<longrightarrow> \<not> RuneStart (s ! j)) \<Longrightarrow> k < a + 3"
proof (induction s arbitrary: a k rule: validUTF8.induct)
  case (1 s)
  let ?r = "runeLen s"
  from "1.prems" have ne: "s \<noteq> []" by auto
  then have r: "?r \<noteq> 0" using validUTF8_runeLen "1.prems" by blast
  have rest: "validUTF8 (drop ?r s)" using validUTF8_step [OF r] "1.prems" by simp
  show ?case
  proof (cases "a < ?r")
    case True
    have a0: "a \<noteq> 0"
      using "1.prems" ne r runeLen_hd by (metis le0 le_refl list.exhaust nth_Cons_0 order.trans)
    have "k < ?r"
    proof (rule ccontr)
      assume "\<not> k < ?r"
      then have "drop ?r s \<noteq> []" using "1.prems" by auto
      then have "RuneStart (s ! ?r)"
        using rest validUTF8_runeLen runeLen_hd by (metis hd_drop_conv_nth leI drop_all list.collapse)
      with "1.prems" True \<open>\<not> k < ?r\<close> show False by auto
    qed
    with runeLen_le4 [of s] a0 show ?thesis by linarith
  next
    case False
    have "k - ?r < a - ?r + 3"
    proof (rule "1.IH" [OF ne r rest])
      show "\<forall>j. a - ?r \<le> j \<and> j \<le> k - ?r \<longrightarrow> \<not> RuneStart (drop ?r s ! j)"
      proof (intro allI impI)
        fix j assume "a - ?r \<le> j \<and> j \<le> k - ?r"
        then have "a \<le> ?r + j" "?r + j \<le> k" using False "1.prems"(2) by auto
        with "1.prems"(3,4) show "\<not> RuneStart (drop ?r s ! j)" by simp
      qed
    qed (use "1.prems" False in auto)
    with False "1.prems" show ?thesis by linarith
  qed
qed

text \<open>When everything written is valid UTF-8, the text \<open>String\<close> returns after its marker is valid
  UTF-8 too, at most three bytes are given up for it, and the marker counts them.\<close>

theorem bufString_valid:
  assumes "0 < m" "validUTF8 (concat ps)" "c = fold bufWrite ps \<lparr>buf = [], bufMax = m, dropped = 0\<rparr>"
  shows "\<exists>skip\<le>3. validUTF8 (drop skip (buf c)) \<and>
     bufString c = (if dropped c = 0 then concat ps else tailMarker (dropped c + skip) @ drop skip (buf c))"
proof -
  let ?W = "concat ps" let ?d = "length ?W - nat m"
  have b: "buf c = drop ?d ?W" "dropped c = ?d"
    using capped.write_all [of "\<lparr>buf = [], bufMax = m, dropped = 0\<rparr>" m ps] assms by auto
  show ?thesis
  proof (cases "?d = 0")
    case True
    with b assms(2) show ?thesis by (intro exI [of _ 0]) (simp add: bufString_def)
  next
    case False
    let ?k = "runeSkip (buf c) 0"
    note f = runeSkip_props [of "buf c" 0]
    have le: "?k \<le> length (buf c)" "?k \<le> 4" using f by (auto simp: UTFMax_def)
    have cont: "\<not> RuneStart (?W ! j)" if "?d \<le> j" "j < ?d + ?k" for j
    proof -
      have "\<not> RuneStart (buf c ! (j - ?d))" using f that by auto
      moreover have "buf c ! (j - ?d) = ?W ! j" using that le(1) b(1) by auto
      ultimately show ?thesis by simp
    qed
    have k3: "?k \<le> 3"
    proof (rule ccontr)
      assume "\<not> ?k \<le> 3"
      then have "?k = 4" using le by simp
      moreover from this le(1) b(1) have "?d + 3 < length ?W" by simp
      ultimately have "?d + 3 < ?d + 3"
        using cont_run_short [OF assms(2), of ?d "?d + 3"] cont le(1) b(1) by auto
      then show False by simp
    qed
    have "length (buf c) = length ?W - ?d" "?d \<le> length ?W" using b by simp_all
    with le(1) have tot: "?d + ?k \<le> length ?W" by arith
    have "validUTF8 (drop (?d + ?k) ?W)"
    proof (rule validUTF8_drop [OF assms(2)])
      show "?d + ?k = length ?W \<or> ?d + ?k < length ?W \<and> RuneStart (?W ! (?d + ?k))"
        using f k3 tot b(1) by (auto simp: UTFMax_def)
    qed
    with k3 b False show ?thesis by (intro exI [of _ ?k]) (simp add: bufString_def Let_def add.commute)
  qed
qed

lemmas job_defs = putJob_def emit_def closeDone_def writeOutput_def finish_def failStart_def
  announceJob_def registerJob_def waitReturned_def Let_def

lemma snap_id [simp]: "snapID (Snapshot now j) = jid j" "snapID (terminalSnapshot now j) = jid j"
  by (simp_all add: terminalSnapshot_def Snapshot_def)

text \<open>An operation on one job: everything about the other jobs stays.\<close>

lemma touches_inv:
  assumes inv: "job_inv r" and t: "touches i j' es r t" and j: "jobs r i = Some j" "jid j' = i" "job_ok j'"
    and other: "\<And>k. k \<noteq> i \<Longrightarrow> filter (isStarted k) es = [] \<and> filter (isFinished k) es = []"
    and st: "length (filter (isStarted i) es) = of_bool (hasSink r \<and> jobPhase j = Registered \<and> jobPhase j' \<noteq> Registered)"
    and fi: "length (filter (isFinished i) es) = of_bool (hasSink r \<and> jobPhase j \<noteq> Ended \<and> jobPhase j' = Ended)"
    and mono: "jobPhase j' = Registered \<Longrightarrow> jobPhase j = Registered" "jobPhase j = Ended \<Longrightarrow> jobPhase j' = Ended"
  shows "job_inv t"
proof -
  have "nStarted k t = of_bool (announced t k) \<and> nFinished k t = of_bool (over t k)" for k
  proof (cases "k = i")
    case True
    then show ?thesis
      using inv t j st fi mono
      by (auto simp: job_inv_def touches_def nStarted_def nFinished_def announced_def over_def)
  next
    case False
    then show ?thesis
      using inv t other [OF False] by (auto simp: job_inv_def touches_def nStarted_def nFinished_def announced_def over_def)
  qed
  moreover have "dom (jobs t) = dom (jobs r)" using t j by (auto simp: touches_def)
  ultimately show ?thesis using inv t j by (auto simp: job_inv_def touches_def)
qed

lemma job_invD: "job_inv r \<Longrightarrow> jobs r i = Some j \<Longrightarrow> jid j = i \<and> job_ok j"
  by (simp add: job_inv_def)

lemma register_inv: "job_inv r \<Longrightarrow> jobs r i = None \<Longrightarrow> job_inv (registerJob i now cmd ow r)"
proof -
  assume inv: "job_inv r" and new: "jobs r i = None"
  let ?t = "registerJob i now cmd ow r"
  have "announced ?t k = announced r k" "over ?t k = over r k" for k
    using new by (auto simp: registerJob_def putJob_def announced_def over_def)
  moreover have "i \<notin> set (order r)" using inv new by (auto simp: job_inv_def)
  moreover have "\<forall>k j. jobs ?t k = Some j \<longrightarrow> jid j = k \<and> job_ok j"
  proof (intro allI impI)
    fix k j assume "jobs ?t k = Some j"
    then show "jid j = k \<and> job_ok j"
      using job_invD [OF inv, of k j]
      by (cases "k = i") (auto simp: registerJob_def putJob_def job_ok_def [of "\<lparr>jid = i, command = _, owner = _,
        status = _, exitCode = _, started = _, ended = _, joutput = _, canceled = _, doneClosed = _,
        leaseReleased = _, jobPhase = _\<rparr>"])
  qed
  moreover have "nStarted k ?t = nStarted k r" "nFinished k ?t = nFinished k r" "order ?t = order r @ [i]"
    "dom (jobs ?t) = insert i (dom (jobs r))" for k
    by (simp_all add: registerJob_def putJob_def nStarted_def nFinished_def)
  ultimately show ?thesis using inv unfolding job_inv_def by simp
qed

lemma announce_touches:
  "jobs r i = Some j \<Longrightarrow> jid j = i \<Longrightarrow>
   touches i (j\<lparr>jobPhase := Announced\<rparr>) (if hasSink r then [EvStarted (Snapshot now j)] else []) r (announceJob now j r)"
  by (simp add: touches_def job_defs)

lemma announce_inv:
  assumes "job_inv r" "jobs r i = Some j" "jobPhase j = Registered"
  shows "job_inv (announceJob now j r)"
proof (rule touches_inv [OF assms(1) announce_touches assms(2)])
  show "job_ok (j\<lparr>jobPhase := Announced\<rparr>)"
    using job_invD [OF assms(1,2)] assms(3) by (auto simp: job_ok_def)
qed (use assms in \<open>auto simp: job_inv_def\<close>)

lemma chunk_touches:
  "jid j = i \<Longrightarrow>
   touches i (j\<lparr>joutput := bufWrite p (joutput j)\<rparr>) (if hasSink r then [EvOutput i p] else []) r (snd (writeOutput p j r))"
  by (simp add: touches_def job_defs)

lemma chunk_inv:
  assumes "job_inv r" "jobs r i = Some j"
  shows "job_inv (snd (writeOutput p j r))"
proof (rule touches_inv [OF assms(1) chunk_touches assms(2)])
  show "job_ok (j\<lparr>joutput := bufWrite p (joutput j)\<rparr>)"
    using job_invD [OF assms(1,2)] by (auto simp: job_ok_def split: if_splits)
qed (use assms in \<open>auto simp: job_inv_def\<close>)

lemma fail_touches:
  "jid j = i \<Longrightarrow>
   touches i (failedJob now msg j)
     ((if hasSink r then [EvOutput i msg] else []) @ [EvDone i] @
      (if hasSink r then [EvFinished (terminalSnapshot now (failedJob now msg j))] else [])) r (failStart now msg j r)"
  by (simp add: touches_def job_defs failedJob_def)

lemma fail_inv:
  assumes "job_inv r" "jobs r i = Some j" "jobPhase j = Announced"
  shows "job_inv (failStart now msg j r)"
proof (rule touches_inv [OF assms(1) fail_touches assms(2)])
  show "job_ok (failedJob now msg j)"
    using job_invD [OF assms(1,2)] assms(3) by (auto simp: job_ok_def failedJob_def)
qed (use assms in \<open>auto simp: job_inv_def failedJob_def\<close>)

lemma launch_inv:
  assumes "job_inv r" "jobs r i = Some j" "jobPhase j = Announced"
  shows "job_inv (launchJob q now le argv se j r)"
proof -
  have "job_inv (putJob (j\<lparr>jobPhase := Launched\<rparr>) r)"
  proof (rule touches_inv [OF assms(1) _ assms(2)])
    show "touches i (j\<lparr>jobPhase := Launched\<rparr>) [] r (putJob (j\<lparr>jobPhase := Launched\<rparr>) r)"
      using assms by (auto simp: touches_def putJob_def job_inv_def)
    show "job_ok (j\<lparr>jobPhase := Launched\<rparr>)"
      using job_invD [OF assms(1,2)] assms(3) by (auto simp: job_ok_def)
  qed (use assms in \<open>auto simp: job_inv_def\<close>)
  then show ?thesis using fail_inv [OF assms] by (simp add: launchJob_def split: option.split)
qed

lemma endedJob_fields [simp]: "jid (endedJob now res j) = jid j" "jobPhase (endedJob now res j) = Ended"
  by (cases res; simp add: endedJob_def)+

lemma wait_touches:
  "jid j = i \<Longrightarrow>
   touches i ((endedJob now res j)\<lparr>doneClosed := doneClosed j + 1\<rparr>)
     ((if hasSink r then [EvFinished (terminalSnapshot now (endedJob now res j))] else []) @ [EvDone i]) r
     (waitReturned now res j r)"
  by (cases res; cases j) (simp_all add: touches_def job_defs endedJob_def)

lemma wait_inv:
  assumes "job_inv r" "jobs r i = Some j" "jobPhase j = Launched"
  shows "job_inv (waitReturned now res j r)"
proof (rule touches_inv [OF assms(1) wait_touches assms(2)])
  show "job_ok ((endedJob now res j)\<lparr>doneClosed := doneClosed j + 1\<rparr>)"
    using job_invD [OF assms(1,2)] assms(3) by (cases res) (auto simp: job_ok_def endedJob_def)
qed (use assms in \<open>auto simp: job_inv_def\<close>)

lemma cancel_inv:
  assumes "job_inv r"
  shows "job_inv (snd (Cancel i r))"
proof (cases "\<exists>j. jobs r i = Some j \<and> status j = Running")
  case True
  then obtain j where j: "jobs r i = Some j" "status j = Running" by blast
  let ?j = "j\<lparr>status := Canceled, exitCode := - 1, canceled := True\<rparr>"
  have "job_inv (putJob ?j r)"
  proof (rule touches_inv [OF assms _ j(1)])
    show "touches i ?j [] r (putJob ?j r)" using assms j by (auto simp: touches_def putJob_def job_inv_def)
    show "job_ok ?j" using job_invD [OF assms j(1)] j(2) by (auto simp: job_ok_def split: if_splits)
  qed (use assms j in \<open>auto simp: job_inv_def\<close>)
  with j show ?thesis by (simp add: Cancel_def Get_def)
next
  case False
  with assms show ?thesis by (auto simp: Cancel_def Get_def split: option.split)
qed

lemma job_inv_step: "job_inv r \<Longrightarrow> job_step q r op t \<Longrightarrow> job_inv t"
  by (erule job_stepE) (simp_all add: register_inv announce_inv launch_inv chunk_inv wait_inv cancel_inv)

lemma job_inv_init: "job_init r \<Longrightarrow> job_inv r"
  by (auto simp: job_init_def NewRegistry_def job_inv_def nStarted_def nFinished_def announced_def over_def)

lemma job_later_refl: "job_later r r"
  by (simp add: job_later_def)

lemma job_later_trans: "job_later r t \<Longrightarrow> job_later t u \<Longrightarrow> job_later r u"
  unfolding job_later_def by metis

lemma touches_later:
  assumes "touches i j' es r t" "jobs r i = Some j"
    "settled j \<Longrightarrow> settled j' \<and> status j' = status j \<and> exitCode j' = exitCode j"
  shows "job_later r t"
  using assms unfolding job_later_def touches_def by auto

lemma job_later_step:
  assumes inv: "job_inv r" and step: "job_step q r op t"
  shows "job_later r t"
  using step
proof (cases rule: job_step.cases)
  case (register i now cmd ow)
  then show ?thesis by (auto simp: job_later_def registerJob_def putJob_def)
next
  case (announce i j now)
  then show ?thesis
    using announce_touches [of r i j now] job_invD [OF inv] by (auto intro!: touches_later simp: settled_def)
next
  case (launch i j now le argv se)
  have id: "jid j = i" using job_invD [OF inv launch(3)] by simp
  have "job_later r (failStart now msg j r)" for msg
    using touches_later [OF fail_touches [OF id] launch(3)] launch(4) by (simp add: settled_def)
  moreover have "job_later r (putJob (j\<lparr>jobPhase := Launched\<rparr>) r)"
    using launch id by (auto simp: job_later_def putJob_def settled_def)
  ultimately show ?thesis using launch(2) by (simp add: launchJob_def split: option.split)
next
  case (chunk i j p)
  then have "jid j = i" using job_invD [OF inv] by auto
  from touches_later [OF chunk_touches [OF this] chunk(3)] chunk show ?thesis by (simp add: settled_def)
next
  case (waitReturn i j now res)
  then have id: "jid j = i" using job_invD [OF inv] by auto
  from touches_later [OF wait_touches [OF id] waitReturn(3)] waitReturn show ?thesis
    by (auto simp: settled_def endedJob_def)
next
  case (cancel i)
  have "status j \<noteq> Running" if "jobs r k = Some j" "settled j" for k j
    using job_invD [OF inv that(1)] that(2) by (auto simp: settled_def job_ok_def)
  then show ?thesis
    using cancel job_invD [OF inv] by (auto simp: job_later_def Cancel_def Get_def putJob_def split: option.split)
qed

interpretation job: monotone_system job_init "job_step q" job_inv job_later for q
  by unfold_locales (auto intro: job_inv_init job_inv_step job_later_refl job_later_trans job_later_step)


text \<open>A running job that was cancelled successfully stays cancelled with exit code -1 for ever, however
  its process ends afterwards.\<close>

theorem canceled_job_stays:
  assumes "reach job_init (job_step q) r" "jobs r i = Some j" "jobPhase j = Launched"
    "Cancel i r = (None, r')" "runs (job_step q) r' ops t"
  shows "\<exists>j'. jobs t i = Some j' \<and> status j' = Canceled \<and> exitCode j' = - 1"
proof -
  have inv: "job_inv r" using assms(1) by (rule job.inv_reach)
  have inv': "job_inv r'" using cancel_inv [OF inv, of i] assms(4) by simp
  have "jobs r' i = Some (j\<lparr>status := Canceled, exitCode := - 1, canceled := True\<rparr>)"
    using assms(2,4) job_invD [OF inv assms(2)]
    by (auto simp: Cancel_def Get_def putJob_def split: if_splits)
  moreover have "settled (j\<lparr>status := Canceled, exitCode := - 1, canceled := True\<rparr>)"
    using assms(3) by (simp add: settled_def)
  ultimately show ?thesis
    using job.later_runs [OF assms(5) inv'] unfolding job_later_def by fastforce
qed

text \<open>\<open>List\<close> never meets an identifier without a job and lists every job once.\<close>

theorem List_total:
  assumes "reach job_init (job_step q) r"
  shows "None \<notin> set (List now r) \<and> length (List now r) = card (dom (jobs r))"
proof -
  have inv: "job_inv r" using assms by (rule job.inv_reach)
  then have "\<forall>i\<in>set (order r). jobs r i \<noteq> None" by (auto simp: job_inv_def)
  moreover have "card (dom (jobs r)) = length (order r)" using inv by (metis job_inv_def distinct_card)
  ultimately show ?thesis by (auto simp: List_def)
qed

text \<open>The argv contract accepts exactly the vectors that begin with a non-empty program name that is
  not a flag.\<close>

theorem argvContractNote_ok:
  "(argvContractNote q argv = []) = (\<exists>prog args. argv = prog # args \<and> prog \<noteq> [] \<and> \<not> HasPrefix prog ''-'')"
  by (cases argv) (auto simp: argvContractNote_def)

text \<open>On the normal path the finished event precedes the closing of \<open>done\<close>, as the comment in the code
  demands; when starting fails, \<open>done\<close> is closed first.\<close>

theorem finish_event_order:
  assumes "hasSink r"
  shows "(\<exists>snap. events (waitReturned now res j r) = events r @ [EvFinished snap, EvDone (jid j)]) \<and>
     (\<exists>snap. events (failStart now msg j r) = events r @ [EvOutput (jid j) msg, EvDone (jid j), EvFinished snap])"
  using wait_touches [of j "jid j" now res r] fail_touches [of j "jid j" now msg r] assms
  by (simp add: touches_def)

lemma demo_phases:
  "map_option jobPhase (jobs demoRegistered ''j'') = Some Registered"
  "map_option jobPhase (jobs demoAnnounced ''j'') = Some Announced"
  "map_option jobPhase (jobs demoLaunched ''j'') = Some Launched"
  "map_option status (jobs demoEnded ''j'') = Some Exited"
  "map_option status (jobs demoLaunched ''j'') = Some Running"
  "hasSink demoLaunched" "hasSink demoEnded"
  by code_simp+

lemma demo_reach:
  "reach job_init (job_step id) demoLaunched" "reach job_init (job_step id) demoEnded"
proof -
  have "reach job_init (job_step id) demoRegistered"
    unfolding demoRegistered_def
  proof (rule reach_step)
    show "reach job_init (job_step id) (NewRegistry True)" by (rule reach_init) (auto simp: job_init_def)
  qed (rule job_step.register, simp add: NewRegistry_def)
  then have "reach job_init (job_step id) demoAnnounced"
    unfolding demoAnnounced_def using demo_phases(1)
    by (elim reach_step) (auto intro!: job_step.announce)
  then show l: "reach job_init (job_step id) demoLaunched"
    unfolding demoLaunched_def using demo_phases(2)
    by (elim reach_step) (auto intro!: job_step.launch)
  then show "reach job_init (job_step id) demoEnded"
    unfolding demoEnded_def using demo_phases(3)
    by (elim reach_step) (auto intro!: job_step.waitReturn)
qed


theorem canceled_job_stays_witness:
  "\<exists>j. jobs (snd (Cancel ''j'' demoLaunched)) ''j'' = Some j \<and> status j = Canceled \<and> exitCode j = - 1"
proof -
  obtain j where j: "jobs demoLaunched ''j'' = Some j" "jobPhase j = Launched" "status j = Running"
    using demo_phases(3,5) by auto
  then have "Cancel ''j'' demoLaunched = (None, snd (Cancel ''j'' demoLaunched))"
    by (simp add: Cancel_def Get_def)
  from canceled_job_stays [OF demo_reach(1) j(1,2) this runs_Nil] show ?thesis by blast
qed

theorem List_total_witness:
  "None \<notin> set (List 9 demoEnded) \<and> length (List 9 demoEnded) = card (dom (jobs demoEnded))"
  by (rule List_total [OF demo_reach(2)])

theorem finish_event_order_witness:
  "\<exists>snap. events (waitReturned 5 WaitOk (the (jobs demoLaunched ''j'')) demoLaunched) =
     events demoLaunched @ [EvFinished snap, EvDone (jid (the (jobs demoLaunched ''j'')))]"
  using finish_event_order [OF demo_phases(6), of 5 WaitOk "the (jobs demoLaunched ''j'')" "[]"] by blast

theorem cappedBuffer_refines_log_witness:
  "buf (fold bufWrite [''abc'', ''de''] \<lparr>buf = [], bufMax = 3, dropped = 0\<rparr>) = ''cde''"
  using cappedBuffer_refines_log [of 3 _ "[''abc'', ''de'']", OF _ refl] by (simp add: eval_nat_numeral)

theorem bufString_valid_witness:
  "\<exists>skip\<le>3. validUTF8 (drop skip (buf (fold bufWrite [''abc'', ''de''] \<lparr>buf = [], bufMax = 3, dropped = 0\<rparr>)))"
  using bufString_valid [of 3 "[''abc'', ''de'']", OF _ _ refl] validUTF8_ASCII [of "''abcde''"]
  by (auto simp: isASCII_def)

end
