(* ===== verification/Paths.thy ===== *)
theory Paths
  imports Danger
begin

section \<open>Slash-separated paths\<close>

text \<open>
  The part of Go's \<^verbatim>\<open>path/filepath\<close> the program uses, for a system whose separator is the slash:
  \<open>Clean\<close>, \<open>Join\<close>, \<open>Dir\<close>, \<open>IsAbs\<close>, \<open>Rel\<close>, \<open>Ext\<close> and \<open>Abs\<close> (\<open>Base\<close> is \<open>pathBase\<close> of theory Danger).
  \<open>Clean\<close> works on the components between slashes: empty ones and single dots go, a double dot
  removes the component before it, or itself at the root.
\<close>

subsection \<open>Definitions\<close>

definition IsAbs :: "string \<Rightarrow> bool" where
  "IsAbs p = HasPrefix p [SLASH]"

abbreviation DOT :: string where "DOT \<equiv> ''.''"
abbreviation DOTDOT :: string where "DOTDOT \<equiv> ''..''"

text \<open>One component pushed on the stack of kept components (last one first).\<close>

definition pushComp :: "bool \<Rightarrow> string \<Rightarrow> string list \<Rightarrow> string list" where
  "pushComp rooted c st =
     (if c = [] \<or> c = DOT then st
      else if c = DOTDOT then
        (case st of
           [] \<Rightarrow> if rooted then [] else [DOTDOT]
         | d # st' \<Rightarrow> if d = DOTDOT then DOTDOT # st else st')
      else c # st)"

definition cleanComps :: "string \<Rightarrow> string list" where
  "cleanComps p = rev (fold (pushComp (IsAbs p)) (SplitByte SLASH p) [])"

definition render :: "bool \<Rightarrow> string list \<Rightarrow> string" where
  "render rooted cs =
     (if rooted then SLASH # Join cs [SLASH] else if cs = [] then DOT else Join cs [SLASH])"

definition Clean :: "string \<Rightarrow> string" where
  "Clean p = render (IsAbs p) (cleanComps p)"

fun pathJoin :: "string list \<Rightarrow> string" where
  "pathJoin [] = []"
| "pathJoin (e # es) = (if e = [] then pathJoin es else Clean (Join (e # es) [SLASH]))"

definition upToSlash :: "string \<Rightarrow> string" where
  "upToSlash p = rev (dropWhile (\<lambda>c. c \<noteq> SLASH) (rev p))"

definition pathDir :: "string \<Rightarrow> string" where
  "pathDir p = Clean (upToSlash p)"

text \<open>\<open>Ext\<close>: from the last dot of the last element.\<close>

definition pathExt :: "string \<Rightarrow> string" where
  "pathExt p =
     (let lastElem = rev (takeWhile (\<lambda>c. c \<noteq> SLASH) (rev p)) in
      case LastIndexByte lastElem CHR ''.'' of None \<Rightarrow> [] | Some i \<Rightarrow> drop i lastElem)"

text \<open>\<open>Rel\<close> walks the two cleaned paths element by element; the slash of a rooted path delimits an
  empty first element.\<close>

definition relElems :: "string \<Rightarrow> string list" where
  "relElems p = (if p = [] then [] else if p = [SLASH] then [[]] else SplitByte SLASH p)"

fun dropCommon :: "string list \<Rightarrow> string list \<Rightarrow> string list \<times> string list" where
  "dropCommon (b # bs) (t # ts) = (if b = t then dropCommon bs ts else (b # bs, t # ts))"
| "dropCommon bs ts = (bs, ts)"

definition Rel :: "string \<Rightarrow> string \<Rightarrow> string option" where
  "Rel basepath targpath =
     (let base0 = Clean basepath; targ = Clean targpath;
          base = (if base0 = DOT then [] else base0)
      in if targ = base0 then Some DOT
         else if IsAbs base \<noteq> IsAbs targ then None
         else
           (case dropCommon (relElems base) (relElems targ) of
              (bs, ts) \<Rightarrow>
                if bs \<noteq> [] \<and> hd bs = DOTDOT \<and> ts \<noteq> [] then None
                else Some (Join (replicate (length bs) DOTDOT @ ts) [SLASH])))"

text \<open>The operating system: the working directory and the resolution of symbolic links.\<close>

datatype evalResult = EvOk string | EvNotExist | EvError

record fsenv =
  cwd :: "string option"
  evalSymlinks :: "string \<Rightarrow> evalResult"

definition Abs :: "fsenv \<Rightarrow> string \<Rightarrow> string option" where
  "Abs E p =
     (if IsAbs p then Some (Clean p)
      else (case cwd E of None \<Rightarrow> None | Some wd \<Rightarrow> Some (pathJoin [wd, p])))"

text \<open>Specification vocabulary: the length a list of components takes with its separators, and
  components as \<open>Clean\<close> leaves them.\<close>

definition weight :: "string list \<Rightarrow> nat" where
  "weight cs = sum_list (map (\<lambda>c. length c + 1) cs)"

definition plainComp :: "string \<Rightarrow> bool" where
  "plainComp c = (c \<noteq> [] \<and> c \<noteq> DOT \<and> c \<noteq> DOTDOT \<and> SLASH \<notin> set c)"

text \<open>Components in the form \<open>Clean\<close> leaves them; the measure by which \<open>Dir\<close> climbs.\<close>

definition normalComps :: "bool \<Rightarrow> string list \<Rightarrow> bool" where
  "normalComps rooted cs \<longleftrightarrow>
     (\<exists>n xs. cs = replicate n DOTDOT @ xs \<and> list_all plainComp xs \<and> (rooted \<longrightarrow> n = 0))"

definition climb :: "string \<Rightarrow> nat" where
  "climb p = (if p = DOT then 0 else Suc (length p))"

subsection \<open>Facts\<close>

lemma SplitByte_ne: "SplitByte b s \<noteq> []"
  by (induction s) (auto split: list.splits)

lemma SplitByte_noSep: "b \<notin> set s \<Longrightarrow> SplitByte b s = [s]"
  by (induction s) auto

lemma SplitByte_sep: "b \<notin> set s \<Longrightarrow> SplitByte b (s @ b # t) = s # SplitByte b t"
  by (induction s) auto

lemma SplitByte_comp: "c \<in> set (SplitByte b s) \<Longrightarrow> b \<notin> set c"
proof (induction s arbitrary: c)
  case (Cons x s)
  obtain w ws where "SplitByte b s = w # ws" using SplitByte_ne by (metis list.exhaust)
  with Cons show ?case by (auto split: if_splits)
qed simp

lemma SplitByte_Join: "cs \<noteq> [] \<Longrightarrow> list_all (\<lambda>c. b \<notin> set c) cs \<Longrightarrow> SplitByte b (Join cs [b]) = cs"
proof (induction cs "[b]" rule: Join.induct)
  case (3 w v ws)
  then show ?case by (simp add: SplitByte_sep)
qed (auto simp: SplitByte_noSep)

lemma Join_SplitByte: "Join (SplitByte b s) [b] = s"
proof (induction s)
  case (Cons x s)
  obtain w ws where w: "SplitByte b s = w # ws" using SplitByte_ne by (metis list.exhaust)
  with Cons show ?case by (cases ws) auto
qed simp

text \<open>Components in the form \<open>Clean\<close> leaves them.\<close>

lemma plainComp_DOTDOT [simp]: "\<not> plainComp DOTDOT"
  by (simp add: plainComp_def)

lemma pushComp_normal:
  assumes "normalComps r (rev st)" "SLASH \<notin> set c"
  shows "normalComps r (rev (pushComp r c st))"
proof -
  obtain n xs where st: "rev st = replicate n DOTDOT @ xs" "list_all plainComp xs" "r \<longrightarrow> n = 0"
    using assms(1) by (auto simp: normalComps_def)
  consider "c = [] \<or> c = DOT" | "c = DOTDOT" | "plainComp c" using assms(2) by (auto simp: plainComp_def)
  then show ?thesis
  proof cases
    case 1 then show ?thesis using assms(1) by (simp add: pushComp_def)
  next
    case 3
    with st have "rev (pushComp r c st) = replicate n DOTDOT @ (xs @ [c])" "list_all plainComp (xs @ [c])"
      by (auto simp: pushComp_def plainComp_def)
    with st(3) show ?thesis unfolding normalComps_def by blast
  next
    case 2
    show ?thesis
    proof (cases xs rule: rev_cases)
      case Nil
      then have s: "st = replicate n DOTDOT" using st(1) by (metis append_Nil2 rev_replicate rev_rev_ident)
      show ?thesis
      proof (cases n)
        case 0
        with s 2 show ?thesis unfolding normalComps_def
          by (auto simp: pushComp_def intro: exI [of _ 1] exI [of _ 0])
      next
        case (Suc m)
        with s 2 st(3) have "rev (pushComp r c st) = replicate (Suc n) DOTDOT @ []" "\<not> r"
          by (auto simp: pushComp_def replicate_append_same)
        then show ?thesis unfolding normalComps_def by (intro exI [of _ "Suc n"] exI [of _ "[]"]) simp
      qed
    next
      case (snoc ys y)
      with st have "st = y # rev ys @ replicate n DOTDOT" "plainComp y" "list_all plainComp ys"
        by (auto simp: rev_swap)
      with 2 st(3) have "rev (pushComp r c st) = replicate n DOTDOT @ ys" by (auto simp: pushComp_def)
      with st(3) \<open>list_all plainComp ys\<close> show ?thesis unfolding normalComps_def by blast
    qed
  qed
qed

lemma fold_push_normal:
  "list_all (\<lambda>c. SLASH \<notin> set c) cs \<Longrightarrow> normalComps r (rev st) \<Longrightarrow> normalComps r (rev (fold (pushComp r) cs st))"
  by (induction cs arbitrary: st) (auto simp: pushComp_normal)

lemma cleanComps_normal: "normalComps (IsAbs p) (cleanComps p)"
proof -
  have "list_all (\<lambda>c. SLASH \<notin> set c) (SplitByte SLASH p)"
    using SplitByte_comp by (auto simp: list_all_iff)
  moreover have "normalComps r (rev [])" for r by (auto simp: normalComps_def)
  ultimately show ?thesis using fold_push_normal unfolding cleanComps_def by blast
qed

lemma fold_push_plain: "list_all plainComp xs \<Longrightarrow> fold (pushComp r) xs st = rev xs @ st"
  by (induction xs arbitrary: st) (auto simp: pushComp_def plainComp_def)

lemma fold_push_dots: "\<not> r \<Longrightarrow> fold (pushComp r) (replicate n DOTDOT) (replicate m DOTDOT) = replicate (n + m) DOTDOT"
proof (induction n arbitrary: m)
  case (Suc n)
  have "pushComp r DOTDOT (replicate m DOTDOT) = replicate (Suc m) DOTDOT"
    using Suc.prems by (cases m) (auto simp: pushComp_def)
  with Suc.IH [OF Suc.prems, of "Suc m"] show ?case by simp
qed simp

lemma fold_push_id: "normalComps r cs \<Longrightarrow> fold (pushComp r) cs [] = rev cs"
proof -
  assume "normalComps r cs"
  then obtain n xs where cs: "cs = replicate n DOTDOT @ xs" "list_all plainComp xs" "r \<longrightarrow> n = 0"
    by (auto simp: normalComps_def)
  have "fold (pushComp r) (replicate n DOTDOT) [] = replicate n DOTDOT"
    using fold_push_dots [of r n 0] cs(3) by (cases r) auto
  with cs show ?thesis by (simp add: fold_push_plain)
qed

lemma normalComps_comp: "normalComps r cs \<Longrightarrow> list_all (\<lambda>c. SLASH \<notin> set c \<and> c \<noteq> []) cs"
proof -
  assume "normalComps r cs"
  then obtain n xs where cs: "cs = replicate n DOTDOT @ xs" "list_all plainComp xs"
    by (auto simp: normalComps_def)
  have "SLASH \<notin> set c \<and> c \<noteq> []" if "c \<in> set cs" for c
  proof (cases "c \<in> set xs")
    case True
    with cs(2) show ?thesis by (simp add: list_all_iff plainComp_def)
  next
    case False
    with that cs(1) have "c = DOTDOT" by simp
    then show ?thesis by simp
  qed
  then show ?thesis by (simp add: list_all_iff)
qed

lemma IsAbs_Clean: "IsAbs (Clean p) = IsAbs p"
proof -
  have "\<not> IsAbs (Join cs [SLASH])" if "list_all (\<lambda>c. SLASH \<notin> set c \<and> c \<noteq> []) cs" for cs
  proof (cases cs)
    case (Cons c cs')
    with that obtain x c' where "c = x # c'" "x \<noteq> SLASH" by (cases c) auto
    with Cons show ?thesis by (cases cs') (auto simp: IsAbs_def)
  qed (simp add: IsAbs_def)
  with normalComps_comp [OF cleanComps_normal [of p]] show ?thesis
    by (auto simp: Clean_def render_def IsAbs_def)
qed

lemma cleanComps_Clean: "cleanComps (Clean p) = cleanComps p"
proof -
  let ?cs = "cleanComps p" and ?r = "IsAbs p"
  have n: "normalComps ?r ?cs" by (rule cleanComps_normal)
  have noslash: "list_all (\<lambda>c. SLASH \<notin> set c) ?cs" using normalComps_comp [OF n] by (auto simp: list_all_iff)
  have "fold (pushComp ?r) (SplitByte SLASH (Clean p)) [] = rev ?cs"
  proof (cases "?cs = []")
    case True
    then show ?thesis by (auto simp: Clean_def render_def pushComp_def)
  next
    case False
    then have "SplitByte SLASH (Join ?cs [SLASH]) = ?cs" using noslash by (rule SplitByte_Join)
    with False fold_push_id [OF n] show ?thesis by (auto simp: Clean_def render_def pushComp_def)
  qed
  then show ?thesis by (simp add: cleanComps_def [of "Clean p"] IsAbs_Clean)
qed

lemma Clean_idem: "Clean (Clean p) = Clean p"
  by (simp only: Clean_def [of "Clean p"] IsAbs_Clean cleanComps_Clean) (simp only: Clean_def)

lemma abs_comps_plain: "IsAbs p \<Longrightarrow> list_all plainComp (cleanComps p)"
  using cleanComps_normal [of p] by (auto simp: normalComps_def)

lemma relElems_abs: "IsAbs p \<Longrightarrow> relElems (Clean p) = [] # cleanComps p"
proof -
  assume abs: "IsAbs p"
  show ?thesis
  proof (cases "cleanComps p = []")
    case True
    with abs show ?thesis by (simp add: Clean_def render_def relElems_def)
  next
    case False
    have "list_all (\<lambda>c. SLASH \<notin> set c) (cleanComps p)"
      using abs_comps_plain [OF abs] by (auto simp: list_all_iff plainComp_def)
    with False have s: "SplitByte SLASH (Join (cleanComps p) [SLASH]) = cleanComps p" by (rule SplitByte_Join)
    moreover have "Join (cleanComps p) [SLASH] \<noteq> []"
    proof
      assume "Join (cleanComps p) [SLASH] = []"
      with s have "cleanComps p = [[]]" by simp
      with abs_comps_plain [OF abs] show False by (simp add: plainComp_def)
    qed
    ultimately show ?thesis using abs by (simp add: Clean_def render_def relElems_def)
  qed
qed

lemma dropCommon_prefix: "fst (dropCommon bs ts) = [] \<longleftrightarrow> prefix bs ts"
  by (induction bs ts rule: dropCommon.induct) auto

lemma dropCommon_rest: "prefix bs ts \<Longrightarrow> snd (dropCommon bs ts) = drop (length bs) ts"
  by (induction bs ts rule: dropCommon.induct) auto

lemma dropCommon_sub: "set (fst (dropCommon bs ts)) \<subseteq> set bs \<and> set (snd (dropCommon bs ts)) \<subseteq> set ts"
  by (induction bs ts rule: dropCommon.induct) auto

lemma Clean_abs_eq: "IsAbs p \<Longrightarrow> IsAbs q \<Longrightarrow> Clean p = Clean q \<longleftrightarrow> cleanComps p = cleanComps q"
proof -
  assume abs: "IsAbs p" "IsAbs q"
  have "Clean p = Clean q \<Longrightarrow> cleanComps p = cleanComps q"
    using cleanComps_Clean [of p] cleanComps_Clean [of q] by simp
  moreover have "cleanComps p = cleanComps q \<Longrightarrow> Clean p = Clean q"
    using abs by (simp add: Clean_def)
  ultimately show ?thesis by blast
qed

lemma Rel_abs:
  assumes "IsAbs b" "IsAbs t"
  shows "Rel b t = Some (if cleanComps t = cleanComps b then DOT
     else Join (replicate (length (fst (dropCommon (cleanComps b) (cleanComps t)))) DOTDOT @
            snd (dropCommon (cleanComps b) (cleanComps t))) [SLASH])"
proof -
  have "Clean b \<noteq> DOT" using IsAbs_Clean [of b] assms(1) by (auto simp: IsAbs_def)
  moreover have "DOTDOT \<notin> set (cleanComps b)"
    using abs_comps_plain [OF assms(1)] by (auto simp: list_all_iff)
  then have "fst (dropCommon (cleanComps b) (cleanComps t)) \<noteq> [] \<Longrightarrow>
      hd (fst (dropCommon (cleanComps b) (cleanComps t))) \<noteq> DOTDOT"
    using dropCommon_sub [of "cleanComps b" "cleanComps t"] by (metis hd_in_set subsetD)
  ultimately show ?thesis
    using assms by (auto simp: Rel_def Let_def IsAbs_Clean relElems_abs Clean_abs_eq split: prod.split)
qed

lemma weight_simps [simp]: "weight [] = 0" "weight (c # cs) = Suc (length c) + weight cs" "weight (xs @ ys) = weight xs + weight ys" "weight (rev xs) = weight xs"
  by (simp_all add: weight_def rev_map [symmetric])

lemma length_Join: "cs \<noteq> [] \<Longrightarrow> Suc (length (Join cs [b])) = weight cs"
  by (induction cs "[b]" rule: Join.induct) auto

lemma weight_SplitByte: "weight (SplitByte b s) = Suc (length s)"
  using length_Join [OF SplitByte_ne, of b s b] by (simp add: Join_SplitByte)

lemma SplitByte_snoc: "SplitByte b (s @ [b]) = SplitByte b s @ [[]]"
proof (induction s)
  case (Cons x s)
  obtain w ws where "SplitByte b s = w # ws" using SplitByte_ne by (metis list.exhaust)
  with Cons show ?case by auto
qed simp

lemma pushComp_weight: "weight (pushComp r c st) \<le> (if c = [] then 0 else Suc (length c)) + weight st"
  by (auto simp: pushComp_def split: list.splits)

lemma fold_push_weight: "weight (fold (pushComp r) cs st) \<le> weight (filter (\<lambda>c. c \<noteq> []) cs) + weight st"
proof (induction cs arbitrary: st)
  case (Cons c cs)
  from Cons.IH [of "pushComp r c st"] pushComp_weight [of r c st] show ?case
    by (cases "c = []") auto
qed simp

lemma weight_filter: "weight (filter P cs) \<le> weight cs"
  by (induction cs) auto

lemma Clean_shorter: "q \<noteq> [] \<Longrightarrow> length (Clean (q @ [SLASH])) \<le> length q"
proof -
  assume q: "q \<noteq> []"
  let ?p = "q @ [SLASH]"
  let ?cs = "cleanComps ?p"
  have w: "weight ?cs \<le> weight (filter (\<lambda>c. c \<noteq> []) (SplitByte SLASH q))"
    using fold_push_weight [of "IsAbs ?p" "SplitByte SLASH ?p" "[]"] by (simp add: cleanComps_def SplitByte_snoc)
  show ?thesis
  proof (cases "IsAbs q")
    case True
    then obtain q' where q': "q = SLASH # q'" by (cases q) (auto simp: IsAbs_def)
    have "weight ?cs \<le> length q"
      using w weight_filter [of "\<lambda>c. c \<noteq> []" "SplitByte SLASH q'"] weight_SplitByte [of SLASH q'] q' by simp
    then show ?thesis
      using length_Join [of ?cs SLASH] q' by (cases "?cs = []") (auto simp: Clean_def render_def IsAbs_def)
  next
    case False
    then have na: "\<not> IsAbs ?p" using q by (cases q) (auto simp: IsAbs_def)
    have "weight ?cs \<le> Suc (length q)"
      using w weight_filter [of "\<lambda>c. c \<noteq> []" "SplitByte SLASH q"] weight_SplitByte [of SLASH q] by simp
    then show ?thesis
      using length_Join [of ?cs SLASH] na q by (cases "?cs = []") (auto simp: Clean_def render_def Suc_le_eq)
  qed
qed

lemma upToSlash_cases: "upToSlash p = [] \<or> (\<exists>q r. upToSlash p = q @ [SLASH] \<and> p = q @ [SLASH] @ r)"
proof (cases "dropWhile (\<lambda>c. c \<noteq> SLASH) (rev p)")
  case (Cons c t)
  then have c: "c = SLASH" by (simp add: dropWhile_eq_Cons_conv)
  have "rev p = takeWhile (\<lambda>c. c \<noteq> SLASH) (rev p) @ SLASH # t" using Cons c by (metis takeWhile_dropWhile_id)
  then have "p = rev (takeWhile (\<lambda>c. c \<noteq> SLASH) (rev p) @ SLASH # t)" by (rule iffD1 [OF rev_swap])
  then have "p = rev t @ [SLASH] @ rev (takeWhile (\<lambda>c. c \<noteq> SLASH) (rev p))" by simp
  with Cons c show ?thesis unfolding upToSlash_def by auto
qed (simp add: upToSlash_def)

lemma Clean_simple: "Clean [] = DOT" "Clean [SLASH] = [SLASH]"
  by code_simp+

lemma pathDir_climb: "pathDir p \<noteq> p \<Longrightarrow> climb (pathDir p) < climb p"
proof -
  assume ne: "pathDir p \<noteq> p"
  consider "upToSlash p = []" | r where "upToSlash p = [SLASH]" "p = [SLASH] @ r"
    | q r where "upToSlash p = q @ [SLASH]" "q \<noteq> []" "p = q @ [SLASH] @ r"
    using upToSlash_cases [of p] by (metis append_Nil)
  then show ?thesis
  proof cases
    case 1
    then have "pathDir p = DOT" by (simp add: pathDir_def Clean_simple)
    with ne show ?thesis by (auto simp: climb_def)
  next
    case 2
    then have d: "pathDir p = [SLASH]" by (simp add: pathDir_def Clean_simple)
    with ne 2 have "r \<noteq> []" by auto
    with d 2 show ?thesis by (auto simp: climb_def)
  next
    case 3
    have "length (pathDir p) \<le> length q" using Clean_shorter [OF 3(2)] 3(1) by (simp add: pathDir_def)
    moreover have "p \<noteq> DOT" using 3(2,3) by (cases q) auto
    ultimately show ?thesis using 3 by (auto simp: climb_def)
  qed
qed

end
