(* ===== verification/Workspace.thy ===== *)
theory Workspace
  imports Paths
begin

section \<open>The workspace boundary\<close>

text \<open>
  \<^verbatim>\<open>internal/workspace/path.go\<close>: whether a path is inside the workspace, outside it, or in the
  managed worktrees that direct tools never touch.  The working directory and the resolution of
  symbolic links come from the environment \<open>E\<close>.
\<close>

subsection \<open>Definitions\<close>

datatype path_error = AbsError | EvalError | NotExist

text \<open>\<open>CanonicalPath\<close>: climb to the deepest existing ancestor, then re-attach what was climbed over.\<close>

function canonLoop :: "fsenv \<Rightarrow> string \<Rightarrow> string list \<Rightarrow> path_error + string" where
  "canonLoop E current sfx =
     (case evalSymlinks E current of
        EvOk real \<Rightarrow> Inr (Clean (fold (\<lambda>s r. pathJoin [r, s]) sfx real))
      | EvError \<Rightarrow> Inl EvalError
      | EvNotExist \<Rightarrow>
          (let parent = pathDir current in
           if parent = current then Inl NotExist
           else canonLoop E parent (pathBase current # sfx)))"
  by pat_completeness auto
termination
  by (relation "measure (\<lambda>(E, current, sfx). climb current)") (auto intro: pathDir_climb)

declare canonLoop.simps [simp del]

definition CanonicalPath :: "fsenv \<Rightarrow> string \<Rightarrow> path_error + string" where
  "CanonicalPath E path =
     (case Abs E path of None \<Rightarrow> Inl AbsError | Some a \<Rightarrow> canonLoop E (Clean a) [])"

definition IsSubPath :: "string \<Rightarrow> string \<Rightarrow> bool" where
  "IsSubPath rootAbs targetAbs =
     (case Rel rootAbs targetAbs of
        None \<Rightarrow> False
      | Some rel \<Rightarrow> rel = DOT \<or> (\<not> HasPrefix rel DOTDOT \<and> rel \<noteq> DOTDOT))"

definition isSubPathFold :: "unicode_tables \<Rightarrow> string \<Rightarrow> string \<Rightarrow> bool" where
  "isSubPathFold U root target =
     (case Rel (ToLower U (Clean root)) (ToLower U (Clean target)) of
        None \<Rightarrow> False
      | Some rel \<Rightarrow> rel = DOT \<or> (rel \<noteq> DOTDOT \<and> \<not> HasPrefix rel (DOTDOT @ [SLASH])))"

definition isManagedRelative :: "unicode_tables \<Rightarrow> fsenv \<Rightarrow> string \<Rightarrow> string \<Rightarrow> bool" where
  "isManagedRelative U E root path =
     (case (Abs E root, Abs E path) of
        (Some rootAbs, Some pathAbs) \<Rightarrow>
          isSubPathFold U rootAbs pathAbs \<and>
          (case Rel rootAbs pathAbs of
             None \<Rightarrow> False
           | Some rel \<Rightarrow>
               (case SplitByte SLASH rel of
                  p0 # p1 # _ \<Rightarrow> EqualFold U p0 ''.codeagent'' \<and> EqualFold U p1 ''worktrees''
                | _ \<Rightarrow> False))
      | _ \<Rightarrow> False)"

definition isManagedRelativeCanonical :: "unicode_tables \<Rightarrow> fsenv \<Rightarrow> string \<Rightarrow> string \<Rightarrow> bool" where
  "isManagedRelativeCanonical U E root path =
     (case (CanonicalPath E root, CanonicalPath E path) of
        (Inr canonicalRoot, Inr canonicalPath) \<Rightarrow> isManagedRelative U E canonicalRoot canonicalPath
      | _ \<Rightarrow> False)"

datatype PathClass = PathInsideWorkspace | PathOutsideWorkspace | PathManagedWorktree

definition ClassifyPath :: "unicode_tables \<Rightarrow> fsenv \<Rightarrow> string \<Rightarrow> string \<Rightarrow> PathClass" where
  "ClassifyPath U E root target =
     (case CanonicalPath E root of
        Inl _ \<Rightarrow> PathOutsideWorkspace
      | Inr rootCanonical \<Rightarrow>
          (case CanonicalPath E target of
             Inl _ \<Rightarrow> PathOutsideWorkspace
           | Inr targetCanonical \<Rightarrow>
               if isManagedRelative U E root target \<or> isManagedRelative U E rootCanonical targetCanonical
               then PathManagedWorktree
               else if \<not> isSubPathFold U rootCanonical targetCanonical then PathOutsideWorkspace
               else PathInsideWorkspace))"

definition ShouldSkipName :: "string \<Rightarrow> bool" where
  "ShouldSkipName name =
     (name \<in> {''.git'', ''node_modules'', ''vendor'', ''.idea'', ''.vscode'', ''.DS_Store'', ''dist'',
              ''build'', ''.next''})"

definition ShouldSkipPath :: "unicode_tables \<Rightarrow> fsenv \<Rightarrow> string \<Rightarrow> string \<Rightarrow> bool" where
  "ShouldSkipPath U E root path =
     (isManagedRelative U E root path \<or> isManagedRelativeCanonical U E root path)"

datatype validate_error = ErrManagedWorktreeBoundary | EscapesWorkspace

definition ValidatePath :: "unicode_tables \<Rightarrow> fsenv \<Rightarrow> string \<Rightarrow> string \<Rightarrow> validate_error option" where
  "ValidatePath U E root target =
     (case ClassifyPath U E root target of
        PathInsideWorkspace \<Rightarrow> None
      | PathManagedWorktree \<Rightarrow> Some ErrManagedWorktreeBoundary
      | PathOutsideWorkspace \<Rightarrow> Some EscapesWorkspace)"

definition SamePath :: "unicode_tables \<Rightarrow> fsenv \<Rightarrow> string \<Rightarrow> string \<Rightarrow> bool" where
  "SamePath U E a b =
     (case (CanonicalPath E a, CanonicalPath E b) of
        (Inr ca, Inr cb) \<Rightarrow> EqualFold U (Clean ca) (Clean cb)
      | _ \<Rightarrow> False)"

definition ManagedWorktreesRelativeRoot :: string where
  "ManagedWorktreesRelativeRoot = ''.codeagent/worktrees''"

datatype managed_error = CanonError path_error | TargetEscapes

definition ValidateManagedTarget ::
  "unicode_tables \<Rightarrow> fsenv \<Rightarrow> string \<Rightarrow> string \<Rightarrow> managed_error option" where
  "ValidateManagedTarget U E projectRoot target =
     (case CanonicalPath E projectRoot of
        Inl e \<Rightarrow> Some (CanonError e)
      | Inr project \<Rightarrow>
          (case CanonicalPath E (pathJoin [project, ManagedWorktreesRelativeRoot]) of
             Inl e \<Rightarrow> Some (CanonError e)
           | Inr container \<Rightarrow>
               (case CanonicalPath E target of
                  Inl e \<Rightarrow> Some (CanonError e)
                | Inr resolvedTarget \<Rightarrow>
                    if \<not> isSubPathFold U project container \<or>
                       \<not> EqualFold U (pathDir resolvedTarget) container \<or>
                       EqualFold U resolvedTarget container
                    then Some TargetEscapes else None)))"

definition PathDepth :: "string \<Rightarrow> nat" where
  "PathDepth rel =
     (if rel = DOT \<or> rel = [] then 0 else length (filter (\<lambda>c. c = SLASH) rel) + 1)"

definition ResolveToolPath :: "string \<Rightarrow> string \<Rightarrow> string" where
  "ResolveToolPath rootAbs inputPath =
     (let clean = Clean inputPath in if IsAbs clean then clean else pathJoin [rootAbs, clean])"

text \<open>Component lists up to letter case, a file system with a link that leaves the workspace, and one in which everything exists.\<close>

abbreviation foldComps :: "string list \<Rightarrow> string list" where
  "foldComps cs \<equiv> map (map lowerByte) cs"

definition demoFS :: fsenv where
  "demoFS = \<lparr>cwd = Some ''/'', evalSymlinks =
     (\<lambda>p. if p = ''/w/link'' then EvOk ''/etc'' else if p \<in> set [''/'', ''/w'', ''/etc''] then EvOk p else EvNotExist)\<rparr>"

definition anyFS :: fsenv where
  "anyFS = \<lparr>cwd = Some ''/'', evalSymlinks = EvOk\<rparr>"

subsection \<open>Facts\<close>

lemma Join_append: "xs \<noteq> [] \<Longrightarrow> ys \<noteq> [] \<Longrightarrow> Join (xs @ ys) sep = Join xs sep @ sep @ Join ys sep"
proof (induction xs sep rule: Join.induct)
  case (2 w sep)
  then show ?case by (cases ys) auto
qed auto

lemma HasPrefix_Join_first:
  "plainComp c \<Longrightarrow> HasPrefix (Join (c # cs) [SLASH]) DOTDOT = HasPrefix c DOTDOT"
proof -
  assume c: "plainComp c"
  then obtain x xs where x: "c = x # xs" "x \<noteq> SLASH" by (cases c) (auto simp: plainComp_def)
  show ?thesis
  proof (cases xs)
    case Nil
    with x c show ?thesis by (cases cs) (auto simp: plainComp_def)
  next
    case (Cons y ys)
    with x show ?thesis by (cases cs) auto
  qed
qed

lemma Join_plain_not_up:
  "plainComp c \<Longrightarrow> Join (c # cs) [SLASH] \<noteq> DOTDOT \<and> \<not> HasPrefix (Join (c # cs) [SLASH]) (DOTDOT @ [SLASH]) \<and>
     Join (c # cs) [SLASH] \<noteq> DOT"
proof -
  assume c: "plainComp c"
  have ns: "SLASH \<notin> set c" "c \<noteq> []" "c \<noteq> DOT" "c \<noteq> DOTDOT" using c by (auto simp: plainComp_def)
  have split: "hd (SplitByte SLASH (Join (c # cs) [SLASH])) = c"
    using ns(1) by (cases cs) (auto simp: SplitByte_noSep SplitByte_sep)
  have "hd (SplitByte SLASH DOTDOT) = DOTDOT" "hd (SplitByte SLASH DOT) = DOT"
    "\<And>r. hd (SplitByte SLASH (DOTDOT @ [SLASH] @ r)) = DOTDOT"
    by (simp_all add: SplitByte_noSep)
  with split ns show ?thesis
    by (metis HasPrefix_take append_assoc)
qed

lemma Join_dots_up:
  "n > 0 \<Longrightarrow> Join (replicate n DOTDOT @ ts) [SLASH] = DOTDOT \<or>
     HasPrefix (Join (replicate n DOTDOT @ ts) [SLASH]) (DOTDOT @ [SLASH])"
  by (cases n; cases "replicate (n - 1) DOTDOT @ ts") auto

lemma Rel_abs_inside:
  assumes "IsAbs b" "IsAbs t"
  shows "(case Rel b t of None \<Rightarrow> False | Some rel \<Rightarrow> rel = DOT \<or> (rel \<noteq> DOTDOT \<and> \<not> HasPrefix rel (DOTDOT @ [SLASH])))
     \<longleftrightarrow> prefix (cleanComps b) (cleanComps t)"
proof (cases "prefix (cleanComps b) (cleanComps t)")
  case True
  let ?rest = "drop (length (cleanComps b)) (cleanComps t)"
  have d: "fst (dropCommon (cleanComps b) (cleanComps t)) = []" "snd (dropCommon (cleanComps b) (cleanComps t)) = ?rest"
    using True dropCommon_prefix dropCommon_rest by blast+
  show ?thesis
  proof (cases ?rest)
    case Nil
    with True have "cleanComps t = cleanComps b" by (auto simp: prefix_def)
    with True show ?thesis using Rel_abs [OF assms] by simp
  next
    case (Cons c cs)
    then have "c \<in> set (cleanComps t)" by (metis in_set_dropD list.set_intros(1))
    then have c: "plainComp c" using abs_comps_plain [OF assms(2)] by (simp add: list_all_iff)
    have ne: "cleanComps t \<noteq> cleanComps b" using Cons by auto
    have "Rel b t = Some (Join (c # cs) [SLASH])" unfolding Rel_abs [OF assms] d Cons using ne by simp
    with True Join_plain_not_up [OF c, of cs] show ?thesis by simp
  qed
next
  case False
  then have "length (fst (dropCommon (cleanComps b) (cleanComps t))) > 0" "cleanComps t \<noteq> cleanComps b"
    using dropCommon_prefix by auto
  note n = this
  define x where "x = Join (replicate (length (fst (dropCommon (cleanComps b) (cleanComps t)))) DOTDOT @
    snd (dropCommon (cleanComps b) (cleanComps t))) [SLASH]"
  have "Rel b t = Some x" unfolding Rel_abs [OF assms] x_def using n(2) by simp
  moreover have "x = DOTDOT \<or> HasPrefix x (DOTDOT @ [SLASH])" unfolding x_def using n(1) by (rule Join_dots_up)
  moreover have "x \<noteq> DOT" using calculation(2) by auto
  ultimately show ?thesis using False by simp
qed

text \<open>IsSubPath on absolute paths is containment of component lists, except that it also refuses a target whose first component below the root merely starts with two dots.\<close>

theorem IsSubPath_components:
  assumes "IsAbs root" "IsAbs target"
  shows "IsSubPath root target =
     (\<exists>rest. cleanComps target = cleanComps root @ rest \<and> (rest = [] \<or> HasPrefix (hd rest) DOTDOT = False))"
proof (cases "prefix (cleanComps root) (cleanComps target)")
  case True
  then obtain rest where r: "cleanComps target = cleanComps root @ rest" by (auto simp: prefix_def)
  have d: "fst (dropCommon (cleanComps root) (cleanComps target)) = []"
    "snd (dropCommon (cleanComps root) (cleanComps target)) = rest"
    using True dropCommon_prefix dropCommon_rest [OF True] r by auto
  show ?thesis
  proof (cases rest)
    case Nil
    with r show ?thesis by (simp add: IsSubPath_def Rel_abs [OF assms])
  next
    case (Cons c cs)
    then have c: "plainComp c" using r abs_comps_plain [OF assms(2)] by simp
    have "HasPrefix DOTDOT DOTDOT" by simp
    with r d Cons c HasPrefix_Join_first [OF c, of cs] Join_plain_not_up [OF c, of cs] show ?thesis
      by (auto simp: IsSubPath_def Rel_abs [OF assms])
  qed
next
  case False
  then have n: "length (fst (dropCommon (cleanComps root) (cleanComps target))) > 0" "cleanComps target \<noteq> cleanComps root"
    using dropCommon_prefix by auto
  have up: "HasPrefix s DOTDOT" if "HasPrefix s (DOTDOT @ [SLASH])" for s
    using that by (metis HasPrefix_iff append_prefixD)
  have "HasPrefix (Join (replicate (length (fst (dropCommon (cleanComps root) (cleanComps target)))) DOTDOT @
      snd (dropCommon (cleanComps root) (cleanComps target))) [SLASH]) DOTDOT"
    using Join_dots_up [OF n(1), of "snd (dropCommon (cleanComps root) (cleanComps target))"] up
    by (metis HasPrefix_iff prefix_order.refl)
  with n have "\<not> IsSubPath root target"
    using Join_dots_up [OF n(1), of "snd (dropCommon (cleanComps root) (cleanComps target))"]
    by (auto simp: IsSubPath_def Rel_abs [OF assms])
  moreover from False have "\<not> (\<exists>rest. cleanComps target = cleanComps root @ rest)" by (auto simp: prefix_def)
  ultimately show ?thesis by blast
qed

lemma lowerByte_special: "lowerByte c = SLASH \<longleftrightarrow> c = SLASH" "lowerByte c = CHR ''.'' \<longleftrightarrow> c = CHR ''.''"
proof -
  have "lowerByte c = d \<longleftrightarrow> c = d" if d: "of_char d < (0x41::nat)" for d
  proof (cases "byteIn 0x41 0x5A c")
    case True
    then have c: "0x41 \<le> (of_char c :: nat)" "(of_char c :: nat) \<le> 0x5A" by (auto simp: byteIn_def)
    then have "of_char (lowerByte c) = (of_char c + 32 :: nat)"
      using True by (simp add: lowerByte_def of_char_of)
    with c d have "lowerByte c \<noteq> d" by auto
    moreover from c d have "c \<noteq> d" by auto
    ultimately show ?thesis by simp
  next
    case False
    then show ?thesis by (simp add: lowerByte_def)
  qed
  then show "lowerByte c = SLASH \<longleftrightarrow> c = SLASH" "lowerByte c = CHR ''.'' \<longleftrightarrow> c = CHR ''.''" by simp_all
qed

lemma lowerByte_dot [simp]: "lowerByte CHR ''.'' = CHR ''.''"
  by (simp add: lowerByte_special)

lemma SplitByte_map: "SplitByte SLASH (map lowerByte s) = foldComps (SplitByte SLASH s)"
proof (induction s)
  case (Cons x s)
  obtain w ws where "SplitByte SLASH s = w # ws" using SplitByte_ne by (metis list.exhaust)
  with Cons show ?case by (auto simp: lowerByte_special)
qed simp

lemma lower_dots: "map lowerByte c = DOT \<longleftrightarrow> c = DOT" "map lowerByte c = DOTDOT \<longleftrightarrow> c = DOTDOT"
  by (auto simp: map_eq_Cons_conv lowerByte_special)

lemma pushComp_map: "pushComp r (map lowerByte c) (foldComps st) = foldComps (pushComp r c st)"
  by (cases st) (auto simp: pushComp_def lower_dots lowerByte_special)

lemma fold_push_map: "fold (pushComp r) (foldComps cs) (foldComps st) = foldComps (fold (pushComp r) cs st)"
  by (induction cs arbitrary: st) (auto simp: pushComp_map)

lemma IsAbs_map: "IsAbs (map lowerByte s) = IsAbs s"
  by (cases s) (auto simp: IsAbs_def lowerByte_special)

lemma cleanComps_map: "cleanComps (map lowerByte s) = foldComps (cleanComps s)"
  using fold_push_map [of "IsAbs s" "SplitByte SLASH s" "[]"]
  by (simp add: cleanComps_def SplitByte_map IsAbs_map rev_map)

lemma isASCII_Clean: "isASCII p \<Longrightarrow> isASCII (Clean p)"
proof -
  assume a: "isASCII p"
  have sub: "set (concat (SplitByte b s)) \<subseteq> set s" for b s
  proof (induction s)
    case (Cons x s)
    obtain w ws where "SplitByte b s = w # ws" using SplitByte_ne by (metis list.exhaust)
    with Cons show ?case by auto
  qed simp
  have push: "set (concat (pushComp r c st)) \<subseteq> set c \<union> set (concat st) \<union> {CHR ''.''}" for r c st
    by (cases st) (auto simp: pushComp_def)
  have fld: "set (concat (fold (pushComp r) cs st)) \<subseteq> set (concat cs) \<union> set (concat st) \<union> {CHR ''.''}" for r cs st
  proof (induction cs arbitrary: st)
    case (Cons c cs)
    from Cons [of "pushComp r c st"] push [of r c st] show ?case by (simp only: fold_simps concat.simps set_append) blast
  qed auto
  have join: "set (Join cs sep) \<subseteq> set (concat cs) \<union> set sep" for cs sep
    by (induction cs sep rule: Join.induct) auto
  have "set (concat (cleanComps p)) \<subseteq> set p \<union> {CHR ''.''}"
    using fld [of "IsAbs p" "SplitByte SLASH p" "[]"] sub [of SLASH p] by (auto simp: cleanComps_def)
  then have "set (Join (cleanComps p) [SLASH]) \<subseteq> set p \<union> {CHR ''.'', SLASH}"
    using join [of "cleanComps p" "[SLASH]"] by (simp del: set_concat) blast
  then have "set (Clean p) \<subseteq> set p \<union> {CHR ''.'', SLASH}"
    by (auto simp: Clean_def render_def)
  with a show ?thesis by (auto simp: isASCII_def list_all_iff)
qed

lemma isSubPathFold_components:
  assumes "IsAbs root" "IsAbs target" "isASCII root" "isASCII target"
  shows "isSubPathFold U root target = prefix (foldComps (cleanComps root)) (foldComps (cleanComps target))"
proof -
  have low: "ToLower U (Clean p) = map lowerByte (Clean p)" if "isASCII p" for p
    using isASCII_Clean [OF that] by (simp add: ToLower_def)
  have "IsAbs (map lowerByte (Clean root))" "IsAbs (map lowerByte (Clean target))"
    using assms by (simp_all add: IsAbs_map IsAbs_Clean)
  from Rel_abs_inside [OF this] show ?thesis
    unfolding isSubPathFold_def low [OF assms(3)] low [OF assms(4)] by (simp add: cleanComps_map cleanComps_Clean)
qed


lemma upToSlash_snoc: "SLASH \<notin> set c \<Longrightarrow> upToSlash (x @ [SLASH] @ c) = x @ [SLASH]"
proof -
  assume c: "SLASH \<notin> set c"
  have "dropWhile (\<lambda>c. c \<noteq> SLASH) (rev c @ SLASH # rev x) = SLASH # rev x"
    using c by (subst dropWhile_append2) auto
  then show ?thesis by (simp add: upToSlash_def)
qed

lemma pathBase_snoc: "SLASH \<notin> set c \<Longrightarrow> c \<noteq> [] \<Longrightarrow> pathBase (x @ [SLASH] @ c) = c"
proof -
  assume c: "SLASH \<notin> set c" "c \<noteq> []"
  then obtain c' l where l: "c = c' @ [l]" "l \<noteq> SLASH" by (metis append_butlast_last_id last_in_set)
  have "dropWhile (\<lambda>c. c = SLASH) (rev (x @ [SLASH] @ c)) = rev c @ SLASH # rev x" using l by simp
  moreover have "takeWhile (\<lambda>c. c \<noteq> SLASH) (rev c @ SLASH # rev x) = rev c"
    using c by (subst takeWhile_append2) auto
  ultimately show ?thesis using c by (simp add: pathBase_def Let_def)
qed

lemma cleanComps_abs: "IsAbs p \<Longrightarrow> list_all plainComp cs \<Longrightarrow> SplitByte SLASH p = [] # cs \<or> SplitByte SLASH p = [] # cs @ [[]] \<Longrightarrow> cleanComps p = cs"
  by (auto simp: cleanComps_def fold_push_plain pushComp_def)

lemma render_split:
  "render True (cs @ [c]) = (if cs = [] then [] else render True cs) @ [SLASH] @ c"
  by (simp add: render_def Join_append)

lemma noslash: "list_all plainComp cs \<Longrightarrow> list_all (\<lambda>c. SLASH \<notin> set c) cs"
  by (auto simp: list_all_iff plainComp_def)

lemma pathDir_render:
  assumes "list_all plainComp (cs @ [c])"
  shows "pathDir (render True (cs @ [c])) = render True cs" "pathBase (render True (cs @ [c])) = c"
    "render True (cs @ [c]) \<noteq> render True cs"
proof -
  have c: "SLASH \<notin> set c" "c \<noteq> []" and cs: "list_all plainComp cs" using assms by (auto simp: plainComp_def)
  show "pathBase (render True (cs @ [c])) = c" unfolding render_split using c by (rule pathBase_snoc)
  show "pathDir (render True (cs @ [c])) = render True cs"
  proof (cases "cs = []")
    case True
    then show ?thesis
      using upToSlash_snoc [OF c(1), of "[]"] by (simp add: pathDir_def render_def Clean_simple)
  next
    case False
    have "SplitByte SLASH (render True cs @ [SLASH]) = [] # cs @ [[]]"
      using SplitByte_Join [OF False noslash [OF cs]] by (simp add: SplitByte_snoc render_def)
    then have "cleanComps (render True cs @ [SLASH]) = cs"
      using cs by (intro cleanComps_abs) (auto simp: IsAbs_def render_def)
    moreover have "IsAbs (render True cs @ [SLASH])" by (simp add: IsAbs_def render_def)
    ultimately have "Clean (render True cs @ [SLASH]) = render True cs" by (simp add: Clean_def)
    with False show ?thesis unfolding pathDir_def render_split using upToSlash_snoc [OF c(1)] by simp
  qed
  have "length (render True (cs @ [c])) > length (render True cs)"
    using c by (cases "cs = []") (auto simp: render_split, auto simp: render_def)
  then show "render True (cs @ [c]) \<noteq> render True cs" by auto
qed

lemma canonLoop_resolves:
  "list_all plainComp cs \<Longrightarrow> canonLoop E (render True cs) sfx = Inr r \<Longrightarrow>
   \<exists>pre post real. cs = pre @ post \<and> evalSymlinks E (render True pre) = EvOk real \<and>
     r = Clean (fold (\<lambda>s r. pathJoin [r, s]) (post @ sfx) real) \<and>
     (\<forall>k. length pre < k \<and> k \<le> length cs \<longrightarrow> evalSymlinks E (render True (take k cs)) = EvNotExist)"
proof (induction cs arbitrary: sfx rule: rev_induct)
  case Nil
  have "pathDir (render True []) = render True []" by (simp add: render_def pathDir_def upToSlash_def Clean_simple)
  with Nil show ?case
    by (auto simp: canonLoop.simps [of E "render True []"] Let_def split: evalResult.splits)
next
  case (snoc c cs)
  note d = pathDir_render [OF snoc.prems(1)]
  show ?case
  proof (cases "evalSymlinks E (render True (cs @ [c]))")
    case (EvOk real)
    with snoc.prems(2) have "r = Clean (fold (\<lambda>s r. pathJoin [r, s]) sfx real)"
      by (simp add: canonLoop.simps del: pathJoin.simps)
    with EvOk show ?thesis
      by (intro exI [of _ "cs @ [c]"] exI [of _ "[]"] exI [of _ real] conjI allI impI)
         (auto simp del: pathJoin.simps)
  next
    case EvNotExist
    then have "canonLoop E (render True (cs @ [c])) sfx = canonLoop E (render True cs) (c # sfx)"
      using d by (simp add: canonLoop.simps [of E "render True (cs @ [c])"] Let_def)
    with snoc.prems(2) have "canonLoop E (render True cs) (c # sfx) = Inr r" by simp
    moreover have "list_all plainComp cs" using snoc.prems(1) by simp
    ultimately obtain pre post real where p: "cs = pre @ post" "evalSymlinks E (render True pre) = EvOk real"
      "r = Clean (fold (\<lambda>s r. pathJoin [r, s]) (post @ c # sfx) real)"
      "\<forall>k. length pre < k \<and> k \<le> length cs \<longrightarrow> evalSymlinks E (render True (take k cs)) = EvNotExist"
      using snoc.IH by blast
    have "evalSymlinks E (render True (take k (cs @ [c]))) = EvNotExist" if "length pre < k" "k \<le> length (cs @ [c])" for k
      using that p(4) EvNotExist by (cases "k \<le> length cs") (auto simp: not_le)
    with p show ?thesis
      by (intro exI [of _ pre] exI [of _ "post @ [c]"] exI [of _ real]) (simp del: pathJoin.simps)
  next
    case EvError
    with snoc.prems(2) show ?thesis by (simp add: canonLoop.simps)
  qed
qed

lemma pathJoin_plain:
  assumes "IsAbs r" "plainComp s"
  shows "IsAbs (pathJoin [r, s]) \<and> cleanComps (pathJoin [r, s]) = cleanComps r @ [s]"
proof -
  have r: "r \<noteq> []" using assms(1) by (auto simp: IsAbs_def)
  have a: "IsAbs (r @ SLASH # s)" using assms(1) by (cases r) (auto simp: IsAbs_def)
  have "SplitByte SLASH (x @ SLASH # s) = SplitByte SLASH x @ [s]" for x
  proof (induction x)
    case Nil
    then show ?case using assms(2) by (simp add: SplitByte_noSep plainComp_def)
  next
    case (Cons y x)
    obtain w ws where "SplitByte SLASH x = w # ws" using SplitByte_ne by (metis list.exhaust)
    with Cons show ?case by auto
  qed
  then have "cleanComps (r @ SLASH # s) = cleanComps r @ [s]"
    using a assms by (simp add: cleanComps_def pushComp_def plainComp_def)
  with r a show ?thesis by (simp add: IsAbs_Clean cleanComps_Clean)
qed

lemma fold_pathJoin:
  "IsAbs r \<Longrightarrow> list_all plainComp ss \<Longrightarrow>
   IsAbs (fold (\<lambda>s r. pathJoin [r, s]) ss r) \<and> cleanComps (fold (\<lambda>s r. pathJoin [r, s]) ss r) = cleanComps r @ ss"
proof (induction ss arbitrary: r)
  case (Cons s ss)
  then have "IsAbs (pathJoin [r, s])" "cleanComps (pathJoin [r, s]) = cleanComps r @ [s]"
    using pathJoin_plain [of r s] by auto
  with Cons show ?case by (simp del: pathJoin.simps)
qed simp

text \<open>Canonicalising an absolute path climbs to the deepest ancestor that exists, replaces exactly that ancestor by what its symbolic links resolve to, and re-attaches the remaining components unchanged; every longer prefix of the path does not exist. The hypothesis on links is the documented behaviour of filepath.EvalSymlinks on absolute paths.\<close>

theorem CanonicalPath_resolves:
  assumes "CanonicalPath E p = Inr c" "IsAbs p"
    and links_abs: "\<forall>q r. evalSymlinks E q = EvOk r \<longrightarrow> IsAbs r"
  shows "\<exists>pre post real. cleanComps p = pre @ post \<and> evalSymlinks E (render True pre) = EvOk real \<and>
     IsAbs c \<and> cleanComps c = cleanComps real @ post \<and>
     (\<forall>k. length pre < k \<and> k \<le> length (cleanComps p) \<longrightarrow>
        evalSymlinks E (render True (take k (cleanComps p))) = EvNotExist)"
proof -
  let ?cs = "cleanComps p"
  have plain: "list_all plainComp ?cs" using assms(2) by (rule abs_comps_plain)
  have "canonLoop E (render True ?cs) [] = Inr c"
    using assms(1,2) by (simp add: CanonicalPath_def Abs_def Clean_idem) (simp add: Clean_def)
  from canonLoop_resolves [OF plain this] obtain pre post real where
    r: "?cs = pre @ post" "evalSymlinks E (render True pre) = EvOk real"
      "c = Clean (fold (\<lambda>s r. pathJoin [r, s]) post real)"
      "\<forall>k. length pre < k \<and> k \<le> length ?cs \<longrightarrow> evalSymlinks E (render True (take k ?cs)) = EvNotExist"
    by auto
  have "list_all plainComp post" using plain unfolding r(1) by simp
  with fold_pathJoin [of real post] links_abs r(2) have "IsAbs c \<and> cleanComps c = cleanComps real @ post"
    unfolding r(3) IsAbs_Clean cleanComps_Clean by blast
  with r show ?thesis by blast
qed

theorem CanonicalPath_resolves_witness:
  "CanonicalPath demoFS ''/w/link/new'' = Inr ''/etc/new'' \<and>
   (\<exists>pre post real. cleanComps ''/w/link/new'' = pre @ post \<and> evalSymlinks demoFS (render True pre) = EvOk real \<and>
     cleanComps ''/etc/new'' = cleanComps real @ post)"
proof -
  have c: "CanonicalPath demoFS ''/w/link/new'' = Inr ''/etc/new''" by code_simp
  have "\<forall>q r. evalSymlinks demoFS q = EvOk r \<longrightarrow> IsAbs r"
    by (auto simp: demoFS_def IsAbs_def split: if_splits)
  from CanonicalPath_resolves [OF c _ this] c show ?thesis by (auto simp: IsAbs_def)
qed

theorem IsSubPath_components_witness:
  "IsSubPath ''/w'' ''/w/a/b'' \<and> \<not> IsSubPath ''/w'' ''/w/..data''"
proof -
  have "cleanComps ''/w'' = [''w'']" "cleanComps ''/w/a/b'' = [''w'', ''a'', ''b'']" "cleanComps ''/w/..data'' = [''w'', ''..data'']"
    by code_simp+
  with IsSubPath_components [of "''/w''" "''/w/a/b''"] IsSubPath_components [of "''/w''" "''/w/..data''"]
  show ?thesis by (simp add: IsAbs_def)
qed


text \<open>A path below a symbolic link that leaves the workspace is rejected, although its spelling is inside.\<close>

theorem symlink_escape_rejected:
  "ValidatePath asciiTables demoFS ''/w'' ''/w/link/new'' = Some EscapesWorkspace"
  by code_simp

text \<open>The managed-worktree test compares the root prefix case-sensitively after a case-insensitive containment test: the same managed directory, spelled with a different case of the root, is classified as an ordinary path of the workspace.\<close>

theorem managed_boundary_case_bypass:
  "ClassifyPath asciiTables anyFS ''/w/Proj'' ''/w/Proj/.codeagent/worktrees/x'' = PathManagedWorktree \<and>
   ClassifyPath asciiTables anyFS ''/w/Proj'' ''/w/proj/.codeagent/worktrees/x'' = PathInsideWorkspace"
  by code_simp

end
