(* ===== verification/Json.thy ===== *)
theory Json
  imports Go_Prelude
begin

section \<open>Tool arguments\<close>

text \<open>
  A \<^verbatim>\<open>json.RawMessage\<close> is represented by what \<^verbatim>\<open>encoding/json\<close> parses it to: \<open>None\<close> stands for text that is
  empty or not JSON.  Decoding into a struct follows \<^verbatim>\<open>json.Unmarshal\<close>: keys match a field up to case, the
  last occurrence wins, \<open>null\<close> leaves a field as it is, and a value of the wrong type is an error of
  the whole call.
\<close>

datatype json =
    JNull
  | JBool bool
  | JNumber string
  | JString string
  | JArray "json list"
  | JObject "(string \<times> json) list"

type_synonym raw_message = "json option"

fun stringFields :: "unicode_tables \<Rightarrow> string \<Rightarrow> string \<Rightarrow> (string \<times> json) list \<Rightarrow> string option" where
  "stringFields U name cur [] = Some cur"
| "stringFields U name cur ((k, v) # fs) =
     (if EqualFold U k name
      then (case v of
              JString s \<Rightarrow> stringFields U name s fs
            | JNull \<Rightarrow> stringFields U name cur fs
            | _ \<Rightarrow> None)
      else stringFields U name cur fs)"

fun boolFields :: "unicode_tables \<Rightarrow> string \<Rightarrow> bool \<Rightarrow> (string \<times> json) list \<Rightarrow> bool option" where
  "boolFields U name cur [] = Some cur"
| "boolFields U name cur ((k, v) # fs) =
     (if EqualFold U k name
      then (case v of
              JBool b \<Rightarrow> boolFields U name b fs
            | JNull \<Rightarrow> boolFields U name cur fs
            | _ \<Rightarrow> None)
      else boolFields U name cur fs)"

text \<open>One field of a struct: \<open>Unmarshal\<close> of \<open>null\<close> into a struct changes nothing, any other value that
  is not an object is an error.\<close>

definition unmarshalString :: "unicode_tables \<Rightarrow> string \<Rightarrow> raw_message \<Rightarrow> string option" where
  "unmarshalString U name raw =
     (case raw of
        None \<Rightarrow> None
      | Some JNull \<Rightarrow> Some []
      | Some (JObject fs) \<Rightarrow> stringFields U name [] fs
      | Some _ \<Rightarrow> None)"

definition unmarshalBool :: "unicode_tables \<Rightarrow> string \<Rightarrow> raw_message \<Rightarrow> bool option" where
  "unmarshalBool U name raw =
     (case raw of
        None \<Rightarrow> None
      | Some JNull \<Rightarrow> Some False
      | Some (JObject fs) \<Rightarrow> boolFields U name False fs
      | Some _ \<Rightarrow> None)"

text \<open>Decoding without looking at the error: what does not fit stays as it was.\<close>

fun looseFields :: "unicode_tables \<Rightarrow> string \<Rightarrow> string \<Rightarrow> (string \<times> json) list \<Rightarrow> string" where
  "looseFields U name cur [] = cur"
| "looseFields U name cur ((k, v) # fs) =
     looseFields U name (case v of JString s \<Rightarrow> if EqualFold U k name then s else cur | _ \<Rightarrow> cur) fs"

definition looseString :: "unicode_tables \<Rightarrow> string \<Rightarrow> raw_message \<Rightarrow> string" where
  "looseString U name raw = (case raw of Some (JObject fs) \<Rightarrow> looseFields U name [] fs | _ \<Rightarrow> [])"

end
