(* ===== verification/Approve.thy ===== *)
theory Approve
  imports Json Workspace "HOL-Library.Char_ord" "HOL-Library.List_Lexorder"
begin

section \<open>Permission rules, approval tiers and the approver chain\<close>

text \<open>
  \<^verbatim>\<open>internal/approve\<close> and \<^verbatim>\<open>internal/agent/permission.go\<close>.  A tool call with side effects is decided by a
  chain of approvers, normally the allow and deny rules, then the tier of the workspace, then the
  human.  The human at the end of the chain is a parameter; the settings files are an argument of the
  rule store; the file system is the environment of the workspace model.
\<close>

subsection \<open>Definitions\<close>

datatype Verdict = VerdictAllow | VerdictDeny | VerdictAsk

text \<open>\<open>matchGlob\<close>: the middle pieces are found leftmost, one after the other.\<close>

fun globMids :: "string \<Rightarrow> string list \<Rightarrow> string option" where
  "globMids name [] = Some name"
| "globMids name (mid # mids) =
     (case Index name mid of
        None \<Rightarrow> None
      | Some i \<Rightarrow> globMids (drop (i + length mid) name) mids)"

definition matchGlob :: "string \<Rightarrow> string \<Rightarrow> bool" where
  "matchGlob pattern name =
     (if pattern = ''*'' then True
      else if \<not> Contains pattern ''*'' then pattern = name
      else
        (let parts = SplitByte CHR ''*'' pattern in
         if \<not> HasPrefix name (hd parts) then False
         else
           (case globMids (drop (length (hd parts)) name) (butlast (tl parts)) of
              None \<Rightarrow> False
            | Some rest \<Rightarrow> HasSuffix rest (last parts))))"

text \<open>A Go map used as a set: the list is the order in which a \<open>range\<close> loop visits it.\<close>

definition insertKey :: "string \<Rightarrow> string list \<Rightarrow> string list" where
  "insertKey k m = (if k \<in> set m then m else m @ [k])"

definition deleteKey :: "string \<Rightarrow> string list \<Rightarrow> string list" where
  "deleteKey k m = filter (\<lambda>x. x \<noteq> k) m"

definition toSet :: "string list \<Rightarrow> string list" where
  "toSet items = fold (\<lambda>it m. if it \<noteq> [] then insertKey it m else m) items []"

definition matchSet :: "string list \<Rightarrow> string \<Rightarrow> string option" where
  "matchSet s name = find (\<lambda>p. matchGlob p name) s"

datatype Scope = ScopeProjectLocal | ScopeUser

definition ParseScope :: "string \<Rightarrow> Scope" where
  "ParseScope s = (if s = ''user'' then ScopeUser else ScopeProjectLocal)"

record RuleStore =
  allow :: "string list"
  deny :: "string list"
  yamlAllow :: "string list"
  yamlDeny :: "string list"
  projectLocalPath :: string
  userPath :: string

definition UserPath :: "string \<Rightarrow> string" where
  "UserPath home = (if home = [] then [] else pathJoin [home, ''.codeagent'', ''settings.json''])"

definition ProjectLocalPath :: "string \<Rightarrow> string" where
  "ProjectLocalPath root = (if root = [] then [] else pathJoin [root, ''.codeagent'', ''settings.local.json''])"

text \<open>The permissions of the merged settings view, as \<open>settings.Load\<close> returns it.\<close>

record settings_view =
  permAllow :: "string list"
  permDeny :: "string list"
  approvalMode :: string

definition NewRuleStore ::
  "string \<Rightarrow> string \<Rightarrow> settings_view \<Rightarrow> string list \<Rightarrow> string list \<Rightarrow> RuleStore" where
  "NewRuleStore root home merged ya yd =
     \<lparr>allow = fold insertKey (permAllow merged) (toSet ya),
      deny = fold insertKey (permDeny merged) (toSet yd),
      yamlAllow = toSet ya, yamlDeny = toSet yd,
      projectLocalPath = (if root \<noteq> [] then ProjectLocalPath root else []),
      userPath = (if home \<noteq> [] then UserPath home else [])\<rparr>"

definition Reconfigure :: "string list \<Rightarrow> string list \<Rightarrow> RuleStore \<Rightarrow> RuleStore" where
  "Reconfigure ya yd s =
     s\<lparr>allow := fold insertKey (toSet ya) (fold deleteKey (yamlAllow s) (allow s)),
       deny := fold insertKey (toSet yd) (fold deleteKey (yamlDeny s) (deny s)),
       yamlAllow := toSet ya, yamlDeny := toSet yd\<rparr>"

text \<open>\<open>Fingerprint\<close>: the digest (SHA-256 of the JSON text) of the two sorted rule lists.\<close>

definition Fingerprint :: "(string list list \<Rightarrow> string) \<Rightarrow> RuleStore \<Rightarrow> string" where
  "Fingerprint digest s = digest [sort (allow s), sort (deny s)]"

definition MatchDeny :: "RuleStore \<Rightarrow> string \<Rightarrow> string option" where
  "MatchDeny s name = matchSet (deny s) name"

definition MatchAllow :: "RuleStore \<Rightarrow> string \<Rightarrow> string option" where
  "MatchAllow s name = matchSet (allow s) name"

definition pathFor :: "RuleStore \<Rightarrow> Scope \<Rightarrow> string" where
  "pathFor s scope =
     (if scope = ScopeUser then userPath s
      else if projectLocalPath s \<noteq> [] then projectLocalPath s
      else userPath s)"

text \<open>\<open>patternFor\<close>: the whole server for an MCP tool, the exact name otherwise.\<close>

definition patternFor :: "string \<Rightarrow> string" where
  "patternFor toolName =
     (if HasPrefix toolName ''mcp__''
      then (let rest = drop (length ''mcp__'') toolName in
            case Index rest ''__'' of
              Some i \<Rightarrow> ''mcp__'' @ take i rest @ ''__*''
            | None \<Rightarrow> toolName)
      else toolName)"

text \<open>\<open>Grant\<close> and \<open>GrantTool\<close>.  \<open>persist path pattern\<close> is the outcome of writing the settings file,
  \<open>None\<close> for success; the second component is the error, the third whether the file was written.\<close>

definition Grant ::
  "(string \<Rightarrow> string \<Rightarrow> string option) \<Rightarrow> string \<Rightarrow> Scope \<Rightarrow> RuleStore \<Rightarrow> RuleStore \<times> string option \<times> bool" where
  "Grant persist pattern scope s =
     (let existed = pattern \<in> set (allow s);
          path = pathFor s scope;
          s' = s\<lparr>allow := insertKey pattern (allow s)\<rparr>
      in if existed \<or> path = [] then (s', None, False) else (s', persist path pattern, True))"

definition GrantTool ::
  "(string \<Rightarrow> string \<Rightarrow> string option) \<Rightarrow> string \<Rightarrow> Scope \<Rightarrow> RuleStore \<Rightarrow> RuleStore \<times> (string + string)" where
  "GrantTool persist toolName scope s =
     (case Grant persist (patternFor toolName) scope s of
        (s', Some err, _) \<Rightarrow> (s', Inl err)
      | (s', None, _) \<Rightarrow> (s', Inr (patternFor toolName)))"

definition AllowAlways ::
  "(string \<Rightarrow> string \<Rightarrow> string option) \<Rightarrow> string \<Rightarrow> RuleStore \<Rightarrow> RuleStore \<times> (string + string)" where
  "AllowAlways persist toolName s = GrantTool persist toolName ScopeProjectLocal s"

text \<open>The tier is a string on the wire and a small number in the approver.\<close>

definition ModeAsk :: string where "ModeAsk = ''ask''"
definition ModeAuto :: string where "ModeAuto = ''auto''"
definition ModeFull :: string where "ModeFull = ''full''"

definition ValidMode :: "string \<Rightarrow> bool" where
  "ValidMode m = (m \<in> {ModeAsk, ModeAuto, ModeFull})"

definition ParseMode :: "string \<Rightarrow> string \<times> bool" where
  "ParseMode s =
     (if s \<in> {ModeAsk, ModeAuto, ModeFull} then (s, True)
      else if s = ''full_access'' then (ModeFull, True)
      else (ModeAsk, False))"

definition ModeFromSettings :: "settings_view \<Rightarrow> string" where
  "ModeFromSettings s = (case ParseMode (approvalMode s) of (m, True) \<Rightarrow> m | _ \<Rightarrow> ModeAsk)"

definition storeMode :: "string \<Rightarrow> nat" where
  "storeMode m = (if m = ModeAuto then 1 else if m = ModeFull then 2 else 0)"

definition loadMode :: "nat \<Rightarrow> string" where
  "loadMode n = (if n = 1 then ModeAuto else if n = 2 then ModeFull else ModeAsk)"

definition decodePath :: "unicode_tables \<Rightarrow> raw_message \<Rightarrow> string option" where
  "decodePath U input = unmarshalString U ''path'' input"

definition decodeCommand :: "unicode_tables \<Rightarrow> raw_message \<Rightarrow> string option" where
  "decodeCommand U input =
     (case unmarshalString U ''command'' input of
        None \<Rightarrow> None
      | Some c \<Rightarrow> if c \<noteq> [] then Some c else None)"

definition insideRoot :: "unicode_tables \<Rightarrow> fsenv \<Rightarrow> string \<Rightarrow> string \<Rightarrow> bool" where
  "insideRoot U E root path =
     (if root = [] \<or> path = [] then False
      else
        (case Abs E (pathJoin [root, Clean path]) of
           None \<Rightarrow> False
         | Some target \<Rightarrow> ValidatePath U E root target = None))"

definition writeTools :: "string list" where
  "writeTools = [''edit_file'', ''create_file'', ''insert_file'']"

definition autoApproveTier ::
  "unicode_tables \<Rightarrow> fsenv \<Rightarrow> string \<Rightarrow> string \<Rightarrow> raw_message \<Rightarrow> string option" where
  "autoApproveTier U E root toolName input =
     (if toolName \<in> set writeTools
      then (case decodePath U input of
              None \<Rightarrow> None
            | Some path \<Rightarrow>
                if \<not> insideRoot U E root path then None
                else if IsPathProtected U path (ProtectedPaths U []) then None
                else Some (''approval mode auto: in-workspace '' @ toolName @ '' '' @ path))
      else if toolName = ''apply_patch'' then Some ''approval mode auto: in-workspace apply_patch''
      else if toolName = ''git_commit'' then Some ''approval mode auto: in-workspace git_commit''
      else if toolName = ''run_command''
      then (case decodeCommand U input of
              None \<Rightarrow> None
            | Some cmd \<Rightarrow>
                if IsNetworkCommand cmd then None
                else Some (''approval mode auto: in-workspace command '' @ cmd))
      else if HasPrefix toolName ''mcp__'' then Some (''approval mode auto: mcp tool '' @ toolName)
      else None)"

definition fullApprove :: "unicode_tables \<Rightarrow> string \<Rightarrow> raw_message \<Rightarrow> string option" where
  "fullApprove U toolName input =
     (if toolName \<in> set writeTools \<and>
         (case decodePath U input of None \<Rightarrow> False | Some path \<Rightarrow> IsPathProtected U path (ProtectedPaths U []))
      then None
      else Some (''approval mode full: '' @ toolName))"

definition modeApprove ::
  "unicode_tables \<Rightarrow> fsenv \<Rightarrow> nat \<Rightarrow> string \<Rightarrow> string \<Rightarrow> raw_message \<Rightarrow> string option" where
  "modeApprove U E mode root toolName input =
     (if loadMode mode = ModeAuto then autoApproveTier U E root toolName input
      else if loadMode mode = ModeFull then fullApprove U toolName input
      else None)"

text \<open>The policy of \<open>AutoApprover\<close>.\<close>

definition autoApprove ::
  "unicode_tables \<Rightarrow> fsenv \<Rightarrow> string \<Rightarrow> string \<Rightarrow> raw_message \<Rightarrow> string option" where
  "autoApprove U E root toolName input =
     (if toolName \<in> set writeTools
      then (case decodePath U input of
              None \<Rightarrow> None
            | Some path \<Rightarrow>
                if path = [] then None
                else if \<not> insideRoot U E root path then None
                else if IsPathProtected U path (ProtectedPaths U []) then None
                else Some (''workspace-internal write: '' @ path))
      else None)"

datatype PlanDecision = PlanApproved | PlanRejected

text \<open>A terminal approver: it answers tool calls and, when it implements the optional interfaces,
  plans and paths outside the workspace.\<close>

record 'plan human =
  hApprove :: "string \<Rightarrow> raw_message \<Rightarrow> Verdict"
  hPlan :: "('plan \<Rightarrow> PlanDecision) option"
  hPath :: "(string \<Rightarrow> string \<Rightarrow> bool) option"

text \<open>The approvers of the chain.  \<open>ModeApprover\<close> keeps its tier, the root, the next approver and a
  plan approver of its own, either of which may be missing.\<close>

datatype 'plan approver =
    Allowlist RuleStore "'plan approver"
  | ModeApprover nat string "'plan approver option" "('plan \<Rightarrow> PlanDecision) option"
  | AutoApprover string "'plan approver" bool
  | Human "'plan human"

definition Allowlisted :: "RuleStore option \<Rightarrow> 'plan approver option \<Rightarrow> 'plan approver option" where
  "Allowlisted store nxt =
     (case (store, nxt) of (Some s, Some n) \<Rightarrow> Some (Allowlist s n) | _ \<Rightarrow> nxt)"

definition NewModeApprover :: "string \<Rightarrow> string \<Rightarrow> 'plan approver option \<Rightarrow> 'plan approver" where
  "NewModeApprover mode root nxt = ModeApprover (storeMode mode) root nxt None"

definition NewAutoApprover :: "fsenv \<Rightarrow> string \<Rightarrow> 'plan approver \<Rightarrow> bool \<Rightarrow> 'plan approver" where
  "NewAutoApprover E workspaceRoot hum enabled =
     AutoApprover (case Abs E workspaceRoot of Some r \<Rightarrow> r | None \<Rightarrow> workspaceRoot) hum enabled"

text \<open>\<open>ApproveAudited\<close> of each approver.  A terminal approver has no audit: its verdict comes with an
  empty reason, as in the callers that find the optional interface missing.\<close>

primrec ApproveAudited ::
  "unicode_tables \<Rightarrow> fsenv \<Rightarrow> 'plan approver \<Rightarrow> string \<Rightarrow> raw_message \<Rightarrow> Verdict \<times> string" where
  "ApproveAudited U E (Allowlist s nxt) toolName input =
     (case MatchDeny s toolName of
        Some _ \<Rightarrow> (VerdictDeny, [])
      | None \<Rightarrow>
          (case MatchAllow s toolName of
             Some pattern \<Rightarrow> (VerdictAllow, ''auto-approved by permission rule '' @ pattern)
           | None \<Rightarrow> ApproveAudited U E nxt toolName input))"
| "ApproveAudited U E (ModeApprover mode root nxt plan) toolName input =
     (case modeApprove U E mode root toolName input of
        Some reason \<Rightarrow> (VerdictAllow, reason)
      | None \<Rightarrow>
          (case map_option (\<lambda>n. ApproveAudited U E n toolName input) nxt of
             None \<Rightarrow> (VerdictDeny, [])
           | Some v \<Rightarrow> v))"
| "ApproveAudited U E (AutoApprover root hum enabled) toolName input =
     (if \<not> enabled then (fst (ApproveAudited U E hum toolName input), [])
      else
        (case autoApprove U E root toolName input of
           Some reason \<Rightarrow> (VerdictAllow, reason)
         | None \<Rightarrow> (fst (ApproveAudited U E hum toolName input), [])))"
| "ApproveAudited U E (Human h) toolName input = (hApprove h toolName input, [])"

text \<open>Finding and flipping the tier or the auto switch through the decorators.\<close>

fun SetModeIn :: "string \<Rightarrow> 'plan approver \<Rightarrow> 'plan approver option" where
  "SetModeIn m (ModeApprover mode root nxt plan) = Some (ModeApprover (storeMode m) root nxt plan)"
| "SetModeIn m (Allowlist s nxt) = map_option (Allowlist s) (SetModeIn m nxt)"
| "SetModeIn m _ = None"

fun ModeFrom :: "'plan approver \<Rightarrow> string option" where
  "ModeFrom (ModeApprover mode root nxt plan) = Some (loadMode mode)"
| "ModeFrom (Allowlist s nxt) = ModeFrom nxt"
| "ModeFrom _ = None"

fun AutoApproverFrom :: "'plan approver \<Rightarrow> bool option" where
  "AutoApproverFrom (AutoApprover root hum enabled) = Some enabled"
| "AutoApproverFrom (Allowlist s nxt) = AutoApproverFrom nxt"
| "AutoApproverFrom _ = None"

text \<open>\<open>ApprovePlan\<close> and \<open>ApproveExternalPath\<close> of the tier.  Of the approvers that can follow, the tier
  itself and some terminal ones implement the optional interfaces.\<close>

fun ApprovePlan :: "'plan approver \<Rightarrow> 'plan \<Rightarrow> PlanDecision option" where
  "ApprovePlan (ModeApprover mode root nxt plan) pl =
     (if loadMode mode = ModeAuto \<or> loadMode mode = ModeFull then Some PlanApproved
      else
        (case plan of
           Some p \<Rightarrow> Some (p pl)
         | None \<Rightarrow>
             (case nxt of
                None \<Rightarrow> Some PlanRejected
              | Some n \<Rightarrow> (case ApprovePlan n pl of Some d \<Rightarrow> Some d | None \<Rightarrow> Some PlanRejected))))"
| "ApprovePlan (Human h) pl = map_option (\<lambda>f. f pl) (hPlan h)"
| "ApprovePlan _ pl = None"

fun ApproveExternalPath :: "unicode_tables \<Rightarrow> 'plan approver \<Rightarrow> string \<Rightarrow> string \<Rightarrow> bool option" where
  "ApproveExternalPath U (ModeApprover mode root nxt plan) absolutePath op =
     (if loadMode mode = ModeFull then Some (\<not> IsPathProtected U absolutePath (ProtectedPaths U []))
      else
        (case nxt of
           None \<Rightarrow> Some False
         | Some n \<Rightarrow> (case ApproveExternalPath U n absolutePath op of Some b \<Rightarrow> Some b | None \<Rightarrow> Some False)))"
| "ApproveExternalPath U (Human h) absolutePath op = map_option (\<lambda>f. f absolutePath op) (hPath h)"
| "ApproveExternalPath U _ absolutePath op = None"

text \<open>The runner: what \<open>approve\<close> and \<open>planFileWriteAllowed\<close> of \<^verbatim>\<open>permission.go\<close> read, and the audit
  events it has emitted.\<close>

datatype PlanStatus =
    PlanStatusNone | PlanStatusPlanning | PlanStatusProposing | PlanStatusApproved
  | PlanStatusRejected | PlanStatusExecuting

record audit_event =
  evToolName :: string
  evToolArgs :: raw_message
  evText :: string

record 'plan Runner =
  PlanState :: PlanStatus
  WorkspaceRoot :: string
  Approver :: "'plan approver option"
  emitted :: "audit_event list"

definition emitAudit :: "string \<Rightarrow> raw_message \<Rightarrow> string \<Rightarrow> 'plan Runner \<Rightarrow> 'plan Runner" where
  "emitAudit toolName input text r =
     r\<lparr>emitted := emitted r @ [\<lparr>evToolName = toolName, evToolArgs = input, evText = text\<rparr>]\<rparr>"

definition planFileWriteAllowed ::
  "unicode_tables \<Rightarrow> fsenv \<Rightarrow> 'plan Runner \<Rightarrow> string \<Rightarrow> raw_message \<Rightarrow> bool" where
  "planFileWriteAllowed U E r toolName input =
     (if PlanState r \<noteq> PlanStatusPlanning \<or> (toolName \<noteq> ''create_file'' \<and> toolName \<noteq> ''edit_file'') \<or>
         WorkspaceRoot r = []
      then False
      else
        (case unmarshalString U ''path'' input of
           None \<Rightarrow> False
         | Some path \<Rightarrow>
             if TrimSpace path = [] \<or> IsAbs path then False
             else
               (let clean = Clean path in
                if pathExt clean \<noteq> ''.md'' then False
                else
                  (case Abs E (WorkspaceRoot r) of
                     None \<Rightarrow> False
                   | Some root \<Rightarrow>
                       (case CanonicalPath E (pathJoin [root, ''.codeagent'', ''plans'']) of
                          Inl _ \<Rightarrow> False
                        | Inr plansDir \<Rightarrow>
                            (case CanonicalPath E (pathJoin [root, clean]) of
                               Inl _ \<Rightarrow> False
                             | Inr target \<Rightarrow>
                                 if target = plansDir then False
                                 else IsSubPath plansDir target \<and>
                                      ClassifyPath U E root target = PathInsideWorkspace))))))"

definition approve ::
  "unicode_tables \<Rightarrow> fsenv \<Rightarrow> string \<Rightarrow> raw_message \<Rightarrow> 'plan Runner \<Rightarrow> Verdict \<times> 'plan Runner" where
  "approve U E toolName input r =
     (if planFileWriteAllowed U E r toolName input
      then (VerdictAllow,
            emitAudit toolName input ''plan mode: workspace-local .codeagent/plans markdown write'' r)
      else
        (case Approver r of
           None \<Rightarrow> (VerdictDeny, r)
         | Some a \<Rightarrow>
             (let (verdict, autoReason) = ApproveAudited U E a toolName input in
              (verdict,
               if verdict = VerdictAllow \<and> autoReason \<noteq> []
               then emitAudit toolName input autoReason r else r))))"

text \<open>Specification vocabulary: globs by recursion on the pattern, the pieces after the first star, approver chains whose humans never allow a call, and sample data.\<close>

fun globMatch :: "string \<Rightarrow> string \<Rightarrow> bool" where
  "globMatch [] name = (name = [])"
| "globMatch (c # p) name =
     (if c = CHR ''*'' then list_ex (globMatch p) (suffixes name)
      else (case name of [] \<Rightarrow> False | d # rest \<Rightarrow> c = d \<and> globMatch p rest))"

fun globTail :: "string list \<Rightarrow> string \<Rightarrow> bool" where
  "globTail [] name = False"
| "globTail [l] name = HasSuffix name l"
| "globTail (m # ms) name =
     (case Index name m of None \<Rightarrow> False | Some i \<Rightarrow> globTail ms (drop (i + length m) name))"

primrec unattended :: "'plan approver \<Rightarrow> bool" where
  "unattended (Allowlist s nxt) = unattended nxt"
| "unattended (ModeApprover mode root nxt plan) = (case map_option unattended nxt of None \<Rightarrow> True | Some b \<Rightarrow> b)"
| "unattended (AutoApprover root hum enabled) = (unattended hum \<and> (\<exists>h. hum = Human h))"
| "unattended (Human h) = (\<forall>t i. hApprove h t i \<noteq> VerdictAllow)"

definition demoHuman :: "unit human" where
  "demoHuman = \<lparr>hApprove = (\<lambda>t i. VerdictDeny), hPlan = None, hPath = None\<rparr>"

definition demoPath :: "string \<Rightarrow> raw_message" where
  "demoPath p = Some (JObject [(''path'', JString p)])"

definition demoStore :: RuleStore where
  "demoStore = NewRuleStore ''/w'' ''/home'' \<lparr>permAllow = [''mcp__gh__*''], permDeny = [''mcp__gh__delete''], approvalMode = ''auto''\<rparr> [] []"

definition demoRunner :: "unit Runner" where
  "demoRunner = \<lparr>PlanState = PlanStatusPlanning, WorkspaceRoot = ''/w'',
     Approver = Some (Allowlist demoStore (NewModeApprover ModeAuto ''/w'' (Some (Human demoHuman)))), emitted = []\<rparr>"

subsection \<open>Facts\<close>

lemma Index_HasPrefix: "Index s p = Some i \<Longrightarrow> HasPrefix (drop i s) p"
  by (induction s p arbitrary: i rule: Index.induct) (auto split: if_splits)

lemma Index_leftmost: "Index s p = Some i \<Longrightarrow> j < i \<Longrightarrow> \<not> HasPrefix (drop j s) p"
proof (induction s p arbitrary: i j rule: Index.induct)
  case (2 c s p)
  then show ?case by (cases j) (auto split: if_splits)
qed (simp split: if_splits)

lemma globMatch_star: "globMatch (CHR ''*'' # p) name \<longleftrightarrow> (\<exists>t. suffix t name \<and> globMatch p t)"
  by (simp add: list_ex_iff Bex_def)

lemma globMatch_lit:
  "CHR ''*'' \<notin> set l \<Longrightarrow> globMatch (l @ p) name \<longleftrightarrow> HasPrefix name l \<and> globMatch p (drop (length l) name)"
proof (induction l arbitrary: name)
  case (Cons c l)
  then show ?case by (cases name) auto
qed simp

lemma globMatch_star_mono:
  "globMatch (CHR ''*'' # p) t \<Longrightarrow> suffix t name \<Longrightarrow> globMatch (CHR ''*'' # p) name"
  unfolding globMatch_star using suffix_order.trans by blast

lemma globTail_mids:
  "ps \<noteq> [] \<Longrightarrow> globTail ps name =
     (case globMids name (butlast ps) of None \<Rightarrow> False | Some rest \<Rightarrow> HasSuffix rest (last ps))"
  by (induction ps name rule: globTail.induct) (auto split: option.splits)

lemma globMatch_tail:
  "ps \<noteq> [] \<Longrightarrow> list_all (\<lambda>w. CHR ''*'' \<notin> set w) ps \<Longrightarrow>
   globMatch (CHR ''*'' # Join ps ''*'') name = globTail ps name"
proof (induction ps name rule: globTail.induct)
  case (2 l name)
  have "globMatch l t = (t = l)" for t
    using globMatch_lit [of l "[]" t] 2 by (auto simp: go_sub prefix_def)
  then show ?case by (simp add: globMatch_star HasSuffix_iff del: globMatch.simps)
next
  case (3 m m' ms name)
  let ?q = "CHR ''*'' # Join (m' # ms) ''*''"
  have lit: "globMatch (Join (m # m' # ms) ''*'') t \<longleftrightarrow> HasPrefix t m \<and> globMatch ?q (drop (length m) t)" for t
    using globMatch_lit [of m ?q t] 3 by (simp del: globMatch.simps)
  have glob: "globMatch (CHR ''*'' # Join (m # m' # ms) ''*'') name \<longleftrightarrow>
      (\<exists>t. suffix t name \<and> HasPrefix t m \<and> globMatch ?q (drop (length m) t))"
    unfolding globMatch_star lit by blast
  show ?case
  proof (cases "Index name m")
    case None
    then have "\<not> sublist m name" by (simp add: Index_None)
    then have "\<not> (\<exists>t. suffix t name \<and> HasPrefix t m)"
      by (auto simp: HasPrefix_iff sublist_def suffix_def prefix_def)
    with None glob show ?thesis by (auto simp del: globMatch.simps)
  next
    case (Some i)
    have step: "globMatch ?q (drop (i + length m) name) = globTail (m' # ms) (drop (i + length m) name)"
      using "3.IH" [OF Some] "3.prems" by simp
    have "(\<exists>t. suffix t name \<and> HasPrefix t m \<and> globMatch ?q (drop (length m) t)) \<longleftrightarrow>
        globMatch ?q (drop (i + length m) name)"
    proof
      assume "\<exists>t. suffix t name \<and> HasPrefix t m \<and> globMatch ?q (drop (length m) t)"
      then obtain t where t: "suffix t name" "HasPrefix t m" "globMatch ?q (drop (length m) t)" by blast
      obtain zs where z: "name = zs @ t" using t(1) by (auto simp: suffix_def)
      define k where "k = length zs"
      have k: "t = drop k name" using z k_def by simp
      have "i \<le> k" using Index_leftmost [OF Some] t(2) k by (meson not_less)
      then have "drop (length m) t = drop (k - i) (drop (i + length m) name)"
        unfolding k by (simp add: add.commute)
      then have "suffix (drop (length m) t) (drop (i + length m) name)" by (metis suffix_drop)
      with t(3) show "globMatch ?q (drop (i + length m) name)" by (rule globMatch_star_mono)
    next
      assume "globMatch ?q (drop (i + length m) name)"
      then show "\<exists>t. suffix t name \<and> HasPrefix t m \<and> globMatch ?q (drop (length m) t)"
        using Index_HasPrefix [OF Some]
        by (intro exI [of _ "drop i name"]) (simp add: suffix_drop add.commute del: globMatch.simps)
    qed
    with Some glob step show ?thesis by simp
  qed
qed simp

lemma globMatch_noStar: "CHR ''*'' \<notin> set p \<Longrightarrow> globMatch p name = (p = name)"
  using globMatch_lit [of p "[]" name] by (auto simp: HasPrefix_iff prefix_def)

lemma matchGlob_glob: "matchGlob pattern name = globMatch pattern name"
proof -
  consider "pattern = ''*''" | "CHR ''*'' \<notin> set pattern" | "pattern \<noteq> ''*''" "CHR ''*'' \<in> set pattern" by blast
  then show ?thesis
  proof cases
    case 1
    then show ?thesis by (simp add: matchGlob_def globMatch_star del: globMatch.simps(2))
  next
    case 2
    then have "\<not> Contains pattern ''*''" by (auto simp: Contains_iff sublist_def)
    with 2 show ?thesis by (auto simp: matchGlob_def globMatch_noStar)
  next
    case 3
    then have c: "Contains pattern ''*''" by (auto simp: Contains_iff sublist_def in_set_conv_decomp)
    obtain w ps where sp: "SplitByte CHR ''*'' pattern = w # ps" using SplitByte_ne by (metis list.exhaust)
    have all: "list_all (\<lambda>v. CHR ''*'' \<notin> set v) (w # ps)"
      using SplitByte_comp [of _ "CHR ''*''" pattern] sp by (auto simp: list_all_iff)
    have j: "Join (w # ps) ''*'' = pattern" using Join_SplitByte [of "CHR ''*''" pattern] sp by simp
    have ne: "ps \<noteq> []" using j all 3 by (cases ps) auto
    have p: "pattern = w @ CHR ''*'' # Join ps ''*''" using j ne by (cases ps) auto
    have "globMatch pattern name \<longleftrightarrow> HasPrefix name w \<and> globTail ps (drop (length w) name)"
      unfolding p using globMatch_lit [of w "CHR ''*'' # Join ps ''*''" name] globMatch_tail [OF ne] all
      by (simp del: globMatch.simps)
    moreover have "last (w # ps) = last ps" using ne by simp
    ultimately show ?thesis using 3 c ne
      unfolding matchGlob_def sp Let_def list.sel globTail_mids [OF ne] by (simp only:) simp
  qed
qed

lemma globMatch_refl: "globMatch p p"
proof (induction p)
  case (Cons c p)
  have "suffix p (c # p)" by (simp add: suffix_Cons)
  with Cons show ?case by (cases "c = CHR ''*''") (auto simp: globMatch_star simp del: globMatch.simps(2), simp_all)
qed simp

lemma set_insertKey [simp]: "set (insertKey k m) = insert k (set m)"
  by (auto simp: insertKey_def)

lemma set_deleteKey [simp]: "set (deleteKey k m) = set m - {k}"
  by (auto simp: deleteKey_def)

lemma set_fold_insertKey [simp]: "set (fold insertKey ks m) = set ks \<union> set m"
  by (induction ks arbitrary: m) auto

lemma set_fold_deleteKey [simp]: "set (fold deleteKey ks m) = set m - set ks"
  by (induction ks arbitrary: m) auto

lemma set_toSet [simp]: "set (toSet items) = set items - {[]}"
proof -
  have "set (fold (\<lambda>it m. if it \<noteq> [] then insertKey it m else m) items m) = (set items - {[]}) \<union> set m" for m
    by (induction items arbitrary: m) auto
  then show ?thesis by (simp add: toSet_def)
qed

lemma matchSet_None: "matchSet s name = None \<longleftrightarrow> \<not> list_ex (\<lambda>p. matchGlob p name) s"
  by (auto simp: matchSet_def find_None_iff list_ex_iff)

lemma matchSet_Some: "matchSet s name = Some p \<Longrightarrow> p \<in> set s \<and> matchGlob p name"
  by (auto simp: matchSet_def find_Some_iff)

lemma distinct_insertKey: "distinct m \<Longrightarrow> distinct (insertKey k m)"
  by (auto simp: insertKey_def)

text \<open>The tiers and the older switch share one contract: a granted call carries a reason, and a write
  tool is never granted on a protected path.\<close>

locale auto_policy =
  fixes U :: unicode_tables
    and grants :: "string \<Rightarrow> raw_message \<Rightarrow> string option"
  assumes reason: "grants t i = Some r \<Longrightarrow> r \<noteq> []"
    and unprotected:
      "t \<in> set writeTools \<Longrightarrow> decodePath U i = Some p \<Longrightarrow> IsPathProtected U p (ProtectedPaths U []) \<Longrightarrow>
       grants t i = None"
begin

definition decorated :: "(string \<Rightarrow> raw_message \<Rightarrow> Verdict \<times> string) \<Rightarrow> string \<Rightarrow> raw_message \<Rightarrow> Verdict \<times> string" where
  "decorated nxt t i = (case grants t i of Some r \<Rightarrow> (VerdictAllow, r) | None \<Rightarrow> nxt t i)"

lemma decorated_protected:
  "t \<in> set writeTools \<Longrightarrow> decodePath U i = Some p \<Longrightarrow> IsPathProtected U p (ProtectedPaths U []) \<Longrightarrow>
   decorated nxt t i = nxt t i"
  by (simp add: decorated_def unprotected)

lemma decorated_silent: "decorated nxt t i = (v, []) \<Longrightarrow> nxt t i = (v, [])"
  using reason by (auto simp: decorated_def split: option.splits)

end

lemma autoApproveTier_protected:
  "t \<in> set writeTools \<Longrightarrow> decodePath U i = Some p \<Longrightarrow> IsPathProtected U p (ProtectedPaths U []) \<Longrightarrow>
   autoApproveTier U E root t i = None"
  by (simp add: autoApproveTier_def)

lemma fullApprove_protected:
  "t \<in> set writeTools \<Longrightarrow> decodePath U i = Some p \<Longrightarrow> IsPathProtected U p (ProtectedPaths U []) \<Longrightarrow>
   fullApprove U t i = None"
  by (simp add: fullApprove_def)

lemma autoApproveTier_reason: "autoApproveTier U E root t i = Some r \<Longrightarrow> r \<noteq> []"
  by (auto simp: autoApproveTier_def split: if_splits option.splits)

lemma fullApprove_reason: "fullApprove U t i = Some r \<Longrightarrow> r \<noteq> []"
  by (auto simp: fullApprove_def split: if_splits)

interpretation tier: auto_policy U "modeApprove U E mode root" for U E mode root
  using autoApproveTier_reason fullApprove_reason
  by unfold_locales (auto simp: modeApprove_def autoApproveTier_protected fullApprove_protected split: if_splits)

interpretation switch: auto_policy U "autoApprove U E root" for U E root
  by unfold_locales (auto simp: autoApprove_def split: if_splits option.splits)

lemma ModeApprover_decorated:
  "ApproveAudited U E (ModeApprover mode root (Some n) plan) t i =
     tier.decorated U E mode root (ApproveAudited U E n) t i"
  by (simp add: tier.decorated_def split: option.split)

lemma modes_distinct [simp]: "ModeAsk \<noteq> ModeAuto" "ModeAsk \<noteq> ModeFull" "ModeAuto \<noteq> ModeFull"
  "ModeAuto \<noteq> ModeAsk" "ModeFull \<noteq> ModeAsk" "ModeFull \<noteq> ModeAuto"
  by (simp_all add: ModeAsk_def ModeAuto_def ModeFull_def)

lemma loadMode_storeMode [simp]: "loadMode (storeMode m) = (if ValidMode m then m else ModeAsk)"
  by (auto simp: loadMode_def storeMode_def ValidMode_def)

text \<open>C5. The verdict of the whole chain of rules, tier and human: a call runs exactly when it is the plan-file exception of a planning turn, or no deny rule matches and an allow rule matches, the tier grants it, or the human does. A deny rule wins over everything but the plan exception; the tier ask grants nothing by itself.\<close>

theorem approve_allow_iff:
  "fst (approve U E t i (r\<lparr>Approver := Some (Allowlist s (ModeApprover (storeMode m) root (Some (Human h)) plan))\<rparr>)) = VerdictAllow \<longleftrightarrow>
     planFileWriteAllowed U E r t i \<or>
     list_ex (\<lambda>p. globMatch p t) (deny s) = False \<and>
       (list_ex (\<lambda>p. globMatch p t) (allow s) \<or>
        m = ModeAuto \<and> (\<exists>why. autoApproveTier U E root t i = Some why) \<or>
        m = ModeFull \<and> (\<exists>why. fullApprove U t i = Some why) \<or>
        hApprove h t i = VerdictAllow)"
proof -
  have "planFileWriteAllowed U E (r\<lparr>Approver := x\<rparr>) t i = planFileWriteAllowed U E r t i" for x
  proof -
    have "WorkspaceRoot (r\<lparr>Approver := x\<rparr>) = WorkspaceRoot r" "PlanState (r\<lparr>Approver := x\<rparr>) = PlanState r" by simp_all
    then show ?thesis by (simp only: planFileWriteAllowed_def)
  qed
  moreover have "fst (ApproveAudited U E (Allowlist s (ModeApprover (storeMode m) root (Some (Human h)) plan)) t i) = VerdictAllow \<longleftrightarrow>
     list_ex (\<lambda>p. globMatch p t) (deny s) = False \<and>
       (list_ex (\<lambda>p. globMatch p t) (allow s) \<or>
        m = ModeAuto \<and> (\<exists>why. autoApproveTier U E root t i = Some why) \<or>
        m = ModeFull \<and> (\<exists>why. fullApprove U t i = Some why) \<or>
        hApprove h t i = VerdictAllow)"
    by (auto simp: MatchDeny_def MatchAllow_def matchSet_None matchGlob_glob modeApprove_def ValidMode_def
             dest!: matchSet_Some split: option.splits if_splits simp: list_ex_iff)
  ultimately show ?thesis by (auto simp: approve_def split: prod.splits)
qed


lemma autoTier_write_inside:
  "autoApproveTier U E root t i = Some why \<Longrightarrow> t \<in> set writeTools \<Longrightarrow>
   \<exists>p target. decodePath U i = Some p \<and> p \<noteq> [] \<and> Abs E (pathJoin [root, Clean p]) = Some target \<and>
     ValidatePath U E root target = None \<and> \<not> IsPathProtected U p (ProtectedPaths U [])"
  by (auto simp: autoApproveTier_def insideRoot_def split: option.splits if_splits)

lemma patternFor_covers: "matchGlob (patternFor t) t"
proof (cases "patternFor t = t")
  case True
  then show ?thesis by (simp add: matchGlob_glob globMatch_refl)
next
  case False
  then obtain i where i: "HasPrefix t ''mcp__''" "Index (drop 5 t) ''__'' = Some i"
    "patternFor t = ''mcp__'' @ take i (drop 5 t) @ ''__*''"
    by (auto simp: patternFor_def Let_def eval_nat_numeral split: if_splits option.splits)
  let ?r = "drop 5 t"
  have t: "t = ''mcp__'' @ ?r" using HasPrefix_take [OF i(1)] by (simp add: eval_nat_numeral)
  have r: "?r = take i ?r @ ''__'' @ drop (i + 2) ?r" using Index_Some [OF i(2)] by simp
  have lit: "globMatch (l @ p) (l @ n)" if "globMatch p n" for l p n
  proof (induction l)
    case (Cons c l)
    have "suffix (l @ n) (c # l @ n)" by (simp add: suffix_Cons)
    with Cons show ?case by (cases "c = CHR ''*''") (auto simp: globMatch_star simp del: globMatch.simps(2), simp_all)
  qed (use that in simp)
  have star: "globMatch ''*'' x" for x by (simp add: globMatch_star del: globMatch.simps(2))
  have "globMatch ((''mcp__'' @ take i ?r @ ''__'') @ ''*'') ((''mcp__'' @ take i ?r @ ''__'') @ drop (i + 2) ?r)"
    by (rule lit) (rule star)
  moreover have "(''mcp__'' @ take i ?r @ ''__'') @ drop (i + 2) ?r = t" using t r by (metis append_assoc)
  ultimately show ?thesis by (simp add: matchGlob_glob i(3) del: globMatch.simps)
qed

lemma Grant_store: "fst (Grant persist p scope s) = s\<lparr>allow := insertKey p (allow s)\<rparr>"
  by (simp add: Grant_def Let_def)

lemma GrantTool_store: "fst (GrantTool persist t scope s) = s\<lparr>allow := insertKey (patternFor t) (allow s)\<rparr>"
  using Grant_store [of persist "patternFor t" scope s] by (auto simp: GrantTool_def split: prod.splits option.splits)

text \<open>After a tool was always allowed, the rule set matches that tool whatever its name, deny rules are untouched, and the very next call of the tool is granted unless a deny rule matches it.\<close>

theorem GrantTool_effective:
  "list_ex (\<lambda>p. globMatch p t) (allow (fst (GrantTool persist t scope s))) \<and>
   deny (fst (GrantTool persist t scope s)) = deny s \<and>
   (MatchDeny s t = None) = (ApproveAudited U E (Allowlist (fst (GrantTool persist t scope s)) nxt) t i \<noteq> (VerdictDeny, []))"
proof -
  let ?s = "fst (GrantTool persist t scope s)"
  have a: "list_ex (\<lambda>p. globMatch p t) (allow ?s)"
    using patternFor_covers [of t] by (auto simp: GrantTool_store list_ex_iff matchGlob_glob)
  moreover have d: "deny ?s = deny s" by (simp add: GrantTool_store)
  moreover have "\<exists>p. MatchAllow ?s t = Some p" using a matchSet_None [of "allow ?s" t] by (auto simp: MatchAllow_def matchGlob_glob)
  moreover have "MatchDeny ?s t = MatchDeny s t" using d by (simp add: MatchDeny_def)
  ultimately show ?thesis by (auto split: option.splits)
qed

text \<open>Reconfigure removes every pattern the previous configuration had, also when a settings file or an interactive grant provides the same pattern: such allow and deny rules are lost.\<close>

theorem Reconfigure_rules:
  "set (deny (Reconfigure ya' yd' (NewRuleStore root home merged ya yd))) =
     (set (permDeny merged) - (set yd - {[]})) \<union> (set yd' - {[]}) \<and>
   set (allow (Reconfigure ya' yd' (fst (GrantTool persist t scope (NewRuleStore root home merged ya yd))))) =
     (insert (patternFor t) (set (permAllow merged)) - (set ya - {[]})) \<union> (set ya' - {[]})"
  by (auto simp: Reconfigure_def NewRuleStore_def GrantTool_store)

lemma emitted_approve:
  "emitted (snd (approve U E t i r)) = emitted r @
     (if planFileWriteAllowed U E r t i
      then [\<lparr>evToolName = t, evToolArgs = i, evText = ''plan mode: workspace-local .codeagent/plans markdown write''\<rparr>]
      else (case Approver r of None \<Rightarrow> [] | Some a \<Rightarrow>
         (case ApproveAudited U E a t i of (v, why) \<Rightarrow>
            if v = VerdictAllow \<and> why \<noteq> [] then [\<lparr>evToolName = t, evToolArgs = i, evText = why\<rparr>] else [])))"
  by (auto simp: approve_def emitAudit_def Let_def split: option.splits prod.splits)

lemma unattended_reason:
  "unattended a \<Longrightarrow> fst (ApproveAudited U E a t i) = VerdictAllow \<longleftrightarrow>
     fst (ApproveAudited U E a t i) = VerdictAllow \<and> snd (ApproveAudited U E a t i) \<noteq> []"
proof (induction a)
  case (ModeApprover mode root nxt plan)
  then show ?case using tier.reason [of U E mode root t i] by (cases nxt) (auto split: option.splits)
next
  case (AutoApprover root hum enabled)
  then show ?case using switch.reason [of U E root t i] by (auto split: option.splits)
qed (auto split: option.splits)

text \<open>In a chain whose humans never allow anything, a call is allowed exactly when one audit event with the call and a reason is emitted: nothing is granted silently.\<close>

theorem audit_complete:
  assumes "Approver r = Some a" "unattended a"
  shows "(fst (approve U E t i r) = VerdictAllow) =
     (\<exists>why. why \<noteq> [] \<and> emitted (snd (approve U E t i r)) = emitted r @ [\<lparr>evToolName = t, evToolArgs = i, evText = why\<rparr>])"
proof (cases "planFileWriteAllowed U E r t i")
  case True
  then show ?thesis by (simp add: emitted_approve) (simp add: approve_def)
next
  case False
  then have "fst (approve U E t i r) = fst (ApproveAudited U E a t i)"
    using assms(1) by (simp add: approve_def Let_def split: prod.splits)
  with False assms(1) unattended_reason [OF assms(2), of U E t i] show ?thesis
    by (cases "ApproveAudited U E a t i") (auto simp: emitted_approve)
qed

lemma canon_abs:
  assumes "CanonicalPath E p = Inr c" "IsAbs p" "\<forall>q r. evalSymlinks E q = EvOk r \<longrightarrow> IsAbs r"
  shows "IsAbs c"
proof -
  have plain: "list_all plainComp (cleanComps p)" using assms(2) by (rule abs_comps_plain)
  have "canonLoop E (render True (cleanComps p)) [] = Inr c"
    using assms(1,2) by (simp add: CanonicalPath_def Abs_def Clean_idem) (simp add: Clean_def)
  from canonLoop_resolves [OF plain this] obtain pre post real where
    r: "cleanComps p = pre @ post" "evalSymlinks E (render True pre) = EvOk real"
      "c = Clean (fold (\<lambda>s r. pathJoin [r, s]) post real)"
    by auto
  have "list_all plainComp post" using plain unfolding r(1) by simp
  with fold_pathJoin [of real post] assms(3) r(2) show ?thesis unfolding r(3) IsAbs_Clean by blast
qed

lemma IsAbs_pathJoin: "IsAbs r \<Longrightarrow> IsAbs (pathJoin (r # es))"
  by (cases r; cases es) (auto simp: IsAbs_def IsAbs_Clean [unfolded IsAbs_def])

lemma IsSubPath_prefix: "IsAbs b \<Longrightarrow> IsAbs t \<Longrightarrow> IsSubPath b t \<Longrightarrow> prefix (cleanComps b) (cleanComps t)"
  using Rel_abs_inside [of b t] append_prefixD [of DOTDOT "[SLASH]"]
  by (auto simp: IsSubPath_def HasPrefix_iff split: option.splits)

text \<open>The plan-mode exception admits only a relative markdown path whose resolution, symbolic links included, lies strictly below the resolved plans directory and inside the workspace. The hypothesis on links is the documented behaviour of filepath.EvalSymlinks on absolute paths.\<close>

theorem planFileWrite_confined:
  assumes "planFileWriteAllowed U E r t i" "IsAbs (WorkspaceRoot r)"
    and "\<forall>q r. evalSymlinks E q = EvOk r \<longrightarrow> IsAbs r"
  shows "\<exists>path plansDir target rest.
     decodePath U i = Some path \<and> \<not> IsAbs path \<and> pathExt (Clean path) = ''.md'' \<and>
     CanonicalPath E (pathJoin [Clean (WorkspaceRoot r), ''.codeagent'', ''plans'']) = Inr plansDir \<and>
     CanonicalPath E (pathJoin [Clean (WorkspaceRoot r), Clean path]) = Inr target \<and>
     cleanComps target = cleanComps plansDir @ rest \<and> target \<noteq> plansDir \<and>
     ClassifyPath U E (Clean (WorkspaceRoot r)) target = PathInsideWorkspace"
proof -
  let ?root = "Clean (WorkspaceRoot r)"
  have root: "Abs E (WorkspaceRoot r) = Some ?root" "IsAbs ?root" using assms(2) by (simp_all add: Abs_def IsAbs_Clean)
  from assms(1) root(1) obtain path plansDir target where p: "unmarshalString U ''path'' i = Some path" "\<not> IsAbs path"
      "pathExt (Clean path) = ''.md''"
      "CanonicalPath E (pathJoin [?root, ''.codeagent'', ''plans'']) = Inr plansDir"
      "CanonicalPath E (pathJoin [?root, Clean path]) = Inr target" "target \<noteq> plansDir" "IsSubPath plansDir target"
      "ClassifyPath U E ?root target = PathInsideWorkspace"
    by (auto simp: planFileWriteAllowed_def Let_def simp del: pathJoin.simps split: if_splits option.splits sum.splits)
  have "IsAbs plansDir" "IsAbs target"
    using canon_abs [OF p(4) IsAbs_pathJoin [OF root(2)] assms(3)] canon_abs [OF p(5) IsAbs_pathJoin [OF root(2)] assms(3)] .
  from IsSubPath_prefix [OF this p(7)] obtain rest where "cleanComps target = cleanComps plansDir @ rest"
    by (auto simp: prefix_def)
  with p show ?thesis unfolding decodePath_def by blast
qed


theorem audit_complete_witness:
  "\<exists>why. why \<noteq> [] \<and> emitted (snd (approve asciiTables anyFS ''git_commit'' None demoRunner)) =
     [\<lparr>evToolName = ''git_commit'', evToolArgs = None, evText = why\<rparr>]"
proof -
  have r: "Approver demoRunner = Some (Allowlist demoStore (NewModeApprover ModeAuto ''/w'' (Some (Human demoHuman))))"
    by (simp add: demoRunner_def)
  have u: "unattended (Allowlist demoStore (NewModeApprover ModeAuto ''/w'' (Some (Human demoHuman))))"
    by (simp add: NewModeApprover_def demoHuman_def)
  have "fst (approve asciiTables anyFS ''git_commit'' None demoRunner) = VerdictAllow" by code_simp
  with audit_complete [OF r u, of asciiTables anyFS "''git_commit''" None] show ?thesis
    by (simp add: demoRunner_def)
qed

theorem planFileWrite_confined_witness:
  "\<exists>plansDir target. CanonicalPath demoFS (pathJoin [Clean ''/w'', ''.codeagent'', ''plans'']) = Inr plansDir \<and>
     CanonicalPath demoFS (pathJoin [Clean ''/w'', Clean ''.codeagent/plans/p.md'']) = Inr target \<and>
     ClassifyPath asciiTables demoFS (Clean ''/w'') target = PathInsideWorkspace"
proof -
  let ?p = "''.codeagent/plans/p.md''"
  have "planFileWriteAllowed asciiTables demoFS demoRunner ''create_file'' (demoPath ?p)" by code_simp
  moreover have "IsAbs (WorkspaceRoot demoRunner)" by code_simp
  moreover have "\<forall>q r. evalSymlinks demoFS q = EvOk r \<longrightarrow> IsAbs r"
    by (auto simp: demoFS_def IsAbs_def split: if_splits)
  ultimately have "\<exists>path plansDir target rest.
     decodePath asciiTables (demoPath ?p) = Some path \<and> \<not> IsAbs path \<and> pathExt (Clean path) = ''.md'' \<and>
     CanonicalPath demoFS (pathJoin [Clean (WorkspaceRoot demoRunner), ''.codeagent'', ''plans'']) = Inr plansDir \<and>
     CanonicalPath demoFS (pathJoin [Clean (WorkspaceRoot demoRunner), Clean path]) = Inr target \<and>
     cleanComps target = cleanComps plansDir @ rest \<and> target \<noteq> plansDir \<and>
     ClassifyPath asciiTables demoFS (Clean (WorkspaceRoot demoRunner)) target = PathInsideWorkspace"
    by (rule planFileWrite_confined)
  moreover have "decodePath asciiTables (demoPath ?p) = Some ?p" by code_simp
  moreover have "WorkspaceRoot demoRunner = ''/w''" by (simp add: demoRunner_def)
  ultimately show ?thesis by (simp only: option.inject) blast
qed

end
