(* ===== verification/Run_Command.thy ===== *)
theory Run_Command
  imports Json Policy Workspace Jobs
begin

section \<open>The run_command and job tools\<close>

text \<open>
  \<^verbatim>\<open>internal/tools/shell\<close>: \<open>run_command\<close> classifies a command, guards the paths it reads and the files it
  redirects to, and runs it directly, through \<^verbatim>\<open>sh -c\<close> or as a background job; the \<open>job_*\<close> tools look at
  and control those jobs.  How a process ends is a parameter, as are the home directory, the clock
  and the quoting verb of \<^verbatim>\<open>fmt\<close>; the processes started are recorded, because the theorems are about
  them.  A command on which the classifier does not return has the outcome None.
\<close>

subsection \<open>Path guards\<close>

text \<open>\<open>awkReadOperands\<close>: the file operands of awk; an unknown option keeps everything from there on.\<close>

fun awkLoop :: "string list \<Rightarrow> bool \<Rightarrow> bool \<Rightarrow> string list \<Rightarrow> string list" where
  "awkLoop files hasProgram opts [] = files"
| "awkLoop files hasProgram opts (arg # args) =
     (if opts \<and> arg = ''--'' then awkLoop files hasProgram False args
      else if opts \<and> arg = ''-f'' then
        (case args of
           [] \<Rightarrow> files
         | a # args' \<Rightarrow> awkLoop (files @ [a]) True opts args')
      else if opts \<and> (arg = ''-F'' \<or> arg = ''-v'') then
        (case args of
           [] \<Rightarrow> files
         | a # args' \<Rightarrow> awkLoop files hasProgram opts args')
      else if opts \<and> HasPrefix arg ''-f'' then awkLoop (files @ [drop 2 arg]) True opts args
      else if opts \<and> (HasPrefix arg ''-F'' \<or> HasPrefix arg ''-v'') then awkLoop files hasProgram opts args
      else if opts \<and> HasPrefix arg ''-'' \<and> arg \<noteq> ''-'' then files @ arg # args
      else if \<not> hasProgram then awkLoop files True False args
      else awkLoop (files @ [arg]) hasProgram False args)"

definition awkReadOperands :: "string list \<Rightarrow> string list" where
  "awkReadOperands args = awkLoop [] False True args"

definition isReadPathCommand :: "string \<Rightarrow> bool" where
  "isReadPathCommand name =
     (pathBase name \<in> set [''cat'', ''head'', ''tail'', ''wc'', ''file'', ''stat'', ''ls'', ''tree'', ''find'',
        ''grep'', ''rg'', ''sed'', ''awk''])"

definition commandPathTarget :: "unicode_tables \<Rightarrow> fsenv \<Rightarrow> string \<Rightarrow> string \<Rightarrow> string option" where
  "commandPathTarget U E arg rootAbs =
     (if HasPrefix arg ''~'' then Some (Clean arg)
      else if IsAbs arg then Some (Clean arg)
      else
        (let clean = Clean arg; target = pathJoin [rootAbs, clean] in
         if ShouldSkipPath U E rootAbs target then Some target
         else if clean = DOTDOT \<or> HasPrefix clean (DOTDOT @ [SLASH]) then Abs E target
         else None))"

definition readRefusal :: "string \<Rightarrow> string" where
  "readRefusal name =
     ''refused: '' @ name @
     '' may only read paths inside the workspace; for paths outside the workspace use the list_files/read_file/grep tools instead (they support user approval)''"

definition operandRefused :: "unicode_tables \<Rightarrow> fsenv \<Rightarrow> string \<Rightarrow> string \<Rightarrow> bool" where
  "operandRefused U E rootAbs arg =
     (if arg = [] \<or> HasPrefix arg ''-'' then False
      else
        (case commandPathTarget U E arg rootAbs of
           None \<Rightarrow> False
         | Some target \<Rightarrow> ValidatePath U E rootAbs target \<noteq> None))"

definition outsideWorkspaceRead :: "unicode_tables \<Rightarrow> fsenv \<Rightarrow> string list \<Rightarrow> string \<Rightarrow> string" where
  "outsideWorkspaceRead U E args rootAbs =
     (case args of
        [] \<Rightarrow> []
      | name # rest \<Rightarrow>
          if \<not> isReadPathCommand name then []
          else if list_ex (operandRefused U E rootAbs)
                    (if pathBase name = ''awk'' then awkReadOperands rest else rest)
          then readRefusal name
          else [])"

text \<open>A loop that returns the first note that is not empty.\<close>

fun firstNote :: "('a \<Rightarrow> string) \<Rightarrow> 'a list \<Rightarrow> string" where
  "firstNote f [] = []"
| "firstNote f (x # xs) = (if f x \<noteq> [] then f x else firstNote f xs)"

text \<open>\<open>compoundWorkspaceRead\<close>: the first argument is how many levels are left, \<open>3 - depth\<close>.\<close>

primrec compoundWorkspaceRead :: "nat \<Rightarrow> unicode_tables \<Rightarrow> fsenv \<Rightarrow> string \<Rightarrow> string \<Rightarrow> string" where
  "compoundWorkspaceRead 0 U E cmd rootAbs =
     ''refused: nested shell command exceeds workspace boundary validation depth''"
| "compoundWorkspaceRead (Suc left) U E cmd rootAbs =
     firstNote
       (\<lambda>subcommand.
          (case SplitArgs subcommand of
             Inl _ \<Rightarrow> []
           | Inr args \<Rightarrow>
               if args = [] then []
               else if outsideWorkspaceRead U E args rootAbs \<noteq> [] then outsideWorkspaceRead U E args rootAbs
               else if pathBase (hd args) \<in> set [''sh'', ''bash'', ''zsh''] then
                 firstNote
                   (\<lambda>i. if args ! i = ''-c'' then compoundWorkspaceRead left U E (args ! (i + 1)) rootAbs else [])
                   [1..<length args - 1]
               else []))
       (SplitCommands cmd)"

definition redirectPatterns :: "string list" where
  "redirectPatterns = [''>>'', ''>'', ''2>'', ''&>'', ''<'']"

definition validateRedirectTarget ::
  "(string \<Rightarrow> string) \<Rightarrow> unicode_tables \<Rightarrow> fsenv \<Rightarrow> string \<Rightarrow> string \<Rightarrow> string \<Rightarrow> string" where
  "validateRedirectTarget q U E home target rootAbs =
     (let t = TrimSpace target in
      if t \<in> set [''/dev/null'', ''/dev/stdout'', ''/dev/stderr'', ''/dev/tty''] then []
      else if t = ''&1'' \<or> t = ''&2'' then []
      else if HasPrefix t ''/dev/'' then []
      else
        (case (if IsAbs t then Some (Clean t) else Abs E (pathJoin [rootAbs, Clean t])) of
           None \<Rightarrow> ''redirect target '' @ q t @ '' could not be resolved''
         | Some absTarget \<Rightarrow>
             if IsPathProtected U t (ProtectedPaths U []) then
               ''redirect refused: target '' @ q t @ '' is a protected path''
             else if home \<noteq> [] \<and> HasPrefix absTarget (pathJoin [home, ''.ssh'']) then
               ''redirect refused: target '' @ q t @ '' is in ~/.ssh''
             else []))"

text \<open>The text a redirect operator is followed by, up to a blank or an operator.\<close>

definition redirectTarget :: "string \<Rightarrow> string" where
  "redirectTarget after =
     (let rest = TrimSpace after in
      TrimSpace (case IndexAny rest [SP, CHR ''|'', CHR '';'', CHR ''&'', NL, TAB] of
                   None \<Rightarrow> rest
                 | Some idx \<Rightarrow> take idx rest))"

text \<open>\<open>checkRedirectTargets\<close>; \<open>validate\<close> is \<open>validateRedirectTarget\<close> at the root.  After a target
  is accepted the scan goes on one byte behind the operator, as the loop's own increment does.\<close>

function redirectLoop :: "(string \<Rightarrow> string) \<Rightarrow> bool \<Rightarrow> bool \<Rightarrow> string \<Rightarrow> string" where
  "redirectLoop validate inSingle inDouble [] = []"
| "redirectLoop validate inSingle inDouble (c # s) =
     (if inSingle then redirectLoop validate (c \<noteq> SQ) inDouble s
      else if inDouble then redirectLoop validate inSingle (c \<noteq> DQ) s
      else if c = SQ then redirectLoop validate True inDouble s
      else if c = DQ then redirectLoop validate inSingle True s
      else
        (case find (HasPrefix (c # s)) redirectPatterns of
           None \<Rightarrow> redirectLoop validate inSingle inDouble s
         | Some op \<Rightarrow>
             (let target = redirectTarget (drop (length op) (c # s)) in
              if target = [] then redirectLoop validate inSingle inDouble s
              else if validate target \<noteq> [] then validate target
              else redirectLoop validate inSingle inDouble (drop (length op) s))))"
  by pat_completeness auto
termination
  by (relation "measure (\<lambda>(v, a, b, s). length s)") auto

definition checkRedirectTargets ::
  "(string \<Rightarrow> string) \<Rightarrow> unicode_tables \<Rightarrow> fsenv \<Rightarrow> string \<Rightarrow> string \<Rightarrow> string \<Rightarrow> string" where
  "checkRedirectTargets q U E home cmd rootAbs =
     redirectLoop (\<lambda>t. validateRedirectTarget q U E home t rootAbs) False False cmd"

subsection \<open>run_command\<close>

record runCommandInput =
  inCommand :: string
  inBackground :: bool

text \<open>Decoding the arguments; an absent message leaves the zero value.  The outer option of the
  argument says whether there were any bytes.\<close>

definition decodeInput :: "unicode_tables \<Rightarrow> raw_message option \<Rightarrow> runCommandInput option" where
  "decodeInput U input =
     (case input of
        None \<Rightarrow> Some \<lparr>inCommand = [], inBackground = False\<rparr>
      | Some raw \<Rightarrow>
          (case (unmarshalString U ''command'' raw, unmarshalBool U ''background'' raw) of
             (Some c, Some b) \<Rightarrow> Some \<lparr>inCommand = c, inBackground = b\<rparr>
           | _ \<Rightarrow> None))"

record commandResult =
  crStatus :: string
  crCommand :: string
  crStdout :: string
  crStderr :: string
  crExitCode :: int
  crDurationMS :: int
  crDecision :: string
  crNote :: string

record backgroundResult =
  brCommand :: string
  brJobID :: string
  brStatus :: Status
  brDecision :: string
  brNote :: string

record jobWaitResult =
  wrJobID :: string
  wrStatus :: Status
  wrWaitedMS :: int
  wrDurationMS :: int
  wrFinished :: "(int \<times> string) option"   \<comment> \<open>exit code and output tail, or the note that it still runs\<close>

text \<open>What a tool returns.  The content is kept structured: its JSON text is what the model reads.\<close>

datatype content =
    CommandContent commandResult
  | BackgroundContent backgroundResult
  | JobContent JobSnapshot
  | JobsContent "JobSnapshot option list"
  | WaitContent jobWaitResult
  | YieldContent string Status
  | TextContent string

record ToolFailure =
  Kind :: string
  Message :: string

record ToolResult =
  Content :: content
  Failure :: "ToolFailure option"
  RuntimeInputReceipts :: "string list"
  RuntimeWaitFor :: "string list"

datatype tool_error =
    InvalidInput | CommandRequired | BackgroundDisabled | LexError lex_error | EmptyCommand | AbsFailed
  | JobIDRequired | UnknownJobID string | CancelFailed cancel_error | YieldWithTimeout
  | ContinuationUnavailable | ContextDone

definition decisionString :: "Decision \<Rightarrow> string" where
  "decisionString d = (case d of Allow \<Rightarrow> ''allow'' | Confirm \<Rightarrow> ''confirm'' | Block \<Rightarrow> ''block'')"

definition shellOperatorHint :: "string \<Rightarrow> string" where
  "shellOperatorHint cmd =
     (if Contains cmd ''cd '' then
        ''no `cd`: commands run from the workspace root. '' @
        ''Pass a path instead, e.g. `go vet ./cmd/foo/` rather than `cd cmd/foo && go vet`.''
      else if Contains cmd [NL] then
        ''no newlines in commands. Use && to chain '' @ [CHR 0xE2, CHR 0x80, CHR 0x94] @ '' e.g. `go build && go test`.''
      else
        ''command contains unsupported shell operators. '' @
        ''Tip: you CAN use &&, ;, |, ||, and > for chaining, pipes, and output redirection.'')"

definition okResult :: "content \<Rightarrow> ToolResult" where
  "okResult c = \<lparr>Content = c, Failure = None, RuntimeInputReceipts = [], RuntimeWaitFor = []\<rparr>"

definition failureKind :: "commandResult \<Rightarrow> string" where
  "failureKind res =
     (if crStatus res = ''cancelled'' then ''canceled''
      else if crStatus res = ''timed_out'' then ''timeout''
      else if crDecision res = ''block'' \<or> crStatus res = ''blocked'' then ''blocked''
      else if crExitCode res = - 1 then ''environment''
      else ''runtime'')"

definition result :: "commandResult \<Rightarrow> ToolResult" where
  "result res =
     (if crExitCode res = 0 then okResult (CommandContent res)
      else (okResult (CommandContent res))\<lparr>Failure :=
             Some \<lparr>Kind = failureKind res, Message = ''Command did not complete successfully: '' @ crCommand res\<rparr>\<rparr>)"

definition blockedResult :: "string \<Rightarrow> Decision \<Rightarrow> string \<Rightarrow> ToolResult" where
  "blockedResult cmd d note =
     result \<lparr>crStatus = ''blocked'', crCommand = cmd, crStdout = [], crStderr = [], crExitCode = - 1,
             crDurationMS = 0, crDecision = decisionString d, crNote = note\<rparr>"

text \<open>How a foreground process ended: its output, how long it took, the state of the context and the
  error of \<open>cmd.Run\<close>.\<close>

datatype ctx_state = CtxLive | CtxDeadlineExceeded | CtxCanceled

datatype run_error = RunOk | RunExit int | RunOther string

record run_outcome =
  runStdout :: string
  runStderr :: string
  runMS :: int
  runCtx :: ctx_state
  runErr :: run_error

record RunCommandTool =
  Policy :: CommandPolicy
  TimeoutText :: string
  MaxOutputBytes :: int
  ForegroundOnly :: bool

definition NewRunCommandTool :: RunCommandTool where
  "NewRunCommandTool =
     \<lparr>Policy = DefaultPolicy, TimeoutText = ''2m0s'', MaxOutputBytes = 80000, ForegroundOnly = False\<rparr>"

definition runResult :: "RunCommandTool \<Rightarrow> string \<Rightarrow> Decision \<Rightarrow> run_outcome \<Rightarrow> ToolResult" where
  "runResult t cmd d o' =
     (let res = \<lparr>crStatus = ''completed'', crCommand = cmd, crStdout = Head (runStdout o') (MaxOutputBytes t),
                 crStderr = Head (runStderr o') (MaxOutputBytes t), crExitCode = 0, crDurationMS = runMS o',
                 crDecision = decisionString d, crNote = []\<rparr>
      in case runCtx o' of
           CtxDeadlineExceeded \<Rightarrow>
             result (res\<lparr>crStatus := ''timed_out'', crExitCode := - 1, crNote := ''timed out after '' @ TimeoutText t\<rparr>)
         | CtxCanceled \<Rightarrow>
             result (res\<lparr>crStatus := ''cancelled'', crExitCode := - 1, crNote := ''command cancelled''\<rparr>)
         | CtxLive \<Rightarrow>
             (case runErr o' of
                RunOk \<Rightarrow> result res
              | RunExit code \<Rightarrow> result (res\<lparr>crStatus := ''failed'', crExitCode := code\<rparr>)
              | RunOther msg \<Rightarrow> result (res\<lparr>crStatus := ''failed'', crExitCode := - 1, crNote := msg\<rparr>)))"

text \<open>The environment of one call: the execution context and what the operating system does.\<close>

record exec_env =
  ecWorkspaceRoot :: string
  ecSessionID :: string
  ecTurnID :: string
  ecCallID :: string
  ecRuntimeInputDelivery :: bool
  ecCanYield :: bool
  homeDir :: string
  runProcess :: "string list \<Rightarrow> run_outcome"
  freshID :: string
  clock :: int
  leaseErr :: "string option"
  startErr :: "string option"

datatype proc_event = Foreground "string list" | Background "string list"

text \<open>\<open>Registry.Start\<close> as one call: the sections of the job model in a row.\<close>

definition Start ::
  "(string \<Rightarrow> string) \<Rightarrow> exec_env \<Rightarrow> string \<Rightarrow> string list \<Rightarrow> Owner \<Rightarrow> Registry \<Rightarrow> Registry" where
  "Start q X cmd argv ow r =
     (let r1 = registerJob (freshID X) (clock X) cmd ow r;
          r2 = (case jobs r1 (freshID X) of Some j \<Rightarrow> announceJob (clock X) j r1 | None \<Rightarrow> r1)
      in case jobs r2 (freshID X) of
           Some j \<Rightarrow> launchJob q (clock X) (leaseErr X) argv (startErr X) j r2
         | None \<Rightarrow> r2)"

definition ownerOf :: "exec_env \<Rightarrow> Owner" where
  "ownerOf X = \<lparr>SessionID = ecSessionID X, TurnID = ecTurnID X, CallID = ecCallID X, Notify = ecRuntimeInputDelivery X\<rparr>"

definition backgroundReply :: "exec_env \<Rightarrow> string \<Rightarrow> Decision \<Rightarrow> string \<Rightarrow> Registry \<Rightarrow> ToolResult" where
  "backgroundReply X cmd d note r =
     (let st = (case jobs r (freshID X) of Some j \<Rightarrow> snapStatus (Snapshot (clock X) j) | None \<Rightarrow> Running) in
      okResult (BackgroundContent
        \<lparr>brCommand = cmd, brJobID = freshID X, brStatus = st, brDecision = decisionString d, brNote = note\<rparr>))"

definition bgNote :: string where
  "bgNote = ''started in background; job_wait blocks until it finishes (preferred over polling job_status), job_logs reads output, job_cancel stops it''"

definition bgShellNote :: string where
  "bgShellNote = ''started in background (compound command via sh -c); job_wait blocks until it finishes, job_logs reads output, job_cancel stops it''"

type_synonym reply = "(tool_error + ToolResult) \<times> proc_event list \<times> Registry"

definition executeShell ::
  "(string \<Rightarrow> string) \<Rightarrow> unicode_tables \<Rightarrow> fsenv \<Rightarrow> exec_env \<Rightarrow> RunCommandTool \<Rightarrow> runCommandInput \<Rightarrow> string \<Rightarrow>
   Decision \<Rightarrow> Registry \<Rightarrow> reply" where
  "executeShell q U E X t inp cmd d r =
     (case Abs E (ecWorkspaceRoot X) of
        None \<Rightarrow> (Inl AbsFailed, [], r)
      | Some rootAbs \<Rightarrow>
          if compoundWorkspaceRead 3 U E cmd rootAbs \<noteq> [] then
            (Inr (blockedResult cmd d (compoundWorkspaceRead 3 U E cmd rootAbs)), [], r)
          else if checkRedirectTargets q U E (homeDir X) cmd rootAbs \<noteq> [] then
            (Inr (blockedResult cmd d (checkRedirectTargets q U E (homeDir X) cmd rootAbs)), [], r)
          else if inBackground inp then
            (let r' = Start q X cmd [''sh'', ''-c'', cmd] (ownerOf X) r in
             (Inr (backgroundReply X cmd d bgShellNote r'), [Background [''sh'', ''-c'', cmd]], r'))
          else
            (Inr (runResult t cmd d (runProcess X [''sh'', ''-c'', cmd])), [Foreground [''sh'', ''-c'', cmd]], r))"

definition Execute ::
  "(string \<Rightarrow> string) \<Rightarrow> unicode_tables \<Rightarrow> fsenv \<Rightarrow> exec_env \<Rightarrow> RunCommandTool \<Rightarrow> raw_message option \<Rightarrow> Registry \<Rightarrow>
   reply option" where
  "Execute q U E X t input r =
     (case decodeInput U input of
        None \<Rightarrow> Some (Inl InvalidInput, [], r)
      | Some inp \<Rightarrow>
          if TrimSpace (inCommand inp) = [] then Some (Inl CommandRequired, [], r)
          else if inBackground inp \<and> ForegroundOnly t then Some (Inl BackgroundDisabled, [], r)
          else
            (let cmd = ConvertBackticks (TrimSpace (inCommand inp)) in
             case Classify 2 U (Policy t) cmd of
               None \<Rightarrow> None
             | Some cl \<Rightarrow>
                 if ClDecision cl = Block then
                   Some (Inr (blockedResult cmd (ClDecision cl) (''refused by policy: '' @ Reason cl)), [], r)
                 else if ContainsChainOperators cmd \<or> ContainsCommandSubstitution cmd \<or> ContainsAssignment cmd \<or>
                         ContainsRedirect cmd then
                   Some (executeShell q U E X t inp cmd (ClDecision cl) r)
                 else if ContainsShellOperators cmd then
                   Some (Inr (blockedResult cmd (ClDecision cl) (shellOperatorHint cmd)), [], r)
                 else
                   (case SplitArgs cmd of
                      Inl e \<Rightarrow> Some (Inl (LexError e), [], r)
                    | Inr args \<Rightarrow>
                        if args = [] then Some (Inl EmptyCommand, [], r)
                        else
                          (case Abs E (ecWorkspaceRoot X) of
                             None \<Rightarrow> Some (Inl AbsFailed, [], r)
                           | Some rootAbs \<Rightarrow>
                               if outsideWorkspaceRead U E args rootAbs \<noteq> [] then
                                 Some (Inr (blockedResult cmd (ClDecision cl) (outsideWorkspaceRead U E args rootAbs)), [], r)
                               else if inBackground inp then
                                 (let r' = Start q X cmd args (ownerOf X) r in
                                  Some (Inr (backgroundReply X cmd (ClDecision cl) bgNote r'), [Background args], r'))
                               else
                                 Some (Inr (runResult t cmd (ClDecision cl) (runProcess X args)), [Foreground args], r)))))"

definition parseCommand :: "unicode_tables \<Rightarrow> raw_message option \<Rightarrow> string option" where
  "parseCommand U input = map_option (\<lambda>inp. TrimSpace (inCommand inp)) (decodeInput U input)"

definition SideEffectsFor :: "unicode_tables \<Rightarrow> RunCommandTool \<Rightarrow> raw_message option \<Rightarrow> bool option" where
  "SideEffectsFor U t input =
     (case parseCommand U input of
        None \<Rightarrow> Some False
      | Some cmd \<Rightarrow>
          if cmd = [] then Some False
          else map_option (\<lambda>cl. ClDecision cl = Confirm) (Classify 2 U (Policy t) cmd))"

subsection \<open>The job tools\<close>

definition parseJobID :: "unicode_tables \<Rightarrow> raw_message option \<Rightarrow> string option" where
  "parseJobID U input =
     (case input of
        None \<Rightarrow> Some []
      | Some raw \<Rightarrow> map_option TrimSpace (unmarshalString U ''job_id'' raw))"

definition jobFailure :: "JobSnapshot \<Rightarrow> ToolFailure option" where
  "jobFailure snap =
     (if snapStatus snap = Failed
      then Some \<lparr>Kind = ''runtime'', Message = ''background job failed: '' @ snapID snap\<rparr> else None)"

definition marshalJobOutcome :: "content \<Rightarrow> JobSnapshot \<Rightarrow> ToolResult" where
  "marshalJobOutcome c snap = (okResult c)\<lparr>Failure := jobFailure snap\<rparr>"

definition JobStatus :: "unicode_tables \<Rightarrow> int \<Rightarrow> raw_message option \<Rightarrow> Registry \<Rightarrow> tool_error + ToolResult" where
  "JobStatus U now input r =
     (case parseJobID U input of
        None \<Rightarrow> Inl InvalidInput
      | Some i \<Rightarrow>
          if i = [] then Inr (okResult (JobsContent (List now r)))
          else
            (case Get i r of
               None \<Rightarrow> Inl (UnknownJobID i)
             | Some j \<Rightarrow> Inr (marshalJobOutcome (JobContent (Snapshot now j)) (Snapshot now j))))"

definition statusString :: "Status \<Rightarrow> string" where
  "statusString st =
     (case st of Running \<Rightarrow> ''running'' | Exited \<Rightarrow> ''exited'' | Failed \<Rightarrow> ''failed'' | Status.Canceled \<Rightarrow> ''canceled'')"

definition JobLogs :: "unicode_tables \<Rightarrow> int \<Rightarrow> raw_message option \<Rightarrow> Registry \<Rightarrow> tool_error + ToolResult" where
  "JobLogs U now input r =
     (case parseJobID U input of
        None \<Rightarrow> Inl InvalidInput
      | Some i \<Rightarrow>
          if i = [] then Inl JobIDRequired
          else
            (case Get i r of
               None \<Rightarrow> Inl (UnknownJobID i)
             | Some j \<Rightarrow>
                 (let snap = Snapshot now j;
                      logs = (if TrimSpace (Logs j) = [] then ''(no output yet)'' else Logs j)
                  in Inr ((okResult (TextContent
                            (''job '' @ snapID snap @ '' ['' @ statusString (snapStatus snap) @ '']'' @ [NL] @ logs)))
                           \<lparr>Failure := jobFailure snap\<rparr>))))"

definition JobCancel ::
  "unicode_tables \<Rightarrow> int \<Rightarrow> raw_message option \<Rightarrow> Registry \<Rightarrow> (tool_error + ToolResult) \<times> Registry" where
  "JobCancel U now input r =
     (case parseJobID U input of
        None \<Rightarrow> (Inl InvalidInput, r)
      | Some i \<Rightarrow>
          if i = [] then (Inl JobIDRequired, r)
          else
            (case Cancel i r of
               (Some e, r') \<Rightarrow> (Inl (CancelFailed e), r')
             | (None, r') \<Rightarrow>
                 (case Get i r' of
                    None \<Rightarrow> (Inl (UnknownJobID i), r')
                  | Some j \<Rightarrow> (Inr (okResult (JobContent (Snapshot now j))), r'))))"

text \<open>\<open>job_wait\<close>.  A \<open>time.Duration\<close> is a 64-bit number of nanoseconds and its product wraps.\<close>

definition jobWaitDefaultTimeout :: int where "jobWaitDefaultTimeout = 30 * 1000000000"
definition jobWaitMaxTimeout :: int where "jobWaitMaxTimeout = 90 * 1000000000"

definition jobWaitTimeout :: "int \<Rightarrow> int" where
  "jobWaitTimeout timeoutSeconds =
     (if timeoutSeconds > 0
      then (let timeout = wrap64 (timeoutSeconds * 1000000000) in
            if timeout > jobWaitMaxTimeout then jobWaitMaxTimeout else timeout)
      else jobWaitDefaultTimeout)"

definition jobWaitReply :: "int \<Rightarrow> int \<Rightarrow> bool \<Rightarrow> Job \<Rightarrow> jobWaitResult" where
  "jobWaitReply now begun finished j =
     (let snap = Snapshot now j in
      \<lparr>wrJobID = snapID snap, wrStatus = snapStatus snap, wrWaitedMS = milliseconds (now - begun),
       wrDurationMS = DurationMS snap,
       wrFinished = (if finished then Some (ExitCode snap, Tail (Logs j) 2000) else None)\<rparr>)"

record jobWaitInput =
  wiJobID :: string
  wiTimeoutSeconds :: int
  wiYield :: bool
  wiHasTimeout :: bool     \<comment> \<open>whether the arguments have a key \<open>timeout_seconds\<close>\<close>

datatype wait_event = JobDone int | TimerFired int | CtxDone

definition JobCompletionInputID :: "string \<Rightarrow> string" where
  "JobCompletionInputID jobID = ''job:'' @ jobID @ '':finished''"

text \<open>The \<open>yield\<close> branch, which never blocks, and the branch that waits; \<open>ev\<close> is what the select
  statement receives, with the time.\<close>

definition yieldReply :: "exec_env \<Rightarrow> bool \<Rightarrow> string \<Rightarrow> bool \<Rightarrow> Job \<Rightarrow> tool_error + ToolResult" where
  "yieldReply X allowYield i hasTimeout j =
     (if hasTimeout then Inl YieldWithTimeout
      else
        (let snap = Snapshot (clock X) j in
         if \<not> allowYield \<or> \<not> ecCanYield X \<or> \<not> ecRuntimeInputDelivery X \<or> \<not> Notify (snapOwner snap) \<or>
            ecSessionID X = [] \<or> SessionID (snapOwner snap) \<noteq> ecSessionID X
         then Inl ContinuationUnavailable
         else if doneClosed j > 0 then
           Inr ((marshalJobOutcome (WaitContent (jobWaitReply (clock X) (clock X) True j)) snap)
                \<lparr>RuntimeInputReceipts := [JobCompletionInputID (snapID snap)]\<rparr>)
         else
           Inr ((okResult (YieldContent i (snapStatus snap)))\<lparr>RuntimeWaitFor := [JobCompletionInputID i]\<rparr>)))"

definition waitReply :: "exec_env \<Rightarrow> wait_event \<Rightarrow> Job \<Rightarrow> tool_error + ToolResult" where
  "waitReply X ev j =
     (case ev of
        JobDone now \<Rightarrow>
          (let snap = Snapshot now j;
               res = marshalJobOutcome (WaitContent (jobWaitReply now (clock X) True j)) snap
           in Inr (if ecRuntimeInputDelivery X \<and> SessionID (snapOwner snap) = ecSessionID X
                   then res\<lparr>RuntimeInputReceipts := [JobCompletionInputID (snapID snap)]\<rparr> else res))
      | TimerFired now \<Rightarrow> Inr (okResult (WaitContent (jobWaitReply now (clock X) False j)))
      | CtxDone \<Rightarrow> Inl ContextDone)"

definition JobWait ::
  "exec_env \<Rightarrow> bool \<Rightarrow> jobWaitInput option \<Rightarrow> (int \<Rightarrow> Job \<Rightarrow> wait_event \<times> Job) \<Rightarrow> Registry \<Rightarrow> tool_error + ToolResult" where
  "JobWait X allowYield input select r =
     (case input of
        None \<Rightarrow> Inl InvalidInput
      | Some inp \<Rightarrow>
          (let i = TrimSpace (wiJobID inp) in
           if i = [] then Inl JobIDRequired
           else
             (case Get i r of
                None \<Rightarrow> Inl (UnknownJobID i)
              | Some j \<Rightarrow>
                  if wiYield inp then yieldReply X allowYield i (wiHasTimeout inp) j
                  else (let (ev, j') = select (jobWaitTimeout (wiTimeoutSeconds inp)) j in waitReply X ev j'))))"

text \<open>Specification vocabulary: what the guards ensure of the argument vector that runs, and sample data.\<close>

definition guarded ::
  "(string \<Rightarrow> string) \<Rightarrow> unicode_tables \<Rightarrow> fsenv \<Rightarrow> exec_env \<Rightarrow> string \<Rightarrow> string list \<Rightarrow> bool" where
  "guarded q U E X cmd argv =
     (case Abs E (ecWorkspaceRoot X) of
        None \<Rightarrow> False
      | Some root \<Rightarrow>
          (if ContainsChainOperators cmd \<or> ContainsCommandSubstitution cmd \<or> ContainsAssignment cmd \<or> ContainsRedirect cmd
           then argv = [''sh'', ''-c'', cmd] \<and> compoundWorkspaceRead 3 U E cmd root = [] \<and>
                checkRedirectTargets q U E (homeDir X) cmd root = []
           else \<not> ContainsShellOperators cmd \<and> SplitArgs cmd = Inr argv \<and> argv \<noteq> [] \<and>
                outsideWorkspaceRead U E argv root = []))"

definition quoteText :: "string \<Rightarrow> string" where
  "quoteText s = [DQ] @ s @ [DQ]"

definition demoEnv :: exec_env where
  "demoEnv = \<lparr>ecWorkspaceRoot = ''/w'', ecSessionID = ''s'', ecTurnID = ''t'', ecCallID = ''c'',
     ecRuntimeInputDelivery = True, ecCanYield = True, homeDir = ''/home'',
     runProcess = (\<lambda>argv. \<lparr>runStdout = [], runStderr = [], runMS = 1, runCtx = CtxLive, runErr = RunOk\<rparr>),
     freshID = ''job_1'', clock = 0, leaseErr = None, startErr = None\<rparr>"

definition demoCommand :: "string \<Rightarrow> bool \<Rightarrow> raw_message option" where
  "demoCommand c b = Some (Some (JObject [(''command'', JString c), (''background'', JBool b)]))"

definition demoRun :: "string \<Rightarrow> bool \<Rightarrow> reply option" where
  "demoRun c b = Execute quoteText asciiTables demoFS demoEnv NewRunCommandTool (demoCommand c b) (NewRegistry True)"

subsection \<open>Facts\<close>

lemma executeShell_ps:
  "executeShell q U E X t inp cmd d r = (res, ps, r') \<Longrightarrow> ps \<noteq> [] \<Longrightarrow>
   \<exists>root. Abs E (ecWorkspaceRoot X) = Some root \<and> compoundWorkspaceRead 3 U E cmd root = [] \<and>
     checkRedirectTargets q U E (homeDir X) cmd root = [] \<and>
     ps = [if inBackground inp then Background [''sh'', ''-c'', cmd] else Foreground [''sh'', ''-c'', cmd]]"
  by (auto simp: executeShell_def Let_def split: option.splits if_splits)

text \<open>C4. Whatever the arguments, run_command starts at most one process, only for a command that the policy does not block, and only after its guards: a plain command runs as its own argument vector with no path outside the workspace among what it reads; anything with shell structure runs through sh after the reads of its parts and the targets of its redirects were checked.\<close>

theorem Execute_starts:
  assumes "Execute q U E X t input r = Some (res, ps, r')" "ps \<noteq> []"
  shows "\<exists>inp cl argv. decodeInput U input = Some inp \<and>
     Classify 2 U (Policy t) (ConvertBackticks (TrimSpace (inCommand inp))) = Some cl \<and> ClDecision cl \<noteq> Block \<and>
     ps = [if inBackground inp then Background argv else Foreground argv] \<and>
     guarded q U E X (ConvertBackticks (TrimSpace (inCommand inp))) argv"
proof -
  from assms(1,2) obtain inp where i: "decodeInput U input = Some inp"
    by (auto simp: Execute_def split: option.splits)
  let ?cmd = "ConvertBackticks (TrimSpace (inCommand inp))"
  from assms(1,2) i obtain cl where c: "Classify 2 U (Policy t) ?cmd = Some cl"
    by (auto simp: Execute_def Let_def split: option.splits if_splits simp del: Classify.simps)
  have nb: "ClDecision cl \<noteq> Block"
    using assms i c by (auto simp: Execute_def Let_def split: if_splits simp del: Classify.simps)
  show ?thesis
  proof (cases "ContainsChainOperators ?cmd \<or> ContainsCommandSubstitution ?cmd \<or> ContainsAssignment ?cmd \<or> ContainsRedirect ?cmd")
    case True
    then have "executeShell q U E X t inp ?cmd (ClDecision cl) r = (res, ps, r')"
      using assms i c nb by (auto simp: Execute_def Let_def split: if_splits simp del: Classify.simps)
    from executeShell_ps [OF this assms(2)] True i c nb show ?thesis
      unfolding guarded_def
      by (intro exI [of _ inp] exI [of _ cl] exI [of _ "[''sh'', ''-c'', ?cmd]"]) auto
  next
    case False
    with assms i c nb show ?thesis
      by (auto simp: Execute_def Let_def guarded_def split: if_splits sum.splits option.splits simp del: Classify.simps)
  qed
qed

lemma ConvertBackticks_none: "Contains cmd ''`'' = False \<Longrightarrow> ConvertBackticks cmd = cmd"
  by (simp add: ConvertBackticks_def)

text \<open>When the confirmation gate does not ask and the command has no backtick, the command that runs is one the policy allows.\<close>

theorem unprompted_is_allowed:
  assumes "Execute q U E X t input r = Some (res, ps, r')" "ps \<noteq> []"
    and "SideEffectsFor U t input = Some False"
    and "decodeInput U input = Some inp" "Contains (TrimSpace (inCommand inp)) ''`'' = False"
  shows "\<exists>cl. Classify 2 U (Policy t) (TrimSpace (inCommand inp)) = Some cl \<and> ClDecision cl = Allow"
proof -
  let ?c = "TrimSpace (inCommand inp)"
  note conv = ConvertBackticks_none [OF assms(5)]
  from assms(1,2,4) conv obtain cl where c: "Classify 2 U (Policy t) ?c = Some cl" "?c \<noteq> []"
    by (auto simp: Execute_def Let_def split: option.splits if_splits simp del: Classify.simps)
  have nb: "ClDecision cl \<noteq> Block"
    using assms(1,2,4) c conv by (auto simp: Execute_def Let_def split: if_splits simp del: Classify.simps)
  from assms(3,4) c have "ClDecision cl \<noteq> Confirm"
    by (simp add: SideEffectsFor_def parseCommand_def del: Classify.simps)
  with nb c show ?thesis by (cases "ClDecision cl") auto
qed

text \<open>The timeout of job_wait is positive and capped at ninety seconds for every number of seconds up to 9223372036; from the next number on the 64-bit product wraps to a negative duration, which ends the wait at once.\<close>

theorem jobWaitTimeout_bounds:
  assumes "0 < s" "s \<le> 9223372036"
  shows "0 < jobWaitTimeout s \<and> jobWaitTimeout s = min (s * 1000000000) jobWaitMaxTimeout \<and>
     jobWaitTimeout 9223372037 < 0"
proof -
  have "wrap64 (s * 1000000000) = s * 1000000000" using assms by (simp add: wrap64_def)
  moreover have "jobWaitTimeout 9223372037 < 0" by code_simp
  ultimately show ?thesis using assms by (auto simp: jobWaitTimeout_def jobWaitMaxTimeout_def min_def)
qed

theorem runResult_failure:
  "(Failure (runResult t cmd d o') = None) =
     (runCtx o' = CtxLive \<and> (runErr o' = RunOk \<or> runErr o' = RunExit 0))"
  by (auto simp: runResult_def result_def okResult_def Let_def split: ctx_state.splits run_error.splits)

lemma Start_runs:
  assumes "jobs r (freshID X) = None"
  shows "runs (job_step q) r [OpRegister (freshID X) (clock X) cmd ow, OpAnnounce (freshID X) (clock X),
     OpLaunch (freshID X) (clock X) (leaseErr X) argv (startErr X)] (Start q X cmd argv ow r)"
proof -
  let ?i = "freshID X" and ?n = "clock X"
  let ?r1 = "registerJob ?i ?n cmd ow r"
  obtain j1 where j1: "jobs ?r1 ?i = Some j1" "jobPhase j1 = Registered" "jid j1 = ?i"
    by (simp add: registerJob_def putJob_def)
  let ?r2 = "announceJob ?n j1 ?r1"
  have j2: "jobs ?r2 ?i = Some (j1\<lparr>jobPhase := Announced\<rparr>)"
    using j1 by (simp add: announceJob_def putJob_def emit_def)
  have "Start q X cmd argv ow r = launchJob q ?n (leaseErr X) argv (startErr X) (j1\<lparr>jobPhase := Announced\<rparr>) ?r2"
    using j1 j2 by (simp add: Start_def Let_def)
  moreover have "job_step q r (OpRegister ?i ?n cmd ow) ?r1" using assms by (rule job_step.register)
  moreover have "job_step q ?r1 (OpAnnounce ?i ?n) ?r2" using j1 by (intro job_step.announce)
  moreover have "job_step q ?r2 (OpLaunch ?i ?n (leaseErr X) argv (startErr X))
      (launchJob q ?n (leaseErr X) argv (startErr X) (j1\<lparr>jobPhase := Announced\<rparr>) ?r2)"
    using j2 by (intro job_step.launch) simp_all
  ultimately show ?thesis by (auto intro: runs_Nil runs_Cons)
qed

lemma reach_runs: "runs stp s ls t \<Longrightarrow> reach init stp s \<Longrightarrow> reach init stp t"
  by (induction rule: runs.induct) (auto intro: reach_step)

lemma launchJob_order: "order (launchJob q now le argv se j r) = order r"
  by (auto simp: launchJob_def failStart_def writeOutput_def finish_def closeDone_def emit_def putJob_def Let_def
      split: option.splits)

lemma Start_order: "order (Start q X cmd argv ow r) = order r @ [freshID X]"
  by (auto simp: Start_def Let_def launchJob_order announceJob_def registerJob_def putJob_def emit_def split: option.splits)

lemma Execute_registry:
  assumes "Execute q U E X t input r = Some (res, ps, r')"
  shows "(\<exists>argv cmd. ps = [Background argv] \<and> r' = Start q X cmd argv (ownerOf X) r) \<or>
         (list_all (\<lambda>p. \<exists>argv. p = Foreground argv) ps \<and> r' = r)"
  using assms
  by (auto simp: Execute_def executeShell_def Let_def split: option.splits if_splits sum.splits simp del: Classify.simps)

text \<open>Every call of run_command takes the registry from one reachable state to another, so the life-cycle invariant of jobs holds after it, and it adds a job exactly when it starts a background process.\<close>

theorem run_command_keeps_jobs:
  assumes "reach job_init (job_step q) r" "jobs r (freshID X) = None"
    "Execute q U E X t input r = Some (res, ps, r')"
  shows "reach job_init (job_step q) r' \<and>
     order r' = order r @ (if list_ex (\<lambda>p. case p of Background _ \<Rightarrow> True | Foreground _ \<Rightarrow> False) ps then [freshID X] else [])"
  using Execute_registry [OF assms(3)]
proof (elim disjE exE conjE)
  fix argv cmd
  assume s: "ps = [Background argv]" "r' = Start q X cmd argv (ownerOf X) r"
  then show ?thesis using reach_runs [OF Start_runs [OF assms(2)] assms(1)] by (simp add: Start_order)
next
  assume "list_all (\<lambda>p. \<exists>argv. p = Foreground argv) ps" "r' = r"
  then show ?thesis using assms(1) by (auto simp: list_ex_iff list_all_iff split: proc_event.splits)
qed

lemma demo_raw: "map_option ClDecision (Classify 2 asciiTables DefaultPolicy ''ls `rm a`'') = Some Allow"
  by code_simp

lemma demo_parts:
  "TrimSpace ''ls $(rm a)'' = ''ls $(rm a)''" "peelWrappers ''ls $(rm a)'' = ''ls $(rm a)''"
  "extractCommandSubstitutions ''ls $(rm a)'' = [''rm a'']" "peelWrappers ''rm a'' = ''rm a''"
  "stripSubstitutions ''ls $(rm a)'' = ''ls '' @ [SQ, SQ]"
  "ClDecision (classifyOne asciiTables DefaultPolicy ''rm a'') = Confirm"
  by code_simp+

lemma demo_outer: "map_option ClDecision (Classify 1 asciiTables DefaultPolicy (''ls '' @ [SQ, SQ])) = Some Allow"
  by code_simp

lemma demo_converted: "map_option ClDecision (Classify 2 asciiTables DefaultPolicy ''ls $(rm a)'') = Some Confirm"
proof -
  obtain c where c: "Classify 1 asciiTables DefaultPolicy (''ls '' @ [SQ, SQ]) = Some c" "ClDecision c = Allow"
    using demo_outer by (auto simp del: Classify.simps)
  have "Classify 2 asciiTables DefaultPolicy ''ls $(rm a)'' =
      classifyWithSubstitutions (Classify 1 asciiTables DefaultPolicy) asciiTables DefaultPolicy ''ls $(rm a)'' [''rm a'']"
    using Classify.simps(2) [of 1 asciiTables DefaultPolicy "''ls $(rm a)''"]
    by (simp add: demo_parts(1-3) numeral_2_eq_2 del: Classify.simps)
  also have "map_option ClDecision \<dots> = Some (aggregate Allow Confirm)"
    using c by (simp add: classifyWithSubstitutions_def demo_parts(4-6) Let_def foldWorst_def del: Classify.simps)
  finally show ?thesis by (simp add: aggregate_def)
qed

lemma demo_conversion:
  "TrimSpace ''ls `rm a`'' = ''ls `rm a`''" "ConvertBackticks ''ls `rm a`'' = ''ls $(rm a)''"
  "ContainsCommandSubstitution ''ls $(rm a)''"
  "compoundWorkspaceRead 3 asciiTables demoFS ''ls $(rm a)'' ''/w'' = []"
  "checkRedirectTargets quoteText asciiTables demoFS ''/home'' ''ls $(rm a)'' ''/w'' = []"
  "Abs demoFS ''/w'' = Some ''/w''"
  by code_simp+

lemma demo_decode: "decodeInput U (demoCommand c b) = Some \<lparr>inCommand = c, inBackground = b\<rparr>"
  by (simp add: decodeInput_def demoCommand_def unmarshalString_def unmarshalBool_def lowerByte_def byteIn_def)

text \<open>With backticks the gate and the execution see different commands: the gate classifies the text as written and does not ask, while Execute turns the backticks into a substitution, whose classification asks for confirmation, and runs it.\<close>

theorem backtick_runs_unprompted:
  "SideEffectsFor asciiTables NewRunCommandTool (demoCommand ''ls `rm a`'' False) = Some False \<and>
   map_option (\<lambda>(res, ps, r). ps) (demoRun ''ls `rm a`'' False) = Some [Foreground [''sh'', ''-c'', ''ls $(rm a)'']] \<and>
   map_option ClDecision (Classify 2 asciiTables DefaultPolicy ''ls $(rm a)'') = Some Confirm"
proof -
  have p: "Policy NewRunCommandTool = DefaultPolicy" "ForegroundOnly NewRunCommandTool = False"
    by (simp_all add: NewRunCommandTool_def)
  obtain c1 where c1: "Classify 2 asciiTables DefaultPolicy ''ls `rm a`'' = Some c1" "ClDecision c1 = Allow"
    using demo_raw by (auto simp del: Classify.simps)
  obtain c2 where c2: "Classify 2 asciiTables DefaultPolicy ''ls $(rm a)'' = Some c2" "ClDecision c2 = Confirm"
    using demo_converted by (auto simp del: Classify.simps)
  have "SideEffectsFor asciiTables NewRunCommandTool (demoCommand ''ls `rm a`'' False) = Some False"
    using c1 by (simp add: SideEffectsFor_def parseCommand_def demo_decode demo_conversion p del: Classify.simps)
  moreover have "map_option (\<lambda>(res, ps, r). ps) (demoRun ''ls `rm a`'' False) = Some [Foreground [''sh'', ''-c'', ''ls $(rm a)'']]"
    using c2 by (simp add: demoRun_def Execute_def demo_decode demo_conversion p Let_def executeShell_def demoEnv_def
        del: Classify.simps compoundWorkspaceRead.simps)
  ultimately show ?thesis using demo_converted by blast
qed

text \<open>The redirect guard refuses a protected file but not the same file in quotes, and a quoted target directly behind the operator hides every later redirect.\<close>

theorem redirect_guard_quotes:
  "checkRedirectTargets quoteText asciiTables demoFS ''/home'' ''echo x > .env'' ''/w'' \<noteq> [] \<and>
   checkRedirectTargets quoteText asciiTables demoFS ''/home'' (''echo x > '' @ [SQ] @ ''.env'' @ [SQ]) ''/w'' = [] \<and>
   checkRedirectTargets quoteText asciiTables demoFS ''/home'' (''echo x >'' @ [SQ] @ ''a'' @ [SQ] @ '' > .env'') ''/w'' = []"
  by code_simp

theorem jobWaitTimeout_bounds_witness: "0 < jobWaitTimeout 3600 \<and> jobWaitTimeout 3600 = 90 * 1000000000"
  using jobWaitTimeout_bounds [of 3600] by (simp add: jobWaitMaxTimeout_def)

lemma demo_cat:
  "map_option (\<lambda>(res, ps, r). ps) (demoRun ''cat a'' False) = Some [Foreground [''cat'', ''a'']]"
  "TrimSpace ''cat a'' = ''cat a''" "ConvertBackticks ''cat a'' = ''cat a''" "Contains ''cat a'' ''`'' = False"
  by code_simp+

lemma demo_cat_run: "\<exists>res r'. demoRun ''cat a'' False = Some (res, [Foreground [''cat'', ''a'']], r')"
  using demo_cat(1) by auto

theorem Execute_starts_witness:
  "guarded quoteText asciiTables demoFS demoEnv ''cat a'' [''cat'', ''a'']"
proof -
  obtain res r' where e: "demoRun ''cat a'' False = Some (res, [Foreground [''cat'', ''a'']], r')"
    using demo_cat_run by blast
  from Execute_starts [OF e [unfolded demoRun_def]] show ?thesis
    by (auto simp: demo_decode demo_cat(2,3) simp del: Classify.simps)
qed

end
