(* ===== verification/Goal.thy ===== *)
theory Goal
  imports Json Transition "HOL-Library.Word"
begin

section \<open>Pursuing a goal\<close>

text \<open>
  \<^verbatim>\<open>internal/goal\<close>: a goal is a condition, a budget and what was spent so far.  The engine alternates a turn of
  the worker and a verdict of a separate judge until the goal is achieved, blocked, over budget,
  paused or failing, and saves the goal at every boundary.  The worker, the judge, the store and the
  clock are parameters, indexed by the iteration of the loop; so is the JSON parser of replies.  The
  loop may run for ever, so the model takes the number of iterations it may make and None says that it
  has not returned by then.
\<close>

unbundle bit_operations_syntax

subsection \<open>The goal and its session\<close>

datatype Status =
    StatusActive | StatusAchieved | StatusPaused | StatusBudgetLimited | StatusBlocked | StatusErrored
  | StatusCleared

record Budget =
  MaxTurns :: int
  MaxTokens :: int
  MaxWall :: int

record Spend =
  Turns :: int
  Tokens :: int
  Wall :: int

record Goal =
  SessionID :: string
  Objective :: string
  gStatus :: Status
  gBudget :: Budget
  Spent :: Spend
  CheckerNote :: string
  StatusNote :: string
  stallSig :: string
  stallCount :: int
  gdiff :: string

definition overBudget :: "(int \<Rightarrow> string) \<Rightarrow> Goal \<Rightarrow> string option" where
  "overBudget dur g =
     (let b = gBudget g; s = Spent g in
      if MaxTurns b > 0 \<and> Turns s \<ge> MaxTurns b then Some (''reached MaxTurns ('' @ intString (MaxTurns b) @ '')'')
      else if MaxTokens b > 0 \<and> Tokens s \<ge> MaxTokens b then Some (''reached MaxTokens ('' @ intString (MaxTokens b) @ '')'')
      else if MaxWall b > 0 \<and> Wall s \<ge> MaxWall b then Some (''reached MaxWall ('' @ dur (MaxWall b) @ '')'')
      else None)"

text \<open>The session metadata holds at most two goals.  Decoding a value goes through its JSON text, which
  has no unexported fields.\<close>

record GoalSession =
  sessID :: string
  metadata :: "string \<rightharpoonup> Goal"

definition metadataKey :: string where "metadataKey = ''goal''"
definition archiveKey :: string where "archiveKey = ''goal_last''"

definition decoded :: "Goal \<Rightarrow> Goal" where
  "decoded g = g\<lparr>stallSig := [], stallCount := 0, gdiff := []\<rparr>"

definition IntoSession :: "Goal \<Rightarrow> GoalSession \<Rightarrow> GoalSession" where
  "IntoSession g s = s\<lparr>metadata := (metadata s)(metadataKey \<mapsto> g)\<rparr>"

definition decodeGoalAt :: "GoalSession \<Rightarrow> string \<Rightarrow> bool \<Rightarrow> string + Goal option" where
  "decodeGoalAt s key checkSession =
     (case metadata s key of
        None \<Rightarrow> Inr None
      | Some g \<Rightarrow>
          if checkSession \<and> SessionID g \<noteq> [] \<and> sessID s \<noteq> [] \<and> SessionID g \<noteq> sessID s
          then Inl ''goal session mismatch''
          else Inr (Some (decoded g)))"

definition FromSession :: "GoalSession \<Rightarrow> string + Goal option" where
  "FromSession s = decodeGoalAt s metadataKey True"

definition Last :: "GoalSession \<Rightarrow> string + Goal option" where
  "Last s = decodeGoalAt s archiveKey False"

definition Clear :: "GoalSession \<Rightarrow> GoalSession" where
  "Clear s = s\<lparr>metadata := (metadata s)(metadataKey := None)\<rparr>"

definition Archive :: "GoalSession \<Rightarrow> GoalSession" where
  "Archive s =
     (case FromSession s of
        Inr (Some g) \<Rightarrow> s\<lparr>metadata := ((metadata s)(archiveKey \<mapsto> g))(metadataKey := None)\<rparr>
      | _ \<Rightarrow> s)"

subsection \<open>Evidence\<close>

datatype Role = RoleSystem | RoleUser | RoleAssistant | RoleTool

record message =
  mRole :: Role
  mContent :: string
  mToolCallID :: string
  mToolCalls :: "(string \<times> string) list"     \<comment> \<open>identifier and function name\<close>

definition EvidenceTools :: "string list" where
  "EvidenceTools = [''run_command'', ''git_diff'', ''job_logs'']"

definition defaultMaxEvidenceBytes :: nat where "defaultMaxEvidenceBytes = 6000"
definition defaultPerResultBytes :: nat where "defaultPerResultBytes = 1500"

definition tail :: "string \<Rightarrow> nat \<Rightarrow> string" where
  "tail s n = (if length s \<le> n then s else [CHR 0xE2, CHR 0x80, CHR 0xA6] @ drop (length s - n) s)"

text \<open>The name of a call; a missing key of a Go map reads as the empty string.\<close>

definition callName :: "message list \<Rightarrow> string \<Rightarrow> string" where
  "callName msgs i =
     (case map_of (rev (concat (map mToolCalls msgs))) i of Some n \<Rightarrow> n | None \<Rightarrow> [])"

definition pickOne :: "message list \<Rightarrow> message \<Rightarrow> string list" where
  "pickOne msgs m =
     (if mRole m \<noteq> RoleTool then []
      else if callName msgs (mToolCallID m) \<notin> set EvidenceTools then []
      else [''['' @ callName msgs (mToolCallID m) @ '']'' @ [NL] @ tail (mContent m) defaultPerResultBytes])"

definition picked :: "message list \<Rightarrow> string list" where
  "picked msgs = concat (map (pickOne msgs) msgs)"

text \<open>The newest results first, until the budget is reached; the list is the picked results reversed.\<close>

fun gather :: "string \<Rightarrow> string list \<Rightarrow> string" where
  "gather out [] = out"
| "gather out (p # ps) =
     (if out \<noteq> [] \<and> length out + length p + 2 > defaultMaxEvidenceBytes then out
      else if out = [] then gather p ps
      else gather (p @ [NL, NL] @ out) ps)"

definition Evidence :: "message list \<Rightarrow> string" where
  "Evidence msgs = gather [] (rev (picked msgs))"

text \<open>\<open>fingerprint\<close>: FNV-1a with 64 bits, in hexadecimal.\<close>

definition fnvStep :: "char \<Rightarrow> 64 word \<Rightarrow> 64 word" where
  "fnvStep c h = (h XOR of_char c) * 1099511628211"

definition fnv64a :: "string \<Rightarrow> 64 word" where
  "fnv64a s = fold fnvStep s 14695981039346656037"

definition hexDigit :: "nat \<Rightarrow> char" where
  "hexDigit d = (if d < 10 then char_of (48 + d) else char_of (87 + d))"

fun hexString :: "nat \<Rightarrow> string" where
  "hexString n = (if n < 16 then [hexDigit n] else hexString (n div 16) @ [hexDigit (n mod 16)])"

declare hexString.simps [simp del]

definition fingerprint :: "string \<Rightarrow> string" where
  "fingerprint evidence = hexString (unat (fnv64a (TrimSpace evidence)))"

subsection \<open>The judge and the admission check\<close>

record CheckResult =
  Met :: bool
  Blocked :: bool
  Reason :: string

record AdmitResult =
  admitOK :: bool
  Fuzzy :: bool
  admitReason :: string

definition carveJSON :: "string \<Rightarrow> string" where
  "carveJSON raw =
     (let s = TrimSpace raw in
      case Index s [CHR 0x7B] of
        None \<Rightarrow> s
      | Some i \<Rightarrow>
          (case LastIndexByte s (CHR 0x7D) of
             None \<Rightarrow> s
           | Some j \<Rightarrow> if j \<ge> i then take (j + 1 - i) (drop i s) else s))"

definition truncateText :: "string \<Rightarrow> nat \<Rightarrow> string" where
  "truncateText s n = (if length s \<le> n then s else take n s @ [CHR 0xE2, CHR 0x80, CHR 0xA6])"

text \<open>A verdict decoded from a reply, with the JSON parser as a parameter.\<close>

definition parseCheckJSON :: "unicode_tables \<Rightarrow> (string \<Rightarrow> raw_message) \<Rightarrow> string \<Rightarrow> CheckResult" where
  "parseCheckJSON U parse raw =
     (let v = parse (carveJSON raw) in
      case (unmarshalBool U ''met'' v, unmarshalBool U ''blocked'' v, unmarshalString U ''reason'' v) of
        (Some m, Some b, Some w) \<Rightarrow> \<lparr>Met = m, Blocked = b, Reason = w\<rparr>
      | _ \<Rightarrow> \<lparr>Met = False, Blocked = False, Reason = ''checker output unparseable: '' @ truncateText raw 200\<rparr>)"

definition parseAdmitJSON :: "unicode_tables \<Rightarrow> (string \<Rightarrow> raw_message) \<Rightarrow> string \<Rightarrow> AdmitResult" where
  "parseAdmitJSON U parse raw =
     (let v = parse (carveJSON raw) in
      case (unmarshalBool U ''ok'' v, unmarshalBool U ''fuzzy'' v, unmarshalString U ''reason'' v) of
        (Some k, Some f, Some w) \<Rightarrow> \<lparr>admitOK = k, Fuzzy = f, admitReason = w\<rparr>
      | _ \<Rightarrow> \<lparr>admitOK = True, Fuzzy = True, admitReason =
          [CHR 0xE5, CHR 0x87, CHR 0x86, CHR 0xE5, CHR 0x85, CHR 0xA5, CHR 0xE5, CHR 0x88, CHR 0xA4,
          CHR 0xE5, CHR 0xAE, CHR 0x9A, CHR 0xE8, CHR 0xBE, CHR 0x93, CHR 0xE5, CHR 0x87, CHR 0xBA,
          CHR 0xE6, CHR 0x97, CHR 0xA0, CHR 0xE6, CHR 0xB3, CHR 0x95, CHR 0xE8, CHR 0xA7, CHR 0xA3,
          CHR 0xE6, CHR 0x9E, CHR 0x90] @ '','' @ [CHR 0xE4, CHR 0xBB, CHR 0x8E, CHR 0xE5, CHR 0xAE,
          CHR 0xBD, CHR 0xE6, CHR 0x94, CHR 0xBE, CHR 0xE8, CHR 0xA1, CHR 0x8C]\<rparr>)"

record model_request =
  reqSessionID :: string
  reqModel :: string
  reqSystem :: string
  reqUser :: string

definition checkerSystem :: string where
  "checkerSystem =
     [CHR 0xE4, CHR 0xBD, CHR 0xA0, CHR 0xE6, CHR 0x98, CHR 0xAF, CHR 0xE7, CHR 0x9B, CHR 0xAE,
     CHR 0xE6, CHR 0xA0, CHR 0x87, CHR 0xE8, CHR 0xBE, CHR 0xBE, CHR 0xE6, CHR 0x88, CHR 0x90,
     CHR 0xE8, CHR 0xAF, CHR 0x84, CHR 0xE5, CHR 0x88, CHR 0xA4, CHR 0xE8, CHR 0x80, CHR 0x85,
     CHR 0xE3, CHR 0x80, CHR 0x82, CHR 0xE5, CHR 0x8F, CHR 0xAA, CHR 0xE4, CHR 0xBE, CHR 0x9D,
     CHR 0xE6, CHR 0x8D, CHR 0xAE, CHR 0xE6, CHR 0x8F, CHR 0x90, CHR 0xE4, CHR 0xBE, CHR 0x9B,
     CHR 0xE7, CHR 0x9A, CHR 0x84, CHR 0xE8, CHR 0xAF, CHR 0x81, CHR 0xE6, CHR 0x8D, CHR 0xAE,
     CHR 0xE5, CHR 0x88, CHR 0xA4, CHR 0xE6, CHR 0x96, CHR 0xAD, CHR 0xE6, CHR 0x9D, CHR 0xA1,
     CHR 0xE4, CHR 0xBB, CHR 0xB6, CHR 0xE6, CHR 0x98, CHR 0xAF, CHR 0xE5, CHR 0x90, CHR 0xA6,
     CHR 0xE6, CHR 0xBB, CHR 0xA1, CHR 0xE8, CHR 0xB6, CHR 0xB3] @ '','' @ [CHR 0xE8, CHR 0xAF,
     CHR 0x81, CHR 0xE6, CHR 0x8D, CHR 0xAE, CHR 0xE4, CHR 0xB8, CHR 0x8D, CHR 0xE8, CHR 0xB6,
     CHR 0xB3, CHR 0xE6, CHR 0x97, CHR 0xB6, CHR 0xE5, CHR 0x88, CHR 0xA4, CHR 0xE6, CHR 0x9C,
     CHR 0xAA, CHR 0xE6, CHR 0xBB, CHR 0xA1, CHR 0xE8, CHR 0xB6, CHR 0xB3, CHR 0xE3, CHR 0x80,
     CHR 0x82, CHR 0xE4, CHR 0xB8, CHR 0x8D, CHR 0xE8, CHR 0xA6, CHR 0x81, CHR 0xE8, CHR 0x87,
     CHR 0x86, CHR 0xE6, CHR 0xB5, CHR 0x8B, CHR 0xE3, CHR 0x80, CHR 0x81, CHR 0xE4, CHR 0xB8,
     CHR 0x8D, CHR 0xE8, CHR 0xA6, CHR 0x81, CHR 0xE6, CHR 0x9B, CHR 0xBF, CHR 0xE5, CHR 0xB7,
     CHR 0xA5, CHR 0xE4, CHR 0xBD, CHR 0x9C, CHR 0xE6, CHR 0xA8, CHR 0xA1, CHR 0xE5, CHR 0x9E,
     CHR 0x8B, CHR 0xE8, CHR 0xBE, CHR 0xA9, CHR 0xE6, CHR 0x8A, CHR 0xA4, CHR 0xE3, CHR 0x80,
     CHR 0x82, CHR 0xE8, CHR 0x8B, CHR 0xA5, CHR 0xE7, CHR 0x9B, CHR 0xAE, CHR 0xE6, CHR 0xA0,
     CHR 0x87, CHR 0xE5, CHR 0x90, CHR 0xAB, CHR 0xE7, CHR 0xBA, CHR 0xA6, CHR 0xE6, CHR 0x9D,
     CHR 0x9F] @ ''('' @ [CHR 0xE5, CHR 0xA6, CHR 0x82, CHR 0xE3, CHR 0x80, CHR 0x8C, CHR 0xE4,
     CHR 0xB8, CHR 0x8D, CHR 0xE5, CHR 0xBE, CHR 0x97, CHR 0xE4, CHR 0xBF, CHR 0xAE, CHR 0xE6,
     CHR 0x94, CHR 0xB9, CHR 0xE6, CHR 0xB5, CHR 0x8B, CHR 0xE8, CHR 0xAF, CHR 0x95, CHR 0xE6,
     CHR 0x96, CHR 0x87, CHR 0xE4, CHR 0xBB, CHR 0xB6, CHR 0xE3, CHR 0x80, CHR 0x8D, CHR 0xE3,
     CHR 0x80, CHR 0x8C, CHR 0xE4, CHR 0xB8, CHR 0x8D, CHR 0xE5, CHR 0xBE, CHR 0x97] @ '' hardcode ''
     @ [CHR 0xE9, CHR 0xA2, CHR 0x84, CHR 0xE6, CHR 0x9C, CHR 0x9F, CHR 0xE8, CHR 0xBE, CHR 0x93,
     CHR 0xE5, CHR 0x87, CHR 0xBA, CHR 0xE3, CHR 0x80, CHR 0x8D] @ ''),'' @ [CHR 0xE4, CHR 0xBE,
     CHR 0x9D, CHR 0xE6, CHR 0x8D, CHR 0xAE] @ '' git diff '' @ [CHR 0xE6, CHR 0xA0, CHR 0xB8,
     CHR 0xE5, CHR 0xAF, CHR 0xB9, CHR 0xE6, CHR 0x98, CHR 0xAF, CHR 0xE5, CHR 0x90, CHR 0xA6,
     CHR 0xE8, CHR 0xA2, CHR 0xAB, CHR 0xE8, CHR 0xBF, CHR 0x9D, CHR 0xE5, CHR 0x8F, CHR 0x8D] @ '';''
     @ [CHR 0xE8, CHR 0xBF, CHR 0x9D, CHR 0xE5, CHR 0x8F, CHR 0x8D, CHR 0xE7, CHR 0xBA, CHR 0xA6,
     CHR 0xE6, CHR 0x9D, CHR 0x9F, CHR 0xE5, CHR 0x8D, CHR 0xB3, CHR 0xE5, CHR 0x88, CHR 0xA4,
     CHR 0xE6, CHR 0x9C, CHR 0xAA, CHR 0xE6, CHR 0xBB, CHR 0xA1, CHR 0xE8, CHR 0xB6, CHR 0xB3] @ '',''
     @ [CHR 0xE5, CHR 0xB9, CHR 0xB6, CHR 0xE5, CHR 0x9C, CHR 0xA8] @ '' reason '' @ [CHR 0xE6,
     CHR 0x8C, CHR 0x87, CHR 0xE5, CHR 0x87, CHR 0xBA, CHR 0xE3, CHR 0x80, CHR 0x82, CHR 0xE5,
     CHR 0x8F, CHR 0xAA, CHR 0xE8, CHR 0xBE, CHR 0x93, CHR 0xE5, CHR 0x87, CHR 0xBA, CHR 0xE4,
     CHR 0xB8, CHR 0xA5, CHR 0xE6, CHR 0xA0, CHR 0xBC] @ '' JSON:{'' @ [CHR 0x22] @ ''met''
     @ [CHR 0x22] @ '':bool,'' @ [CHR 0x22] @ ''blocked'' @ [CHR 0x22] @ '':bool,'' @ [CHR 0x22]
     @ ''reason'' @ [CHR 0x22] @ '':string},'' @ [CHR 0xE4, CHR 0xB8, CHR 0x8D, CHR 0xE8, CHR 0xA6,
     CHR 0x81, CHR 0xE4, CHR 0xBB, CHR 0xBB, CHR 0xE4, CHR 0xBD, CHR 0x95, CHR 0xE9, CHR 0xA2,
     CHR 0x9D, CHR 0xE5, CHR 0xA4, CHR 0x96, CHR 0xE6, CHR 0x96, CHR 0x87, CHR 0xE5, CHR 0xAD,
     CHR 0x97, CHR 0xE3, CHR 0x80, CHR 0x82]"

definition admitterSystem :: string where
  "admitterSystem =
     [CHR 0xE4, CHR 0xBD, CHR 0xA0, CHR 0xE6, CHR 0x98, CHR 0xAF] @ '' /goal '' @ [CHR 0xE7, CHR 0x9B,
     CHR 0xAE, CHR 0xE6, CHR 0xA0, CHR 0x87, CHR 0xE5, CHR 0x87, CHR 0x86, CHR 0xE5, CHR 0x85,
     CHR 0xA5, CHR 0xE5, CHR 0x88, CHR 0xA4, CHR 0xE5, CHR 0xAE, CHR 0x9A, CHR 0xE5, CHR 0x99,
     CHR 0xA8, CHR 0xE3, CHR 0x80, CHR 0x82] @ ''/goal '' @ [CHR 0xE9, CHR 0x80, CHR 0x82, CHR 0xE5,
     CHR 0x90, CHR 0x88, CHR 0xE8, CHR 0xBF, CHR 0x99, CHR 0xE6, CHR 0xA0, CHR 0xB7, CHR 0xE7,
     CHR 0x9A, CHR 0x84, CHR 0xE7, CHR 0x9B, CHR 0xAE, CHR 0xE6, CHR 0xA0, CHR 0x87] @ '':''
     @ [CHR 0xE6, CHR 0x9C, CHR 0x89, CHR 0xE5, CHR 0xAE, CHR 0xA2, CHR 0xE8, CHR 0xA7, CHR 0x82,
     CHR 0xE3, CHR 0x80, CHR 0x81, CHR 0xE5, CHR 0x8F, CHR 0xAF, CHR 0xE6, CHR 0x9C, CHR 0xBA,
     CHR 0xE6, CHR 0xA3, CHR 0x80, CHR 0xE7, CHR 0x9A, CHR 0x84, CHR 0xE7, CHR 0xBB, CHR 0x88,
     CHR 0xE7, CHR 0x82, CHR 0xB9] @ ''('' @ [CHR 0xE6, CHR 0xB5, CHR 0x8B, CHR 0xE8, CHR 0xAF,
     CHR 0x95, CHR 0xE9, CHR 0x80, CHR 0x9A, CHR 0xE8, CHR 0xBF, CHR 0x87] @ '' / build '' @ [CHR 0xE6,
     CHR 0x88, CHR 0x90, CHR 0xE5, CHR 0x8A, CHR 0x9F] @ '' / '' @ [CHR 0xE6, CHR 0x9F, CHR 0x90,
     CHR 0xE5, CHR 0x91, CHR 0xBD, CHR 0xE4, CHR 0xBB, CHR 0xA4, CHR 0xE9, CHR 0x80, CHR 0x80,
     CHR 0xE5, CHR 0x87, CHR 0xBA, CHR 0xE7, CHR 0xA0, CHR 0x81, CHR 0xE4, CHR 0xB8, CHR 0xBA]
     @ '' 0 / '' @ [CHR 0xE8, CHR 0xA6, CHR 0x86, CHR 0xE7, CHR 0x9B, CHR 0x96, CHR 0xE7, CHR 0x8E,
     CHR 0x87, CHR 0xE8, CHR 0xBE, CHR 0xBE, CHR 0xE9, CHR 0x98, CHR 0x88, CHR 0xE5, CHR 0x80,
     CHR 0xBC] @ '' / eval '' @ [CHR 0xE5, CHR 0x88, CHR 0x86, CHR 0xE6, CHR 0x95, CHR 0xB0, CHR 0xE8,
     CHR 0xBE, CHR 0xBE, CHR 0xE6, CHR 0xA0, CHR 0x87, CHR 0xE7, CHR 0xAD, CHR 0x89] @ ''),''
     @ [CHR 0xE9, CHR 0x80, CHR 0xBC, CHR 0xE8, CHR 0xBF, CHR 0x91, CHR 0xE8, CHR 0xBF, CHR 0x87,
     CHR 0xE7, CHR 0xA8, CHR 0x8B, CHR 0xE6, CHR 0x98, CHR 0xAF, CHR 0xE3, CHR 0x80, CHR 0x8C,
     CHR 0xE6, CHR 0x94, CHR 0xB9, CHR 0xE4, CHR 0xB8, CHR 0x80, CHR 0xE7, CHR 0x89, CHR 0x88,
     CHR 0xE3, CHR 0x80, CHR 0x81, CHR 0xE9, CHR 0xAA, CHR 0x8C, CHR 0xE4, CHR 0xB8, CHR 0x80,
     CHR 0xE7, CHR 0x89, CHR 0x88, CHR 0xE3, CHR 0x80, CHR 0x8D, CHR 0xE7, CHR 0x9A, CHR 0x84,
     CHR 0xE6, CHR 0x9C, CHR 0xBA, CHR 0xE6, CHR 0xA2, CHR 0xB0, CHR 0xE8, CHR 0xBF, CHR 0xAD,
     CHR 0xE4, CHR 0xBB, CHR 0xA3, CHR 0xE3, CHR 0x80, CHR 0x82, NL, CHR 0xE5, CHR 0x88, CHR 0xA4,
     CHR 0xE5, CHR 0xAE, CHR 0x9A, CHR 0xE7, CHR 0xBB, CHR 0x99, CHR 0xE5, CHR 0xAE, CHR 0x9A,
     CHR 0xE7, CHR 0x9B, CHR 0xAE, CHR 0xE6, CHR 0xA0, CHR 0x87, CHR 0xE6, CHR 0x98, CHR 0xAF,
     CHR 0xE5, CHR 0x90, CHR 0xA6, CHR 0xE9, CHR 0x80, CHR 0x82, CHR 0xE5, CHR 0x90, CHR 0x88]
     @ '' /goal,'' @ [CHR 0xE5, CHR 0x8F, CHR 0xAA, CHR 0xE8, CHR 0xBE, CHR 0x93, CHR 0xE5, CHR 0x87,
     CHR 0xBA, CHR 0xE4, CHR 0xB8, CHR 0xA5, CHR 0xE6, CHR 0xA0, CHR 0xBC] @ '' JSON:{'' @ [CHR 0x22]
     @ ''ok'' @ [CHR 0x22] @ '':bool,'' @ [CHR 0x22] @ ''fuzzy'' @ [CHR 0x22] @ '':bool,'' @ [CHR 0x22]
     @ ''reason'' @ [CHR 0x22] @ '':string},'' @ [CHR 0xE4, CHR 0xB8, CHR 0x8D, CHR 0xE8, CHR 0xA6,
     CHR 0x81, CHR 0xE4, CHR 0xBB, CHR 0xBB, CHR 0xE4, CHR 0xBD, CHR 0x95, CHR 0xE9, CHR 0xA2,
     CHR 0x9D, CHR 0xE5, CHR 0xA4, CHR 0x96, CHR 0xE6, CHR 0x96, CHR 0x87, CHR 0xE5, CHR 0xAD,
     CHR 0x97, CHR 0xE3, CHR 0x80, CHR 0x82, NL] @ ''- ok=true:'' @ [CHR 0xE8, CHR 0x83, CHR 0xBD,
     CHR 0xE4, CHR 0xB8, CHR 0xBA, CHR 0xE5, CHR 0xAE, CHR 0x83, CHR 0xE5, CHR 0x86, CHR 0x99,
     CHR 0xE5, CHR 0x87, CHR 0xBA, CHR 0xE4, CHR 0xB8, CHR 0x80, CHR 0xE6, CHR 0x9D, CHR 0xA1]
     @ '' verify '' @ [CHR 0xE5, CHR 0x91, CHR 0xBD, CHR 0xE4, CHR 0xBB, CHR 0xA4] @ '','' @ [CHR 0xE6,
     CHR 0x88, CHR 0x96, CHR 0xE4, CHR 0xB8, CHR 0x80, CHR 0xE4, CHR 0xB8, CHR 0xAA, CHR 0xE5,
     CHR 0x8F, CHR 0xAF, CHR 0xE7, CHR 0x94, CHR 0xB1, CHR 0xE8, CHR 0xAF, CHR 0x81, CHR 0xE6,
     CHR 0x8D, CHR 0xAE, CHR 0xE6, CHR 0x9C, CHR 0xBA, CHR 0xE6, CHR 0xA3, CHR 0x80, CHR 0xE7,
     CHR 0x9A, CHR 0x84, CHR 0xE5, CHR 0x88, CHR 0xA4, CHR 0xE5, CHR 0xAE, CHR 0x9A, CHR 0xE3,
     CHR 0x80, CHR 0x82, NL] @ ''  - fuzzy=false:'' @ [CHR 0xE6, CHR 0x9C, CHR 0x89, CHR 0xE5,
     CHR 0xB9, CHR 0xB2, CHR 0xE5, CHR 0x87, CHR 0x80, CHR 0xE7, CHR 0x9A, CHR 0x84, CHR 0xE5,
     CHR 0x91, CHR 0xBD, CHR 0xE4, CHR 0xBB, CHR 0xA4, CHR 0xE5, CHR 0xBC, CHR 0x8F, CHR 0xE7,
     CHR 0xBB, CHR 0x88, CHR 0xE7, CHR 0x82, CHR 0xB9] @ ''('' @ [CHR 0xE5, CHR 0xA6, CHR 0x82,
     CHR 0xE3, CHR 0x80, CHR 0x8C] @ ''go test '' @ [CHR 0xE9, CHR 0x80, CHR 0x9A, CHR 0xE8, CHR 0xBF,
     CHR 0x87, CHR 0xE3, CHR 0x80, CHR 0x8D] @ '')'' @ [CHR 0xE3, CHR 0x80, CHR 0x82, NL]
     @ ''  - fuzzy=true:'' @ [CHR 0xE5, CHR 0x8F, CHR 0xAA, CHR 0xE8, CHR 0x83, CHR 0xBD, CHR 0xE7,
     CHR 0x94, CHR 0xB1, CHR 0xE8, CHR 0xAF, CHR 0x81, CHR 0xE6, CHR 0x8D, CHR 0xAE, CHR 0xE5,
     CHR 0xA4, CHR 0xA7, CHR 0xE8, CHR 0x87, CHR 0xB4, CHR 0xE5, CHR 0x88, CHR 0xA4, CHR 0xE5,
     CHR 0xAE, CHR 0x9A, CHR 0xE3, CHR 0x80, CHR 0x81, CHR 0xE6, CHR 0xB2, CHR 0xA1, CHR 0xE6,
     CHR 0x9C, CHR 0x89, CHR 0xE5, CHR 0xB9, CHR 0xB2, CHR 0xE5, CHR 0x87, CHR 0x80, CHR 0xE5,
     CHR 0x91, CHR 0xBD, CHR 0xE4, CHR 0xBB, CHR 0xA4] @ ''('' @ [CHR 0xE8, CHR 0xA3, CHR 0x81,
     CHR 0xE5, CHR 0x88, CHR 0xA4, CHR 0xE5, CHR 0x8F, CHR 0xAF, CHR 0xE9, CHR 0x9D, CHR 0xA0,
     CHR 0xE6, CHR 0x80, CHR 0xA7, CHR 0xE8, CHR 0xBE, CHR 0x83, CHR 0xE4, CHR 0xBD, CHR 0x8E] @ '')''
     @ [CHR 0xE3, CHR 0x80, CHR 0x82, NL] @ ''- ok=false:'' @ [CHR 0xE6, CHR 0xB2, CHR 0xA1, CHR 0xE6,
     CHR 0x9C, CHR 0x89, CHR 0xE4, CHR 0xBB, CHR 0xBB, CHR 0xE4, CHR 0xBD, CHR 0x95, CHR 0xE5,
     CHR 0x8F, CHR 0xAF, CHR 0xE9, CHR 0xAA, CHR 0x8C, CHR 0xE8, CHR 0xAF, CHR 0x81, CHR 0xE7,
     CHR 0xBB, CHR 0x88, CHR 0xE7, CHR 0x82, CHR 0xB9] @ ''('' @ [CHR 0xE5, CHR 0xA6, CHR 0x82,
     CHR 0xE3, CHR 0x80, CHR 0x8C, CHR 0xE6, CHR 0x8A, CHR 0x8A, CHR 0xE4, CHR 0xBB, CHR 0xA3,
     CHR 0xE7, CHR 0xA0, CHR 0x81, CHR 0xE5, CHR 0x86, CHR 0x99, CHR 0xE4, CHR 0xBC, CHR 0x98,
     CHR 0xE9, CHR 0x9B, CHR 0x85, CHR 0xE3, CHR 0x80, CHR 0x8D, CHR 0xE3, CHR 0x80, CHR 0x8C,
     CHR 0xE5, CHR 0xB8, CHR 0xAE, CHR 0xE6, CHR 0x88, CHR 0x91, CHR 0xE8, CHR 0xB5, CHR 0x9A,
     CHR 0xE9, CHR 0x92, CHR 0xB1, CHR 0xE3, CHR 0x80, CHR 0x8D, CHR 0xE3, CHR 0x80, CHR 0x8C,
     CHR 0xE5, CHR 0xAE, CHR 0x8C, CHR 0xE5, CHR 0x96, CHR 0x84, CHR 0xE4, CHR 0xB8, CHR 0x80,
     CHR 0xE4, CHR 0xB8, CHR 0x8B, CHR 0xE5, CHR 0x8A, CHR 0x9F, CHR 0xE8, CHR 0x83, CHR 0xBD,
     CHR 0xE3, CHR 0x80, CHR 0x8D] @ ''),'' @ [NL] @ ''  '' @ [CHR 0xE6, CHR 0x88, CHR 0x96, CHR 0xE9,
     CHR 0x9C, CHR 0x80, CHR 0xE8, CHR 0xA6, CHR 0x81, CHR 0xE6, CHR 0x89, CHR 0xA7, CHR 0xE8,
     CHR 0xA1, CHR 0x8C, CHR 0xE9, CHR 0xAB, CHR 0x98, CHR 0xE9, CHR 0xA3, CHR 0x8E, CHR 0xE9,
     CHR 0x99, CHR 0xA9, CHR 0xE7, CHR 0x9C, CHR 0x9F, CHR 0xE5, CHR 0xAE, CHR 0x9E, CHR 0xE5,
     CHR 0x8A, CHR 0xA8, CHR 0xE4, CHR 0xBD, CHR 0x9C] @ ''('' @ [CHR 0xE5, CHR 0x8A, CHR 0xA8,
     CHR 0xE8, CHR 0xB4, CHR 0xA6, CHR 0xE6, CHR 0x88, CHR 0xB7] @ '' / '' @ [CHR 0xE6, CHR 0x94,
     CHR 0xB6, CHR 0xE4, CHR 0xBB, CHR 0x98, CHR 0xE6, CHR 0xAC, CHR 0xBE] @ '' / '' @ [CHR 0xE5,
     CHR 0x88, CHR 0xA0, CHR 0xE9, CHR 0x99, CHR 0xA4, CHR 0xE6, CHR 0x95, CHR 0xB0, CHR 0xE6,
     CHR 0x8D, CHR 0xAE] @ '' / '' @ [CHR 0xE5, CHR 0xAF, CHR 0xB9, CHR 0xE5, CHR 0xA4, CHR 0x96,
     CHR 0xE5, CHR 0x8F, CHR 0x91, CHR 0xE5, CHR 0xB8, CHR 0x83, CHR 0xE5, CHR 0x86, CHR 0x85,
     CHR 0xE5, CHR 0xAE, CHR 0xB9] @ '')'' @ [CHR 0xE3, CHR 0x80, CHR 0x82, NL] @ ''reason ''
     @ [CHR 0xE7, CHR 0x94, CHR 0xA8, CHR 0xE4, CHR 0xB8, CHR 0xAD, CHR 0xE6, CHR 0x96, CHR 0x87,
     CHR 0xE7, CHR 0xAE, CHR 0x80, CHR 0xE8, CHR 0xBF, CHR 0xB0, CHR 0xE7, CHR 0x90, CHR 0x86,
     CHR 0xE7, CHR 0x94, CHR 0xB1] @ '';ok=false '' @ [CHR 0xE6, CHR 0x97, CHR 0xB6, CHR 0xE5,
     CHR 0xBF, CHR 0x85, CHR 0xE9, CHR 0xA1, CHR 0xBB, CHR 0xE8, CHR 0xAF, CHR 0xB4, CHR 0xE6,
     CHR 0x98, CHR 0x8E, CHR 0xE4, CHR 0xB8, CHR 0xBA, CHR 0xE4, CHR 0xBD, CHR 0x95, CHR 0xE4,
     CHR 0xB8, CHR 0x8D, CHR 0xE9, CHR 0x80, CHR 0x82, CHR 0xE5, CHR 0x90, CHR 0x88] @ '',''
     @ [CHR 0xE5, CHR 0xB9, CHR 0xB6, CHR 0xE5, CHR 0xBB, CHR 0xBA, CHR 0xE8, CHR 0xAE, CHR 0xAE,
     CHR 0xE5, CHR 0xA6, CHR 0x82, CHR 0xE4, CHR 0xBD, CHR 0x95, CHR 0xE6, CHR 0x94, CHR 0xB9,
     CHR 0xE5, CHR 0x86, CHR 0x99, CHR 0xE6, CHR 0x88, CHR 0x90, CHR 0xE4, CHR 0xB8, CHR 0x80,
     CHR 0xE4, CHR 0xB8, CHR 0xAA, CHR 0xE5, CHR 0x8F, CHR 0xAF, CHR 0xE9, CHR 0xAA, CHR 0x8C,
     CHR 0xE8, CHR 0xAF, CHR 0x81, CHR 0xE7, CHR 0x9A, CHR 0x84, CHR 0xE7, CHR 0x9B, CHR 0xAE,
     CHR 0xE6, CHR 0xA0, CHR 0x87, CHR 0xE3, CHR 0x80, CHR 0x82, NL, CHR 0xE4, CHR 0xBF, CHR 0xA1,
     CHR 0xE6, CHR 0x81, CHR 0xAF, CHR 0xE4, CHR 0xB8, CHR 0x8D, CHR 0xE8, CHR 0xB6, CHR 0xB3,
     CHR 0xE4, CHR 0xBB, CHR 0xA5, CHR 0xE5, CHR 0x88, CHR 0xA4, CHR 0xE6, CHR 0x96, CHR 0xAD,
     CHR 0xE6, CHR 0x97, CHR 0xB6, CHR 0xE4, CHR 0xBB, CHR 0x8E, CHR 0xE5, CHR 0xAE, CHR 0xBD]
     @ '' ok=true('' @ [CHR 0xE8, CHR 0xAE, CHR 0xA9, CHR 0xE5, CHR 0xBE, CHR 0xAA, CHR 0xE7, CHR 0x8E,
     CHR 0xAF, CHR 0xE5, CHR 0x8E, CHR 0xBB, CHR 0xE5, CHR 0xB0, CHR 0x9D, CHR 0xE8, CHR 0xAF,
     CHR 0x95] @ ''),'' @ [CHR 0xE4, CHR 0xBD, CHR 0x86, CHR 0xE7, CHR 0xBD, CHR 0xAE]
     @ '' fuzzy=true'' @ [CHR 0xE3, CHR 0x80, CHR 0x82]"

text \<open>\<open>complete\<close> is the provider: an error or the text of the reply.\<close>

definition Check ::
  "unicode_tables \<Rightarrow> (string \<Rightarrow> raw_message) \<Rightarrow> (model_request \<Rightarrow> 'e + string) \<Rightarrow> string \<Rightarrow> Goal \<Rightarrow> string \<Rightarrow>
   'e + CheckResult" where
  "Check U parse complete mdl g evidence =
     (let user =
            [CHR 0xE7, CHR 0x9B, CHR 0xAE, CHR 0xE6, CHR 0xA0, CHR 0x87, CHR 0xE6, CHR 0x9D, CHR 0xA1,
            CHR 0xE4, CHR 0xBB, CHR 0xB6] @ '':'' @ [NL] @ Objective g @
            [NL, NL, CHR 0xE5, CHR 0xB7, CHR 0xB2, CHR 0xE8, CHR 0xA7, CHR 0x82, CHR 0xE5, CHR 0xAF,
            CHR 0x9F, CHR 0xE8, CHR 0xAF, CHR 0x81, CHR 0xE6, CHR 0x8D, CHR 0xAE] @ ''('' @ [CHR 0xE4,
            CHR 0xBB, CHR 0x85, CHR 0xE4, CHR 0xBB, CHR 0xA5, CHR 0xE4, CHR 0xB8, CHR 0x8B, CHR 0xE5,
            CHR 0x86, CHR 0x85, CHR 0xE5, CHR 0xAE, CHR 0xB9, CHR 0xE4, CHR 0xB8, CHR 0xBA, CHR 0xE5,
            CHR 0x87, CHR 0x86] @ ''):'' @ [NL] @ evidence;
          user' = (if gdiff g \<noteq> [] then user @
            [NL, NL, CHR 0xE6, CHR 0x9C, CHR 0xAC, CHR 0xE8, CHR 0xBD, CHR 0xAE, CHR 0xE5, CHR 0xB7,
            CHR 0xA5, CHR 0xE4, CHR 0xBD, CHR 0x9C, CHR 0xE5, CHR 0x8C, CHR 0xBA, CHR 0xE5, CHR 0xAE,
            CHR 0x9E, CHR 0xE9, CHR 0x99, CHR 0x85, CHR 0xE6, CHR 0x94, CHR 0xB9, CHR 0xE5, CHR 0x8A,
            CHR 0xA8] @ ''(git diff '' @ [CHR 0xE2, CHR 0x80, CHR 0x94, CHR 0xE2, CHR 0x80, CHR 0x94]
            @ '' '' @ [CHR 0xE5, CHR 0xAE, CHR 0x8C, CHR 0xE6, CHR 0x95, CHR 0xB4, CHR 0xE4, CHR 0xBA,
            CHR 0x8B, CHR 0xE5, CHR 0xAE, CHR 0x9E] @ '',worker '' @ [CHR 0xE6, CHR 0x9C, CHR 0xAA,
            CHR 0xE5, CHR 0xBF, CHR 0x85, CHR 0xE4, CHR 0xB8, CHR 0xBB, CHR 0xE5, CHR 0x8A, CHR 0xA8,
            CHR 0xE5, CHR 0xB1, CHR 0x95, CHR 0xE7, CHR 0xA4, CHR 0xBA] @ ''):'' @ [NL] @ gdiff g
            else user)
      in case complete \<lparr>reqSessionID = SessionID g, reqModel = mdl, reqSystem = checkerSystem, reqUser = user'\<rparr> of
           Inl e \<Rightarrow> Inl e
         | Inr reply \<Rightarrow> Inr (parseCheckJSON U parse reply))"

definition Admit ::
  "unicode_tables \<Rightarrow> (string \<Rightarrow> raw_message) \<Rightarrow> (model_request \<Rightarrow> 'e + string) \<Rightarrow> string \<Rightarrow> string \<Rightarrow> string \<Rightarrow>
   'e + AdmitResult" where
  "Admit U parse complete sid mdl objective =
     (case complete \<lparr>reqSessionID = sid, reqModel = mdl, reqSystem = admitterSystem, reqUser =
          [CHR 0xE7, CHR 0x9B, CHR 0xAE, CHR 0xE6, CHR 0xA0, CHR 0x87] @ '':'' @ [NL] @ objective\<rparr> of
        Inl e \<Rightarrow> Inl e
      | Inr reply \<Rightarrow> Inr (parseAdmitJSON U parse reply))"

subsection \<open>The engine\<close>

definition renderContinuation :: "string \<Rightarrow> string \<Rightarrow> string" where
  "renderContinuation objective gradient =
     (if gradient = [] then
       [CHR 0xE7, CHR 0xBB, CHR 0xA7, CHR 0xE7, CHR 0xBB, CHR 0xAD, CHR 0xE6, CHR 0x9C, CHR 0x9D,
       CHR 0xE7, CHR 0x9B, CHR 0xAE, CHR 0xE6, CHR 0xA0, CHR 0x87, CHR 0xE6, CHR 0x8E, CHR 0xA8,
       CHR 0xE8, CHR 0xBF, CHR 0x9B] @ '':'' @ [NL] @ objective
      else
       [CHR 0xE7, CHR 0x9B, CHR 0xAE, CHR 0xE6, CHR 0xA0, CHR 0x87, CHR 0xE5, CHR 0xB0, CHR 0x9A,
       CHR 0xE6, CHR 0x9C, CHR 0xAA, CHR 0xE8, CHR 0xBE, CHR 0xBE, CHR 0xE6, CHR 0x88, CHR 0x90]
       @ '':'' @ [NL] @ objective @
       [NL, NL, CHR 0xE8, CHR 0xAF, CHR 0x84, CHR 0xE5, CHR 0x88, CHR 0xA4, CHR 0xE5, CHR 0x8F,
       CHR 0x8D, CHR 0xE9, CHR 0xA6, CHR 0x88] @ ''('' @ [CHR 0xE4, CHR 0xB8, CHR 0x8A, CHR 0xE8,
       CHR 0xBD, CHR 0xAE, CHR 0xE4, CHR 0xB8, CHR 0xBA, CHR 0xE4, CHR 0xBD, CHR 0x95, CHR 0xE6,
       CHR 0x9C, CHR 0xAA, CHR 0xE8, CHR 0xBE, CHR 0xBE, CHR 0xE6, CHR 0x88, CHR 0x90] @ ''):'' @ [NL] @ gradient @
       [NL, NL, CHR 0xE8, CHR 0xAF, CHR 0xB7, CHR 0xE6, CHR 0x8D, CHR 0xAE, CHR 0xE6, CHR 0xAD,
       CHR 0xA4, CHR 0xE7, CHR 0xBB, CHR 0xA7, CHR 0xE7, CHR 0xBB, CHR 0xAD, CHR 0xE6, CHR 0x8E,
       CHR 0xA8, CHR 0xE8, CHR 0xBF, CHR 0x9B] @ '','' @ [CHR 0xE4, CHR 0xBC, CHR 0x98, CHR 0xE5,
       CHR 0x85, CHR 0x88, CHR 0xE6, CHR 0xB6, CHR 0x88, CHR 0xE9, CHR 0x99, CHR 0xA4, CHR 0xE4,
       CHR 0xB8, CHR 0x8A, CHR 0xE9, CHR 0x9D, CHR 0xA2, CHR 0xE6, CHR 0x8C, CHR 0x87, CHR 0xE5,
       CHR 0x87, CHR 0xBA, CHR 0xE7, CHR 0x9A, CHR 0x84, CHR 0xE5, CHR 0xB7, CHR 0xAE, CHR 0xE8,
       CHR 0xB7, CHR 0x9D, CHR 0xE3, CHR 0x80, CHR 0x82])"

definition workerInput :: "Goal \<Rightarrow> string" where
  "workerInput g =
     (if Turns (Spent g) > 0 then renderContinuation (Objective g) (CheckerNote g) else Objective g)"

text \<open>An error of the worker or the judge: its text and whether it is permanent, that is a model API
  error that must not be retried.\<close>

record engine_error =
  errText :: string
  isPermanent :: bool

datatype worker_outcome = WorkerOk | WorkerCanceled | WorkerError engine_error

text \<open>The surroundings of a run, by iteration: whether the pause flag is set at the boundary, the tokens
  and the outcome of the worker's turn on its input, the messages of the session after it, the judge's
  answer at each attempt, the diff (when there is a diff function), the time since the start when the
  wall clock is read, and whether the n-th save succeeds.\<close>

record engine_env =
  paused :: "nat \<Rightarrow> bool"
  runTurn :: "nat \<Rightarrow> string \<Rightarrow> int \<times> worker_outcome"
  messages :: "nat \<Rightarrow> message list"
  judge :: "nat \<Rightarrow> nat \<Rightarrow> Goal \<Rightarrow> string \<Rightarrow> engine_error + CheckResult"
  diffFunc :: "(nat \<Rightarrow> string) option"
  sinceStart :: "nat \<Rightarrow> int"
  saveOk :: "nat \<Rightarrow> bool"
  durString :: "int \<Rightarrow> string"

record Engine =
  StallLimit :: int
  MaxErrors :: int
  snap :: "Goal option"
  saved :: "Goal list"
  saves :: nat

definition stallLimit :: "Engine \<Rightarrow> int" where
  "stallLimit e = (if StallLimit e > 0 then StallLimit e else 5)"

definition maxErrors :: "Engine \<Rightarrow> int" where
  "maxErrors e = (if MaxErrors e > 0 then MaxErrors e else 3)"

definition defaultMaxTurns :: int where "defaultMaxTurns = 50"

text \<open>\<open>persist\<close>: a snapshot is published only after a successful save.\<close>

definition persist :: "engine_env \<Rightarrow> Goal \<Rightarrow> Engine \<Rightarrow> bool \<times> Engine" where
  "persist N g e =
     (if saveOk N (saves e)
      then (True, e\<lparr>saves := saves e + 1, saved := saved e @ [g], snap := Some g\<rparr>)
      else (False, e\<lparr>saves := saves e + 1\<rparr>))"

definition bumpWall :: "engine_env \<Rightarrow> int \<Rightarrow> nat \<Rightarrow> Goal \<Rightarrow> Goal" where
  "bumpWall N prior k g = g\<lparr>Spent := (Spent g)\<lparr>Wall := prior + sinceStart N k\<rparr>\<rparr>"

datatype pursue_end = Settled | PersistFailed

definition settle ::
  "engine_env \<Rightarrow> int \<Rightarrow> nat \<Rightarrow> Status \<Rightarrow> string \<Rightarrow> Goal \<Rightarrow> Engine \<Rightarrow> pursue_end \<times> Goal \<times> Engine" where
  "settle N prior k s note g e =
     (let g' = bumpWall N prior k (g\<lparr>gStatus := s, StatusNote := note\<rparr>);
          (ok, e') = persist N g' e
      in (if ok then Settled else PersistFailed, g', e'))"

text \<open>\<open>check\<close>: the judge is asked again on a transient error; the first argument is how many attempts
  are left after this one.\<close>

fun checkLoop :: "nat \<Rightarrow> nat \<Rightarrow> (nat \<Rightarrow> engine_error + CheckResult) \<Rightarrow> engine_error + CheckResult" where
  "checkLoop left attempt ask =
     (case ask attempt of
        Inr r \<Rightarrow> Inr r
      | Inl err \<Rightarrow>
          if isPermanent err then Inl err
          else (case left of 0 \<Rightarrow> Inl err | Suc left' \<Rightarrow> checkLoop left' (attempt + 1) ask))"

declare checkLoop.simps [simp del]

definition check :: "engine_env \<Rightarrow> Engine \<Rightarrow> nat \<Rightarrow> Goal \<Rightarrow> engine_error + CheckResult" where
  "check N e k g =
     checkLoop (nat (maxErrors e)) 0 (\<lambda>attempt. judge N k attempt g (Evidence (messages N k)))"

text \<open>What one iteration does: leave the loop, or go on with the error counter and the goal.\<close>

datatype iter_end = Leave pursue_end Goal Engine | Next int Goal Engine

definition boundary :: "engine_env \<Rightarrow> int \<Rightarrow> nat \<Rightarrow> int \<Rightarrow> Goal \<Rightarrow> Engine \<Rightarrow> iter_end" where
  "boundary N prior k consec g e =
     (let g' = bumpWall N prior k g; (ok, e') = persist N g' e in
      if ok then Next consec g' e' else Leave PersistFailed g' e')"

definition leave :: "pursue_end \<times> Goal \<times> Engine \<Rightarrow> iter_end" where
  "leave x = (case x of (r, g, e) \<Rightarrow> Leave r g e)"

definition noProgress :: "engine_env \<Rightarrow> int \<Rightarrow> nat \<Rightarrow> Goal \<Rightarrow> Engine \<Rightarrow> iter_end" where
  "noProgress N prior k g e =
     (let ev = Evidence (messages N k) in
      if ev = [] then boundary N prior k 0 g e
      else if fingerprint ev = stallSig g then
        (let g' = g\<lparr>stallCount := stallCount g + 1\<rparr> in
         if stallCount g' \<ge> stallLimit e
         then leave (settle N prior k StatusBlocked (''no progress across '' @ intString (stallCount g') @ '' turns'') g' e)
         else boundary N prior k 0 g' e)
      else boundary N prior k 0 (g\<lparr>stallSig := fingerprint ev, stallCount := 0\<rparr>) e)"

definition judged :: "engine_env \<Rightarrow> int \<Rightarrow> nat \<Rightarrow> Goal \<Rightarrow> Engine \<Rightarrow> iter_end" where
  "judged N prior k g e =
     (case check N e k g of
        Inl err \<Rightarrow>
          (case boundary N prior k 0 g e of
             Leave r g' e' \<Rightarrow> Leave r g' e'
           | Next c g' e' \<Rightarrow> leave (settle N prior k StatusErrored (''checker error: '' @ errText err) g' e'))
      | Inr chk \<Rightarrow>
          (let g' = g\<lparr>CheckerNote := Reason chk\<rparr> in
           if Blocked chk then leave (settle N prior k StatusBlocked (Reason chk) g' e)
           else if Met chk then leave (settle N prior k StatusAchieved (Reason chk) g' e)
           else noProgress N prior k g' e))"

definition iteration :: "engine_env \<Rightarrow> int \<Rightarrow> nat \<Rightarrow> int \<Rightarrow> Goal \<Rightarrow> Engine \<Rightarrow> iter_end" where
  "iteration N prior k consec g e =
     (if paused N k then leave (settle N prior k StatusPaused ''paused at turn boundary'' g e)
      else
        (case overBudget (durString N) g of
           Some why \<Rightarrow> leave (settle N prior k StatusBudgetLimited why g e)
         | None \<Rightarrow>
             (let (used, out) = runTurn N k (workerInput g);
                  g1 = g\<lparr>Spent := (Spent g)\<lparr>Tokens := Tokens (Spent g) + used\<rparr>\<rparr>
              in case out of
                   WorkerCanceled \<Rightarrow> leave (settle N prior k StatusPaused ''interrupted'' g1 e)
                 | WorkerError err \<Rightarrow>
                     (case boundary N prior k (consec + 1) g1 e of
                        Leave r g' e' \<Rightarrow> Leave r g' e'
                      | Next c g' e' \<Rightarrow>
                          if isPermanent err \<or> c > maxErrors e
                          then leave (settle N prior k StatusErrored (''worker error: '' @ errText err) g' e')
                          else Next c g' e')
                 | WorkerOk \<Rightarrow>
                     (let g2 = g1\<lparr>Spent := (Spent g1)\<lparr>Turns := Turns (Spent g1) + 1\<rparr>\<rparr>;
                          g3 = (case diffFunc N of None \<Rightarrow> g2 | Some f \<Rightarrow> g2\<lparr>gdiff := f k\<rparr>)
                      in judged N prior k g3 e))))"

fun pursueLoop ::
  "nat \<Rightarrow> engine_env \<Rightarrow> int \<Rightarrow> nat \<Rightarrow> int \<Rightarrow> Goal \<Rightarrow> Engine \<Rightarrow> (pursue_end \<times> Goal \<times> Engine) option" where
  "pursueLoop 0 N prior k consec g e = None"
| "pursueLoop (Suc n) N prior k consec g e =
     (case iteration N prior k consec g e of
        Leave r g' e' \<Rightarrow> Some (r, g', e')
      | Next c g' e' \<Rightarrow> pursueLoop n N prior (k + 1) c g' e')"

definition noBudget :: Budget where
  "noBudget = \<lparr>MaxTurns = 0, MaxTokens = 0, MaxWall = 0\<rparr>"

definition startGoal :: "Goal \<Rightarrow> Goal" where
  "startGoal g =
     (if gBudget g = noBudget then g\<lparr>gBudget := (gBudget g)\<lparr>MaxTurns := defaultMaxTurns\<rparr>, gStatus := StatusActive\<rparr>
      else g\<lparr>gStatus := StatusActive\<rparr>)"

definition Pursue :: "nat \<Rightarrow> engine_env \<Rightarrow> Goal \<Rightarrow> Engine \<Rightarrow> (pursue_end \<times> Goal \<times> Engine) option" where
  "Pursue n N g e = pursueLoop n N (Wall (Spent g)) 0 0 (startGoal g) e"

text \<open>Specification vocabulary: a verdict that justifies success, an acceptable end, a turn without evidence, and sample data.\<close>

definition verdictAt :: "engine_env \<Rightarrow> Goal \<Rightarrow> bool" where
  "verdictAt N g \<longleftrightarrow> (\<exists>k e g0 chk. check N e k g0 = Inr chk \<and> Met chk \<and> \<not> Blocked chk \<and> Reason chk = CheckerNote g)"

definition goodEnd :: "engine_env \<Rightarrow> Goal \<Rightarrow> Engine \<Rightarrow> bool" where
  "goodEnd N g e \<longleftrightarrow>
     gStatus g \<in> {StatusAchieved, StatusPaused, StatusBudgetLimited, StatusBlocked, StatusErrored} \<and>
     (\<exists>earlier. saved e = earlier @ [g]) \<and> snap e = Some g \<and>
     (gStatus g \<noteq> StatusAchieved \<or> verdictAt N g)"

definition research :: "message list \<Rightarrow> message list \<Rightarrow> bool" where
  "research msgs new =
     (list_all (\<lambda>m. pickOne (msgs @ new) m = []) new \<and>
      list_all (\<lambda>m. mRole m \<noteq> RoleTool \<or> callName (msgs @ new) (mToolCallID m) = callName msgs (mToolCallID m)) msgs)"

definition idleEnv :: engine_env where
  "idleEnv = \<lparr>paused = (\<lambda>k. False), runTurn = (\<lambda>k s. (0, WorkerOk)), messages = (\<lambda>k. []),
     judge = (\<lambda>k a g ev. Inr \<lparr>Met = False, Blocked = False, Reason = []\<rparr>), diffFunc = None,
     sinceStart = (\<lambda>k. 0), saveOk = (\<lambda>i. True), durString = intString\<rparr>"

definition demoGoal :: "int \<Rightarrow> int \<Rightarrow> Goal" where
  "demoGoal turns tokens = \<lparr>SessionID = ''s'', Objective = ''tests pass'', gStatus = StatusPaused,
     gBudget = \<lparr>MaxTurns = turns, MaxTokens = tokens, MaxWall = 0\<rparr>, Spent = \<lparr>Turns = 0, Tokens = 0, Wall = 0\<rparr>,
     CheckerNote = [], StatusNote = [], stallSig = [], stallCount = 0, gdiff = []\<rparr>"

definition demoEngine :: Engine where
  "demoEngine = \<lparr>StallLimit = 0, MaxErrors = 0, snap = None, saved = [], saves = 0\<rparr>"

definition demoMsgs :: "message list" where
  "demoMsgs = [\<lparr>mRole = RoleAssistant, mContent = [], mToolCallID = [], mToolCalls = [(''c1'', ''run_command'')]\<rparr>,
     \<lparr>mRole = RoleTool, mContent = ''FAIL'', mToolCallID = ''c1'', mToolCalls = []\<rparr>]"

definition demoResearch :: "message list" where
  "demoResearch = [\<lparr>mRole = RoleAssistant, mContent = [], mToolCallID = [], mToolCalls = [(''c2'', ''edit_file'')]\<rparr>,
     \<lparr>mRole = RoleTool, mContent = ''ok'', mToolCallID = ''c2'', mToolCalls = []\<rparr>]"

subsection \<open>Facts\<close>

lemma settle_parts:
  "settle N prior k s note g e = (r, g', e') \<Longrightarrow>
     gStatus g' = s \<and> StatusNote g' = note \<and> gBudget g' = gBudget g \<and> CheckerNote g' = CheckerNote g \<and>
     Turns (Spent g') = Turns (Spent g) \<and> Tokens (Spent g') = Tokens (Spent g) \<and>
     (r = Settled \<longrightarrow> saved e' = saved e @ [g'] \<and> snap e' = Some g')"
  by (auto simp: settle_def persist_def bumpWall_def Let_def split: if_splits)

lemma boundary_Next:
  "boundary N prior k consec g e = Next c g' e' \<Longrightarrow>
     c = consec \<and> gBudget g' = gBudget g \<and> Turns (Spent g') = Turns (Spent g) \<and> gStatus g' = gStatus g \<and>
     MaxErrors e' = MaxErrors e \<and> StallLimit e' = StallLimit e \<and> saved e' = saved e @ [g']"
  by (auto simp: boundary_def persist_def bumpWall_def Let_def split: if_splits prod.splits)

lemma boundary_Leave: "boundary N prior k consec g e = Leave r g' e' \<Longrightarrow> r = PersistFailed \<and> Turns (Spent g') = Turns (Spent g) \<and> gBudget g' = gBudget g"
  by (auto simp: boundary_def persist_def bumpWall_def Let_def split: if_splits prod.splits)

lemma leave_Leave [simp]: "leave x \<noteq> Next c g e"
  by (auto simp: leave_def split: prod.splits)

lemma leave_eq: "leave x = Leave r g e \<longleftrightarrow> x = (r, g, e)"
  by (auto simp: leave_def split: prod.splits)

lemma noProgress_Next:
  "noProgress N prior k g e = Next c g' e' \<Longrightarrow>
     c = 0 \<and> gBudget g' = gBudget g \<and> Turns (Spent g') = Turns (Spent g) \<and>
     MaxErrors e' = MaxErrors e \<and> StallLimit e' = StallLimit e"
  by (auto simp: noProgress_def Let_def split: if_splits dest!: boundary_Next)

lemma judged_Next:
  "judged N prior k g e = Next c g' e' \<Longrightarrow>
     c = 0 \<and> gBudget g' = gBudget g \<and> Turns (Spent g') = Turns (Spent g) \<and>
     MaxErrors e' = MaxErrors e \<and> StallLimit e' = StallLimit e"
  by (auto simp: judged_def Let_def split: if_splits sum.splits iter_end.splits dest!: noProgress_Next)

lemma iteration_Next:
  assumes "iteration N prior k consec g e = Next c g' e'"
  shows "overBudget (durString N) g = None \<and> gBudget g' = gBudget g \<and> maxErrors e' = maxErrors e \<and>
     (c = consec + 1 \<and> c \<le> maxErrors e \<and> Turns (Spent g') = Turns (Spent g) \<or>
      c = 0 \<and> Turns (Spent g') = Turns (Spent g) + 1)"
  using assms
  by (auto simp: iteration_def Let_def maxErrors_def
           split: if_splits option.splits prod.splits worker_outcome.splits iter_end.splits
           dest!: judged_Next boundary_Next)

lemma overBudget_turns: "overBudget dur g = None \<Longrightarrow> MaxTurns (gBudget g) > 0 \<Longrightarrow> Turns (Spent g) < MaxTurns (gBudget g)"
  by (auto simp: overBudget_def Let_def split: if_splits)

lemma maxErrors_pos: "maxErrors e > 0"
  by (simp add: maxErrors_def)

lemma pursueLoop_returns:
  assumes "MaxTurns (gBudget g) > 0" "0 \<le> consec" "consec \<le> maxErrors e"
    "nat (MaxTurns (gBudget g) - Turns (Spent g)) * (nat (maxErrors e) + 1) + nat (maxErrors e - consec) < n"
  shows "\<exists>x. pursueLoop n N prior k consec g e = Some x"
  using assms
proof (induction n arbitrary: k consec g e)
  case (Suc n)
  show ?case
  proof (cases "iteration N prior k consec g e")
    case (Next c g' e')
    note nx = iteration_Next [OF Next]
    let ?M = "nat (maxErrors e)" and ?T = "nat (MaxTurns (gBudget g) - Turns (Spent g))"
    have T: "?T > 0" using overBudget_turns nx Suc.prems(1) by auto
    have "nat (MaxTurns (gBudget g') - Turns (Spent g')) * (nat (maxErrors e') + 1) + nat (maxErrors e' - c) < n"
    proof (cases "c = 0 \<and> Turns (Spent g') = Turns (Spent g) + 1")
      case True
      then have "nat (MaxTurns (gBudget g') - Turns (Spent g')) = ?T - 1" using nx by auto
      then have "nat (MaxTurns (gBudget g') - Turns (Spent g')) * (?M + 1) + ?M < ?T * (?M + 1)"
        using T by (cases ?T) auto
      then show ?thesis using True nx Suc.prems(4) by simp
    next
      case False
      then have "c = consec + 1" "c \<le> maxErrors e" "Turns (Spent g') = Turns (Spent g)" using nx by auto
      then show ?thesis using nx Suc.prems by simp
    qed
    moreover have "0 \<le> c" "c \<le> maxErrors e'" using nx Suc.prems maxErrors_pos [of e'] by auto
    ultimately show ?thesis using Suc.IH [of g' c e' "k + 1"] nx Suc.prems(1) Next by simp
  qed simp
qed simp

lemma startGoal_parts:
  "Turns (Spent (startGoal g)) = Turns (Spent g)" "Spent (startGoal g) = Spent g"
  "gBudget (startGoal g) = (if gBudget g = noBudget then noBudget\<lparr>MaxTurns := defaultMaxTurns\<rparr> else gBudget g)"
  by (auto simp: startGoal_def)

text \<open>C13. A pursuit with a limit on turns, or with no budget at all, returns whatever the worker, the judge and the store do: at most the tolerated errors lie between two turns, so the stated number of iterations is enough.\<close>

theorem Pursue_returns:
  assumes "gBudget g = noBudget \<or> MaxTurns (gBudget g) > 0"
    and "nat (MaxTurns (gBudget (startGoal g)) - Turns (Spent g)) * (nat (maxErrors e) + 1) + nat (maxErrors e) < n"
  shows "\<exists>x. Pursue n N g e = Some x"
  unfolding Pursue_def
  using assms maxErrors_pos [of e]
  by (intro pursueLoop_returns) (auto simp: startGoal_parts noBudget_def defaultMaxTurns_def)

lemma settle_good:
  "settle N prior k s note g e = (Settled, g', e') \<Longrightarrow>
   s \<in> {StatusPaused, StatusBudgetLimited, StatusBlocked, StatusErrored} \<or>
     s = StatusAchieved \<and> verdictAt N g \<Longrightarrow> goodEnd N g' e'"
  by (drule settle_parts) (auto simp: goodEnd_def verdictAt_def)

lemma noProgress_good: "noProgress N prior k g e = Leave Settled g' e' \<Longrightarrow> goodEnd N g' e'"
  by (auto simp: noProgress_def Let_def leave_eq split: if_splits dest!: settle_good boundary_Leave)

lemma verdictAtI:
  "check N e k g = Inr chk \<Longrightarrow> Met chk \<Longrightarrow> \<not> Blocked chk \<Longrightarrow> verdictAt N (g\<lparr>CheckerNote := Reason chk\<rparr>)"
  unfolding verdictAt_def by (intro exI [of _ k] exI [of _ e] exI [of _ g] exI [of _ chk]) simp

lemma judged_good: "judged N prior k g e = Leave Settled g' e' \<Longrightarrow> goodEnd N g' e'"
  by (auto simp: judged_def Let_def leave_eq
           split: if_splits sum.splits iter_end.splits
           dest!: noProgress_good boundary_Leave intro: settle_good verdictAtI)

lemma iteration_good: "iteration N prior k consec g e = Leave Settled g' e' \<Longrightarrow> goodEnd N g' e'"
  by (auto simp: iteration_def Let_def leave_eq
           split: if_splits option.splits prod.splits worker_outcome.splits iter_end.splits
           dest!: judged_good boundary_Leave intro: settle_good)

lemma pursueLoop_good: "pursueLoop n N prior k consec g e = Some (Settled, g', e') \<Longrightarrow> goodEnd N g' e'"
  by (induction n arbitrary: k consec g e) (auto split: iter_end.splits dest: iteration_good)

lemma noProgress_turns: "noProgress N prior k g e = Leave r g' e' \<Longrightarrow> Turns (Spent g') = Turns (Spent g)"
  by (auto simp: noProgress_def Let_def leave_eq split: if_splits dest!: settle_parts boundary_Leave)

lemma judged_turns: "judged N prior k g e = Leave r g' e' \<Longrightarrow> Turns (Spent g') = Turns (Spent g)"
  by (auto simp: judged_def Let_def leave_eq
           split: if_splits sum.splits iter_end.splits
           dest!: noProgress_turns boundary_Leave settle_parts boundary_Next)

lemma iteration_turns:
  "iteration N prior k consec g e = Leave r g' e' \<Longrightarrow>
   Turns (Spent g') = Turns (Spent g) \<or> overBudget (durString N) g = None \<and> Turns (Spent g') = Turns (Spent g) + 1"
  by (auto simp: iteration_def Let_def leave_eq
           split: if_splits option.splits prod.splits worker_outcome.splits iter_end.splits
           dest!: judged_turns boundary_Leave settle_parts boundary_Next)

lemma pursueLoop_turns:
  "pursueLoop n N prior k consec g e = Some (r, g', e') \<Longrightarrow> MaxTurns (gBudget g) > 0 \<Longrightarrow>
   Turns (Spent g') \<le> max (Turns (Spent g)) (MaxTurns (gBudget g))"
proof (induction n arbitrary: k consec g e)
  case (Suc n)
  show ?case
  proof (cases "iteration N prior k consec g e")
    case (Leave r' g1 e1)
    then show ?thesis
      using Suc.prems iteration_turns [OF Leave] overBudget_turns [of "durString N" g] by auto
  next
    case (Next c g1 e1)
    then show ?thesis
      using Suc iteration_Next [OF Next] overBudget_turns [of "durString N" g] by fastforce
  qed
qed simp

text \<open>C14. When a pursuit settles, its status is one of the five final ones, the goal with that status is what was saved and published last, achieved is reported only after a verdict of the judge that the condition is met, and the limit on turns was not exceeded.\<close>

theorem Pursue_outcome:
  assumes "Pursue n N g e = Some (Settled, g', e')"
  shows "gStatus g' \<in> {StatusAchieved, StatusPaused, StatusBudgetLimited, StatusBlocked, StatusErrored} \<and>
     (\<exists>earlier. saved e' = earlier @ [g']) \<and> snap e' = Some g' \<and>
     (gStatus g' = StatusAchieved \<longrightarrow>
        (\<exists>k e0 g0 chk. check N e0 k g0 = Inr chk \<and> Met chk \<and> \<not> Blocked chk \<and> Reason chk = CheckerNote g')) \<and>
     (MaxTurns (gBudget (startGoal g)) > 0 \<longrightarrow>
        Turns (Spent g') \<le> max (Turns (Spent g)) (MaxTurns (gBudget (startGoal g))))"
  using pursueLoop_good [OF assms [unfolded Pursue_def]] pursueLoop_turns [OF assms [unfolded Pursue_def]]
  by (auto simp: goodEnd_def verdictAt_def startGoal_parts)

text \<open>A budget of tokens alone does not bound a pursuit: with a worker whose usage is reported as zero no number of iterations ends it.\<close>

theorem Pursue_token_budget_unbounded:
  "Pursue n idleEnv (demoGoal 0 100) demoEngine = None"
proof -
  have "pursueLoop n idleEnv prior k consec g e = None"
    if "MaxTurns (gBudget g) = 0" "MaxWall (gBudget g) = 0" "Tokens (Spent g) = 0" "MaxTokens (gBudget g) = 100"
    for n prior k consec g e
    using that
  proof (induction n arbitrary: k consec g e)
    case (Suc n)
    have "\<exists>g' e'. iteration idleEnv prior k consec g e = Next 0 g' e' \<and> gBudget g' = gBudget g \<and> Tokens (Spent g') = 0"
      using Suc.prems
      by (simp add: iteration_def idleEnv_def overBudget_def Let_def judged_def check_def checkLoop.simps
          noProgress_def Evidence_def picked_def boundary_def persist_def bumpWall_def)
    then show ?case using Suc by fastforce
  qed simp
  then show ?thesis by (simp add: Pursue_def startGoal_def demoGoal_def noBudget_def)
qed

theorem Pursue_returns_witness:
  "\<exists>x. Pursue 300 idleEnv (demoGoal 0 0) demoEngine = Some x"
  by (rule Pursue_returns)
     (simp_all add: demoGoal_def noBudget_def startGoal_def defaultMaxTurns_def maxErrors_def demoEngine_def)

theorem Pursue_outcome_witness:
  "\<exists>g' e'. Pursue 3 idleEnv (demoGoal 1 0) demoEngine = Some (Settled, g', e') \<and>
     (\<exists>earlier. saved e' = earlier @ [g']) \<and> Turns (Spent g') \<le> 1"
proof -
  have "\<exists>g' e'. Pursue 3 idleEnv (demoGoal 1 0) demoEngine = Some (Settled, g', e')" 
    by (simp add: Pursue_def numeral_3_eq_3 demoGoal_def startGoal_def noBudget_def iteration_def idleEnv_def
      overBudget_def Let_def judged_def check_def checkLoop.simps noProgress_def Evidence_def picked_def boundary_def
      persist_def bumpWall_def settle_def leave_def demoEngine_def)
  then obtain g' e' where p: "Pursue 3 idleEnv (demoGoal 1 0) demoEngine = Some (Settled, g', e')" by blast
  have b: "MaxTurns (gBudget (startGoal (demoGoal 1 0))) = 1" "Turns (Spent (demoGoal 1 0)) = 0"
    by (simp_all add: demoGoal_def startGoal_def noBudget_def)
  from Pursue_outcome [OF p] p show ?thesis unfolding b by auto
qed

lemma Join_Cons: "ps \<noteq> [] \<Longrightarrow> Join (p # ps) sep = p @ sep @ Join ps sep"
  by (cases ps) auto

lemma Join_nonempty: "ps \<noteq> [] \<Longrightarrow> [] \<notin> set ps \<Longrightarrow> Join ps sep \<noteq> []"
  by (cases ps rule: remdups_adj.cases) auto

lemma gather_suffix:
  "[] \<notin> set (ps @ recent) \<Longrightarrow> length recent \<le> 1 \<or> length (Join recent [NL, NL]) \<le> defaultMaxEvidenceBytes \<Longrightarrow>
   \<exists>more older. rev ps = older @ more \<and> gather (Join recent [NL, NL]) ps = Join (more @ recent) [NL, NL] \<and>
     (ps = [] \<or> more @ recent \<noteq> []) \<and>
     (length (more @ recent) \<le> 1 \<or> length (Join (more @ recent) [NL, NL]) \<le> defaultMaxEvidenceBytes)"
proof (induction ps arbitrary: recent)
  case (Cons p ps)
  let ?out = "Join recent [NL, NL]"
  have empty: "?out = [] \<longleftrightarrow> recent = []" using Cons.prems Join_nonempty [of recent] by auto
  show ?case
  proof (cases "recent \<noteq> [] \<and> length ?out + length p + 2 > defaultMaxEvidenceBytes")
    case True
    then have "gather ?out (p # ps) = ?out" using empty by simp
    with True Cons.prems show ?thesis by (intro exI [of _ "[]"] exI [of _ "rev (p # ps)"]) simp
  next
    case False
    have step: "gather ?out (p # ps) = gather (Join (p # recent) [NL, NL]) ps"
      using False empty by (cases "recent = []") (auto simp: Join_Cons)
    have "length (p # recent) \<le> 1 \<or> length (Join (p # recent) [NL, NL]) \<le> defaultMaxEvidenceBytes"
      using False by (cases "recent = []") (auto simp: Join_Cons)
    with Cons.IH [of "p # recent"] Cons.prems(1) obtain more older where
      m: "rev ps = older @ more" "gather (Join (p # recent) [NL, NL]) ps = Join (more @ p # recent) [NL, NL]"
        "length (more @ p # recent) \<le> 1 \<or> length (Join (more @ p # recent) [NL, NL]) \<le> defaultMaxEvidenceBytes"
      by auto
    then show ?thesis unfolding step by (intro exI [of _ "more @ [p]"] exI [of _ older]) simp
  qed
qed simp

lemma picked_nonempty: "[] \<notin> set (picked msgs)"
  by (auto simp: picked_def pickOne_def split: if_splits)

lemma tail_length: "length (tail s n) \<le> n + 3"
  by (auto simp: tail_def)

lemma picked_length: "p \<in> set (picked msgs) \<Longrightarrow> length p \<le> defaultPerResultBytes + 17"
proof -
  assume "p \<in> set (picked msgs)"
  then obtain m where "p \<in> set (pickOne msgs m)" by (auto simp: picked_def)
  then have "callName msgs (mToolCallID m) \<in> set EvidenceTools"
    "p = ''['' @ callName msgs (mToolCallID m) @ '']'' @ [NL] @ tail (mContent m) defaultPerResultBytes"
    by (auto simp: pickOne_def split: if_splits)
  moreover from this(1) have "length (callName msgs (mToolCallID m)) \<le> 11" by (auto simp: EvidenceTools_def)
  ultimately show ?thesis using tail_length [of "mContent m" defaultPerResultBytes] by simp
qed

text \<open>The evidence shown to the judge is a run of the most recent results of the three evidence tools, in order, at least one when there is any, and never longer than the byte limit.\<close>

theorem Evidence_recent:
  "\<exists>older recent. picked msgs = older @ recent \<and> Evidence msgs = Join recent [NL, NL] \<and>
     (recent = []) = (picked msgs = []) \<and> length (Evidence msgs) \<le> defaultMaxEvidenceBytes"
proof -
  from gather_suffix [of "rev (picked msgs)" "[]"] picked_nonempty obtain recent older where
    r: "picked msgs = older @ recent" "Evidence msgs = Join recent [NL, NL]" "picked msgs = [] \<or> recent \<noteq> []"
      "length recent \<le> 1 \<or> length (Join recent [NL, NL]) \<le> defaultMaxEvidenceBytes"
    by (auto simp: Evidence_def)
  have "length (Join recent [NL, NL]) \<le> defaultMaxEvidenceBytes"
  proof (cases "length recent \<le> 1")
    case True
    then consider "recent = []" | p where "recent = [p]" by (cases recent) auto
    then show ?thesis
    proof cases
      case 2
      then have "p \<in> set (picked msgs)" using r(1) by simp
      then show ?thesis using picked_length 2 by (fastforce simp: defaultMaxEvidenceBytes_def defaultPerResultBytes_def)
    qed simp
  qed (use r in auto)
  moreover have "(recent = []) = (picked msgs = [])" using r(1,3) by auto
  ultimately show ?thesis using r(1,2) by auto
qed

text \<open>A turn of pure research: nothing it adds counts as evidence, and the calls it names are new.\<close>

lemma research_Evidence: "research msgs new \<Longrightarrow> Evidence (msgs @ new) = Evidence msgs"
proof -
  assume r: "research msgs new"
  have "pickOne (msgs @ new) m = pickOne msgs m" if "m \<in> set msgs" for m
    using r that by (auto simp: research_def pickOne_def list_all_iff)
  moreover have "concat (map (pickOne (msgs @ new)) new) = []" using r by (auto simp: research_def list_all_iff)
  ultimately have "picked (msgs @ new) = picked msgs"
    by (simp add: picked_def cong: map_cong)
  then show ?thesis by (simp add: Evidence_def)
qed

text \<open>A turn that produces no evidence of its own still counts towards the stall limit once earlier turns left evidence in the session, and can block the goal.\<close>

theorem research_counts_as_stall:
  assumes "messages N k = msgs @ new" "research msgs new" "Evidence msgs \<noteq> []"
    "stallSig g = fingerprint (Evidence msgs)" "stallCount g + 1 \<ge> stallLimit e"
  shows "\<exists>r g' e'. noProgress N prior k g e = Leave r g' e' \<and> gStatus g' = StatusBlocked"
proof -
  have ev: "Evidence (messages N k) = Evidence msgs" using assms(1) research_Evidence [OF assms(2)] by simp
  show ?thesis
    using assms(3-5) ev
    by (auto simp: noProgress_def Let_def leave_def settle_def bumpWall_def split: prod.splits)
qed

theorem research_counts_as_stall_witness:
  "\<exists>r g' e'. noProgress (idleEnv\<lparr>messages := \<lambda>k. demoMsgs @ demoResearch\<rparr>) 0 7
      ((demoGoal 50 0)\<lparr>stallSig := fingerprint (Evidence demoMsgs), stallCount := 4\<rparr>) demoEngine = Leave r g' e' \<and>
     gStatus g' = StatusBlocked"
proof (rule research_counts_as_stall)
  show "messages (idleEnv\<lparr>messages := \<lambda>k. demoMsgs @ demoResearch\<rparr>) 7 = demoMsgs @ demoResearch" by simp
  show "research demoMsgs demoResearch" "Evidence demoMsgs \<noteq> []" by code_simp+
qed (simp_all add: demoGoal_def demoEngine_def stallLimit_def)

text \<open>A goal stored in its session is read back with everything but the unexported fields; archiving moves it to the history slot and clearing removes it.\<close>

theorem goal_session_roundtrip:
  assumes "SessionID g = sessID s"
  shows "FromSession (IntoSession g s) = Inr (Some (decoded g)) \<and>
     FromSession (Archive (IntoSession g s)) = Inr None \<and>
     Last (Archive (IntoSession g s)) = Inr (Some (decoded g)) \<and>
     FromSession (Clear (IntoSession g s)) = Inr None"
  using assms
  by (auto simp: FromSession_def IntoSession_def Archive_def Last_def Clear_def decodeGoalAt_def decoded_def
      metadataKey_def archiveKey_def)

theorem goal_session_roundtrip_witness:
  "Last (Archive (IntoSession (demoGoal 1 0) \<lparr>sessID = ''s'', metadata = Map.empty\<rparr>)) = Inr (Some (demoGoal 1 0))"
  using goal_session_roundtrip [of "demoGoal 1 0" "\<lparr>sessID = ''s'', metadata = Map.empty\<rparr>"]
  by (simp add: demoGoal_def decoded_def)

lemma unparseable_never_met:
  "parse (carveJSON raw) = None \<Longrightarrow> \<not> Met (parseCheckJSON U parse raw) \<and> \<not> Blocked (parseCheckJSON U parse raw) \<and>
   admitOK (parseAdmitJSON U parse raw) \<and> Fuzzy (parseAdmitJSON U parse raw)"
  by (simp add: parseCheckJSON_def parseAdmitJSON_def unmarshalBool_def Let_def)

end
