(* ===== verification/RRule.thy ===== *)
theory RRule
  imports Go_Prelude
begin

section \<open>Recurrence rules\<close>

text \<open>
  \<^verbatim>\<open>internal/automation/rrule.go\<close>: parsing a recurrence rule and computing the first firing strictly after a
  given time.  Instants are nanoseconds since the Unix epoch.  A time zone is a parameter: what
  \<open>Location.lookup\<close> of the time zone database answers for a second, the offset and the range in which
  it holds.  The calendar of the package \<^verbatim>\<open>time\<close> is written out.  A loop that finds no firing is cut off after
  a number of rounds, the first argument; None says that it had not returned by then.
\<close>

subsection \<open>The calendar\<close>

text \<open>Days since 1970-01-01 of a date; years begin in March, and the day may lie outside the month.\<close>

definition daysFromCivil :: "int \<Rightarrow> int \<Rightarrow> int \<Rightarrow> int" where
  "daysFromCivil y m d =
     (let y' = (if m \<le> 2 then y - 1 else y);
          era = y' div 400; yoe = y' mod 400;
          mp = (if m > 2 then m - 3 else m + 9)
      in era * 146097 + (yoe * 365 + yoe div 4 - yoe div 100) + ((153 * mp + 2) div 5 + d - 1) - 719468)"

text \<open>The date of a day: cycles of 400, 100, 4 and 1 years, as in \<open>absDate\<close>.\<close>

definition civilFromDays :: "int \<Rightarrow> int \<times> int \<times> int" where
  "civilFromDays z =
     (let z' = z + 719468;
          era = z' div 146097; doe = z' mod 146097;
          c = min 3 (doe div 36524); r1 = doe - c * 36524;
          q = r1 div 1461; r2 = r1 - q * 1461;
          y1 = min 3 (r2 div 365); doy = r2 - y1 * 365;
          yoe = 100 * c + 4 * q + y1;
          mp = (5 * doy + 2) div 153;
          d = doy - (153 * mp + 2) div 5 + 1;
          m = (if mp < 10 then mp + 3 else mp - 9)
      in ((if m \<le> 2 then yoe + era * 400 + 1 else yoe + era * 400), m, d))"

record Location =
  lookup :: "int \<Rightarrow> int \<times> int \<times> int"     \<comment> \<open>offset, and the seconds from and to which it holds\<close>

definition second :: int where "second = 1000000000"

definition localSec :: "Location \<Rightarrow> int \<Rightarrow> int" where
  "localSec L t = t div second + fst (lookup L (t div second))"

definition dayNumber :: "Location \<Rightarrow> int \<Rightarrow> int" where
  "dayNumber L t = localSec L t div 86400"

definition timeYear :: "Location \<Rightarrow> int \<Rightarrow> int" where
  "timeYear L t = fst (civilFromDays (dayNumber L t))"

definition timeMonth :: "Location \<Rightarrow> int \<Rightarrow> int" where
  "timeMonth L t = fst (snd (civilFromDays (dayNumber L t)))"

definition timeDay :: "Location \<Rightarrow> int \<Rightarrow> int" where
  "timeDay L t = snd (snd (civilFromDays (dayNumber L t)))"

definition timeHour :: "Location \<Rightarrow> int \<Rightarrow> int" where
  "timeHour L t = localSec L t mod 86400 div 3600"

definition timeMinute :: "Location \<Rightarrow> int \<Rightarrow> int" where
  "timeMinute L t = localSec L t mod 3600 div 60"

definition timeSecond :: "Location \<Rightarrow> int \<Rightarrow> int" where
  "timeSecond L t = localSec L t mod 60"

text \<open>Sunday is 0; 1970-01-01 was a Thursday.\<close>

definition weekdayOfDay :: "int \<Rightarrow> int" where
  "weekdayOfDay z = (z + 4) mod 7"

definition timeWeekday :: "Location \<Rightarrow> int \<Rightarrow> int" where
  "timeWeekday L t = weekdayOfDay (dayNumber L t)"

text \<open>\<open>time.Date\<close> at whole minutes: the month is normalised into the year, the offset is looked up at
  the local time read as UTC and once more when it does not hold there.\<close>

definition zoned :: "Location \<Rightarrow> int \<Rightarrow> int" where
  "zoned L unix =
     (let (offset, start, stop) = lookup L unix in
      if offset = 0 then unix
      else if unix - offset < start \<or> unix - offset \<ge> stop then unix - fst (lookup L (unix - offset))
      else unix - offset)"

definition timeDate :: "Location \<Rightarrow> int \<Rightarrow> int \<Rightarrow> int \<Rightarrow> int \<Rightarrow> int \<Rightarrow> int" where
  "timeDate L y m d h mi =
     zoned L (daysFromCivil (y + (m - 1) div 12) ((m - 1) mod 12 + 1) d * 86400 + h * 3600 + mi * 60) * second"

definition addDays :: "Location \<Rightarrow> int \<Rightarrow> int \<Rightarrow> int" where
  "addDays L n t =
     zoned L (daysFromCivil (timeYear L t) (timeMonth L t) (timeDay L t + n) * 86400 + localSec L t mod 86400) * second +
     t mod second"

text \<open>\<open>Truncate\<close>: the zero time of Go lies a whole number of hours before the epoch.\<close>

definition truncateTo :: "int \<Rightarrow> int \<Rightarrow> int" where
  "truncateTo d t = t - t mod d"

subsection \<open>Parsing\<close>

definition upperByte :: "char \<Rightarrow> char" where
  "upperByte c = (if byteIn 0x61 0x7A c then char_of ((of_char c :: nat) - 32) else c)"

text \<open>\<open>strings.ToUpper\<close>, with the case table for text that is not ASCII as a parameter.\<close>

definition ToUpper :: "(string \<Rightarrow> string) \<Rightarrow> string \<Rightarrow> string" where
  "ToUpper up s = (if isASCII s then map upperByte s else up s)"

fun digitsValue :: "int \<Rightarrow> string \<Rightarrow> int option" where
  "digitsValue acc [] = Some acc"
| "digitsValue acc (c # s) =
     (if byteIn 0x30 0x39 c then digitsValue (acc * 10 + (of_char c - 48)) s else None)"

text \<open>\<open>strconv.Atoi\<close>: an optional sign, digits, the range of a 64-bit integer.\<close>

definition Atoi :: "string \<Rightarrow> int option" where
  "Atoi s =
     (let (neg, ds) = (case s of [] \<Rightarrow> (False, []) | c # r \<Rightarrow>
            if c = CHR ''-'' then (True, r) else if c = CHR ''+'' then (False, r) else (False, s))
      in if ds = [] then None
         else
           (case digitsValue 0 ds of
              None \<Rightarrow> None
            | Some v \<Rightarrow>
                (let n = (if neg then - v else v) in
                 if - (2 ^ 63) \<le> n \<and> n < 2 ^ 63 then Some n else None)))"

record rrule =
  freq :: string
  interval :: int
  byDay :: "string list"
  byHour :: int
  byMinute :: int

datatype rrule_error =
    Malformed string | InvalidInterval string | UnsupportedByDay string | InvalidByHour string
  | InvalidByMinute string | UnsupportedPart string | MissingFreq | UnsupportedFreq string
  | NoOccurrence

definition weekdays :: "string list" where
  "weekdays = [''MO'', ''TU'', ''WE'', ''TH'', ''FR'', ''SA'', ''SU'']"

definition validWeekday :: "string \<Rightarrow> bool" where
  "validWeekday d = (TrimLeft d [CHR ''+'', CHR ''-''] \<in> set weekdays)"

fun addByDays :: "(string \<Rightarrow> string) \<Rightarrow> string list \<Rightarrow> rrule \<Rightarrow> rrule_error + rrule" where
  "addByDays up [] r = Inr r"
| "addByDays up (d0 # ds) r =
     (let d = ToUpper up (TrimSpace d0) in
      if \<not> validWeekday d then Inl (UnsupportedByDay d)
      else addByDays up ds (r\<lparr>byDay := byDay r @ [TrimLeft d [CHR ''+'', CHR ''-'']]\<rparr>))"

definition parsePart :: "(string \<Rightarrow> string) \<Rightarrow> string \<Rightarrow> rrule \<Rightarrow> rrule_error + rrule" where
  "parsePart up p0 r =
     (let p = TrimSpace p0 in
      if p = [] then Inr r
      else
        (case IndexAny p [CHR ''=''] of
           None \<Rightarrow> Inl (Malformed p)
         | Some i \<Rightarrow>
             (let k = take i p; v = drop (i + 1) p; key = ToUpper up (TrimSpace k) in
              if key = ''FREQ'' then Inr (r\<lparr>freq := ToUpper up (TrimSpace v)\<rparr>)
              else if key = ''INTERVAL'' then
                (case Atoi (TrimSpace v) of
                   None \<Rightarrow> Inl (InvalidInterval v)
                 | Some n \<Rightarrow> if n < 1 then Inl (InvalidInterval v) else Inr (r\<lparr>interval := n\<rparr>))
              else if key = ''BYDAY'' then addByDays up (SplitByte CHR '','' v) r
              else if key = ''BYHOUR'' then
                (case Atoi (TrimSpace v) of
                   None \<Rightarrow> Inl (InvalidByHour v)
                 | Some h \<Rightarrow> if h < 0 \<or> h > 23 then Inl (InvalidByHour v) else Inr (r\<lparr>byHour := h\<rparr>))
              else if key = ''BYMINUTE'' then
                (case Atoi (TrimSpace v) of
                   None \<Rightarrow> Inl (InvalidByMinute v)
                 | Some m \<Rightarrow> if m < 0 \<or> m > 59 then Inl (InvalidByMinute v) else Inr (r\<lparr>byMinute := m\<rparr>))
              else Inl (UnsupportedPart k))))"

fun parseParts :: "(string \<Rightarrow> string) \<Rightarrow> string list \<Rightarrow> rrule \<Rightarrow> rrule_error + rrule" where
  "parseParts up [] r = Inr r"
| "parseParts up (p # ps) r =
     (case parsePart up p r of Inl e \<Rightarrow> Inl e | Inr r' \<Rightarrow> parseParts up ps r')"

definition frequencies :: "string list" where
  "frequencies = [''SECONDLY'', ''MINUTELY'', ''HOURLY'', ''DAILY'', ''WEEKLY'', ''MONTHLY'', ''YEARLY'']"

definition parseRRule :: "(string \<Rightarrow> string) \<Rightarrow> string \<Rightarrow> rrule_error + rrule" where
  "parseRRule up expr =
     (case parseParts up (SplitByte CHR '';'' expr) \<lparr>freq = [], interval = 1, byDay = [], byHour = - 1, byMinute = - 1\<rparr> of
        Inl e \<Rightarrow> Inl e
      | Inr r \<Rightarrow>
          if freq r = [] then Inl MissingFreq
          else if freq r \<notin> set frequencies then Inl (UnsupportedFreq (freq r))
          else Inr r)"

subsection \<open>The next firing\<close>

fun stepUntil :: "nat \<Rightarrow> (int \<Rightarrow> int option) \<Rightarrow> int \<Rightarrow> int \<Rightarrow> int option" where
  "stepUntil 0 hit d c = None"
| "stepUntil (Suc n) hit d c = (case hit c of Some t \<Rightarrow> Some t | None \<Rightarrow> stepUntil n hit d (c + d))"

definition nextSecondly :: "nat \<Rightarrow> rrule \<Rightarrow> int \<Rightarrow> Location \<Rightarrow> int option" where
  "nextSecondly n r after L =
     stepUntil n (\<lambda>c. if timeSecond L c mod interval r = 0 \<and> c > after then Some c else None)
       second (truncateTo second after)"

definition nextMinutely :: "nat \<Rightarrow> rrule \<Rightarrow> int \<Rightarrow> Location \<Rightarrow> int option" where
  "nextMinutely n r after L =
     stepUntil n (\<lambda>c. if timeMinute L c mod interval r = 0 \<and> c > after then Some c else None)
       (60 * second) (truncateTo (60 * second) after)"

definition hourTarget :: "rrule \<Rightarrow> Location \<Rightarrow> int \<Rightarrow> int" where
  "hourTarget r L c =
     (if byMinute r \<ge> 0
      then timeDate L (timeYear L c) (timeMonth L c) (timeDay L c) (timeHour L c) (byMinute r) else c)"

definition nextHourly :: "nat \<Rightarrow> rrule \<Rightarrow> int \<Rightarrow> Location \<Rightarrow> int option" where
  "nextHourly n r after L =
     stepUntil n
       (\<lambda>c. if timeHour L c mod interval r = 0 \<and> hourTarget r L c > after then Some (hourTarget r L c) else None)
       (3600 * second) (truncateTo (3600 * second) after)"

definition buildTarget :: "rrule \<Rightarrow> Location \<Rightarrow> int \<Rightarrow> int" where
  "buildTarget r L day =
     timeDate L (timeYear L day) (timeMonth L day) (timeDay L day)
       (if byHour r \<ge> 0 then byHour r else 0) (if byMinute r \<ge> 0 then byMinute r else 0)"

fun dailyLoop :: "nat \<Rightarrow> rrule \<Rightarrow> int \<Rightarrow> Location \<Rightarrow> int \<Rightarrow> (rrule_error + int) option" where
  "dailyLoop 0 r after L dayStart = None"
| "dailyLoop (Suc n) r after L dayStart =
     (if buildTarget r L dayStart > after then Some (Inr (buildTarget r L dayStart))
      else
        (let d = addDays L (interval r) dayStart in
         if timeYear L d > timeYear L after + 100 then Some (Inl NoOccurrence)
         else dailyLoop n r after L d))"

definition startOfDay :: "Location \<Rightarrow> int \<Rightarrow> int" where
  "startOfDay L t = timeDate L (timeYear L t) (timeMonth L t) (timeDay L t) 0 0"

definition nextDaily :: "nat \<Rightarrow> rrule \<Rightarrow> int \<Rightarrow> Location \<Rightarrow> (rrule_error + int) option" where
  "nextDaily n r after L = dailyLoop n r after L (startOfDay L after)"

definition startOfWeek :: "Location \<Rightarrow> int \<Rightarrow> int" where
  "startOfWeek L t =
     timeDate L (timeYear L t) (timeMonth L t) (timeDay L t - (1 - timeWeekday L t + 7) mod 7) 0 0"

definition weekdayAbbr :: "int \<Rightarrow> string" where
  "weekdayAbbr wd =
     (if wd = 1 then ''MO'' else if wd = 2 then ''TU'' else if wd = 3 then ''WE'' else if wd = 4 then ''TH''
      else if wd = 5 then ''FR'' else if wd = 6 then ''SA'' else if wd = 0 then ''SU'' else ''MO'')"

definition onDay :: "rrule \<Rightarrow> Location \<Rightarrow> int \<Rightarrow> bool" where
  "onDay r L day = (byDay r = [] \<or> weekdayAbbr (timeWeekday L day) \<in> set (byDay r))"

text \<open>The seven days of a week, in order.\<close>

definition weekHit :: "rrule \<Rightarrow> int \<Rightarrow> Location \<Rightarrow> int \<Rightarrow> int option" where
  "weekHit r after L weekStart =
     (case find (\<lambda>d. onDay r L (addDays L d weekStart) \<and> buildTarget r L (addDays L d weekStart) > after) [0, 1, 2, 3, 4, 5, 6] of
        None \<Rightarrow> None
      | Some d \<Rightarrow> Some (buildTarget r L (addDays L d weekStart)))"

fun weeklyLoop :: "nat \<Rightarrow> rrule \<Rightarrow> int \<Rightarrow> Location \<Rightarrow> int \<Rightarrow> (rrule_error + int) option" where
  "weeklyLoop 0 r after L weekStart = None"
| "weeklyLoop (Suc n) r after L weekStart =
     (case weekHit r after L weekStart of
        Some t \<Rightarrow> Some (Inr t)
      | None \<Rightarrow>
          (let w = addDays L (7 * interval r) weekStart in
           if timeYear L w > timeYear L after + 100 then Some (Inl NoOccurrence)
           else weeklyLoop n r after L w))"

definition nextWeekly :: "nat \<Rightarrow> rrule \<Rightarrow> int \<Rightarrow> Location \<Rightarrow> (rrule_error + int) option" where
  "nextWeekly n r after L = weeklyLoop n r after L (startOfWeek L after)"

definition UTC :: Location where
  "UTC = \<lparr>lookup = (\<lambda>s. (0, - (2 ^ 63), 2 ^ 63))\<rparr>"

definition addMonths :: "int \<Rightarrow> int \<Rightarrow> int \<Rightarrow> int \<times> int" where
  "addMonths y m n = (let total = m - 1 + n in (y + total div 12, total mod 12 + 1))"

definition daysInMonth :: "int \<Rightarrow> int \<Rightarrow> int" where
  "daysInMonth y m = timeDay UTC (timeDate UTC y (m + 1) 0 0 0)"

definition monthDay :: "rrule \<Rightarrow> int \<Rightarrow> Location \<Rightarrow> int \<Rightarrow> int \<Rightarrow> int option" where
  "monthDay r after L y m =
     (if byDay r \<noteq> []
      then find (\<lambda>t. weekdayAbbr (timeWeekday L t) \<in> set (byDay r))
             (map (\<lambda>d. timeDate L y m d 0 0) [1 .. daysInMonth y m])
      else Some (timeDate L y m (min (timeDay L after) (daysInMonth y m)) 0 0))"

fun monthlyLoop :: "nat \<Rightarrow> rrule \<Rightarrow> int \<Rightarrow> Location \<Rightarrow> int \<Rightarrow> int \<Rightarrow> (rrule_error + int) option" where
  "monthlyLoop 0 r after L y m = None"
| "monthlyLoop (Suc n) r after L y m =
     (let (y', m') = addMonths y m (interval r) in
      case monthDay r after L y m of
        None \<Rightarrow> monthlyLoop n r after L y' m'
      | Some day \<Rightarrow>
          (let target = buildTarget r L day in
           if target > after \<and> timeMonth L target = m \<and> timeYear L target = y then Some (Inr target)
           else if y' > timeYear L after + 100 then Some (Inl NoOccurrence)
           else monthlyLoop n r after L y' m'))"

definition nextMonthly :: "nat \<Rightarrow> rrule \<Rightarrow> int \<Rightarrow> Location \<Rightarrow> (rrule_error + int) option" where
  "nextMonthly n r after L = monthlyLoop n r after L (timeYear L after) (timeMonth L after)"

fun yearlyLoop :: "nat \<Rightarrow> rrule \<Rightarrow> int \<Rightarrow> Location \<Rightarrow> int \<Rightarrow> (rrule_error + int) option" where
  "yearlyLoop 0 r after L y = None"
| "yearlyLoop (Suc n) r after L y =
     (let target = buildTarget r L (timeDate L y (timeMonth L after) (timeDay L after) 0 0) in
      if target > after then Some (Inr target)
      else if y + interval r > timeYear L after + 100 then Some (Inl NoOccurrence)
      else yearlyLoop n r after L (y + interval r))"

definition nextYearly :: "nat \<Rightarrow> rrule \<Rightarrow> int \<Rightarrow> Location \<Rightarrow> (rrule_error + int) option" where
  "nextYearly n r after L = yearlyLoop n r after L (timeYear L after)"

definition Next :: "nat \<Rightarrow> rrule \<Rightarrow> int \<Rightarrow> Location \<Rightarrow> (rrule_error + int) option" where
  "Next n r after L =
     (if freq r = ''SECONDLY'' then map_option Inr (nextSecondly n r after L)
      else if freq r = ''MINUTELY'' then map_option Inr (nextMinutely n r after L)
      else if freq r = ''HOURLY'' then map_option Inr (nextHourly n r after L)
      else if freq r = ''DAILY'' then nextDaily n r after L
      else if freq r = ''WEEKLY'' then nextWeekly n r after L
      else if freq r = ''MONTHLY'' then nextMonthly n r after L
      else if freq r = ''YEARLY'' then nextYearly n r after L
      else Some (Inl (UnsupportedFreq (freq r))))"

text \<open>Specification vocabulary: years that begin in March, a zone of fixed offset, the instant of a local day and a second of it, well-formed rules, the occurrences of a rule, and sample rules and dates.\<close>

definition marchYear :: "int \<Rightarrow> int" where
  "marchYear Y = 365 * Y + Y div 4 - Y div 100 + Y div 400"

definition fixedZone :: "int \<Rightarrow> Location" where
  "fixedZone offs = \<lparr>lookup = (\<lambda>s. (offs, - (2 ^ 63), 2 ^ 63))\<rparr>"

definition dayTime :: "rrule \<Rightarrow> int" where
  "dayTime r = (if byHour r \<ge> 0 then byHour r else 0) * 3600 + (if byMinute r \<ge> 0 then byMinute r else 0) * 60"

definition instant :: "int \<Rightarrow> int \<Rightarrow> int \<Rightarrow> int" where
  "instant offs day s = (day * 86400 + s - offs) * second"

definition rrule_ok :: "rrule \<Rightarrow> bool" where
  "rrule_ok r =
     (freq r \<in> set frequencies \<and> 1 \<le> interval r \<and> list_all (\<lambda>d. d \<in> set weekdays) (byDay r) \<and>
      - 1 \<le> byHour r \<and> byHour r \<le> 23 \<and> - 1 \<le> byMinute r \<and> byMinute r \<le> 59)"

definition dayOk :: "rrule \<Rightarrow> int \<Rightarrow> bool" where
  "dayOk r day = (byDay r = [] \<or> weekdayAbbr (weekdayOfDay day) \<in> set (byDay r))"

definition occurrence :: "int \<Rightarrow> rrule \<Rightarrow> int \<Rightarrow> bool" where
  "occurrence offs r t =
     (t mod second = 0 \<and> localSec (fixedZone offs) t mod 86400 = dayTime r \<and> onDay r (fixedZone offs) t)"

definition fields_ok :: "rrule \<Rightarrow> bool" where
  "fields_ok r =
     (1 \<le> interval r \<and> list_all (\<lambda>d. d \<in> set weekdays) (byDay r) \<and>
      - 1 \<le> byHour r \<and> byHour r \<le> 23 \<and> - 1 \<le> byMinute r \<and> byMinute r \<le> 59)"

definition utcDay :: "int \<Rightarrow> int \<Rightarrow> int \<Rightarrow> int" where
  "utcDay y m d = daysFromCivil y m d * 86400 * second"

definition exampleWeekly :: rrule where
  "exampleWeekly = \<lparr>freq = ''WEEKLY'', interval = 2, byDay = [''TH''], byHour = - 1, byMinute = - 1\<rparr>"

definition exampleMonthly :: rrule where
  "exampleMonthly = \<lparr>freq = ''MONTHLY'', interval = 1, byDay = [], byHour = - 1, byMinute = - 1\<rparr>"

definition exampleDaily :: rrule where
  "exampleDaily = \<lparr>freq = ''WEEKLY'', interval = 1, byDay = [], byHour = 9, byMinute = 30\<rparr>"

subsection \<open>Facts\<close>

lemma daysFromCivil_add: "daysFromCivil y m (d + n) = daysFromCivil y m d + n"
  by (simp add: daysFromCivil_def Let_def)

lemma era_div:
  fixes r e :: int
  shows "(r + e * 400) div 4 = r div 4 + 100 * e" "(r + e * 400) div 100 = r div 100 + 4 * e"
proof -
  have "r + e * 400 = r + (100 * e) * 4" "r + e * 400 = r + (4 * e) * 100" by simp_all
  then show "(r + e * 400) div 4 = r div 4 + 100 * e" "(r + e * 400) div 100 = r div 100 + 4 * e"
    by (simp_all only: div_mult_self1 zero_neq_numeral not_False_eq_True)
qed

lemma div_step:
  fixes Y n :: int
  assumes "0 < n"
  shows "(Y + 1) div n = (if (Y + 1) mod n = 0 then Y div n + 1 else Y div n)"
proof -
  let ?q = "(Y + 1) div n" and ?s = "(Y + 1) mod n"
  have e: "Y + 1 = n * ?q + ?s" "0 \<le> ?s" "?s < n" using assms by simp_all
  show ?thesis
  proof (cases "?s = 0")
    case True
    have "n * (?q - 1) = n * ?q - n" by (simp only: right_diff_distrib mult_1_right)
    then have "Y = n * (?q - 1) + (n - 1)" using e(1) True by linarith
    from int_div_pos_eq [OF this] assms have "Y div n = ?q - 1" by simp
    with True show ?thesis by simp
  next
    case False
    have "Y = n * ?q + (?s - 1)" using e(1) by linarith
    from int_div_pos_eq [OF this] False e have "Y div n = ?q" by simp
    with False show ?thesis by simp
  qed
qed

lemma doe_parts:
  fixes doe :: int
  assumes "0 \<le> doe" "doe < 146097"
  defines "c \<equiv> min 3 (doe div 36524)"
  defines "r1 \<equiv> doe - c * 36524"
  defines "q \<equiv> r1 div 1461"
  defines "r2 \<equiv> r1 - q * 1461"
  defines "y1 \<equiv> min 3 (r2 div 365)"
  defines "doy \<equiv> r2 - y1 * 365"
  shows "0 \<le> c" "c \<le> 3" "0 \<le> q" "q \<le> 24" "0 \<le> y1" "y1 \<le> 3" "0 \<le> doy" "doy \<le> 365"
    "doe = 36524 * c + 1461 * q + 365 * y1 + doy"
proof -
  show c: "0 \<le> c" "c \<le> 3" using assms(1) by (auto simp: c_def)
  have r1: "0 \<le> r1" "r1 \<le> 36524" using assms(1,2) unfolding r1_def c_def by (auto simp: min_def)
  show q: "0 \<le> q" "q \<le> 24" using r1 by (auto simp: q_def)
  have r2: "0 \<le> r2" "r2 \<le> 1460" unfolding r2_def q_def using r1 by (auto simp: minus_div_mult_eq_mod)
  show y: "0 \<le> y1" "y1 \<le> 3" using r2 by (auto simp: y1_def)
  show "0 \<le> doy" "doy \<le> 365" using r2 unfolding doy_def y1_def by (auto simp: min_def)
  show "doe = 36524 * c + 1461 * q + 365 * y1 + doy" by (simp add: doy_def r2_def r1_def)
qed

lemma civil_parts:
  obtains Y doy mp where "0 \<le> doy" "doy \<le> 365" "z + 719468 = marchYear Y + doy" "mp = (5 * doy + 2) div 153"
    "0 \<le> mp" "mp \<le> 11"
    "civilFromDays z = ((if mp < 10 then Y else Y + 1), (if mp < 10 then mp + 3 else mp - 9), doy - (153 * mp + 2) div 5 + 1)"
proof -
  define era doe where "era = (z + 719468) div 146097" and "doe = (z + 719468) mod 146097"
  have doe: "0 \<le> doe" "doe < 146097" by (simp_all add: doe_def)
  define c where "c = min 3 (doe div 36524)"
  define r1 where "r1 = doe - c * 36524"
  define q where "q = r1 div 1461"
  define r2 where "r2 = r1 - q * 1461"
  define y1 where "y1 = min 3 (r2 div 365)"
  define doy where "doy = r2 - y1 * 365"
  define yoe where "yoe = 100 * c + 4 * q + y1"
  define mp where "mp = (5 * doy + 2) div 153"
  note p = doe_parts [OF doe, folded c_def, folded r1_def, folded q_def, folded r2_def, folded y1_def, folded doy_def]
  have yoe: "yoe div 4 = 25 * c + q" "yoe div 100 = c" "0 \<le> yoe" "yoe < 400"
    using p unfolding yoe_def by auto
  have Y: "(yoe + era * 400) div 400 = era" using yoe by simp
  have z: "z + 719468 = marchYear (yoe + era * 400) + doy"
  proof -
    have "z + 719468 = 146097 * era + doe" unfolding era_def doe_def by simp
    moreover have "marchYear (yoe + era * 400) = 365 * (yoe + era * 400) + (25 * c + q + 100 * era) - (c + 4 * era) + era"
      by (simp only: marchYear_def era_div Y yoe(1,2))
    moreover have "365 * (yoe + era * 400) + (25 * c + q + 100 * era) - (c + 4 * era) + era + doy = 146097 * era + doe"
      unfolding p(9) yoe_def by (simp only: algebra_simps)
    ultimately show ?thesis by (simp only:)
  qed
  have mp: "0 \<le> mp" "mp \<le> 11" using p unfolding mp_def by auto
  have "civilFromDays z = ((if mp < 10 then yoe + era * 400 else yoe + era * 400 + 1),
      (if mp < 10 then mp + 3 else mp - 9), doy - (153 * mp + 2) div 5 + 1)"
    unfolding civilFromDays_def Let_def
    unfolding era_def [symmetric] doe_def [symmetric]
    unfolding c_def [symmetric] unfolding r1_def [symmetric] unfolding q_def [symmetric]
    unfolding r2_def [symmetric] unfolding y1_def [symmetric] unfolding doy_def [symmetric]
    unfolding yoe_def [symmetric] unfolding mp_def [symmetric]
    using mp by auto
  with that [OF p(7,8) z mp_def mp] show ?thesis .
qed

lemma civil_roundtrip:
  "civilFromDays z = (y, m, d) \<Longrightarrow> daysFromCivil y m d = z \<and> 1 \<le> m \<and> m \<le> 12"
proof -
  assume c: "civilFromDays z = (y, m, d)"
  obtain Y doy mp where p: "0 \<le> doy" "doy \<le> 365" "z + 719468 = marchYear Y + doy" "mp = (5 * doy + 2) div 153"
    "0 \<le> mp" "mp \<le> 11"
    "civilFromDays z = ((if mp < 10 then Y else Y + 1), (if mp < 10 then mp + 3 else mp - 9), doy - (153 * mp + 2) div 5 + 1)"
    by (rule civil_parts)
  have m: "1 \<le> m" "m \<le> 12" "(if m > 2 then m - 3 else m + 9) = mp" "(if m \<le> 2 then y - 1 else y) = Y"
    "d = doy - (153 * mp + 2) div 5 + 1"
    using c [unfolded p(7)] p(5,6) by (cases "mp < 10"; force)+
  have Y: "Y = Y mod 400 + Y div 400 * 400" by simp
  have "Y div 4 = Y mod 400 div 4 + 100 * (Y div 400)" "Y div 100 = Y mod 400 div 100 + 4 * (Y div 400)"
    using era_div [of "Y mod 400" "Y div 400"] by (simp_all only: Y [symmetric])
  then have "Y div 400 * 146097 + (Y mod 400 * 365 + Y mod 400 div 4 - Y mod 400 div 100) = marchYear Y"
    unfolding marchYear_def using Y by linarith
  then have "daysFromCivil y m d = z" unfolding daysFromCivil_def Let_def m(3,4) using m(5) p(3) by simp
  with m show ?thesis by simp
qed

lemma marchYear_step: "marchYear (Y + 1) \<ge> marchYear Y + 365"
proof -
  have "(Y + 1) mod 100 mod 4 = (Y + 1) mod 4" by (rule mod_mod_cancel) simp
  then have m: "(Y + 1) mod 4 = 0" if "(Y + 1) mod 100 = 0" using that by (simp only: mod_0)
  have "(Y + 1) div 4 - (Y + 1) div 100 \<ge> Y div 4 - Y div 100"
  proof (cases "(Y + 1) mod 100 = 0")
    case True
    then have "(Y + 1) div 4 = Y div 4 + 1" "(Y + 1) div 100 = Y div 100 + 1"
      using div_step [of 4 Y] div_step [of 100 Y] m by (simp_all only: if_True zero_less_numeral simp_thms)
    then show ?thesis by linarith
  next
    case False
    then have "(Y + 1) div 100 = Y div 100"
      using div_step [of 100 Y] by (simp only: if_False zero_less_numeral simp_thms)
    moreover have "(Y + 1) div 4 \<ge> Y div 4" by (rule zdiv_mono1) simp_all
    ultimately show ?thesis by linarith
  qed
  moreover have "(Y + 1) div 400 \<ge> Y div 400" by (rule zdiv_mono1) simp_all
  ultimately have "(Y + 1) div 4 - (Y + 1) div 100 + (Y + 1) div 400 \<ge> Y div 4 - Y div 100 + Y div 400"
    by (rule add_mono)
  then show ?thesis unfolding marchYear_def by (simp only: distrib_left mult_1_right)
qed

lemma marchYear_mono: "0 \<le> k \<Longrightarrow> marchYear (Y + k) \<ge> marchYear Y + 365 * k"
proof (induction k rule: int_ge_induct)
  case (step i)
  then show ?case using marchYear_step [of "Y + i"] by (simp add: algebra_simps)
qed simp

lemma civil_year_bound:
  assumes "z \<le> z'" "z' - z \<le> 365 * k" "0 \<le> k"
  shows "fst (civilFromDays z') \<le> fst (civilFromDays z) + k + 2"
proof -
  obtain Y doy mp where p: "0 \<le> doy" "doy \<le> 365" "z + 719468 = marchYear Y + doy"
    "civilFromDays z = ((if mp < 10 then Y else Y + 1), (if mp < 10 then mp + 3 else mp - 9), doy - (153 * mp + 2) div 5 + 1)"
    by (rule civil_parts [of z])
  obtain Y' doy' mp' where p': "0 \<le> doy'" "doy' \<le> 365" "z' + 719468 = marchYear Y' + doy'"
    "civilFromDays z' = ((if mp' < 10 then Y' else Y' + 1), (if mp' < 10 then mp' + 3 else mp' - 9), doy' - (153 * mp' + 2) div 5 + 1)"
    by (rule civil_parts [of z'])
  have "Y' \<le> Y + k + 1"
  proof (rule ccontr)
    assume "\<not> Y' \<le> Y + k + 1"
    then have "marchYear Y' \<ge> marchYear Y + 365 * (Y' - Y)" "365 * (Y' - Y) \<ge> 365 * (k + 2)"
      using marchYear_mono [of "Y' - Y" Y] assms(3) by auto
    then show False using p p' assms by simp
  qed
  then show ?thesis using p(4) p'(4) by auto
qed

lemma localSec_fixed: "localSec (fixedZone offs) t = t div second + offs"
  by (simp add: localSec_def fixedZone_def)

lemma zoned_fixed: "zoned (fixedZone offs) u = u - offs"
  by (simp add: zoned_def fixedZone_def)

lemma second_pos: "second > 0"
  by (simp add: second_def)

lemma localSec_instant: "localSec (fixedZone offs) (instant offs day s) = day * 86400 + s"
  using second_pos by (simp add: localSec_fixed instant_def)

lemma dayNumber_instant: "0 \<le> s \<Longrightarrow> s < 86400 \<Longrightarrow> dayNumber (fixedZone offs) (instant offs day s) = day"
  by (simp add: dayNumber_def localSec_instant)

lemma timeDate_civil:
  "timeDate (fixedZone offs) (timeYear L t) (timeMonth L t) (timeDay L t + n) h mi = instant offs (dayNumber L t + n) (h * 3600 + mi * 60)"
proof -
  obtain y m d where c: "civilFromDays (dayNumber L t) = (y, m, d)" by (cases "civilFromDays (dayNumber L t)")
  note r = civil_roundtrip [OF c]
  have "(m - 1) div 12 = 0" "(m - 1) mod 12 = m - 1" using r by auto
  then show ?thesis
    using r c
    by (simp add: timeDate_def timeYear_def timeMonth_def timeDay_def zoned_fixed daysFromCivil_add instant_def)
qed

lemma timeDate_civil0:
  "timeDate (fixedZone offs) (timeYear L t) (timeMonth L t) (timeDay L t) h mi = instant offs (dayNumber L t) (h * 3600 + mi * 60)"
  using timeDate_civil [of offs L t 0 h mi] by simp

lemma buildTarget_fixed: "buildTarget r (fixedZone offs) t = instant offs (dayNumber (fixedZone offs) t) (dayTime r)"
  by (simp add: buildTarget_def timeDate_civil0 dayTime_def)

lemma startOfWeek_fixed:
  "startOfWeek (fixedZone offs) t =
     instant offs (dayNumber (fixedZone offs) t - (1 - timeWeekday (fixedZone offs) t + 7) mod 7) 0"
  using timeDate_civil [of offs "fixedZone offs" t "- ((1 - timeWeekday (fixedZone offs) t + 7) mod 7)" 0 0]
  by (simp add: startOfWeek_def)

lemma addDays_instant:
  "addDays (fixedZone offs) n (instant offs day 0) = instant offs (day + n) 0"
proof -
  let ?t = "instant offs day 0"
  obtain y m d where c: "civilFromDays (dayNumber (fixedZone offs) ?t) = (y, m, d)"
    by (cases "civilFromDays (dayNumber (fixedZone offs) ?t)")
  note r = civil_roundtrip [OF c]
  have "dayNumber (fixedZone offs) ?t = day" by (simp add: dayNumber_instant)
  then show ?thesis
    using r c
    by (simp add: addDays_def timeYear_def timeMonth_def timeDay_def zoned_fixed daysFromCivil_add localSec_instant)
       (simp add: instant_def algebra_simps)
qed

lemma instant_less: "0 \<le> s \<Longrightarrow> s < 86400 \<Longrightarrow> instant offs day s < instant offs (day + 1) 0"
  by (simp add: instant_def second_def)

lemma instant_mono: "a \<le> b \<Longrightarrow> instant offs a s \<le> instant offs b s"
  by (simp add: instant_def second_def)

lemma instant_inj: "instant offs a s \<le> instant offs b s \<Longrightarrow> a \<le> b"
  by (simp add: instant_def second_def)

lemma div_range:
  fixes x n :: int
  assumes "0 < n"
  shows "x div n * n \<le> x" "x < (x div n + 1) * n"
proof -
  have "x = x div n * n + x mod n" "0 \<le> x mod n" "x mod n < n" using assms by simp_all
  then show "x div n * n \<le> x" "x < (x div n + 1) * n" by (simp_all only: distrib_right)
qed

lemma dayNumber_range:
  "instant offs (dayNumber (fixedZone offs) t) 0 \<le> t \<and> t < instant offs (dayNumber (fixedZone offs) t + 1) 0"
proof -
  let ?l = "t div second + offs"
  have "?l div 86400 * 86400 \<le> ?l" "?l < (?l div 86400 + 1) * 86400" by (rule div_range, simp)+
  then have a: "?l div 86400 * 86400 - offs \<le> t div second" "t div second + 1 \<le> (?l div 86400 + 1) * 86400 - offs" by simp_all
  have "(?l div 86400 * 86400 - offs) * second \<le> t div second * second"
    "(t div second + 1) * second \<le> ((?l div 86400 + 1) * 86400 - offs) * second"
    using a second_pos by (simp_all only: mult_right_mono less_imp_le)
  with div_range [OF second_pos, of t] show ?thesis by (simp add: instant_def dayNumber_def localSec_fixed)
qed

lemma onDay_fixed: "onDay r (fixedZone offs) t = dayOk r (dayNumber (fixedZone offs) t)"
  by (simp add: onDay_def dayOk_def timeWeekday_def)

lemma dayTime_range: "rrule_ok r \<Longrightarrow> 0 \<le> dayTime r \<and> dayTime r < 86400"
  by (auto simp: rrule_ok_def dayTime_def)

lemma occurrence_iff:
  assumes "rrule_ok r"
  shows "occurrence offs r t \<longleftrightarrow> (\<exists>day. t = instant offs day (dayTime r) \<and> dayOk r day)"
proof
  assume "occurrence offs r t"
  then have o: "t mod second = 0" "(t div second + offs) mod 86400 = dayTime r" "dayOk r (dayNumber (fixedZone offs) t)"
    by (simp_all add: occurrence_def localSec_fixed onDay_fixed)
  have "t = instant offs (dayNumber (fixedZone offs) t) (dayTime r)"
  proof -
    have "t div second + offs = (t div second + offs) div 86400 * 86400 + dayTime r" unfolding o(2) [symmetric] by simp
    moreover have "t = t div second * second" using o(1) by auto
    ultimately show ?thesis by (simp add: instant_def dayNumber_def localSec_fixed)
  qed
  with o(3) show "\<exists>day. t = instant offs day (dayTime r) \<and> dayOk r day" by blast
next
  assume "\<exists>day. t = instant offs day (dayTime r) \<and> dayOk r day"
  then obtain day where d: "t = instant offs day (dayTime r)" "dayOk r day" by blast
  have "localSec (fixedZone offs) t = day * 86400 + dayTime r" unfolding d(1) by (rule localSec_instant)
  moreover have "t mod second = 0" unfolding d(1) instant_def by simp
  ultimately show "occurrence offs r t"
    using d dayTime_range [OF assms] dayNumber_instant [of "dayTime r" offs day]
    by (simp add: occurrence_def onDay_fixed)
qed

lemma week_list: "[0, 1, 2, 3, 4, 5, 6] = map int [0..<7]"
  by (simp add: upt_rec)

lemma find_week_Some:
  "find P [0, 1, 2, 3, 4, 5, 6] = Some (d :: int) \<Longrightarrow> 0 \<le> d \<and> d \<le> 6 \<and> P d \<and> (\<forall>e. 0 \<le> e \<and> e < d \<longrightarrow> \<not> P e)"
proof -
  assume "find P [0, 1, 2, 3, 4, 5, 6] = Some d"
  then obtain i where i: "i < 7" "P (int i)" "d = int i" "\<forall>j<i. \<not> P (int j)"
    unfolding week_list by (auto simp: find_Some_iff)
  have "\<not> P e" if "0 \<le> e" "e < d" for e
    using i(3,4) that by (metis nat_less_iff int_nat_eq)
  with i show ?thesis by auto
qed

lemma find_week_None: "find P [0, 1, 2, 3, 4, 5, 6] = None \<Longrightarrow> 0 \<le> e \<Longrightarrow> e \<le> 6 \<Longrightarrow> \<not> P (e :: int)"
proof -
  assume "find P [0, 1, 2, 3, 4, 5, 6] = None" "0 \<le> e" "e \<le> 6"
  moreover from this(2,3) have "e \<in> set (map int [0..<7])" by (auto simp: image_iff intro: bexI [of _ "nat e"])
  ultimately show "\<not> P e" unfolding week_list by (auto simp: find_None_iff)
qed

lemma weekHit_fixed:
  assumes "rrule_ok r"
  shows "weekHit r after (fixedZone offs) (instant offs W 0) =
     (case find (\<lambda>d. dayOk r (W + d) \<and> instant offs (W + d) (dayTime r) > after) [0, 1, 2, 3, 4, 5, 6] of
        None \<Rightarrow> None | Some d \<Rightarrow> Some (instant offs (W + d) (dayTime r)))"
  by (simp add: weekHit_def addDays_instant onDay_fixed buildTarget_fixed dayNumber_instant)

lemma some_day_ok:
  assumes "rrule_ok r"
  shows "\<exists>d. 0 \<le> d \<and> d \<le> 6 \<and> dayOk r (W + d)"
proof (cases "byDay r")
  case Nil
  then show ?thesis by (intro exI [of _ 0]) (simp add: dayOk_def)
next
  case (Cons x xs)
  then have "x \<in> set weekdays" using assms by (simp add: rrule_ok_def)
  then obtain wd where wd: "0 \<le> wd" "wd \<le> 6" "weekdayAbbr wd = x"
    by (auto simp: weekdays_def weekdayAbbr_def intro: that [of 0] that [of 1] that [of 2] that [of 3] that [of 4] that [of 5] that [of 6])
  have "weekdayOfDay (W + (wd - W - 4) mod 7) = ((W + 4) + (wd - W - 4) mod 7) mod 7"
    by (simp add: weekdayOfDay_def algebra_simps)
  also have "\<dots> = wd" unfolding mod_add_right_eq using wd by simp
  finally have "weekdayOfDay (W + (wd - W - 4) mod 7) = wd" .
  then have "dayOk r (W + (wd - W - 4) mod 7)" using wd Cons by (simp add: dayOk_def)
  then show ?thesis by (intro exI [of _ "(wd - W - 4) mod 7"]) simp
qed

lemma nextWeekly_first:
  assumes "rrule_ok r" "interval r = 1" "2 \<le> n"
  shows "\<exists>t. nextWeekly n r after (fixedZone offs) = Some (Inr t) \<and> after < t \<and> occurrence offs r t \<and>
     (\<forall>u. after < u \<and> occurrence offs r u \<longrightarrow> t \<le> u)"
proof -
  let ?L = "fixedZone offs" and ?s = "dayTime r"
  define D where "D = dayNumber ?L after"
  define W where "W = D - (1 - timeWeekday ?L after + 7) mod 7"
  have W: "W \<le> D" "D \<le> W + 6" unfolding W_def by simp_all
  let ?good = "\<lambda>day. dayOk r day \<and> instant offs day ?s > after"
  have later: "instant offs day ?s > after" if "day > D" for day
  proof -
    have "instant offs (D + 1) 0 \<le> instant offs day 0" using that by (intro instant_mono) simp
    moreover have "instant offs day 0 \<le> instant offs day ?s" using dayTime_range [OF assms(1)] by (simp add: instant_def second_def)
    ultimately show ?thesis using dayNumber_range [of offs after] unfolding D_def by linarith
  qed
  have earlier: "day \<ge> D" if "instant offs day ?s > after" for day
  proof (rule ccontr)
    assume "\<not> day \<ge> D"
    then have "instant offs (day + 1) 0 \<le> instant offs D 0" by (intro instant_mono) simp
    then show False using that instant_less [of ?s offs day] dayTime_range [OF assms(1)] dayNumber_range [of offs after]
      unfolding D_def by linarith
  qed
  have least: "\<exists>t. t = instant offs day ?s \<and> after < t \<and> occurrence offs r t \<and>
      (\<forall>u. after < u \<and> occurrence offs r u \<longrightarrow> t \<le> u)"
    if g: "?good day" and first: "\<And>e. W \<le> e \<Longrightarrow> e < day \<Longrightarrow> \<not> ?good e" for day
  proof -
    have "instant offs day ?s \<le> u" if u: "after < u" "occurrence offs r u" for u
    proof -
      obtain e where e: "u = instant offs e ?s" "dayOk r e" using u(2) occurrence_iff [OF assms(1)] by blast
      then have "W \<le> e" using earlier [of e] u(1) W by simp
      then have "\<not> e < day" using first [of e] e u(1) by blast
      then show ?thesis unfolding e(1) by (intro instant_mono) simp
    qed
    then show ?thesis using g occurrence_iff [OF assms(1)] by blast
  qed
  obtain n' where n': "n = Suc (Suc n')" using assms(3) by (metis add_2_eq_Suc le_Suc_ex)
  have start: "startOfWeek ?L after = instant offs W 0" unfolding startOfWeek_fixed W_def D_def ..
  show ?thesis
  proof (cases "find (\<lambda>d. ?good (W + d)) [0, 1, 2, 3, 4, 5, 6]")
    case (Some d)
    note f = find_week_Some [OF Some]
    have hit: "weekHit r after ?L (instant offs W 0) = Some (instant offs (W + d) ?s)"
      unfolding weekHit_fixed [OF assms(1)] Some option.case ..
    have "nextWeekly n r after ?L = Some (Inr (instant offs (W + d) ?s))"
      unfolding nextWeekly_def n' start weeklyLoop.simps hit option.case ..
    moreover have "\<not> ?good e" if "W \<le> e" "e < W + d" for e
    proof -
      have "0 \<le> e - W" "e - W < d" using that by simp_all
      with f have "\<not> ?good (W + (e - W))" by blast
      then show ?thesis by simp
    qed
    ultimately show ?thesis using least [of "W + d"] f by blast
  next
    case None
    note f = find_week_None [OF None]
    have hit1: "weekHit r after ?L (instant offs W 0) = None"
      unfolding weekHit_fixed [OF assms(1)] None option.case ..
    obtain d0 where "0 \<le> d0" "d0 \<le> 6" "?good (W + 7 + d0)"
      using some_day_ok [OF assms(1), of "W + 7"] later W by fastforce
    then have "find (\<lambda>d. ?good (W + 7 + d)) [0, 1, 2, 3, 4, 5, 6] \<noteq> None" using find_week_None by blast
    then obtain d where d: "find (\<lambda>d. ?good (W + 7 + d)) [0, 1, 2, 3, 4, 5, 6] = Some d" by blast
    note g = find_week_Some [OF d]
    have hit2: "weekHit r after ?L (instant offs (W + 7) 0) = Some (instant offs (W + 7 + d) ?s)"
      unfolding weekHit_fixed [OF assms(1)] d option.case ..
    have year: "\<not> timeYear ?L (instant offs (W + 7) 0) > timeYear ?L after + 100"
      using civil_year_bound [of D "W + 7" 1] W by (simp add: timeYear_def dayNumber_instant D_def)
    have "nextWeekly n r after ?L = Some (Inr (instant offs (W + 7 + d) ?s))"
      using year by (simp add: nextWeekly_def n' start hit1 hit2 assms(2) addDays_instant)
    moreover have "\<not> ?good e" if "W \<le> e" "e < W + 7 + d" for e
    proof (cases "e < W + 7")
      case True
      then show ?thesis using f [of "e - W"] that by simp
    next
      case False
      then have "0 \<le> e - (W + 7)" "e - (W + 7) < d" using that by simp_all
      with g have "\<not> ?good (W + 7 + (e - (W + 7)))" by blast
      then show ?thesis by simp
    qed
    ultimately show ?thesis using least [of "W + 7 + d"] g by blast
  qed
qed

lemma stepUntil_hit: "stepUntil n hit d c = Some t \<Longrightarrow> \<exists>c'. hit c' = Some t"
  by (induction n arbitrary: c) (auto split: option.splits)

lemma dailyLoop_after: "dailyLoop n r after L d = Some (Inr t) \<Longrightarrow> after < t"
  by (induction n arbitrary: d) (auto simp: Let_def split: if_splits)

lemma weekHit_after: "weekHit r after L w = Some t \<Longrightarrow> after < t"
  unfolding weekHit_def by (auto simp: find_Some_iff simp del: find.simps split: option.splits)

lemma weeklyLoop_after: "weeklyLoop n r after L w = Some (Inr t) \<Longrightarrow> after < t"
  by (induction n arbitrary: w) (auto simp: Let_def weekHit_after split: if_splits option.splits)

lemma monthlyLoop_after: "monthlyLoop n r after L y m = Some (Inr t) \<Longrightarrow> after < t"
  by (induction n arbitrary: y m) (auto simp: Let_def split: if_splits option.splits prod.splits)

lemma yearlyLoop_after: "yearlyLoop n r after L y = Some (Inr t) \<Longrightarrow> after < t"
  by (induction n arbitrary: y) (auto simp: Let_def split: if_splits)

lemmas loops_after = dailyLoop_after weeklyLoop_after monthlyLoop_after yearlyLoop_after

text \<open>C38. Whatever the rule, the time zone and the frequency: a firing that is returned lies strictly after the given time.\<close>

theorem Next_strictly_after:
  assumes "Next n r after L = Some (Inr t)"
  shows "after < t"
  using assms
  by (auto simp: Next_def nextSecondly_def nextMinutely_def nextHourly_def nextDaily_def nextWeekly_def nextMonthly_def
      nextYearly_def dest!: stepUntil_hit dest: loops_after split: if_splits)

lemma addByDays_ok: "addByDays up ds r = Inr r' \<Longrightarrow>
    list_all (\<lambda>d. d \<in> set weekdays) (byDay r) \<Longrightarrow>
    list_all (\<lambda>d. d \<in> set weekdays) (byDay r') \<and> freq r' = freq r \<and> interval r' = interval r \<and> byHour r' = byHour r \<and> byMinute r' = byMinute r"
proof (induction ds arbitrary: r)
  case (Cons d ds)
  then show ?case by (force simp: Let_def validWeekday_def split: if_splits)
qed simp

lemma addByDays_fields: "addByDays up ds r = Inr r' \<Longrightarrow> fields_ok r \<Longrightarrow> fields_ok r'"
  using addByDays_ok [of up ds r r'] by (auto simp: fields_ok_def)

lemma parsePart_fields: "parsePart up p r = Inr r' \<Longrightarrow> fields_ok r \<Longrightarrow> fields_ok r'"
  by (auto simp: parsePart_def Let_def fields_ok_def [of "freq_update f r" for f r]
      fields_ok_def [of "interval_update f r" for f r] fields_ok_def [of "byHour_update f r" for f r]
      fields_ok_def [of "byMinute_update f r" for f r] fields_ok_def [of r] intro: addByDays_fields fields_ok_def [THEN iffD2]
      split: if_splits option.splits)

lemma parseParts_fields: "parseParts up ps r = Inr r' \<Longrightarrow> fields_ok r \<Longrightarrow> fields_ok r'"
  by (induction ps arbitrary: r) (auto dest: parsePart_fields split: sum.splits)

text \<open>C39. A rule that parses has a known frequency, a positive interval, weekday names only, and an hour and a minute in range or unspecified.\<close>

theorem parseRRule_ok:
  assumes "parseRRule up expr = Inr r"
  shows "rrule_ok r"
proof -
  have "fields_ok r" "freq r \<in> set frequencies"
    using assms parseParts_fields [of up "SplitByte CHR '';'' expr"]
    by (auto simp: parseRRule_def fields_ok_def split: sum.splits if_splits)
  then show ?thesis by (simp add: rrule_ok_def fields_ok_def)
qed

text \<open>In a zone of fixed offset a weekly rule with interval one always has a next firing, two rounds of the loop find it, and it is the earliest instant after the given time that falls on a day and at the time of day of the rule.\<close>

theorem nextWeekly_least:
  assumes "rrule_ok r" "freq r = ''WEEKLY''" "interval r = 1" "2 \<le> n"
  shows "\<exists>t. Next n r after (fixedZone offs) = Some (Inr t) \<and> after < t \<and> occurrence offs r t \<and>
     (\<forall>u. after < u \<and> occurrence offs r u \<longrightarrow> t \<le> u)"
  using nextWeekly_first [OF assms(1,3,4), of after offs] assms(2) by (simp add: Next_def)

text \<open>A weekly rule without BYDAY does not keep to a weekday: it fires within a day of the given time.\<close>

theorem weekly_without_byday_is_daily:
  assumes "rrule_ok r" "freq r = ''WEEKLY''" "byDay r = []" "interval r = 1" "2 \<le> n"
  shows "\<exists>t. Next n r after (fixedZone offs) = Some (Inr t) \<and> after < t \<and> t \<le> after + 86400 * second"
proof -
  let ?s = "dayTime r" and ?D = "dayNumber (fixedZone offs) after"
  obtain t where t: "nextWeekly n r after (fixedZone offs) = Some (Inr t)" "after < t"
    "\<And>u. after < u \<Longrightarrow> occurrence offs r u \<Longrightarrow> t \<le> u"
    using nextWeekly_first [OF assms(1,4,5), of after offs] by blast
  have o: "occurrence offs r (instant offs d ?s)" for d
    using occurrence_iff [OF assms(1)] assms(3) by (auto simp: dayOk_def)
  have step: "instant offs (?D + 1) ?s = instant offs ?D ?s + 86400 * second" by (simp add: instant_def algebra_simps)
  have "t \<le> after + 86400 * second"
  proof (cases "after < instant offs ?D ?s")
    case True
    have "instant offs ?D ?s \<le> instant offs ?D 0 + 86400 * second"
      using dayTime_range [OF assms(1)] by (simp add: instant_def second_def)
    then show ?thesis using t(3) [OF True o] dayNumber_range [of offs after] by linarith
  next
    case False
    have "after < instant offs (?D + 1) ?s"
      using dayNumber_range [of offs after] dayTime_range [OF assms(1)] by (auto simp: instant_def second_def)
    from t(3) [OF this o] show ?thesis using step False by linarith
  qed
  with t assms(2) show ?thesis by (simp add: Next_def)
qed

lemma week_cases: "(x :: int) mod 7 \<in> {0, 1, 2, 3, 4, 5, 6}"
proof -
  have "0 \<le> x mod 7" "x mod 7 < 7" by simp_all
  then show ?thesis by auto
qed

text \<open>The start of the week that is computed is a Monday only for a time that lies on a Monday itself.\<close>

theorem startOfWeek_monday_iff:
  "timeWeekday (fixedZone offs) (startOfWeek (fixedZone offs) t) = 1 \<longleftrightarrow> timeWeekday (fixedZone offs) t = 1"
proof -
  define D where "D = dayNumber (fixedZone offs) t"
  have "timeWeekday (fixedZone offs) (startOfWeek (fixedZone offs) t) = (D - (1 - (D + 4) mod 7 + 7) mod 7 + 4) mod 7"
    unfolding startOfWeek_fixed by (simp add: timeWeekday_def weekdayOfDay_def dayNumber_instant D_def)
  also have "D - (1 - (D + 4) mod 7 + 7) mod 7 + 4 = D + 4 - (8 - (D + 4) mod 7) mod 7" by simp
  also have "\<dots> mod 7 = ((D + 4) mod 7 - (8 - (D + 4) mod 7) mod 7) mod 7" by (rule mod_diff_left_eq [symmetric])
  finally show ?thesis
    unfolding timeWeekday_def [of _ t] weekdayOfDay_def D_def [symmetric] using week_cases [of "D + 4"] by auto
qed

lemma utcDay_instant: "utcDay y m d = instant 0 (daysFromCivil y m d) 0"
  by (simp add: utcDay_def instant_def)

lemma timeDate_fixed:
  "timeDate (fixedZone offs) y m d h mi =
     instant offs (daysFromCivil (y + (m - 1) div 12) ((m - 1) mod 12 + 1) d) (h * 3600 + mi * 60)"
  by (simp add: timeDate_def zoned_fixed instant_def)

lemma UTC_fixed: "UTC = fixedZone 0"
  by (simp add: UTC_def fixedZone_def)

lemma example_days:
  "daysFromCivil 2024 5 13 = 19856"
  "daysFromCivil 2024 5 14 = 19857"
  "daysFromCivil 2024 5 16 = 19859"
  "daysFromCivil 2024 5 23 = 19866"
  "daysFromCivil 2024 1 31 = 19753"
  "daysFromCivil 2024 2 29 = 19782"
  "daysFromCivil 2024 3 29 = 19811"
  "daysFromCivil 2024 2 0 = 19753"
  "daysFromCivil 2024 3 0 = 19782"
  "daysFromCivil 2024 4 0 = 19813"
  "civilFromDays 19857 = (2024, 5, 14)"
  "civilFromDays 19865 = (2024, 5, 22)"
  "civilFromDays 19753 = (2024, 1, 31)"
  "civilFromDays 19782 = (2024, 2, 29)"
  "civilFromDays 19813 = (2024, 3, 31)"
  "civilFromDays 19811 = (2024, 3, 29)"
  by code_simp+

lemmas calendar_eval = utcDay_instant startOfWeek_fixed timeWeekday_def weekdayOfDay_def dayNumber_instant addDays_instant
  timeYear_def timeMonth_def timeDay_def buildTarget_fixed timeDate_fixed UTC_fixed dayTime_def weekdayAbbr_def
  monthDay_def addMonths_def daysInMonth_def onDay_fixed dayOk_def numeral_3_eq_3 example_days

text \<open>Every second Thursday, asked on Monday 13 May 2024, is the 16th; asked on Tuesday the 14th it is the 23rd.\<close>

theorem biweekly_skips_week:
  "parseRRule id ''FREQ=WEEKLY;INTERVAL=2;BYDAY=TH'' = Inr exampleWeekly \<and>
   Next 3 exampleWeekly (utcDay 2024 5 13) (fixedZone 0) = Some (Inr (utcDay 2024 5 16)) \<and>
   Next 3 exampleWeekly (utcDay 2024 5 14) (fixedZone 0) = Some (Inr (utcDay 2024 5 23))"
  by (intro conjI) (code_simp, simp_all add: exampleWeekly_def Next_def nextWeekly_def weekHit_def calendar_eval, simp_all add: instant_def second_def)

text \<open>A monthly rule that fired on 31 January fires on 29 February and from there on 29 March: the day of the month it started with is lost.\<close>

theorem monthly_drift:
  "Next 3 exampleMonthly (utcDay 2024 1 31) (fixedZone 0) = Some (Inr (utcDay 2024 2 29)) \<and>
   Next 3 exampleMonthly (utcDay 2024 2 29) (fixedZone 0) = Some (Inr (utcDay 2024 3 29))"
  by (simp add: exampleMonthly_def Next_def nextMonthly_def calendar_eval, simp add: instant_def second_def)

theorem parseRRule_ok_witness: "rrule_ok exampleWeekly"
  by (rule parseRRule_ok [of id "''FREQ=WEEKLY;INTERVAL=2;BYDAY=TH''"]) code_simp

theorem Next_strictly_after_witness: "utcDay 2024 1 31 < utcDay 2024 2 29"
  by (rule Next_strictly_after [of 3 exampleMonthly _ "fixedZone 0"])
    (simp add: exampleMonthly_def Next_def nextMonthly_def calendar_eval, simp add: instant_def second_def)

theorem nextWeekly_least_witness:
  "\<exists>t. Next 2 exampleDaily (utcDay 2024 5 14) (fixedZone 28800) = Some (Inr t) \<and> utcDay 2024 5 14 < t \<and>
     occurrence 28800 exampleDaily t \<and> (\<forall>u. utcDay 2024 5 14 < u \<and> occurrence 28800 exampleDaily u \<longrightarrow> t \<le> u)"
  by (rule nextWeekly_least) (simp_all add: exampleDaily_def rrule_ok_def frequencies_def)

theorem weekly_without_byday_is_daily_witness:
  "\<exists>t. Next 2 exampleDaily (utcDay 2024 5 14) (fixedZone 28800) = Some (Inr t) \<and> utcDay 2024 5 14 < t \<and>
     t \<le> utcDay 2024 5 14 + 86400 * second"
  by (rule weekly_without_byday_is_daily) (simp_all add: exampleDaily_def rrule_ok_def frequencies_def)

end
