(* ===== verification/Automation.thy ===== *)
theory Automation
  imports RRule Transition
begin

section \<open>Automations\<close>

text \<open>
  \<^verbatim>\<open>internal/automation\<close>: the definitions of automations and their runs (\<^verbatim>\<open>types.go\<close>), their store in three SQL
  tables (\<^verbatim>\<open>store.go\<close>), the dispatcher that turns a firing into a conversation or a workflow run
  (\<^verbatim>\<open>dispatcher.go\<close>) and the scheduler that polls for due automations (\<^verbatim>\<open>scheduler.go\<close>).  A table is the list of its
  rows in order of insertion; rows that an ORDER BY leaves equal stay in that order.  The firing of an
  automation is split at the turn, so that a change made while the turn runs is any change of the store
  between the two parts.
\<close>

subsection \<open>Definitions and next firings\<close>

record Automation =
  ID :: string
  Name :: string
  Prompt :: string
  Status :: string
  ScheduleType :: string
  RRule :: string
  ScheduledAt :: int
  Timezone :: string
  ModeExec :: string
  SessionID :: string
  CWDs :: "string list"
  ModelID :: string
  Skills :: "string list"
  Connectors :: "string list"
  PermissionMode :: string
  ValidFrom :: int
  ValidUntil :: int
  CreatedFromWorkspace :: string
  LastRunAt :: int
  NextRunAt :: int
  RunCount :: int
  LastStatus :: string
  RetryCount :: int
  CreatedAt :: int
  UpdatedAt :: int
  DeletedAt :: int
  WorkflowRef :: string
  WorkflowInput :: string
  OverlapPolicy :: string

record AutomationPatch =
  pName :: "string option"
  pPrompt :: "string option"
  pStatus :: "string option"
  pScheduleType :: "string option"
  pRRule :: "string option"
  pScheduledAt :: "int option"
  pTimezone :: "string option"
  pModeExec :: "string option"
  pSessionID :: "string option"
  pCWDs :: "string list option"
  pModelID :: "string option"
  pSkills :: "string list option"
  pConnectors :: "string list option"
  pPermissionMode :: "string option"
  pValidFrom :: "int option"
  pValidUntil :: "int option"
  pCreatedFromWorkspace :: "string option"
  pLastRunAt :: "int option"
  pLastStatus :: "string option"
  pRetryCount :: "int option"
  pWorkflowRef :: "string option"
  pWorkflowInput :: "string option"
  pOverlapPolicy :: "string option"

definition noPatch :: AutomationPatch where
  "noPatch = \<lparr>pName = None, pPrompt = None, pStatus = None, pScheduleType = None, pRRule = None, pScheduledAt = None, pTimezone = None, pModeExec = None, pSessionID = None, pCWDs = None, pModelID = None, pSkills = None, pConnectors = None, pPermissionMode = None, pValidFrom = None, pValidUntil = None, pCreatedFromWorkspace = None, pLastRunAt = None, pLastStatus = None, pRetryCount = None, pWorkflowRef = None, pWorkflowInput = None, pOverlapPolicy = None\<rparr>"

text \<open>The zero value of \<open>time.Time\<close> is the first instant of the year 1.\<close>

definition zeroTime :: int where "zeroTime = - 62135596800 * second"

definition millisecond :: int where "millisecond = 1000000"

definition epochMS :: "int \<Rightarrow> int" where
  "epochMS t = (if t = zeroTime then 0 else t div millisecond)"

definition epochMSOrNil :: "int \<Rightarrow> int option" where
  "epochMSOrNil t = (if t = zeroTime then None else Some (t div millisecond))"

definition UnixMilli :: "int \<Rightarrow> int" where
  "UnixMilli ms = ms * millisecond"

text \<open>The text of a time in a column: empty, or its RFC 3339 form, which is parsed back for years of four
  digits only.\<close>

datatype timeText = NoText | RFC3339Nano int

definition fmtTime :: "int \<Rightarrow> timeText" where
  "fmtTime t = (if t = zeroTime then NoText else RFC3339Nano t)"

definition parseTime :: "timeText \<Rightarrow> int" where
  "parseTime s =
     (case s of
        NoText \<Rightarrow> zeroTime
      | RFC3339Nano t \<Rightarrow> if 0 \<le> timeYear UTC t \<and> timeYear UTC t \<le> 9999 then t else zeroTime)"

text \<open>A column with a JSON array of strings holds what decoding gives back: the encoder replaces bytes
  that are not UTF-8.\<close>

definition jsonStr :: "string list \<Rightarrow> string list" where
  "jsonStr v = map rangeBytes v"

definition parseJSONStrings :: "string list \<Rightarrow> string list" where
  "parseJSONStrings s = s"

definition readDeleted :: "int option \<Rightarrow> int" where
  "readDeleted c = (case c of None \<Rightarrow> zeroTime | Some ms \<Rightarrow> if ms \<noteq> 0 then UnixMilli ms else zeroTime)"

definition orElse :: "'a option \<Rightarrow> 'a \<Rightarrow> 'a" where
  "orElse p v = (case p of None \<Rightarrow> v | Some x \<Rightarrow> x)"

datatype autoError =
    NotFound string | UnknownTimezone string | NeedsScheduledAt | RuleError rrule_error | DuplicateID string

text \<open>What the code reads from outside: the time zone database, the case table, and how many rounds a
  recurrence loop is followed before the call counts as not returned (None).\<close>

record autoEnv =
  rounds :: nat
  upper :: "string \<Rightarrow> string"
  LoadLocation :: "string \<Rightarrow> Location option"

definition loadLocation :: "autoEnv \<Rightarrow> string \<Rightarrow> autoError + Location" where
  "loadLocation E tz =
     (if tz = [] then Inr UTC else (case LoadLocation E tz of None \<Rightarrow> Inl (UnknownTimezone tz) | Some loc \<Rightarrow> Inr loc))"

definition computeNextRunAt :: "autoEnv \<Rightarrow> Automation \<Rightarrow> int \<Rightarrow> (autoError + int) option" where
  "computeNextRunAt E a after =
     (case loadLocation E (Timezone a) of
        Inl e \<Rightarrow> Some (Inl e)
      | Inr loc \<Rightarrow>
          if ScheduleType a = ''once'' then
            (if ScheduledAt a = zeroTime then Some (Inl NeedsScheduledAt) else Some (Inr (ScheduledAt a)))
          else
            (case parseRRule (upper E) (RRule a) of
               Inl e \<Rightarrow> Some (Inl (RuleError e))
             | Inr r \<Rightarrow> map_option (map_sum RuleError id) (Next (rounds E) r after loc)))"

definition NormalizePermissionMode :: "string \<Rightarrow> string \<times> bool" where
  "NormalizePermissionMode mode =
     (if mode \<in> {[], ''ask'', ''auto'', ''full''} then (mode, True)
      else if mode = ''full_access'' then (''full'', True)
      else ([], False))"

subsection \<open>The store\<close>

record automationRow =
  c_id :: string
  c_name :: string
  c_prompt :: string
  c_status :: string
  c_schedule_type :: string
  c_rrule :: string
  c_scheduled_at :: timeText
  c_timezone :: string
  c_mode_exec :: string
  c_session_id :: string
  c_cwds :: "string list"
  c_model_id :: string
  c_skills_json :: "string list"
  c_connector_ids_json :: "string list"
  c_permission_mode :: string
  c_valid_from :: timeText
  c_valid_until :: timeText
  c_created_from_workspace :: string
  c_last_run_at :: int
  c_next_run_at :: int
  c_run_count :: int
  c_last_status :: string
  c_retry_count :: int
  c_created_at :: int
  c_updated_at :: int
  c_deleted_at :: "int option"
  c_workflow_ref :: string
  c_workflow_input :: string
  c_overlap_policy :: string

record runRow =
  r_id :: string
  r_automation_id :: string
  r_session_id :: string
  r_task_id :: string
  r_status :: string
  r_read_at :: int
  r_thread_title :: string
  r_source_cwd :: string
  r_result_success :: int
  r_result_summary :: string
  r_created_at :: int

record stateRow =
  s_last_run_at :: int
  s_last_error :: string
  s_running :: int
  s_running_started_at :: int
  s_running_turn_id :: string

record sqlStore =
  automations :: "automationRow list"
  automation_runs :: "runRow list"
  runtime_state :: "string \<Rightarrow> stateRow option"

record RuntimeState =
  rsAutomationID :: string
  rsLastRunAt :: int
  rsLastError :: string
  rsRunning :: bool
  rsRunningStartedAt :: int
  rsRunningTurnID :: string

record Run =
  runID :: string
  runAutomationID :: string
  runSessionID :: string
  runTaskID :: string
  runStatus :: string
  runReadAt :: int
  runThreadTitle :: string
  runSourceCWD :: string
  runResultSuccess :: bool
  runResultSummary :: string
  runCreatedAt :: int

definition noRun :: Run where
  "noRun = \<lparr>runID = [], runAutomationID = [], runSessionID = [], runTaskID = [], runStatus = [], runReadAt = zeroTime,
     runThreadTitle = [], runSourceCWD = [], runResultSuccess = False, runResultSummary = [], runCreatedAt = zeroTime\<rparr>"

definition noState :: RuntimeState where
  "noState = \<lparr>rsAutomationID = [], rsLastRunAt = zeroTime, rsLastError = [], rsRunning = False,
     rsRunningStartedAt = zeroTime, rsRunningTurnID = []\<rparr>"

definition boolToInt :: "bool \<Rightarrow> int" where
  "boolToInt b = (if b then 1 else 0)"

definition insertRow :: "Automation \<Rightarrow> automationRow" where
  "insertRow a =
     \<lparr>c_id = ID a,
      c_name = Name a,
      c_prompt = Prompt a,
      c_status = Status a,
      c_schedule_type = ScheduleType a,
      c_rrule = RRule a,
      c_scheduled_at = fmtTime (ScheduledAt a),
      c_timezone = Timezone a,
      c_mode_exec = ModeExec a,
      c_session_id = SessionID a,
      c_cwds = jsonStr (CWDs a),
      c_model_id = ModelID a,
      c_skills_json = jsonStr (Skills a),
      c_connector_ids_json = jsonStr (Connectors a),
      c_permission_mode = PermissionMode a,
      c_valid_from = fmtTime (ValidFrom a),
      c_valid_until = fmtTime (ValidUntil a),
      c_created_from_workspace = CreatedFromWorkspace a,
      c_last_run_at = epochMS (LastRunAt a),
      c_next_run_at = epochMS (NextRunAt a),
      c_run_count = RunCount a,
      c_last_status = LastStatus a,
      c_retry_count = RetryCount a,
      c_created_at = epochMS (CreatedAt a),
      c_updated_at = epochMS (UpdatedAt a),
      c_deleted_at = epochMSOrNil (DeletedAt a),
      c_workflow_ref = WorkflowRef a,
      c_workflow_input = WorkflowInput a,
      c_overlap_policy = OverlapPolicy a\<rparr>"

definition scanAutomation :: "automationRow \<Rightarrow> Automation" where
  "scanAutomation c =
     \<lparr>ID = c_id c,
      Name = c_name c,
      Prompt = c_prompt c,
      Status = c_status c,
      ScheduleType = c_schedule_type c,
      RRule = c_rrule c,
      ScheduledAt = parseTime (c_scheduled_at c),
      Timezone = c_timezone c,
      ModeExec = c_mode_exec c,
      SessionID = c_session_id c,
      CWDs = parseJSONStrings (c_cwds c),
      ModelID = c_model_id c,
      Skills = parseJSONStrings (c_skills_json c),
      Connectors = parseJSONStrings (c_connector_ids_json c),
      PermissionMode = c_permission_mode c,
      ValidFrom = parseTime (c_valid_from c),
      ValidUntil = parseTime (c_valid_until c),
      CreatedFromWorkspace = c_created_from_workspace c,
      LastRunAt = UnixMilli (c_last_run_at c),
      NextRunAt = UnixMilli (c_next_run_at c),
      RunCount = c_run_count c,
      LastStatus = c_last_status c,
      RetryCount = c_retry_count c,
      CreatedAt = UnixMilli (c_created_at c),
      UpdatedAt = UnixMilli (c_updated_at c),
      DeletedAt = readDeleted (c_deleted_at c),
      WorkflowRef = c_workflow_ref c,
      WorkflowInput = c_workflow_input c,
      OverlapPolicy = c_overlap_policy c\<rparr>"

definition updateRow :: "Automation \<Rightarrow> automationRow \<Rightarrow> automationRow" where
  "updateRow a c =
     c\<lparr>c_name := Name a,
       c_prompt := Prompt a,
       c_status := Status a,
       c_schedule_type := ScheduleType a,
       c_rrule := RRule a,
       c_scheduled_at := fmtTime (ScheduledAt a),
       c_timezone := Timezone a,
       c_mode_exec := ModeExec a,
       c_session_id := SessionID a,
       c_cwds := jsonStr (CWDs a),
       c_model_id := ModelID a,
       c_skills_json := jsonStr (Skills a),
       c_connector_ids_json := jsonStr (Connectors a),
       c_permission_mode := PermissionMode a,
       c_valid_from := fmtTime (ValidFrom a),
       c_valid_until := fmtTime (ValidUntil a),
       c_created_from_workspace := CreatedFromWorkspace a,
       c_next_run_at := epochMS (NextRunAt a),
       c_last_run_at := epochMS (LastRunAt a),
       c_last_status := LastStatus a,
       c_retry_count := RetryCount a,
       c_updated_at := epochMS (UpdatedAt a),
       c_workflow_ref := WorkflowRef a,
       c_workflow_input := WorkflowInput a,
       c_overlap_policy := OverlapPolicy a\<rparr>"

definition patched :: "AutomationPatch \<Rightarrow> Automation \<Rightarrow> Automation" where
  "patched p a =
     a\<lparr>Name := orElse (pName p) (Name a),
       Prompt := orElse (pPrompt p) (Prompt a),
       Status := orElse (pStatus p) (Status a),
       ScheduleType := orElse (pScheduleType p) (ScheduleType a),
       RRule := orElse (pRRule p) (RRule a),
       ScheduledAt := orElse (pScheduledAt p) (ScheduledAt a),
       Timezone := orElse (pTimezone p) (Timezone a),
       ModeExec := orElse (pModeExec p) (ModeExec a),
       SessionID := orElse (pSessionID p) (SessionID a),
       CWDs := orElse (pCWDs p) (CWDs a),
       ModelID := orElse (pModelID p) (ModelID a),
       Skills := orElse (pSkills p) (Skills a),
       Connectors := orElse (pConnectors p) (Connectors a),
       PermissionMode := orElse (pPermissionMode p) (PermissionMode a),
       ValidFrom := orElse (pValidFrom p) (ValidFrom a),
       ValidUntil := orElse (pValidUntil p) (ValidUntil a),
       CreatedFromWorkspace := orElse (pCreatedFromWorkspace p) (CreatedFromWorkspace a),
       LastRunAt := orElse (pLastRunAt p) (LastRunAt a),
       LastStatus := orElse (pLastStatus p) (LastStatus a),
       RetryCount := orElse (pRetryCount p) (RetryCount a),
       WorkflowRef := orElse (pWorkflowRef p) (WorkflowRef a),
       WorkflowInput := orElse (pWorkflowInput p) (WorkflowInput a),
       OverlapPolicy := orElse (pOverlapPolicy p) (OverlapPolicy a)\<rparr>"

text \<open>Statements of the store are atomic and assumed not to fail for reasons of their own; a primary key
  that exists already refuses an insert.  The clock and the identifiers made from it are arguments.\<close>

definition defaulted :: "int \<Rightarrow> string \<Rightarrow> Automation \<Rightarrow> Automation" where
  "defaulted now newID a =
     a\<lparr>CreatedAt := now, UpdatedAt := now,
       Status := (if Status a = [] then ''ACTIVE'' else Status a),
       ScheduleType := (if ScheduleType a = [] then ''recurring'' else ScheduleType a),
       ModeExec := (if ModeExec a = [] then ''standalone'' else ModeExec a),
       ID := (if ID a = [] then newID else ID a)\<rparr>"

definition hasID :: "string \<Rightarrow> sqlStore \<Rightarrow> bool" where
  "hasID i db = list_ex (\<lambda>c. c_id c = i) (automations db)"

definition Create :: "autoEnv \<Rightarrow> int \<Rightarrow> string \<Rightarrow> Automation \<Rightarrow> sqlStore \<Rightarrow> ((autoError + Automation) \<times> sqlStore) option" where
  "Create E now newID a0 db =
     (let a = defaulted now newID a0 in
      map_option
        (\<lambda>next. case next of
           Inl e \<Rightarrow> (Inl e, db)
         | Inr t \<Rightarrow>
             (let a' = a\<lparr>NextRunAt := t\<rparr> in
              if hasID (ID a') db then (Inl (DuplicateID (ID a')), db)
              else (Inr a', db\<lparr>automations := automations db @ [insertRow a']\<rparr>)))
        (computeNextRunAt E a now))"

definition Get :: "string \<Rightarrow> sqlStore \<Rightarrow> autoError + Automation" where
  "Get i db =
     (case find (\<lambda>c. c_id c = i) (automations db) of
        None \<Rightarrow> Inl (NotFound i)
      | Some c \<Rightarrow> Inr (scanAutomation c))"

definition List :: "sqlStore \<Rightarrow> Automation list" where
  "List db = map scanAutomation (sort_key (\<lambda>c. - c_created_at c) (filter (\<lambda>c. c_deleted_at c = None) (automations db)))"

definition onRow :: "string \<Rightarrow> (automationRow \<Rightarrow> automationRow) \<Rightarrow> sqlStore \<Rightarrow> sqlStore" where
  "onRow i f db = db\<lparr>automations := map (\<lambda>c. if c_id c = i then f c else c) (automations db)\<rparr>"

text \<open>\<open>Update\<close> up to its statement: the patch, then the next firing of a revived automation from now and of a
  rescheduled one from its last run.\<close>

definition scheduleChanged :: "AutomationPatch \<Rightarrow> bool" where
  "scheduleChanged p = (pRRule p \<noteq> None \<or> pScheduleType p \<noteq> None \<or> pScheduledAt p \<noteq> None \<or> pTimezone p \<noteq> None)"

definition reArm :: "AutomationPatch \<Rightarrow> Automation \<Rightarrow> bool" where
  "reArm p a = (pStatus p = Some ''ACTIVE'' \<and> Status a \<noteq> ''ACTIVE'')"

definition revised :: "autoEnv \<Rightarrow> int \<Rightarrow> AutomationPatch \<Rightarrow> Automation \<Rightarrow> (autoError + Automation) option" where
  "revised E now p existing =
     (let a = (patched p existing)\<lparr>UpdatedAt := now\<rparr> in
      if reArm p existing then
        (let b = (if pRetryCount p = None then a\<lparr>RetryCount := 0\<rparr> else a) in
         map_option (map_sum id (\<lambda>t. b\<lparr>NextRunAt := t\<rparr>)) (computeNextRunAt E b (UpdatedAt b)))
      else if scheduleChanged p then
        map_option (map_sum id (\<lambda>t. a\<lparr>NextRunAt := t\<rparr>)) (computeNextRunAt E a (LastRunAt a))
      else Some (Inr a))"

definition Update :: "autoEnv \<Rightarrow> int \<Rightarrow> string \<Rightarrow> AutomationPatch \<Rightarrow> sqlStore \<Rightarrow> ((autoError + Automation) \<times> sqlStore) option" where
  "Update E now i p db =
     (case Get i db of
        Inl e \<Rightarrow> Some (Inl e, db)
      | Inr existing \<Rightarrow>
          map_option (\<lambda>r. case r of Inl e \<Rightarrow> (Inl e, db) | Inr a \<Rightarrow> (Inr a, onRow i (updateRow a) db))
            (revised E now p existing))"

definition Delete :: "int \<Rightarrow> string \<Rightarrow> sqlStore \<Rightarrow> sqlStore" where
  "Delete now i =
     onRow i (\<lambda>c. if c_deleted_at c = None then c\<lparr>c_deleted_at := Some (epochMS now), c_updated_at := epochMS now\<rparr> else c)"

definition dueRow :: "int \<Rightarrow> automationRow \<Rightarrow> bool" where
  "dueRow now c = (c_deleted_at c = None \<and> c_status c = ''ACTIVE'' \<and> c_next_run_at c \<le> epochMS now)"

definition NextDueAt :: "int \<Rightarrow> sqlStore \<Rightarrow> Automation list" where
  "NextDueAt now db = map scanAutomation (sort_key c_next_run_at (filter (dueRow now) (automations db)))"

definition UpdateNextRunAt :: "string \<Rightarrow> int \<Rightarrow> sqlStore \<Rightarrow> sqlStore" where
  "UpdateNextRunAt i next = onRow i (\<lambda>c. c\<lparr>c_next_run_at := epochMS next\<rparr>)"

definition runRowOf :: "Run \<Rightarrow> runRow" where
  "runRowOf r =
     \<lparr>r_id = runID r, r_automation_id = runAutomationID r, r_session_id = runSessionID r, r_task_id = runTaskID r,
      r_status = runStatus r, r_read_at = epochMS (runReadAt r), r_thread_title = runThreadTitle r,
      r_source_cwd = runSourceCWD r, r_result_success = boolToInt (runResultSuccess r),
      r_result_summary = runResultSummary r, r_created_at = epochMS (runCreatedAt r)\<rparr>"

text \<open>\<open>RecordRun\<close>: one transaction, the insert and the count; an identifier that exists rolls it back.\<close>

definition RecordRun :: "int \<Rightarrow> string \<Rightarrow> Run \<Rightarrow> sqlStore \<Rightarrow> sqlStore" where
  "RecordRun now newID r0 db =
     (let r1 = (if runID r0 = [] then r0\<lparr>runID := newID\<rparr> else r0);
          r = (if runCreatedAt r1 = zeroTime then r1\<lparr>runCreatedAt := now\<rparr> else r1)
      in if list_ex (\<lambda>x. r_id x = runID r) (automation_runs db) then db
         else onRow (runAutomationID r) (\<lambda>c. c\<lparr>c_run_count := c_run_count c + 1\<rparr>)
                (db\<lparr>automation_runs := automation_runs db @ [runRowOf r]\<rparr>))"

definition scanRun :: "runRow \<Rightarrow> Run" where
  "scanRun x =
     \<lparr>runID = r_id x, runAutomationID = r_automation_id x, runSessionID = r_session_id x, runTaskID = r_task_id x,
      runStatus = r_status x, runReadAt = UnixMilli (r_read_at x), runThreadTitle = r_thread_title x,
      runSourceCWD = r_source_cwd x, runResultSuccess = (r_result_success x \<noteq> 0),
      runResultSummary = r_result_summary x, runCreatedAt = UnixMilli (r_created_at x)\<rparr>"

definition ListRuns :: "string \<Rightarrow> int \<Rightarrow> sqlStore \<Rightarrow> Run list" where
  "ListRuns i limit db =
     map scanRun
       (take (nat (if limit \<le> 0 then 50 else limit))
          (sort_key (\<lambda>x. - r_created_at x) (filter (\<lambda>x. r_automation_id x = i) (automation_runs db))))"

definition MarkRunRead :: "int \<Rightarrow> string \<Rightarrow> sqlStore \<Rightarrow> sqlStore" where
  "MarkRunRead now i db =
     db\<lparr>automation_runs := map (\<lambda>x. if r_id x = i then x\<lparr>r_read_at := epochMS now\<rparr> else x) (automation_runs db)\<rparr>"

definition UpdateRuntimeState :: "RuntimeState \<Rightarrow> sqlStore \<Rightarrow> sqlStore" where
  "UpdateRuntimeState st db =
     db\<lparr>runtime_state := (runtime_state db)(rsAutomationID st \<mapsto>
       \<lparr>s_last_run_at = epochMS (rsLastRunAt st), s_last_error = rsLastError st, s_running = boolToInt (rsRunning st),
        s_running_started_at = epochMS (rsRunningStartedAt st), s_running_turn_id = rsRunningTurnID st\<rparr>)\<rparr>"

definition RuntimeStateOf :: "string \<Rightarrow> sqlStore \<Rightarrow> RuntimeState" where
  "RuntimeStateOf i db =
     (case runtime_state db i of
        None \<Rightarrow> noState
      | Some s \<Rightarrow>
          \<lparr>rsAutomationID = i, rsLastRunAt = UnixMilli (s_last_run_at s), rsLastError = s_last_error s,
           rsRunning = (s_running s \<noteq> 0), rsRunningStartedAt = UnixMilli (s_running_started_at s),
           rsRunningTurnID = s_running_turn_id s\<rparr>)"

definition skipNext :: "autoEnv \<Rightarrow> int \<Rightarrow> Automation \<Rightarrow> int option" where
  "skipNext E now a =
     (if ScheduleType a = ''recurring''
      then map_option (\<lambda>r. case r of Inr t \<Rightarrow> t | Inl _ \<Rightarrow> zeroTime) (computeNextRunAt E a now)
      else Some zeroTime)"

fun skipAll :: "autoEnv \<Rightarrow> int \<Rightarrow> string list \<Rightarrow> Automation list \<Rightarrow> sqlStore \<Rightarrow> sqlStore option" where
  "skipAll E now ids [] db = Some db"
| "skipAll E now ids (a # as) db =
     (case skipNext E now a of
        None \<Rightarrow> None
      | Some next \<Rightarrow>
          skipAll E now (tl ids) as
            (UpdateNextRunAt (ID a) next
               (RecordRun now (hd ids) (noRun\<lparr>runAutomationID := ID a, runStatus := ''skipped'', runCreatedAt := now\<rparr>) db)))"

text \<open>The identifiers of the skipped runs come from the clock, one for each due automation.\<close>

definition SkipDue :: "autoEnv \<Rightarrow> int \<Rightarrow> string list \<Rightarrow> sqlStore \<Rightarrow> (nat \<times> sqlStore) option" where
  "SkipDue E now ids db = map_option (\<lambda>db'. (length (NextDueAt now db), db')) (skipAll E now ids (NextDueAt now db) db)"

subsection \<open>Dispatching a firing\<close>

datatype dispatchError = DispatchError (isCanceled: bool) (errText: string)

record Perm =
  permMode :: string
  permConnectors :: "string list"
  permSkills :: "string list"

text \<open>The conversation and workflow services the dispatcher calls; an interface that was not wired is None.\<close>

record 'input TurnDispatcher =
  Submitter :: "(string \<Rightarrow> string \<Rightarrow> string \<Rightarrow> Perm \<Rightarrow> dispatchError + string) option"
  CreateConversation :: "(string \<Rightarrow> dispatchError + string) option"
  ConversationExists :: "string \<Rightarrow> bool option"
  SubmitWorkflowRun :: "(string \<Rightarrow> string \<Rightarrow> 'input option \<Rightarrow> dispatchError + int) option"
  HasActiveWorkflowRun :: "string \<Rightarrow> string \<Rightarrow> dispatchError + bool"
  UnmarshalInput :: "string \<Rightarrow> dispatchError + 'input"

datatype 'input call =
    Submitted string string string Perm | Created string | Started string string "'input option"

text \<open>A call on an interface that is nil panics.\<close>

datatype outcome = Panicked | Returned "dispatchError + string"

definition wrapped :: "string \<Rightarrow> dispatchError \<Rightarrow> dispatchError" where
  "wrapped text e = DispatchError (isCanceled e) (text @ '': '' @ errText e)"

definition plainError :: "string \<Rightarrow> dispatchError" where
  "plainError text = DispatchError False text"

definition aboutID :: "(string \<Rightarrow> string) \<Rightarrow> Automation \<Rightarrow> string \<Rightarrow> string" where
  "aboutID q a text = ''automation '' @ q (ID a) @ '': '' @ text"

definition dispatchWorkflow :: "(string \<Rightarrow> string) \<Rightarrow> 'input TurnDispatcher \<Rightarrow> Automation \<Rightarrow> outcome \<times> 'input call list" where
  "dispatchWorkflow q d a =
     (case Index (WorkflowRef a) ''#'' of
        None \<Rightarrow> (Returned (Inl (plainError (aboutID q a (''invalid workflow_ref '' @ q (WorkflowRef a) @ '', expected workspace_path#workflow_name'')))), [])
      | Some k \<Rightarrow>
          (let ws = take k (WorkflowRef a); name = drop (k + 1) (WorkflowRef a) in
           if ws = [] \<or> name = [] then
             (Returned (Inl (plainError (aboutID q a (''invalid workflow_ref '' @ q (WorkflowRef a) @ '', expected workspace_path#workflow_name'')))), [])
           else
             (case (if WorkflowInput a = [] then Inr None else map_sum id Some (UnmarshalInput d (WorkflowInput a))) of
                Inl e \<Rightarrow> (Returned (Inl (wrapped (aboutID q a ''parse workflow_input'') e)), [])
              | Inr input \<Rightarrow>
                  (let policy = (if OverlapPolicy a = [] then ''skip'' else OverlapPolicy a);
                       active = (if policy = ''skip'' \<and> SubmitWorkflowRun d \<noteq> None then HasActiveWorkflowRun d ws name else Inr False)
                   in case active of
                        Inl e \<Rightarrow> (Returned (Inl (wrapped (aboutID q a ''overlap check'') e)), [])
                      | Inr True \<Rightarrow> (Returned (Inr []), [])
                      | Inr False \<Rightarrow>
                          (case SubmitWorkflowRun d of
                             None \<Rightarrow> (Panicked, [])
                           | Some submit \<Rightarrow>
                               (case submit ws name input of
                                  Inl e \<Rightarrow> (Returned (Inl (wrapped (aboutID q a ''workflow run'') e)), [Started ws name input])
                                | Inr taskID \<Rightarrow> (Returned (Inr (''wf_'' @ intString taskID)), [Started ws name input])))))))"

definition firstWorkspace :: "Automation \<Rightarrow> string" where
  "firstWorkspace a = (if CWDs a \<noteq> [] then hd (CWDs a) else CreatedFromWorkspace a)"

definition freshConversation ::
  "(string \<Rightarrow> string) \<Rightarrow> 'input TurnDispatcher \<Rightarrow> (string \<Rightarrow> string \<Rightarrow> string \<Rightarrow> Perm \<Rightarrow> dispatchError + string) \<Rightarrow>
   string \<Rightarrow> Perm \<Rightarrow> Automation \<Rightarrow> outcome \<times> 'input call list" where
  "freshConversation q d submit kind perm a =
     (case CreateConversation d of
        None \<Rightarrow> (Returned (Inl (plainError (aboutID q a (kind @ '' mode requires a conversation creator'')))), [])
      | Some create \<Rightarrow>
          (case create (firstWorkspace a) of
             Inl e \<Rightarrow> (Returned (Inl (wrapped (aboutID q a (''create '' @ kind @ '' conversation'')) e)), [Created (firstWorkspace a)])
           | Inr sid \<Rightarrow>
               (case submit sid (Prompt a) (ModelID a) perm of
                  Inl e \<Rightarrow> (Returned (Inl (wrapped (aboutID q a (''submit '' @ kind @ '' turn'')) e)),
                            [Created (firstWorkspace a), Submitted sid (Prompt a) (ModelID a) perm])
                | Inr _ \<Rightarrow> (Returned (Inr sid), [Created (firstWorkspace a), Submitted sid (Prompt a) (ModelID a) perm]))))"

definition Dispatch :: "(string \<Rightarrow> string) \<Rightarrow> 'input TurnDispatcher \<Rightarrow> Automation \<Rightarrow> outcome \<times> 'input call list" where
  "Dispatch q d a =
     (if WorkflowRef a \<noteq> [] then dispatchWorkflow q d a
      else
        (case Submitter d of
           None \<Rightarrow> (Returned (Inl (plainError ''automation: dispatcher has no submitter'')), [])
         | Some submit \<Rightarrow>
             (let perm = \<lparr>permMode = PermissionMode a, permConnectors = Connectors a, permSkills = Skills a\<rparr>;
                  here = (Returned (submit (SessionID a) (Prompt a) (ModelID a) perm), [Submitted (SessionID a) (Prompt a) (ModelID a) perm])
              in if ModeExec a = ''chat'' then
                   (if TrimSpace (SessionID a) = []
                    then (Returned (Inl (plainError (aboutID q a ''chat mode requires session_id''))), [])
                    else here)
                 else if ModeExec a = ''reuse'' then
                   (if TrimSpace (SessionID a) \<noteq> [] \<and> CreateConversation d \<noteq> None \<and> ConversationExists d (SessionID a) = Some True
                    then here else freshConversation q d submit ''reuse'' perm a)
                 else if ModeExec a = ''standalone'' then freshConversation q d submit ''standalone'' perm a
                 else (Returned (Inl (plainError (aboutID q a (''unsupported mode_exec '' @ q (ModeExec a))))), []))))"

definition taskIDField :: "string \<Rightarrow> string" where
  "taskIDField s = (if HasPrefix s ''wf_'' then drop 3 s else [])"

subsection \<open>The scheduler\<close>

definition MaxRetries :: int where "MaxRetries = 3"

definition RetryInterval :: int where "RetryInterval = 60 * second"

text \<open>One firing as the scheduler sees it: what the dispatcher returned, the readings of the clock before the
  turn, after it and in the updates, and the identifier of the run.\<close>

record firing =
  startedAt :: int
  endedAt :: int
  updatedFirst :: int
  updatedLast :: int
  newRunID :: string
  returned :: "dispatchError + string"

text \<open>The next firing after a turn that needs no retry, and the status to write: a recurring automation keeps
  its own, one that runs once is completed.\<close>

definition nextTurn :: "autoEnv \<Rightarrow> int \<Rightarrow> Automation \<Rightarrow> int \<Rightarrow> (int \<times> string option) option" where
  "nextTurn E poll a now =
     (if ScheduleType a = ''recurring''
      then map_option (\<lambda>r. (case r of Inr t \<Rightarrow> t | Inl _ \<Rightarrow> now + poll, None)) (computeNextRunAt E a now)
      else Some (zeroTime, Some ''COMPLETED''))"

definition bookkeep :: "autoEnv \<Rightarrow> int \<Rightarrow> string \<Rightarrow> AutomationPatch \<Rightarrow> int \<Rightarrow> sqlStore \<Rightarrow> sqlStore option" where
  "bookkeep E now i p next db = map_option (\<lambda>x. UpdateNextRunAt i next (snd x)) (Update E now i p db)"

definition fireBegin :: "firing \<Rightarrow> Automation \<Rightarrow> sqlStore \<Rightarrow> sqlStore" where
  "fireBegin f a = UpdateRuntimeState (noState\<lparr>rsAutomationID := ID a, rsRunning := True, rsRunningStartedAt := startedAt f\<rparr>)"

definition recordOutcome :: "firing \<Rightarrow> Automation \<Rightarrow> Run \<Rightarrow> RuntimeState \<Rightarrow> sqlStore \<Rightarrow> sqlStore" where
  "recordOutcome f a r st db =
     UpdateRuntimeState (st\<lparr>rsAutomationID := ID a, rsLastRunAt := endedAt f\<rparr>)
       (RecordRun (endedAt f) (newRunID f) (r\<lparr>runAutomationID := ID a, runCreatedAt := endedAt f\<rparr>) db)"

definition fireCanceled :: "autoEnv \<Rightarrow> int \<Rightarrow> firing \<Rightarrow> Automation \<Rightarrow> sqlStore \<Rightarrow> sqlStore option" where
  "fireCanceled E poll f a db0 =
     (let now = endedAt f;
          db = recordOutcome f a (noRun\<lparr>runStatus := ''canceled''\<rparr>) (noState\<lparr>rsLastError := ''cancelled by user''\<rparr>) db0
      in Option.bind (nextTurn E poll a now) (\<lambda>(next, status).
           bookkeep E (updatedLast f) (ID a)
             (noPatch\<lparr>pLastStatus := Some ''canceled'', pStatus := status, pLastRunAt := Some now\<rparr>) next db))"

definition fireFailed :: "autoEnv \<Rightarrow> firing \<Rightarrow> Automation \<Rightarrow> string \<Rightarrow> sqlStore \<Rightarrow> sqlStore option" where
  "fireFailed E f a text db0 =
     (let now = endedAt f;
          db = recordOutcome f a (noRun\<lparr>runStatus := ''failed''\<rparr>) (noState\<lparr>rsLastError := text\<rparr>) db0;
          retries = RetryCount a + 1;
          (next, status) =
            (if retries < MaxRetries then (now + RetryInterval, None)
             else (zeroTime, Some (if ScheduleType a = ''recurring'' then ''PAUSED'' else ''COMPLETED'')))
      in bookkeep E (updatedLast f) (ID a)
           (noPatch\<lparr>pLastStatus := Some ''failed'', pStatus := status, pRetryCount := Some retries, pLastRunAt := Some now\<rparr>) next db)"

definition fireSkipped :: "autoEnv \<Rightarrow> int \<Rightarrow> firing \<Rightarrow> Automation \<Rightarrow> sqlStore \<Rightarrow> sqlStore option" where
  "fireSkipped E poll f a db0 =
     (let now = endedAt f;
          db = recordOutcome f a (noRun\<lparr>runStatus := ''skipped''\<rparr>) (noState\<lparr>rsLastError := ''skipped: active workflow run''\<rparr>) db0
      in Option.bind (nextTurn E poll a now) (\<lambda>(next, status).
           bookkeep E (updatedLast f) (ID a)
             (noPatch\<lparr>pLastRunAt := Some now, pLastStatus := Some ''skipped'', pStatus := status, pRetryCount := Some 0\<rparr>) next db))"

definition fireSucceeded :: "autoEnv \<Rightarrow> int \<Rightarrow> firing \<Rightarrow> Automation \<Rightarrow> string \<Rightarrow> sqlStore \<Rightarrow> sqlStore option" where
  "fireSucceeded E poll f a turnID db0 =
     (let now = endedAt f;
          db = recordOutcome f a (noRun\<lparr>runSessionID := turnID, runTaskID := taskIDField turnID, runStatus := ''succeeded''\<rparr>)
                 (noState\<lparr>rsRunningTurnID := turnID\<rparr>) db0
      in Option.bind
           (if WorkflowRef a = [] \<and> ModeExec a = ''reuse'' \<and> turnID \<noteq> [] \<and> turnID \<noteq> SessionID a
            then map_option snd (Update E (updatedFirst f) (ID a) (noPatch\<lparr>pSessionID := Some turnID\<rparr>) db) else Some db)
           (\<lambda>db. Option.bind (nextTurn E poll a now) (\<lambda>(next, status).
              bookkeep E (updatedLast f) (ID a)
                (noPatch\<lparr>pLastRunAt := Some now, pLastStatus := Some ''succeeded'', pStatus := status, pRetryCount := Some 0\<rparr>) next db)))"

text \<open>The part of \<open>fire\<close> after the turn; the store may have changed in any way while the turn ran.\<close>

definition fireEnd :: "autoEnv \<Rightarrow> int \<Rightarrow> firing \<Rightarrow> Automation \<Rightarrow> sqlStore \<Rightarrow> sqlStore option" where
  "fireEnd E poll f a db =
     (case returned f of
        Inl e \<Rightarrow> if isCanceled e then fireCanceled E poll f a db else fireFailed E f a (errText e) db
      | Inr turnID \<Rightarrow>
          if WorkflowRef a \<noteq> [] \<and> turnID = [] then fireSkipped E poll f a db
          else fireSucceeded E poll f a turnID db)"

definition fire :: "autoEnv \<Rightarrow> int \<Rightarrow> (Automation \<Rightarrow> firing) option \<Rightarrow> Automation \<Rightarrow> sqlStore \<Rightarrow> sqlStore option" where
  "fire E poll dispatcher a db =
     (case dispatcher of
        None \<Rightarrow> Some db
      | Some dispatch \<Rightarrow> fireEnd E poll (dispatch a) a (fireBegin (dispatch a) a db))"

fun fireAll :: "autoEnv \<Rightarrow> int \<Rightarrow> (Automation \<Rightarrow> firing) option \<Rightarrow> Automation list \<Rightarrow> sqlStore \<Rightarrow> sqlStore option" where
  "fireAll E poll dispatcher [] db = Some db"
| "fireAll E poll dispatcher (a # as) db = Option.bind (fire E poll dispatcher a db) (fireAll E poll dispatcher as)"

definition tick :: "autoEnv \<Rightarrow> int \<Rightarrow> (Automation \<Rightarrow> firing) option \<Rightarrow> int \<Rightarrow> sqlStore \<Rightarrow> sqlStore option" where
  "tick E poll dispatcher now db = fireAll E poll dispatcher (NextDueAt now db) db"

definition pollInterval :: "int \<Rightarrow> int" where
  "pollInterval d = (if d \<le> 0 then 30 * second else d)"

text \<open>Specification vocabulary: due automations and rows by identifier, patches that leave the schedule alone, repeated attempts, the counts of runs, the operations on a store as steps, what a row keeps of an automation, and sample data.\<close>

definition isDue :: "int \<Rightarrow> string \<Rightarrow> sqlStore \<Rightarrow> bool" where
  "isDue now i db = (i \<in> ID ` set (NextDueAt now db))"

definition rowOf :: "string \<Rightarrow> sqlStore \<Rightarrow> automationRow option" where
  "rowOf i db = find (\<lambda>c. c_id c = i) (automations db)"

definition quiet :: "AutomationPatch \<Rightarrow> bool" where
  "quiet p = (pStatus p \<noteq> Some ''ACTIVE'' \<and> \<not> scheduleChanged p)"

definition givesUp :: "firing \<Rightarrow> Automation \<Rightarrow> bool" where
  "givesUp f a = ((case returned f of Inl e \<Rightarrow> \<not> isCanceled e | Inr _ \<Rightarrow> False) \<and> MaxRetries \<le> RetryCount a + 1)"

fun attempts :: "autoEnv \<Rightarrow> int \<Rightarrow> firing list \<Rightarrow> string \<Rightarrow> sqlStore \<Rightarrow> sqlStore option" where
  "attempts E poll [] i db = Some db"
| "attempts E poll (f # fs) i db =
     (case rowOf i db of
        None \<Rightarrow> attempts E poll fs i db
      | Some c \<Rightarrow>
          if c_status c = ''ACTIVE''
          then Option.bind (fireEnd E poll f (scanAutomation c) db) (attempts E poll fs i)
          else attempts E poll fs i db)"

definition failing :: "firing \<Rightarrow> bool" where
  "failing f = (case returned f of Inl e \<Rightarrow> \<not> isCanceled e | Inr _ \<Rightarrow> False)"

definition counts :: "sqlStore \<Rightarrow> (string \<times> int) list" where
  "counts db = map (\<lambda>c. (c_id c, c_run_count c)) (automations db)"

definition runsOf :: "string \<Rightarrow> sqlStore \<Rightarrow> nat" where
  "runsOf i db = length (filter (\<lambda>r. r_automation_id r = i) (automation_runs db))"

definition store_inv :: "sqlStore \<Rightarrow> bool" where
  "store_inv db =
     (distinct (map fst (counts db)) \<and> distinct (map r_id (automation_runs db)) \<and>
      (\<forall>(i, n) \<in> set (counts db). n = int (runsOf i db)) \<and>
      (\<forall>r \<in> set (automation_runs db). r_automation_id r \<in> fst ` set (counts db)))"

definition store_init :: "sqlStore \<Rightarrow> bool" where
  "store_init db = (automations db = [] \<and> automation_runs db = [])"

datatype storeOp =
    OpCreate int string Automation | OpUpdate int string AutomationPatch | OpDelete int string | OpRead int string
  | OpSkip int "string list" | OpBegin firing Automation | OpEnd int firing Automation

fun applyOp :: "autoEnv \<Rightarrow> storeOp \<Rightarrow> sqlStore \<Rightarrow> sqlStore option" where
  "applyOp E (OpCreate now nid a) db = map_option snd (Create E now nid a db)"
| "applyOp E (OpUpdate now i p) db = map_option snd (Update E now i p db)"
| "applyOp E (OpDelete now i) db = Some (Delete now i db)"
| "applyOp E (OpRead now i) db = Some (MarkRunRead now i db)"
| "applyOp E (OpSkip now ids) db = map_option snd (SkipDue E now ids db)"
| "applyOp E (OpBegin f a) db = Some (fireBegin f a db)"
| "applyOp E (OpEnd poll f a) db = fireEnd E poll f a db"

fun sensible :: "storeOp \<Rightarrow> sqlStore \<Rightarrow> bool" where
  "sensible (OpCreate now nid a) db = (RunCount a = 0)"
| "sensible (OpBegin f a) db = hasID (ID a) db"
| "sensible (OpEnd poll f a) db = hasID (ID a) db"
| "sensible op db = True"

definition store_step :: "autoEnv \<Rightarrow> sqlStore \<Rightarrow> storeOp \<Rightarrow> sqlStore \<Rightarrow> bool" where
  "store_step E db op db' = (sensible op db \<and> applyOp E op db = Some db')"

definition view :: "automationRow \<Rightarrow> string \<times> int option \<times> string \<times> int" where
  "view c = (c_id c, c_deleted_at c, c_status c, c_next_run_at c)"

definition skipped_view :: "autoEnv \<Rightarrow> int \<Rightarrow> Automation list \<Rightarrow> string \<times> int option \<times> string \<times> int \<Rightarrow> string \<times> int option \<times> string \<times> int" where
  "skipped_view E now as v =
     (case v of (i, d, s, n) \<Rightarrow>
        (i, d, s, case find (\<lambda>a. ID a = i) as of None \<Rightarrow> n | Some a \<Rightarrow> epochMS (the (skipNext E now a))))"

definition noNext :: "autoEnv \<Rightarrow> int \<Rightarrow> automationRow \<Rightarrow> bool" where
  "noNext E now c = (c_schedule_type c \<noteq> ''recurring'' \<or> (\<exists>e. computeNextRunAt E (scanAutomation c) now = Some (Inl e)))"

definition toMS :: "int \<Rightarrow> int" where
  "toMS t = (if t = zeroTime then 0 else t - t mod millisecond)"

definition storable :: "Automation \<Rightarrow> bool" where
  "storable a =
     (list_all (\<lambda>s. validUTF8 s) (CWDs a @ Skills a @ Connectors a) \<and> DeletedAt a = zeroTime \<and>
      list_all (\<lambda>t. t = zeroTime \<or> 0 \<le> timeYear UTC t \<and> timeYear UTC t \<le> 9999) [ScheduledAt a, ValidFrom a, ValidUntil a])"

definition demoAutomation :: Automation where
  "demoAutomation =
     \<lparr>ID = ''a1'', Name = ''n'', Prompt = ''p'', Status = ''ACTIVE'', ScheduleType = ''recurring'', RRule = ''FREQ=WEEKLY'',
      ScheduledAt = zeroTime, Timezone = [], ModeExec = ''standalone'', SessionID = [], CWDs = [], ModelID = [], Skills = [],
      Connectors = [], PermissionMode = ''ask'', ValidFrom = zeroTime, ValidUntil = zeroTime, CreatedFromWorkspace = ''/w'',
      LastRunAt = zeroTime, NextRunAt = 0, RunCount = 0, LastStatus = [], RetryCount = 0, CreatedAt = 0, UpdatedAt = 0,
      DeletedAt = zeroTime, WorkflowRef = [], WorkflowInput = [], OverlapPolicy = []\<rparr>"

definition demoStore :: "Automation \<Rightarrow> sqlStore" where
  "demoStore a = \<lparr>automations = [insertRow a], automation_runs = [], runtime_state = Map.empty\<rparr>"

definition demoEnv :: autoEnv where
  "demoEnv = \<lparr>rounds = 2, upper = id, LoadLocation = (\<lambda>tz. None)\<rparr>"

definition demoFailure :: firing where
  "demoFailure = \<lparr>startedAt = 5 * second, endedAt = 6 * second, updatedFirst = 6 * second, updatedLast = 6 * second,
     newRunID = ''r1'', returned = Inl (DispatchError False ''quota'')\<rparr>"

definition demoEmpty :: sqlStore where
  "demoEmpty = \<lparr>automations = [], automation_runs = [], runtime_state = Map.empty\<rparr>"

definition demoOnce :: Automation where
  "demoOnce = demoAutomation\<lparr>ScheduleType := ''once'', ScheduledAt := second\<rparr>"

definition demoDispatcher :: "string TurnDispatcher" where
  "demoDispatcher = \<lparr>Submitter = Some (\<lambda>sid prompt m perm. Inr ''t1''), CreateConversation = Some (\<lambda>ws. Inr ''c1''),
     ConversationExists = (\<lambda>sid. Some True), SubmitWorkflowRun = None, HasActiveWorkflowRun = (\<lambda>ws n. Inr False),
     UnmarshalInput = Inr\<rparr>"

subsection \<open>Facts\<close>

lemma stepUntil_whole:
  "stepUntil n hit d c = Some t \<Longrightarrow> (\<And>c t. c mod second = 0 \<Longrightarrow> hit c = Some t \<Longrightarrow> t mod second = 0) \<Longrightarrow>
   c mod second = 0 \<Longrightarrow> d mod second = 0 \<Longrightarrow> t mod second = 0"
proof (induction n arbitrary: c)
  case (Suc n)
  have "(c + d) mod second = 0" using Suc.prems(3,4) by (metis add_0 mod_add_left_eq)
  then show ?case using Suc by (auto split: option.splits)
qed simp

lemma timeDate_whole: "timeDate L y m d h mi mod second = 0"
  by (simp add: timeDate_def)

lemma buildTarget_whole: "buildTarget r L day mod second = 0"
  by (simp add: buildTarget_def timeDate_whole)

lemma truncateTo_whole: "k * second \<noteq> 0 \<Longrightarrow> truncateTo (k * second) t mod second = 0"
proof -
  have "truncateTo (k * second) t = t div (k * second) * k * second"
    unfolding truncateTo_def by (metis minus_mod_eq_div_mult mult.assoc)
  then show ?thesis by simp
qed

lemma dailyLoop_whole: "dailyLoop n r after L d = Some (Inr t) \<Longrightarrow> t mod second = 0"
  by (induction n arbitrary: d) (auto simp: Let_def buildTarget_whole split: if_splits)

lemma weekHit_whole: "weekHit r after L w = Some t \<Longrightarrow> t mod second = 0"
  unfolding weekHit_def by (auto simp: buildTarget_whole simp del: find.simps split: option.splits)

lemma weeklyLoop_whole: "weeklyLoop n r after L w = Some (Inr t) \<Longrightarrow> t mod second = 0"
  by (induction n arbitrary: w) (auto simp: Let_def dest: weekHit_whole split: if_splits option.splits)

lemma monthlyLoop_whole: "monthlyLoop n r after L y m = Some (Inr t) \<Longrightarrow> t mod second = 0"
  by (induction n arbitrary: y m) (auto simp: Let_def buildTarget_whole split: if_splits option.splits prod.splits)

lemma yearlyLoop_whole: "yearlyLoop n r after L y = Some (Inr t) \<Longrightarrow> t mod second = 0"
  by (induction n arbitrary: y) (auto simp: Let_def buildTarget_whole split: if_splits)

lemma hourTarget_whole: "c mod second = 0 \<Longrightarrow> hourTarget r L c mod second = 0"
  by (simp add: hourTarget_def timeDate_whole)

lemma stepped_whole:
  "nextSecondly n r after L = Some t \<Longrightarrow> t mod second = 0"
  "nextMinutely n r after L = Some t \<Longrightarrow> t mod second = 0"
  "nextHourly n r after L = Some t \<Longrightarrow> t mod second = 0"
  using truncateTo_whole [of 1 after] truncateTo_whole [of 60 after] truncateTo_whole [of 3600 after] second_pos
  unfolding nextSecondly_def nextMinutely_def nextHourly_def
  by (auto elim!: stepUntil_whole simp: hourTarget_whole split: if_splits)

lemmas loops_whole = dailyLoop_whole weeklyLoop_whole monthlyLoop_whole yearlyLoop_whole stepped_whole

text \<open>A computed next firing of a recurring automation lies after the given time and on a whole second.\<close>

lemma Next_whole: "Next n r after L = Some (Inr t) \<Longrightarrow> t mod second = 0"
  by (auto simp: Next_def nextDaily_def nextWeekly_def nextMonthly_def nextYearly_def dest: loops_whole split: if_splits)

lemma Next_after: "Next n r after L = Some (Inr t) \<Longrightarrow> after < t"
  by (auto simp: Next_def nextSecondly_def nextMinutely_def nextHourly_def nextDaily_def nextWeekly_def nextMonthly_def
      nextYearly_def dest!: stepUntil_hit dest: loops_after split: if_splits)

lemma map_sum_Inr: "map_sum f id z = Inr t \<longleftrightarrow> z = Inr t"
  by (cases z) simp_all

lemma computeNextRunAt_after:
  assumes "computeNextRunAt E a after = Some (Inr t)" "ScheduleType a = ''recurring''"
  shows "after < t \<and> t mod second = 0"
proof -
  obtain r loc where "Next (rounds E) r after loc = Some (Inr t)"
    using assms by (auto simp: computeNextRunAt_def map_sum_Inr split: sum.splits)
  then show ?thesis using Next_after Next_whole by blast
qed

lemma epochMS_whole_less:
  assumes "0 \<le> now" "now < t" "t mod second = 0"
  shows "epochMS now < epochMS t"
proof -
  have t: "t = t div millisecond * millisecond"
    using assms(3) by (auto simp: second_def millisecond_def)
  have "now div millisecond < t div millisecond"
  proof (rule ccontr)
    assume "\<not> ?thesis"
    then have "t div millisecond * millisecond \<le> now div millisecond * millisecond" by (simp add: millisecond_def)
    also have "\<dots> \<le> now" by (rule div_range) (simp add: millisecond_def)
    finally show False using assms(2) t by simp
  qed
  then show ?thesis using assms(1,2) by (simp add: epochMS_def zeroTime_def second_def)
qed

lemma epochMS_step_less:
  assumes "0 \<le> now" "millisecond \<le> d"
  shows "epochMS now < epochMS (now + d)"
proof -
  have "now div millisecond + 1 = (now + millisecond) div millisecond" by (simp add: millisecond_def)
  also have "\<dots> \<le> (now + d) div millisecond" using assms(2) by (intro zdiv_mono1) (simp_all add: millisecond_def)
  finally show ?thesis using assms by (simp add: epochMS_def zeroTime_def second_def millisecond_def)
qed

lemma isDue_iff: "isDue now i db \<longleftrightarrow> (\<exists>c \<in> set (automations db). c_id c = i \<and> dueRow now c)"
  by (auto simp: isDue_def NextDueAt_def scanAutomation_def image_iff)

lemma updateRow_id [simp]: "c_id (updateRow a c) = c_id c"
  by (simp add: updateRow_def)

lemma automations_onRow: "automations (onRow i f db) = map (\<lambda>c. if c_id c = i then f c else c) (automations db)"
  by (simp add: onRow_def)

lemma ids_onRow: "(\<And>c. c_id (f c) = c_id c) \<Longrightarrow> map c_id (automations (onRow i f db)) = map c_id (automations db)"
  by (simp add: automations_onRow)

lemma onRow_onRow: "(\<And>c. c_id (f c) = c_id c) \<Longrightarrow> onRow i g (onRow i f db) = onRow i (\<lambda>c. g (f c)) db"
  by (simp add: onRow_def)

lemma rows_onRow:
  "c \<in> set (automations (onRow i f db)) \<Longrightarrow> c_id c = i \<Longrightarrow> \<exists>c0 \<in> set (automations db). c_id c0 = i \<and> c = f c0"
  by (auto simp: automations_onRow split: if_splits)

lemma updateRow_fields [simp]:
  "c_status (updateRow a c) = Status a" "c_next_run_at (updateRow a c) = epochMS (NextRunAt a)"
  "c_retry_count (updateRow a c) = RetryCount a" "c_run_count (updateRow a c) = c_run_count c"
  "c_deleted_at (updateRow a c) = c_deleted_at c" "c_schedule_type (updateRow a c) = ScheduleType a"
  by (simp_all add: updateRow_def)

lemma patched_fields [simp]:
  "Status (patched p a) = orElse (pStatus p) (Status a)" "RetryCount (patched p a) = orElse (pRetryCount p) (RetryCount a)"
  "ScheduleType (patched p a) = orElse (pScheduleType p) (ScheduleType a)" "ID (patched p a) = ID a"
  "LastRunAt (patched p a) = orElse (pLastRunAt p) (LastRunAt a)" "NextRunAt (patched p a) = NextRunAt a"
  by (simp_all add: patched_def)

lemma scan_fields [simp]:
  "Status (scanAutomation c) = c_status c" "RetryCount (scanAutomation c) = c_retry_count c" "ID (scanAutomation c) = c_id c"
  "ScheduleType (scanAutomation c) = c_schedule_type c" "LastRunAt (scanAutomation c) = UnixMilli (c_last_run_at c)"
  "NextRunAt (scanAutomation c) = UnixMilli (c_next_run_at c)"
  by (simp_all add: scanAutomation_def)

lemma orElse_simps [simp]: "orElse None v = v" "orElse (Some x) v = x"
  by (simp_all add: orElse_def)

lemma Get_Inl: "Get i db = Inl e \<Longrightarrow> i \<notin> c_id ` set (automations db)"
  by (auto simp: Get_def find_None_iff split: option.splits)

lemma Update_quiet:
  assumes "quiet p"
  shows "Update E now i p db =
     (case Get i db of
        Inl e \<Rightarrow> Some (Inl e, db)
      | Inr a \<Rightarrow> Some (Inr ((patched p a)\<lparr>UpdatedAt := now\<rparr>), onRow i (updateRow ((patched p a)\<lparr>UpdatedAt := now\<rparr>)) db))"
  using assms by (simp add: Update_def revised_def reArm_def quiet_def Let_def split: sum.splits)

lemma bookkeep_rows:
  assumes "quiet p" "bookkeep E now i p next db = Some db'" "c \<in> set (automations db')" "c_id c = i"
  shows "c_next_run_at c = epochMS next \<and> (\<forall>s. pStatus p = Some s \<longrightarrow> c_status c = s)"
proof (cases "Get i db")
  case (Inl e)
  then have "db' = UpdateNextRunAt i next db" using assms(1,2) by (simp add: bookkeep_def Update_quiet)
  then have "map c_id (automations db') = map c_id (automations db)"
    by (simp add: UpdateNextRunAt_def ids_onRow)
  then have "c_id ` set (automations db') = c_id ` set (automations db)" by (metis list.set_map)
  then have "i \<in> c_id ` set (automations db)" using assms(3,4) by blast
  then show ?thesis using Get_Inl [OF Inl] by blast
next
  case (Inr a)
  let ?b = "(patched p a)\<lparr>UpdatedAt := now\<rparr>"
  from Inr have "db' = onRow i (\<lambda>c. (updateRow ?b c)\<lparr>c_next_run_at := epochMS next\<rparr>) db"
    using assms(1,2) by (simp add: bookkeep_def Update_quiet UpdateNextRunAt_def onRow_onRow)
  from rows_onRow [OF assms(3) [unfolded this] assms(4)] obtain c0 where
    "c = (updateRow ?b c0)\<lparr>c_next_run_at := epochMS next\<rparr>" by blast
  then show ?thesis by simp
qed

lemma quiet_noPatch [simp]:
  "quiet (noPatch\<lparr>pLastStatus := l, pStatus := s, pLastRunAt := t\<rparr>) = (s \<noteq> Some ''ACTIVE'')"
  "quiet (noPatch\<lparr>pLastRunAt := t, pLastStatus := l, pStatus := s, pRetryCount := n\<rparr>) = (s \<noteq> Some ''ACTIVE'')"
  "quiet (noPatch\<lparr>pLastStatus := l, pStatus := s, pRetryCount := n, pLastRunAt := t\<rparr>) = (s \<noteq> Some ''ACTIVE'')"
  "quiet (noPatch\<lparr>pSessionID := x\<rparr>)"
  by (simp_all add: quiet_def scheduleChanged_def noPatch_def)

lemma bookkeep_not_due:
  assumes "quiet p" "bookkeep E u i p next db = Some db'" "epochMS now < epochMS next \<or> pStatus p \<noteq> None"
  shows "\<not> isDue now i db'"
proof
  assume "isDue now i db'"
  then obtain c where c: "c \<in> set (automations db')" "c_id c = i" "dueRow now c" by (auto simp: isDue_iff)
  have "c_next_run_at c = epochMS next \<and> (\<forall>s. pStatus p = Some s \<longrightarrow> c_status c = s)"
    using bookkeep_rows [OF assms(1,2) c(1,2)] .
  then show False using c(3) assms(1,3) by (auto simp: dueRow_def quiet_def)
qed

lemma nextTurn_later:
  assumes "nextTurn E poll a now = Some (next, status)" "0 \<le> now" "millisecond \<le> poll"
  shows "status = None \<and> epochMS now < epochMS next \<or> status = Some ''COMPLETED''"
proof (cases "ScheduleType a = ''recurring''")
  case True
  then obtain r where r: "computeNextRunAt E a now = Some r" "status = None" "next = (case r of Inr t \<Rightarrow> t | Inl _ \<Rightarrow> now + poll)"
    using assms(1) by (auto simp: nextTurn_def)
  show ?thesis
  proof (cases r)
    case (Inl e)
    then show ?thesis using r epochMS_step_less [OF assms(2,3)] by simp
  next
    case (Inr t)
    then show ?thesis using r computeNextRunAt_after [OF _ True, of E now t] epochMS_whole_less [OF assms(2), of t] by simp
  qed
next
  case False
  then show ?thesis using assms(1) by (simp add: nextTurn_def)
qed

lemma turn_not_due:
  assumes "Option.bind (nextTurn E poll a now) (\<lambda>(next, status). bookkeep E u (ID a) (p status) next db) = Some db'"
    "\<And>s. quiet (p s) = (s \<noteq> Some ''ACTIVE'')" "\<And>s. pStatus (p s) = s" "0 \<le> now" "millisecond \<le> poll"
  shows "\<not> isDue now (ID a) db'"
proof -
  obtain nx status where n: "nextTurn E poll a now = Some (nx, status)" "bookkeep E u (ID a) (p status) nx db = Some db'"
    using assms(1) by (auto simp: bind_eq_Some_conv)
  show ?thesis using nextTurn_later [OF n(1) assms(4,5)] assms(2,3) by (intro bookkeep_not_due [OF _ n(2)]) auto
qed

lemma failed_not_due:
  assumes "fireFailed E f a text db = Some db'" "0 \<le> endedAt f"
  shows "\<not> isDue (endedAt f) (ID a) db'"
proof (cases "RetryCount a + 1 < MaxRetries")
  case True
  show ?thesis
    by (rule bookkeep_not_due [OF _ assms(1) [unfolded fireFailed_def Let_def if_P [OF True] prod.case]])
      (use epochMS_step_less [OF assms(2), of RetryInterval] in \<open>simp_all add: RetryInterval_def millisecond_def second_def\<close>)
next
  case False
  show ?thesis
    by (rule bookkeep_not_due [OF _ assms(1) [unfolded fireFailed_def Let_def if_not_P [OF False] prod.case]]) simp_all
qed

text \<open>Whatever a firing returned and whatever happened to the store during its turn: when its bookkeeping is done the automation is not due at the time the turn ended, so the next poll at that time does not fire it again.\<close>

theorem fired_not_due:
  assumes "fireEnd E poll f a db = Some db'" "0 \<le> endedAt f" "millisecond \<le> poll"
  shows "\<not> isDue (endedAt f) (ID a) db'"
proof (cases "returned f")
  case (Inl e)
  have "\<not> isDue (endedAt f) (ID a) db'" if "fireCanceled E poll f a db = Some db'"
    by (rule turn_not_due [OF that [unfolded fireCanceled_def Let_def] _ _ assms(2,3)]) simp_all
  then show ?thesis using assms failed_not_due [OF _ assms(2)] Inl by (auto simp: fireEnd_def split: if_splits)
next
  case (Inr turnID)
  have "\<not> isDue (endedAt f) (ID a) db'" if "fireSkipped E poll f a db = Some db'"
    by (rule turn_not_due [OF that [unfolded fireSkipped_def Let_def] _ _ assms(2,3)]) simp_all
  moreover have "\<not> isDue (endedAt f) (ID a) db'" if s: "fireSucceeded E poll f a turnID db = Some db'"
  proof -
    from s obtain db1 where d: "Option.bind (nextTurn E poll a (endedAt f)) (\<lambda>(next, status).
              bookkeep E (updatedLast f) (ID a)
                (noPatch\<lparr>pLastRunAt := Some (endedAt f), pLastStatus := Some ''succeeded'', pStatus := status, pRetryCount := Some 0\<rparr>) next db1) = Some db'"
      unfolding fireSucceeded_def Let_def bind_eq_Some_conv by blast
    show ?thesis by (rule turn_not_due [OF d _ _ assms(2,3)]) simp_all
  qed
  ultimately show ?thesis using assms(1) Inr by (auto simp: fireEnd_def split: if_splits)
qed

lemma find_map_same: "(\<And>x. P (g x) = P x) \<Longrightarrow> find P (map g xs) = map_option g (find P xs)"
  by (induction xs) simp_all

lemma rowOf_onRow:
  assumes "\<And>c. c_id (f c) = c_id c"
  shows "rowOf j (onRow i f db) = (if i = j then map_option f (rowOf j db) else rowOf j db)"
proof -
  have a: "rowOf j (onRow i f db) = map_option (\<lambda>c. if c_id c = i then f c else c) (rowOf j db)"
    unfolding rowOf_def automations_onRow using assms by (intro find_map_same) simp
  have "c_id c = j" if "rowOf j db = Some c" for c
    using that by (auto simp: rowOf_def find_Some_iff)
  then show ?thesis unfolding a by (cases "rowOf j db") auto
qed

lemma Get_rowOf: "Get i db = (case rowOf i db of None \<Rightarrow> Inl (NotFound i) | Some c \<Rightarrow> Inr (scanAutomation c))"
  by (simp add: Get_def rowOf_def)

lemma rowOf_id: "rowOf i db = Some c \<Longrightarrow> c_id c = i"
  by (auto simp: rowOf_def find_Some_iff)

lemma UpdateRuntimeState_rows [simp]: "automations (UpdateRuntimeState st db) = automations db"
  "automation_runs (UpdateRuntimeState st db) = automation_runs db"
  by (simp_all add: UpdateRuntimeState_def)

lemma onRow_runs [simp]: "automation_runs (onRow i f db) = automation_runs db"
  by (simp add: onRow_def)

lemma rowOf_UpdateRuntimeState [simp]: "rowOf i (UpdateRuntimeState st db) = rowOf i db"
  by (simp add: rowOf_def)

text \<open>Recording a run touches the count only.\<close>

lemma rowOf_RecordRun:
  "\<exists>k. rowOf i (RecordRun now nid r db) = map_option (\<lambda>c. c\<lparr>c_run_count := k c\<rparr>) (rowOf i db)"
proof -
  have same: "\<exists>k. x = map_option (\<lambda>c. c\<lparr>c_run_count := k c\<rparr>) x" for x
    by (intro exI [of _ c_run_count]) (cases x, simp_all)
  have "rowOf i (db\<lparr>automation_runs := x\<rparr>) = rowOf i db" for x by (simp add: rowOf_def)
  then show ?thesis unfolding RecordRun_def Let_def using same [of "rowOf i db"] by (auto simp: rowOf_onRow)
qed

lemma rowOf_recordOutcome:
  "\<exists>k. rowOf i (recordOutcome f a r st db) = map_option (\<lambda>c. c\<lparr>c_run_count := k c\<rparr>) (rowOf i db)"
  unfolding recordOutcome_def rowOf_UpdateRuntimeState by (rule rowOf_RecordRun)

lemma rowOf_Update_quiet:
  assumes "quiet p" "Update E now i p db = Some (r, db')"
  shows "rowOf i db' = map_option (\<lambda>c. updateRow ((patched p (scanAutomation c))\<lparr>UpdatedAt := now\<rparr>) c) (rowOf i db)"
  using assms by (cases "rowOf i db") (auto simp: Update_quiet Get_rowOf rowOf_onRow)

lemma rowOf_bookkeep:
  assumes "quiet p" "bookkeep E now i p nx db = Some db'"
  shows "rowOf i db' =
    map_option (\<lambda>c. (updateRow ((patched p (scanAutomation c))\<lparr>UpdatedAt := now\<rparr>) c)\<lparr>c_next_run_at := epochMS nx\<rparr>) (rowOf i db)"
proof -
  obtain r db1 where u: "Update E now i p db = Some (r, db1)" "db' = UpdateNextRunAt i nx db1"
    using assms(2) by (auto simp: bookkeep_def)
  show ?thesis unfolding u(2) UpdateNextRunAt_def
    by (simp add: rowOf_onRow rowOf_Update_quiet [OF assms(1) u(1)] option.map_comp comp_def)
qed

lemma bookkeep_status:
  assumes "quiet p" "bookkeep E now i p nx db = Some db'" "rowOf i db = Some c"
  shows "\<exists>c'. rowOf i db' = Some c' \<and> c_status c' = orElse (pStatus p) (c_status c) \<and>
    c_retry_count c' = orElse (pRetryCount p) (c_retry_count c) \<and> c_next_run_at c' = epochMS nx \<and>
    c_schedule_type c' = c_schedule_type c"
proof -
  have "pScheduleType p = None" using assms(1) by (simp add: quiet_def scheduleChanged_def)
  then show ?thesis using rowOf_bookkeep [OF assms(1,2)] assms(3) by simp
qed

lemma turn_status:
  assumes "Option.bind (nextTurn E poll a now) (\<lambda>(next, status). bookkeep E u i (p status) next db) = Some db'"
    "ScheduleType a = ''recurring''" "quiet (p None)" "pStatus (p None) = None" "rowOf i db = Some c"
  shows "\<exists>c'. rowOf i db' = Some c' \<and> c_status c' = c_status c"
proof -
  obtain nx where n: "nextTurn E poll a now = Some (nx, None)" "bookkeep E u i (p None) nx db = Some db'"
    using assms(1,2) by (auto simp: bind_eq_Some_conv nextTurn_def)
  show ?thesis using bookkeep_status [OF assms(3) n(2) assms(5)] assms(4) by auto
qed

lemma recorded_row:
  assumes "rowOf i db = Some c"
  obtains c' where "rowOf i (recordOutcome f a r st db) = Some c'" "c_status c' = c_status c" "c_retry_count c' = c_retry_count c"
    "c_schedule_type c' = c_schedule_type c"
  using rowOf_recordOutcome [of i f a r st db] assms by (elim exE) simp

lemma noPatch_status [simp]: "pStatus noPatch = None" "pRetryCount noPatch = None"
  by (simp_all add: noPatch_def)

lemma failed_status:
  assumes "fireFailed E f a text db = Some db'" "rowOf (ID a) db = Some c"
  shows "\<exists>c'. rowOf (ID a) db' = Some c' \<and> c_retry_count c' = RetryCount a + 1 \<and> c_schedule_type c' = c_schedule_type c \<and>
    c_status c' = (if RetryCount a + 1 < MaxRetries then c_status c
      else if ScheduleType a = ''recurring'' then ''PAUSED'' else ''COMPLETED'') \<and>
    c_next_run_at c' = (if RetryCount a + 1 < MaxRetries then epochMS (endedAt f + RetryInterval) else 0)"
proof -
  obtain c1 where c1: "rowOf (ID a) (recordOutcome f a (noRun\<lparr>runStatus := ''failed''\<rparr>) (noState\<lparr>rsLastError := text\<rparr>) db) = Some c1"
    "c_status c1 = c_status c" "c_schedule_type c1 = c_schedule_type c" using recorded_row [OF assms(2)] by blast
  show ?thesis
  proof (cases "RetryCount a + 1 < MaxRetries")
    case True
    show ?thesis
      using bookkeep_status [OF _ assms(1) [unfolded fireFailed_def Let_def if_P [OF True] prod.case] c1(1)] c1(2,3) True by auto
  next
    case False
    show ?thesis
      using bookkeep_status [OF _ assms(1) [unfolded fireFailed_def Let_def if_not_P [OF False] prod.case] c1(1)] c1(3) False
      by (auto simp: epochMS_def)
  qed
qed

lemma succeeded_status:
  assumes "fireSucceeded E poll f a turnID db = Some db'" "ScheduleType a = ''recurring''" "rowOf (ID a) db = Some c"
  shows "\<exists>c'. rowOf (ID a) db' = Some c' \<and> c_status c' = c_status c"
proof -
  let ?db = "recordOutcome f a (noRun\<lparr>runSessionID := turnID, runTaskID := taskIDField turnID, runStatus := ''succeeded''\<rparr>)
               (noState\<lparr>rsRunningTurnID := turnID\<rparr>) db"
  obtain c1 where c1: "rowOf (ID a) ?db = Some c1" "c_status c1 = c_status c" using recorded_row [OF assms(3)] by blast
  obtain db1 where d: "(if WorkflowRef a = [] \<and> ModeExec a = ''reuse'' \<and> turnID \<noteq> [] \<and> turnID \<noteq> SessionID a
          then map_option snd (Update E (updatedFirst f) (ID a) (noPatch\<lparr>pSessionID := Some turnID\<rparr>) ?db) else Some ?db) = Some db1"
    "Option.bind (nextTurn E poll a (endedAt f)) (\<lambda>(next, status).
            bookkeep E (updatedLast f) (ID a)
              (noPatch\<lparr>pLastRunAt := Some (endedAt f), pLastStatus := Some ''succeeded'', pStatus := status, pRetryCount := Some 0\<rparr>) next db1) = Some db'"
    using assms(1) unfolding fireSucceeded_def Let_def bind_eq_Some_conv by blast
  obtain c2 where c2: "rowOf (ID a) db1 = Some c2" "c_status c2 = c_status c"
    using d(1) c1 by (auto dest!: rowOf_Update_quiet [rotated] split: if_splits)
  show ?thesis using turn_status [OF d(2) assms(2) _ _ c2(1)] c2(2) by simp
qed

lemma canceled_status:
  assumes "fireCanceled E poll f a db = Some db'" "ScheduleType a = ''recurring''" "rowOf (ID a) db = Some c"
  shows "\<exists>c'. rowOf (ID a) db' = Some c' \<and> c_status c' = c_status c"
proof -
  obtain c1 where c1: "rowOf (ID a) (recordOutcome f a (noRun\<lparr>runStatus := ''canceled''\<rparr>) (noState\<lparr>rsLastError := ''cancelled by user''\<rparr>) db) = Some c1"
    "c_status c1 = c_status c" using recorded_row [OF assms(3)] by blast
  show ?thesis using turn_status [OF assms(1) [unfolded fireCanceled_def Let_def] assms(2) _ _ c1(1)] c1(2) by simp
qed

lemma skipped_status:
  assumes "fireSkipped E poll f a db = Some db'" "ScheduleType a = ''recurring''" "rowOf (ID a) db = Some c"
  shows "\<exists>c'. rowOf (ID a) db' = Some c' \<and> c_status c' = c_status c"
proof -
  obtain c1 where c1: "rowOf (ID a) (recordOutcome f a (noRun\<lparr>runStatus := ''skipped''\<rparr>) (noState\<lparr>rsLastError := ''skipped: active workflow run''\<rparr>) db) = Some c1"
    "c_status c1 = c_status c" using recorded_row [OF assms(3)] by blast
  show ?thesis using turn_status [OF assms(1) [unfolded fireSkipped_def Let_def] assms(2) _ _ c1(1)] c1(2) by simp
qed

text \<open>The bookkeeping of a recurring automation leaves the status that the row has when the turn ends, so a pause made during the turn survives; only at the retry cap it writes PAUSED, and it never completes a recurring automation.\<close>

theorem fire_keeps_pause:
  assumes "fireEnd E poll f a db = Some db'" "ScheduleType a = ''recurring''" "rowOf (ID a) db = Some c"
  shows "\<exists>c'. rowOf (ID a) db' = Some c' \<and> c_status c' = (if givesUp f a then ''PAUSED'' else c_status c)"
proof (cases "returned f")
  case (Inl e)
  show ?thesis
  proof (cases "isCanceled e")
    case True
    then show ?thesis using canceled_status [OF _ assms(2,3)] assms(1) Inl by (simp add: fireEnd_def givesUp_def)
  next
    case False
    then have "fireFailed E f a (errText e) db = Some db'" using assms(1) Inl by (simp add: fireEnd_def)
    from failed_status [OF this assms(3)] show ?thesis using False assms(2) Inl by (auto simp: givesUp_def)
  qed
next
  case (Inr turnID)
  then show ?thesis
    using skipped_status [OF _ assms(2,3)] succeeded_status [OF _ assms(2,3)] assms(1)
    by (simp add: fireEnd_def givesUp_def split: if_splits)
qed

lemma bookkeep_total: "quiet p \<Longrightarrow> \<exists>db'. bookkeep E now i p nx db = Some db'"
  by (simp add: bookkeep_def Update_quiet split: sum.splits)

lemma fireFailed_total: "\<exists>db'. fireFailed E f a text db = Some db'"
proof (cases "RetryCount a + 1 < MaxRetries")
  case True
  show ?thesis unfolding fireFailed_def Let_def if_P [OF True] prod.case by (rule bookkeep_total) simp
next
  case False
  show ?thesis unfolding fireFailed_def Let_def if_not_P [OF False] prod.case by (rule bookkeep_total) simp
qed

lemma Update_cases:
  assumes "Update E now i p db = Some (r, db')"
  obtains (refused) e where "r = Inl e" "db' = db"
  | (written) x a where "Get i db = Inr x" "revised E now p x = Some (Inr a)" "r = Inr a" "db' = onRow i (updateRow a) db"
proof (cases "Get i db")
  case (Inl e)
  then show ?thesis using assms refused [of e] by (auto simp: Update_def)
next
  case (Inr x)
  then obtain z where z: "revised E now p x = Some z" using assms by (auto simp: Update_def)
  show ?thesis
  proof (cases z)
    case (Inl e)
    then have "r = Inl e" "db' = db" using assms Inr z by (simp_all add: Update_def)
    then show ?thesis by (rule refused)
  next
    case (Inr a)
    then have "r = Inr a" "db' = onRow i (updateRow a) db" using assms \<open>Get i db = Inr x\<close> z by (simp_all add: Update_def)
    with Inr z \<open>Get i db = Inr x\<close> show ?thesis by (intro written) simp_all
  qed
qed

lemma Update_runs: "Update E now i p db = Some (r, db') \<Longrightarrow> automation_runs db' = automation_runs db"
  by (erule Update_cases) simp_all

lemma bookkeep_runs: "bookkeep E now i p nx db = Some db' \<Longrightarrow> automation_runs db' = automation_runs db"
  by (auto simp: bookkeep_def UpdateNextRunAt_def dest: Update_runs)

lemma RecordRun_runs: "length (automation_runs (RecordRun now nid r db)) \<le> length (automation_runs db) + 1"
  by (simp add: RecordRun_def Let_def)

lemma failed_runs:
  assumes "fireFailed E f a text db = Some db'"
  shows "length (automation_runs db') \<le> length (automation_runs db) + 1"
proof -
  let ?db = "recordOutcome f a (noRun\<lparr>runStatus := ''failed''\<rparr>) (noState\<lparr>rsLastError := text\<rparr>) db"
  have "automation_runs db' = automation_runs ?db"
    using assms bookkeep_runs by (auto simp: fireFailed_def Let_def split: if_splits prod.splits)
  then show ?thesis using RecordRun_runs by (simp add: recordOutcome_def)
qed

lemma attempts_stopped:
  "rowOf i db = Some c \<Longrightarrow> c_status c \<noteq> ''ACTIVE'' \<Longrightarrow> attempts E poll fs i db = Some db"
  by (induction fs) simp_all

lemma attempts_failing:
  assumes "list_all failing fs" "rowOf i db = Some c" "c_status c = ''ACTIVE''" "0 \<le> c_retry_count c" "c_retry_count c < MaxRetries"
  shows "\<exists>db' c'. attempts E poll fs i db = Some db' \<and> rowOf i db' = Some c' \<and>
    c_retry_count c' = min MaxRetries (c_retry_count c + int (length fs)) \<and>
    int (length (automation_runs db')) \<le> int (length (automation_runs db)) + (MaxRetries - c_retry_count c) \<and>
    c_status c' = (if c_retry_count c + int (length fs) < MaxRetries then ''ACTIVE''
      else if c_schedule_type c = ''recurring'' then ''PAUSED'' else ''COMPLETED'')"
  using assms
proof (induction fs arbitrary: db c)
  case (Cons f fs)
  let ?a = "scanAutomation c"
  obtain e where e: "returned f = Inl e" "\<not> isCanceled e" using Cons.prems(1) by (auto simp: failing_def split: sum.splits)
  obtain db1 where d: "fireFailed E f ?a (errText e) db = Some db1" using fireFailed_total by blast
  have id: "ID ?a = i" using rowOf_id [OF Cons.prems(2)] by simp
  then obtain c1 where c1: "rowOf i db1 = Some c1" "c_retry_count c1 = c_retry_count c + 1" "c_schedule_type c1 = c_schedule_type c"
    "c_status c1 = (if c_retry_count c + 1 < MaxRetries then c_status c
      else if c_schedule_type c = ''recurring'' then ''PAUSED'' else ''COMPLETED'')"
    using failed_status [OF d] Cons.prems(2) by auto
  have run: "attempts E poll (f # fs) i db = attempts E poll fs i db1"
    using Cons.prems(2,3) e d by (simp add: fireEnd_def)
  have len: "int (length (automation_runs db1)) \<le> int (length (automation_runs db)) + 1" using failed_runs [OF d] by simp
  show ?case
  proof (cases "c_retry_count c + 1 < MaxRetries")
    case True
    from Cons.IH [OF _ c1(1)] Cons.prems True c1(2,4) obtain db' c' where
      "attempts E poll fs i db1 = Some db'" "rowOf i db' = Some c'"
      "c_retry_count c' = min MaxRetries (c_retry_count c1 + int (length fs))"
      "int (length (automation_runs db')) \<le> int (length (automation_runs db1)) + (MaxRetries - c_retry_count c1)"
      "c_status c' = (if c_retry_count c1 + int (length fs) < MaxRetries then ''ACTIVE''
        else if c_schedule_type c1 = ''recurring'' then ''PAUSED'' else ''COMPLETED'')"
      by auto
    then show ?thesis unfolding run using c1 len by (simp add: algebra_simps)
  next
    case False
    then have "attempts E poll fs i db1 = Some db1" using c1 by (intro attempts_stopped [OF c1(1)]) simp
    then show ?thesis unfolding run using c1 len False Cons.prems(5) by (simp add: min_def)
  qed
qed simp


text \<open>Enabling a stopped recurring automation resets its failures and schedules it strictly after now, so it is not due at once.\<close>

theorem revived_schedule:
  assumes "rowOf i db = Some c" "c_status c \<noteq> ''ACTIVE''" "c_schedule_type c = ''recurring''" "0 \<le> now"
    "Update E now i (noPatch\<lparr>pStatus := Some ''ACTIVE''\<rparr>) db = Some (Inr a, db')"
  shows "Status a = ''ACTIVE'' \<and> RetryCount a = 0 \<and> now < NextRunAt a \<and> \<not> isDue now i db'"
proof -
  let ?p = "noPatch\<lparr>pStatus := Some ''ACTIVE''\<rparr>"
  let ?b = "(patched ?p (scanAutomation c))\<lparr>UpdatedAt := now, RetryCount := 0\<rparr>"
  have g: "Get i db = Inr (scanAutomation c)" using assms(1) by (simp add: Get_rowOf)
  have r: "reArm ?p (scanAutomation c)" using assms(2) by (simp add: reArm_def)
  from assms(5) have u: "revised E now ?p (scanAutomation c) = Some (Inr a)" "db' = onRow i (updateRow a) db"
    using g by (auto elim: Update_cases)
  from u(1) r obtain z where z: "computeNextRunAt E ?b now = Some z" "map_sum id (\<lambda>t. ?b\<lparr>NextRunAt := t\<rparr>) z = Inr a"
    by (auto simp: revised_def Let_def)
  then obtain t where t: "computeNextRunAt E ?b now = Some (Inr t)" "a = ?b\<lparr>NextRunAt := t\<rparr>" "db' = onRow i (updateRow a) db"
    using u(2) by (cases z) auto
  have "pScheduleType ?p = None" by (simp add: noPatch_def)
  then have "ScheduleType ?b = ''recurring''" using assms(3) by simp
  from computeNextRunAt_after [OF t(1) this] have n: "now < t" "t mod second = 0" by simp_all
  have "\<not> isDue now i db'"
  proof
    assume "isDue now i db'"
    then obtain c1 where c1: "c1 \<in> set (automations db')" "c_id c1 = i" "dueRow now c1" by (auto simp: isDue_iff)
    obtain c0 where "c1 = updateRow a c0" using rows_onRow [OF c1(1) [unfolded t(3)] c1(2)] by blast
    then have "c_next_run_at c1 = epochMS t" by (simp add: t(2))
    then show False using c1(3) epochMS_whole_less [OF assms(4) n] by (simp add: dueRow_def)
  qed
  with n t(2) show ?thesis by simp
qed

text \<open>The invariant looks at identifiers, counts and runs only.\<close>

lemma store_inv_cong:
  "counts db' = counts db \<Longrightarrow> automation_runs db' = automation_runs db \<Longrightarrow> store_inv db' = store_inv db"
  by (simp add: store_inv_def runsOf_def)

lemma counts_onRow:
  "(\<And>c. c_id (f c) = c_id c) \<Longrightarrow> (\<And>c. c_run_count (f c) = c_run_count c) \<Longrightarrow> counts (onRow i f db) = counts db"
  by (simp add: counts_def automations_onRow)

lemma hasID_counts: "hasID i db \<longleftrightarrow> i \<in> fst ` set (counts db)"
  by (auto simp: hasID_def counts_def list_ex_iff image_iff)

lemma Update_counts: "Update E now i p db = Some (r, db') \<Longrightarrow> counts db' = counts db"
  by (erule Update_cases) (simp_all add: counts_onRow)

lemma bookkeep_counts: "bookkeep E now i p nx db = Some db' \<Longrightarrow> counts db' = counts db"
  by (auto simp: bookkeep_def UpdateNextRunAt_def counts_onRow dest: Update_counts)

lemma counts_RecordRun:
  "counts (onRow i (\<lambda>c. c\<lparr>c_run_count := c_run_count c + 1\<rparr>) db) = map (\<lambda>(j, n). (j, if j = i then n + 1 else n)) (counts db)"
  by (simp add: counts_def automations_onRow)

lemma RecordRun_eq:
  "\<exists>x. r_automation_id x = runAutomationID r \<and> RecordRun now nid r db =
     (if list_ex (\<lambda>y. r_id y = r_id x) (automation_runs db) then db
      else onRow (runAutomationID r) (\<lambda>c. c\<lparr>c_run_count := c_run_count c + 1\<rparr>) (db\<lparr>automation_runs := automation_runs db @ [x]\<rparr>))"
proof -
  let ?r1 = "if runID r = [] then r\<lparr>runID := nid\<rparr> else r"
  let ?r = "if runCreatedAt ?r1 = zeroTime then ?r1\<lparr>runCreatedAt := now\<rparr> else ?r1"
  have "runAutomationID ?r = runAutomationID r" by simp
  then show ?thesis
    by (intro exI [of _ "runRowOf ?r"]) (simp only: RecordRun_def Let_def, simp add: runRowOf_def)
qed

lemma counted_inv:
  assumes "store_inv db" "hasID (r_automation_id x) db" "\<not> list_ex (\<lambda>y. r_id y = r_id x) (automation_runs db)"
    and "db' = onRow (r_automation_id x) (\<lambda>c. c\<lparr>c_run_count := c_run_count c + 1\<rparr>) (db\<lparr>automation_runs := automation_runs db @ [x]\<rparr>)"
  shows "store_inv db' \<and> fst ` set (counts db') = fst ` set (counts db)"
proof -
  let ?i = "r_automation_id x"
  have c: "counts db' = map (\<lambda>(j, n). (j, if j = ?i then n + 1 else n)) (counts db)"
    using counts_RecordRun [of ?i "db\<lparr>automation_runs := automation_runs db @ [x]\<rparr>"] assms(4) by (simp add: counts_def)
  have r: "automation_runs db' = automation_runs db @ [x]" using assms(4) by simp
  have f: "map fst (counts db') = map fst (counts db)" unfolding c by (auto simp: comp_def case_prod_unfold)
  then have fs: "fst ` set (counts db') = fst ` set (counts db)" by (metis list.set_map)
  have "runsOf j db' = runsOf j db + (if j = ?i then 1 else 0)" for j by (simp add: runsOf_def r)
  then have "\<forall>(j, n) \<in> set (counts db'). n = int (runsOf j db')" using assms(1) unfolding c store_inv_def by auto
  moreover have "distinct (map r_id (automation_runs db'))" using assms(1,3) r by (auto simp: store_inv_def list_ex_iff)
  ultimately show ?thesis using assms(1,2) f fs r unfolding hasID_counts by (simp add: store_inv_def)
qed

lemma RecordRun_inv:
  assumes "store_inv db" "hasID (runAutomationID r) db"
  shows "store_inv (RecordRun now nid r db) \<and> fst ` set (counts (RecordRun now nid r db)) = fst ` set (counts db)"
proof -
  obtain x where x: "r_automation_id x = runAutomationID r" "RecordRun now nid r db =
     (if list_ex (\<lambda>y. r_id y = r_id x) (automation_runs db) then db
      else onRow (runAutomationID r) (\<lambda>c. c\<lparr>c_run_count := c_run_count c + 1\<rparr>) (db\<lparr>automation_runs := automation_runs db @ [x]\<rparr>))"
    using RecordRun_eq by blast
  show ?thesis
  proof (cases "list_ex (\<lambda>y. r_id y = r_id x) (automation_runs db)")
    case False
    with counted_inv [OF assms(1) _ False] assms(2) x show ?thesis by simp
  qed (simp add: x(2) assms(1))
qed

lemma counts_UpdateRuntimeState [simp]: "counts (UpdateRuntimeState st db) = counts db"
  by (simp add: counts_def)

lemma UpdateRuntimeState_inv [simp]: "store_inv (UpdateRuntimeState st db) = store_inv db"
  by (rule store_inv_cong) simp_all

lemma recordOutcome_inv: "store_inv db \<Longrightarrow> hasID (ID a) db \<Longrightarrow> store_inv (recordOutcome f a r st db)"
  unfolding recordOutcome_def by (simp add: RecordRun_inv)

lemma bookkeep_inv: "bookkeep E now i p nx db = Some db' \<Longrightarrow> store_inv db \<Longrightarrow> store_inv db'"
  using store_inv_cong bookkeep_counts bookkeep_runs by blast

lemma Update_inv: "Update E now i p db = Some (r, db') \<Longrightarrow> store_inv db \<Longrightarrow> store_inv db'"
  using store_inv_cong Update_counts Update_runs by blast

lemma fireEnd_inv:
  assumes "fireEnd E poll f a db = Some db'" "store_inv db" "hasID (ID a) db"
  shows "store_inv db'"
proof -
  note r = recordOutcome_inv [OF assms(2,3)]
  have "store_inv db'" if "fireFailed E f a tx db = Some db'" for tx
    using that r by (auto simp: fireFailed_def Let_def elim!: bookkeep_inv split: if_splits)
  moreover have "store_inv db'" if "fireCanceled E poll f a db = Some db'"
    using that r by (auto simp: fireCanceled_def Let_def bind_eq_Some_conv elim!: bookkeep_inv)
  moreover have "store_inv db'" if "fireSkipped E poll f a db = Some db'"
    using that r by (auto simp: fireSkipped_def Let_def bind_eq_Some_conv elim!: bookkeep_inv)
  moreover have "store_inv db'" if "fireSucceeded E poll f a t db = Some db'" for t
    using that r by (auto simp: fireSucceeded_def Let_def bind_eq_Some_conv split: if_splits elim!: bookkeep_inv Update_inv)
  ultimately show ?thesis using assms(1) by (auto simp: fireEnd_def split: sum.splits if_splits)
qed

lemma skipAll_inv:
  "skipAll E now ids as db = Some db' \<Longrightarrow> store_inv db \<Longrightarrow> ID ` set as \<subseteq> fst ` set (counts db) \<Longrightarrow> store_inv db'"
proof (induction as arbitrary: ids db)
  case (Cons a as)
  then obtain nx where n: "skipNext E now a = Some nx" by (auto split: option.splits)
  let ?r = "noRun\<lparr>runAutomationID := ID a, runStatus := ''skipped'', runCreatedAt := now\<rparr>"
  let ?db1 = "RecordRun now (hd ids) ?r db"
  let ?db2 = "UpdateNextRunAt (ID a) nx ?db1"
  have r: "store_inv ?db1" "fst ` set (counts ?db1) = fst ` set (counts db)"
    using RecordRun_inv [OF Cons.prems(2), of ?r now "hd ids"] Cons.prems(3) by (simp_all add: hasID_counts)
  have c: "counts ?db2 = counts ?db1" by (simp add: UpdateNextRunAt_def counts_onRow)
  have "store_inv ?db2" using r(1) store_inv_cong [OF c] by (simp add: UpdateNextRunAt_def)
  moreover have "skipAll E now (tl ids) as ?db2 = Some db'" using Cons.prems(1) n by simp
  ultimately show ?case using Cons.IH [of "tl ids" ?db2] Cons.prems(3) r(2) c by simp
qed simp

lemma Create_inv:
  assumes "Create E now nid a db = Some (r, db')" "store_inv db" "RunCount a = 0"
  shows "store_inv db'"
proof -
  have same: ?thesis if "db' = db" using that assms(2) by simp
  obtain z where z: "computeNextRunAt E (defaulted now nid a) now = Some z" using assms(1) by (auto simp: Create_def Let_def)
  show ?thesis
  proof (cases z)
    case (Inl e)
    then show ?thesis using assms(1) z same by (simp add: Create_def Let_def)
  next
    case (Inr t)
    let ?a = "(defaulted now nid a)\<lparr>NextRunAt := t\<rparr>"
    show ?thesis
    proof (cases "hasID (ID ?a) db")
      case True
      then show ?thesis using assms(1) z Inr same by (simp add: Create_def Let_def)
    next
      case False
      then have d: "db' = db\<lparr>automations := automations db @ [insertRow ?a]\<rparr>" using assms(1) z Inr by (simp add: Create_def Let_def)
      have row: "c_id (insertRow ?a) = ID ?a" "c_run_count (insertRow ?a) = 0" using assms(3) by (simp_all add: insertRow_def defaulted_def)
      have c: "counts db' = counts db @ [(ID ?a, 0)]" unfolding d using row by (simp add: counts_def)
      have n: "ID ?a \<notin> fst ` set (counts db)" using False by (simp add: hasID_counts)
      have "\<forall>r \<in> set (automation_runs db). r_automation_id r \<noteq> ID ?a" using assms(2) n unfolding store_inv_def by metis
      then have "runsOf (ID ?a) db = 0" by (simp add: runsOf_def filter_empty_conv)
      then show ?thesis using assms(2) n c unfolding store_inv_def by (auto simp: d runsOf_def)
    qed
  qed
qed

lemma MarkRunRead_inv: "store_inv db \<Longrightarrow> store_inv (MarkRunRead now i db)"
proof -
  let ?g = "\<lambda>x. if r_id x = i then x\<lparr>r_read_at := epochMS now\<rparr> else x"
  have "map r_id (map ?g xs) = map r_id xs" "map r_automation_id (map ?g xs) = map r_automation_id xs" for xs by (induction xs) simp_all
  then have m: "map r_id (automation_runs (MarkRunRead now i db)) = map r_id (automation_runs db)"
    "map r_automation_id (automation_runs (MarkRunRead now i db)) = map r_automation_id (automation_runs db)"
    by (simp_all add: MarkRunRead_def del: map_map)
  have "length (filter (\<lambda>r. r_automation_id r = j) xs) = length (filter (\<lambda>k. k = j) (map r_automation_id xs))" for j xs
    by (induction xs) simp_all
  then have "runsOf j (MarkRunRead now i db) = runsOf j db" for j unfolding runsOf_def using m(2) by metis
  moreover have "counts (MarkRunRead now i db) = counts db" by (simp add: counts_def MarkRunRead_def)
  moreover have "r_automation_id ` set (automation_runs (MarkRunRead now i db)) = r_automation_id ` set (automation_runs db)"
    using m(2) by (metis list.set_map)
  ultimately show "store_inv db \<Longrightarrow> store_inv (MarkRunRead now i db)" unfolding store_inv_def using m(1) by (simp add: image_subset_iff [symmetric] flip: image_subset_iff)
qed

lemma store_step_inv:
  assumes "store_inv db" "store_step E db op db'"
  shows "store_inv db'"
proof (cases op)
  case (OpCreate now nid a)
  then show ?thesis using assms Create_inv by (auto simp: store_step_def)
next
  case (OpUpdate now i p)
  then show ?thesis using assms Update_inv by (auto simp: store_step_def)
next
  case (OpDelete now i)
  then have d: "db' = Delete now i db" using assms(2) by (simp add: store_step_def)
  have "counts db' = counts db" unfolding d Delete_def by (rule counts_onRow) (simp_all split: if_split)
  moreover have "automation_runs db' = automation_runs db" by (simp add: d Delete_def)
  ultimately show ?thesis using store_inv_cong [of db' db] assms(1) by blast
next
  case (OpRead now i)
  then show ?thesis using assms MarkRunRead_inv by (auto simp: store_step_def)
next
  case (OpSkip now ids)
  then have "skipAll E now ids (NextDueAt now db) db = Some db'" using assms(2) by (auto simp: store_step_def SkipDue_def)
  moreover have "ID ` set (NextDueAt now db) \<subseteq> fst ` set (counts db)" by (force simp: NextDueAt_def counts_def)
  ultimately show ?thesis using skipAll_inv assms(1) by blast
next
  case (OpBegin f a)
  then show ?thesis using assms by (auto simp: store_step_def fireBegin_def)
next
  case (OpEnd poll f a)
  then show ?thesis using assms fireEnd_inv by (auto simp: store_step_def)
qed

interpretation store: inductive_invariant store_init "store_step E" store_inv for E
proof
  show "store_inv s" if "store_init s" for s using that by (simp add: store_init_def store_inv_def counts_def)
  show "store_inv t" if "store_inv s" "store_step E s l t" for s l t using store_step_inv that .
qed

text \<open>In every store reached by creating, updating, deleting, reading, skipping and firing, in any interleaving of the two parts of firings: identifiers are unique, every run belongs to an automation, and the count of an automation is the number of its runs.\<close>

theorem run_count_exact:
  assumes "reach store_init (store_step E) db"
  shows "distinct (map c_id (automations db)) \<and> distinct (map r_id (automation_runs db)) \<and>
     (\<forall>c \<in> set (automations db). c_run_count c = int (runsOf (c_id c) db)) \<and>
     (\<forall>r \<in> set (automation_runs db). hasID (r_automation_id r) db)"
proof -
  have "map fst (counts db) = map c_id (automations db)" by (simp add: counts_def)
  moreover have "store_inv db" using store.inv_reach [OF assms] .
  ultimately have "distinct (map c_id (automations db))" "distinct (map r_id (automation_runs db))"
    "\<forall>(i, n) \<in> set (counts db). n = int (runsOf i db)" "\<forall>r \<in> set (automation_runs db). hasID (r_automation_id r) db"
    unfolding hasID_counts store_inv_def by simp_all
  then show ?thesis by (auto simp: counts_def)
qed

lemma isDue_views:
  "isDue now i db \<longleftrightarrow> (\<exists>n. (i, None, ''ACTIVE'', n) \<in> view ` set (automations db) \<and> n \<le> epochMS now)"
  by (force simp: isDue_iff dueRow_def view_def image_iff)

lemma views_RecordRun: "map view (automations (RecordRun now nid r db)) = map view (automations db)"
proof -
  obtain x where "RecordRun now nid r db =
     (if list_ex (\<lambda>y. r_id y = r_id x) (automation_runs db) then db
      else onRow (runAutomationID r) (\<lambda>c. c\<lparr>c_run_count := c_run_count c + 1\<rparr>) (db\<lparr>automation_runs := automation_runs db @ [x]\<rparr>))"
    using RecordRun_eq by blast
  then show ?thesis by (simp add: automations_onRow view_def)
qed

lemma views_UpdateNextRunAt:
  "map view (automations (UpdateNextRunAt j nx db)) =
     map (\<lambda>(i, d, s, n). (i, d, s, if i = j then epochMS nx else n)) (map view (automations db))"
  by (simp add: UpdateNextRunAt_def automations_onRow view_def)

lemma skipAll_views:
  "skipAll E now ids as db = Some db' \<Longrightarrow> distinct (map ID as) \<Longrightarrow>
   map view (automations db') = map (skipped_view E now as) (map view (automations db)) \<and>
   (\<forall>a \<in> set as. \<exists>nx. skipNext E now a = Some nx)"
proof (induction as arbitrary: ids db)
  case Nil
  then show ?case by (simp add: skipped_view_def case_prod_unfold)
next
  case (Cons a as)
  then obtain nx where n: "skipNext E now a = Some nx" by (auto split: option.splits)
  let ?db = "UpdateNextRunAt (ID a) nx
     (RecordRun now (hd ids) (noRun\<lparr>runAutomationID := ID a, runStatus := ''skipped'', runCreatedAt := now\<rparr>) db)"
  have "skipAll E now (tl ids) as ?db = Some db'" using Cons.prems(1) n by simp
  from Cons.IH [OF this] Cons.prems(2) have ih:
    "map view (automations db') = map (skipped_view E now as) (map view (automations ?db))" "\<forall>a \<in> set as. \<exists>nx. skipNext E now a = Some nx"
    by simp_all
  have "ID a \<notin> ID ` set as" using Cons.prems(2) by simp
  then have "find (\<lambda>b. ID b = ID a) as = None" unfolding find_None_iff by (metis imageI)
  then have sv: "skipped_view E now as (case v of (i, d, s, m) \<Rightarrow> (i, d, s, if i = ID a then epochMS nx else m)) = skipped_view E now (a # as) v" for v
    using n by (cases v) (auto simp: skipped_view_def)
  have "map view (automations db') = map (skipped_view E now (a # as)) (map view (automations db))"
    by (simp only: ih(1) views_UpdateNextRunAt views_RecordRun map_map comp_def sv)
  then show ?case using ih(2) n by simp
qed

lemma find_unique: "x \<in> set xs \<Longrightarrow> P x \<Longrightarrow> (\<And>y. y \<in> set xs \<Longrightarrow> P y \<Longrightarrow> y = x) \<Longrightarrow> find P xs = Some x"
proof -
  assume a: "x \<in> set xs" "P x" and u: "\<And>y. y \<in> set xs \<Longrightarrow> P y \<Longrightarrow> y = x"
  from a obtain y where y: "find P xs = Some y" using find_None_iff [of P xs] by blast
  then have "y \<in> set xs" "P y" by (auto simp: find_Some_iff)
  then have "y = x" by (rule u)
  with y show ?thesis by simp
qed

lemma distinct_due: "distinct (map c_id (automations db)) \<Longrightarrow> distinct (map ID (NextDueAt now db))"
proof -
  assume d: "distinct (map c_id (automations db))"
  let ?cs = "sort_key c_next_run_at (filter (dueRow now) (automations db))"
  have "inj_on c_id (set ?cs)" using d by (auto simp: distinct_map intro: inj_on_subset)
  moreover have "distinct ?cs" using d by (simp add: distinct_map)
  moreover have "map ID (NextDueAt now db) = map c_id ?cs" by (simp add: NextDueAt_def)
  ultimately show ?thesis by (simp only: distinct_map)
qed

lemma find_due:
  assumes "distinct (map c_id (automations db))" "c \<in> set (automations db)"
  shows "find (\<lambda>a. ID a = c_id c) (NextDueAt now db) = (if dueRow now c then Some (scanAutomation c) else None)"
proof -
  have u: "c' = c" if "c' \<in> set (automations db)" "c_id c' = c_id c" for c'
    using assms that by (metis distinct_map inj_onD)
  show ?thesis
  proof (cases "dueRow now c")
    case True
    have un: "y = scanAutomation c" if y: "y \<in> set (NextDueAt now db)" "ID y = c_id c" for y
    proof -
      obtain c' where "y = scanAutomation c'" "c' \<in> set (automations db)" using y(1) by (auto simp: NextDueAt_def)
      then show ?thesis using u [of c'] y(2) by simp
    qed
    have mem: "scanAutomation c \<in> set (NextDueAt now db)" using True assms(2) by (simp add: NextDueAt_def)
    have "find (\<lambda>a. ID a = c_id c) (NextDueAt now db) = Some (scanAutomation c)"
      by (rule find_unique [OF mem _ un]) simp_all
    then show ?thesis using True by simp
  next
    case False
    have "ID y \<noteq> c_id c" if y: "y \<in> set (NextDueAt now db)" for y
    proof -
      obtain c' where "y = scanAutomation c'" "c' \<in> set (automations db)" "dueRow now c'" using y by (auto simp: NextDueAt_def)
      then show ?thesis using u [of c'] False by auto
    qed
    then show ?thesis using False by (auto simp: find_None_iff)
  qed
qed

lemma skipNext_due:
  assumes "skipNext E now (scanAutomation c) = Some nx" "0 \<le> now"
  shows "epochMS nx \<le> epochMS now \<longleftrightarrow> noNext E now c"
proof -
  have z: "0 \<le> epochMS now" "epochMS zeroTime = 0"
    using assms(2) by (simp_all add: epochMS_def millisecond_def pos_imp_zdiv_nonneg_iff)
  show ?thesis
  proof (cases "c_schedule_type c = ''recurring''")
    case True
    then obtain r where r: "computeNextRunAt E (scanAutomation c) now = Some r" "nx = (case r of Inr t \<Rightarrow> t | Inl _ \<Rightarrow> zeroTime)"
      using assms(1) by (auto simp: skipNext_def)
    show ?thesis
    proof (cases r)
      case (Inl e)
      then show ?thesis using r z by (simp add: noNext_def)
    next
      case (Inr t)
      then have "now < t \<and> t mod second = 0" using computeNextRunAt_after [of E "scanAutomation c" now t] r True by simp
      then show ?thesis using r Inr True epochMS_whole_less [OF assms(2), of t] by (simp add: noNext_def)
    qed
  qed (use assms(1) z in \<open>simp add: skipNext_def noNext_def\<close>)
qed

lemma skipped_row_due:
  assumes "distinct (map c_id (automations db))" "0 \<le> now" "c \<in> set (automations db)"
    "\<forall>a \<in> set (NextDueAt now db). \<exists>nx. skipNext E now a = Some nx"
  shows "(\<exists>m. skipped_view E now (NextDueAt now db) (view c) = (i, None, ''ACTIVE'', m) \<and> m \<le> epochMS now) \<longleftrightarrow>
    c_id c = i \<and> dueRow now c \<and> noNext E now c"
proof (cases "dueRow now c")
  case False
  then show ?thesis using find_due [OF assms(1,3), of now] by (auto simp: skipped_view_def view_def dueRow_def)
next
  case True
  then have "scanAutomation c \<in> set (NextDueAt now db)" using assms(3) by (simp add: NextDueAt_def)
  then obtain nx where nx: "skipNext E now (scanAutomation c) = Some nx" using assms(4) by blast
  have "skipped_view E now (NextDueAt now db) (view c) = (c_id c, None, ''ACTIVE'', epochMS nx)"
    using find_due [OF assms(1,3), of now] True nx by (simp add: skipped_view_def view_def dueRow_def)
  then show ?thesis using True skipNext_due [OF nx assms(2)] by simp
qed

text \<open>After the reconciliation at start an automation is still due exactly when it was due before and either runs once or has no next firing: these are recorded as skipped and fire at the first poll all the same.\<close>

theorem SkipDue_due:
  assumes "distinct (map c_id (automations db))" "0 \<le> now" "SkipDue E now ids db = Some (n, db')"
  shows "isDue now i db' \<longleftrightarrow> (\<exists>c \<in> set (automations db). c_id c = i \<and> dueRow now c \<and> noNext E now c)"
proof -
  have s: "skipAll E now ids (NextDueAt now db) db = Some db'" using assms(3) by (simp add: SkipDue_def)
  note v = skipAll_views [OF s distinct_due [OF assms(1)]]
  have set: "view ` set (automations db') = (\<lambda>c. skipped_view E now (NextDueAt now db) (view c)) ` set (automations db)"
    using arg_cong [OF conjunct1 [OF v], of set] by (simp only: set_map image_image)
  have "isDue now i db' \<longleftrightarrow> (\<exists>c \<in> set (automations db). \<exists>m. skipped_view E now (NextDueAt now db) (view c) = (i, None, ''ACTIVE'', m) \<and> m \<le> epochMS now)"
    unfolding isDue_views set by (auto simp: image_iff eq_commute)
  also have "\<dots> \<longleftrightarrow> (\<exists>c \<in> set (automations db). c_id c = i \<and> dueRow now c \<and> noNext E now c)"
    using skipped_row_due [OF assms(1,2) _ conjunct2 [OF v]] by (intro bex_cong) simp_all
  finally show ?thesis .
qed

text \<open>A firing makes at most two calls; a turn is submitted with the prompt, the model and the permissions of the automation, and never in workflow mode; a workflow run is started only alone and, under the skip policy, only when no run is active.\<close>

theorem Dispatch_calls:
  assumes "Dispatch q d a = (res, calls)"
  shows "length calls \<le> 2 \<and>
    (\<forall>sid prompt m perm. Submitted sid prompt m perm \<in> set calls \<longrightarrow>
       prompt = Prompt a \<and> m = ModelID a \<and> permMode perm = PermissionMode a \<and> permConnectors perm = Connectors a \<and> WorkflowRef a = []) \<and>
    (\<forall>ws name input. Started ws name input \<in> set calls \<longrightarrow>
       calls = [Started ws name input] \<and> (OverlapPolicy a \<in> {[], ''skip''} \<longrightarrow> HasActiveWorkflowRun d ws name = Inr False))"
proof (cases "WorkflowRef a = []")
  case True
  then show ?thesis using assms
    by (auto simp: Dispatch_def freshConversation_def Let_def split: option.splits sum.splits if_splits)
next
  case False
  then show ?thesis using assms
    by (auto simp: Dispatch_def dispatchWorkflow_def Let_def split: option.splits sum.splits if_splits bool.splits)
qed

text \<open>A workflow automation fired by a dispatcher without a workflow runner panics.\<close>

theorem nil_runner_panics:
  assumes "SubmitWorkflowRun d = None" "WorkflowRef a = ''/w#flow''" "WorkflowInput a = []"
  shows "Dispatch q d a = (Panicked, [])"
  using assms by (simp add: Dispatch_def dispatchWorkflow_def Let_def)

text \<open>Update writes every column from the row it read: a pause between its read and its write is undone.\<close>

theorem stale_write_undoes_pause:
  assumes "rowOf i db = Some c" "c_status c = ''ACTIVE''" "quiet p" "pStatus p = None"
    and "revised E now p (scanAutomation c) = Some (Inr a)" "rowOf i paused = Some c1"
  shows "\<exists>c2. rowOf i (onRow i (updateRow a) paused) = Some c2 \<and> c_status c2 = ''ACTIVE''"
proof -
  have "a = (patched p (scanAutomation c))\<lparr>UpdatedAt := now\<rparr>"
    using assms(3,5) by (simp add: revised_def reArm_def quiet_def Let_def)
  then show ?thesis using assms(2,4,6) by (simp add: rowOf_onRow)
qed

text \<open>Changing the rule of an automation that never ran computes the next firing from 1970: for a weekly rule without days it is due at once.\<close>

theorem rescheduled_never_run_due:
  assumes "rowOf i db = Some c" "c_last_run_at c = 0" "c_status c = ''ACTIVE''" "c_deleted_at c = None"
    and "c_schedule_type c = ''recurring''" "c_timezone c = []"
    and "parseRRule (upper E) rule = Inr r" "rrule_ok r" "freq r = ''WEEKLY''" "byDay r = []" "interval r = 1" "2 \<le> rounds E"
    and "86400 * second \<le> now"
  shows "\<exists>a db'. Update E u i (noPatch\<lparr>pRRule := Some rule\<rparr>) db = Some (Inr a, db') \<and> isDue now i db'"
proof -
  let ?p = "noPatch\<lparr>pRRule := Some rule\<rparr>"
  let ?b = "(patched ?p (scanAutomation c))\<lparr>UpdatedAt := u\<rparr>"
  obtain t where t: "Next (rounds E) r 0 (fixedZone 0) = Some (Inr t)" "0 < t" "t \<le> 0 + 86400 * second"
    using weekly_without_byday_is_daily [OF assms(8,9,10,11,12)] by blast
  have f: "ScheduleType ?b = ''recurring''" "Timezone ?b = []" "RRule ?b = rule" "LastRunAt ?b = 0"
    using assms(2,5,6) by (simp_all add: patched_def noPatch_def scanAutomation_def UnixMilli_def)
  have "computeNextRunAt E ?b 0 = Some (Inr t)"
    using t(1) assms(7) f by (simp add: computeNextRunAt_def loadLocation_def UTC_fixed)
  moreover have "\<not> reArm ?p (scanAutomation c)" "scheduleChanged ?p" by (simp_all add: reArm_def scheduleChanged_def noPatch_def)
  ultimately have r: "revised E u ?p (scanAutomation c) = Some (Inr (?b\<lparr>NextRunAt := t\<rparr>))" using f(4) by (simp add: revised_def Let_def)
  let ?db = "onRow i (updateRow (?b\<lparr>NextRunAt := t\<rparr>)) db"
  have "Update E u i ?p db = Some (Inr (?b\<lparr>NextRunAt := t\<rparr>), ?db)" using assms(1) r by (simp add: Update_def Get_rowOf)
  moreover have "isDue now i ?db"
  proof -
    have "epochMS t \<le> epochMS now"
      using t(2,3) assms(13) by (simp add: epochMS_def zeroTime_def second_def millisecond_def zdiv_mono1)
    moreover have row: "rowOf i ?db = Some (updateRow (?b\<lparr>NextRunAt := t\<rparr>) c)" using assms(1) by (simp add: rowOf_onRow)
    ultimately have "dueRow now (updateRow (?b\<lparr>NextRunAt := t\<rparr>) c)" using assms(3,4) by (simp add: dueRow_def noPatch_def)
    moreover have "updateRow (?b\<lparr>NextRunAt := t\<rparr>) c \<in> set (automations ?db)" using row by (auto simp: rowOf_def find_Some_iff)
    moreover have "c_id (updateRow (?b\<lparr>NextRunAt := t\<rparr>) c) = i" using rowOf_id [OF assms(1)] by simp
    ultimately show ?thesis unfolding isDue_iff by blast
  qed
  ultimately show ?thesis by blast
qed

lemma UnixMilli_epochMS: "UnixMilli (epochMS t) = toMS t"
  by (simp add: UnixMilli_def epochMS_def toMS_def minus_mod_eq_div_mult)

lemma parse_fmt: "t = zeroTime \<or> 0 \<le> timeYear UTC t \<and> timeYear UTC t \<le> 9999 \<Longrightarrow> parseTime (fmtTime t) = t"
  by (auto simp: parseTime_def fmtTime_def)

lemma json_valid: "list_all (\<lambda>s. validUTF8 s) v \<Longrightarrow> parseJSONStrings (jsonStr v) = v"
  by (induction v) (simp_all add: parseJSONStrings_def jsonStr_def rangeBytes_valid)

lemma readDeleted_zero: "readDeleted (epochMSOrNil zeroTime) = zeroTime"
  by (simp add: readDeleted_def epochMSOrNil_def)

lemma find_append_none: "\<not> list_ex P xs \<Longrightarrow> find P (xs @ ys) = find P ys"
  by (induction xs) simp_all

text \<open>An automation that was created is read back as it was stored, with the times of the schedule cut to milliseconds and a last run that never was read as 1970.\<close>

theorem create_get_roundtrip:
  assumes "Create E now nid a0 db = Some (Inr a, db')" "storable a"
  shows "Get (ID a) db' = Inr (a\<lparr>LastRunAt := toMS (LastRunAt a), NextRunAt := toMS (NextRunAt a),
    CreatedAt := toMS now, UpdatedAt := toMS now\<rparr>)"
proof -
  obtain z where z: "computeNextRunAt E (defaulted now nid a0) now = Some z" using assms(1) by (auto simp: Create_def Let_def)
  then obtain t where t: "z = Inr t" using assms(1) by (cases z) (auto simp: Create_def Let_def)
  let ?a = "(defaulted now nid a0)\<lparr>NextRunAt := t\<rparr>"
  have "\<not> hasID (ID ?a) db" using assms(1) z t by (auto simp: Create_def Let_def split: if_splits)
  then have e: "a = ?a" "db' = db\<lparr>automations := automations db @ [insertRow a]\<rparr>" "\<not> hasID (ID a) db"
    using assms(1) z t by (auto simp: Create_def Let_def)
  have "c_id (insertRow a) = ID a" by (simp add: insertRow_def)
  then have "find (\<lambda>c. c_id c = ID a) (automations db') = Some (insertRow a)"
    using e(3) unfolding e(2) by (simp add: hasID_def find_append_none)
  then have "Get (ID a) db' = Inr (scanAutomation (insertRow a))" by (simp add: Get_def)
  moreover have "CreatedAt a = now" "UpdatedAt a = now" unfolding e(1) by (simp_all add: defaulted_def)
  moreover have "scanAutomation (insertRow a) = a\<lparr>LastRunAt := toMS (LastRunAt a), NextRunAt := toMS (NextRunAt a),
    CreatedAt := toMS (CreatedAt a), UpdatedAt := toMS (UpdatedAt a)\<rparr>"
    using assms(2) unfolding storable_def
    by (simp add: scanAutomation_def insertRow_def UnixMilli_epochMS parse_fmt json_valid readDeleted_zero)
  ultimately show ?thesis by simp
qed

lemma demo_row: "rowOf ''a1'' (demoStore demoAutomation) = Some (insertRow demoAutomation)"
  by (simp add: rowOf_def demoStore_def insertRow_def demoAutomation_def)

lemma sample_parts: "ID demoAutomation = ''a1''" "ScheduleType demoAutomation = ''recurring''" "Status demoAutomation = ''ACTIVE''"
  "RetryCount demoAutomation = 0" "endedAt demoFailure = 6 * second" "failing demoFailure"
  by (simp_all add: demoAutomation_def demoFailure_def failing_def)

lemma demo_insert: "c_status (insertRow demoAutomation) = ''ACTIVE''" "c_schedule_type (insertRow demoAutomation) = ''recurring''"
  "c_retry_count (insertRow demoAutomation) = 0" "c_last_run_at (insertRow demoAutomation) = 0" "c_deleted_at (insertRow demoAutomation) = None"
  "c_timezone (insertRow demoAutomation) = []" "c_next_run_at (insertRow demoAutomation) = 0" "c_id (insertRow demoAutomation) = ''a1''"
  by (simp_all add: insertRow_def demoAutomation_def epochMS_def epochMSOrNil_def zeroTime_def second_def)

lemma demo_fireEnd: "fireEnd E poll demoFailure a db = fireFailed E demoFailure a ''quota'' db"
  by (simp add: fireEnd_def demoFailure_def)

lemma demo_fires: "\<exists>db'. fireEnd demoEnv (30 * second) demoFailure a db = Some db'"
  unfolding demo_fireEnd by (rule fireFailed_total)

theorem fired_not_due_witness:
  "\<exists>db'. fireEnd demoEnv (30 * second) demoFailure demoAutomation (demoStore demoAutomation) = Some db' \<and> \<not> isDue (6 * second) ''a1'' db'"
proof -
  obtain db' where d: "fireEnd demoEnv (30 * second) demoFailure demoAutomation (demoStore demoAutomation) = Some db'" using demo_fires by blast
  have "0 \<le> endedAt demoFailure" "millisecond \<le> 30 * second" by (simp_all add: sample_parts second_def millisecond_def)
  from fired_not_due [OF d this] show ?thesis using d by (simp add: sample_parts)
qed

theorem fire_keeps_pause_witness:
  "\<exists>db' c'. fireEnd demoEnv (30 * second) demoFailure demoAutomation (demoStore demoAutomation) = Some db' \<and>
     rowOf ''a1'' db' = Some c' \<and> c_status c' = ''ACTIVE''"
proof -
  obtain db' where d: "fireEnd demoEnv (30 * second) demoFailure demoAutomation (demoStore demoAutomation) = Some db'" using demo_fires by blast
  have "\<not> givesUp demoFailure demoAutomation" by (simp add: givesUp_def sample_parts MaxRetries_def)
  then show ?thesis using fire_keeps_pause [OF d sample_parts(2)] demo_row d by (simp add: sample_parts demo_insert)
qed


theorem run_count_exact_witness:
  "\<exists>db c. reach store_init (store_step demoEnv) db \<and> c \<in> set (automations db) \<and> c_id c = ''a1'' \<and> c_run_count c = int (runsOf ''a1'' db)"
proof -
  let ?a = "(defaulted 0 [] demoOnce)\<lparr>NextRunAt := second\<rparr>"
  let ?db = "demoEmpty\<lparr>automations := [insertRow ?a]\<rparr>"
  have p: "ScheduleType (defaulted 0 [] demoOnce) = ''once''" "Timezone (defaulted 0 [] demoOnce) = []"
    "ScheduledAt (defaulted 0 [] demoOnce) = second" "ID (defaulted 0 [] demoOnce) = ''a1''" "RunCount demoOnce = 0"
    by (simp_all add: defaulted_def demoOnce_def demoAutomation_def)
  have "computeNextRunAt demoEnv (defaulted 0 [] demoOnce) 0 = Some (Inr second)"
    using p by (simp add: computeNextRunAt_def loadLocation_def zeroTime_def second_def)
  then have "applyOp demoEnv (OpCreate 0 [] demoOnce) demoEmpty = Some ?db"
    using p(4) by (simp add: Create_def hasID_def demoEmpty_def Let_def)
  then have s1: "store_step demoEnv demoEmpty (OpCreate 0 [] demoOnce) ?db" using p(5) by (simp add: store_step_def)
  have i: "c_id (insertRow ?a) = ''a1''" using p(4) by (simp add: insertRow_def)
  obtain db where d: "fireEnd demoEnv (30 * second) demoFailure demoAutomation ?db = Some db"
    using demo_fires by blast
  then have s2: "store_step demoEnv ?db (OpEnd (30 * second) demoFailure demoAutomation) db"
    using i by (simp add: store_step_def hasID_def sample_parts)
  have "store_init demoEmpty" by (simp add: store_init_def demoEmpty_def)
  then have "reach store_init (store_step demoEnv) demoEmpty" by (rule reach_init)
  then have "reach store_init (store_step demoEnv) ?db" using s1 by (rule reach_step)
  then have r: "reach store_init (store_step demoEnv) db" using s2 by (rule reach_step)
  have "rowOf ''a1'' ?db = Some (insertRow ?a)" using i by (simp add: rowOf_def)
  then obtain c where c: "rowOf ''a1'' db = Some c"
    using failed_status [OF d [unfolded demo_fireEnd]] by (auto simp: sample_parts)
  then have "c \<in> set (automations db)" by (auto simp: rowOf_def find_Some_iff)
  moreover from this have "c_run_count c = int (runsOf (c_id c) db)" using run_count_exact [OF r] by blast
  ultimately show ?thesis using rowOf_id [OF c] r by (intro exI [of _ db] exI [of _ c]) simp
qed

lemma demo_due: "NextDueAt (9 * second) (demoStore demoOnce) = [scanAutomation (insertRow demoOnce)]"
  by (simp add: NextDueAt_def demoStore_def dueRow_def insertRow_def demoOnce_def demoAutomation_def epochMS_def epochMSOrNil_def
      zeroTime_def second_def millisecond_def)

theorem SkipDue_due_witness:
  "\<exists>n db'. SkipDue demoEnv (9 * second) [''s1''] (demoStore demoOnce) = Some (n, db') \<and> isDue (9 * second) ''a1'' db'"
proof -
  have row: "c_id (insertRow demoOnce) = ''a1''" "c_schedule_type (insertRow demoOnce) = ''once''" "dueRow (9 * second) (insertRow demoOnce)"
    by (simp_all add: insertRow_def demoOnce_def demoAutomation_def dueRow_def epochMS_def epochMSOrNil_def zeroTime_def second_def millisecond_def)
  obtain db' where d: "SkipDue demoEnv (9 * second) [''s1''] (demoStore demoOnce) = Some (1, db')"
    using row(2) by (simp add: SkipDue_def demo_due skipNext_def)
  have "isDue (9 * second) ''a1'' db'"
    using SkipDue_due [OF _ _ d, of "''a1''"] row by (simp add: demoStore_def second_def noNext_def)
  with d show ?thesis by blast
qed

theorem Dispatch_calls_witness:
  "\<exists>sid perm. Submitted sid ''p'' [] perm \<in> set (snd (Dispatch id demoDispatcher demoAutomation)) \<and> permMode perm = ''ask''"
proof -
  have d: "Dispatch id demoDispatcher demoAutomation =
      (Returned (Inr ''c1''), [Created ''/w'', Submitted ''c1'' ''p'' [] \<lparr>permMode = ''ask'', permConnectors = [], permSkills = []\<rparr>])"
    by (simp add: Dispatch_def freshConversation_def firstWorkspace_def demoDispatcher_def demoAutomation_def)
  then show ?thesis using Dispatch_calls [OF d] by (intro exI) auto
qed

end
