(* ===== verification/Edit_Text.thy ===== *)
theory Edit_Text
  imports Workspace Truncate
begin

section \<open>Locating and describing edits\<close>

text \<open>
  The text side of the file tools, \<^verbatim>\<open>internal/tools/filesystem\<close>: where an edit applies (\<^verbatim>\<open>edit_file.go\<close>,
  \<^verbatim>\<open>edit_text.go\<close>), inserting whole lines (\<^verbatim>\<open>insert_file.go\<close>), the lines a read shows (\<^verbatim>\<open>read_file.go\<close>) and the
  counts of a diff (\<^verbatim>\<open>tools/diffstat.go\<close>).  A rune is represented by its UTF-8 encoding; a byte that is
  not part of a valid encoding decodes to the encoding of U+FFFD.  Indexing a slice out of range
  panics in Go: where an index is computed the result is an option and None stands for the panic.
\<close>

abbreviation CR :: char where "CR \<equiv> CHR 0x0D"

subsection \<open>Runes and counting\<close>

definition replacementRune :: string where
  "replacementRune = [CHR 0xEF, CHR 0xBF, CHR 0xBD]"

text \<open>\<open>[]rune(s)\<close>.\<close>

function runesOf :: "string \<Rightarrow> string list" where
  "runesOf [] = []"
| "runesOf (c # s) =
     (if runeLen (c # s) = 0 then replacementRune # runesOf s
      else take (runeLen (c # s)) (c # s) # runesOf (drop (runeLen (c # s)) (c # s)))"
  by pat_completeness auto
termination
  by (relation "measure length") auto

text \<open>\<open>strings.Count\<close>: occurrences that do not overlap, from the left; runes plus one for the empty string.\<close>

function Count :: "string \<Rightarrow> string \<Rightarrow> nat" where
  "Count s p =
     (if p = [] then length (runesOf s) + 1
      else (case Index s p of None \<Rightarrow> 0 | Some i \<Rightarrow> 1 + Count (drop (i + length p) s) p))"
  by pat_completeness auto
termination
proof (relation "measure (\<lambda>(s, p). length s)")
  fix s p :: string and i
  assume "p \<noteq> []" "Index s p = Some i"
  moreover from Index_Some [OF this(2)] have "i + length p \<le> length s" by simp
  ultimately show "((drop (i + length p) s, p), s, p) \<in> measure (\<lambda>(s, p). length s)" by (cases p) auto
qed simp

declare Count.simps [simp del]

text \<open>\<open>strings.TrimRight\<close> with a set of ASCII characters, and \<open>strings.TrimSuffix\<close>.\<close>

definition TrimRight :: "string \<Rightarrow> char list \<Rightarrow> string" where
  "TrimRight s cs = rev (dropWhile (\<lambda>c. c \<in> set cs) (rev s))"

definition TrimSuffix :: "string \<Rightarrow> string \<Rightarrow> string" where
  "TrimSuffix s t = (if HasSuffix s t then take (length s - length t) s else s)"

subsection \<open>The LF view of a file\<close>

fun lfLoop :: "nat \<Rightarrow> string \<Rightarrow> string \<times> nat list" where
  "lfLoop i [] = ([], [])"
| "lfLoop i [c] = ([c], [i])"
| "lfLoop i (c # d # s) =
     (if c = CR \<and> d = NL then (let (b, offs) = lfLoop (i + 2) s in (NL # b, i # offs))
      else (let (b, offs) = lfLoop (i + 1) (d # s) in (c # b, i # offs)))"

definition editLFView :: "string \<Rightarrow> string \<times> nat list" where
  "editLFView raw = (let (b, offs) = lfLoop 0 raw in (b, offs @ [length raw]))"

subsection \<open>Folding look-alikes\<close>

definition doubleQuotes :: "string list" where
  "doubleQuotes =
     [[CHR 0xE2, CHR 0x80, CHR 0x9C], [CHR 0xE2, CHR 0x80, CHR 0x9D], [CHR 0xE2, CHR 0x80, CHR 0x9E],
      [CHR 0xE2, CHR 0x80, CHR 0x9F], [CHR 0xE2, CHR 0x80, CHR 0xB3], [CHR 0xE3, CHR 0x80, CHR 0x83]]"

definition singleQuotes :: "string list" where
  "singleQuotes =
     [[CHR 0xE2, CHR 0x80, CHR 0x98], [CHR 0xE2, CHR 0x80, CHR 0x99], [CHR 0xE2, CHR 0x80, CHR 0x9A],
      [CHR 0xE2, CHR 0x80, CHR 0x9B], [CHR 0xE2, CHR 0x80, CHR 0xB2]]"

definition dashes :: "string list" where
  "dashes =
     [[CHR 0xE2, CHR 0x80, CHR 0x90], [CHR 0xE2, CHR 0x80, CHR 0x91], [CHR 0xE2, CHR 0x80, CHR 0x92],
      [CHR 0xE2, CHR 0x80, CHR 0x93], [CHR 0xE2, CHR 0x80, CHR 0x94], [CHR 0xE2, CHR 0x80, CHR 0x95],
      [CHR 0xE2, CHR 0x88, CHR 0x92]]"

definition wideSpaces :: "string list" where
  "wideSpaces =
     [[CHR 0xC2, CHR 0xA0], [CHR 0xE2, CHR 0x80, CHR 0x82], [CHR 0xE2, CHR 0x80, CHR 0x83],
      [CHR 0xE2, CHR 0x80, CHR 0x87], [CHR 0xE2, CHR 0x80, CHR 0x89], [CHR 0xE2, CHR 0x80, CHR 0x8A],
      [CHR 0xE2, CHR 0x80, CHR 0xAF], [CHR 0xE3, CHR 0x80, CHR 0x80]]"

definition foldRune :: "string \<Rightarrow> string" where
  "foldRune r =
     (if r \<in> set doubleQuotes then [DQ]
      else if r \<in> set singleQuotes then [SQ]
      else if r \<in> set dashes then [CHR ''-'']
      else if r \<in> set wideSpaces then [SP]
      else r)"

definition foldString :: "string \<Rightarrow> string" where
  "foldString s = concat (map foldRune (runesOf s))"

text \<open>The loop of \<open>foldWithMap\<close> from position i: the folded bytes, and for each the offset of its rune.\<close>

function foldLoop :: "nat \<Rightarrow> string \<Rightarrow> string \<times> nat list" where
  "foldLoop i [] = ([], [])"
| "foldLoop i (c # s) =
     (let w = max 1 (runeLen (c # s)); fr = foldRune (hd (runesOf (c # s)));
          (b, offs) = foldLoop (i + w) (drop w (c # s))
      in (fr @ b, replicate (length fr) i @ offs))"
  by pat_completeness auto
termination
  by (relation "measure (\<lambda>(i, s). length s)") auto

definition foldWithMap :: "string \<Rightarrow> string \<times> nat list" where
  "foldWithMap s = (let (b, offs) = foldLoop 0 s in (b, offs @ [length s]))"

subsection \<open>Line-number prefixes\<close>

definition isDigitByte :: "char \<Rightarrow> bool" where
  "isDigitByte c = byteIn 0x30 0x39 c"

definition lineNumberPrefixLen :: "string \<Rightarrow> nat" where
  "lineNumberPrefixLen l =
     (let spaces = takeWhile (\<lambda>c. c = SP) l; r = dropWhile (\<lambda>c. c = SP) l;
          digits = takeWhile isDigitByte r; t = dropWhile isDigitByte r
      in if digits = [] then 0
         else if t \<noteq> [] \<and> hd t = TAB then length spaces + length digits + 1
         else 0)"

definition stripLineNumberPrefixes :: "string \<Rightarrow> string \<times> bool" where
  "stripLineNumberPrefixes s =
     (let ls = SplitByte NL s in
      if list_ex (\<lambda>l. l \<noteq> [] \<and> lineNumberPrefixLen l = 0) ls then (s, False)
      else if \<not> list_ex (\<lambda>l. l \<noteq> []) ls then (s, False)
      else (Join (map (\<lambda>l. drop (lineNumberPrefixLen l) l) ls) [NL], True))"

subsection \<open>Where an edit applies\<close>

record matchResult =
  found :: bool
  start :: nat
  stop :: nat
  matched :: string
  tolerant :: bool
  note' :: string
  ambiguous :: nat

definition noMatch :: matchResult where
  "noMatch = \<lparr>found = False, start = 0, stop = 0, matched = [], tolerant = False, note' = [], ambiguous = 0\<rparr>"

definition matchAt :: "nat \<Rightarrow> string \<Rightarrow> matchResult" where
  "matchAt i m = noMatch\<lparr>found := True, start := i, stop := i + length m, matched := m\<rparr>"

text \<open>\<open>strings.Index\<close> as used after a count of one; -1 does not occur there.\<close>

definition indexOf :: "string \<Rightarrow> string \<Rightarrow> nat" where
  "indexOf s p = (case Index s p of None \<Rightarrow> 0 | Some i \<Rightarrow> i)"

definition strippedNote :: string where
  "strippedNote = ''after stripping read_file'' @ [SQ] @ ''s line-number prefixes''"

definition foldedNote :: string where
  "foldedNote = ''after folding smart quotes / dashes / non-breaking spaces to ASCII''"

definition locateFolded :: "string \<Rightarrow> string \<Rightarrow> matchResult" where
  "locateFolded content old =
     (let (normContent, offsets) = foldWithMap content; normOld = foldString old; n = Count normContent normOld in
      if n = 1 then
        (let ns = indexOf normContent normOld; st = offsets ! ns; en = offsets ! (ns + length normOld)
         in noMatch\<lparr>found := True, start := st, stop := en, matched := take (en - st) (drop st content),
              tolerant := True, note' := foldedNote\<rparr>)
      else if n > 1 then noMatch\<lparr>ambiguous := n\<rparr>
      else noMatch)"

definition locateEdit :: "string \<Rightarrow> string \<Rightarrow> matchResult" where
  "locateEdit content old =
     (let n = Count content old in
      if n = 1 then matchAt (indexOf content old) old
      else if n > 1 then noMatch\<lparr>ambiguous := n\<rparr>
      else
        (let (stripped, changed) = stripLineNumberPrefixes old; k = Count content stripped in
         if changed \<and> k = 1 then (matchAt (indexOf content stripped) stripped)\<lparr>tolerant := True, note' := strippedNote\<rparr>
         else if changed \<and> k > 1 then noMatch\<lparr>ambiguous := k\<rparr>
         else locateFolded content old))"

text \<open>The bytes written for a match: a file whose line ends are all CRLF keeps them in the replacement.\<close>

definition uniformCRLF :: "string \<Rightarrow> bool" where
  "uniformCRLF data = (Contains data [CR, NL] \<and> \<not> Contains (ReplaceAll data [CR, NL] []) [NL])"

definition writtenBytes :: "string \<Rightarrow> nat list \<Rightarrow> matchResult \<Rightarrow> string \<Rightarrow> string" where
  "writtenBytes data offsets m new =
     (let replacement = (if uniformCRLF data then ReplaceAll new [NL] [CR, NL] else new)
      in take (offsets ! start m) data @ replacement @ drop (offsets ! stop m) data)"

subsection \<open>Whole lines\<close>

definition splitWholeLines :: "string \<Rightarrow> string list" where
  "splitWholeLines s =
     (if s = [] then []
      else (let ls = SplitByte NL s in if last ls = [] then butlast ls else ls))"

definition wholeLinesOf :: "string \<Rightarrow> string list" where
  "wholeLinesOf s = (if splitWholeLines s \<noteq> [] then splitWholeLines s else [s])"

definition lineAt :: "string \<Rightarrow> nat \<Rightarrow> nat" where
  "lineAt content byteOffset = Count (take (min byteOffset (length content)) content) [NL]"

definition LineCount :: "string \<Rightarrow> nat" where
  "LineCount s = (if s = [] then 0 else Count s [NL] + (if HasSuffix s [NL] then 0 else 1))"

definition countLines :: "string \<Rightarrow> nat" where
  "countLines content = LineCount content"

definition WorkspaceRel :: "string \<Rightarrow> string \<Rightarrow> string" where
  "WorkspaceRel rootAbs target =
     (case Rel rootAbs target of
        None \<Rightarrow> target
      | Some rel \<Rightarrow> if rel = ''..'' \<or> HasPrefix rel (''..'' @ [SLASH]) then target else rel)"

subsection \<open>The diff of an edit\<close>

definition lineOf :: "string list \<Rightarrow> int \<Rightarrow> string option" where
  "lineOf ls i = (if 0 \<le> i \<and> i < int (length ls) then Some (ls ! nat i) else None)"

definition diffLine :: "char \<Rightarrow> int \<Rightarrow> string \<Rightarrow> string" where
  "diffLine mark no text = [mark] @ intString no @ [TAB] @ text @ [NL]"

fun allSome :: "'a option list \<Rightarrow> 'a list option" where
  "allSome [] = Some []"
| "allSome (x # xs) = (case x of None \<Rightarrow> None | Some y \<Rightarrow> map_option (\<lambda>ys. y # ys) (allSome xs))"

definition diffLines :: "char \<Rightarrow> string list \<Rightarrow> int list \<Rightarrow> string option" where
  "diffLines mark ls is = map_option concat (allSome (map (\<lambda>i. map_option (diffLine mark (i + 1)) (lineOf ls i)) is))"

definition editDiff :: "string \<Rightarrow> string \<Rightarrow> string \<Rightarrow> string \<Rightarrow> nat \<Rightarrow> int \<Rightarrow> string option" where
  "editDiff oldContent newContent oldStr newStr oldStart ctx =
     (let oldLines = SplitByte NL oldContent; newContLines = SplitByte NL newContent;
          firstLine = int (lineAt oldContent oldStart);
          lastLine = (if oldStr \<noteq> [] then max firstLine (int (lineAt oldContent (oldStart + length oldStr - 1))) else firstLine - 1);
          newStrLines = splitWholeLines newStr;
          added = int (length newStrLines);
          removed = max 0 (lastLine - firstLine + 1);
          from = max 0 (firstLine - ctx);
          newAfter = lastLine + 1 + (added - removed);
          toNew = min (newAfter + ctx - 1) (int (length newContLines) - 1)
      in Option.bind (diffLines SP oldLines [from .. firstLine - 1]) (\<lambda>before.
         Option.bind (diffLines CHR ''-'' oldLines [firstLine .. lastLine]) (\<lambda>gone.
         Option.bind (diffLines SP newContLines [newAfter .. toNew]) (\<lambda>after.
           Some (TrimRight
             (before @ gone @ concat (map (\<lambda>(j, nl). diffLine CHR ''+'' (firstLine + 1 + int j) nl) (enumerate 0 newStrLines)) @ after)
             [NL])))))"

subsection \<open>Near misses\<close>

fun firstNonBlank :: "string list \<Rightarrow> string" where
  "firstNonBlank [] = []"
| "firstNonBlank (l # ls) = (if TrimSpace l \<noteq> [] then l else firstNonBlank ls)"

definition firstNonBlankLine :: "string \<Rightarrow> string" where
  "firstNonBlankLine s = firstNonBlank (SplitByte NL s)"

fun commonPrefix :: "'a list \<Rightarrow> 'a list \<Rightarrow> nat" where
  "commonPrefix (a # as) (b # bs) = (if a = b then Suc (commonPrefix as bs) else 0)"
| "commonPrefix _ _ = 0"

definition commonPrefixRunes :: "string \<Rightarrow> string \<Rightarrow> nat" where
  "commonPrefixRunes a b = commonPrefix (runesOf a) (runesOf b)"

text \<open>The column, and the runes there; None for the end of the line.\<close>

fun runeDiff :: "nat \<Rightarrow> string list \<Rightarrow> string list \<Rightarrow> (nat \<times> string option \<times> string option) option" where
  "runeDiff i (a # as) (b # bs) = (if a \<noteq> b then Some (i + 1, Some a, Some b) else runeDiff (i + 1) as bs)"
| "runeDiff i (a # as) [] = Some (i + 1, Some a, None)"
| "runeDiff i [] (b # bs) = Some (i + 1, None, Some b)"
| "runeDiff i [] [] = None"

definition firstRuneDiff :: "string \<Rightarrow> string \<Rightarrow> (nat \<times> string option \<times> string option) option" where
  "firstRuneDiff a b = runeDiff 0 (runesOf a) (runesOf b)"

text \<open>The code point of an encoding.\<close>

definition codePoint :: "string \<Rightarrow> nat" where
  "codePoint r =
     (case map of_char r of
        [a] \<Rightarrow> a
      | [a, b] \<Rightarrow> a mod 32 * 64 + b mod 64
      | [a, b, c] \<Rightarrow> a mod 16 * 4096 + b mod 64 * 64 + c mod 64
      | [a, b, c, d] \<Rightarrow> a mod 8 * 262144 + b mod 64 * 4096 + c mod 64 * 64 + d mod 64
      | _ \<Rightarrow> 0)"

definition hexDigit :: "nat \<Rightarrow> char" where
  "hexDigit d = (if d < 10 then char_of (48 + d) else char_of (55 + d))"

fun hexUpper :: "nat \<Rightarrow> nat \<Rightarrow> string" where
  "hexUpper 0 n = []"
| "hexUpper (Suc k) n = hexUpper k (n div 16) @ [hexDigit (n mod 16)]"

definition hex4 :: "nat \<Rightarrow> string" where
  "hex4 n = hexUpper (if n < 65536 then 4 else if n < 1048576 then 5 else 6) n"

text \<open>\<open>describeRune\<close>; the first argument is \<open>strconv.QuoteRune\<close>.\<close>

definition describeRune :: "(string \<Rightarrow> string) \<Rightarrow> string option \<Rightarrow> string" where
  "describeRune q r =
     (case r of
        None \<Rightarrow> ''nothing (end of line)''
      | Some e \<Rightarrow>
          if e = [SP] then ''a space (U+0020)''
          else if e = [TAB] then ''a tab (U+0009)''
          else q e @ '' (U+'' @ hex4 (codePoint e) @ '')'')"

definition boundedEditLine :: "string \<Rightarrow> string" where
  "boundedEditLine s =
     (if length (runesOf s) > 300 then concat (take 300 (runesOf s)) @ [CHR 0xE2, CHR 0x80, CHR 0xA6] else s)"

fun bestLine :: "string \<Rightarrow> nat \<Rightarrow> (nat \<times> string) option \<Rightarrow> nat \<Rightarrow> string list \<Rightarrow> (nat \<times> string) option \<times> nat" where
  "bestLine anchor i best bestScore [] = (best, bestScore)"
| "bestLine anchor i best bestScore (fl # fls) =
     (let s = commonPrefixRunes (foldString (TrimSpace fl)) anchor in
      if s > bestScore then bestLine anchor (i + 1) (Some (i, fl)) s fls
      else bestLine anchor (i + 1) best bestScore fls)"

definition nearMissDiagnostic :: "(string \<Rightarrow> string) \<Rightarrow> string \<Rightarrow> string \<Rightarrow> string" where
  "nearMissDiagnostic q content old =
     (let anchor = firstNonBlankLine old; foldedAnchor = foldString (TrimSpace anchor) in
      if length (runesOf foldedAnchor) < 4 then []
      else
        (case bestLine foldedAnchor 0 None 0 (SplitByte NL content) of
           (None, _) \<Rightarrow> []
         | (Some (best, fileLine), bestScore) \<Rightarrow>
             if bestScore < 4 then []
             else
               ''The closest line in the file is line '' @ natString (best + 1) @ '':'' @ [NL] @ ''    '' @ boundedEditLine fileLine @
               [NL] @ ''but your '' @ [SQ] @ ''old'' @ [SQ] @ '' text has:'' @ [NL] @ ''    '' @ boundedEditLine anchor @
               (case firstRuneDiff fileLine anchor of
                  Some (col, fr, br) \<Rightarrow>
                    [NL] @ ''First difference at column '' @ natString col @ '': file has '' @ describeRune q fr @
                    '', your text has '' @ describeRune q br @ ''.'' @ [NL] @
                    ''Copy the text verbatim from read_file '' @ [CHR 0xE2, CHR 0x80, CHR 0x94] @
                    '' do not substitute smart quotes, dashes, or spaces.''
                | None \<Rightarrow>
                    [NL] @ ''The first line matches; the mismatch is on a later line or in the surrounding whitespace. '' @
                    ''Re-copy the whole block verbatim.'')))"

subsection \<open>Inserting whole lines\<close>

text \<open>The new content, the offset of the insertion in the old one and the number of lines; None when the
  line is out of range.\<close>

definition insertWholeLines :: "string \<Rightarrow> nat \<Rightarrow> string \<Rightarrow> (string \<times> nat \<times> nat) option" where
  "insertWholeLines content after ins =
     (let existing = (if content \<noteq> [] then SplitByte NL (TrimSuffix content [NL]) else []) in
      if after > length existing then None
      else
        (let block = splitWholeLines ins;
             merged = take after existing @ block @ drop after existing;
             out = Join merged [NL] @ (if HasSuffix content [NL] \<or> content = [] then [NL] else []);
             offset = (if after > 0 then length (Join (take after existing) [NL]) + 1 else 0)
         in Some (out, offset, length block)))"

subsection \<open>Reading lines\<close>

definition maxScanLine :: nat where "maxScanLine = 1024 * 1024"

text \<open>\<open>bufio.ScanLines\<close>: lines end at a newline, the last one at the end of the file; one carriage return at
  the end of a line is dropped.\<close>

definition rawLines :: "string \<Rightarrow> string list" where
  "rawLines data = splitWholeLines data"

definition dropCR :: "string \<Rightarrow> string" where
  "dropCR l = (if l \<noteq> [] \<and> last l = CR then butlast l else l)"

datatype read_error = TokenTooLong | NotUTF8

type_synonym readLine = "nat \<times> string"

fun scanLoop ::
  "nat \<Rightarrow> int \<Rightarrow> int \<Rightarrow> bool \<Rightarrow> nat \<Rightarrow> nat \<Rightarrow> readLine list \<Rightarrow> string list \<Rightarrow> read_error + readLine list \<times> bool" where
  "scanLoop maxBytes startLine limit windowed lineNo bytesOut collected [] = Inr (collected, False)"
| "scanLoop maxBytes startLine limit windowed lineNo bytesOut collected (l # ls) =
     (if length l \<ge> maxScanLine then Inl TokenTooLong
      else
        (let no = lineNo + 1; txt = dropCR l; out = bytesOut + length txt + 1 in
         if int no < startLine then scanLoop maxBytes startLine limit windowed no bytesOut collected ls
         else if limit > 0 \<and> int (length collected) \<ge> limit then Inr (collected, False)
         else if \<not> validUTF8 txt then Inl NotUTF8
         else if windowed \<and> out > maxBytes then Inr (collected, True)
         else scanLoop maxBytes startLine limit windowed no out (collected @ [(no, txt)]) ls))"

definition padLeft :: "nat \<Rightarrow> string \<Rightarrow> string" where
  "padLeft w s = replicate (w - length s) SP @ s"

definition numberedLine :: "nat \<Rightarrow> readLine \<Rightarrow> string" where
  "numberedLine width l = padLeft width (natString (fst l)) @ [TAB] @ snd l @ [NL]"

definition renderNumbered :: "readLine list \<Rightarrow> bool \<Rightarrow> string" where
  "renderNumbered collected truncated =
     (let width = length (natString (fst (last collected))) in
      TrimRight (concat (map (numberedLine width) collected)) [NL] @
      (if truncated then [NL] @ ''... (output truncated; read fewer lines with limit, or continue with a higher offset)'' else []))"

definition renderPlain :: "readLine list \<Rightarrow> bool \<Rightarrow> string" where
  "renderPlain collected truncated =
     Join (map snd collected) [NL] @
     (if truncated then [NL] @ ''... (output truncated; continue with a higher offset)'' else [])"

subsection \<open>Specification vocabulary\<close>

text \<open>The lines after an insertion.\<close>

definition insertedLines :: "string list \<Rightarrow> nat \<Rightarrow> string list \<Rightarrow> string list" where
  "insertedLines ls k block = take k ls @ block @ drop k ls"

text \<open>A numbered line without its newline.\<close>

definition numberedText :: "nat \<Rightarrow> readLine \<Rightarrow> string" where
  "numberedText width l = padLeft width (natString (fst l)) @ [TAB] @ snd l"

text \<open>An occurrence of a string at a position.\<close>

definition occursAt :: "string \<Rightarrow> nat \<Rightarrow> string \<Rightarrow> bool" where
  "occursAt s i p = (take (length p) (drop i s) = p \<and> i + length p \<le> length s)"

text \<open>A list of complete encodings.\<close>

definition isRune :: "string \<Rightarrow> bool" where
  "isRune r = (r \<noteq> [] \<and> runeLen r = length r)"

subsection \<open>Facts: lines\<close>

lemma Count_byte: "Count s [c] = count_list s c"
proof (induction "length s" arbitrary: s rule: less_induct)
  case less
  have idx: "Index t [c] = None \<longleftrightarrow> c \<notin> set t"
    "Index t [c] = Some i \<Longrightarrow> count_list t c = Suc (count_list (drop (Suc i) t) c) \<and> i < length t" for t i
    by (induction t arbitrary: i) auto
  show ?case
  proof (cases "Index s [c]")
    case None
    then show ?thesis using idx(1) [of s] by (subst Count.simps) (simp add: count_list_0_iff)
  next
    case (Some i)
    then have "length (drop (Suc i) s) < length s" using idx(2) [OF Some] by auto
    then show ?thesis using idx(2) [OF Some] less [of "drop (Suc i) s"] Some by (subst Count.simps) simp
  qed
qed

lemma length_SplitByte: "length (SplitByte b s) = Suc (count_list s b)"
  by (induction b s rule: SplitByte.induct) (auto split: list.splits)

lemma last_SplitByte: "s \<noteq> [] \<Longrightarrow> last (SplitByte b s) = [] \<longleftrightarrow> last s = b"
proof (induction b s rule: SplitByte.induct)
  case (2 b c s)
  show ?case
  proof (cases "s = []")
    case False
    moreover have "SplitByte b s \<noteq> [[]]" using False Join_SplitByte [of b s] by auto
    ultimately show ?thesis using "2.IH" SplitByte_ne [of b s] by (auto split: list.splits)
  qed simp
qed simp

lemma HasSuffix_byte: "HasSuffix s [b] \<longleftrightarrow> s \<noteq> [] \<and> last s = b"
  by (cases s rule: rev_cases) (auto simp: HasSuffix_def)

lemma LineCount_lines: "LineCount s = length (splitWholeLines s)"
  by (auto simp: LineCount_def splitWholeLines_def Let_def Count_byte length_SplitByte HasSuffix_byte last_SplitByte)

lemma splitWholeLines_noNL: "l \<in> set (splitWholeLines s) \<Longrightarrow> NL \<notin> set l"
  by (auto simp: splitWholeLines_def Let_def split: if_splits dest!: SplitByte_comp in_set_butlastD)

lemma splitWholeLines_snoc: "splitWholeLines (s @ [NL]) = SplitByte NL s"
  by (simp add: splitWholeLines_def SplitByte_snoc)

lemma splitWholeLines_Join:
  "ls \<noteq> [] \<Longrightarrow> list_all (\<lambda>l. NL \<notin> set l) ls \<Longrightarrow> splitWholeLines (Join ls [NL] @ [NL]) = ls"
  by (simp add: splitWholeLines_snoc SplitByte_Join)

lemma Join_ne_lines: "last ls \<noteq> [] \<Longrightarrow> ls \<noteq> [] \<Longrightarrow> Join ls sep \<noteq> []"
  by (induction ls sep rule: Join.induct) auto

lemma splitWholeLines_Join_open:
  "ls \<noteq> [] \<Longrightarrow> list_all (\<lambda>l. NL \<notin> set l) ls \<Longrightarrow> last ls \<noteq> [] \<Longrightarrow> splitWholeLines (Join ls [NL]) = ls"
  using Join_ne_lines [of ls "[NL]"] by (simp add: splitWholeLines_def SplitByte_Join)

lemma splitWholeLines_empty: "splitWholeLines s = [] \<longleftrightarrow> s = []"
proof
  assume e: "splitWholeLines s = []"
  show "s = []"
  proof (rule ccontr)
    assume "s \<noteq> []"
    with e have "butlast (SplitByte NL s) = []" "last (SplitByte NL s) = []"
      using SplitByte_ne [of NL s] by (auto simp: splitWholeLines_def Let_def split: if_splits)
    then have "SplitByte NL s = [[]]" using append_butlast_last_id [OF SplitByte_ne [of NL s]] by simp
    then show False using Join_SplitByte [of NL s] \<open>s \<noteq> []\<close> by simp
  qed
qed (simp add: splitWholeLines_def)

lemma last_Join: "ls \<noteq> [] \<Longrightarrow> last ls \<noteq> [] \<Longrightarrow> last (Join ls sep) = last (last ls)"
  by (induction ls sep rule: Join.induct) (auto simp: Join_ne_lines)

lemma existing_lines:
  "content \<noteq> [] \<Longrightarrow> SplitByte NL (TrimSuffix content [NL]) = splitWholeLines content"
proof (cases content rule: rev_cases)
  case (snoc s c)
  then show ?thesis
    by (cases "c = NL")
       (simp_all add: TrimSuffix_def HasSuffix_byte splitWholeLines_snoc splitWholeLines_def [of "s @ [c]"] last_SplitByte)
qed simp

lemma splitWholeLines_terminated:
  "ins \<noteq> [] \<Longrightarrow> splitWholeLines (if HasSuffix ins [NL] then ins else ins @ [NL]) = splitWholeLines ins"
  using last_SplitByte [of ins NL] by (auto simp: HasSuffix_byte splitWholeLines_snoc) (simp add: splitWholeLines_def)

lemma count_list_take: "count_list (take k s) c \<le> count_list s c"
  by (metis append_take_drop_id count_list_append le_add1)

lemma lineAt_less: "lineAt content k < length (SplitByte NL content)"
  using count_list_take [of _ content NL] by (simp add: lineAt_def Count_byte length_SplitByte less_Suc_eq_le)

lemma allSome_total: "\<forall>x \<in> set xs. x \<noteq> None \<Longrightarrow> \<exists>ys. allSome xs = Some ys"
  by (induction xs) auto

lemma diffLines_total: "\<forall>i \<in> set is. 0 \<le> i \<and> i < int (length ls) \<Longrightarrow> \<exists>d. diffLines mark ls is = Some d"
  using allSome_total [of "map (\<lambda>i. map_option (diffLine mark (i + 1)) (lineOf ls i)) is"]
  by (auto simp: diffLines_def lineOf_def)

text \<open>Rendering the diff of an edit never indexes a line that is not there, whatever the two texts, the
  replaced span, the position and the context are.\<close>

theorem editDiff_total: "\<exists>d. editDiff oldContent newContent oldStr newStr oldStart ctx = Some d"
proof -
  let ?first = "int (lineAt oldContent oldStart)"
  let ?last = "if oldStr \<noteq> [] then max ?first (int (lineAt oldContent (oldStart + length oldStr - 1))) else ?first - 1"
  let ?n = "int (length (splitWholeLines newStr))"
  let ?after = "?last + 1 + (?n - max 0 (?last - ?first + 1))"
  let ?to = "min (?after + ctx - 1) (int (length (SplitByte NL newContent)) - 1)"
  have l: "?first < int (length (SplitByte NL oldContent))" "?last < int (length (SplitByte NL oldContent))"
    using lineAt_less [of oldContent oldStart] lineAt_less [of oldContent "oldStart + length oldStr - 1"] by auto
  have after: "0 \<le> ?after" by auto
  obtain a where a: "diffLines SP (SplitByte NL oldContent) [max 0 (?first - ctx)..?first - 1] = Some a"
    using diffLines_total [of "[max 0 (?first - ctx)..?first - 1]" "SplitByte NL oldContent"] l by fastforce
  obtain b where b: "diffLines CHR ''-'' (SplitByte NL oldContent) [?first..?last] = Some b"
    using diffLines_total [of "[?first..?last]" "SplitByte NL oldContent"] l by fastforce
  obtain c where c: "diffLines SP (SplitByte NL newContent) [?after..?to] = Some c"
    using diffLines_total [of "[?after..?to]" "SplitByte NL newContent"] after by fastforce
  show ?thesis unfolding editDiff_def Let_def a b c by simp
qed

lemma insertWholeLines_unfold:
  "insertWholeLines content k ins =
     (let ex = splitWholeLines content; merged = insertedLines ex k (splitWholeLines ins) in
      if k > length ex then None
      else Some (Join merged [NL] @ (if HasSuffix content [NL] \<or> content = [] then [NL] else []),
                 if k > 0 then length (Join (take k ex) [NL]) + 1 else 0, length (splitWholeLines ins)))"
proof -
  have "(if content \<noteq> [] then SplitByte NL (TrimSuffix content [NL]) else []) = splitWholeLines content"
    using existing_lines [of content] by (auto simp: splitWholeLines_def)
  then show ?thesis unfolding insertWholeLines_def by (simp add: Let_def insertedLines_def)
qed

lemma insertWholeLines_lines:
  assumes "ins \<noteq> []"
    and "HasSuffix content [NL] \<or> content = [] \<or> k < LineCount content \<or> last (splitWholeLines ins) \<noteq> []"
  shows "case insertWholeLines content k ins of
           None \<Rightarrow> LineCount content < k
         | Some (out, offset, n) \<Rightarrow>
             k \<le> LineCount content \<and>
             splitWholeLines out = take k (splitWholeLines content) @ splitWholeLines ins @ drop k (splitWholeLines content) \<and>
             n = length (splitWholeLines ins) \<and>
             (HasSuffix out [NL] \<longleftrightarrow> HasSuffix content [NL] \<or> content = [])"
proof (cases "LineCount content < k")
  case True
  then show ?thesis by (simp add: insertWholeLines_unfold Let_def LineCount_lines)
next
  case False
  let ?ex = "splitWholeLines content" and ?b = "splitWholeLines ins"
  let ?m = "insertedLines ?ex k ?b" and ?fin = "HasSuffix content [NL] \<or> content = []"
  let ?out = "Join ?m [NL] @ (if ?fin then [NL] else [])"
  have b: "?b \<noteq> []" using assms(1) by (simp add: splitWholeLines_empty)
  have nl: "list_all (\<lambda>l. NL \<notin> set l) ?m"
    by (auto simp: insertedLines_def list_all_iff dest: splitWholeLines_noNL in_set_takeD in_set_dropD)
  have m: "?m \<noteq> []" using b by (simp add: insertedLines_def)
  have lst: "last ?m \<noteq> []" if notfin: "\<not> ?fin"
  proof (cases "k < LineCount content")
    case True
    have "last ?ex \<noteq> []" using notfin last_SplitByte [of content NL] by (auto simp: splitWholeLines_def Let_def HasSuffix_byte)
    with True show ?thesis by (simp add: insertedLines_def LineCount_lines last_drop)
  next
    case False
    with assms(2) notfin b show ?thesis by (simp add: insertedLines_def LineCount_lines)
  qed
  have "splitWholeLines ?out = ?m"
    using splitWholeLines_Join [OF m nl] splitWholeLines_Join_open [OF m nl lst] by simp
  moreover have "HasSuffix ?out [NL] \<longleftrightarrow> ?fin"
    using last_Join [OF m lst, of "[NL]"] lst nl last_in_set [OF m] last_in_set [of "last ?m"]
    by (auto simp: HasSuffix_byte list_all_iff)
  ultimately show ?thesis
    using False by (simp add: insertWholeLines_unfold Let_def LineCount_lines insertedLines_def)
qed

text \<open>Inserting whole lines after line \<open>k\<close> is refused exactly when the file has fewer lines; otherwise the
  lines of the result, as a read numbers them, are the first \<open>k\<close> lines, the inserted ones and the rest,
  and a final newline is kept as it was.  The exception is a blank line inserted at the end of a file
  without a final newline.\<close>

theorem insertWholeLines_correct:
  assumes "ins \<noteq> []"
    and "HasSuffix content [NL] \<or> content = [] \<or> k < LineCount content \<or> last (splitWholeLines ins) \<noteq> []"
  shows "case insertWholeLines content k ins of
           None \<Rightarrow> LineCount content < k
         | Some (out, offset, n) \<Rightarrow>
             k \<le> LineCount content \<and>
             splitWholeLines out = take k (splitWholeLines content) @ splitWholeLines ins @ drop k (splitWholeLines content) \<and>
             n = length (splitWholeLines ins) \<and>
             (HasSuffix out [NL] \<longleftrightarrow> HasSuffix content [NL] \<or> content = [])"
  using assms by (rule insertWholeLines_lines)

theorem insertWholeLines_correct_witness:
  "splitWholeLines (fst (the (insertWholeLines (''a'' @ [NL] @ ''b'') 1 (''x'' @ [NL])))) = [''a'', ''x'', ''b'']"
proof -
  have p: "insertWholeLines (''a'' @ [NL] @ ''b'') 1 (''x'' @ [NL]) = Some (''a'' @ [NL] @ ''x'' @ [NL] @ ''b'', 2, 1)"
    "splitWholeLines (''a'' @ [NL] @ ''b'') = [''a'', ''b'']" "splitWholeLines (''x'' @ [NL]) = [''x'']"
    "LineCount (''a'' @ [NL] @ ''b'') = 2" by code_simp+
  from insertWholeLines_correct [of "''x'' @ [NL]" "''a'' @ [NL] @ ''b''" 1] show ?thesis
    unfolding p by simp
qed

text \<open>A blank line inserted after the last line of a file that has no final newline leaves the number of
  lines as it was, although one inserted line is reported.\<close>

theorem insert_blank_line_lost:
  "insertWholeLines ''a'' 1 [NL] = Some (''a'' @ [NL], 2, 1) \<and> LineCount (''a'' @ [NL]) = LineCount ''a''"
  by code_simp

subsection \<open>Facts: line numbers\<close>

lemma digitChar_isDigit: "d < 10 \<Longrightarrow> isDigitByte (digitChar d)"
  by (simp add: isDigitByte_def byteIn_def digitChar_def)

lemma natString_digits: "natString n \<noteq> [] \<and> list_all isDigitByte (natString n)"
proof (induction n rule: natString.induct)
  case (1 n)
  then show ?case by (subst (1 2) natString.simps) (auto simp: digitChar_isDigit)
qed

lemma digit_not_NL: "isDigitByte c \<Longrightarrow> c \<noteq> NL \<and> c \<noteq> SP"
  by (auto simp: isDigitByte_def byteIn_def)

lemma isDigitByte_SP_TAB [simp]: "\<not> isDigitByte SP" "\<not> isDigitByte TAB"
  by (auto simp: isDigitByte_def byteIn_def)

lemma prefixLen_numbered:
  assumes "list_all (\<lambda>c. c = SP) ps" "list_all isDigitByte ds" "ds \<noteq> []"
  shows "lineNumberPrefixLen (ps @ ds @ [TAB] @ t) = length ps + length ds + 1"
proof -
  have hd: "hd ds \<noteq> SP" using assms digit_not_NL by (cases ds) auto
  have "takeWhile (\<lambda>c. c = SP) (ps @ ds @ [TAB] @ t) = ps" "dropWhile (\<lambda>c. c = SP) (ps @ ds @ [TAB] @ t) = ds @ [TAB] @ t"
    using assms hd by (cases ds; auto simp: list_all_iff takeWhile_append2 dropWhile_append2)+
  moreover have "takeWhile isDigitByte (ds @ [TAB] @ t) = ds" "dropWhile isDigitByte (ds @ [TAB] @ t) = [TAB] @ t"
    using assms by (auto simp: list_all_iff takeWhile_append2 dropWhile_append2)
  ultimately show ?thesis using assms(3) by (simp add: lineNumberPrefixLen_def Let_def)
qed

lemma numberedLine_text: "numberedLine w l = numberedText w l @ [NL]"
  by (simp add: numberedLine_def numberedText_def)

lemma numberedText_prefix:
  "lineNumberPrefixLen (numberedText w l) \<noteq> 0"
  "drop (lineNumberPrefixLen (numberedText w l)) (numberedText w l) = snd l"
proof -
  let ?ps = "replicate (w - length (natString (fst l))) SP" and ?ds = "natString (fst l)"
  have t: "numberedText w l = ?ps @ ?ds @ [TAB] @ snd l" by (simp add: numberedText_def padLeft_def)
  have p: "lineNumberPrefixLen (numberedText w l) = length ?ps + length ?ds + 1"
    unfolding t using natString_digits [of "fst l"] by (intro prefixLen_numbered) (auto simp: list_all_iff)
  then show "lineNumberPrefixLen (numberedText w l) \<noteq> 0"
    "drop (lineNumberPrefixLen (numberedText w l)) (numberedText w l) = snd l"
    unfolding t by simp_all
qed

lemma numberedText_noNL: "NL \<notin> set (snd l) \<Longrightarrow> NL \<notin> set (numberedText w l)"
  using natString_digits [of "fst l"] digit_not_NL
  by (auto simp: numberedText_def padLeft_def list_all_iff)

lemma numberedText_ne: "numberedText w l \<noteq> []"
  by (simp add: numberedText_def)

lemma concat_lines: "ls \<noteq> [] \<Longrightarrow> concat (map (\<lambda>l. f l @ [NL]) ls) = Join (map f ls) [NL] @ [NL]"
proof (induction ls)
  case (Cons l ls)
  then show ?case by (cases ls) auto
qed simp

lemma TrimRight_snoc: "TrimRight (s @ [c]) [c] = TrimRight s [c]"
  by (simp add: TrimRight_def)

lemma TrimRight_id: "s \<noteq> [] \<Longrightarrow> last s \<notin> set cs \<Longrightarrow> TrimRight s cs = s"
  by (cases s rule: rev_cases) (auto simp: TrimRight_def)

lemma renderNumbered_Join:
  assumes "ls \<noteq> []" "list_all (\<lambda>l. NL \<notin> set (snd l)) ls"
  shows "renderNumbered ls False = Join (map (numberedText (length (natString (fst (last ls))))) ls) [NL]"
proof -
  let ?f = "numberedText (length (natString (fst (last ls))))"
  let ?j = "Join (map ?f ls) [NL]"
  have lst: "last (map ?f ls) = ?f (last ls)" using assms(1) by (simp add: last_map)
  have "last ?j = last (?f (last ls))"
    using last_Join [of "map ?f ls" "[NL]"] assms(1) lst numberedText_ne by auto
  moreover have "NL \<notin> set (?f (last ls))" using assms by (auto simp: list_all_iff intro!: numberedText_noNL)
  ultimately have "last ?j \<noteq> NL" using last_in_set [OF numberedText_ne] by metis
  moreover have "?j \<noteq> []" using Join_ne_lines [of "map ?f ls" "[NL]"] assms(1) lst numberedText_ne by auto
  ultimately show ?thesis
    using assms(1) by (simp add: renderNumbered_def numberedLine_text [abs_def] concat_lines TrimRight_snoc TrimRight_id)
qed

lemma numbered_strips:
  assumes "ls \<noteq> []" "list_all (\<lambda>l. NL \<notin> set (snd l)) ls"
  shows "stripLineNumberPrefixes (renderNumbered ls False) = (renderPlain ls False, True)"
proof -
  let ?f = "numberedText (length (natString (fst (last ls))))"
  have "SplitByte NL (renderNumbered ls False) = map ?f ls"
    unfolding renderNumbered_Join [OF assms] using assms
    by (intro SplitByte_Join) (auto simp: list_all_iff numberedText_noNL)
  moreover have "\<exists>a b. (a, b) \<in> set ls" using last_in_set [OF assms(1)] by (metis surj_pair)
  ultimately show ?thesis
    by (simp add: stripLineNumberPrefixes_def Let_def list_ex_iff numberedText_prefix numberedText_ne renderPlain_def comp_def)
qed

text \<open>The display of a read and the prefix stripping of an edit are inverse: stripping the numbered lines
  a read shows gives back the text of those lines, joined by newlines, whatever the numbers and the
  texts are.\<close>

theorem numbered_read_strips:
  assumes "ls \<noteq> []" "list_all (\<lambda>l. NL \<notin> set (snd l)) ls"
  shows "stripLineNumberPrefixes (renderNumbered ls False) = (renderPlain ls False, True)"
  using assms by (rule numbered_strips)

theorem numbered_read_strips_witness:
  "stripLineNumberPrefixes ('' 9'' @ [TAB] @ ''a'' @ [NL] @ ''10'' @ [TAB]) = (''a'' @ [NL], True)"
proof -
  have "renderNumbered [(9, ''a''), (10, [])] False = '' 9'' @ [TAB] @ ''a'' @ [NL] @ ''10'' @ [TAB]"
    "renderPlain [(9, ''a''), (10, [])] False = ''a'' @ [NL]" by code_simp+
  then show ?thesis using numbered_read_strips [of "[(9, ''a''), (10, [])]"] by simp
qed

subsection \<open>Facts: counting occurrences\<close>

lemma occursAt_append: "occursAt (a @ p @ b) (length a) p"
  by (simp add: occursAt_def)

lemma occursAt_decomp: "occursAt s i p \<Longrightarrow> s = take i s @ p @ drop (i + length p) s"
  by (metis append_take_drop_id drop_drop add.commute occursAt_def)

lemma Index_occurs: "Index s p = Some i \<Longrightarrow> occursAt s i p"
  using Index_Some [of s p i] by (metis occursAt_append length_take min.absorb2 add_leD1)

lemma Index_least: "Index s p = Some i \<Longrightarrow> occursAt s j p \<Longrightarrow> i \<le> j"
proof (induction s p arbitrary: i j rule: Index.induct)
  case (2 c s p)
  show ?case
  proof (cases j)
    case 0
    then have "HasPrefix (c # s) p" using "2.prems"(2) by (auto simp: occursAt_def HasPrefix_iff prefix_def) (metis append_take_drop_id)
    then show ?thesis using "2.prems"(1) by simp
  next
    case (Suc k)
    then show ?thesis using "2.prems" "2.IH" [of _ k] by (auto simp: occursAt_def split: if_splits)
  qed
qed (auto split: if_splits)

lemma occursAt_sublist: "occursAt s i p \<Longrightarrow> sublist p s"
  using occursAt_decomp sublist_def by blast

lemma occursAt_drop: "occursAt s j p \<Longrightarrow> k \<le> j \<Longrightarrow> occursAt (drop k s) (j - k) p"
  by (auto simp: occursAt_def)

lemma Count_0: "p \<noteq> [] \<Longrightarrow> Count s p = 0 \<longleftrightarrow> \<not> sublist p s"
  by (subst Count.simps) (auto simp: Index_None [symmetric] split: option.splits)

lemma Count_1:
  assumes "p \<noteq> []" "Count s p = 1"
  shows "Index s p = Some (indexOf s p)" "occursAt s (indexOf s p) p"
    "\<And>j. occursAt s j p \<Longrightarrow> indexOf s p \<le> j \<and> j < indexOf s p + length p"
proof -
  obtain i where i: "Index s p = Some i" "Count (drop (i + length p) s) p = 0"
    using assms by (subst (asm) Count.simps) (auto split: option.splits)
  then have ix: "indexOf s p = i" by (simp add: indexOf_def)
  show "Index s p = Some (indexOf s p)" "occursAt s (indexOf s p) p" using i ix Index_occurs by auto
  show "indexOf s p \<le> j \<and> j < indexOf s p + length p" if o: "occursAt s j p" for j
  proof -
    have "j < i + length p"
    proof (rule ccontr)
      assume "\<not> j < i + length p"
      then have "occursAt (drop (i + length p) s) (j - (i + length p)) p" using occursAt_drop [OF o] by simp
      then show False using i(2) assms(1) Count_0 occursAt_sublist by blast
    qed
    then show ?thesis using Index_least [OF i(1) o] ix by simp
  qed
qed

subsection \<open>Facts: runes and folding\<close>

lemma isRune_take: "runeLen s \<noteq> 0 \<Longrightarrow> isRune (take (runeLen s) s)"
  using runeLen_take_self [of s] runeLen_le [of s] by (auto simp: isRune_def)

lemma runesOf_step: "isRune r \<Longrightarrow> runesOf (r @ s) = r # runesOf s"
proof -
  assume r: "isRune r"
  then have "runeLen (r @ s) = length r" using runeLen_append [of r s] by (auto simp: isRune_def)
  then show ?thesis using r by (cases r) (auto simp: isRune_def)
qed

lemma runesOf_concat: "list_all isRune rs \<Longrightarrow> runesOf (concat rs) = rs"
  by (induction rs) (simp_all add: runesOf_step)

lemma runesOf_valid: "validUTF8 s \<Longrightarrow> concat (runesOf s) = s \<and> list_all isRune (runesOf s)"
proof (induction s rule: runesOf.induct)
  case (2 c s)
  then have r: "runeLen (c # s) \<noteq> 0" using validUTF8_runeLen by blast
  moreover have "validUTF8 (drop (runeLen (c # s)) (c # s))" using validUTF8_step [OF r] "2.prems" by simp
  ultimately show ?case using "2.IH"(2) isRune_take [OF r] append_take_drop_id [of "runeLen (c # s)" "c # s"] by simp
qed simp

lemma isRune_bytes: "isRune r \<Longrightarrow> RuneStart (hd r) \<and> (\<forall>j. 0 < j \<longrightarrow> j < length r \<longrightarrow> \<not> RuneStart (r ! j))"
  using runeLen_hd [of "hd r" "tl r"] runeLen_cont [of _ r] by (cases r) (auto simp: isRune_def RuneStart_def)

lemma valid_concat: "list_all isRune rs \<Longrightarrow> validUTF8 (concat rs)"
proof (induction rs)
  case (Cons r rs)
  then have "runeLen (r @ concat rs) = length r" using runeLen_append [of r "concat rs"] by (auto simp: isRune_def)
  then show ?case using Cons validUTF8_step [of "r @ concat rs"] by (auto simp: isRune_def)
qed (simp add: validUTF8.simps)

lemma validUTF8_cancel: "validUTF8 a \<Longrightarrow> validUTF8 (a @ b) \<Longrightarrow> validUTF8 b"
proof (induction a rule: validUTF8.induct)
  case (1 a)
  show ?case
  proof (cases "a = []")
    case False
    then have r: "runeLen a \<noteq> 0" using "1.prems" validUTF8_runeLen by blast
    then have e: "runeLen (a @ b) = runeLen a" by (rule runeLen_append)
    have "validUTF8 (drop (runeLen a) a)" using "1.prems"(1) validUTF8_step [OF r] by simp
    moreover have "validUTF8 (drop (runeLen a) a @ b)"
      using "1.prems"(2) validUTF8_step [of "a @ b"] r e runeLen_le [of a] by simp
    ultimately show ?thesis using "1.IH" False r by blast
  qed (use "1.prems" in simp)
qed

lemma validUTF8_hd: "validUTF8 s \<Longrightarrow> s \<noteq> [] \<Longrightarrow> RuneStart (hd s)"
  using validUTF8_runeLen [of s] runeLen_hd [of "hd s" "tl s"] by (cases s) auto

lemma isRune_foldRune: "isRune r \<Longrightarrow> isRune (foldRune r)"
proof -
  have "isRune [DQ]" "isRune [SQ]" "isRune ''-''" "isRune [SP]" by code_simp+
  then show "isRune r \<Longrightarrow> isRune (foldRune r)" by (simp add: foldRune_def)
qed

lemma foldString_concat: "list_all isRune rs \<Longrightarrow> foldString (concat rs) = concat (map foldRune rs)"
  by (simp add: foldString_def runesOf_concat)

lemma foldLoop_runes:
  "list_all isRune rs \<Longrightarrow> j \<le> length rs \<Longrightarrow>
     fst (foldLoop i (concat rs)) = concat (map foldRune rs) \<and>
     (snd (foldLoop i (concat rs)) @ [i + length (concat rs)]) ! length (concat (map foldRune (take j rs))) =
       i + length (concat (take j rs)) \<and>
     length (snd (foldLoop i (concat rs))) = length (concat (map foldRune rs))"
proof (induction rs arbitrary: i j)
  case (Cons r rs)
  let ?s = "r @ concat rs" and ?i = "i + length r"
  have r: "isRune r" "r \<noteq> []" using Cons.prems by (auto simp: isRune_def)
  then have w: "runeLen ?s = length r" using runeLen_append [of r "concat rs"] by (auto simp: isRune_def)
  obtain c t where ct: "?s = c # t" using r by (cases ?s) auto
  have "Suc 0 \<le> length r" using r by (simp add: Suc_le_eq)
  then have w1: "max 1 (runeLen (c # t)) = length r" "drop (length r) (c # t) = concat rs" "hd (runesOf (c # t)) = r"
    using w runesOf_step [OF r(1), of "concat rs"] unfolding ct [symmetric] by (auto simp: max_def)
  have step: "foldLoop i ?s =
      (foldRune r @ fst (foldLoop ?i (concat rs)), replicate (length (foldRune r)) i @ snd (foldLoop ?i (concat rs)))"
    unfolding ct foldLoop.simps w1 Let_def by (simp add: case_prod_unfold)
  have fr: "foldRune r \<noteq> []" using isRune_foldRune [OF r(1)] by (simp add: isRune_def)
  show ?case
  proof (cases j)
    case 0
    have "(replicate (length (foldRune r)) i @ xs) ! 0 = i" for xs using fr by (cases "length (foldRune r)") auto
    then show ?thesis using Cons.IH [of 0 ?i] Cons.prems step 0 by simp
  next
    case (Suc k)
    then show ?thesis using Cons.IH [of k ?i] Cons.prems step by (auto simp: nth_append add.assoc split: if_splits)
  qed
qed simp

lemma boundary_exists:
  "list_all isRune fs \<Longrightarrow> k \<le> length (concat fs) \<Longrightarrow> k < length (concat fs) \<longrightarrow> RuneStart (concat fs ! k) \<Longrightarrow>
     \<exists>j \<le> length fs. k = length (concat (take j fs))"
proof (induction fs arbitrary: k)
  case (Cons r fs)
  have r: "isRune r" using Cons.prems by simp
  consider "k = 0" | "0 < k" "k < length r" | "length r \<le> k" by linarith
  then show ?case
  proof cases
    case 1
    then show ?thesis by (intro exI [of _ 0]) simp
  next
    case 2
    then have "RuneStart (r ! k)" using Cons.prems(3) by (simp add: nth_append)
    then show ?thesis using isRune_bytes [OF r] 2 by blast
  next
    case 3
    then have "k - length r \<le> length (concat fs)" using Cons.prems(2) by simp
    then obtain j where "j \<le> length fs" "k - length r = length (concat (take j fs))"
      using Cons.IH [of "k - length r"] Cons.prems 3 by (auto simp: nth_append)
    then show ?thesis using 3 by (intro exI [of _ "Suc j"]) simp
  qed
qed simp

lemma take_drop_concat:
  "i \<le> j \<Longrightarrow> take (length (concat (take j rs)) - length (concat (take i rs))) (drop (length (concat (take i rs))) (concat rs)) =
     concat (drop i (take j rs))"
proof -
  assume "i \<le> j"
  then have "rs = take i rs @ drop i (take j rs) @ drop j rs" "take j rs = take i rs @ drop i (take j rs)"
    by (metis append_take_drop_id append.assoc min.absorb1 take_take)+
  then have c: "concat rs = concat (take i rs) @ concat (drop i (take j rs)) @ concat (drop j rs)"
    "concat (take j rs) = concat (take i rs) @ concat (drop i (take j rs))" by (metis concat_append)+
  show ?thesis unfolding c(1) c(2) by simp
qed

lemma concat_take_mono: "i \<le> j \<Longrightarrow> length (concat (take i rs)) \<le> length (concat (take j rs))"
  by (metis concat_append le_add1 length_append min.absorb1 take_append take_take append_take_drop_id)

text \<open>The tolerant tier selects whole runes whose fold is the fold of the searched text.\<close>

lemma locateFolded_sound:
  assumes "validUTF8 content" "validUTF8 old" "old \<noteq> []" "found (locateFolded content old)"
  defines "m \<equiv> locateFolded content old"
  shows "start m \<le> stop m" "stop m \<le> length content" "matched m = take (stop m - start m) (drop (start m) content)"
    "foldString (matched m) = foldString old" "tolerant m"
proof -
  let ?rs = "runesOf content" and ?F = "foldString content" and ?o = "foldString old"
  let ?fs = "map foldRune ?rs" and ?offs = "snd (foldWithMap content)"
  have rs: "concat ?rs = content" "list_all isRune ?rs" "list_all isRune (runesOf old)" "concat (runesOf old) = old"
    using runesOf_valid assms(1,2) by auto
  have fs: "list_all isRune ?fs" "concat ?fs = ?F" using rs(2) by (auto simp: list_all_iff isRune_foldRune foldString_def)
  have vF: "validUTF8 ?F" using valid_concat [OF fs(1)] fs(2) by simp
  have vo: "validUTF8 ?o" "?o \<noteq> []"
    using valid_concat [of "map foldRune (runesOf old)"] rs(3,4) assms(3) isRune_foldRune
    by (auto simp: foldString_def list_all_iff isRune_def)
  have fw: "fst (foldWithMap content) = ?F"
    "\<And>j. j \<le> length ?rs \<Longrightarrow> ?offs ! length (concat (take j ?fs)) = length (concat (take j ?rs))"
    using foldLoop_runes [OF rs(2), of _ 0] rs(1) fs(2) by (auto simp: foldWithMap_def case_prod_unfold Let_def take_map)
  have C: "Count ?F ?o = 1" using assms(4) fw(1)
    by (auto simp: locateFolded_def case_prod_unfold Let_def noMatch_def split: if_splits)
  let ?n = "indexOf ?F ?o"
  have occ: "occursAt ?F ?n ?o" by (rule Count_1(2) [OF vo(2) C])
  have "?F ! ?n = hd ?o" using occ vo(2) occursAt_decomp [OF occ] by (metis append_is_Nil_conv hd_append2 hd_drop_conv_nth occursAt_def drop_eq_Nil hd_take length_greater_0_conv linorder_not_le take_eq_Nil)
  then have b1: "RuneStart (?F ! ?n)" using validUTF8_hd [OF vo] by simp
  have nl: "?n < length ?F" "?n + length ?o \<le> length ?F" using occ vo(2) by (auto simp: occursAt_def) (metis length_greater_0_conv less_le_trans less_add_same_cancel1)
  have "validUTF8 (drop ?n ?F)" using validUTF8_drop [OF vF] nl b1 by blast
  moreover have "drop ?n ?F = ?o @ drop (?n + length ?o) ?F"
    using occ by (metis append_take_drop_id drop_drop add.commute occursAt_def)
  ultimately have "validUTF8 (drop (?n + length ?o) ?F)" using validUTF8_cancel [OF vo(1)] by simp
  then have b2: "?n + length ?o < length ?F \<longrightarrow> RuneStart (?F ! (?n + length ?o))"
    using validUTF8_hd by (metis drop_eq_Nil hd_drop_conv_nth linorder_not_le)
  obtain i where i: "i \<le> length ?rs" "?n = length (concat (take i ?fs))"
    using boundary_exists [OF fs(1), of ?n] fs(2) nl b1 by auto
  obtain j where j: "j \<le> length ?rs" "?n + length ?o = length (concat (take j ?fs))"
    using boundary_exists [OF fs(1), of "?n + length ?o"] fs(2) nl b2 by auto
  have ij: "i \<le> j" using concat_take_mono [of j i ?fs] i j vo(2) by (metis add_le_same_cancel1 le_zero_eq length_0_conv nat_le_linear)
  have m: "start m = length (concat (take i ?rs))" "stop m = length (concat (take j ?rs))" "tolerant m"
    "matched m = take (stop m - start m) (drop (start m) content)"
    using C fw(1) fw(2) [OF i(1)] fw(2) [OF j(1)] i(2) j(2)
    by (auto simp: m_def locateFolded_def case_prod_unfold Let_def noMatch_def)
  have mt: "matched m = concat (drop i (take j ?rs))" using m take_drop_concat [OF ij, of ?rs] rs(1) by simp
  show "start m \<le> stop m" using concat_take_mono [OF ij] m by simp
  show "stop m \<le> length content" using m rs(1) by (metis concat_append append_take_drop_id le_add1 length_append)
  show "matched m = take (stop m - start m) (drop (start m) content)" "tolerant m" by (fact m)+
  have "list_all isRune (drop i (take j ?rs))" using rs(2) by (auto simp: list_all_iff dest: in_set_dropD in_set_takeD)
  then have "foldString (matched m) = concat (drop i (take j ?fs))"
    by (simp add: mt foldString_concat drop_map take_map)
  also have "\<dots> = take (length ?o) (drop ?n ?F)"
    using take_drop_concat [OF ij, of ?fs] i j fs(2) by (metis add_diff_cancel_left')
  finally show "foldString (matched m) = ?o" using occ by (simp add: occursAt_def)
qed

lemma locateEdit_span:
  assumes "validUTF8 content" "validUTF8 old" "old \<noteq> []" "fst (stripLineNumberPrefixes old) \<noteq> []"
    "found (locateEdit content old)"
  defines "m \<equiv> locateEdit content old"
  shows "start m \<le> stop m \<and> stop m \<le> length content \<and> matched m = take (stop m - start m) (drop (start m) content) \<and>
     (if \<not> tolerant m then matched m = old
      else matched m = fst (stripLineNumberPrefixes old) \<or> foldString (matched m) = foldString old)"
proof -
  let ?p = "fst (stripLineNumberPrefixes old)"
  have at: "start r \<le> stop r \<and> stop r \<le> length content \<and> matched r = take (stop r - start r) (drop (start r) content) \<and> matched r = q"
    if "q \<noteq> []" "Count content q = 1" "start r = indexOf content q" "stop r = indexOf content q + length q" "matched r = q"
    for q and r :: matchResult
    using Count_1(2) [OF that(1,2)] that by (auto simp: occursAt_def)
  consider "Count content old = 1"
    | "Count content old = 0" "snd (stripLineNumberPrefixes old)" "Count content ?p = 1"
    | "m = locateFolded content old"
    using assms(5) by (auto simp: m_def locateEdit_def noMatch_def case_prod_unfold Let_def split: if_splits)
  then show ?thesis
  proof cases
    case 1
    then have "m = matchAt (indexOf content old) old" by (simp add: m_def locateEdit_def)
    then show ?thesis using at [OF assms(3) 1, of m] by (simp add: matchAt_def noMatch_def)
  next
    case 2
    then have "m = (matchAt (indexOf content ?p) ?p)\<lparr>tolerant := True, note' := strippedNote\<rparr>"
      by (simp add: m_def locateEdit_def case_prod_unfold Let_def)
    then show ?thesis using at [OF assms(4) 2(3), of m] by (simp add: matchAt_def noMatch_def)
  next
    case 3
    then show ?thesis using locateFolded_sound [OF assms(1-3)] assms(5) by (simp add: m_def)
  qed
qed

text \<open>Where an edit lands, for a text and a search string in valid UTF-8: the replaced span lies within the
  text and is the reported match; without the tolerance note it is the search string itself; after
  stripping line numbers it is the stripped string; after folding look-alikes it folds to the same
  string as the search string.\<close>

theorem locateEdit_sound:
  assumes "validUTF8 content" "validUTF8 old" "old \<noteq> []" "fst (stripLineNumberPrefixes old) \<noteq> []"
    "found (locateEdit content old)"
  defines "m \<equiv> locateEdit content old"
  shows "start m \<le> stop m \<and> stop m \<le> length content \<and> matched m = take (stop m - start m) (drop (start m) content) \<and>
     (if \<not> tolerant m then matched m = old
      else matched m = fst (stripLineNumberPrefixes old) \<or> foldString (matched m) = foldString old)"
  unfolding m_def by (rule locateEdit_span [OF assms(1-5)])

theorem locateEdit_sound_witness:
  "let q = [CHR 0xE2, CHR 0x80, CHR 0x9C]; m = locateEdit (''x = '' @ q @ ''a'' @ q) ([DQ] @ ''a'' @ [DQ])
   in found m \<and> tolerant m \<and> matched m = q @ ''a'' @ q"
proof -
  let ?q = "[CHR 0xE2, CHR 0x80, CHR 0x9C]"
  have p: "validUTF8 (''x = '' @ ?q @ ''a'' @ ?q)" "validUTF8 ([DQ] @ ''a'' @ [DQ])" "[DQ] @ ''a'' @ [DQ] \<noteq> []"
    "fst (stripLineNumberPrefixes ([DQ] @ ''a'' @ [DQ])) \<noteq> []" by code_simp+
  have "map (\<lambda>m. (found m, tolerant m, start m, stop m)) [locateEdit (''x = '' @ ?q @ ''a'' @ ?q) ([DQ] @ ''a'' @ [DQ])] = [(True, True, 4, 11)]"
    by code_simp
  then have m: "found (locateEdit (''x = '' @ ?q @ ''a'' @ ?q) ([DQ] @ ''a'' @ [DQ]))"
    "tolerant (locateEdit (''x = '' @ ?q @ ''a'' @ ?q) ([DQ] @ ''a'' @ [DQ]))"
    "start (locateEdit (''x = '' @ ?q @ ''a'' @ ?q) ([DQ] @ ''a'' @ [DQ])) = 4"
    "stop (locateEdit (''x = '' @ ?q @ ''a'' @ ?q) ([DQ] @ ''a'' @ [DQ])) = 11" by simp_all
  show ?thesis using locateEdit_sound [OF p m(1)] m by (simp add: Let_def)
qed

text \<open>An edit whose text is present is applied exactly when the text occurs once without overlap: it is
  then applied at that occurrence, exactly, and every other occurrence overlaps it; with several
  occurrences it is refused as ambiguous and their number is reported.\<close>

theorem locateEdit_exact:
  assumes "old \<noteq> []" "sublist old content"
  defines "m \<equiv> locateEdit content old"
  shows "(found m \<longleftrightarrow> Count content old = 1) \<and> (0 < ambiguous m \<longleftrightarrow> 1 < Count content old) \<and>
     (1 < Count content old \<longrightarrow> ambiguous m = Count content old) \<and>
     (found m \<longrightarrow> \<not> tolerant m \<and> occursAt content (start m) old \<and>
        (\<forall>j. occursAt content j old \<longrightarrow> start m \<le> j \<and> j < stop m))"
proof -
  have n: "Count content old \<noteq> 0" using assms(1,2) Count_0 by blast
  show ?thesis
  proof (cases "Count content old = 1")
    case True
    then show ?thesis
      using Count_1(2,3) [OF assms(1) True] by (auto simp: m_def locateEdit_def matchAt_def noMatch_def)
  next
    case False
    then show ?thesis using n by (auto simp: m_def locateEdit_def noMatch_def)
  qed
qed

theorem locateEdit_exact_witness:
  "found (locateEdit ''abcb'' ''bc'') \<and> \<not> found (locateEdit ''abab'' ''ab'')"
proof -
  have s: "sublist ''bc'' ''abcb''" "sublist ''ab'' ''abab''" by code_simp+
  have c: "Count ''abcb'' ''bc'' = 1" "Count ''abab'' ''ab'' = 2" by code_simp+
  show ?thesis using locateEdit_exact [OF _ s(1)] locateEdit_exact [OF _ s(2)] c by simp
qed

text \<open>A text that occurs twice, but only with overlap, is taken to be unique.\<close>

theorem overlapping_match_is_unique:
  "occursAt ''ababa'' 0 ''aba'' \<and> occursAt ''ababa'' 2 ''aba'' \<and> found (locateEdit ''ababa'' ''aba'')"
  by code_simp

text \<open>Text copied from a numbered read is found where the plain text is: if the numbered text itself does not
  occur, the edit goes to the place of the unnumbered text, or is ambiguous just as that is.\<close>

theorem locateEdit_numbered:
  assumes "ls \<noteq> []" "list_all (\<lambda>l. NL \<notin> set (snd l)) ls" "renderPlain ls False \<noteq> []"
    "\<not> sublist (renderNumbered ls False) content" "sublist (renderPlain ls False) content"
  defines "m \<equiv> locateEdit content (renderNumbered ls False)" and "m' \<equiv> locateEdit content (renderPlain ls False)"
  shows "found m = found m' \<and> start m = start m' \<and> stop m = stop m' \<and> matched m = matched m' \<and> ambiguous m = ambiguous m'"
proof -
  let ?n = "renderNumbered ls False" and ?p = "renderPlain ls False"
  have "stripLineNumberPrefixes ?n = (?p, True)" by (rule numbered_strips [OF assms(1,2)])
  then have "?n \<noteq> []" by (auto simp: stripLineNumberPrefixes_def Let_def)
  then have z: "Count content ?n = 0" "Count content ?p \<noteq> 0" using assms(3-5) Count_0 by auto
  show ?thesis
    using z \<open>stripLineNumberPrefixes ?n = (?p, True)\<close>
    by (auto simp: m_def m'_def locateEdit_def Let_def matchAt_def noMatch_def)
qed

theorem locateEdit_numbered_witness:
  "matched (locateEdit (''ab'' @ [NL] @ ''c'') (''1'' @ [TAB] @ ''ab'' @ [NL] @ ''2'' @ [TAB] @ ''c'')) = ''ab'' @ [NL] @ ''c''"
proof -
  let ?ls = "[(1, ''ab''), (2, ''c'')] :: readLine list"
  have p: "renderNumbered ?ls False = ''1'' @ [TAB] @ ''ab'' @ [NL] @ ''2'' @ [TAB] @ ''c''"
    "renderPlain ?ls False = ''ab'' @ [NL] @ ''c''" by code_simp+
  have q: "\<not> sublist (''1'' @ [TAB] @ ''ab'' @ [NL] @ ''2'' @ [TAB] @ ''c'') (''ab'' @ [NL] @ ''c'')"
    "matched (locateEdit (''ab'' @ [NL] @ ''c'') (''ab'' @ [NL] @ ''c'')) = ''ab'' @ [NL] @ ''c''" by code_simp+
  show ?thesis using locateEdit_numbered [of ?ls "''ab'' @ [NL] @ ''c''"] q unfolding p by simp
qed

subsection \<open>Facts: line ends\<close>

lemma lfLoop_replace: "fst (lfLoop i s) = ReplaceAll s [CR, NL] [NL]"
  by (induction i s rule: lfLoop.induct) (auto simp: case_prod_unfold Let_def)

lemma editLFView_replace: "fst (editLFView raw) = ReplaceAll raw [CR, NL] [NL]"
  by (simp add: editLFView_def case_prod_unfold Let_def lfLoop_replace)

lemma lfLoop_length: "length (snd (lfLoop i s)) = length (fst (lfLoop i s))"
  by (induction i s rule: lfLoop.induct) (auto simp: case_prod_unfold Let_def)

text \<open>The view as a function, and its pieces at a line-end-safe cut.\<close>

abbreviation lfView :: "string \<Rightarrow> string" where "lfView s \<equiv> ReplaceAll s [CR, NL] [NL]"

lemma lfView_append: "\<not> (a \<noteq> [] \<and> last a = CR \<and> b \<noteq> [] \<and> hd b = NL) \<Longrightarrow> lfView (a @ b) = lfView a @ lfView b"
proof (induction a rule: induct_list012)
  case (2 x)
  then show ?case by (cases b) auto
next
  case (3 x y zs)
  then show ?case by auto
qed simp

lemma lfView_safe_append: "a = [] \<or> last a \<noteq> CR \<Longrightarrow> lfView (a @ b) = lfView a @ lfView b"
  by (rule lfView_append) auto

lemma lfLoop_cut:
  "k \<le> length (fst (lfLoop i s)) \<Longrightarrow>
     \<exists>p \<le> length s. (snd (lfLoop i s) @ [i + length s]) ! k = i + p \<and>
       lfView (take p s) = take k (fst (lfLoop i s)) \<and> lfView (drop p s) = drop k (fst (lfLoop i s))"
proof (induction i s arbitrary: k rule: lfLoop.induct)
  case (2 i c)
  then show ?case by (cases k) (auto intro: exI [of _ 0] exI [of _ "Suc 0"])
next
  case (3 i c d s)
  show ?case
  proof (cases k)
    case 0
    then show ?thesis
      by (intro exI [of _ 0]) (auto simp: case_prod_unfold Let_def lfLoop_replace nth_append)
  next
    case (Suc j)
    show ?thesis
    proof (cases "c = CR \<and> d = NL")
      case True
      then obtain p where p: "p \<le> length s" "(snd (lfLoop (i + 2) s) @ [i + 2 + length s]) ! j = i + 2 + p"
        "lfView (take p s) = take j (fst (lfLoop (i + 2) s))" "lfView (drop p s) = drop j (fst (lfLoop (i + 2) s))"
        using "3.IH"(1) [of j] "3.prems" Suc by (auto simp: case_prod_unfold Let_def)
      then show ?thesis using True Suc by (intro exI [of _ "p + 2"]) (auto simp: case_prod_unfold Let_def)
    next
      case False
      then obtain p where p: "p \<le> length (d # s)" "(snd (lfLoop (i + 1) (d # s)) @ [i + 1 + length (d # s)]) ! j = i + 1 + p"
        "lfView (take p (d # s)) = take j (fst (lfLoop (i + 1) (d # s)))" "lfView (drop p (d # s)) = drop j (fst (lfLoop (i + 1) (d # s)))"
        using "3.IH"(2) [of j] "3.prems" Suc by (auto simp: case_prod_unfold Let_def)
      have "lfView (c # take p (d # s)) = c # lfView (take p (d # s))" using False by (cases p) auto
      then show ?thesis using False Suc p by (intro exI [of _ "p + 1"]) (auto simp: case_prod_unfold Let_def)
    qed
  qed
qed simp

lemma editLFView_cut:
  assumes "k \<le> length (lfView raw)"
  shows "\<exists>p \<le> length raw. snd (editLFView raw) ! k = p \<and> lfView (take p raw) = take k (lfView raw) \<and>
           lfView (drop p raw) = drop k (lfView raw)"
  using lfLoop_cut [of k 0 raw] assms by (auto simp: editLFView_def case_prod_unfold Let_def lfLoop_replace)

lemma CR_lfView: "CR \<notin> set (lfView a) \<Longrightarrow> a \<noteq> [] \<Longrightarrow> last a \<noteq> CR"
proof (induction a rule: induct_list012)
  case (3 x y zs)
  then show ?case by (cases zs) (auto split: if_splits)
qed auto

lemma lfView_step: "CR \<notin> set a \<Longrightarrow> lfView (a @ b) = a @ lfView b"
  by (induction a) auto

lemma rune_noCR: "1 < runeLen s \<Longrightarrow> CR \<notin> set (take (runeLen s) s)"
proof
  assume r: "1 < runeLen s" and "CR \<in> set (take (runeLen s) s)"
  then obtain j where j: "j < runeLen s" "s ! j = CR" by (auto simp: in_set_conv_nth)
  show False
  proof (cases j)
    case 0
    with j r show False using runeLen_ASCII [of CR] by (cases s) auto
  next
    case (Suc k)
    with runeLen_cont [of j s] j show False by (simp add: isCont_def)
  qed
qed

lemma validUTF8_lfView: "validUTF8 s \<Longrightarrow> validUTF8 (lfView s)"
proof (induction "length s" arbitrary: s rule: less_induct)
  case less
  have one: "validUTF8 (c # t) \<longleftrightarrow> validUTF8 t" if "\<not> digit7 c" for c t
    using validUTF8_step [of "c # t"] runeLen_ASCII [OF that] by simp
  show ?case
  proof (cases "s = []")
    case False
    then have r: "runeLen s \<noteq> 0" using less.prems validUTF8_runeLen by blast
    have d: "validUTF8 (drop (runeLen s) s)" using validUTF8_step [OF r] less.prems by simp
    have v: "validUTF8 (lfView (drop (runeLen s) s))" using less.hyps [OF _ d] r False by simp
    consider t where "s = CR # NL # t" | "1 < runeLen s" | c t where "s = c # t" "runeLen s = 1" "\<not> (c = CR \<and> t \<noteq> [] \<and> hd t = NL)"
      using False r by (cases s; cases "tl s") force+
    then show ?thesis
    proof cases
      case (1 t)
      then show ?thesis using less.prems less.hyps [of t] one [of CR "NL # t"] one [of NL t] one [of NL "lfView t"] by simp
    next
      case 2
      have "lfView s = take (runeLen s) s @ lfView (drop (runeLen s) s)"
        using lfView_step [OF rune_noCR [OF 2], of "drop (runeLen s) s"] by simp
      moreover have "validUTF8 (take (runeLen s) s)"
        using runeLen_take_self [OF r] runeLen_le [of s] r validUTF8_step [of "take (runeLen s) s"] by (simp add: validUTF8.simps [of "[]"])
      ultimately show ?thesis using v validUTF8_append by simp
    next
      case (3 c t)
      then have "lfView s = c # lfView t" by (cases t) auto
      moreover have "validUTF8 (take 1 s @ lfView t)"
        using v 3 runeLen_take_self [OF r] validUTF8_step [of "take 1 s"]
        by (intro validUTF8_append) (auto simp: validUTF8.simps [of "[]"])
      ultimately show ?thesis using 3 by simp
    qed
  qed (simp add: validUTF8.simps [of "[]"])
qed

lemma lfView_ne: "s \<noteq> [] \<Longrightarrow> lfView s \<noteq> []"
  by (cases s) auto

lemma lfView_crlf: "CR \<notin> set s \<Longrightarrow> lfView (ReplaceAll s [NL] [CR, NL]) = s"
  by (induction s) auto

lemma lfView_noCR: "CR \<notin> set s \<Longrightarrow> lfView s = s"
  by (induction s) auto

lemma lfView_written:
  assumes "start m \<le> stop m" "stop m \<le> length (fst (editLFView data))"
    "CR \<notin> set (fst (editLFView data))" "CR \<notin> set new"
  defines "content \<equiv> fst (editLFView data)" and "offsets \<equiv> snd (editLFView data)"
  shows "fst (editLFView (writtenBytes data offsets m new)) = take (start m) content @ new @ drop (stop m) content \<and>
     (\<exists>replacement. writtenBytes data offsets m new =
        take (offsets ! start m) data @ replacement @ drop (offsets ! stop m) data \<and>
        fst (editLFView (take (offsets ! start m) data)) = take (start m) content \<and>
        fst (editLFView (drop (offsets ! stop m) data)) = drop (stop m) content)"
proof -
  have c: "content = lfView data" by (simp add: content_def editLFView_replace)
  have "start m \<le> length (lfView data)" "stop m \<le> length (lfView data)" using assms(1,2) by (auto simp: editLFView_replace)
  from this [THEN editLFView_cut] have
    p: "lfView (take (offsets ! start m) data) = take (start m) (lfView data)"
       "lfView (drop (offsets ! stop m) data) = drop (stop m) (lfView data)" by (auto simp: offsets_def)
  let ?r = "if uniformCRLF data then ReplaceAll new [NL] [CR, NL] else new"
  have w: "writtenBytes data offsets m new = take (offsets ! start m) data @ ?r @ drop (offsets ! stop m) data"
    by (simp add: writtenBytes_def)
  have nocr: "CR \<notin> set (lfView data)" using assms(3) by (simp add: editLFView_replace)
  have r: "lfView ?r = new" using lfView_crlf lfView_noCR assms(4) by simp
  have "?r = [] \<or> last ?r \<noteq> CR" using CR_lfView [of ?r] r assms(4) by metis
  then have "lfView (?r @ drop (offsets ! stop m) data) = new @ drop (stop m) (lfView data)"
    using lfView_safe_append [of ?r "drop (offsets ! stop m) data"] r p by metis
  moreover have "CR \<notin> set (lfView (take (offsets ! start m) data))" using p nocr by (auto dest: in_set_takeD)
  then have "take (offsets ! start m) data = [] \<or> last (take (offsets ! start m) data) \<noteq> CR" using CR_lfView by blast
  ultimately have "lfView (writtenBytes data offsets m new) = take (start m) (lfView data) @ new @ drop (stop m) (lfView data)"
    unfolding w using lfView_safe_append [of "take (offsets ! start m) data" "?r @ drop (offsets ! stop m) data"] p by metis
  then show ?thesis using w p c by (auto simp: editLFView_replace)
qed

text \<open>The bytes an edit writes: outside the span that corresponds to the match the file keeps its bytes, and
  in the LF view, which is what reads show and matches refer to, the file becomes the text with the
  match replaced.  The file may have any mix of LF and CRLF line ends; stray carriage returns in the file
  or the replacement are excluded.\<close>

theorem writtenBytes_view:
  assumes "start m \<le> stop m" "stop m \<le> length (fst (editLFView data))"
    "CR \<notin> set (fst (editLFView data))" "CR \<notin> set new"
  defines "content \<equiv> fst (editLFView data)" and "offsets \<equiv> snd (editLFView data)"
  shows "fst (editLFView (writtenBytes data offsets m new)) = take (start m) content @ new @ drop (stop m) content \<and>
     (\<exists>replacement. writtenBytes data offsets m new =
        take (offsets ! start m) data @ replacement @ drop (offsets ! stop m) data \<and>
        fst (editLFView (take (offsets ! start m) data)) = take (start m) content \<and>
        fst (editLFView (drop (offsets ! stop m) data)) = drop (stop m) content)"
  unfolding content_def offsets_def by (rule lfView_written [OF assms(1-4)])

theorem writtenBytes_view_witness:
  "let data = ''a'' @ [CR, NL] @ ''b'' @ [CR, NL]; m = locateEdit (fst (editLFView data)) ''b''
   in writtenBytes data (snd (editLFView data)) m (''x'' @ [NL] @ ''y'') = ''a'' @ [CR, NL] @ ''x'' @ [CR, NL] @ ''y'' @ [CR, NL] \<and>
      fst (editLFView (writtenBytes data (snd (editLFView data)) m (''x'' @ [NL] @ ''y''))) = ''a'' @ [NL] @ ''x'' @ [NL] @ ''y'' @ [NL]"
proof -
  let ?d = "''a'' @ [CR, NL] @ ''b'' @ [CR, NL]"
  let ?m = "locateEdit (fst (editLFView ?d)) ''b''"
  have e: "fst (editLFView ?d) = ''a'' @ [NL] @ ''b'' @ [NL]" "start ?m = 2" "stop ?m = 3"
    "writtenBytes ?d (snd (editLFView ?d)) ?m (''x'' @ [NL] @ ''y'') = ''a'' @ [CR, NL] @ ''x'' @ [CR, NL] @ ''y'' @ [CR, NL]"
    by code_simp+
  show ?thesis using writtenBytes_view [of ?m ?d "''x'' @ [NL] @ ''y''"] unfolding e(1-3) using e by (simp add: Let_def)
qed

end
