(* ===== verification/File_Tools.thy ===== *)
theory File_Tools
  imports Edit_Text RRule Json
begin

section \<open>The file tools\<close>

text \<open>
  The tools that read and write files, \<^verbatim>\<open>internal/tools/filesystem\<close>: \<^verbatim>\<open>edit_file.go\<close>, \<^verbatim>\<open>insert_file.go\<close>,
  \<^verbatim>\<open>create_file.go\<close>, \<^verbatim>\<open>read_file.go\<close> and the gates they share, \<^verbatim>\<open>write_target.go\<close>.  A call is a function of its
  arguments, the execution context and the files, and returns the reply and the files afterwards.

  The files are a map from files to nodes.  Which file a path names once all links are followed, the
  success of a read or a write and the texts of system errors belong to the operating system: they are
  the record \<open>io_env\<close>.  Schema validation of arguments is done by a third-party package and is a parameter,
  and so is \<open>strconv.QuoteRune\<close>.  The asset references a read returns are not modelled.
\<close>

subsection \<open>Files and replies\<close>

datatype node = DirNode | FileNode string nat   \<comment> \<open>a directory, or the bytes and the permissions of a file\<close>

type_synonym files = "string \<rightharpoonup> node"

datatype write_outcome = WriteOk | WriteRefused | WriteCut string
  \<comment> \<open>written; failed with the file untouched; failed with these bytes left in it\<close>

record io_env =
  fileAt :: "string \<Rightarrow> string"            \<comment> \<open>the file a path names, links followed\<close>
  statText :: "string \<Rightarrow> string"          \<comment> \<open>the error text of a failing stat\<close>
  readFails :: "string \<Rightarrow> bool"
  writeOutcome :: "string \<Rightarrow> write_outcome"
  mkdirFails :: "string \<Rightarrow> bool"

record exec_ctx =
  ctxRoot :: string
  ctxApprover :: "(string \<Rightarrow> string \<Rightarrow> bool) option"   \<comment> \<open>\<open>PathAccessApprover\<close>: path, operation\<close>
  ctxPlanMode :: bool
  ctxDone :: bool

datatype write_status = WriteAdded | WriteModified | WriteDeleted

record FileWrite =
  fwPath :: string
  fwAdded :: nat
  fwRemoved :: nat
  fwStatus :: write_status

record file_result =
  frContent :: string
  frFailure :: "string option"
  frWrote :: "FileWrite list"

datatype file_error =
    ArgumentError | InvalidArgs | PathRequired | ContentRequired | NegativeLine | ContextErr | AbsErr
  | NotAccessible string | OutsideRoot string | AccessDenied string
  | PlanModeRefused string string | ReadErr | WriteErr | MkdirErr | StatErr string
  | IsDirectory string | TooLargeWhole string nat | NotUTF8Text string | LineTooLong

type_synonym reply = "file_error + file_result"

definition failWith :: "string \<Rightarrow> string \<Rightarrow> reply" where
  "failWith kind msg = Inr \<lparr>frContent = msg, frFailure = Some kind, frWrote = []\<rparr>"

definition okWith :: "string \<Rightarrow> FileWrite list \<Rightarrow> reply" where
  "okWith msg wrote = Inr \<lparr>frContent = msg, frFailure = None, frWrote = wrote\<rparr>"

text \<open>\<open>os.Stat\<close> and \<open>os.WriteFile\<close>; a file that exists keeps its permissions.\<close>

definition statNode :: "io_env \<Rightarrow> files \<Rightarrow> string \<Rightarrow> node option" where
  "statNode io fs path = fs (fileAt io path)"

definition writeFile :: "io_env \<Rightarrow> string \<Rightarrow> string \<Rightarrow> nat \<Rightarrow> files \<Rightarrow> bool \<times> files" where
  "writeFile io path bytes perm fs =
     (let p = (case statNode io fs path of Some (FileNode _ q) \<Rightarrow> q | _ \<Rightarrow> perm) in
      case writeOutcome io path of
        WriteOk \<Rightarrow> (True, fs(fileAt io path \<mapsto> FileNode bytes p))
      | WriteRefused \<Rightarrow> (False, fs)
      | WriteCut left \<Rightarrow> (False, fs(fileAt io path \<mapsto> FileNode left p)))"

text \<open>\<open>os.MkdirAll\<close>: directories made before a failure stay.\<close>

function mkdirAll :: "io_env \<Rightarrow> string \<Rightarrow> files \<Rightarrow> bool \<times> files" where
  "mkdirAll io path fs =
     (case statNode io fs path of
        Some DirNode \<Rightarrow> (True, fs)
      | Some (FileNode _ _) \<Rightarrow> (False, fs)
      | None \<Rightarrow>
          if pathDir path = path then (False, fs)
          else
            (let (ok, fs') = mkdirAll io (pathDir path) fs in
             if \<not> ok then (False, fs')
             else if mkdirFails io path then (False, fs')
             else (True, fs'(fileAt io path \<mapsto> DirNode))))"
  by pat_completeness auto
termination
  by (relation "measure (\<lambda>(io, path, fs). climb path)") (auto intro: pathDir_climb)

declare mkdirAll.simps [simp del]

subsection \<open>Arguments\<close>

text \<open>\<open>lineNumber.UnmarshalJSON\<close>: a number or a string with a number; \<open>null\<close> is zero.\<close>

definition lineNumberJSON :: "json \<Rightarrow> int option" where
  "lineNumberJSON v =
     (case v of
        JNull \<Rightarrow> Some 0
      | JNumber lit \<Rightarrow> Atoi lit
      | JString s \<Rightarrow> Atoi (TrimSpace s)
      | _ \<Rightarrow> None)"

fun lineFields :: "unicode_tables \<Rightarrow> string \<Rightarrow> int \<Rightarrow> (string \<times> json) list \<Rightarrow> int option" where
  "lineFields U name cur [] = Some cur"
| "lineFields U name cur ((k, v) # fs) =
     (if EqualFold U k name
      then (case lineNumberJSON v of None \<Rightarrow> None | Some n \<Rightarrow> lineFields U name n fs)
      else lineFields U name cur fs)"

definition unmarshalLine :: "unicode_tables \<Rightarrow> string \<Rightarrow> raw_message \<Rightarrow> int option" where
  "unmarshalLine U name raw =
     (case raw of
        None \<Rightarrow> None
      | Some JNull \<Rightarrow> Some 0
      | Some (JObject fs) \<Rightarrow> lineFields U name 0 fs
      | Some _ \<Rightarrow> None)"

text \<open>A pointer to a flag: \<open>null\<close> is nil.\<close>

fun flagFields :: "unicode_tables \<Rightarrow> string \<Rightarrow> bool option \<Rightarrow> (string \<times> json) list \<Rightarrow> bool option option" where
  "flagFields U name cur [] = Some cur"
| "flagFields U name cur ((k, v) # fs) =
     (if EqualFold U k name
      then (case v of
              JBool b \<Rightarrow> flagFields U name (Some b) fs
            | JNull \<Rightarrow> flagFields U name None fs
            | _ \<Rightarrow> None)
      else flagFields U name cur fs)"

definition unmarshalFlag :: "unicode_tables \<Rightarrow> string \<Rightarrow> raw_message \<Rightarrow> bool option option" where
  "unmarshalFlag U name raw =
     (case raw of
        None \<Rightarrow> None
      | Some JNull \<Rightarrow> Some None
      | Some (JObject fs) \<Rightarrow> flagFields U name None fs
      | Some _ \<Rightarrow> None)"

record editFileInput =
  efPath :: string
  efOld :: string
  efNew :: string
  efAllowDelete :: bool

record insertFileInput =
  ifPath :: string
  ifLine :: int
  ifContent :: string

record createFileInput =
  cfPath :: string
  cfContent :: string

record readFileInput =
  rfPath :: string
  rfLineNumbers :: "bool option"
  rfOffset :: int
  rfLimit :: int

text \<open>The outer option of a raw input says whether it has any bytes.\<close>

definition decodeEdit :: "unicode_tables \<Rightarrow> raw_message option \<Rightarrow> editFileInput option" where
  "decodeEdit U input =
     (case input of
        None \<Rightarrow> Some \<lparr>efPath = [], efOld = [], efNew = [], efAllowDelete = False\<rparr>
      | Some raw \<Rightarrow>
          (case (unmarshalString U ''path'' raw, unmarshalString U ''old'' raw, unmarshalString U ''new'' raw,
                 unmarshalBool U ''allow_delete'' raw) of
             (Some p, Some x, Some n, Some d) \<Rightarrow> Some \<lparr>efPath = p, efOld = x, efNew = n, efAllowDelete = d\<rparr>
           | _ \<Rightarrow> None))"

definition decodeInsert :: "unicode_tables \<Rightarrow> raw_message option \<Rightarrow> insertFileInput option" where
  "decodeInsert U input =
     (case input of
        None \<Rightarrow> Some \<lparr>ifPath = [], ifLine = 0, ifContent = []\<rparr>
      | Some raw \<Rightarrow>
          (case (unmarshalString U ''path'' raw, unmarshalLine U ''line'' raw, unmarshalString U ''content'' raw) of
             (Some p, Some n, Some c) \<Rightarrow> Some \<lparr>ifPath = p, ifLine = n, ifContent = c\<rparr>
           | _ \<Rightarrow> None))"

definition decodeCreate :: "unicode_tables \<Rightarrow> raw_message option \<Rightarrow> createFileInput option" where
  "decodeCreate U input =
     (case input of
        None \<Rightarrow> Some \<lparr>cfPath = [], cfContent = []\<rparr>
      | Some raw \<Rightarrow>
          (case (unmarshalString U ''path'' raw, unmarshalString U ''content'' raw) of
             (Some p, Some c) \<Rightarrow> Some \<lparr>cfPath = p, cfContent = c\<rparr>
           | _ \<Rightarrow> None))"

definition decodeRead :: "unicode_tables \<Rightarrow> raw_message option \<Rightarrow> readFileInput option" where
  "decodeRead U input =
     (case input of
        None \<Rightarrow> Some \<lparr>rfPath = [], rfLineNumbers = None, rfOffset = 0, rfLimit = 0\<rparr>
      | Some raw \<Rightarrow>
          (case (unmarshalString U ''path'' raw, unmarshalFlag U ''line_numbers'' raw, unmarshalLine U ''offset'' raw,
                 unmarshalLine U ''limit'' raw) of
             (Some p, Some b, Some x, Some l) \<Rightarrow> Some \<lparr>rfPath = p, rfLineNumbers = b, rfOffset = x, rfLimit = l\<rparr>
           | _ \<Rightarrow> None))"

subsection \<open>The gates of a write\<close>

datatype target = Target string | Denied

definition resolveWriteTarget :: "unicode_tables \<Rightarrow> fsenv \<Rightarrow> exec_ctx \<Rightarrow> string \<Rightarrow> file_error + target" where
  "resolveWriteTarget U E ec relPath =
     (case Abs E (ctxRoot ec) of
        None \<Rightarrow> Inl AbsErr
      | Some rootAbs \<Rightarrow>
          (case Abs E (ResolveToolPath rootAbs relPath) of
             None \<Rightarrow> Inl AbsErr
           | Some targetAbs \<Rightarrow>
               (case ClassifyPath U E rootAbs targetAbs of
                  PathManagedWorktree \<Rightarrow> Inl (NotAccessible relPath)
                | PathOutsideWorkspace \<Rightarrow>
                    (case ctxApprover ec of
                       None \<Rightarrow> Inl (OutsideRoot relPath)
                     | Some ask \<Rightarrow> if \<not> ask targetAbs ''write'' then Inr Denied else Inr (Target targetAbs))
                | PathInsideWorkspace \<Rightarrow> Inr (Target targetAbs))))"

definition diffPath :: "fsenv \<Rightarrow> exec_ctx \<Rightarrow> string \<Rightarrow> string" where
  "diffPath E ec targetAbs =
     (case Abs E (ctxRoot ec) of None \<Rightarrow> targetAbs | Some rootAbs \<Rightarrow> WorkspaceRel rootAbs targetAbs)"

definition plansDirOf :: "string \<Rightarrow> string" where
  "plansDirOf rootAbs = pathJoin [rootAbs, ''.codeagent'', ''plans'']"

definition checkPlanModeTarget :: "fsenv \<Rightarrow> exec_ctx \<Rightarrow> string \<Rightarrow> string \<Rightarrow> string \<Rightarrow> file_error option" where
  "checkPlanModeTarget E ec targetAbs relPath verb =
     (if \<not> ctxPlanMode ec then None
      else
        (case Abs E (ctxRoot ec) of
           None \<Rightarrow> Some AbsErr
         | Some rootAbs \<Rightarrow>
             if pathExt targetAbs \<noteq> ''.md'' \<or> \<not> IsSubPath (plansDirOf rootAbs) targetAbs
             then Some (PlanModeRefused verb relPath) else None))"

subsection \<open>edit\_file\<close>

definition maxBytes :: nat where "maxBytes = 200000"

definition Inspect :: "unicode_tables \<Rightarrow> raw_message option \<Rightarrow> bool" where
  "Inspect U input =
     (case decodeRead U input of
        None \<Rightarrow> True
      | Some inp \<Rightarrow> rfPath inp = [] \<or> \<not> IsPathProtected U (rfPath inp) (ProtectedPaths U []))"

definition editDiagnostic ::
  "unicode_tables \<Rightarrow> fsenv \<Rightarrow> (string \<Rightarrow> string) \<Rightarrow> exec_ctx \<Rightarrow> raw_message option \<Rightarrow> string \<Rightarrow> string \<Rightarrow> string \<Rightarrow> string" where
  "editDiagnostic U E q ec input content old replacement =
     (if \<not> Inspect U input then []
      else
        (case Option.bind input (unmarshalString U ''path'') of
           None \<Rightarrow> []
         | Some path \<Rightarrow>
             (case Abs E (ctxRoot ec) of
                None \<Rightarrow> []
              | Some root \<Rightarrow>
                  if ClassifyPath U E root (ResolveToolPath root path) \<noteq> PathInsideWorkspace then []
                  else if replacement \<noteq> [] \<and> Contains content replacement
                  then ''The replacement text is already present. Re-read the target before editing again.''
                  else nearMissDiagnostic q content old)))"

text \<open>The part of \<open>Execute\<close> from the bytes of the file on: a reply without a write, or the bytes to write
  and the reply.\<close>

definition editReply ::
  "fsenv \<Rightarrow> exec_ctx \<Rightarrow> editFileInput \<Rightarrow> string \<Rightarrow> string \<Rightarrow> string \<Rightarrow> matchResult \<Rightarrow> string \<Rightarrow> reply" where
  "editReply E ec inp targetAbs content newContent m new =
     (let lineNum = natString (lineAt content (start m) + 1);
          header = (if new = []
            then ''Deleted '' @ natString (length (wholeLinesOf (matched m))) @ '' line(s) at line '' @ lineNum @ '' of '' @ efPath inp
            else ''Edited '' @ efPath inp @ '' at line '' @ lineNum);
          header' = header @ (if tolerant m then '' (matched '' @ note' m @ '' '' @ [CHR 0xE2, CHR 0x80, CHR 0x94] @ '' verify the result)'' else []);
          diff = the (editDiff content newContent (matched m) new (start m) 3)
      in okWith (header' @ '':'' @ [NL] @ diff)
           [\<lparr>fwPath = diffPath E ec targetAbs, fwAdded = LineCount new, fwRemoved = LineCount (matched m),
             fwStatus = WriteModified\<rparr>])"

definition planEdit ::
  "unicode_tables \<Rightarrow> fsenv \<Rightarrow> (string \<Rightarrow> string) \<Rightarrow> exec_ctx \<Rightarrow> raw_message option \<Rightarrow> editFileInput \<Rightarrow> string \<Rightarrow> string \<Rightarrow>
     reply + string \<times> reply" where
  "planEdit U E q ec input inp targetAbs data =
     (let (content, offsets) = editLFView data;
          old = ReplaceAll (efOld inp) [CR, NL] [NL];
          new = ReplaceAll (efNew inp) [CR, NL] [NL];
          m = locateEdit content old
      in if ambiguous m > 0 then
           Inl (failWith ''edit_conflict''
             (''The '' @ [CHR 0x27] @ ''old'' @ [CHR 0x27] @ '' text appears '' @ natString (ambiguous m) @ '' times in '' @ efPath inp @ '', so the edit is ambiguous. Include more surrounding context so it matches exactly once.''))
         else if \<not> found m then
           (let nm = editDiagnostic U E q ec input content old new
            in Inl (failWith ''edit_conflict''
                 (''Could not find the '' @ [CHR 0x27] @ ''old'' @ [CHR 0x27] @ '' text in '' @ efPath inp @ ''. It must match the file exactly, including whitespace and indentation.'' @
                  (if nm \<noteq> [] then [NL, NL] @ nm else '' Re-read the file and copy the text verbatim.''))))
         else if new = [] \<and> TrimSpace (matched m) \<noteq> [] \<and> \<not> efAllowDelete inp then
           Inl (failWith ''blocked''
             (''Refused: '' @ [CHR 0x27] @ ''new'' @ [CHR 0x27] @ '' is empty, which would delete '' @ natString (length (wholeLinesOf (matched m))) @ '' line(s) starting at line '' @ natString (lineAt content (start m) + 1) @ '' of '' @ efPath inp @ '' and put nothing in their place.'' @ [NL] @ ''If you meant to delete this text, re-send the same call with '' @ [CHR 0x22] @ ''allow_delete'' @ [CHR 0x22] @ '': true.'' @ [NL] @ ''If you meant to replace it, put the replacement in '' @ [CHR 0x27] @ ''new'' @ [CHR 0x27] @ '' '' @ [CHR 0xE2, CHR 0x80, CHR 0x94] @ '' an empty '' @ [CHR 0x27] @ ''new'' @ [CHR 0x27] @ '' usually means the replacement text was dropped from the tool call. Nothing was changed.''))
         else
           (let newContent = take (start m) content @ new @ drop (stop m) content
            in if newContent = content then Inl (failWith ''invalid_arguments'' ''The replacement makes no change to the file.'')
               else Inr (writtenBytes data offsets m new, editReply E ec inp targetAbs content newContent m new)))"

text \<open>Opening an existing text file for a change, shared by \<open>edit_file\<close> and \<open>insert_file\<close> except for the failure kind
  of a missing file.\<close>

definition openText :: "io_env \<Rightarrow> string \<Rightarrow> string \<Rightarrow> string \<Rightarrow> files \<Rightarrow> reply + string \<times> nat" where
  "openText io missingKind path targetAbs fs =
     (case statNode io fs targetAbs of
        None \<Rightarrow> Inl (failWith missingKind (''Could not open '' @ path @ '': '' @ statText io targetAbs))
      | Some DirNode \<Rightarrow> Inl (failWith ''runtime'' (path @ '' is a directory, not a file.''))
      | Some (FileNode data perm) \<Rightarrow>
          if length data > maxBytes then
            Inl (failWith ''runtime'' (''File too large to edit: '' @ path @ '' (size='' @ natString (length data) @ '', max='' @ natString maxBytes @ '').''))
          else if readFails io targetAbs then Inl (Inl ReadErr)
          else if \<not> validUTF8 data then Inl (failWith ''runtime'' (path @ '' is not a UTF-8 text file.''))
          else Inr (data, perm))"

definition EditFile ::
  "unicode_tables \<Rightarrow> fsenv \<Rightarrow> io_env \<Rightarrow> (string \<Rightarrow> string) \<Rightarrow> (raw_message option \<Rightarrow> bool) \<Rightarrow> exec_ctx \<Rightarrow>
     raw_message option \<Rightarrow> files \<Rightarrow> reply \<times> files" where
  "EditFile U E io q schemaOk ec input fs =
     (if \<not> schemaOk input then (Inl ArgumentError, fs)
      else
        (case decodeEdit U input of
           None \<Rightarrow> (Inl InvalidArgs, fs)
         | Some inp \<Rightarrow>
             if efPath inp = [] then (Inl PathRequired, fs)
             else if ctxDone ec then (Inl ContextErr, fs)
             else if efOld inp = [] then
               (failWith ''invalid_arguments'' (''The '' @ [CHR 0x27] @ ''old'' @ [CHR 0x27] @ '' text is empty. Provide the exact text to replace.''), fs)
             else if efOld inp = efNew inp then
               (failWith ''invalid_arguments'' (''The '' @ [CHR 0x27] @ ''old'' @ [CHR 0x27] @ '' and '' @ [CHR 0x27] @ ''new'' @ [CHR 0x27] @ '' text are identical; nothing to change.''), fs)
             else
               (case resolveWriteTarget U E ec (efPath inp) of
                  Inl e \<Rightarrow> (Inl e, fs)
                | Inr Denied \<Rightarrow> (failWith ''blocked'' (''Access to external path was denied: '' @ efPath inp), fs)
                | Inr (Target targetAbs) \<Rightarrow>
                    (case checkPlanModeTarget E ec targetAbs (efPath inp) ''edit'' of
                       Some e \<Rightarrow> (Inl e, fs)
                     | None \<Rightarrow>
                         (case openText io ''not_found'' (efPath inp) targetAbs fs of
                            Inl r \<Rightarrow> (r, fs)
                          | Inr (data, perm) \<Rightarrow>
                              (case planEdit U E q ec input inp targetAbs data of
                                 Inl r \<Rightarrow> (r, fs)
                               | Inr (bytes, r) \<Rightarrow>
                                   (let (ok, fs') = writeFile io targetAbs bytes perm fs
                                    in (if ok then r else Inl WriteErr, fs'))))))))"

subsection \<open>insert\_file\<close>

definition planInsert :: "fsenv \<Rightarrow> exec_ctx \<Rightarrow> insertFileInput \<Rightarrow> string \<Rightarrow> string \<Rightarrow> reply + string \<times> reply" where
  "planInsert E ec inp targetAbs data =
     (let content = ReplaceAll data [CR, NL] [NL];
          ins0 = ReplaceAll (ifContent inp) [CR, NL] [NL];
          ins = (if HasSuffix ins0 [NL] then ins0 else ins0 @ [NL]);
          path = ifPath inp
      in case insertWholeLines content (nat (ifLine inp)) ins of
           None \<Rightarrow>
             Inl (failWith ''runtime''
               (''line '' @ intString (ifLine inp) @ '' is out of range. '' @ path @ '' has '' @ natString (countLines content) @ '' line(s). Line 0 inserts at the top; line N inserts after line N, using the numbers read_file prints. Re-read the file to confirm the line number '' @ [CHR 0xE2, CHR 0x80, CHR 0x94] @ '' nothing was changed.''))
         | Some (newContent, offset, n) \<Rightarrow>
             if length newContent > maxBytes then
               Inl (failWith ''runtime''
                 (''Refusing the insert: '' @ path @ '' would grow to '' @ natString (length newContent) @ '' bytes (max '' @ natString maxBytes @ '').''))
             else
               (let header = (if ifLine inp = 0
                      then ''Inserted '' @ natString n @ '' line(s) at the top of '' @ path
                      else ''Inserted '' @ natString n @ '' line(s) after line '' @ intString (ifLine inp) @ '' of '' @ path)
                in Inr (newContent,
                     okWith (header @ '':'' @ [NL] @ the (editDiff content newContent [] ins offset 1))
                       [\<lparr>fwPath = diffPath E ec targetAbs, fwAdded = n, fwRemoved = 0, fwStatus = WriteModified\<rparr>])))"

definition InsertFile ::
  "unicode_tables \<Rightarrow> fsenv \<Rightarrow> io_env \<Rightarrow> exec_ctx \<Rightarrow> raw_message option \<Rightarrow> files \<Rightarrow> reply \<times> files" where
  "InsertFile U E io ec input fs =
     (case decodeInsert U input of
        None \<Rightarrow> (Inl InvalidArgs, fs)
      | Some inp \<Rightarrow>
          if ifPath inp = [] then (Inl PathRequired, fs)
          else if ifContent inp = [] then (Inl ContentRequired, fs)
          else if ifLine inp < 0 then (Inl NegativeLine, fs)
          else if ctxDone ec then (Inl ContextErr, fs)
          else
            (case resolveWriteTarget U E ec (ifPath inp) of
               Inl e \<Rightarrow> (Inl e, fs)
             | Inr Denied \<Rightarrow> (failWith ''blocked'' (''Access to external path was denied: '' @ ifPath inp), fs)
             | Inr (Target targetAbs) \<Rightarrow>
                 (case checkPlanModeTarget E ec targetAbs (ifPath inp) ''insert into'' of
                    Some e \<Rightarrow> (Inl e, fs)
                  | None \<Rightarrow>
                      (case openText io ''runtime'' (ifPath inp) targetAbs fs of
                         Inl r \<Rightarrow> (r, fs)
                       | Inr (data, perm) \<Rightarrow>
                           (case planInsert E ec inp targetAbs data of
                              Inl r \<Rightarrow> (r, fs)
                            | Inr (bytes, r) \<Rightarrow>
                                (let (ok, fs') = writeFile io targetAbs bytes perm fs
                                 in (if ok then r else Inl WriteErr, fs')))))))"

subsection \<open>create\_file\<close>

definition CreateFile ::
  "unicode_tables \<Rightarrow> fsenv \<Rightarrow> io_env \<Rightarrow> exec_ctx \<Rightarrow> raw_message option \<Rightarrow> files \<Rightarrow> reply \<times> files" where
  "CreateFile U E io ec input fs =
     (case decodeCreate U input of
        None \<Rightarrow> (Inl InvalidArgs, fs)
      | Some inp \<Rightarrow>
          if cfPath inp = [] then (Inl PathRequired, fs)
          else if ctxDone ec then (Inl ContextErr, fs)
          else
            (case resolveWriteTarget U E ec (cfPath inp) of
               Inl e \<Rightarrow> (Inl e, fs)
             | Inr Denied \<Rightarrow> (Inl (AccessDenied (cfPath inp)), fs)
             | Inr (Target targetAbs) \<Rightarrow>
                 (case checkPlanModeTarget E ec targetAbs (cfPath inp) ''create'' of
                    Some e \<Rightarrow> (Inl e, fs)
                  | None \<Rightarrow>
                      (case statNode io fs targetAbs of
                         Some DirNode \<Rightarrow> (failWith ''runtime'' (cfPath inp @ '' is a directory, not a file.''), fs)
                       | Some (FileNode _ _) \<Rightarrow>
                           (failWith ''runtime'' (cfPath inp @ '' already exists. Use edit_file to modify an existing file.''), fs)
                       | None \<Rightarrow>
                           if length (cfContent inp) > maxBytes then
                             (failWith ''runtime'' (''Content too large: '' @ natString (length (cfContent inp)) @ '' bytes (max '' @ natString maxBytes @ '').''), fs)
                           else
                             (let (made, fs1) = mkdirAll io (pathDir targetAbs) fs in
                              if \<not> made then (Inl MkdirErr, fs1)
                              else
                                (let content = ReplaceAll (cfContent inp) [CR, NL] [NL];
                                     (ok, fs2) = writeFile io targetAbs content 420 fs1
                                 in if \<not> ok then (Inl WriteErr, fs2)
                                    else (okWith (''Created '' @ cfPath inp @ '' ('' @ natString (countLines content) @ '' lines)'')
                                           [\<lparr>fwPath = diffPath E ec targetAbs, fwAdded = countLines content, fwRemoved = 0,
                                             fwStatus = WriteAdded\<rparr>], fs2)))))))"

subsection \<open>read\_file\<close>

record read_result =
  rrContent :: string
  rrPath :: string
  rrAbsolute :: string
  rrLineCount :: nat
  rrRange :: "(nat \<times> nat) option"

definition displayRangeFor :: "readLine list \<Rightarrow> (nat \<times> nat) option" where
  "displayRangeFor ls = (if ls = [] then None else Some (fst (hd ls), fst (last ls)))"

definition renderRead :: "readFileInput \<Rightarrow> readLine list \<Rightarrow> bool \<Rightarrow> string" where
  "renderRead inp collected truncated =
     (if collected = [] then []
      else if rfLineNumbers inp = Some False then renderPlain collected truncated
      else renderNumbered collected truncated)"

definition readWindow :: "readFileInput \<Rightarrow> int \<times> int \<times> bool" where
  "readWindow inp =
     (let startLine = (if rfOffset inp < 1 then 1 else rfOffset inp); limit = rfLimit inp
      in (startLine, limit, startLine > 1 \<or> limit > 0))"

definition ReadFile ::
  "unicode_tables \<Rightarrow> fsenv \<Rightarrow> io_env \<Rightarrow> exec_ctx \<Rightarrow> raw_message option \<Rightarrow> files \<Rightarrow> file_error + read_result" where
  "ReadFile U E io ec input fs =
     (case decodeRead U input of
        None \<Rightarrow> Inl InvalidArgs
      | Some inp \<Rightarrow>
          if rfPath inp = [] then Inl PathRequired
          else if ctxDone ec then Inl ContextErr
          else
            (case Abs E (ctxRoot ec) of
               None \<Rightarrow> Inl AbsErr
             | Some rootAbs \<Rightarrow>
                 (case Abs E (ResolveToolPath rootAbs (rfPath inp)) of
                    None \<Rightarrow> Inl AbsErr
                  | Some targetAbs \<Rightarrow>
                      (let gate = (case ClassifyPath U E rootAbs targetAbs of
                             PathManagedWorktree \<Rightarrow> Some (NotAccessible (rfPath inp))
                           | PathOutsideWorkspace \<Rightarrow>
                               (case ctxApprover ec of
                                  None \<Rightarrow> Some (OutsideRoot (rfPath inp))
                                | Some ask \<Rightarrow> if \<not> ask targetAbs ''read'' then Some (AccessDenied (rfPath inp)) else None)
                           | PathInsideWorkspace \<Rightarrow> None);
                           rel = (case Rel rootAbs targetAbs of None \<Rightarrow> Clean (rfPath inp) | Some r \<Rightarrow> r)
                       in case gate of
                            Some e \<Rightarrow> Inl e
                          | None \<Rightarrow>
                              (case statNode io fs targetAbs of
                                 None \<Rightarrow> Inl (StatErr (statText io targetAbs))
                               | Some DirNode \<Rightarrow> Inl (IsDirectory (rfPath inp))
                               | Some (FileNode data perm) \<Rightarrow>
                                   (let (startLine, limit, windowed) = readWindow inp in
                                    if \<not> windowed \<and> length data > maxBytes then Inl (TooLargeWhole (rfPath inp) (length data))
                                    else if readFails io targetAbs then Inl ReadErr
                                    else
                                      (case scanLoop maxBytes startLine limit windowed 0 0 [] (rawLines data) of
                                         Inl TokenTooLong \<Rightarrow> Inl LineTooLong
                                       | Inl NotUTF8 \<Rightarrow> Inl (NotUTF8Text (rfPath inp))
                                       | Inr (collected, truncated) \<Rightarrow>
                                           Inr \<lparr>rrContent = renderRead inp collected truncated, rrPath = rel,
                                             rrAbsolute = targetAbs, rrLineCount = length collected,
                                             rrRange = displayRangeFor collected\<rparr>)))))))"

subsection \<open>Specification vocabulary\<close>

fun succeeded :: "reply \<Rightarrow> bool" where
  "succeeded (Inl e) = False"
| "succeeded (Inr r) = (frFailure r = None)"

text \<open>Every file that was there, other than f, is as it was.\<close>

definition onlyChanges :: "string \<Rightarrow> files \<Rightarrow> files \<Rightarrow> bool" where
  "onlyChanges f fs fs' \<longleftrightarrow> (\<forall>g. g \<noteq> f \<longrightarrow> fs g \<noteq> None \<longrightarrow> fs' g = fs g)"

text \<open>The path a call names, for each of the writers.\<close>

definition editPath :: "unicode_tables \<Rightarrow> raw_message option \<Rightarrow> string option" where
  "editPath U input = map_option efPath (decodeEdit U input)"

definition insertPath :: "unicode_tables \<Rightarrow> raw_message option \<Rightarrow> string option" where
  "insertPath U input = map_option ifPath (decodeInsert U input)"

definition createPath :: "unicode_tables \<Rightarrow> raw_message option \<Rightarrow> string option" where
  "createPath U input = map_option cfPath (decodeCreate U input)"

text \<open>A target the gates let through: inside the workspace or approved by the host, and in plan mode a markdown
  file below the plans directory.\<close>

definition admitted :: "unicode_tables \<Rightarrow> fsenv \<Rightarrow> exec_ctx \<Rightarrow> string \<Rightarrow> string \<Rightarrow> bool" where
  "admitted U E ec path target =
     (case Abs E (ctxRoot ec) of
        None \<Rightarrow> False
      | Some root \<Rightarrow>
          Abs E (ResolveToolPath root path) = Some target \<and>
          (ClassifyPath U E root target = PathInsideWorkspace \<or>
           ClassifyPath U E root target = PathOutsideWorkspace \<and>
             (case ctxApprover ec of None \<Rightarrow> False | Some ask \<Rightarrow> ask target ''write'')) \<and>
          (if ctxPlanMode ec then pathExt target = ''.md'' \<and> IsSubPath (plansDirOf root) target else True))"

text \<open>The three writers as one.\<close>

datatype write_tool = EditTool | InsertTool | CreateTool

definition runWriter ::
  "unicode_tables \<Rightarrow> fsenv \<Rightarrow> io_env \<Rightarrow> (string \<Rightarrow> string) \<Rightarrow> (raw_message option \<Rightarrow> bool) \<Rightarrow> write_tool \<Rightarrow> exec_ctx \<Rightarrow>
     raw_message option \<Rightarrow> files \<Rightarrow> reply \<times> files" where
  "runWriter U E io q ok tool =
     (case tool of EditTool \<Rightarrow> EditFile U E io q ok | InsertTool \<Rightarrow> InsertFile U E io | CreateTool \<Rightarrow> CreateFile U E io)"

definition writerPath :: "unicode_tables \<Rightarrow> write_tool \<Rightarrow> raw_message option \<Rightarrow> string option" where
  "writerPath U tool = (case tool of EditTool \<Rightarrow> editPath U | InsertTool \<Rightarrow> insertPath U | CreateTool \<Rightarrow> createPath U)"

text \<open>The lines of a window, with their numbers, and the bytes a list of lines takes in the output.\<close>

definition windowOf :: "int \<Rightarrow> int \<Rightarrow> nat \<Rightarrow> nat \<Rightarrow> string list \<Rightarrow> readLine list" where
  "windowOf startLine limit have no ls =
     (let zs = filter (\<lambda>l. startLine \<le> int (fst l)) (enumerate (Suc no) (map dropCR ls))
      in if limit > 0 then take (nat limit - have) zs else zs)"

definition outBytes :: "readLine list \<Rightarrow> nat" where
  "outBytes ls = sum_list (map (\<lambda>l. length (snd l) + 1) ls)"

text \<open>A small tree: \<open>/w\<close> with a file and the plans directory; \<open>note.md\<close> there is a link to the file, \<open>out\<close> a link to
  a file outside that does not exist.\<close>

definition toolFS :: fsenv where
  "toolFS = \<lparr>cwd = Some ''/'', evalSymlinks =
     (\<lambda>p. if p = ''/w/.codeagent/plans/note.md'' then EvOk ''/w/a.go''
          else if p \<in> set [''/'', ''/w'', ''/w/a.go'', ''/w/.codeagent'', ''/w/.codeagent/plans'', ''/etc''] then EvOk p
          else EvNotExist)\<rparr>"

definition toolIO :: io_env where
  "toolIO = \<lparr>fileAt = (\<lambda>p. if p = ''/w/.codeagent/plans/note.md'' then ''/w/a.go'' else if p = ''/w/out'' then ''/etc/new'' else p),
     statText = (\<lambda>_. ''no such file''), readFails = (\<lambda>_. False), writeOutcome = (\<lambda>_. WriteOk), mkdirFails = (\<lambda>_. False)\<rparr>"

definition toolCtx :: "bool \<Rightarrow> exec_ctx" where
  "toolCtx plan = \<lparr>ctxRoot = ''/w'', ctxApprover = None, ctxPlanMode = plan, ctxDone = False\<rparr>"

definition toolFiles :: files where
  "toolFiles = Map.empty(''/w'' \<mapsto> DirNode, ''/etc'' \<mapsto> DirNode, ''/w/a.go'' \<mapsto> FileNode (''a'' @ [CR, NL] @ ''b'' @ [CR, NL]) 420)"

definition toolArgs :: "(string \<times> json) list \<Rightarrow> raw_message option" where
  "toolArgs fs = Some (Some (JObject fs))"

definition editArgs :: "string \<Rightarrow> raw_message option" where
  "editArgs p = toolArgs [(''path'', JString p), (''old'', JString ''b''), (''new'', JString ''c'')]"

abbreviation demoEdit :: "bool \<Rightarrow> string \<Rightarrow> reply \<times> files" where
  "demoEdit plan p \<equiv> EditFile asciiTables toolFS toolIO id (\<lambda>_. True) (toolCtx plan) (editArgs p) toolFiles"

abbreviation demoCreate :: "reply \<times> files" where
  "demoCreate \<equiv> CreateFile asciiTables toolFS toolIO (toolCtx False) (toolArgs [(''path'', JString ''out''), (''content'', JString ''x'')]) toolFiles"

abbreviation demoInsert :: "reply \<times> files" where
  "demoInsert \<equiv> InsertFile asciiTables toolFS toolIO (toolCtx False)
     (toolArgs [(''path'', JString ''a.go''), (''line'', JNumber ''1''), (''content'', JString ''x'')]) toolFiles"

subsection \<open>Facts: the gates\<close>

lemma succeeded_failWith [simp]: "\<not> succeeded (failWith k m)"
  by (simp add: failWith_def)

lemma succeeded_okWith [simp]: "succeeded (okWith m w)"
  by (simp add: okWith_def)

lemma gates_admit:
  "resolveWriteTarget U E ec path = Inr (Target t) \<Longrightarrow> checkPlanModeTarget E ec t path verb = None \<Longrightarrow> admitted U E ec path t"
  by (auto simp: resolveWriteTarget_def checkPlanModeTarget_def admitted_def split: option.splits PathClass.splits if_splits)

lemma writeFile_cases:
  assumes "writeFile io path bytes perm fs = (ok, fs')"
  shows "if ok then fs' = fs(fileAt io path \<mapsto> FileNode bytes (case statNode io fs path of Some (FileNode _ q) \<Rightarrow> q | _ \<Rightarrow> perm))
         else fs' = fs \<or> (\<exists>left q. fs' = fs(fileAt io path \<mapsto> FileNode left q))"
  using assms by (auto simp: writeFile_def Let_def split: write_outcome.splits)

lemma writeFile_onlyChanges: "onlyChanges (fileAt io path) fs (snd (writeFile io path bytes perm fs))"
  by (auto simp: writeFile_def Let_def onlyChanges_def split: write_outcome.splits)

lemma mkdirAll_keeps: "fs f = Some n \<Longrightarrow> snd (mkdirAll io path fs) f = Some n"
proof (induction io path fs rule: mkdirAll.induct)
  case (1 io path fs)
  show ?case
  proof (cases "statNode io fs path")
    case None
    then have "f \<noteq> fileAt io path" using "1.prems" by (auto simp: statNode_def)
    then show ?thesis
      using "1.IH" [OF None] "1.prems" None by (subst mkdirAll.simps) (auto simp: case_prod_unfold Let_def)
  next
    case (Some m)
    then show ?thesis using "1.prems" by (subst mkdirAll.simps) (auto split: node.splits)
  qed
qed

lemma mkdirAll_new: "fs f = None \<Longrightarrow> snd (mkdirAll io path fs) f = None \<or> snd (mkdirAll io path fs) f = Some DirNode"
proof (induction io path fs rule: mkdirAll.induct)
  case (1 io path fs)
  show ?case
  proof (cases "statNode io fs path")
    case None
    then show ?thesis
      using "1.IH" [OF None] "1.prems" by (subst (1 2) mkdirAll.simps) (auto simp: case_prod_unfold Let_def)
  next
    case (Some m)
    then show ?thesis using "1.prems" by (subst (1 2) mkdirAll.simps) (auto split: node.splits)
  qed
qed

text \<open>The contract of a writer: it changes files only for an admitted target, and then no file that exists but the
  one the target names.\<close>

locale gated_writer =
  fixes U :: unicode_tables and E :: fsenv and io :: io_env
    and pathOf :: "raw_message option \<Rightarrow> string option"
    and run :: "exec_ctx \<Rightarrow> raw_message option \<Rightarrow> files \<Rightarrow> reply \<times> files"
  assumes gated: "snd (run ec input fs) \<noteq> fs \<Longrightarrow>
    \<exists>path t. pathOf input = Some path \<and> admitted U E ec path t \<and> onlyChanges (fileAt io t) fs (snd (run ec input fs))"
begin

lemma managed_untouched:
  "pathOf input = Some path \<Longrightarrow> Abs E (ctxRoot ec) = Some root \<Longrightarrow> Abs E (ResolveToolPath root path) = Some t \<Longrightarrow>
     ClassifyPath U E root t = PathManagedWorktree \<Longrightarrow> snd (run ec input fs) = fs"
  using gated [of ec input fs] by (auto simp: admitted_def)

lemma outside_needs_approval:
  "pathOf input = Some path \<Longrightarrow> Abs E (ctxRoot ec) = Some root \<Longrightarrow> Abs E (ResolveToolPath root path) = Some t \<Longrightarrow>
     ClassifyPath U E root t = PathOutsideWorkspace \<Longrightarrow> snd (run ec input fs) \<noteq> fs \<Longrightarrow>
     \<exists>ask. ctxApprover ec = Some ask \<and> ask t ''write''"
  using gated [of ec input fs] by (auto simp: admitted_def split: option.splits)

lemma plan_mode_confined:
  "ctxPlanMode ec \<Longrightarrow> Abs E (ctxRoot ec) = Some root \<Longrightarrow> snd (run ec input fs) \<noteq> fs \<Longrightarrow>
     \<exists>t. pathExt t = ''.md'' \<and> IsSubPath (plansDirOf root) t \<and> onlyChanges (fileAt io t) fs (snd (run ec input fs))"
  using gated [of ec input fs] by (auto simp: admitted_def)

lemma sequence_frame:
  "\<forall>path t. pathOf input = Some path \<longrightarrow> admitted U E ec path t \<longrightarrow> g \<noteq> fileAt io t \<Longrightarrow> fs g = Some n \<Longrightarrow>
     snd (run ec input fs) g = Some n"
  using gated [of ec input fs] by (cases "snd (run ec input fs) = fs") (auto simp: onlyChanges_def)

end

subsection \<open>Facts: edit\_file\<close>

lemma openText_fails: "openText io k p t fs = Inl r \<Longrightarrow> \<not> succeeded r"
  by (auto simp: openText_def split: option.splits node.splits if_splits)

lemma openText_file: "openText io k p t fs = Inr (data, perm) \<Longrightarrow> statNode io fs t = Some (FileNode data perm) \<and> validUTF8 data"
  by (auto simp: openText_def split: option.splits node.splits if_splits)

lemma planEdit_fails: "planEdit U E q ec input inp t data = Inl r \<Longrightarrow> \<not> succeeded r"
  by (auto simp: planEdit_def Let_def case_prod_unfold split: if_splits)

lemma EditFile_cases:
  assumes "EditFile U E io q ok ec input fs = (r, fs')"
  obtains (refused) "fs' = fs" "\<not> succeeded r"
  | (wrote) inp t data perm bytes rr w where
      "decodeEdit U input = Some inp" "efPath inp \<noteq> []" "efOld inp \<noteq> []" "efOld inp \<noteq> efNew inp"
      "resolveWriteTarget U E ec (efPath inp) = Inr (Target t)" "checkPlanModeTarget E ec t (efPath inp) ''edit'' = None"
      "openText io ''not_found'' (efPath inp) t fs = Inr (data, perm)"
      "planEdit U E q ec input inp t data = Inr (bytes, rr)"
      "writeFile io t bytes perm fs = (w, fs')" "r = (if w then rr else Inl WriteErr)"
proof (cases "\<exists>inp t data perm bytes rr.
    decodeEdit U input = Some inp \<and> efPath inp \<noteq> [] \<and> efOld inp \<noteq> [] \<and> efOld inp \<noteq> efNew inp \<and>
    resolveWriteTarget U E ec (efPath inp) = Inr (Target t) \<and> checkPlanModeTarget E ec t (efPath inp) ''edit'' = None \<and>
    openText io ''not_found'' (efPath inp) t fs = Inr (data, perm) \<and> planEdit U E q ec input inp t data = Inr (bytes, rr) \<and>
    ok input \<and> \<not> ctxDone ec")
  case True
  then obtain inp t data perm bytes rr where a:
    "decodeEdit U input = Some inp" "efPath inp \<noteq> []" "efOld inp \<noteq> []" "efOld inp \<noteq> efNew inp"
    "resolveWriteTarget U E ec (efPath inp) = Inr (Target t)" "checkPlanModeTarget E ec t (efPath inp) ''edit'' = None"
    "openText io ''not_found'' (efPath inp) t fs = Inr (data, perm)"
    "planEdit U E q ec input inp t data = Inr (bytes, rr)" "ok input" "\<not> ctxDone ec" by blast
  obtain w fs2 where w: "writeFile io t bytes perm fs = (w, fs2)" by fastforce
  then have "fs2 = fs'" "r = (if w then rr else Inl WriteErr)" using assms a by (auto simp: EditFile_def)
  then show ?thesis using wrote a w by blast
next
  case False
  have "fs' = fs \<and> \<not> succeeded r"
    using assms False openText_fails planEdit_fails unfolding EditFile_def
    by (auto split: option.splits sum.splits target.splits if_splits prod.splits)
  then show ?thesis using refused by blast
qed

text \<open>The texts an edit works on.\<close>

lemma planEdit_ok:
  assumes "planEdit U E q ec input inp t data = Inr (bytes, r)"
  defines "content \<equiv> fst (editLFView data)" and "new \<equiv> ReplaceAll (efNew inp) [CR, NL] [NL]"
    and "m \<equiv> locateEdit (fst (editLFView data)) (ReplaceAll (efOld inp) [CR, NL] [NL])"
  shows "found m" "bytes = writtenBytes data (snd (editLFView data)) m new" "succeeded r"
    "new = [] \<Longrightarrow> TrimSpace (matched m) = [] \<or> efAllowDelete inp"
    "take (start m) content @ new @ drop (stop m) content \<noteq> content"
  using assms by (auto simp: planEdit_def Let_def case_prod_unfold editReply_def split: if_splits)

interpretation edit_writer: gated_writer U E io "editPath U" "EditFile U E io q ok" for U E io q ok
proof
  fix ec input fs
  assume c: "snd (EditFile U E io q ok ec input fs) \<noteq> fs"
  obtain r fs' where e: "EditFile U E io q ok ec input fs = (r, fs')" by fastforce
  then show "\<exists>path t. editPath U input = Some path \<and> admitted U E ec path t \<and>
      onlyChanges (fileAt io t) fs (snd (EditFile U E io q ok ec input fs))"
  proof (cases rule: EditFile_cases)
    case (wrote inp t data perm bytes rr w)
    then show ?thesis using gates_admit [OF wrote(5,6)] writeFile_onlyChanges [of io t fs bytes perm] e
      by (auto simp: editPath_def)
  qed (use c e in simp)
qed

text \<open>A successful edit in one step: the file, the match and what is written.\<close>

lemma EditFile_success:
  assumes "EditFile U E io q ok ec input fs = (r, fs')" "succeeded r"
  obtains inp t data perm where "decodeEdit U input = Some inp" "admitted U E ec (efPath inp) t" "efOld inp \<noteq> []"
    "fs (fileAt io t) = Some (FileNode data perm)" "validUTF8 data" "found (locateEdit (fst (editLFView data)) (ReplaceAll (efOld inp) [CR, NL] [NL]))"
    "fs' = fs(fileAt io t \<mapsto> FileNode (writtenBytes data (snd (editLFView data))
       (locateEdit (fst (editLFView data)) (ReplaceAll (efOld inp) [CR, NL] [NL])) (ReplaceAll (efNew inp) [CR, NL] [NL])) perm)"
    "ReplaceAll (efNew inp) [CR, NL] [NL] = [] \<Longrightarrow> TrimSpace (matched (locateEdit (fst (editLFView data)) (ReplaceAll (efOld inp) [CR, NL] [NL]))) = [] \<or> efAllowDelete inp"
  using assms(1)
proof (cases rule: EditFile_cases)
  case (wrote inp t data perm bytes rr w)
  with assms(2) have w: "w" by (cases w) auto
  have o: "fs (fileAt io t) = Some (FileNode data perm)" "validUTF8 data" using openText_file [OF wrote(7)] by (auto simp: statNode_def)
  have "fs' = fs(fileAt io t \<mapsto> FileNode bytes perm)" using writeFile_cases [OF wrote(9)] w o by (simp add: statNode_def)
  with wrote o planEdit_ok [OF wrote(8)] show ?thesis by (intro that [of inp t data perm]) (auto intro: gates_admit)
qed (use assms(2) in simp)


text \<open>An edit that would leave nothing in place of text that is not blank is never applied unless the call says that
  it means to delete.\<close>

theorem EditFile_delete_acknowledged:
  assumes "EditFile U E io q ok ec input fs = (r, fs')" "fs' \<noteq> fs" "decodeEdit U input = Some inp" "efNew inp = []" "\<not> efAllowDelete inp"
  shows "\<exists>t data perm. fs (fileAt io t) = Some (FileNode data perm) \<and> onlyChanges (fileAt io t) fs fs' \<and>
     TrimSpace (matched (locateEdit (fst (editLFView data)) (ReplaceAll (efOld inp) [CR, NL] [NL]))) = []"
  using assms(1)
proof (cases rule: EditFile_cases)
  case (wrote inp' t data perm bytes rr w)
  have "inp' = inp" using wrote(1) assms(3) by simp
  then have "TrimSpace (matched (locateEdit (fst (editLFView data)) (ReplaceAll (efOld inp) [CR, NL] [NL]))) = []"
    using planEdit_ok(4) [OF wrote(8)] assms(4,5) by simp
  moreover have "onlyChanges (fileAt io t) fs fs'" using writeFile_onlyChanges [of io t fs bytes perm] wrote(9) by simp
  ultimately show ?thesis using openText_file [OF wrote(7)] by (auto simp: statNode_def)
qed (use assms(2) in simp)

subsection \<open>Facts: insert\_file\<close>

lemma planInsert_fails: "planInsert E ec inp t data = Inl r \<Longrightarrow> \<not> succeeded r"
  by (auto simp: planInsert_def Let_def case_prod_unfold split: if_splits option.splits)

lemma planInsert_ok:
  assumes "planInsert E ec inp t data = Inr (bytes, r)"
  defines "ins0 \<equiv> ReplaceAll (ifContent inp) [CR, NL] [NL]"
  shows "\<exists>offset n. insertWholeLines (ReplaceAll data [CR, NL] [NL]) (nat (ifLine inp)) (if HasSuffix ins0 [NL] then ins0 else ins0 @ [NL]) =
            Some (bytes, offset, n)" "succeeded r"
  using assms by (auto simp: planInsert_def Let_def split: if_splits option.splits)

lemma InsertFile_cases:
  assumes "InsertFile U E io ec input fs = (r, fs')"
  obtains (refused) "fs' = fs" "\<not> succeeded r"
  | (wrote) inp t data perm bytes rr w where
      "decodeInsert U input = Some inp" "0 \<le> ifLine inp" "ifContent inp \<noteq> []"
      "resolveWriteTarget U E ec (ifPath inp) = Inr (Target t)" "checkPlanModeTarget E ec t (ifPath inp) ''insert into'' = None"
      "openText io ''runtime'' (ifPath inp) t fs = Inr (data, perm)" "planInsert E ec inp t data = Inr (bytes, rr)"
      "writeFile io t bytes perm fs = (w, fs')" "r = (if w then rr else Inl WriteErr)"
proof (cases "\<exists>inp t data perm bytes rr.
    decodeInsert U input = Some inp \<and> ifPath inp \<noteq> [] \<and> ifContent inp \<noteq> [] \<and> 0 \<le> ifLine inp \<and>
    resolveWriteTarget U E ec (ifPath inp) = Inr (Target t) \<and> checkPlanModeTarget E ec t (ifPath inp) ''insert into'' = None \<and>
    openText io ''runtime'' (ifPath inp) t fs = Inr (data, perm) \<and> planInsert E ec inp t data = Inr (bytes, rr) \<and> \<not> ctxDone ec")
  case True
  then obtain inp t data perm bytes rr where a:
    "decodeInsert U input = Some inp" "0 \<le> ifLine inp" "ifPath inp \<noteq> []" "ifContent inp \<noteq> []"
    "resolveWriteTarget U E ec (ifPath inp) = Inr (Target t)" "checkPlanModeTarget E ec t (ifPath inp) ''insert into'' = None"
    "openText io ''runtime'' (ifPath inp) t fs = Inr (data, perm)" "planInsert E ec inp t data = Inr (bytes, rr)" "\<not> ctxDone ec" by blast
  obtain w fs2 where w: "writeFile io t bytes perm fs = (w, fs2)" by fastforce
  then have "fs2 = fs'" "r = (if w then rr else Inl WriteErr)" using assms a by (auto simp: InsertFile_def)
  then show ?thesis using wrote a w by blast
next
  case False
  have "fs' = fs \<and> \<not> succeeded r"
    using assms False openText_fails planInsert_fails unfolding InsertFile_def
    by (auto split: option.splits sum.splits target.splits if_splits prod.splits)
  then show ?thesis using refused by blast
qed

interpretation insert_writer: gated_writer U E io "insertPath U" "InsertFile U E io" for U E io
proof
  fix ec input fs
  assume c: "snd (InsertFile U E io ec input fs) \<noteq> fs"
  obtain r fs' where e: "InsertFile U E io ec input fs = (r, fs')" by fastforce
  then show "\<exists>path t. insertPath U input = Some path \<and> admitted U E ec path t \<and>
      onlyChanges (fileAt io t) fs (snd (InsertFile U E io ec input fs))"
  proof (cases rule: InsertFile_cases)
    case (wrote inp t data perm bytes rr w)
    then show ?thesis using gates_admit [OF wrote(4,5)] writeFile_onlyChanges [of io t fs bytes perm] e
      by (auto simp: insertPath_def)
  qed (use c e in simp)
qed

text \<open>A successful insertion keeps every line of the file and puts the new lines after the given one: the lines of
  the result are the first \<open>line\<close> lines, the inserted lines and the rest, all in the LF view (blank lines at
  the end of a file without a final newline apart).  No other file changes, and the permissions are kept.\<close>

theorem InsertFile_correct:
  assumes "InsertFile U E io ec input fs = (r, fs')" "succeeded r" "decodeInsert U input = Some inp"
  defines "ins \<equiv> ReplaceAll (ifContent inp) [CR, NL] [NL]"
  shows "\<exists>t data data' perm. admitted U E ec (ifPath inp) t \<and> fs (fileAt io t) = Some (FileNode data perm) \<and>
     fs' = fs(fileAt io t \<mapsto> FileNode data' perm) \<and>
     (let content = fst (editLFView data); k = nat (ifLine inp); ls = splitWholeLines content in
      k \<le> length ls \<and>
      (HasSuffix content [NL] \<or> content = [] \<or> k < length ls \<or> last (splitWholeLines ins) \<noteq> [] \<longrightarrow>
       splitWholeLines data' = take k ls @ splitWholeLines ins @ drop k ls))"
  using assms(1)
proof (cases rule: InsertFile_cases)
  case (wrote inp' t data perm bytes rr w)
  have inp: "inp' = inp" using wrote(1) assms(3) by simp
  have w: "w" using wrote(9) assms(2) by (cases w) auto
  have o: "fs (fileAt io t) = Some (FileNode data perm)" using openText_file [OF wrote(6)] by (simp add: statNode_def)
  have fs': "fs' = fs(fileAt io t \<mapsto> FileNode bytes perm)" using writeFile_cases [OF wrote(8)] w o by (simp add: statNode_def)
  have ne: "ins \<noteq> []" using wrote(3) lfView_ne by (simp add: ins_def inp)
  let ?ins = "if HasSuffix ins [NL] then ins else ins @ [NL]" and ?c = "lfView data" and ?k = "nat (ifLine inp)"
  obtain off n where iw: "insertWholeLines ?c ?k ?ins = Some (bytes, off, n)"
    using planInsert_ok(1) [OF wrote(7)] unfolding ins_def inp by blast
  have sp: "splitWholeLines ?ins = splitWholeLines ins" by (rule splitWholeLines_terminated [OF ne])
  have k: "?k \<le> length (splitWholeLines ?c)" using iw by (auto simp: insertWholeLines_unfold Let_def split: if_splits)
  have "splitWholeLines bytes = take ?k (splitWholeLines ?c) @ splitWholeLines ins @ drop ?k (splitWholeLines ?c)"
    if "HasSuffix ?c [NL] \<or> ?c = [] \<or> ?k < length (splitWholeLines ?c) \<or> last (splitWholeLines ins) \<noteq> []"
    using insertWholeLines_lines [of ?ins ?c ?k] that ne iw sp by (simp add: LineCount_lines)
  then show ?thesis using gates_admit [OF wrote(4,5)] o fs' k unfolding inp Let_def editLFView_replace by blast
qed (use assms(2) in simp)

subsection \<open>Facts: create\_file\<close>

lemma CreateFile_cases:
  assumes "CreateFile U E io ec input fs = (r, fs')"
  obtains (refused) "fs' = fs" "\<not> succeeded r"
  | (made) inp t made fs1 where
      "decodeCreate U input = Some inp" "resolveWriteTarget U E ec (cfPath inp) = Inr (Target t)"
      "checkPlanModeTarget E ec t (cfPath inp) ''create'' = None" "statNode io fs t = None"
      "mkdirAll io (pathDir t) fs = (made, fs1)"
      "if made then fs' = snd (writeFile io t (ReplaceAll (cfContent inp) [CR, NL] [NL]) 420 fs1) \<and>
         succeeded r = fst (writeFile io t (ReplaceAll (cfContent inp) [CR, NL] [NL]) 420 fs1)
       else fs' = fs1 \<and> \<not> succeeded r"
proof (cases "\<exists>inp t. decodeCreate U input = Some inp \<and> cfPath inp \<noteq> [] \<and> \<not> ctxDone ec \<and>
    resolveWriteTarget U E ec (cfPath inp) = Inr (Target t) \<and> checkPlanModeTarget E ec t (cfPath inp) ''create'' = None \<and>
    statNode io fs t = None \<and> length (cfContent inp) \<le> maxBytes")
  case True
  then obtain inp t where a: "decodeCreate U input = Some inp" "cfPath inp \<noteq> []" "\<not> ctxDone ec"
    "resolveWriteTarget U E ec (cfPath inp) = Inr (Target t)" "checkPlanModeTarget E ec t (cfPath inp) ''create'' = None"
    "statNode io fs t = None" "length (cfContent inp) \<le> maxBytes" by blast
  obtain made fs1 where m: "mkdirAll io (pathDir t) fs = (made, fs1)" by fastforce
  show ?thesis
    using assms a m by (intro made [OF a(1,4,5,6) m]) (auto simp: CreateFile_def case_prod_unfold Let_def split: if_splits)
next
  case False
  have "fs' = fs \<and> \<not> succeeded r"
    using assms False unfolding CreateFile_def
    by (auto split: option.splits sum.splits target.splits if_splits prod.splits node.splits)
  then show ?thesis using refused by blast
qed

text \<open>What exists stays.\<close>

lemma CreateFile_keeps: "fs f = Some n \<Longrightarrow> snd (CreateFile U E io ec input fs) f = Some n"
proof -
  assume f: "fs f = Some n"
  obtain r fs' where e: "CreateFile U E io ec input fs = (r, fs')" by fastforce
  then show ?thesis
  proof (cases rule: CreateFile_cases)
    case (made inp t mk fs1)
    have f1: "fs1 f = Some n" using mkdirAll_keeps [of fs f n io "pathDir t", OF f] made(5) by simp
    have "f \<noteq> fileAt io t" using made(4) f by (auto simp: statNode_def)
    then have "snd (writeFile io t b 420 fs1) f = Some n" for b
      using writeFile_onlyChanges [of io t fs1 b 420] f1 by (simp add: onlyChanges_def)
    then show ?thesis using made(6) f1 e by (auto split: if_splits)
  qed (use f e in simp)
qed

interpretation create_writer: gated_writer U E io "createPath U" "CreateFile U E io" for U E io
proof
  fix ec input fs
  assume c: "snd (CreateFile U E io ec input fs) \<noteq> fs"
  obtain r fs' where e: "CreateFile U E io ec input fs = (r, fs')" by fastforce
  have frame: "onlyChanges f fs (snd (CreateFile U E io ec input fs))" for f
    using CreateFile_keeps [of fs] by (force simp: onlyChanges_def)
  from e show "\<exists>path t. createPath U input = Some path \<and> admitted U E ec path t \<and>
      onlyChanges (fileAt io t) fs (snd (CreateFile U E io ec input fs))"
  proof (cases rule: CreateFile_cases)
    case (made inp t mk fs1)
    then show ?thesis using gates_admit [OF made(2,3)] frame by (auto simp: createPath_def)
  qed (use c e in simp)
qed

text \<open>Creating a file never changes anything that exists, even when the call fails half way, and a successful
  call leaves the given content, with LF line ends, in a file that did not exist.\<close>

theorem CreateFile_correct:
  "(\<forall>f n. fs f = Some n \<longrightarrow> snd (CreateFile U E io ec input fs) f = Some n) \<and>
   (succeeded (fst (CreateFile U E io ec input fs)) \<longrightarrow>
     (\<exists>inp t. decodeCreate U input = Some inp \<and> admitted U E ec (cfPath inp) t \<and> fs (fileAt io t) = None \<and>
        snd (CreateFile U E io ec input fs) (fileAt io t) = Some (FileNode (ReplaceAll (cfContent inp) [CR, NL] [NL]) 420)))"
proof -
  have "\<exists>inp t. decodeCreate U input = Some inp \<and> admitted U E ec (cfPath inp) t \<and> fs (fileAt io t) = None \<and>
      fs' (fileAt io t) = Some (FileNode (ReplaceAll (cfContent inp) [CR, NL] [NL]) 420)"
    if e: "CreateFile U E io ec input fs = (r, fs')" "succeeded r" for r fs'
    using e(1)
  proof (cases rule: CreateFile_cases)
    case (made inp t mk fs1)
    have none: "fs (fileAt io t) = None" using made(4) by (simp add: statNode_def)
    let ?b = "ReplaceAll (cfContent inp) [CR, NL] [NL]"
    have ok: "fst (writeFile io t ?b 420 fs1)" "fs' = snd (writeFile io t ?b 420 fs1)" using made(6) e(2) by (auto split: if_splits)
    have "statNode io fs1 t \<noteq> Some (FileNode d q)" for d q using mkdirAll_new [of fs "fileAt io t" io "pathDir t"] none made(5) by (auto simp: statNode_def)
    then have "(case statNode io fs1 t of Some (FileNode _ q) \<Rightarrow> q | _ \<Rightarrow> 420) = 420" by (auto split: option.splits node.splits)
    then have "fs' (fileAt io t) = Some (FileNode ?b 420)"
      using writeFile_cases [of io t ?b 420 fs1 True fs'] ok by (cases "writeFile io t ?b 420 fs1") auto
    then show ?thesis using made(1) none gates_admit [OF made(2,3)] by blast
  qed (use e(2) in simp)
  from this [of "fst (CreateFile U E io ec input fs)" "snd (CreateFile U E io ec input fs)"] show ?thesis
    using CreateFile_keeps [of fs _ _ U E io ec input] unfolding prod.collapse by blast
qed

subsection \<open>Facts: all writers\<close>

interpretation writer: gated_writer U E io "writerPath U tool" "runWriter U E io q ok tool" for U E io q ok tool
  by (cases tool)
     (auto simp: runWriter_def writerPath_def intro: edit_writer.gated_writer_axioms insert_writer.gated_writer_axioms
        create_writer.gated_writer_axioms)

lemma SplitByte_append: "SplitByte b (x @ b # s) = SplitByte b x @ SplitByte b s"
proof (induction x)
  case (Cons y x)
  obtain w ws where "SplitByte b x = w # ws" using SplitByte_ne by (metis list.exhaust)
  with Cons show ?case by auto
qed simp

lemma IsAbs_append: "IsAbs r \<Longrightarrow> IsAbs (r @ s)"
  by (cases r) (auto simp: IsAbs_def)

lemma IsAbs_Abs: "Abs E p = Some q \<Longrightarrow> cwd E = Some wd \<Longrightarrow> IsAbs wd \<Longrightarrow> IsAbs q"
  using IsAbs_append [of wd] by (cases "wd = []") (auto simp: Abs_def IsAbs_Clean IsAbs_def [of "[]"] split: if_splits)

lemma plansDirOf_comps:
  assumes "IsAbs root"
  shows "IsAbs (plansDirOf root)" "cleanComps (plansDirOf root) = cleanComps root @ [''.codeagent'', ''plans'']"
proof -
  let ?p = "root @ SLASH # ''.codeagent'' @ SLASH # ''plans''"
  have p: "plansDirOf root = Clean ?p" using assms by (cases root) (auto simp: plansDirOf_def IsAbs_def)
  have a: "IsAbs ?p" by (rule IsAbs_append [OF assms])
  have "SplitByte SLASH (''.codeagent'' @ SLASH # ''plans'') = [''.codeagent'', ''plans'']" by code_simp
  then have "SplitByte SLASH ?p = SplitByte SLASH root @ [''.codeagent'', ''plans'']" using SplitByte_append by simp
  then have "cleanComps ?p = cleanComps root @ [''.codeagent'', ''plans'']"
    using a assms by (simp add: cleanComps_def pushComp_def)
  then show "IsAbs (plansDirOf root)" "cleanComps (plansDirOf root) = cleanComps root @ [''.codeagent'', ''plans'']"
    using p a by (simp_all add: IsAbs_Clean cleanComps_Clean)
qed


subsection \<open>Facts: read\_file\<close>

lemma outBytes_simps [simp]: "outBytes [] = 0" "outBytes (l # ls) = length (snd l) + 1 + outBytes ls"
  by (simp_all add: outBytes_def)

lemma windowOf_Cons:
  "windowOf s l k no (x # ls) =
     (if int (Suc no) < s then windowOf s l k (Suc no) ls
      else if l > 0 \<and> int k \<ge> l then []
      else (Suc no, dropCR x) # windowOf s l (Suc k) (Suc no) ls)"
proof (cases "l > 0 \<and> \<not> int k \<ge> l")
  case True
  then have "k < nat l" by auto
  then have "nat l - k = Suc (nat l - Suc k)" by simp
  then show ?thesis using True by (simp add: windowOf_def Let_def)
qed (auto simp: windowOf_def Let_def)

lemma scanLoop_window:
  "scanLoop mb s l w no out col ls = Inr (c, tr) \<Longrightarrow> (w \<longrightarrow> out \<le> mb) \<Longrightarrow>
     \<exists>ys. c = col @ ys \<and> prefix ys (windowOf s l (length col) no ls) \<and> (\<forall>y \<in> set ys. validUTF8 (snd y)) \<and>
       (w \<longrightarrow> out + outBytes ys \<le> mb) \<and>
       (if tr then w \<and> length ys < length (windowOf s l (length col) no ls) \<and>
                  mb < out + outBytes (take (Suc (length ys)) (windowOf s l (length col) no ls))
        else ys = windowOf s l (length col) no ls)"
proof (induction mb s l w no out col ls arbitrary: c tr rule: scanLoop.induct)
  case (1 mb s l w no out col)
  then show ?case by (auto simp: windowOf_def)
next
  case (2 mb s l w no out col x ls)
  let ?t = "dropCR x" and ?w = "windowOf s l (length col) no (x # ls)"
  have short: "\<not> maxScanLine \<le> length x" using "2.prems"(1) by (auto split: if_splits)
  consider (skip) "int (no + 1) < s" | (full) "\<not> int (no + 1) < s" "l > 0 \<and> int (length col) \<ge> l"
    | (cut) "\<not> int (no + 1) < s" "\<not> (l > 0 \<and> int (length col) \<ge> l)" "validUTF8 ?t" "w" "out + length ?t + 1 > mb"
    | (keep) "\<not> int (no + 1) < s" "\<not> (l > 0 \<and> int (length col) \<ge> l)" "validUTF8 ?t" "\<not> (w \<and> out + length ?t + 1 > mb)"
    using "2.prems"(1) short by (auto simp: Let_def split: if_splits)
  then show ?case
  proof cases
    case skip
    have "?w = windowOf s l (length col) (no + 1) ls" using skip by (simp add: windowOf_Cons)
    moreover have "scanLoop mb s l w (no + 1) out col ls = Inr (c, tr)" using "2.prems"(1) short skip by simp
    ultimately show ?thesis using "2.IH"(1) [OF short refl refl refl skip] "2.prems"(2) by metis
  next
    case full
    then show ?thesis using "2.prems" short by (simp add: windowOf_Cons)
  next
    case cut
    then have "?w = (Suc no, ?t) # windowOf s l (Suc (length col)) (Suc no) ls" by (simp add: windowOf_Cons)
    then show ?thesis using cut "2.prems" short by (intro exI [of _ "[]"]) (auto simp: Let_def split: if_splits)
  next
    case keep
    let ?w' = "windowOf s l (length (col @ [(no + 1, ?t)])) (no + 1) ls"
    have w: "?w = (Suc no, ?t) # ?w'" using keep by (simp add: windowOf_Cons)
    have "scanLoop mb s l w (no + 1) (out + length ?t + 1) (col @ [(no + 1, ?t)]) ls = Inr (c, tr)"
      using "2.prems"(1) short keep by (auto simp: Let_def split: if_splits)
    moreover have "\<not> \<not> validUTF8 ?t" "w \<longrightarrow> out + length ?t + 1 \<le> mb" using keep by auto
    ultimately obtain ys where
      "c = (col @ [(no + 1, ?t)]) @ ys" "prefix ys ?w'" "\<forall>y \<in> set ys. validUTF8 (snd y)"
      "w \<longrightarrow> out + length ?t + 1 + outBytes ys \<le> mb"
      "if tr then w \<and> length ys < length ?w' \<and> mb < out + length ?t + 1 + outBytes (take (Suc (length ys)) ?w') else ys = ?w'"
      using "2.IH"(2) [OF short refl refl refl keep(1,2) _ keep(4)] by blast
    then show ?thesis using keep w by (intro exI [of _ "(Suc no, ?t) # ys"]) (auto split: if_splits)
  qed
qed

lemma scanLoop_total:
  "\<forall>x \<in> set ls. length x < maxScanLine \<and> validUTF8 (dropCR x) \<Longrightarrow> \<exists>c tr. scanLoop mb s l w no out col ls = Inr (c, tr)"
  by (induction mb s l w no out col ls rule: scanLoop.induct) (auto simp: Let_def)


lemma ReplaceAll_NL_noNL: "NL \<notin> set s \<Longrightarrow> lfView s = s"
  by (induction s) (auto simp: HasPrefix_iff dest!: set_mono_prefix)

lemma lfView_line: "NL \<notin> set l \<Longrightarrow> lfView (l @ NL # s) = dropCR l @ NL # lfView s"
proof (cases l rule: rev_cases)
  case (snoc l' c)
  assume "NL \<notin> set l"
  with snoc have n: "NL \<notin> set l'" by simp
  show ?thesis
  proof (cases "c = CR")
    case True
    have "lfView (l' @ CR # NL # s) = lfView l' @ lfView (CR # NL # s)" by (rule lfView_append) simp
    then show ?thesis using snoc True n by (simp add: dropCR_def ReplaceAll_NL_noNL)
  next
    case False
    have "lfView (l @ NL # s) = lfView l @ lfView (NL # s)" using snoc False by (intro lfView_append) simp
    then show ?thesis using snoc False \<open>NL \<notin> set l\<close> by (simp add: dropCR_def ReplaceAll_NL_noNL)
  qed
qed (simp add: dropCR_def)

lemma lfView_lines:
  "ls \<noteq> [] \<Longrightarrow> list_all (\<lambda>l. NL \<notin> set l) ls \<Longrightarrow> lfView (Join ls [NL] @ [NL]) = Join (map dropCR ls) [NL] @ [NL]"
proof (induction ls)
  case (Cons l ls)
  then show ?case using lfView_line [of l "[]"] lfView_line [of l "Join ls [NL] @ [NL]"] by (cases ls) auto
qed simp

text \<open>Reads and edits see the same text: the lines a read takes from a file that ends with a newline, joined
  again, are the LF view that edits are matched against.\<close>

theorem read_view_is_edit_view:
  "Join (map dropCR (rawLines (s @ [NL]))) [NL] @ [NL] = fst (editLFView (s @ [NL]))"
proof -
  have "s @ [NL] = Join (SplitByte NL s) [NL] @ [NL]" by (simp add: Join_SplitByte)
  moreover have "list_all (\<lambda>l. NL \<notin> set l) (SplitByte NL s)" by (auto simp: list_all_iff dest: SplitByte_comp)
  ultimately show ?thesis
    using lfView_lines [OF SplitByte_ne [of NL s]] by (simp add: rawLines_def splitWholeLines_snoc editLFView_replace)
qed

subsection \<open>Concrete runs\<close>

lemma tool_decode:
  "decodeEdit asciiTables (editArgs p) = Some \<lparr>efPath = p, efOld = ''b'', efNew = ''c'', efAllowDelete = False\<rparr>"
  by (simp add: editArgs_def toolArgs_def decodeEdit_def unmarshalString_def unmarshalBool_def lowerByte_def byteIn_def)

lemma demo_gates:
  "resolveWriteTarget asciiTables toolFS (toolCtx plan) ''a.go'' = Inr (Target ''/w/a.go'')"
  "resolveWriteTarget asciiTables toolFS (toolCtx plan) ''.codeagent/plans/note.md'' = Inr (Target ''/w/.codeagent/plans/note.md'')"
  "resolveWriteTarget asciiTables toolFS (toolCtx plan) ''out'' = Inr (Target ''/w/out'')"
  "checkPlanModeTarget toolFS (toolCtx False) t p v = None"
  "checkPlanModeTarget toolFS (toolCtx True) ''/w/.codeagent/plans/note.md'' p v = None"
  "checkPlanModeTarget toolFS (toolCtx True) ''/w/a.go'' p v = Some (PlanModeRefused v p)"
proof -
  have c: "resolveWriteTarget U E (toolCtx plan) p = resolveWriteTarget U E (toolCtx False) p" for U E p
  proof -
    have "ctxRoot (toolCtx plan) = ctxRoot (toolCtx False)" "ctxApprover (toolCtx plan) = ctxApprover (toolCtx False)"
      by (simp_all add: toolCtx_def)
    then show ?thesis by (simp only: resolveWriteTarget_def)
  qed
  show "resolveWriteTarget asciiTables toolFS (toolCtx plan) ''a.go'' = Inr (Target ''/w/a.go'')"
    "resolveWriteTarget asciiTables toolFS (toolCtx plan) ''.codeagent/plans/note.md'' = Inr (Target ''/w/.codeagent/plans/note.md'')"
    "resolveWriteTarget asciiTables toolFS (toolCtx plan) ''out'' = Inr (Target ''/w/out'')"
    unfolding c [of _ _ "''a.go''"] c [of _ _ "''out''"] c [of _ _ "''.codeagent/plans/note.md''"] by code_simp+
  have "Abs toolFS ''/w'' = Some ''/w''" "IsSubPath (plansDirOf ''/w'') ''/w/.codeagent/plans/note.md''"
    "pathExt ''/w/.codeagent/plans/note.md'' = ''.md''" "pathExt ''/w/a.go'' \<noteq> ''.md''" by code_simp+
  then show "checkPlanModeTarget toolFS (toolCtx False) t p v = None"
    "checkPlanModeTarget toolFS (toolCtx True) ''/w/.codeagent/plans/note.md'' p v = None"
    "checkPlanModeTarget toolFS (toolCtx True) ''/w/a.go'' p v = Some (PlanModeRefused v p)"
    by (simp_all add: checkPlanModeTarget_def toolCtx_def)
qed

lemma demo_file:
  "fileAt toolIO ''/w/a.go'' = ''/w/a.go''" "fileAt toolIO ''/w/.codeagent/plans/note.md'' = ''/w/a.go''"
  "fileAt toolIO ''/w/out'' = ''/etc/new''"
  "toolFiles ''/w/a.go'' = Some (FileNode (''a'' @ [CR, NL] @ ''b'' @ [CR, NL]) 420)" "toolFiles ''/etc/new'' = None"
  "toolFiles ''/w'' = Some DirNode"
  by (simp_all add: toolIO_def toolFiles_def)

lemma demo_text:
  "editLFView (''a'' @ [CR, NL] @ ''b'' @ [CR, NL]) = (''a'' @ [NL] @ ''b'' @ [NL], [0, 1, 3, 4, 6])"
  "locateEdit (''a'' @ [NL] @ ''b'' @ [NL]) ''b'' = matchAt 2 ''b''"
  "writtenBytes (''a'' @ [CR, NL] @ ''b'' @ [CR, NL]) [0, 1, 3, 4, 6] (matchAt 2 ''b'') ''c'' = ''a'' @ [CR, NL] @ ''c'' @ [CR, NL]"
  "validUTF8 (''a'' @ [CR, NL] @ ''b'' @ [CR, NL])"
  by code_simp+

lemma demo_open:
  "fileAt toolIO t = ''/w/a.go'' \<Longrightarrow> openText toolIO k p t toolFiles = Inr (''a'' @ [CR, NL] @ ''b'' @ [CR, NL], 420)"
  using demo_text(4) by (simp add: openText_def statNode_def demo_file maxBytes_def toolIO_def)

lemma demo_plan:
  "\<exists>r. planEdit U E q ec i \<lparr>efPath = p, efOld = ''b'', efNew = ''c'', efAllowDelete = False\<rparr> t (''a'' @ [CR, NL] @ ''b'' @ [CR, NL]) =
     Inr (''a'' @ [CR, NL] @ ''c'' @ [CR, NL], r) \<and> succeeded r"
  using demo_text(1-3) by (simp add: planEdit_def editReply_def Let_def matchAt_def noMatch_def)

lemma demo_edit:
  assumes "resolveWriteTarget asciiTables toolFS (toolCtx plan) p = Inr (Target t)"
    "checkPlanModeTarget toolFS (toolCtx plan) t p ''edit'' = None" "fileAt toolIO t = ''/w/a.go''" "p \<noteq> []"
  shows "\<exists>r. demoEdit plan p = (r, toolFiles(''/w/a.go'' \<mapsto> FileNode (''a'' @ [CR, NL] @ ''c'' @ [CR, NL]) 420)) \<and> succeeded r"
proof -
  obtain r where "planEdit asciiTables toolFS id (toolCtx plan) (editArgs p)
      \<lparr>efPath = p, efOld = ''b'', efNew = ''c'', efAllowDelete = False\<rparr> t (''a'' @ [CR, NL] @ ''b'' @ [CR, NL]) =
     Inr (''a'' @ [CR, NL] @ ''c'' @ [CR, NL], r)" "succeeded r" using demo_plan by blast
  moreover have "\<not> ctxDone (toolCtx plan)" by (simp add: toolCtx_def)
  moreover have "writeFile toolIO t b 420 toolFiles = (True, toolFiles(''/w/a.go'' \<mapsto> FileNode b 420))" for b
    using assms(3) by (simp add: writeFile_def statNode_def demo_file toolIO_def)
  ultimately show ?thesis
    using assms demo_open [OF assms(3)] unfolding EditFile_def by (simp add: tool_decode)
qed

text \<open>In plan mode the gate compares the path as it is written: a link below the plans directory lets an edit change a
  project file.\<close>

theorem plan_mode_symlink_write:
  "succeeded (fst (demoEdit True ''.codeagent/plans/note.md'')) \<and>
   snd (demoEdit True ''.codeagent/plans/note.md'') ''/w/a.go'' = Some (FileNode (''a'' @ [CR, NL] @ ''c'' @ [CR, NL]) 420) \<and>
   fst (demoEdit True ''a.go'') = Inl (PlanModeRefused ''edit'' ''a.go'')"
proof -
  have "\<not> ctxDone (toolCtx True)" by (simp add: toolCtx_def)
  then have "fst (demoEdit True ''a.go'') = Inl (PlanModeRefused ''edit'' ''a.go'')"
    by (simp add: EditFile_def tool_decode demo_gates)
  then show ?thesis using demo_edit [OF demo_gates(2,5) demo_file(2)] by fastforce
qed

lemma demo_create:
  "decodeCreate asciiTables (toolArgs [(''path'', JString ''out''), (''content'', JString ''x'')]) = Some \<lparr>cfPath = ''out'', cfContent = ''x''\<rparr>"
  "succeeded (fst demoCreate)" "snd demoCreate ''/etc/new'' = Some (FileNode ''x'' 420)"
proof -
  show d: "decodeCreate asciiTables (toolArgs [(''path'', JString ''out''), (''content'', JString ''x'')]) = Some \<lparr>cfPath = ''out'', cfContent = ''x''\<rparr>"
    by (simp add: toolArgs_def decodeCreate_def unmarshalString_def lowerByte_def byteIn_def)
  have p: "pathDir ''/w/out'' = ''/w''" by code_simp
  have m: "mkdirAll toolIO ''/w'' toolFiles = (True, toolFiles)"
    by (subst mkdirAll.simps) (simp add: statNode_def toolIO_def toolFiles_def)
  have s: "statNode toolIO toolFiles ''/w/out'' = None" by (simp add: statNode_def demo_file)
  have w: "writeFile toolIO ''/w/out'' b 420 toolFiles = (True, toolFiles(''/etc/new'' \<mapsto> FileNode b 420))" for b
    using s by (simp add: writeFile_def toolIO_def)
  have "\<not> ctxDone (toolCtx False)" "ctxApprover (toolCtx False) = None" by (simp_all add: toolCtx_def)
  then show "succeeded (fst demoCreate)" "snd demoCreate ''/etc/new'' = Some (FileNode ''x'' 420)"
    by (simp_all add: CreateFile_def d demo_gates s p m w maxBytes_def Let_def)
qed

text \<open>A link to a file that does not exist counts as a new file in the workspace, so that creating it writes
  outside, without an approver.\<close>

theorem create_through_dangling_link:
  "succeeded (fst demoCreate) \<and> snd demoCreate ''/etc/new'' = Some (FileNode ''x'' 420) \<and> ctxApprover (toolCtx False) = None"
  using demo_create by (simp add: toolCtx_def)

lemma tool_insert:
  "decodeInsert asciiTables (toolArgs [(''path'', JString ''a.go''), (''line'', JNumber ''1''), (''content'', JString ''x'')]) =
     Some \<lparr>ifPath = ''a.go'', ifLine = 1, ifContent = ''x''\<rparr>"
  "succeeded (fst demoInsert)" "snd demoInsert = toolFiles(''/w/a.go'' \<mapsto> FileNode (''a'' @ [NL] @ ''x'' @ [NL] @ ''b'' @ [NL]) 420)"
proof -
  have n: "Atoi ''1'' = Some 1" by (simp add: Atoi_def byteIn_def)
  show d: "decodeInsert asciiTables (toolArgs [(''path'', JString ''a.go''), (''line'', JNumber ''1''), (''content'', JString ''x'')]) =
      Some \<lparr>ifPath = ''a.go'', ifLine = 1, ifContent = ''x''\<rparr>"
    by (simp add: toolArgs_def decodeInsert_def unmarshalString_def unmarshalLine_def lineNumberJSON_def n lowerByte_def byteIn_def)
  have i: "insertWholeLines (''a'' @ [NL] @ ''b'' @ [NL]) 1 (''x'' @ [NL]) = Some (''a'' @ [NL] @ ''x'' @ [NL] @ ''b'' @ [NL], 2, 1)" by code_simp
  have c: "lfView (''a'' @ [CR, NL] @ ''b'' @ [CR, NL]) = ''a'' @ [NL] @ ''b'' @ [NL]" "lfView ''x'' = ''x''" "\<not> HasSuffix ''x'' [NL]" by code_simp+
  have "\<exists>r. planInsert E ec \<lparr>ifPath = ''a.go'', ifLine = 1, ifContent = ''x''\<rparr> t (''a'' @ [CR, NL] @ ''b'' @ [CR, NL]) =
      Inr (''a'' @ [NL] @ ''x'' @ [NL] @ ''b'' @ [NL], r) \<and> succeeded r" for E ec t
    using i c by (simp add: planInsert_def Let_def maxBytes_def)
  then obtain r where r: "planInsert toolFS (toolCtx False) \<lparr>ifPath = ''a.go'', ifLine = 1, ifContent = ''x''\<rparr> ''/w/a.go'' (''a'' @ [CR, NL] @ ''b'' @ [CR, NL]) =
      Inr (''a'' @ [NL] @ ''x'' @ [NL] @ ''b'' @ [NL], r)" "succeeded r" by blast
  have w: "writeFile toolIO ''/w/a.go'' b 420 toolFiles = (True, toolFiles(''/w/a.go'' \<mapsto> FileNode b 420))" for b
    by (simp add: writeFile_def statNode_def demo_file toolIO_def)
  have "\<not> ctxDone (toolCtx False)" by (simp add: toolCtx_def)
  then show "succeeded (fst demoInsert)"
    "snd demoInsert = toolFiles(''/w/a.go'' \<mapsto> FileNode (''a'' @ [NL] @ ''x'' @ [NL] @ ''b'' @ [NL]) 420)"
    using r demo_open [OF demo_file(1)] by (simp_all add: InsertFile_def d demo_gates w Let_def)
qed

text \<open>An insertion rewrites the line ends of the whole file.\<close>

theorem insert_rewrites_line_ends:
  "toolFiles ''/w/a.go'' = Some (FileNode (''a'' @ [CR, NL] @ ''b'' @ [CR, NL]) 420) \<and> succeeded (fst demoInsert) \<and>
   snd demoInsert ''/w/a.go'' = Some (FileNode (''a'' @ [NL] @ ''x'' @ [NL] @ ''b'' @ [NL]) 420)"
  using tool_insert demo_file by simp

subsection \<open>Witnesses\<close>


theorem CreateFile_correct_witness: "toolFiles ''/etc/new'' = None \<and> snd demoCreate ''/w'' = Some DirNode \<and> snd demoCreate ''/etc/new'' = Some (FileNode ''x'' 420)"
  using CreateFile_correct [of toolFiles asciiTables toolFS toolIO "toolCtx False" "toolArgs [(''path'', JString ''out''), (''content'', JString ''x'')]"]
    demo_create demo_file by blast

theorem InsertFile_correct_witness:
  "splitWholeLines (''a'' @ [NL] @ ''x'' @ [NL] @ ''b'' @ [NL]) = [''a'', ''x'', ''b'']"
proof -
  have e: "demoInsert = (fst demoInsert, snd demoInsert)" by simp
  obtain t data data' perm where t: "admitted asciiTables toolFS (toolCtx False) ''a.go'' t" "toolFiles (fileAt toolIO t) = Some (FileNode data perm)"
    "snd demoInsert = toolFiles(fileAt toolIO t \<mapsto> FileNode data' perm)"
    "HasSuffix (fst (editLFView data)) [NL] \<longrightarrow>
      splitWholeLines data' = take 1 (splitWholeLines (fst (editLFView data))) @ splitWholeLines (ReplaceAll ''x'' [CR, NL] [NL]) @ drop 1 (splitWholeLines (fst (editLFView data)))"
    using InsertFile_correct [OF e tool_insert(2,1)] by (auto simp: Let_def)
  have "t = ''/w/a.go''"
    using t(1) demo_gates(1) [of False] by (auto simp: admitted_def resolveWriteTarget_def split: option.splits PathClass.splits if_splits)
  then have d: "data = ''a'' @ [CR, NL] @ ''b'' @ [CR, NL]" "data' = ''a'' @ [NL] @ ''x'' @ [NL] @ ''b'' @ [NL]"
    using t(2,3) demo_file tool_insert(3) by (auto dest: fun_cong [of _ _ "''/w/a.go''"])
  have "splitWholeLines (''a'' @ [NL] @ ''b'' @ [NL]) = [''a'', ''b'']" "splitWholeLines (ReplaceAll ''x'' [CR, NL] [NL]) = [''x'']"
    "HasSuffix (''a'' @ [NL] @ ''b'' @ [NL]) [NL]" by code_simp+
  then show ?thesis using t(4) demo_text(1) unfolding d by simp
qed


text \<open>Deleting a blank line needs no acknowledgement; deleting text does.\<close>

lemma demo_delete:
  "\<exists>r. planEdit U E q ec i \<lparr>efPath = p, efOld = [NL, NL], efNew = [], efAllowDelete = False\<rparr> t (''a'' @ [NL, NL]) = Inr (''a'', r)"
proof -
  have "editLFView (''a'' @ [NL, NL]) = (''a'' @ [NL, NL], [0, 1, 2, 3])" "ReplaceAll [NL, NL] [CR, NL] [NL] = [NL, NL]"
    "locateEdit (''a'' @ [NL, NL]) [NL, NL] = matchAt 1 [NL, NL]" "TrimSpace [NL, NL] = []"
    "writtenBytes (''a'' @ [NL, NL]) [0, 1, 2, 3] (matchAt 1 [NL, NL]) [] = ''a''" by code_simp+
  then show ?thesis by (simp add: planEdit_def Let_def matchAt_def noMatch_def)
qed

theorem EditFile_delete_acknowledged_witness:
  "let fs = toolFiles(''/w/a.go'' \<mapsto> FileNode (''a'' @ [NL, NL]) 420)
   in \<exists>t data perm. fs (fileAt toolIO t) = Some (FileNode data perm) \<and> TrimSpace (matched (locateEdit (fst (editLFView data)) [NL, NL])) = []"
proof -
  let ?fs = "toolFiles(''/w/a.go'' \<mapsto> FileNode (''a'' @ [NL, NL]) 420)" and ?i = "toolArgs [(''path'', JString ''a.go''), (''old'', JString [NL, NL]), (''new'', JString [])]"
  let ?inp = "\<lparr>efPath = ''a.go'', efOld = [NL, NL], efNew = [], efAllowDelete = False\<rparr>"
  have d: "decodeEdit asciiTables ?i = Some ?inp"
    by (simp add: toolArgs_def decodeEdit_def unmarshalString_def unmarshalBool_def lowerByte_def byteIn_def)
  obtain r where r: "planEdit asciiTables toolFS id (toolCtx False) ?i ?inp ''/w/a.go'' (''a'' @ [NL, NL]) = Inr (''a'', r)" using demo_delete by blast
  have v: "validUTF8 (''a'' @ [NL, NL])" "ReplaceAll [NL, NL] [CR, NL] [NL] = [NL, NL]" by code_simp+
  have o: "openText toolIO k p ''/w/a.go'' ?fs = Inr (''a'' @ [NL, NL], 420)" for k p
    using v(1) by (simp add: openText_def statNode_def maxBytes_def toolIO_def)
  have w: "writeFile toolIO ''/w/a.go'' b 420 ?fs = (True, ?fs(''/w/a.go'' \<mapsto> FileNode b 420))" for b
    by (simp add: writeFile_def statNode_def toolIO_def)
  have "\<not> ctxDone (toolCtx False)" by (simp add: toolCtx_def)
  then have e: "EditFile asciiTables toolFS toolIO id (\<lambda>_. True) (toolCtx False) ?i ?fs = (r, ?fs(''/w/a.go'' \<mapsto> FileNode ''a'' 420))"
    using r o w by (simp add: EditFile_def d demo_gates)
  have n: "?fs(''/w/a.go'' \<mapsto> FileNode ''a'' 420) \<noteq> ?fs" by (auto dest: fun_cong [of _ _ "''/w/a.go''"])
  from EditFile_delete_acknowledged [OF e n d] obtain t data perm where
    "?fs (fileAt toolIO t) = Some (FileNode data perm)" "TrimSpace (matched (locateEdit (fst (editLFView data)) [NL, NL])) = []"
    using v(2) by auto
  then show ?thesis unfolding Let_def by blast
qed


end
