(* ===== verification/Session.thy ===== *)
theory Session
  imports Json Truncate
begin

section \<open>Sessions\<close>

text \<open>
  One conversation, \<^verbatim>\<open>internal/session\<close>: the messages (\<^verbatim>\<open>internal/model/types.go\<close>), the session and its repairs
  (\<^verbatim>\<open>session.go\<close>), the turn status kept in the metadata (\<^verbatim>\<open>lifecycle.go\<close>), compaction (\<^verbatim>\<open>compactor.go\<close>,
  \<^verbatim>\<open>compaction_stats.go\<close>, \<^verbatim>\<open>budget.go\<close>), pruning (\<^verbatim>\<open>prune.go\<close>) and forks (\<^verbatim>\<open>fork.go\<close>).

  An instant is an integer, with 0 for Go's zero time.  The numbers in the metadata are whole: the runtime
  stores only counts and seconds there.  The ratio of a compaction statistic is a float and left out.  The
  model that writes a summary is a parameter, and so is the parser of JSON texts.
\<close>

subsection \<open>Messages\<close>

datatype Role = RoleUser | RoleSystem | RoleAssistant | RoleTool | RoleOther string

record ToolCall =
  tcID :: string
  tcType :: string
  fnName :: string
  fnArguments :: string

record GatewayAssetRef =
  gaAssetID :: int
  gaSHA256 :: string
  gaKind :: string
  gaMIMEType :: string
  gaFilename :: string

record LocalAssetRef =
  laID :: string
  laRelativePath :: string
  laFilename :: string
  laMIMEType :: string
  laKind :: string
  laSizeBytes :: int
  laSHA256 :: string
  laTransferPolicy :: string

record WebSearchCall =
  wsType :: string
  wsID :: string
  wsStatus :: string
  wsAction :: raw_message
  wsSearchConfig :: raw_message

record ContentPart =
  cpType :: string
  cpText :: string
  cpImageURL :: "string option"

record Message =
  mRole :: Role
  mContent :: string
  mReasoningContent :: string
  mContentParts :: "ContentPart list"
  mAssets :: "GatewayAssetRef list"
  mLocalAssets :: "LocalAssetRef list"
  mOriginTurnID :: string
  mRuntimeInput :: bool
  mRuntimeInputReceipts :: "string list"
  mToolCalls :: "ToolCall list"
  mWebSearchCalls :: "WebSearchCall list"
  mToolCallID :: string

definition newMessage :: "Role \<Rightarrow> string \<Rightarrow> Message" where
  "newMessage r c = \<lparr>mRole = r, mContent = c, mReasoningContent = [], mContentParts = [], mAssets = [], mLocalAssets = [],
     mOriginTurnID = [], mRuntimeInput = False, mRuntimeInputReceipts = [], mToolCalls = [], mWebSearchCalls = [],
     mToolCallID = []\<rparr>"

datatype call_error = EmptyCallID | UnsupportedType string | EmptyFunctionName | MalformedArguments | NotAnObject string

definition jsonKind :: "json \<Rightarrow> string" where
  "jsonKind v = (case v of JObject _ \<Rightarrow> ''object'' | JArray _ \<Rightarrow> ''array'' | JString _ \<Rightarrow> ''string'' | JNumber _ \<Rightarrow> ''number''
     | JBool _ \<Rightarrow> ''boolean'' | JNull \<Rightarrow> ''null'')"

definition ValidateForHistory :: "(string \<Rightarrow> raw_message) \<Rightarrow> ToolCall \<Rightarrow> call_error option" where
  "ValidateForHistory parse c =
     (if TrimSpace (tcID c) = [] then Some EmptyCallID
      else if tcType c \<noteq> ''function'' then Some (UnsupportedType (tcType c))
      else if TrimSpace (fnName c) = [] then Some EmptyFunctionName
      else
        (case parse (fnArguments c) of
           None \<Rightarrow> Some MalformedArguments
         | Some (JObject _) \<Rightarrow> None
         | Some v \<Rightarrow> Some (NotAnObject (jsonKind v))))"

definition IsEmptyAssistantNoOp :: "Message \<Rightarrow> bool" where
  "IsEmptyAssistantNoOp m = (mRole m = RoleAssistant \<and> TrimSpace (mContent m) = [] \<and> mToolCalls m = [])"

subsection \<open>The session\<close>

record CompactionStats =
  BeforeTokens :: int
  AfterTokens :: int
  SavedTokens :: int
  SummaryChars :: int
  CompactedAt :: int

record WorkspaceRef =
  wrRoot :: string
  wrRel :: string
  wrExtID :: string
  wrAbsHint :: string

record LedgerEntry =
  leHandle :: string
  leRawValue :: string
  leKind :: string
  leProducerCallID :: string
  leSessionID :: string
  leCreatedAt :: int
  leExpiresAt :: int
  leScope :: string

datatype metaval = MetaString string | MetaNumber int | MetaOther json

record Session =
  sID :: string
  sWorkspacePath :: string
  sWorkspace :: WorkspaceRef
  sName :: string
  sModel :: string
  sReasoningEffort :: string
  sMessages :: "Message list"
  sMetadata :: "string \<rightharpoonup> metaval"
  sReferenceLedger :: "LedgerEntry list"
  sSummary :: string
  sPromptTokens :: int
  sContextWindow :: int
  sCompactThreshold :: int
  sCompactions :: "CompactionStats list"
  sCreatedAt :: int
  sUpdatedAt :: int
  sArchivedAt :: int

definition IsEmpty :: "Session \<Rightarrow> bool" where
  "IsEmpty s = (length (sMessages s) \<le> 1)"

definition RemoveEmptyAssistantNoOps :: "Session \<Rightarrow> nat \<times> Session" where
  "RemoveEmptyAssistantNoOps s =
     (let kept = filter (\<lambda>m. \<not> IsEmptyAssistantNoOp m) (sMessages s)
      in (length (sMessages s) - length kept, s\<lparr>sMessages := kept\<rparr>))"

fun firstInvalidCall :: "(string \<Rightarrow> raw_message) \<Rightarrow> nat \<Rightarrow> ToolCall list \<Rightarrow> (nat \<times> call_error) option" where
  "firstInvalidCall parse j [] = None"
| "firstInvalidCall parse j (c # cs) =
     (case ValidateForHistory parse c of Some e \<Rightarrow> Some (j, e) | None \<Rightarrow> firstInvalidCall parse (j + 1) cs)"

text \<open>The index of the message, and for the error text the index of the call and its error.\<close>

fun firstInvalidFrom ::
  "(string \<Rightarrow> raw_message) \<Rightarrow> nat \<Rightarrow> Message list \<Rightarrow> (nat \<times> nat \<times> call_error) option" where
  "firstInvalidFrom parse i [] = None"
| "firstInvalidFrom parse i (m # ms) =
     (if mRole m \<noteq> RoleAssistant then firstInvalidFrom parse (i + 1) ms
      else
        (case firstInvalidCall parse 0 (mToolCalls m) of
           Some (j, e) \<Rightarrow> Some (i, j, e)
         | None \<Rightarrow> firstInvalidFrom parse (i + 1) ms))"

definition FirstInvalidToolCallIndex :: "(string \<Rightarrow> raw_message) \<Rightarrow> Session \<Rightarrow> (nat \<times> nat \<times> call_error) option" where
  "FirstInvalidToolCallIndex parse s = firstInvalidFrom parse 0 (sMessages s)"

record HistoryRepair =
  FromIndex :: nat
  Removed :: nat
  Reason :: "nat \<times> call_error"

definition TruncateInvalidToolCallTail :: "(string \<Rightarrow> raw_message) \<Rightarrow> Session \<Rightarrow> HistoryRepair option \<times> Session" where
  "TruncateInvalidToolCallTail parse s =
     (case FirstInvalidToolCallIndex parse s of
        None \<Rightarrow> (None, s)
      | Some (i, j, e) \<Rightarrow>
          (Some \<lparr>FromIndex = i, Removed = length (sMessages s) - i, Reason = (j, e)\<rparr>, s\<lparr>sMessages := take i (sMessages s)\<rparr>))"

subsection \<open>Turn status\<close>

definition MetaTurnStatus :: string where "MetaTurnStatus = ''turn_status''"
definition MetaPausedAt :: string where "MetaPausedAt = ''paused_at''"
definition MetaResumeAttempts :: string where "MetaResumeAttempts = ''resume_attempts''"
definition MetaExecutionPolicy :: string where "MetaExecutionPolicy = ''execution_policy''"

definition ExecutionPolicySharedWorkspace :: string where "ExecutionPolicySharedWorkspace = ''shared_workspace''"
definition ExecutionPolicyIsolatedWorktree :: string where "ExecutionPolicyIsolatedWorktree = ''isolated_worktree''"
definition ExecutionPolicyReadOnly :: string where "ExecutionPolicyReadOnly = ''read_only''"

definition setMeta :: "string \<Rightarrow> metaval \<Rightarrow> Session \<Rightarrow> Session" where
  "setMeta k v s = s\<lparr>sMetadata := (sMetadata s)(k \<mapsto> v)\<rparr>"

definition metaInt64 :: "(string \<rightharpoonup> metaval) \<Rightarrow> string \<Rightarrow> int" where
  "metaInt64 m k = (case m k of Some (MetaNumber n) \<Rightarrow> n | _ \<Rightarrow> 0)"

definition ExecutionPolicy :: "Session \<Rightarrow> string" where
  "ExecutionPolicy s =
     (case sMetadata s MetaExecutionPolicy of
        Some (MetaString v) \<Rightarrow>
          if v \<in> set [ExecutionPolicySharedWorkspace, ExecutionPolicyIsolatedWorktree, ExecutionPolicyReadOnly] then v
          else ExecutionPolicySharedWorkspace
      | _ \<Rightarrow> ExecutionPolicySharedWorkspace)"

definition SetExecutionPolicy :: "string \<Rightarrow> Session \<Rightarrow> Session" where
  "SetExecutionPolicy policy = setMeta MetaExecutionPolicy (MetaString policy)"

definition TurnStatus :: "Session \<Rightarrow> string" where
  "TurnStatus s = (case sMetadata s MetaTurnStatus of Some (MetaString v) \<Rightarrow> v | _ \<Rightarrow> [])"

definition SetTurnStatus :: "string \<Rightarrow> Session \<Rightarrow> Session" where
  "SetTurnStatus status = setMeta MetaTurnStatus (MetaString status)"

definition PausedAt :: "Session \<Rightarrow> int" where
  "PausedAt s = metaInt64 (sMetadata s) MetaPausedAt"

definition MarkPaused :: "int \<Rightarrow> Session \<Rightarrow> Session" where
  "MarkPaused unix s = setMeta MetaPausedAt (MetaNumber unix) (setMeta MetaTurnStatus (MetaString ''paused'') s)"

definition ResumeAttempts :: "Session \<Rightarrow> int" where
  "ResumeAttempts s = metaInt64 (sMetadata s) MetaResumeAttempts"

definition IncResumeAttempts :: "Session \<Rightarrow> int \<times> Session" where
  "IncResumeAttempts s = (let n = ResumeAttempts s + 1 in (n, setMeta MetaResumeAttempts (MetaNumber n) s))"

definition ClearResumeAttempts :: "Session \<Rightarrow> Session" where
  "ClearResumeAttempts s = s\<lparr>sMetadata := (sMetadata s)(MetaResumeAttempts := None)\<rparr>"

subsection \<open>Compaction\<close>

definition NeedCompaction :: "Session \<Rightarrow> bool" where
  "NeedCompaction s = (if sCompactThreshold s \<le> 0 then False else sPromptTokens s \<ge> sCompactThreshold s)"

definition LastCompaction :: "Session \<Rightarrow> CompactionStats option" where
  "LastCompaction s = (if sCompactions s = [] then None else Some (last (sCompactions s)))"

definition Finalized :: "CompactionStats \<Rightarrow> bool" where
  "Finalized c = (AfterTokens c \<ge> 0)"

definition RecordCompaction :: "int \<Rightarrow> int \<Rightarrow> int \<Rightarrow> Session \<Rightarrow> Session" where
  "RecordCompaction now beforeTokens summaryChars s =
     s\<lparr>sCompactions := sCompactions s @
       [\<lparr>BeforeTokens = beforeTokens, AfterTokens = -1, SavedTokens = 0, SummaryChars = summaryChars, CompactedAt = now\<rparr>]\<rparr>"

definition FinalizeCompaction :: "int \<Rightarrow> Session \<Rightarrow> CompactionStats option \<times> Session" where
  "FinalizeCompaction measured s =
     (if sCompactions s = [] then (None, s)
      else
        (let l = last (sCompactions s) in
         if Finalized l then (None, s)
         else
           (let l' = l\<lparr>AfterTokens := measured, SavedTokens := BeforeTokens l - measured\<rparr>
            in (Some l', s\<lparr>sCompactions := butlast (sCompactions s) @ [l']\<rparr>))))"

definition approxTokens :: "Message \<Rightarrow> int" where
  "approxTokens m =
     int ((length (mContent m) + sum_list (map (\<lambda>tc. length (fnName tc) + length (fnArguments tc)) (mToolCalls m))) div 4)"

definition summarizeSystemPrompt :: string where
  "summarizeSystemPrompt =
     ''You are a context-compaction engine for a coding agent. Fold the conversation below into ONE updated cumulative summary so the agent can continue with no loss of essential context.''
     @ [NL, NL] @ ''Output exactly these five sections, in this order,
     as markdown headings. Keep every section terse '' @ [CHR 0xE2, CHR 0x80, CHR 0x94]
     @ '' bullet points over prose. Write '' @ [CHR 0x22] @ ''none'' @ [CHR 0x22]
     @ '' for an empty section.'' @ [NL, NL] @ ''## Goal'' @ [NL] @ ''The user'' @ [CHR 0x27]
     @ ''s current objective, requirements, and explicit constraints or preferences.'' @ [NL, NL]
     @ ''## Key knowledge & decisions'' @ [NL]
     @ ''Decisions made and why; established facts about the system; APIs or conventions discovered.''
     @ [NL, NL] @ ''## Files & state'' @ [NL] @ ''Files inspected or modified,
     the substance of each change, and the current state of the work.'' @ [NL, NL]
     @ ''## Errors & fixes'' @ [NL] @ ''Errors hit, their root causes, and how each was fixed ''
     @ [CHR 0xE2, CHR 0x80, CHR 0x94] @ '' or that it is still open.'' @ [NL, NL]
     @ ''## Plan & next step'' @ [NL] @ ''Open tasks and the immediate next step.'' @ [NL, NL]
     @ ''Do not invent facts. Do not address the user '' @ [CHR 0xE2, CHR 0x80, CHR 0x94]
     @ '' this is internal context, not a reply. Drop verbose tool output, intermediate reasoning,
     and anything superseded.''"

definition summaryMarker :: string where
  "summaryMarker = ''[Summary of the earlier conversation, condensed to fit the context window. Treat this as established background, not a new request.]''"

definition summaryMessage :: "string \<Rightarrow> Message" where
  "summaryMessage summary = newMessage RoleUser (summaryMarker @ [NL, NL] @ summary)"

definition renderCall :: "ToolCall \<Rightarrow> string" where
  "renderCall tc = ''ASSISTANT_TOOL_CALL: '' @ fnName tc @ ''('' @ fnArguments tc @ '')'' @ [NL]"

definition renderMessage :: "Message \<Rightarrow> string" where
  "renderMessage m =
     (case mRole m of
        RoleUser \<Rightarrow> ''USER: '' @ mContent m @ [NL]
      | RoleAssistant \<Rightarrow>
          (if mContent m \<noteq> [] then ''ASSISTANT: '' @ mContent m @ [NL] else []) @ concat (map renderCall (mToolCalls m))
      | RoleTool \<Rightarrow> ''TOOL_RESULT: '' @ mContent m @ [NL]
      | RoleSystem \<Rightarrow> ''SYSTEM: '' @ mContent m @ [NL]
      | RoleOther _ \<Rightarrow> [])"

definition renderMessages :: "Message list \<Rightarrow> string" where
  "renderMessages ms = concat (map renderMessage ms)"

record Request =
  rqSessionID :: string
  rqModel :: string
  rqMessages :: "Message list"

datatype compact_error = NilProvider | SummarizeError string | EmptySummary

text \<open>The provider answers with an error text or the content of its response.\<close>

type_synonym provider = "Request \<Rightarrow> string + string"

record LLMCompactor =
  lcProvider :: "provider option"
  lcModelName :: string
  lcKeepRecentTokens :: int

definition summarize :: "provider \<Rightarrow> string \<Rightarrow> string \<Rightarrow> string \<Rightarrow> Message list \<Rightarrow> compact_error + string" where
  "summarize complete modelName sessionID prev msgs =
     (let b = (if prev \<noteq> [] then ''Existing summary so far:'' @ [NL] @ prev @ [NL, NL] else []) @
              ''New conversation to fold into the summary:'' @ [NL] @ renderMessages msgs @
              [NL] @ ''Produce the updated cumulative summary.''
      in case complete \<lparr>rqSessionID = sessionID, rqModel = modelName,
                 rqMessages = [newMessage RoleSystem summarizeSystemPrompt, newMessage RoleUser b]\<rparr> of
           Inl e \<Rightarrow> Inl (SummarizeError e)
         | Inr c \<Rightarrow> (let summary = TrimSpace c in if summary = [] then Inl EmptySummary else Inr summary))"

text \<open>The walk that spends a token budget, over the messages from the newest on: how many it takes.\<close>

fun spend :: "int \<Rightarrow> Message list \<Rightarrow> nat" where
  "spend budget [] = 0"
| "spend budget (m # ms) =
     (if approxTokens m > budget then 0 else Suc (spend (budget - approxTokens m) ms))"

fun walkBack :: "(nat \<Rightarrow> bool) \<Rightarrow> nat \<Rightarrow> nat \<Rightarrow> nat" where
  "walkBack P lo 0 = 0"
| "walkBack P lo (Suc k) = (if Suc k > lo \<and> P (Suc k) then walkBack P lo k else Suc k)"

definition isTool :: "Message \<Rightarrow> bool" where
  "isTool m = (mRole m = RoleTool)"

definition recentStart :: "int \<Rightarrow> Message list \<Rightarrow> nat" where
  "recentStart keep conversation =
     (let n = length conversation - 1;
          k = n - spend (keep - approxTokens (last conversation)) (rev (butlast conversation))
      in walkBack (\<lambda>i. isTool (conversation ! i)) 0 k)"

definition convStart :: "Session \<Rightarrow> nat" where
  "convStart s = (if sSummary s \<noteq> [] then 2 else 1)"

definition Compact :: "LLMCompactor \<Rightarrow> Session \<Rightarrow> compact_error option \<times> Session" where
  "Compact c s =
     (if lcKeepRecentTokens c \<le> 0 then (None, s)
      else
        (case lcProvider c of
           None \<Rightarrow> (Some NilProvider, s)
         | Some complete \<Rightarrow>
             (let msgs = sMessages s in
              if msgs = [] then (None, s)
              else if convStart s \<ge> length msgs then (None, s)
              else
                (let conversation = drop (convStart s) msgs in
                 if length conversation < 2 then (None, s)
                 else
                   (let k = recentStart (lcKeepRecentTokens c) conversation;
                        toFold = take k conversation; recent = drop k conversation
                    in if toFold = [] then (None, s)
                       else
                         (case summarize complete (lcModelName c) (sID s) (sSummary s) toFold of
                            Inl e \<Rightarrow> (Some e, s)
                          | Inr summary \<Rightarrow>
                              (None, s\<lparr>sSummary := summary, sMessages := hd msgs # summaryMessage summary # recent\<rparr>)))))))"

definition SlidingCompact :: "int \<Rightarrow> Session \<Rightarrow> Session" where
  "SlidingCompact keepRecentMessages s =
     (let msgs = sMessages s in
      if keepRecentMessages \<le> 0 then s
      else if int (length msgs) \<le> keepRecentMessages + 1 then s
      else
        (let st = walkBack (\<lambda>i. isTool (msgs ! i)) 1 (length msgs - nat keepRecentMessages)
         in s\<lparr>sMessages := hd msgs # drop st msgs\<rparr>))"

subsection \<open>Pruning\<close>

definition pruneToolResultLimit :: nat where "pruneToolResultLimit = 2000"
definition pruneToolResultHead :: nat where "pruneToolResultHead = 200"

definition truncateAtRune :: "string \<Rightarrow> nat \<Rightarrow> string" where
  "truncateAtRune s n = (if length s \<le> n then s else take (cutBack s n) s)"

definition pruneNote :: "nat \<Rightarrow> string" where
  "pruneNote dropped = [NL] @ ''[pruned: '' @ natString dropped @ '' chars of old tool output dropped to fit the context window]''"

text \<open>\<open>thinkBlockRe.ReplaceAllString(s, "")\<close>: from each opening mark to the next closing one.\<close>

function stripThink :: "string \<Rightarrow> string" where
  "stripThink s =
     (case Index s ''<think>'' of
        None \<Rightarrow> s
      | Some i \<Rightarrow>
          (case Index (drop (i + 7) s) ''</think>'' of
             None \<Rightarrow> s
           | Some j \<Rightarrow> take i s @ stripThink (drop (i + 7 + j + 8) s)))"
  by pat_completeness auto
termination
proof (relation "measure length")
  fix s :: string and i j
  assume "Index s ''<think>'' = Some i" "Index (drop (i + 7) s) ''</think>'' = Some j"
  from Index_Some [OF this(1)] show "(drop (i + 7 + j + 8) s, s) \<in> measure length" by auto
qed simp

declare stripThink.simps [simp del]

text \<open>One message of the pruned region: the bytes saved, whether it is a tool result and whether that was cut.\<close>

definition pruneMessage :: "Message \<Rightarrow> Message \<times> nat \<times> nat \<times> nat" where
  "pruneMessage m =
     (case mRole m of
        RoleTool \<Rightarrow>
          if length (mContent m) > pruneToolResultLimit then
            (let h = truncateAtRune (mContent m) pruneToolResultHead; dropped = length (mContent m) - length h
             in (m\<lparr>mContent := h @ pruneNote dropped\<rparr>, dropped, 1, 1))
          else (m, 0, 0, 1)
      | RoleAssistant \<Rightarrow>
          (let stripped = stripThink (mContent m)
           in if length stripped < length (mContent m)
              then (m\<lparr>mContent := stripped\<rparr>, length (mContent m) - length stripped, 0, 0) else (m, 0, 0, 0))
      | _ \<Rightarrow> (m, 0, 0, 0))"

definition protectStart :: "int \<Rightarrow> Session \<Rightarrow> nat" where
  "protectStart protectTokens s =
     (let msgs = sMessages s; n = length msgs - 1
      in n - spend (protectTokens - approxTokens (last msgs)) (rev (drop (convStart s) (butlast msgs))))"

definition PruneOldContext :: "int \<Rightarrow> Session \<Rightarrow> (nat \<times> nat \<times> nat) \<times> Session" where
  "PruneOldContext protectTokens s =
     (let msgs = sMessages s; c = convStart s in
      if c \<ge> length msgs then ((0, 0, 0), s)
      else
        (let p = protectStart protectTokens s;
             rs = map pruneMessage (take (p - c) (drop c msgs))
         in ((sum_list (map (\<lambda>(m, sv, tr, to). sv) rs), sum_list (map (\<lambda>(m, sv, tr, to). tr) rs),
              sum_list (map (\<lambda>(m, sv, tr, to). to) rs)),
             s\<lparr>sMessages := take c msgs @ map fst rs @ drop p msgs\<rparr>)))"

subsection \<open>Forks\<close>

datatype fork_error = ForkAssetsUnsupported | ForkManagedWorktreeUnsupported | ForkTurnUnavailable string

definition ValidateForkHistory :: "Session \<Rightarrow> fork_error option" where
  "ValidateForkHistory source =
     (if sReferenceLedger source \<noteq> [] then Some ForkAssetsUnsupported
      else if list_ex (\<lambda>m. mAssets m \<noteq> [] \<or> mLocalAssets m \<noteq> []) (sMessages source) then Some ForkAssetsUnsupported
      else None)"

definition ValidateForkSource :: "Session \<Rightarrow> fork_error option" where
  "ValidateForkSource source =
     (if ExecutionPolicy source = ExecutionPolicyIsolatedWorktree then Some ForkManagedWorktreeUnsupported
      else ValidateForkHistory source)"

fun indexFrom :: "nat \<Rightarrow> (Message \<Rightarrow> bool) \<Rightarrow> Message list \<Rightarrow> nat option" where
  "indexFrom i P [] = None"
| "indexFrom i P (m # ms) = (if P m then Some i else indexFrom (i + 1) P ms)"

definition forkCutIndex :: "Session \<Rightarrow> string \<Rightarrow> fork_error + nat" where
  "forkCutIndex source throughTurnID =
     (let msgs = sMessages source in
      if throughTurnID = [] then Inr (length msgs)
      else
        (case indexFrom 0 (\<lambda>m. mOriginTurnID m = throughTurnID) msgs of
           None \<Rightarrow> Inl (ForkTurnUnavailable throughTurnID)
         | Some st \<Rightarrow>
             (case indexFrom (st + 1) (\<lambda>m. mOriginTurnID m \<noteq> []) (drop (st + 1) msgs) of
                None \<Rightarrow> Inr (length msgs)
              | Some i \<Rightarrow> Inr i)))"

definition ValidateForkTurn :: "Session \<Rightarrow> string \<Rightarrow> fork_error option" where
  "ValidateForkTurn source throughTurnID = (case forkCutIndex source throughTurnID of Inl e \<Rightarrow> Some e | Inr _ \<Rightarrow> None)"

text \<open>The argument \<open>clock\<close> is the current time, used when no time is given.\<close>

definition ForkHistoryIntoThrough :: "int \<Rightarrow> Session \<Rightarrow> string \<Rightarrow> string \<Rightarrow> int \<Rightarrow> Session \<Rightarrow> fork_error + Session" where
  "ForkHistoryIntoThrough clock source throughTurnID name now child =
     (case ValidateForkHistory source of
        Some e \<Rightarrow> Inl e
      | None \<Rightarrow>
          (case forkCutIndex source throughTurnID of
             Inl e \<Rightarrow> Inl e
           | Inr bound \<Rightarrow>
               Inr (child\<lparr>sMessages := sMessages child @ (if bound > 1 then drop 1 (take bound (sMessages source)) else []),
                 sSummary := sSummary source, sPromptTokens := sPromptTokens source, sModel := sModel source,
                 sCompactions := sCompactions source,
                 sName := (if name = [] \<and> sName source \<noteq> [] then sName source @ '' (fork)'' else name),
                 sArchivedAt := 0, sUpdatedAt := (if now = 0 then clock else now)\<rparr>)))"

definition ForkHistoryInto :: "int \<Rightarrow> Session \<Rightarrow> string \<Rightarrow> int \<Rightarrow> Session \<Rightarrow> fork_error + Session" where
  "ForkHistoryInto clock source = ForkHistoryIntoThrough clock source []"

subsection \<open>Specification vocabulary\<close>

text \<open>A history a provider accepts: a tool result answers a call of the assistant message whose group it is in, and
  every call of an assistant message is answered by the results that follow it directly.\<close>

abbreviation callIDs :: "Message \<Rightarrow> string list" where "callIDs m \<equiv> map tcID (mToolCalls m)"

fun wellPaired :: "string list \<Rightarrow> Message list \<Rightarrow> bool" where
  "wellPaired calls [] = True"
| "wellPaired calls (m # ms) =
     (if isTool m then mToolCallID m \<in> set calls \<and> wellPaired calls ms
      else if mRole m = RoleAssistant then wellPaired (callIDs m) ms
      else wellPaired [] ms)"

fun allAnswered :: "Message list \<Rightarrow> bool" where
  "allAnswered [] = True"
| "allAnswered (m # ms) =
     ((if mRole m = RoleAssistant then set (callIDs m) \<subseteq> set (map mToolCallID (takeWhile isTool ms)) else True) \<and> allAnswered ms)"

definition validHistory :: "Message list \<Rightarrow> bool" where
  "validHistory ms \<longleftrightarrow> wellPaired [] ms \<and> allAnswered ms"

text \<open>The state every operation may assume: the system message first, the digest second when there is one, and a
  valid history.\<close>

definition wfSession :: "Session \<Rightarrow> bool" where
  "wfSession s \<longleftrightarrow> sMessages s \<noteq> [] \<and> mRole (hd (sMessages s)) = RoleSystem \<and> validHistory (sMessages s) \<and>
     (sSummary s = [] \<or> (\<exists>ms. tl (sMessages s) = summaryMessage (sSummary s) # ms))"

abbreviation conversationOf :: "Session \<Rightarrow> Message list" where
  "conversationOf s \<equiv> drop (convStart s) (sMessages s)"

definition tokens :: "Message list \<Rightarrow> int" where
  "tokens ms = sum_list (map approxTokens ms)"

text \<open>What pairing depends on.\<close>

definition shape :: "Message \<Rightarrow> Role \<times> string \<times> string list" where
  "shape m = (mRole m, mToolCallID m, callIDs m)"

text \<open>Two short turns, the first with a tool call.\<close>

definition demoCall :: ToolCall where
  "demoCall = \<lparr>tcID = ''c1'', tcType = ''function'', fnName = ''read_file'', fnArguments = ''{}''\<rparr>"

definition demoUser :: "string \<Rightarrow> Message" where
  "demoUser t = (newMessage RoleUser ''do it'')\<lparr>mOriginTurnID := t\<rparr>"

definition demoMessages :: "Message list" where
  "demoMessages = [newMessage RoleSystem ''sys'', demoUser ''t1'', (newMessage RoleAssistant [])\<lparr>mToolCalls := [demoCall]\<rparr>,
     (newMessage RoleTool ''<data>'')\<lparr>mToolCallID := ''c1''\<rparr>, newMessage RoleAssistant ''done'', demoUser ''t2'', newMessage RoleAssistant ''bye'']"

definition demoSession :: Session where
  "demoSession = \<lparr>sID = ''s'', sWorkspacePath = ''/w'', sWorkspace = \<lparr>wrRoot = [], wrRel = [], wrExtID = [], wrAbsHint = []\<rparr>,
     sName = ''n'', sModel = ''m'', sReasoningEffort = [], sMessages = demoMessages, sMetadata = Map.empty, sReferenceLedger = [],
     sSummary = [], sPromptTokens = 9, sContextWindow = 100, sCompactThreshold = 5, sCompactions = [], sCreatedAt = 1, sUpdatedAt = 2,
     sArchivedAt = 0\<rparr>"

definition demoCompactor :: LLMCompactor where
  "demoCompactor = \<lparr>lcProvider = Some (\<lambda>_. Inr ''S''), lcModelName = ''m'', lcKeepRecentTokens = 3\<rparr>"

definition demoParse :: "string \<Rightarrow> raw_message" where
  "demoParse s = None"

definition demoChild :: Session where
  "demoChild = demoSession\<lparr>sID := ''child'', sMessages := [newMessage RoleSystem ''fresh'']\<rparr>"

subsection \<open>Facts: histories\<close>

lemma shape_eq: "shape m = shape n \<longleftrightarrow> mRole m = mRole n \<and> mToolCallID m = mToolCallID n \<and> callIDs m = callIDs n"
  by (simp add: shape_def)

lemma shape_isTool: "shape m = shape n \<Longrightarrow> isTool m = isTool n"
  by (simp add: shape_eq isTool_def)

lemma wellPaired_shape: "map shape ms = map shape ms' \<Longrightarrow> wellPaired c ms = wellPaired c ms'"
proof (induction ms arbitrary: ms' c)
  case (Cons m ms)
  then obtain n ns where "ms' = n # ns" "shape m = shape n" "map shape ms = map shape ns" by (cases ms') auto
  with Cons.IH [of ns] show ?case by (simp add: shape_eq isTool_def)
qed simp

lemma tools_shape: "map shape ms = map shape ms' \<Longrightarrow> map mToolCallID (takeWhile isTool ms) = map mToolCallID (takeWhile isTool ms')"
proof (induction ms arbitrary: ms')
  case (Cons m ms)
  then obtain n ns where "ms' = n # ns" "shape m = shape n" "map shape ms = map shape ns" by (cases ms') auto
  with Cons.IH [of ns] shape_isTool [of m n] show ?case by (simp add: shape_eq)
qed simp

lemma allAnswered_shape: "map shape ms = map shape ms' \<Longrightarrow> allAnswered ms = allAnswered ms'"
proof (induction ms arbitrary: ms')
  case (Cons m ms)
  then obtain n ns where "ms' = n # ns" "shape m = shape n" "map shape ms = map shape ns" by (cases ms') auto
  with Cons.IH [of ns] tools_shape [of ms ns] show ?case by (simp add: shape_eq)
qed simp

lemma validHistory_shape: "map shape ms = map shape ms' \<Longrightarrow> validHistory ms = validHistory ms'"
  unfolding validHistory_def using wellPaired_shape allAnswered_shape by blast

lemma wellPaired_nontool: "ms = [] \<or> \<not> isTool (hd ms) \<Longrightarrow> wellPaired c ms = wellPaired c' ms"
  by (cases ms) auto

lemma wellPaired_drop: "wellPaired c ms \<Longrightarrow> \<exists>c'. wellPaired c' (drop k ms)"
proof (induction ms arbitrary: c k)
  case (Cons m ms)
  then show ?case by (cases k) (auto split: if_splits)
qed auto

lemma allAnswered_drop: "allAnswered ms \<Longrightarrow> allAnswered (drop k ms)"
proof (induction ms arbitrary: k)
  case (Cons m ms)
  show ?case
  proof (cases k)
    case 0
    then show ?thesis using Cons.prems by (simp only: drop_0)
  next
    case (Suc j)
    then show ?thesis using Cons by simp
  qed
qed simp

lemma validHistory_drop:
  "validHistory ms \<Longrightarrow> k < length ms \<Longrightarrow> \<not> isTool (ms ! k) \<Longrightarrow> validHistory (drop k ms)"
proof -
  assume v: "validHistory ms" "k < length ms" "\<not> isTool (ms ! k)"
  then obtain c where "wellPaired c (drop k ms)" using wellPaired_drop [of "[]" ms k] by (auto simp: validHistory_def)
  moreover have "\<not> isTool (hd (drop k ms))" using v by (simp add: hd_drop_conv_nth)
  ultimately show ?thesis using v allAnswered_drop wellPaired_nontool [of "drop k ms"] by (auto simp: validHistory_def)
qed

lemma wellPaired_take: "wellPaired c ms \<Longrightarrow> wellPaired c (take k ms)"
  by (induction ms arbitrary: c k) (auto simp: take_Cons split: nat.splits)

lemma takeWhile_take: "k < length ms \<Longrightarrow> \<not> P (ms ! k) \<Longrightarrow> takeWhile P (take k ms) = takeWhile P ms"
proof (induction ms arbitrary: k)
  case (Cons m ms)
  then show ?case by (cases k) auto
qed simp

lemma allAnswered_take: "allAnswered ms \<Longrightarrow> k < length ms \<Longrightarrow> \<not> isTool (ms ! k) \<Longrightarrow> allAnswered (take k ms)"
proof (induction ms arbitrary: k)
  case (Cons m ms)
  then show ?case by (cases k) (simp_all add: takeWhile_take split: if_splits)
qed simp

lemma validHistory_take:
  "validHistory ms \<Longrightarrow> length ms \<le> k \<or> \<not> isTool (ms ! k) \<Longrightarrow> validHistory (take k ms)"
  using wellPaired_take [of "[]" ms k] allAnswered_take [of ms k] by (cases "length ms \<le> k") (auto simp: validHistory_def)

lemma validHistory_Cons:
  "\<not> isTool m \<Longrightarrow> mRole m \<noteq> RoleAssistant \<Longrightarrow> validHistory (m # ms) = validHistory ms"
  by (simp add: validHistory_def)

lemma validHistory_hd: "validHistory (m # ms) \<Longrightarrow> \<not> isTool m"
  by (auto simp: validHistory_def)

lemma summaryMessage_role [simp]: "mRole (summaryMessage t) = RoleUser" "\<not> isTool (summaryMessage t)"
  by (simp_all add: summaryMessage_def newMessage_def isTool_def)

lemma wfSession_conversation:
  "wfSession s \<Longrightarrow> validHistory (conversationOf s) \<and> length (sMessages s) \<ge> convStart s"
proof -
  assume w: "wfSession s"
  then obtain m ms where m: "sMessages s = m # ms" "mRole m = RoleSystem" "validHistory (m # ms)"
    by (cases "sMessages s") (auto simp: wfSession_def)
  then have v: "validHistory ms" by (auto simp: validHistory_Cons isTool_def)
  show ?thesis
  proof (cases "sSummary s = []")
    case True
    then show ?thesis using v m by (simp add: convStart_def)
  next
    case False
    then obtain ms' where "ms = summaryMessage (sSummary s) # ms'" using w m by (auto simp: wfSession_def)
    then show ?thesis using v m False by (simp add: convStart_def validHistory_Cons)
  qed
qed

lemma wfSession_same_header:
  assumes "wfSession s" "map shape (sMessages s') = map shape (sMessages s)" "sSummary s' = sSummary s"
    "take (convStart s) (sMessages s') = take (convStart s) (sMessages s)"
  shows "wfSession s'"
proof -
  obtain m ms where m: "sMessages s = m # ms" using assms(1) by (cases "sMessages s") (auto simp: wfSession_def)
  obtain n ns where n: "sMessages s' = n # ns" using assms(2) m by (cases "sMessages s'") auto
  have "mRole n = mRole m" using assms(2) m n by (simp add: shape_eq)
  moreover have "sSummary s = [] \<or> (\<exists>ms'. ns = summaryMessage (sSummary s) # ms')"
  proof (cases "sSummary s = []")
    case False
    then obtain ms' where "ms = summaryMessage (sSummary s) # ms'" using assms(1) m by (auto simp: wfSession_def)
    then have "take (Suc (Suc 0)) (n # ns) = [m, summaryMessage (sSummary s)]"
      using assms(4) m n False by (simp add: convStart_def numeral_2_eq_2)
    then show ?thesis by (cases ns) auto
  qed simp
  ultimately show ?thesis
    using assms(1,3) validHistory_shape [OF assms(2)] m n by (auto simp: wfSession_def)
qed

subsection \<open>Facts: the budget walk\<close>

lemma approxTokens_nonneg: "0 \<le> approxTokens m"
  by (simp add: approxTokens_def)

lemma tokens_simps [simp]: "tokens [] = 0" "tokens (m # ms) = approxTokens m + tokens ms" "tokens (xs @ ys) = tokens xs + tokens ys" "tokens (rev xs) = tokens xs"
  by (simp_all add: tokens_def sum_list_rev rev_map [symmetric])

lemma spend_le: "spend b ms \<le> length ms"
  by (induction b ms rule: spend.induct) auto

lemma spend_fits: "spend b ms \<noteq> 0 \<Longrightarrow> tokens (take (spend b ms) ms) \<le> b"
proof (induction b ms rule: spend.induct)
  case (2 b m ms)
  then show ?case by (cases "spend (b - approxTokens m) ms = 0") (auto split: if_splits)
qed simp

lemma spend_maximal: "spend b ms < length ms \<Longrightarrow> b < tokens (take (Suc (spend b ms)) ms)"
  by (induction b ms rule: spend.induct) (auto split: if_splits)

lemma walkBack_le: "walkBack P lo k \<le> k"
  by (induction k) (auto simp: le_Suc_eq)

lemma walkBack_lo: "lo \<le> k \<Longrightarrow> lo \<le> walkBack P lo k"
  by (induction k) (auto simp: le_Suc_eq)

lemma walkBack_stop: "walkBack P lo k \<le> lo \<or> \<not> P (walkBack P lo k)"
  by (induction k) auto

lemma walkBack_skipped: "walkBack P lo k < j \<Longrightarrow> j \<le> k \<Longrightarrow> P j"
  by (induction k) (auto simp: le_Suc_eq split: if_splits)

text \<open>The kept tail of a conversation.\<close>

lemma recentStart_tail:
  fixes keep :: int and conv :: "Message list"
  assumes "conv \<noteq> []"
  defines "k \<equiv> recentStart keep conv"
  shows "k < length conv" "k = 0 \<or> \<not> isTool (conv ! k)"
    "\<exists>k0. k \<le> k0 \<and> k0 < length conv \<and> tokens (drop k0 conv) \<le> max keep (approxTokens (last conv)) \<and>
       (\<forall>i. k < i \<and> i \<le> k0 \<longrightarrow> isTool (conv ! i)) \<and> (0 < k0 \<longrightarrow> keep < tokens (drop (k0 - 1) conv))"
proof -
  let ?n = "length conv - 1" and ?b = "keep - approxTokens (last conv)" and ?r = "rev (butlast conv)"
  let ?sp = "spend ?b ?r"
  let ?base = "?n - ?sp"
  have k: "k = walkBack (\<lambda>i. isTool (conv ! i)) 0 ?base" by (simp add: k_def recentStart_def Let_def)
  have sp: "?sp \<le> ?n" using spend_le [of ?b ?r] by simp
  have k0: "?base < length conv" using assms(1) by (cases conv) auto
  show "k < length conv" using walkBack_le [of _ 0 ?base] k k0 by (metis le_less_trans)
  show "k = 0 \<or> \<not> isTool (conv ! k)" using walkBack_stop [of "\<lambda>i. isTool (conv ! i)" 0 ?base] k by auto
  have split: "drop j conv = drop j (butlast conv) @ [last conv]" if "j \<le> ?n" for j
    using append_butlast_last_id [OF assms(1)] that by (metis drop_append length_butlast diff_is_0_eq drop0)
  have tl: "take i ?r = rev (drop (?n - i) (butlast conv))" for i by (simp add: take_rev)
  have fit: "tokens (drop ?base conv) \<le> max keep (approxTokens (last conv))"
  proof (cases "?sp = 0")
    case True
    then show ?thesis using split [of ?n] by simp
  next
    case False
    then have "tokens (take ?sp ?r) \<le> ?b" by (rule spend_fits)
    then show ?thesis using split [of ?base] tl [of ?sp] by simp
  qed
  have "keep < tokens (drop (?base - 1) conv)" if pos: "0 < ?base"
  proof -
    have "?sp < length ?r" using pos by simp
    then have "?b < tokens (take (Suc ?sp) ?r)" by (rule spend_maximal)
    moreover have "take (Suc ?sp) ?r = rev (drop (?base - 1) (butlast conv))" using tl [of "Suc ?sp"] by simp
    ultimately show ?thesis using split [of "?base - 1"] by simp
  qed
  moreover have "\<forall>i. k < i \<and> i \<le> ?base \<longrightarrow> isTool (conv ! i)"
    using walkBack_skipped [of "\<lambda>i. isTool (conv ! i)" 0 ?base] k by auto
  ultimately show "\<exists>k0. k \<le> k0 \<and> k0 < length conv \<and> tokens (drop k0 conv) \<le> max keep (approxTokens (last conv)) \<and>
       (\<forall>i. k < i \<and> i \<le> k0 \<longrightarrow> isTool (conv ! i)) \<and> (0 < k0 \<longrightarrow> keep < tokens (drop (k0 - 1) conv))"
    using fit k0 walkBack_le [of _ 0 ?base] k by (intro exI [of _ ?base]) auto
qed

subsection \<open>Facts: compaction\<close>

lemma summarize_ok: "summarize p mn sid prev ms = Inr t \<Longrightarrow> t \<noteq> []"
  by (auto simp: summarize_def Let_def split: sum.splits if_splits)

text \<open>The two ways a compaction can end.\<close>

lemma Compact_cases:
  assumes "Compact c s = (err, s')"
  obtains (unchanged) "s' = s"
  | (folded) k t where "err = None" "t \<noteq> []" "sMessages s \<noteq> []" "2 \<le> length (conversationOf s)" "k = recentStart (lcKeepRecentTokens c) (conversationOf s)"
      "0 < k" "s' = s\<lparr>sSummary := t, sMessages := hd (sMessages s) # summaryMessage t # drop k (conversationOf s)\<rparr>"
proof (cases "s' = s")
  case False
  then obtain p t where "lcProvider c = Some p" "sMessages s \<noteq> []" "2 \<le> length (conversationOf s)"
    "take (recentStart (lcKeepRecentTokens c) (conversationOf s)) (conversationOf s) \<noteq> []"
    "summarize p (lcModelName c) (sID s) (sSummary s) (take (recentStart (lcKeepRecentTokens c) (conversationOf s)) (conversationOf s)) = Inr t"
    "err = None" "s' = s\<lparr>sSummary := t, sMessages := hd (sMessages s) # summaryMessage t # drop (recentStart (lcKeepRecentTokens c) (conversationOf s)) (conversationOf s)\<rparr>"
    using assms by (auto simp: Compact_def Let_def split: if_splits option.splits sum.splits)
  then show ?thesis using folded summarize_ok by (metis gr0I take0)
qed

lemma wfSession_rebuilt:
  assumes "wfSession s" "0 < k" "k < length (conversationOf s)" "\<not> isTool (conversationOf s ! k)" "t \<noteq> []"
  shows "wfSession (s\<lparr>sSummary := t, sMessages := hd (sMessages s) # summaryMessage t # drop k (conversationOf s)\<rparr>)"
proof -
  have "validHistory (drop k (conversationOf s))"
    using validHistory_drop [OF _ assms(3,4)] wfSession_conversation [OF assms(1)] by blast
  moreover have "mRole (hd (sMessages s)) = RoleSystem" using assms(1) by (simp add: wfSession_def)
  ultimately show ?thesis by (auto simp: wfSession_def validHistory_Cons isTool_def [of "hd _"])
qed

lemma Compact_wf: "wfSession s \<Longrightarrow> wfSession (snd (Compact c s))"
proof -
  assume w: "wfSession s"
  obtain err s' where e: "Compact c s = (err, s')" by fastforce
  then show ?thesis
  proof (cases rule: Compact_cases)
    case (folded k t)
    have "conversationOf s \<noteq> []" using folded(4) by auto
    from recentStart_tail [OF this, of "lcKeepRecentTokens c"] folded show ?thesis
      using wfSession_rebuilt [OF w folded(6) _ _ folded(2)] e by simp
  qed (use w e in simp)
qed


text \<open>The measure that falls with every compaction that does something.\<close>

lemma Compact_shrinks:
  "wfSession s \<Longrightarrow> snd (Compact c s) = s \<or> length (conversationOf (snd (Compact c s))) < length (conversationOf s)"
proof -
  assume w: "wfSession s"
  obtain err s' where e: "Compact c s = (err, s')" by fastforce
  then show ?thesis
  proof (cases rule: Compact_cases)
    case (folded k t)
    have "conversationOf s' = drop k (conversationOf s)" using folded by (simp add: convStart_def)
    then have "length (conversationOf s') = length (conversationOf s) - k" by simp
    moreover have "length (conversationOf s) - k < length (conversationOf s)" using folded(4,6) by linarith
    ultimately show ?thesis using e by simp
  qed (use e in simp)
qed

text \<open>Compacting again and again reaches a session that compaction leaves as it is, after at most as many rounds as
  there are messages: a budget that is too small cannot make it loop.\<close>

theorem Compact_converges:
  assumes "wfSession s"
  shows "\<exists>n \<le> length (sMessages s). snd (Compact c (((\<lambda>s. snd (Compact c s)) ^^ n) s)) = ((\<lambda>s. snd (Compact c s)) ^^ n) s"
proof -
  let ?f = "\<lambda>s. snd (Compact c s)"
  have wf: "wfSession ((?f ^^ n) s)" for n by (induction n) (use assms Compact_wf in auto)
  have "(\<exists>m \<le> n. ?f ((?f ^^ m) s) = (?f ^^ m) s) \<or> length (conversationOf ((?f ^^ n) s)) + n \<le> length (conversationOf s)" for n
  proof (induction n)
    case (Suc n)
    then show ?case using Compact_shrinks [OF wf [of n], of c] by (auto intro: le_SucI) 
  qed simp
  from this [of "Suc (length (conversationOf s))"] obtain m where
    "m \<le> Suc (length (conversationOf s))" "?f ((?f ^^ m) s) = (?f ^^ m) s" by auto
  moreover have "length (conversationOf s) < length (sMessages s)" using assms by (simp add: wfSession_def convStart_def)
  ultimately show ?thesis by (metis Suc_leI le_trans)
qed

text \<open>The window compactor keeps the history valid for a provider: the system message, then a tail that begins
  outside a group of tool results.\<close>

theorem SlidingCompact_valid:
  assumes "wfSession s"
  shows "validHistory (sMessages (SlidingCompact keep s)) \<and> hd (sMessages (SlidingCompact keep s)) = hd (sMessages s)"
proof -
  let ?ms = "sMessages s"
  let ?base = "length ?ms - nat keep"
  let ?k = "walkBack (\<lambda>i. isTool (?ms ! i)) 1 ?base"
  have sys: "?ms \<noteq> []" "\<not> isTool (hd ?ms)" "mRole (hd ?ms) \<noteq> RoleAssistant" "validHistory ?ms"
    using assms by (auto simp: wfSession_def isTool_def)
  have "validHistory (hd ?ms # drop ?k ?ms)" if "\<not> keep \<le> 0" "\<not> int (length ?ms) \<le> keep + 1"
  proof -
    have len: "1 \<le> ?base" "?base < length ?ms" using that sys(1) by (auto simp: nat_less_iff)
    have lo: "1 \<le> ?k" "?k < length ?ms"
      using walkBack_lo [OF len(1), of "\<lambda>i. isTool (?ms ! i)"] walkBack_le [of "\<lambda>i. isTool (?ms ! i)" 1 ?base] len(2) by linarith+
    have "\<not> isTool (?ms ! ?k)"
    proof (cases "?k \<le> 1")
      case True
      then have one: "?k = 1" using lo by simp
      obtain a b r where "?ms = a # b # r" using lo one by (cases ?ms; cases "tl ?ms") auto
      then show ?thesis using sys one by (auto simp: validHistory_def)
    next
      case False
      then show ?thesis using walkBack_stop [of "\<lambda>i. isTool (?ms ! i)" 1 ?base] by auto
    qed
    then show ?thesis using validHistory_drop [OF sys(4) lo(2)] sys by (simp add: validHistory_Cons)
  qed
  then show ?thesis using sys by (auto simp: SlidingCompact_def Let_def)
qed

subsection \<open>Facts: pruning\<close>

lemma stripThink_length: "length (stripThink s) \<le> length s"
proof (induction s rule: stripThink.induct)
  case (1 s)
  show ?case
  proof (cases "Index s ''<think>''")
    case (Some i)
    note i = Some
    show ?thesis
    proof (cases "Index (drop (i + 7) s) ''</think>''")
      case (Some j)
      then show ?thesis using "1.IH" [OF i Some] Index_Some [OF i] by (subst stripThink.simps) (auto simp: i)
    qed (subst stripThink.simps, simp add: i)
  qed (subst stripThink.simps, simp)
qed

lemma natString_length: "n < 10 ^ k \<Longrightarrow> 0 < k \<Longrightarrow> length (natString n) \<le> k"
proof (induction k arbitrary: n)
  case (Suc k)
  show ?case
  proof (cases "n < 10")
    case False
    then have "0 < k" using Suc.prems by (cases k) auto
    moreover have "n div 10 < 10 ^ k" using Suc.prems by (simp add: less_mult_imp_div_less mult.commute)
    ultimately show ?thesis using Suc.IH [of "n div 10"] False by (subst natString.simps) simp
  qed (subst natString.simps, simp)
qed simp

lemma pruneNote_short: "dropped < 10 ^ 18 \<Longrightarrow> length (pruneNote dropped) \<le> 96"
  using natString_length [of dropped 18] by (simp add: pruneNote_def)

lemma pruneMessage_shape: "shape (fst (pruneMessage m)) = shape m"
  by (auto simp: pruneMessage_def Let_def shape_def split: Role.splits)

lemma pruneMessage_cases:
  "fst (pruneMessage m) = m \<and> fst (snd (pruneMessage m)) = 0 \<or>
   (isTool m \<and> pruneToolResultLimit < length (mContent m) \<and>
     fst (pruneMessage m) = m\<lparr>mContent := truncateAtRune (mContent m) pruneToolResultHead @ pruneNote (length (mContent m) - length (truncateAtRune (mContent m) pruneToolResultHead))\<rparr>) \<or>
   (mRole m = RoleAssistant \<and> fst (pruneMessage m) = m\<lparr>mContent := stripThink (mContent m)\<rparr>)"
  by (auto simp: pruneMessage_def Let_def isTool_def split: Role.splits)

lemma truncateAtRune_le: "length (truncateAtRune s n) \<le> n"
  using cutBack_le [of s n] by (auto simp: truncateAtRune_def)

lemma pruneMessage_shorter:
  "length (mContent m) < 10 ^ 18 \<Longrightarrow> length (mContent (fst (pruneMessage m))) \<le> length (mContent m)"
proof -
  assume b: "length (mContent m) < 10 ^ 18"
  show ?thesis
  proof (cases "isTool m \<and> pruneToolResultLimit < length (mContent m)")
    case True
    let ?h = "truncateAtRune (mContent m) pruneToolResultHead"
    have "length ?h \<le> 200" using truncateAtRune_le [of _ 200] by (simp add: pruneToolResultHead_def)
    moreover have "length (pruneNote (length (mContent m) - length ?h)) \<le> 96" using b by (intro pruneNote_short) simp
    ultimately have "length (?h @ pruneNote (length (mContent m) - length ?h)) \<le> 296" by simp
    then show ?thesis using True by (auto simp: pruneMessage_def isTool_def Let_def pruneToolResultLimit_def)
  next
    case False
    then show ?thesis using pruneMessage_cases [of m] stripThink_length [of "mContent m"] by auto
  qed
qed

lemma protectStart_bounds:
  assumes "convStart s < length (sMessages s)"
  shows "convStart s \<le> protectStart p s" "protectStart p s < length (sMessages s)"
proof -
  let ?r = "rev (drop (convStart s) (butlast (sMessages s)))"
  have "spend (p - approxTokens (last (sMessages s))) ?r \<le> length (sMessages s) - 1 - convStart s"
    using spend_le [of _ ?r] by (metis length_butlast length_drop length_rev)
  then show "convStart s \<le> protectStart p s" "protectStart p s < length (sMessages s)"
    using assms by (auto simp: protectStart_def Let_def)
qed

lemma Prune_messages:
  fixes protect :: int
  assumes "convStart s < length (sMessages s)"
  defines "p \<equiv> protectStart protect s" and "c \<equiv> convStart s" and "ms \<equiv> sMessages s"
  shows "sMessages (snd (PruneOldContext protect s)) = take c ms @ map (\<lambda>m. fst (pruneMessage m)) (take (p - c) (drop c ms)) @ drop p ms"
    "sSummary (snd (PruneOldContext protect s)) = sSummary s"
  using assms by (simp_all add: PruneOldContext_def Let_def comp_def)

lemma Prune_shape: "map shape (sMessages (snd (PruneOldContext protect s))) = map shape (sMessages s)"
proof (cases "convStart s < length (sMessages s)")
  case True
  let ?c = "convStart s" and ?p = "protectStart protect s" and ?ms = "sMessages s"
  have "?ms = take ?c ?ms @ take (?p - ?c) (drop ?c ?ms) @ drop ?p ?ms"
    using protectStart_bounds(1) [OF True, of protect]
    by (metis append_take_drop_id drop_drop le_add_diff_inverse2)
  then have "map shape ?ms = map shape (take ?c ?ms) @ map shape (take (?p - ?c) (drop ?c ?ms)) @ map shape (drop ?p ?ms)"
    by (metis map_append)
  then show ?thesis using Prune_messages(1) [OF True, of protect] by (simp add: pruneMessage_shape comp_def)
qed (simp add: PruneOldContext_def Let_def)

text \<open>Pruning changes no message but the contents of old tool results and old assistant messages: the number of
  messages, their roles and call identities, the system message, the digest and the protected tail stay,
  no content grows, and a well-formed session stays well formed.\<close>

theorem PruneOldContext_safe:
  fixes protect :: int
  assumes "wfSession s" "\<forall>m \<in> set (sMessages s). length (mContent m) < 10 ^ 18"
  defines "s' \<equiv> snd (PruneOldContext protect s)" and "p \<equiv> protectStart protect s"
  shows "wfSession s' \<and> map shape (sMessages s') = map shape (sMessages s) \<and>
     take (convStart s) (sMessages s') = take (convStart s) (sMessages s) \<and>
     (convStart s < length (sMessages s) \<longrightarrow> drop p (sMessages s') = drop p (sMessages s)) \<and>
     (\<forall>i < length (sMessages s). length (mContent (sMessages s' ! i)) \<le> length (mContent (sMessages s ! i)))"
proof (cases "convStart s < length (sMessages s)")
  case True
  let ?c = "convStart s" and ?ms = "sMessages s"
  let ?mid = "map (\<lambda>m. fst (pruneMessage m)) (take (p - ?c) (drop ?c ?ms))"
  have b: "?c \<le> p" "p < length ?ms" using protectStart_bounds [OF True, of protect] by (auto simp: p_def)
  have ms': "sMessages s' = take ?c ?ms @ ?mid @ drop p ?ms" "sSummary s' = sSummary s"
    using Prune_messages [OF True, of protect] by (simp_all add: s'_def p_def)
  have lens: "length (take ?c ?ms) = ?c" "length ?mid = p - ?c" using b by auto
  have sh: "map shape (sMessages s') = map shape ?ms" using Prune_shape by (simp add: s'_def)
  have tc: "take ?c (sMessages s') = take ?c ?ms" using ms' lens by simp
  have dp: "drop p (sMessages s') = drop p ?ms" using ms' lens b by simp
  have nth: "sMessages s' ! i = (if ?c \<le> i \<and> i < p then fst (pruneMessage (?ms ! i)) else ?ms ! i)" if "i < length ?ms" for i
    using that b lens unfolding ms'(1) by (auto simp: nth_append)
  have "length (mContent (sMessages s' ! i)) \<le> length (mContent (?ms ! i))" if "i < length ?ms" for i
    using nth [OF that] pruneMessage_shorter assms(2) that by auto
  moreover have "wfSession s'"
    by (rule wfSession_same_header [OF assms(1) sh ms'(2) tc])
  ultimately show ?thesis using sh tc dp by auto
next
  case False
  then have "s' = s" by (simp add: s'_def PruneOldContext_def Let_def)
  then show ?thesis using assms(1) False by simp
qed

subsection \<open>Facts: repairs\<close>

lemma firstInvalidFrom_Some:
  "firstInvalidFrom parse i ms = Some (k, j, e) \<Longrightarrow>
     \<exists>n. k = i + n \<and> n < length ms \<and> mRole (ms ! n) = RoleAssistant \<and> (\<exists>c \<in> set (mToolCalls (ms ! n)). ValidateForHistory parse c \<noteq> None) \<and>
       firstInvalidFrom parse i (take n ms) = None"
proof (induction ms arbitrary: i)
  case (Cons m ms)
  have call: "firstInvalidCall parse j' cs = Some (j, e) \<Longrightarrow> \<exists>c \<in> set cs. ValidateForHistory parse c \<noteq> None" for j' cs j e
    by (induction cs arbitrary: j') (auto split: option.splits)
  show ?case
  proof (cases "mRole m = RoleAssistant \<and> firstInvalidCall parse 0 (mToolCalls m) \<noteq> None")
    case True
    then show ?thesis using Cons.prems call [of 0 "mToolCalls m"] by (intro exI [of _ 0]) auto
  next
    case False
    then have "firstInvalidFrom parse (i + 1) ms = Some (k, j, e)" using Cons.prems by (cases "firstInvalidCall parse 0 (mToolCalls m)") (auto split: if_splits)
    from Cons.IH [OF this] obtain n where "k = i + 1 + n" "n < length ms" "mRole (ms ! n) = RoleAssistant"
      "\<exists>c \<in> set (mToolCalls (ms ! n)). ValidateForHistory parse c \<noteq> None" "firstInvalidFrom parse (i + 1) (take n ms) = None" by blast
    then show ?thesis using False by (intro exI [of _ "Suc n"]) (auto split: option.splits)
  qed
qed simp

lemma firstInvalidFrom_None:
  "firstInvalidFrom parse i ms = None \<longleftrightarrow>
     (\<forall>m \<in> set ms. mRole m = RoleAssistant \<longrightarrow> (\<forall>c \<in> set (mToolCalls m). ValidateForHistory parse c = None))"
proof (induction ms arbitrary: i)
  case (Cons m ms)
  have "firstInvalidCall parse j cs = None \<longleftrightarrow> (\<forall>c \<in> set cs. ValidateForHistory parse c = None)" for j cs
    by (induction cs arbitrary: j) (auto split: option.splits)
  from this [of 0 "mToolCalls m"] show ?case using Cons by (cases "firstInvalidCall parse 0 (mToolCalls m)") auto
qed simp

lemma Truncate_wf: "wfSession s \<Longrightarrow> wfSession (snd (TruncateInvalidToolCallTail parse s))"
proof -
  assume w: "wfSession s"
  show ?thesis
  proof (cases "FirstInvalidToolCallIndex parse s")
    case None
    then show ?thesis using w by (simp add: TruncateInvalidToolCallTail_def)
  next
    case (Some r)
    obtain k j e where r: "r = (k, j, e)" by (cases r) auto
    then have k: "k < length (sMessages s)" "mRole (sMessages s ! k) = RoleAssistant"
      using firstInvalidFrom_Some [of parse 0 "sMessages s" k j e] Some by (auto simp: FirstInvalidToolCallIndex_def)
    obtain m ms where m: "sMessages s = m # ms" "mRole m = RoleSystem" using w by (cases "sMessages s") (auto simp: wfSession_def)
    obtain k' where k': "k = Suc k'" using k m by (cases k) auto
    have "validHistory (take k (sMessages s))"
      using validHistory_take [of "sMessages s" k] w k by (auto simp: wfSession_def isTool_def)
    moreover have "sSummary s = [] \<or> (\<exists>ms'. take k' ms = summaryMessage (sSummary s) # ms')"
    proof (cases "sSummary s = []")
      case False
      then obtain ms' where "ms = summaryMessage (sSummary s) # ms'" using w m by (auto simp: wfSession_def)
      then show ?thesis using k m k' by (cases k') auto
    qed simp
    ultimately show ?thesis using Some r m k' by (auto simp: TruncateInvalidToolCallTail_def wfSession_def)
  qed
qed

text \<open>C36. Repairing a session cuts it just before the first assistant message with a call that cannot be sent: what is
  left is a prefix with no such call, still well formed, and a session without such calls is left alone.\<close>

theorem TruncateInvalid_correct:
  assumes "wfSession s" "TruncateInvalidToolCallTail parse s = (r, s')"
  shows "wfSession s' \<and> prefix (sMessages s') (sMessages s) \<and> FirstInvalidToolCallIndex parse s' = None \<and>
     (case r of
        None \<Rightarrow> s' = s
      | Some rep \<Rightarrow> Removed rep = length (sMessages s) - length (sMessages s') \<and>
          (\<exists>m ms. sMessages s = sMessages s' @ m # ms \<and> mRole m = RoleAssistant \<and>
             (\<exists>c \<in> set (mToolCalls m). ValidateForHistory parse c \<noteq> None)))"
proof (cases "FirstInvalidToolCallIndex parse s")
  case None
  then show ?thesis using assms by (simp add: TruncateInvalidToolCallTail_def)
next
  case (Some x)
  obtain k j e where x: "x = (k, j, e)" by (cases x) auto
  then obtain n where n: "k = n" "n < length (sMessages s)" "mRole (sMessages s ! n) = RoleAssistant"
    "\<exists>c \<in> set (mToolCalls (sMessages s ! n)). ValidateForHistory parse c \<noteq> None" "firstInvalidFrom parse 0 (take n (sMessages s)) = None"
    using firstInvalidFrom_Some [of parse 0 "sMessages s" k j e] Some by (auto simp: FirstInvalidToolCallIndex_def)
  have "sMessages s = take n (sMessages s) @ sMessages s ! n # drop (Suc n) (sMessages s)"
    using n(2) by (rule id_take_nth_drop)
  then have ex: "\<exists>m ms. sMessages s = take n (sMessages s) @ m # ms \<and> mRole m = RoleAssistant \<and> (\<exists>c \<in> set (mToolCalls m). ValidateForHistory parse c \<noteq> None)"
    using n(3,4) by blast
  have s': "s' = s\<lparr>sMessages := take n (sMessages s)\<rparr>" "r = Some \<lparr>FromIndex = n, Removed = length (sMessages s) - n, Reason = (j, e)\<rparr>"
    using assms(2) Some x n(1) by (auto simp: TruncateInvalidToolCallTail_def)
  have w: "wfSession s'" using Truncate_wf [OF assms(1), of parse] assms(2) by simp
  have m: "sMessages s' = take n (sMessages s)" "FirstInvalidToolCallIndex parse s' = None" using s' n(5) by (simp_all add: FirstInvalidToolCallIndex_def)
  show ?thesis unfolding s'(2) m(1) using w m(2) ex n(2) by (simp add: take_is_prefix)
qed

lemma removed_paired:
  "wellPaired c ms \<Longrightarrow> wellPaired c (filter (\<lambda>m. \<not> IsEmptyAssistantNoOp m) ms)"
proof (induction c ms rule: wellPaired.induct)
  case (2 c m ms)
  let ?f = "filter (\<lambda>m. \<not> IsEmptyAssistantNoOp m) ms"
  have sub: "wellPaired [] ?f \<Longrightarrow> wellPaired c ?f" by (cases ?f) (simp_all split: if_splits)
  show ?case
  proof (cases "IsEmptyAssistantNoOp m")
    case True
    then have "\<not> isTool m" "mRole m = RoleAssistant" "callIDs m = []" by (auto simp: IsEmptyAssistantNoOp_def isTool_def)
    then show ?thesis using "2.prems" "2.IH"(2) sub True by simp
  next
    case False
    then show ?thesis using 2 by (simp split: if_splits)
  qed
qed simp

lemma removed_answered: "allAnswered ms \<Longrightarrow> allAnswered (filter (\<lambda>m. \<not> IsEmptyAssistantNoOp m) ms)"
proof (induction ms)
  case (Cons m ms)
  have "set (takeWhile isTool ms) \<subseteq> set (takeWhile isTool (filter (\<lambda>m. \<not> IsEmptyAssistantNoOp m) ms))"
    by (induction ms) (auto simp: IsEmptyAssistantNoOp_def isTool_def)
  then show ?case using Cons by (auto simp: subset_iff image_iff split: if_splits) blast
qed simp

lemma RemoveEmpty_wf: "wfSession s \<Longrightarrow> wfSession (snd (RemoveEmptyAssistantNoOps s))"
proof -
  assume w: "wfSession s"
  then obtain m ms where m: "sMessages s = m # ms" "mRole m = RoleSystem" by (cases "sMessages s") (auto simp: wfSession_def)
  have "\<not> IsEmptyAssistantNoOp m" "\<not> IsEmptyAssistantNoOp (summaryMessage t)" for t using m by (auto simp: IsEmptyAssistantNoOp_def)
  then show ?thesis using w m removed_paired [of "[]" "m # ms"] removed_answered [of "m # ms"]
    by (auto simp: RemoveEmptyAssistantNoOps_def Let_def wfSession_def validHistory_def)
qed

text \<open>The contract of an operation on the history of a session.\<close>

locale history_op =
  fixes op :: "Session \<Rightarrow> Session"
  assumes keeps_wf: "wfSession s \<Longrightarrow> wfSession (op s)"
begin

lemma iterated: "wfSession s \<Longrightarrow> wfSession ((op ^^ n) s)"
  by (induction n) (auto simp: keeps_wf)

lemma system_first: "wfSession s \<Longrightarrow> mRole (hd (sMessages (op s))) = RoleSystem"
  using keeps_wf by (simp add: wfSession_def)

end

lemma Prune_wf: "wfSession s \<Longrightarrow> wfSession (snd (PruneOldContext protect s))"
proof (cases "convStart s < length (sMessages s)")
  case True
  assume w: "wfSession s"
  have "take (convStart s) (sMessages (snd (PruneOldContext protect s))) = take (convStart s) (sMessages s)"
    using Prune_messages(1) [OF True, of protect] True by simp
  then show ?thesis using wfSession_same_header [OF w Prune_shape Prune_messages(2) [OF True]] by blast
qed (simp add: PruneOldContext_def Let_def)

interpretation compact_op: history_op "\<lambda>s. snd (Compact c s)" for c
  by unfold_locales (rule Compact_wf)

interpretation prune_op: history_op "\<lambda>s. snd (PruneOldContext protect s)" for protect
  by unfold_locales (rule Prune_wf)

interpretation truncate_op: history_op "\<lambda>s. snd (TruncateInvalidToolCallTail parse s)" for parse
  by unfold_locales (rule Truncate_wf)

interpretation remove_op: history_op "\<lambda>s. snd (RemoveEmptyAssistantNoOps s)"
  by unfold_locales (rule RemoveEmpty_wf)

subsection \<open>Facts: forks\<close>

lemma indexFrom_Some:
  "indexFrom i P ms = Some k \<Longrightarrow> i \<le> k \<and> k < i + length ms \<and> P (ms ! (k - i)) \<and> (\<forall>j < k - i. \<not> P (ms ! j))"
proof (induction i P ms rule: indexFrom.induct)
  case (2 i P m ms)
  show ?case
  proof (cases "P m")
    case False
    then have r: "i + 1 \<le> k" "k < i + 1 + length ms" "P (ms ! (k - (i + 1)))" "\<forall>j < k - (i + 1). \<not> P (ms ! j)" using 2 by auto
    then have "k - i = Suc (k - (i + 1))" by simp
    then show ?thesis using r False by (auto simp: less_Suc_eq_0_disj)
  qed (use 2 in simp)
qed simp

lemma indexFrom_None: "indexFrom i P ms = None \<longleftrightarrow> (\<forall>m \<in> set ms. \<not> P m)"
  by (induction i P ms rule: indexFrom.induct) auto

text \<open>Where a fork is cut.\<close>

lemma forkCutIndex_ok:
  assumes "forkCutIndex source t = Inr k" "t \<noteq> []"
  shows "\<exists>st < k. k \<le> length (sMessages source) \<and> mOriginTurnID (sMessages source ! st) = t \<and>
     (\<forall>j < st. mOriginTurnID (sMessages source ! j) \<noteq> t) \<and>
     (\<forall>j. st < j \<and> j < k \<longrightarrow> mOriginTurnID (sMessages source ! j) = []) \<and>
     (k = length (sMessages source) \<or> mOriginTurnID (sMessages source ! k) \<noteq> [])"
proof -
  let ?ms = "sMessages source"
  obtain st where st: "indexFrom 0 (\<lambda>m. mOriginTurnID m = t) ?ms = Some st"
    using assms by (auto simp: forkCutIndex_def Let_def split: option.splits)
  note s = indexFrom_Some [OF st]
  show ?thesis
  proof (cases "indexFrom (st + 1) (\<lambda>m. mOriginTurnID m \<noteq> []) (drop (st + 1) ?ms)")
    case None
    then have "k = length ?ms" using assms st by (simp add: forkCutIndex_def)
    moreover have "mOriginTurnID (?ms ! j) = []" if "st < j" "j < length ?ms" for j
    proof -
      have "?ms ! j = drop (st + 1) ?ms ! (j - (st + 1))" "j - (st + 1) < length (drop (st + 1) ?ms)" using that by auto
      then have "?ms ! j \<in> set (drop (st + 1) ?ms)" using nth_mem by metis
      then show ?thesis using None by (auto simp: indexFrom_None)
    qed
    ultimately show ?thesis using s by (intro exI [of _ st]) auto
  next
    case (Some i)
    note n = indexFrom_Some [OF Some]
    have "k = i" using assms st Some by (simp add: forkCutIndex_def)
    moreover have "mOriginTurnID (?ms ! j) = []" if "st < j" "j < i" for j
    proof -
      have "j - (st + 1) < i - (st + 1)" using that by simp
      then have "mOriginTurnID (drop (st + 1) ?ms ! (j - (st + 1))) = []" using n by blast
      then show ?thesis using that n s by simp
    qed
    moreover have "st + 1 + (i - (st + 1)) = i" using n by simp
    then have "drop (st + 1) ?ms ! (i - (st + 1)) = ?ms ! i" using n s by simp
    then have "mOriginTurnID (?ms ! i) \<noteq> []" using n by metis
    ultimately show ?thesis using s n by (intro exI [of _ st]) auto
  qed
qed

text \<open>A fork is a well-formed session with the child's own system message, identity and workspace and a prefix of the
  source's conversation; cut at a turn, the prefix ends with that turn's last message and holds no input of
  a later turn.  Only user messages carry a turn identity.\<close>

theorem Fork_correct:
  assumes "wfSession source" "wfSession child" "sMessages child = [sys]"
    "\<forall>m \<in> set (sMessages source). mOriginTurnID m = [] \<or> mRole m = RoleUser"
    "ForkHistoryIntoThrough clock source t name now child = Inr child'"
  shows "wfSession child' \<and> sID child' = sID child \<and> sMetadata child' = sMetadata child \<and> sWorkspacePath child' = sWorkspacePath child \<and>
     (\<exists>k \<le> length (sMessages source). sMessages child' = sys # drop 1 (take k (sMessages source)) \<and>
        (if t = [] then k = length (sMessages source)
         else (\<exists>st < k. mOriginTurnID (sMessages source ! st) = t \<and> (\<forall>j. st < j \<and> j < k \<longrightarrow> mOriginTurnID (sMessages source ! j) = []) \<and>
                 (k = length (sMessages source) \<or> mOriginTurnID (sMessages source ! k) \<noteq> []))))"
proof -
  let ?ms = "sMessages source"
  obtain k where k: "forkCutIndex source t = Inr k" using assms(5) by (auto simp: ForkHistoryIntoThrough_def split: option.splits sum.splits)
  have child: "sMessages child' = sys # drop 1 (take k ?ms)" "sSummary child' = sSummary source" "sID child' = sID child"
    "sMetadata child' = sMetadata child" "sWorkspacePath child' = sWorkspacePath child"
    using assms(3,5) k by (cases "k > 1"; cases "k = 1"; auto simp: ForkHistoryIntoThrough_def take_Suc split: option.splits)+
  obtain m ms where m: "?ms = m # ms" "mRole m = RoleSystem" using assms(1) by (cases ?ms) (auto simp: wfSession_def)
  have origin: "mOriginTurnID m = []" using assms(4) m by auto
  have bound: "k \<le> length ?ms" "k = length ?ms \<or> \<not> isTool (?ms ! k)" "1 \<le> k" "sSummary source \<noteq> [] \<Longrightarrow> 2 \<le> k"
    and cut: "if t = [] then k = length ?ms else (\<exists>st < k. mOriginTurnID (?ms ! st) = t \<and> (\<forall>j. st < j \<and> j < k \<longrightarrow> mOriginTurnID (?ms ! j) = []) \<and>
                 (k = length ?ms \<or> mOriginTurnID (?ms ! k) \<noteq> []))"
  proof -
    show cut: "if t = [] then k = length ?ms else (\<exists>st < k. mOriginTurnID (?ms ! st) = t \<and> (\<forall>j. st < j \<and> j < k \<longrightarrow> mOriginTurnID (?ms ! j) = []) \<and>
                 (k = length ?ms \<or> mOriginTurnID (?ms ! k) \<noteq> []))"
      using k forkCutIndex_ok [OF k] by (cases "t = []") (auto simp: forkCutIndex_def)
    have le: "k \<le> length ?ms" using k forkCutIndex_ok [OF k] by (cases "t = []") (auto simp: forkCutIndex_def)
    show "k \<le> length ?ms" by (rule le)
    have two: "k = length ?ms \<or> 2 \<le> k"
    proof (cases "t = []")
      case False
      then obtain st where "st < k" "mOriginTurnID (?ms ! st) = t" using cut by auto
      moreover then have "st \<noteq> 0" using origin m False by (cases st) auto
      ultimately show ?thesis by simp
    qed (use cut in simp)
    show "k = length ?ms \<or> \<not> isTool (?ms ! k)"
    proof (cases "k = length ?ms")
      case False
      then have "mOriginTurnID (?ms ! k) \<noteq> []" "?ms ! k \<in> set ?ms" using cut le by (auto split: if_splits)
      then show ?thesis using assms(4) by (auto simp: isTool_def)
    qed simp
    show "1 \<le> k" using two m by auto
    show "2 \<le> k" if "sSummary source \<noteq> []" using two that assms(1) m by (auto simp: wfSession_def)
  qed
  have sys: "mRole sys = RoleSystem" using assms(2,3) by (simp add: wfSession_def)
  have "validHistory (take k ?ms)" using validHistory_take [of ?ms k] bound assms(1) by (auto simp: wfSession_def)
  moreover obtain k' where k': "k = Suc k'" using bound(3) by (cases k) auto
  ultimately have v: "validHistory (take k' ms)" using m by (simp add: validHistory_Cons isTool_def)
  have "sSummary source = [] \<or> (\<exists>ms'. take k' ms = summaryMessage (sSummary source) # ms')"
    using assms(1) m bound(4) k' by (cases k') (auto simp: wfSession_def)
  then have "wfSession child'" using v sys child m k' by (simp add: wfSession_def validHistory_Cons isTool_def)
  then show ?thesis using child bound(1) cut by blast
qed

text \<open>The time of a pause is still reported after the turn has gone on.\<close>

theorem paused_at_outlives_pause: "PausedAt (SetTurnStatus ''done'' (MarkPaused t s)) = t \<and> TurnStatus (SetTurnStatus ''done'' (MarkPaused t s)) = ''done''"
  by (simp add: PausedAt_def SetTurnStatus_def MarkPaused_def setMeta_def metaInt64_def TurnStatus_def MetaPausedAt_def MetaTurnStatus_def)

text \<open>The retry counter counts consecutive failures: after n increments it is n higher, and clearing it starts again
  from zero.\<close>

theorem resume_counter:
  "ResumeAttempts (((\<lambda>s. snd (IncResumeAttempts s)) ^^ n) (ClearResumeAttempts s)) = int n \<and>
   fst (IncResumeAttempts s) = ResumeAttempts s + 1"
proof -
  have inc: "ResumeAttempts (snd (IncResumeAttempts x)) = ResumeAttempts x + 1" for x
    by (simp add: IncResumeAttempts_def Let_def ResumeAttempts_def setMeta_def metaInt64_def)
  have "ResumeAttempts (ClearResumeAttempts s) = 0" by (simp add: ResumeAttempts_def ClearResumeAttempts_def metaInt64_def)
  then have "ResumeAttempts (((\<lambda>s. snd (IncResumeAttempts s)) ^^ n) (ClearResumeAttempts s)) = int n" by (induction n) (simp_all add: inc)
  then show ?thesis by (simp add: IncResumeAttempts_def Let_def)
qed

subsection \<open>Witnesses\<close>

lemma demo_wf: "wfSession demoSession"
proof -
  have v: "validHistory demoMessages"
    by (simp add: validHistory_def demoMessages_def demoUser_def demoCall_def newMessage_def isTool_def)
  show ?thesis unfolding wfSession_def using v by (simp add: demoSession_def) (simp add: demoMessages_def newMessage_def)
qed

lemma demo_compacted:
  "sMessages (snd (Compact demoCompactor demoSession)) =
     [newMessage RoleSystem ''sys'', summaryMessage ''S'', (newMessage RoleAssistant [])\<lparr>mToolCalls := [demoCall]\<rparr>,
      (newMessage RoleTool ''<data>'')\<lparr>mToolCallID := ''c1''\<rparr>, newMessage RoleAssistant ''done'', demoUser ''t2'', newMessage RoleAssistant ''bye'']"
  "snd (Compact demoCompactor demoSession) \<noteq> demoSession"
proof -
  have c: "convStart demoSession = 1" "sMessages demoSession = demoMessages" by (simp_all add: convStart_def demoSession_def)
  have r: "recentStart 3 (drop 1 demoMessages) = 1"
    by code_simp
  have "TrimSpace ''S'' = ''S''" by code_simp
  then have t: "summarize (\<lambda>_. Inr ''S'') mn i p ms = Inr ''S''" for mn i p ms by (simp add: summarize_def)
  show m: "sMessages (snd (Compact demoCompactor demoSession)) =
     [newMessage RoleSystem ''sys'', summaryMessage ''S'', (newMessage RoleAssistant [])\<lparr>mToolCalls := [demoCall]\<rparr>,
      (newMessage RoleTool ''<data>'')\<lparr>mToolCallID := ''c1''\<rparr>, newMessage RoleAssistant ''done'', demoUser ''t2'', newMessage RoleAssistant ''bye'']"
    unfolding Compact_def demoCompactor_def using c r by (simp add: t Let_def) (simp add: demoMessages_def)
  have "sSummary (snd (Compact demoCompactor demoSession)) = ''S''"
    unfolding Compact_def demoCompactor_def using c r by (simp add: t Let_def) (simp add: demoMessages_def)
  then show "snd (Compact demoCompactor demoSession) \<noteq> demoSession" by (auto simp: demoSession_def)
qed


theorem Compact_converges_witness:
  "\<exists>n \<le> length (sMessages demoSession). snd (Compact demoCompactor (((\<lambda>s. snd (Compact demoCompactor s)) ^^ n) demoSession)) = ((\<lambda>s. snd (Compact demoCompactor s)) ^^ n) demoSession"
  by (rule Compact_converges [OF demo_wf])

theorem SlidingCompact_valid_witness:
  "validHistory (sMessages (SlidingCompact 4 demoSession)) \<and> hd (sMessages (SlidingCompact 4 demoSession)) = hd (sMessages demoSession)"
  by (rule SlidingCompact_valid [OF demo_wf])

theorem PruneOldContext_safe_witness:
  "wfSession (snd (PruneOldContext 0 demoSession)) \<and> map shape (sMessages (snd (PruneOldContext 0 demoSession))) = map shape (sMessages demoSession)"
proof -
  have "\<forall>m \<in> set (sMessages demoSession). length (mContent m) < 10 ^ 18"
    by (simp add: demoSession_def demoMessages_def demoUser_def newMessage_def)
  from PruneOldContext_safe [OF demo_wf this, of 0] show ?thesis by blast
qed

theorem TruncateInvalid_correct_witness:
  "FirstInvalidToolCallIndex demoParse (snd (TruncateInvalidToolCallTail demoParse demoSession)) = None \<and>
   prefix (sMessages (snd (TruncateInvalidToolCallTail demoParse demoSession))) (sMessages demoSession)"
  using TruncateInvalid_correct [OF demo_wf, of demoParse "fst (TruncateInvalidToolCallTail demoParse demoSession)" "snd (TruncateInvalidToolCallTail demoParse demoSession)"] by simp

theorem Fork_correct_witness:
  "\<exists>child'. ForkHistoryIntoThrough 7 demoSession ''t1'' [] 0 demoChild = Inr child' \<and> wfSession child' \<and> sID child' = ''child''"
proof -
  have w: "wfSession demoChild" by (simp add: wfSession_def demoChild_def demoSession_def newMessage_def validHistory_def isTool_def)
  have m: "sMessages demoChild = [newMessage RoleSystem ''fresh'']" "sID demoChild = ''child''" by (simp_all add: demoChild_def)
  have u: "\<forall>m \<in> set (sMessages demoSession). mOriginTurnID m = [] \<or> mRole m = RoleUser"
    by (simp add: demoSession_def demoMessages_def demoUser_def newMessage_def)
  have "ValidateForkHistory demoSession = None"
    by (simp add: ValidateForkHistory_def demoSession_def demoMessages_def demoUser_def newMessage_def)
  moreover have "forkCutIndex demoSession ''t1'' = Inr 5"
    by (simp add: forkCutIndex_def demoSession_def demoMessages_def demoUser_def newMessage_def)
  ultimately obtain child' where c: "ForkHistoryIntoThrough 7 demoSession ''t1'' [] 0 demoChild = Inr child'"
    by (simp add: ForkHistoryIntoThrough_def)
  show ?thesis using Fork_correct [OF demo_wf w m(1) u c] c m(2) by auto
qed

text \<open>The window compactor drops the digest message and keeps the digest.\<close>

theorem sliding_breaks_summary:
  "let s = demoSession\<lparr>sSummary := ''S'', sMessages := [newMessage RoleSystem ''sys'', summaryMessage ''S'', demoUser ''t'', newMessage RoleAssistant ''a'']\<rparr>
   in wfSession s \<and> \<not> wfSession (SlidingCompact 2 s)"
  by (simp add: Let_def wfSession_def validHistory_def SlidingCompact_def isTool_def demoUser_def newMessage_def summaryMessage_def summaryMarker_def numeral_2_eq_2 numeral_3_eq_3)

end
