(* ===== verification/Context_Editor.thy ===== *)
theory Context_Editor
  imports Session Edit_Text
begin

section \<open>Clearing stale tool results\<close>

text \<open>
  \<^verbatim>\<open>internal/session/context_editor.go\<close>: before a session is summarised, old tool results that carry little are
  replaced by a line that says what was run.  The operation looks at the messages only, and only writes the
  contents of tool results; the last group of definitions puts it together with the other operations that
  keep a history within its limits.
\<close>

record toolCallInfo =
  tiName :: string
  tiInput :: string

definition clearedMarker :: string where "clearedMarker = ''[tool result cleared]''"

subsection \<open>Classifying a result\<close>

definition errorLine :: "string \<Rightarrow> bool" where
  "errorLine line =
     (let trimmed = TrimSpace line
      in HasPrefix trimmed ''error:'' \<or> HasPrefix trimmed ''Error:'' \<or> HasPrefix trimmed ''ERROR:'')"

definition isError :: "string \<Rightarrow> bool" where
  "isError content =
     (list_ex errorLine (SplitByte NL content) \<or>
      (case Index content ''exit status '' of
         None \<Rightarrow> False
       | Some idx \<Rightarrow> (case drop (idx + 12) content of [] \<Rightarrow> False | c # _ \<Rightarrow> isDigitByte c)) \<or>
      Contains content ([NL] @ ''failed'') \<or> Contains content ([NL] @ ''Failed'') \<or> Contains content ([NL] @ ''FAILED'') \<or>
      Contains content ([NL] @ ''failure:'') \<or>
      Contains content ''failure='')"

definition fileExt :: "string \<Rightarrow> string" where
  "fileExt path =
     (let base = (case LastIndexByte path SLASH of Some i \<Rightarrow> drop (i + 1) path | None \<Rightarrow> path)
      in case LastIndexByte base CHR ''.'' of Some i \<Rightarrow> drop i base | None \<Rightarrow> [])"

definition isConfigOrDocExt :: "string \<Rightarrow> bool" where
  "isConfigOrDocExt path =
     (fileExt path \<in> set [''.json'', ''.yaml'', ''.yml'', ''.toml'', ''.md'', ''.cfg'', ''.ini'', ''.conf'', ''.env''])"

definition looksLikeHelp :: "string \<Rightarrow> bool" where
  "looksLikeHelp content =
     (let scan = take 1024 content in Contains scan ''Usage:'' \<or> Contains scan ''usage:'' \<or> Count scan ''--'' \<ge> 2)"

definition declarationPrefixes :: "string list" where
  "declarationPrefixes =
     [''func '', ''type '', ''import ('', ''package '', ''var ('', ''const ('', ''interface '', ''struct '', ''def '', ''class '',
      ''function '', ''export '', ''enum '', ''protocol '', ''extension '', ''trait '', ''impl '', ''fn '', ''import '', ''from '',
      ''use '', ''var '', ''const '', ''#include'']"

fun colonDigit :: "string \<Rightarrow> bool" where
  "colonDigit (c # d # s) = (c = CHR '':'' \<and> isDigitByte d \<or> colonDigit (d # s))"
| "colonDigit _ = False"

definition matchFileLine :: "string \<Rightarrow> bool" where
  "matchFileLine s = (if length s < 4 then False else colonDigit (tl s))"

definition lineMarkers :: "string \<Rightarrow> nat" where
  "lineMarkers line =
     (let trimmed = TrimSpace line
      in if list_ex (HasPrefix trimmed) declarationPrefixes then 2 else if matchFileLine trimmed then 1 else 0)"

definition countCodeMarkers :: "string \<Rightarrow> nat" where
  "countCodeMarkers content = sum_list (map lineMarkers (SplitByte NL (take 4096 content)))"

definition defaultHighValue :: "string \<Rightarrow> bool" where
  "defaultHighValue content =
     (if length content \<le> 200 then countCodeMarkers content \<ge> 1
      else if length content \<le> 2048 then True
      else countCodeMarkers content \<ge> 3)"

definition isHighValue :: "string \<Rightarrow> toolCallInfo \<Rightarrow> bool" where
  "isHighValue content info =
     (if tiName info = ''read_file'' then
        (if isConfigOrDocExt (tiInput info) then True
         else if length content \<le> 4096 then True
         else countCodeMarkers content \<ge> 1)
      else if tiName info \<in> set [''search'', ''grep''] then
        (if length content \<le> 4096 \<or> countCodeMarkers content \<ge> 1 then True else defaultHighValue content)
      else if tiName info = ''bash'' then
        (if looksLikeHelp content then True
         else if length content > 2048 then countCodeMarkers content \<ge> 5
         else defaultHighValue content)
      else if tiName info = ''ask_user'' then True
      else if tiName info = ''propose_plan'' then True
      else defaultHighValue content)"

subsection \<open>What a call was about\<close>

fun scanJSON :: "string \<Rightarrow> string \<Rightarrow> string option" where
  "scanJSON acc [] = None"
| "scanJSON acc (c # s) =
     (if c = CHR 0x5C then (case s of [] \<Rightarrow> None | d # s' \<Rightarrow> scanJSON (acc @ [c, d]) s')
      else if c = DQ then Some acc
      else scanJSON (acc @ [c]) s)"

definition scanJSONString :: "string \<Rightarrow> string option" where
  "scanJSONString s = scanJSON [] s"

definition extractJSONString :: "string \<Rightarrow> string \<Rightarrow> string" where
  "extractJSONString raw field =
     (let key = [DQ] @ field @ [DQ] @ '':'' in
      case Index raw key of
        None \<Rightarrow> []
      | Some pos \<Rightarrow>
          (case TrimLeft (drop (pos + length key) raw) [SP, TAB] of
             [] \<Rightarrow> []
           | c # body \<Rightarrow> if c \<noteq> DQ then [] else (case scanJSONString body of None \<Rightarrow> [] | Some v \<Rightarrow> v)))"

definition shortPath :: "string \<Rightarrow> string" where
  "shortPath p =
     (case LastIndexByte p SLASH of
        None \<Rightarrow> p
      | Some l \<Rightarrow> (case LastIndexByte (take l p) SLASH of None \<Rightarrow> p | Some s \<Rightarrow> drop (s + 1) p))"

definition truncateBytes :: "string \<Rightarrow> nat \<Rightarrow> string" where
  "truncateBytes s maxLen = (if length s \<le> maxLen then s else take (maxLen - 1) s @ [CHR 0xE2, CHR 0x80, CHR 0xA6])"

definition argsFallback :: "string \<Rightarrow> string" where
  "argsFallback args = (if length args \<le> 60 then args else [])"

definition summariseToolInput :: "string \<Rightarrow> string \<Rightarrow> string" where
  "summariseToolInput name args =
     (if name = ''read_file'' then
        (let v = extractJSONString args ''file_path'' in if v \<noteq> [] then shortPath v else argsFallback args)
      else if name = ''bash'' then
        (let v = extractJSONString args ''command'' in if v \<noteq> [] then truncateBytes v 80 else argsFallback args)
      else if name \<in> set [''search'', ''grep''] then
        (let v = extractJSONString args ''pattern''; w = extractJSONString args ''query''
         in if v \<noteq> [] then truncateBytes v 60 else if w \<noteq> [] then truncateBytes w 60 else argsFallback args)
      else if name = ''task'' then
        (let v = extractJSONString args ''kind'' in if v \<noteq> [] then ''kind='' @ v else argsFallback args)
      else argsFallback args)"

definition callInfo :: "ToolCall \<Rightarrow> toolCallInfo" where
  "callInfo tc = \<lparr>tiName = fnName tc, tiInput = summariseToolInput (fnName tc) (fnArguments tc)\<rparr>"

definition buildToolCallMap :: "Message list \<Rightarrow> (string \<rightharpoonup> toolCallInfo)" where
  "buildToolCallMap ms =
     fold (\<lambda>m mp. if mRole m = RoleAssistant then fold (\<lambda>tc mp. mp(tcID tc \<mapsto> callInfo tc)) (mToolCalls m) mp else mp) ms Map.empty"

subsection \<open>The line that stays\<close>

text \<open>One decimal of a quotient by a power of two, rounded as \<open>%.1f\<close> does: to nearest, ties to even.\<close>

definition oneDecimal :: "nat \<Rightarrow> nat \<Rightarrow> string" where
  "oneDecimal n d =
     (let q = 10 * n div d; r = 10 * n mod d; t = (if 2 * r > d \<or> 2 * r = d \<and> odd q then q + 1 else q)
      in natString (t div 10) @ ''.'' @ natString (t mod 10))"

definition formatBytes :: "nat \<Rightarrow> string" where
  "formatBytes n =
     (if n \<ge> 1024 * 1024 then oneDecimal n (1024 * 1024) @ ''MB''
      else if n \<ge> 1024 then oneDecimal n 1024 @ ''KB''
      else natString n @ ''B'')"

definition typeEnd :: "string \<Rightarrow> nat" where
  "typeEnd rest =
     fold (\<lambda>sep e. case Index rest sep of Some i \<Rightarrow> if i < e then i else e | None \<Rightarrow> e)
       ['' {'', '' ='', [TAB] @ ''{''] (length rest)"

definition symbolOf :: "string \<Rightarrow> string option" where
  "symbolOf txt =
     (if HasPrefix txt ''type '' \<and> Contains txt ''interface'' then
        (case Index txt '' interface'' of
           Some idx \<Rightarrow> if idx > 5 then Some (TrimSpace (take (idx + 10) txt)) else None
         | None \<Rightarrow> None)
      else if HasPrefix txt ''type '' \<and> Count txt [SP] = 1 then None
      else if HasPrefix txt ''type '' then
        (let rest = drop 5 txt in Some (''type '' @ TrimSpace (take (typeEnd rest) rest)))
      else if HasPrefix txt ''func '' then
        (case Index txt ''{'' of
           Some idx \<Rightarrow> if idx > 0 then Some (TrimSpace (take idx txt)) else None
         | None \<Rightarrow>
             (case Index txt ''('' of Some idx \<Rightarrow> if idx > 5 then Some txt else None | None \<Rightarrow> None))
      else None)"

fun keySymbols :: "string list \<Rightarrow> string list \<Rightarrow> string list" where
  "keySymbols acc [] = acc"
| "keySymbols acc (l # ls) =
     (let acc' = (case symbolOf (TrimSpace l) of Some s \<Rightarrow> acc @ [s] | None \<Rightarrow> acc)
      in if length acc' \<ge> 5 then acc' else keySymbols acc' ls)"

definition extractKeySymbols :: "string \<Rightarrow> string" where
  "extractKeySymbols content = Join (keySymbols [] (SplitByte NL content)) ''; ''"

definition buildSkeleton :: "string \<Rightarrow> string \<Rightarrow> (string \<rightharpoonup> toolCallInfo) \<Rightarrow> string" where
  "buildSkeleton callID content toolMap =
     (case toolMap callID of
        None \<Rightarrow> ''[cleared: unknown ('' @ formatBytes (length content) @ '')]''
      | Some info \<Rightarrow>
          ''[cleared: '' @ tiName info @ (if tiInput info \<noteq> [] then '' '' @ tiInput info else []) @
          '' ('' @ formatBytes (length content) @ '')'' @
          (if tiName info = ''read_file'' \<and> extractKeySymbols content \<noteq> [] then '' | Key: '' @ extractKeySymbols content else []) @
          '']'')"

subsection \<open>Editing\<close>

text \<open>The messages before the cut are the first \<open>i\<close> of the list; the walk is over the reversed list.\<close>

fun cutoffLoop :: "nat \<Rightarrow> nat \<Rightarrow> Message list \<Rightarrow> nat" where
  "cutoffLoop keep turns [] = 0"
| "cutoffLoop keep turns (m # older) =
     (if mRole m = RoleAssistant then (if turns + 1 \<ge> keep then length older else cutoffLoop keep (turns + 1) older)
      else cutoffLoop keep turns older)"

definition findCutoff :: "Message list \<Rightarrow> nat \<Rightarrow> nat" where
  "findCutoff msgs keepTurns = cutoffLoop keepTurns 0 (rev msgs)"

text \<open>A key that is absent reads as the zero value of the map.\<close>

definition infoOf :: "(string \<rightharpoonup> toolCallInfo) \<Rightarrow> string \<Rightarrow> toolCallInfo" where
  "infoOf toolMap callID = (case toolMap callID of Some i \<Rightarrow> i | None \<Rightarrow> \<lparr>tiName = [], tiInput = []\<rparr>)"

definition clears :: "(string \<rightharpoonup> toolCallInfo) \<Rightarrow> Message \<Rightarrow> bool" where
  "clears toolMap m =
     (mRole m = RoleTool \<and> \<not> (mContent m = clearedMarker \<or> HasPrefix (mContent m) ''[cleared:'') \<and>
      \<not> isError (mContent m) \<and> \<not> isHighValue (mContent m) (infoOf toolMap (mToolCallID m)))"

definition editMessage :: "(string \<rightharpoonup> toolCallInfo) \<Rightarrow> Message \<Rightarrow> Message" where
  "editMessage toolMap m =
     (if clears toolMap m then m\<lparr>mContent := buildSkeleton (mToolCallID m) (mContent m) toolMap\<rparr> else m)"

definition keepTurnsOf :: "int \<Rightarrow> nat" where
  "keepTurnsOf keepTurns = (if keepTurns \<le> 0 then 3 else nat keepTurns)"

definition EditContext :: "int \<Rightarrow> Session \<Rightarrow> nat \<times> Session" where
  "EditContext keepTurns s =
     (let msgs = sMessages s; c = findCutoff msgs (keepTurnsOf keepTurns); toolMap = buildToolCallMap msgs in
      if c = 0 then (0, s)
      else (length (filter (clears toolMap) (take c msgs)),
            s\<lparr>sMessages := map (editMessage toolMap) (take c msgs) @ drop c msgs\<rparr>))"

subsection \<open>Keeping a history within its limits\<close>

text \<open>The operations the runtime applies to a history between turns.\<close>

datatype upkeep =
    DoCompact LLMCompactor
  | DoPrune int
  | DoEdit int
  | DoRemoveEmpty
  | DoTruncate "string \<Rightarrow> raw_message"

fun runUpkeep :: "upkeep \<Rightarrow> Session \<Rightarrow> Session" where
  "runUpkeep (DoCompact c) s = snd (Compact c s)"
| "runUpkeep (DoPrune n) s = snd (PruneOldContext n s)"
| "runUpkeep (DoEdit k) s = snd (EditContext k s)"
| "runUpkeep DoRemoveEmpty s = snd (RemoveEmptyAssistantNoOps s)"
| "runUpkeep (DoTruncate parse) s = snd (TruncateInvalidToolCallTail parse s)"

subsection \<open>An example\<close>

text \<open>A session whose old result is cleared.\<close>

definition listSession :: Session where
  "listSession = demoSession\<lparr>sMessages := [newMessage RoleSystem ''sys'', (newMessage RoleAssistant [])\<lparr>mToolCalls := [demoCall\<lparr>fnName := ''ls''\<rparr>]\<rparr>,
     (newMessage RoleTool ''ok'')\<lparr>mToolCallID := ''c1''\<rparr>, newMessage RoleAssistant ''done'']\<rparr>"

subsection \<open>Facts: a message\<close>

lemma skeleton_cleared: "HasPrefix (buildSkeleton i c tm) ''[cleared:''"
  by (auto simp: buildSkeleton_def split: option.splits)

lemma editMessage_shape: "shape (editMessage tm m) = shape m"
  by (simp add: editMessage_def shape_def)

lemma editMessage_role [simp]: "mRole (editMessage tm m) = mRole m"
  by (simp add: editMessage_def)

lemma editMessage_idem: "editMessage tm (editMessage tm m) = editMessage tm m \<and> \<not> clears tm (editMessage tm m)"
  using skeleton_cleared by (auto simp: editMessage_def clears_def)

lemma editMessage_changes: "editMessage tm m \<noteq> m \<longleftrightarrow> clears tm m"
proof
  assume "clears tm m"
  then have "\<not> HasPrefix (mContent m) ''[cleared:''" "HasPrefix (mContent (editMessage tm m)) ''[cleared:''"
    using skeleton_cleared by (auto simp: clears_def editMessage_def)
  then show "editMessage tm m \<noteq> m" by metis
qed (auto simp: editMessage_def split: if_splits)

lemma editMessage_assistant: "mRole m = RoleAssistant \<Longrightarrow> editMessage tm m = m"
  by (simp add: editMessage_def clears_def)

subsection \<open>Facts: the cutoff\<close>

lemma cutoffLoop_roles: "map mRole ms = map mRole ms' \<Longrightarrow> cutoffLoop k t ms = cutoffLoop k t ms'"
proof (induction ms arbitrary: ms' t)
  case (Cons m ms)
  then obtain n ns where "ms' = n # ns" "mRole m = mRole n" "map mRole ms = map mRole ns" by (cases ms') auto
  moreover then have "length ms = length ns" by (metis length_map)
  ultimately show ?case using Cons.IH [of ns] by simp
qed simp

lemma findCutoff_roles: "map mRole ms = map mRole ms' \<Longrightarrow> findCutoff ms k = findCutoff ms' k"
  unfolding findCutoff_def by (rule cutoffLoop_roles) (simp flip: rev_map)

lemma cutoffLoop_le: "cutoffLoop k t ms \<le> length ms"
  by (induction k t ms rule: cutoffLoop.induct) auto

lemma cutoffLoop_props:
  "cutoffLoop k t ms \<le> length ms \<and>
   (cutoffLoop k t ms \<noteq> 0 \<longrightarrow> t < k \<longrightarrow>
      t + length (filter (\<lambda>m. mRole m = RoleAssistant) (take (length ms - cutoffLoop k t ms) ms)) = k)"
proof (induction k t ms rule: cutoffLoop.induct)
  case (2 k t m ms)
  have le: "cutoffLoop k (t + 1) ms \<le> length ms" "cutoffLoop k t ms \<le> length ms" using cutoffLoop_le by auto
  show ?case
  proof (cases "mRole m = RoleAssistant")
    case True
    show ?thesis
    proof (cases "t + 1 \<ge> k")
      case True
      then show ?thesis using \<open>mRole m = RoleAssistant\<close> by auto
    next
      case False
      then show ?thesis using True 2 le by (simp add: Suc_diff_le)
    qed
  next
    case False
    then show ?thesis using 2 le by (simp add: Suc_diff_le)
  qed
qed simp

text \<open>What lies after the cutoff holds the last turns.\<close>

lemma findCutoff_keeps:
  assumes "0 < k" "findCutoff ms k \<noteq> 0"
  shows "findCutoff ms k < length ms" "length (filter (\<lambda>m. mRole m = RoleAssistant) (drop (findCutoff ms k) ms)) = k"
proof -
  let ?c = "findCutoff ms k"
  have le: "?c \<le> length ms" using cutoffLoop_props [of k 0 "rev ms"] by (simp add: findCutoff_def)
  have "take (length ms - ?c) (rev ms) = rev (drop ?c ms)" using le by (simp add: take_rev)
  then have n: "length (filter (\<lambda>m. mRole m = RoleAssistant) (rev (drop ?c ms))) = k"
    using cutoffLoop_props [of k 0 "rev ms"] assms by (simp add: findCutoff_def)
  then show "length (filter (\<lambda>m. mRole m = RoleAssistant) (drop ?c ms)) = k" by (simp add: rev_filter [symmetric])
  with assms(1) le show "?c < length ms" by (cases "?c = length ms") auto
qed

lemma keepTurnsOf_pos: "0 < keepTurnsOf k"
  by (auto simp: keepTurnsOf_def)

subsection \<open>Facts: the session\<close>

lemma toolMap_edit:
  "buildToolCallMap (map (editMessage tm) xs @ ys) = buildToolCallMap (xs @ ys)"
proof -
  have "(\<lambda>m mp. if mRole m = RoleAssistant then fold (\<lambda>tc mp. mp(tcID tc \<mapsto> callInfo tc)) (mToolCalls m) mp else mp) (editMessage tm m) =
      (\<lambda>m mp. if mRole m = RoleAssistant then fold (\<lambda>tc mp. mp(tcID tc \<mapsto> callInfo tc)) (mToolCalls m) mp else mp) m" for m
    by (cases "mRole m = RoleAssistant") (simp_all add: editMessage_assistant)
  then show ?thesis unfolding buildToolCallMap_def by (simp add: fold_map comp_def)
qed

lemma EditContext_messages:
  fixes keepTurns :: int
  defines "c s \<equiv> findCutoff (sMessages s) (keepTurnsOf keepTurns)"
  shows "sMessages (snd (EditContext keepTurns s)) =
     map (editMessage (buildToolCallMap (sMessages s))) (take (c s) (sMessages s)) @ drop (c s) (sMessages s)"
    "sSummary (snd (EditContext keepTurns s)) = sSummary s"
  by (auto simp: EditContext_def Let_def c_def)

lemma EditContext_shape: "map shape (sMessages (snd (EditContext k s))) = map shape (sMessages s)"
proof -
  have "map shape (map (editMessage tm) xs) = map shape xs" for tm xs by (simp add: editMessage_shape comp_def)
  then show ?thesis unfolding EditContext_messages(1) map_append by (metis append_take_drop_id map_append)
qed

lemma take_edited: "\<forall>m \<in> set (take h ms). f m = m \<Longrightarrow> take h (map f (take c ms) @ drop c ms) = take h ms"
proof (induction ms arbitrary: c h)
  case (Cons m ms)
  then show ?case by (cases c; cases h) auto
qed simp

lemma EditContext_wf: "wfSession s \<Longrightarrow> wfSession (snd (EditContext k s))"
proof (rule wfSession_same_header [OF _ EditContext_shape EditContext_messages(2)])
  assume w: "wfSession s"
  let ?ms = "sMessages s" and ?f = "editMessage (buildToolCallMap (sMessages s))"
  have "\<forall>m \<in> set (take (convStart s) ?ms). \<not> isTool m"
    using w by (cases ?ms; cases "tl ?ms") (auto simp: wfSession_def convStart_def isTool_def numeral_2_eq_2)
  then have "\<forall>m \<in> set (take (convStart s) ?ms). ?f m = m" by (simp add: editMessage_def clears_def isTool_def)
  then show "take (convStart s) (sMessages (snd (EditContext k s))) = take (convStart s) ?ms"
    unfolding EditContext_messages(1) by (rule take_edited)
qed

text \<open>Clearing is idempotent: a second pass over the result edits nothing and leaves the session as it is.\<close>

theorem EditContext_idempotent: "EditContext k (snd (EditContext k s)) = (0, snd (EditContext k s))"
proof -
  let ?ms = "sMessages s" and ?s = "snd (EditContext k s)"
  let ?c = "findCutoff ?ms (keepTurnsOf k)" and ?tm = "buildToolCallMap ?ms"
  let ?ed = "map (editMessage ?tm) (take ?c ?ms)"
  have ms: "sMessages ?s = ?ed @ drop ?c ?ms" by (rule EditContext_messages)
  have roles: "map mRole (sMessages ?s) = map mRole ?ms"
    using EditContext_shape [of k s] unfolding shape_def by (metis (no_types, lifting) fst_conv list.map_comp comp_def map_eq_conv)
  have c: "findCutoff (sMessages ?s) (keepTurnsOf k) = ?c" by (rule findCutoff_roles [OF roles])
  have tm: "buildToolCallMap (sMessages ?s) = ?tm" unfolding ms toolMap_edit by simp
  have le: "?c \<le> length ?ms" using cutoffLoop_props [of "keepTurnsOf k" 0 "rev ?ms"] by (simp add: findCutoff_def)
  have tk: "take ?c (sMessages ?s) = ?ed" "drop ?c (sMessages ?s) = drop ?c ?ms" using ms le by simp_all
  have "filter (clears ?tm) ?ed = []" by (auto simp: filter_empty_conv editMessage_idem)
  moreover have "map (editMessage ?tm) ?ed = ?ed" by (auto simp: editMessage_idem)
  ultimately show ?thesis
    unfolding EditContext_def [of k ?s] Let_def c tm tk using ms by (cases "?c = 0") auto
qed

text \<open>What clearing changes: the content of a message, and nothing else of it, and only where the message is a tool
  result older than the last turns to keep, not cleared before, without an error in it and of low value; the
  new content is the line that describes it.  The reported number is the number of messages changed, the
  kept tail holds exactly the turns to keep, and a well-formed session stays well formed.\<close>

theorem EditContext_safe:
  assumes "wfSession s" "EditContext k s = (n, s')"
  defines "ms \<equiv> sMessages s" and "c \<equiv> findCutoff (sMessages s) (keepTurnsOf k)" and "tm \<equiv> buildToolCallMap (sMessages s)"
  shows "wfSession s' \<and> length (sMessages s') = length ms \<and>
     (\<forall>i < length ms. sMessages s' ! i =
        (if i < c \<and> clears tm (ms ! i) then (ms ! i)\<lparr>mContent := buildSkeleton (mToolCallID (ms ! i)) (mContent (ms ! i)) tm\<rparr> else ms ! i)) \<and>
     n = card {i. i < length ms \<and> sMessages s' ! i \<noteq> ms ! i} \<and>
     (c = 0 \<or> length (filter (\<lambda>m. mRole m = RoleAssistant) (drop c (sMessages s'))) = keepTurnsOf k)"
proof -
  have s': "s' = snd (EditContext k s)" using assms(2) by simp
  have m: "sMessages s' = map (editMessage tm) (take c ms) @ drop c ms"
    unfolding s' ms_def c_def tm_def by (rule EditContext_messages)
  have le: "c \<le> length ms" using cutoffLoop_le [of "keepTurnsOf k" 0 "rev ms"] by (simp add: findCutoff_def c_def ms_def)
  have nth: "sMessages s' ! i = (if i < c then editMessage tm (ms ! i) else ms ! i)" if "i < length ms" for i
    using that le unfolding m by (auto simp: nth_append)
  have set: "{i. i < length ms \<and> sMessages s' ! i \<noteq> ms ! i} = {i. i < c \<and> clears tm (take c ms ! i)}"
  proof -
    have "i < length ms \<and> sMessages s' ! i \<noteq> ms ! i \<longleftrightarrow> i < c \<and> clears tm (take c ms ! i)" for i
      using nth [of i] le editMessage_changes [of tm "ms ! i"] by (cases "i < c") auto
    then show ?thesis by auto
  qed
  have "n = length (filter (clears tm) (take c ms))"
    using assms(2) by (auto simp: EditContext_def Let_def c_def ms_def tm_def split: if_splits)
  also have "\<dots> = card {i. i < c \<and> clears tm (take c ms ! i)}" using le by (simp add: length_filter_conv_card)
  finally have "n = card {i. i < length ms \<and> sMessages s' ! i \<noteq> ms ! i}" using set by simp
  moreover have "drop c (sMessages s') = drop c ms" using m le by simp
  then have "c = 0 \<or> length (filter (\<lambda>m. mRole m = RoleAssistant) (drop c (sMessages s'))) = keepTurnsOf k"
    using findCutoff_keeps(2) [OF keepTurnsOf_pos] by (auto simp: c_def ms_def)
  moreover have "wfSession s'" unfolding s' by (rule EditContext_wf [OF assms(1)])
  moreover have "length (sMessages s') = length ms" using m le by simp
  ultimately show ?thesis using nth by (auto simp: editMessage_def)
qed

interpretation edit_op: history_op "\<lambda>s. snd (EditContext k s)" for k
  by unfold_locales (rule EditContext_wf)

interpretation upkeep_op: history_op "runUpkeep u" for u
  by unfold_locales
     (cases u; simp add: compact_op.keeps_wf prune_op.keeps_wf edit_op.keeps_wf remove_op.keeps_wf truncate_op.keeps_wf)

text \<open>C20. Whatever operations the runtime applies to a history between turns, in whatever order and however often, the
  history stays one a provider accepts, with the system message first and the digest in its place.\<close>

theorem upkeep_keeps_history: "wfSession s \<Longrightarrow> wfSession (fold runUpkeep us s)"
  by (induction us arbitrary: s) (simp_all add: upkeep_op.keeps_wf)

theorem upkeep_keeps_history_witness:
  "wfSession (fold runUpkeep [DoEdit 1, DoPrune 0, DoCompact demoCompactor, DoRemoveEmpty, DoTruncate demoParse] demoSession)"
  by (rule upkeep_keeps_history [OF demo_wf])

lemma list_wf: "wfSession listSession"
  by (simp add: wfSession_def listSession_def demoSession_def validHistory_def newMessage_def isTool_def demoCall_def)

lemma list_edited: "mContent (sMessages (snd (EditContext 1 listSession)) ! 2) = ''[cleared: ls {} (2B)]''" "fst (EditContext 1 listSession) = 1"
proof -
  let ?tm = "buildToolCallMap (sMessages listSession)"
  have c: "findCutoff (sMessages listSession) (keepTurnsOf 1) = 3"
    by (simp add: findCutoff_def keepTurnsOf_def listSession_def newMessage_def)
  have tm: "?tm ''c1'' = Some \<lparr>tiName = ''ls'', tiInput = ''{}''\<rparr>"
    by (simp add: buildToolCallMap_def listSession_def newMessage_def demoCall_def callInfo_def summariseToolInput_def argsFallback_def)
  have e: "\<not> isError ''ok''" "lineMarkers ''ok'' = 0" "SplitByte NL ''ok'' = [''ok'']" "natString 2 = ''2''" "extractKeySymbols ''ok'' = []" by code_simp+
  then have h: "\<not> isHighValue ''ok'' \<lparr>tiName = ''ls'', tiInput = ''{}''\<rparr>" by (simp add: isHighValue_def defaultHighValue_def countCodeMarkers_def)
  have f: "formatBytes (length ''ok'') = ''2B''" using e(4) by (simp add: formatBytes_def numeral_2_eq_2)
  have "\<not> clears ?tm (newMessage RoleSystem x)" "\<not> clears ?tm ((newMessage RoleAssistant y)\<lparr>mToolCalls := z\<rparr>)" for x y z
    by (simp_all add: clears_def newMessage_def)
  moreover have "clears ?tm ((newMessage RoleTool ''ok'')\<lparr>mToolCallID := ''c1''\<rparr>)"
    using e(1) h tm by (simp add: clears_def newMessage_def clearedMarker_def infoOf_def)
  moreover have "buildSkeleton ''c1'' ''ok'' ?tm = ''[cleared: ls {} (2B)]''" using tm f by (simp add: buildSkeleton_def)
  moreover have t: "take 3 (sMessages listSession) = [newMessage RoleSystem ''sys'', (newMessage RoleAssistant [])\<lparr>mToolCalls := [demoCall\<lparr>fnName := ''ls''\<rparr>]\<rparr>,
     (newMessage RoleTool ''ok'')\<lparr>mToolCallID := ''c1''\<rparr>]" by (simp add: listSession_def)
  moreover have "mContent ((newMessage RoleTool ''ok'')\<lparr>mToolCallID := ''c1''\<rparr>) = ''ok''" "mToolCallID ((newMessage RoleTool ''ok'')\<lparr>mToolCallID := ''c1''\<rparr>) = ''c1''"
    by (simp_all add: newMessage_def)
  ultimately show "mContent (sMessages (snd (EditContext 1 listSession)) ! 2) = ''[cleared: ls {} (2B)]''" "fst (EditContext 1 listSession) = 1"
    by (simp_all add: EditContext_def Let_def c editMessage_def)
qed

theorem EditContext_safe_witness:
  "wfSession (snd (EditContext 1 listSession)) \<and> 1 = card {i. i < length (sMessages listSession) \<and> sMessages (snd (EditContext 1 listSession)) ! i \<noteq> sMessages listSession ! i}"
proof -
  have e: "EditContext 1 listSession = (1, snd (EditContext 1 listSession))" using list_edited(2) by (metis prod.collapse)
  show ?thesis using EditContext_safe [OF list_wf e] by blast
qed

text \<open>The line that replaces a short result is longer than the result.\<close>

theorem clearing_can_grow:
  "length (mContent (sMessages listSession ! 2)) = 2 \<and> length (mContent (sMessages (snd (EditContext 1 listSession)) ! 2)) = 21"
  unfolding list_edited(1) by (simp add: listSession_def newMessage_def)

text \<open>The target of a file read is looked up under a key that the tool does not have, so that a configuration file is not
  recognised by its name; with the other key it would be.\<close>

theorem read_target_key:
  "summariseToolInput ''read_file'' ([CHR ''{'', DQ] @ ''path'' @ [DQ] @ '':'' @ [DQ] @ ''go.toml'' @ [DQ] @ ''}'') =
     [CHR ''{'', DQ] @ ''path'' @ [DQ] @ '':'' @ [DQ] @ ''go.toml'' @ [DQ] @ ''}'' \<and>
   \<not> isConfigOrDocExt ([CHR ''{'', DQ] @ ''path'' @ [DQ] @ '':'' @ [DQ] @ ''go.toml'' @ [DQ] @ ''}'') \<and>
   isConfigOrDocExt (summariseToolInput ''read_file'' ([CHR ''{'', DQ] @ ''file_path'' @ [DQ] @ '':'' @ [DQ] @ ''go.toml'' @ [DQ] @ ''}''))"
  by code_simp

text \<open>A method declared without a body on its line is not listed, and a struct is listed with its kind.\<close>

theorem key_symbols_of_methods:
  "symbolOf ''func (m *Model) Init() tea.Cmd'' = None \<and> symbolOf ''type Theme struct {'' = Some ''type Theme struct''"
  by code_simp

end
