(* ===== verification/Memory_Store.thy ===== *)
theory Memory_Store
  imports Session Transition "HOL-Library.AList" "HOL-Library.Char_ord" "HOL-Library.List_Lexorder"
begin

section \<open>The session store\<close>

text \<open>
  \<^verbatim>\<open>internal/session/memory_store.go\<close>, the in-memory backend that stands for the storage contract of \<^verbatim>\<open>store.go\<close>, and the
  event pages it shares with the other backends (\<^verbatim>\<open>event_page.go\<close>).  Every method holds the store's mutex, so a
  method is one step.  A Go map is an association list; the order of the list stands for the order in which
  Go happens to range over the map, and no theorem depends on it.  Assigning to a map of a closed store
  panics: None is the panic.  A stored session is a copy, so values stand for pointers.  The sequence counter is an unbounded integer: an int64 that grows by one per event does not wrap.  The averages of the
  telemetry (\<open>Stats\<close>, \<open>ProviderStats\<close>) are floats and not modelled.
\<close>

subsection \<open>Records\<close>

record EventRecord =
  evSeq :: int
  evSessionID :: string
  evTurnID :: string
  evKind :: string
  evAt :: int
  evPayload :: string

datatype TurnInputState =
    TurnInputAccepted | TurnInputQueued | TurnInputRunning | TurnInputCompleted | TurnInputFailed | TurnInputCancelled
  | TurnInputWaitingBackground

record CrossSessionProvenance =
  cpSenderSessionID :: string
  cpSenderTurnID :: string
  cpMessageID :: string
  cpCorrelationID :: string
  cpIntent :: string

record ManagedTurnRef =
  mrServerID :: string
  mrStoreID :: string
  mrTaskID :: string
  mrRunID :: string
  mrEpoch :: string
  mrDispatchID :: string

record ValidationContract =
  vcVersion :: int
  vcValidationCommands :: "string list"
  vcManualChecks :: "string list"

record TurnInput =
  tiSessionID :: string
  tiRequestID :: string
  tiTurnID :: string
  tiPayloadHash :: string
  tiText :: string
  tiWireModel :: string
  tiResolvedModel :: string
  tiAssets :: "GatewayAssetRef list"
  tiLocalAssets :: "LocalAssetRef list"
  tiProvenance :: "CrossSessionProvenance option"
  tiManagedTask :: "ManagedTurnRef option"
  tiValidationContract :: "ValidationContract option"
  tiAcceptedSeq :: int
  tiState :: TurnInputState
  tiCreatedAt :: int
  tiUpdatedAt :: int

record AssetRefRelease =
  arSessionID :: string
  arCredentialScope :: string
  arAttempts :: int
  arNextAttemptAt :: int
  arCreatedAt :: int
  arUpdatedAt :: int

record WorktreeRecord =
  wtSessionID :: string
  wtClientRequestID :: string
  wtBaseWorkspaceID :: string
  wtSourceWorkspaceID :: string
  wtCheckoutWorkspaceID :: string
  wtSourceWorkspacePath :: string
  wtWorktreePath :: string
  wtName :: string
  wtBranch :: string
  wtBaseRef :: string
  wtBaseCommit :: string
  wtState :: string
  wtLastErrorCode :: string
  wtLastErrorMessage :: string
  wtRemoveRequestID :: string
  wtRemoveForce :: bool
  wtCreatedAt :: int
  wtUpdatedAt :: int

record RequestRecord =
  rrAt :: int
  rrModel :: string
  rrPromptTokens :: int
  rrCachedPromptTokens :: int
  rrCompletionTokens :: int
  rrRetries :: int
  rrTimedOut :: bool
  rrSuccess :: bool
  rrLatencyMs :: int

record Meta =
  mtID :: string
  mtName :: string
  mtTitle :: string
  mtModel :: string
  mtMessageCount :: nat
  mtPromptTokens :: int
  mtUpdatedAt :: int
  mtWorkspacePath :: string
  mtWorkspace :: WorkspaceRef
  mtCompactions :: nat
  mtTotalSaved :: int
  mtLastCompacted :: int
  mtTurnStatus :: string
  mtPausedAt :: int
  mtArchivedAt :: int

record MemoryStore =
  stSessions :: "(string \<times> Session) list"
  stMetas :: "Meta list"
  stEvents :: "EventRecord list"
  stEventSeq :: int
  stRequests :: "RequestRecord list"
  stWorktrees :: "(string \<times> WorktreeRecord) list"
  stTurnInputs :: "(string \<times> TurnInput) list"
  stAssetReleases :: "(string \<times> AssetRefRelease) list"
  stClosed :: bool

definition NewMemoryStore :: MemoryStore where
  "NewMemoryStore = \<lparr>stSessions = [], stMetas = [], stEvents = [], stEventSeq = 0, stRequests = [], stWorktrees = [],
     stTurnInputs = [], stAssetReleases = [], stClosed = False\<rparr>"

datatype store_error = StoreClosed | NoSessionID | SessionNotFound string | TurnInputNotFound string string | WorktreeNotFound | EventTurnNotFound

subsection \<open>The list of sessions\<close>

definition finalizedStats :: "Session \<Rightarrow> CompactionStats list" where
  "finalizedStats s = filter (\<lambda>c. AfterTokens c \<ge> 0) (sCompactions s)"

definition metaOf :: "Session \<Rightarrow> Meta" where
  "metaOf s = \<lparr>mtID = sID s, mtName = sName s,
     mtTitle = (if length (sMessages s) > 1 then take 80 (mContent (sMessages s ! 1)) else []),
     mtModel = sModel s, mtMessageCount = length (sMessages s), mtPromptTokens = sPromptTokens s, mtUpdatedAt = sUpdatedAt s,
     mtWorkspacePath = sWorkspacePath s, mtWorkspace = sWorkspace s,
     mtCompactions = length (finalizedStats s), mtTotalSaved = sum_list (map SavedTokens (finalizedStats s)),
     mtLastCompacted = fold (\<lambda>c l. if CompactedAt c > l then CompactedAt c else l) (finalizedStats s) 0,
     mtTurnStatus = TurnStatus s, mtPausedAt = PausedAt s, mtArchivedAt = sArchivedAt s\<rparr>"

definition reindexMetas :: "MemoryStore \<Rightarrow> MemoryStore" where
  "reindexMetas m = m\<lparr>stMetas := sort_key (\<lambda>x. - mtUpdatedAt x) (map (\<lambda>(k, s). metaOf s) (stSessions m))\<rparr>"

subsection \<open>Sessions\<close>

definition Save :: "Session \<Rightarrow> MemoryStore \<Rightarrow> store_error option \<times> MemoryStore" where
  "Save s m =
     (if stClosed m then (Some StoreClosed, m)
      else if sID s = [] then (Some NoSessionID, m)
      else
        (let sess = (case map_of (stSessions m) (sID s) of Some existing \<Rightarrow> s\<lparr>sArchivedAt := sArchivedAt existing\<rparr> | None \<Rightarrow> s)
         in (None, reindexMetas (m\<lparr>stSessions := AList.update (sID s) sess (stSessions m)\<rparr>))))"

definition Load :: "string \<Rightarrow> MemoryStore \<Rightarrow> store_error + Session" where
  "Load i m = (case map_of (stSessions m) i of None \<Rightarrow> Inl (SessionNotFound i) | Some s \<Rightarrow> Inr s)"

definition ListMetas :: "MemoryStore \<Rightarrow> Meta list" where
  "ListMetas m = stMetas m"

text \<open>The part that both deletions share.\<close>

definition dropSession :: "string \<Rightarrow> MemoryStore \<Rightarrow> MemoryStore" where
  "dropSession i m =
     reindexMetas (m\<lparr>stSessions := AList.delete i (stSessions m), stEvents := filter (\<lambda>e. evSessionID e \<noteq> i) (stEvents m),
       stTurnInputs := filter (\<lambda>(k, t). tiSessionID t \<noteq> i) (stTurnInputs m)\<rparr>)"

definition Delete :: "string \<Rightarrow> MemoryStore \<Rightarrow> MemoryStore" where
  "Delete i m = dropSession i m"

definition UpdateName :: "int \<Rightarrow> string \<Rightarrow> string \<Rightarrow> MemoryStore \<Rightarrow> store_error option \<times> MemoryStore" where
  "UpdateName now i name m =
     (case map_of (stSessions m) i of
        None \<Rightarrow> (Some (SessionNotFound i), m)
      | Some s \<Rightarrow> (None, reindexMetas (m\<lparr>stSessions := AList.update i (s\<lparr>sName := name, sUpdatedAt := now\<rparr>) (stSessions m)\<rparr>)))"

definition Archive :: "int \<Rightarrow> string \<Rightarrow> int \<Rightarrow> MemoryStore \<Rightarrow> (store_error + int) \<times> MemoryStore" where
  "Archive now i at m =
     (case map_of (stSessions m) i of
        None \<Rightarrow> (Inl (SessionNotFound i), m)
      | Some s \<Rightarrow>
          if sArchivedAt s \<noteq> 0 then (Inr (sArchivedAt s), m)
          else
            (let t = (if at = 0 then now else at)
             in (Inr t, reindexMetas (m\<lparr>stSessions := AList.update i (s\<lparr>sArchivedAt := t\<rparr>) (stSessions m)\<rparr>))))"

definition Restore :: "string \<Rightarrow> MemoryStore \<Rightarrow> store_error option \<times> MemoryStore" where
  "Restore i m =
     (case map_of (stSessions m) i of
        None \<Rightarrow> (Some (SessionNotFound i), m)
      | Some s \<Rightarrow> (None, reindexMetas (m\<lparr>stSessions := AList.update i (s\<lparr>sArchivedAt := 0\<rparr>) (stSessions m)\<rparr>)))"

definition Close :: "MemoryStore \<Rightarrow> MemoryStore" where
  "Close m = m\<lparr>stClosed := True, stSessions := [], stMetas := [], stEvents := [], stRequests := [], stWorktrees := [],
     stTurnInputs := [], stAssetReleases := []\<rparr>"

subsection \<open>Turn inputs\<close>

definition turnInputKey :: "string \<Rightarrow> string \<Rightarrow> string" where
  "turnInputKey sessionID requestID = sessionID @ [CHR 0x00] @ requestID"

definition ReserveTurnInput ::
  "int \<Rightarrow> TurnInput \<Rightarrow> EventRecord \<Rightarrow> MemoryStore \<Rightarrow> ((TurnInput \<times> bool \<times> int) \<times> MemoryStore) option" where
  "ReserveTurnInput clock input accepted m =
     (let key = turnInputKey (tiSessionID input) (tiRequestID input) in
      case map_of (stTurnInputs m) key of
        Some existing \<Rightarrow> Some ((existing, False, 0), m)
      | None \<Rightarrow>
          if stClosed m then None
          else
            (let now = (if tiCreatedAt input = 0 then clock else tiCreatedAt input);
                 sq = stEventSeq m + 1;
                 stored = input\<lparr>tiCreatedAt := now, tiUpdatedAt := now, tiState := TurnInputAccepted, tiAcceptedSeq := sq\<rparr>
             in Some ((stored, True, sq),
                  m\<lparr>stTurnInputs := AList.update key stored (stTurnInputs m), stEventSeq := sq,
                    stEvents := stEvents m @ [accepted\<lparr>evSeq := sq\<rparr>]\<rparr>)))"

definition StartTurnInput :: "int \<Rightarrow> TurnInput \<Rightarrow> Session \<Rightarrow> MemoryStore \<Rightarrow> store_error option \<times> MemoryStore" where
  "StartTurnInput now input sess m =
     (let key = turnInputKey (tiSessionID input) (tiRequestID input) in
      case map_of (stTurnInputs m) key of
        None \<Rightarrow> (Some (TurnInputNotFound (tiSessionID input) (tiRequestID input)), m)
      | Some stored \<Rightarrow>
          (None, reindexMetas (m\<lparr>stTurnInputs := AList.update key (stored\<lparr>tiState := TurnInputRunning, tiUpdatedAt := now\<rparr>) (stTurnInputs m),
             stSessions := AList.update (sID sess) sess (stSessions m)\<rparr>)))"

definition SetTurnInputState :: "int \<Rightarrow> string \<Rightarrow> string \<Rightarrow> TurnInputState \<Rightarrow> MemoryStore \<Rightarrow> store_error option \<times> MemoryStore" where
  "SetTurnInputState now sessionID requestID st m =
     (let key = turnInputKey sessionID requestID in
      case map_of (stTurnInputs m) key of
        None \<Rightarrow> (Some (TurnInputNotFound sessionID requestID), m)
      | Some input \<Rightarrow> (None, m\<lparr>stTurnInputs := AList.update key (input\<lparr>tiState := st, tiUpdatedAt := now\<rparr>) (stTurnInputs m)\<rparr>))"

definition TurnInputOf :: "string \<Rightarrow> string \<Rightarrow> MemoryStore \<Rightarrow> store_error + TurnInput" where
  "TurnInputOf sessionID requestID m =
     (case map_of (stTurnInputs m) (turnInputKey sessionID requestID) of
        None \<Rightarrow> Inl (TurnInputNotFound sessionID requestID)
      | Some input \<Rightarrow> Inr input)"

definition RecoverableTurnInputs :: "MemoryStore \<Rightarrow> TurnInput list" where
  "RecoverableTurnInputs m =
     sort_key tiCreatedAt
       (filter (\<lambda>t. tiState t \<in> {TurnInputAccepted, TurnInputQueued, TurnInputRunning}) (map snd (stTurnInputs m)))"

subsection \<open>Asset releases and worktrees\<close>

definition EnqueueAssetRefRelease :: "int \<Rightarrow> AssetRefRelease \<Rightarrow> MemoryStore \<Rightarrow> MemoryStore option" where
  "EnqueueAssetRefRelease clock r m =
     (case map_of (stAssetReleases m) (arSessionID r) of
        Some _ \<Rightarrow> Some m
      | None \<Rightarrow>
          if stClosed m then None
          else
            (let now = (if arCreatedAt r = 0 then clock else arCreatedAt r)
             in Some (m\<lparr>stAssetReleases := AList.update (arSessionID r)
                    (r\<lparr>arCreatedAt := now, arUpdatedAt := now, arNextAttemptAt := now\<rparr>) (stAssetReleases m)\<rparr>)))"

definition DeleteWithAssetRefRelease :: "int \<Rightarrow> string \<Rightarrow> AssetRefRelease \<Rightarrow> MemoryStore \<Rightarrow> MemoryStore option" where
  "DeleteWithAssetRefRelease clock sessionID r m =
     (let now = (if arCreatedAt r = 0 then clock else arCreatedAt r);
          r' = r\<lparr>arSessionID := sessionID, arCreatedAt := now, arUpdatedAt := now, arNextAttemptAt := now\<rparr>
      in case map_of (stAssetReleases m) sessionID of
           Some _ \<Rightarrow> Some (dropSession sessionID m)
         | None \<Rightarrow>
             if stClosed m then None
             else Some (dropSession sessionID (m\<lparr>stAssetReleases := AList.update sessionID r' (stAssetReleases m)\<rparr>)))"

definition PendingAssetRefReleases :: "string \<Rightarrow> int \<Rightarrow> MemoryStore \<Rightarrow> AssetRefRelease list" where
  "PendingAssetRefReleases scope now m =
     filter (\<lambda>r. arCredentialScope r = scope \<and> \<not> arNextAttemptAt r > now) (map snd (stAssetReleases m))"

definition RetryAssetRefRelease :: "int \<Rightarrow> string \<Rightarrow> int \<Rightarrow> int \<Rightarrow> MemoryStore \<Rightarrow> MemoryStore" where
  "RetryAssetRefRelease clock sessionID attempts nextAt m =
     (case map_of (stAssetReleases m) sessionID of
        None \<Rightarrow> m
      | Some r \<Rightarrow>
          m\<lparr>stAssetReleases := AList.update sessionID (r\<lparr>arAttempts := attempts, arNextAttemptAt := nextAt, arUpdatedAt := clock\<rparr>)
              (stAssetReleases m)\<rparr>)"

definition CompleteAssetRefRelease :: "string \<Rightarrow> MemoryStore \<Rightarrow> MemoryStore" where
  "CompleteAssetRefRelease sessionID m = m\<lparr>stAssetReleases := AList.delete sessionID (stAssetReleases m)\<rparr>"

definition ReserveWorktree :: "WorktreeRecord \<Rightarrow> MemoryStore \<Rightarrow> ((WorktreeRecord \<times> bool) \<times> MemoryStore) option" where
  "ReserveWorktree r m =
     (case map_of (stWorktrees m) (wtClientRequestID r) of
        Some existing \<Rightarrow> Some ((existing, False), m)
      | None \<Rightarrow>
          if stClosed m then None
          else Some ((r, True), m\<lparr>stWorktrees := AList.update (wtClientRequestID r) r (stWorktrees m)\<rparr>))"

definition WorktreeByClientRequestID :: "string \<Rightarrow> MemoryStore \<Rightarrow> store_error + WorktreeRecord" where
  "WorktreeByClientRequestID i m = (case map_of (stWorktrees m) i of Some r \<Rightarrow> Inr r | None \<Rightarrow> Inl WorktreeNotFound)"

definition WorktreeBySessionID :: "string \<Rightarrow> MemoryStore \<Rightarrow> store_error + WorktreeRecord" where
  "WorktreeBySessionID i m =
     (case find (\<lambda>r. wtSessionID r = i) (map snd (stWorktrees m)) of Some r \<Rightarrow> Inr r | None \<Rightarrow> Inl WorktreeNotFound)"

definition ListWorktrees :: "MemoryStore \<Rightarrow> WorktreeRecord list" where
  "ListWorktrees m = sort_key wtCreatedAt (map snd (stWorktrees m))"

definition UpdateWorktree :: "WorktreeRecord \<Rightarrow> MemoryStore \<Rightarrow> store_error option \<times> MemoryStore" where
  "UpdateWorktree r m =
     (case map_of (stWorktrees m) (wtClientRequestID r) of
        None \<Rightarrow> (Some WorktreeNotFound, m)
      | Some _ \<Rightarrow> (None, m\<lparr>stWorktrees := AList.update (wtClientRequestID r) r (stWorktrees m)\<rparr>))"

subsection \<open>Events\<close>

definition RecordEvent :: "EventRecord \<Rightarrow> MemoryStore \<Rightarrow> int \<times> MemoryStore" where
  "RecordEvent e m =
     (let sq = stEventSeq m + 1 in (sq, m\<lparr>stEventSeq := sq, stEvents := stEvents m @ [e\<lparr>evSeq := sq\<rparr>]\<rparr>))"

definition SessionEvents :: "string \<Rightarrow> MemoryStore \<Rightarrow> EventRecord list" where
  "SessionEvents i m = filter (\<lambda>e. evSessionID e = i) (stEvents m)"

definition SessionEventsSince :: "string \<Rightarrow> int \<Rightarrow> MemoryStore \<Rightarrow> EventRecord list" where
  "SessionEventsSince i since m = filter (\<lambda>e. evSessionID e = i \<and> evSeq e > since) (stEvents m)"

text \<open>The budget loop over the newest-first list.\<close>

fun budgetLoop :: "int \<Rightarrow> EventRecord list \<Rightarrow> int \<Rightarrow> EventRecord list \<Rightarrow> EventRecord list \<times> bool" where
  "budgetLoop maxBytes out spent [] = (out, False)"
| "budgetLoop maxBytes out spent (e # es) =
     (if out \<noteq> [] \<and> spent + int (length (evPayload e)) > maxBytes then (out, True)
      else budgetLoop maxBytes (out @ [e]) (spent + int (length (evPayload e))) es)"

definition SessionEventsSinceBudget :: "string \<Rightarrow> int \<Rightarrow> int \<Rightarrow> MemoryStore \<Rightarrow> EventRecord list \<times> bool" where
  "SessionEventsSinceBudget i since maxBytes m =
     (let (out, truncated) = budgetLoop maxBytes [] 0 (rev (SessionEventsSince i since m)) in (rev out, truncated))"

definition eventPageHardRows :: nat where "eventPageHardRows = 10000"

text \<open>\<open>BuildEventPage\<close> over the list the iterator yields, newest first.\<close>

fun pageLoop :: "int \<Rightarrow> int \<Rightarrow> EventRecord list \<Rightarrow> int \<Rightarrow> EventRecord list \<Rightarrow> EventRecord list \<times> bool" where
  "pageLoop maxRows maxBytes newest bytes [] = (newest, False)"
| "pageLoop maxRows maxBytes newest bytes (r # rs) =
     (if newest \<noteq> [] \<and> (length newest \<ge> eventPageHardRows \<or> bytes + int (length (evPayload r)) > maxBytes)
      then (newest, evKind (last newest) \<noteq> ''turn_started'')
      else if int (length (newest @ [r])) \<ge> maxRows \<and> evKind r = ''turn_started'' then (newest @ [r], False)
      else pageLoop maxRows maxBytes (newest @ [r]) (bytes + int (length (evPayload r))) rs)"

definition BuildEventPage :: "int \<Rightarrow> int \<Rightarrow> EventRecord list \<Rightarrow> EventRecord list \<times> bool" where
  "BuildEventPage maxRows maxBytes newestFirst =
     (let (newest, truncated) = pageLoop maxRows maxBytes [] 0 newestFirst in (rev newest, truncated))"

definition SessionEventPage :: "string \<Rightarrow> int \<Rightarrow> int \<Rightarrow> int \<Rightarrow> MemoryStore \<Rightarrow> EventRecord list \<times> bool \<times> bool" where
  "SessionEventPage i beforeSeq maxRows maxBytes m =
     (let (recs, truncated) = BuildEventPage maxRows maxBytes
            (rev (filter (\<lambda>e. evSessionID e = i \<and> (beforeSeq = 0 \<or> evSeq e < beforeSeq)) (stEvents m)))
      in if recs = [] then (recs, False, truncated)
         else (recs, list_ex (\<lambda>e. evSessionID e = i \<and> evSeq e < evSeq (hd recs)) (stEvents m), truncated))"

record EventSummary =
  esHasEvents :: bool
  esFirstAt :: int
  esLastAt :: int
  esTurnCount :: nat
  esMessageCount :: nat

definition summaryStep :: "EventRecord \<Rightarrow> EventSummary \<Rightarrow> EventSummary" where
  "summaryStep e s =
     (let s1 = (if esHasEvents s then s else s\<lparr>esHasEvents := True, esFirstAt := evAt e\<rparr>);
          s2 = s1\<lparr>esLastAt := evAt e\<rparr>
      in if evKind e = ''turn_started'' then s2\<lparr>esTurnCount := esTurnCount s2 + 1, esMessageCount := esMessageCount s2 + 1\<rparr>
         else if evKind e = ''turn_finished'' then s2\<lparr>esMessageCount := esMessageCount s2 + 1\<rparr>
         else s2)"

definition SessionEventSummary :: "string \<Rightarrow> MemoryStore \<Rightarrow> EventSummary" where
  "SessionEventSummary i m =
     fold summaryStep (SessionEvents i m)
       \<lparr>esHasEvents = False, esFirstAt = 0, esLastAt = 0, esTurnCount = 0, esMessageCount = 0\<rparr>"

definition SessionEventsByKind :: "string \<Rightarrow> string list \<Rightarrow> MemoryStore \<Rightarrow> EventRecord list" where
  "SessionEventsByKind i kinds m = filter (\<lambda>e. evSessionID e = i \<and> evKind e \<in> set kinds) (stEvents m)"

definition isTerminalEventKind :: "string \<Rightarrow> bool" where
  "isTerminalEventKind k = (k \<in> set [''turn_finished'', ''turn_failed'', ''turn_cancelled''])"

definition SessionEventsThroughTurn :: "string \<Rightarrow> string \<Rightarrow> MemoryStore \<Rightarrow> store_error + EventRecord list" where
  "SessionEventsThroughTurn i turnID m =
     (let boundary = fold (\<lambda>e b. if evSessionID e = i \<and> evTurnID e = turnID \<and> isTerminalEventKind (evKind e) \<and> evSeq e > b
                                then evSeq e else b) (stEvents m) (-1)
      in if boundary < 0 then Inl EventTurnNotFound
         else Inr (filter (\<lambda>e. evSessionID e = i \<and> evSeq e \<le> boundary) (stEvents m)))"

definition RecentEventsByKind :: "string \<Rightarrow> int \<Rightarrow> MemoryStore \<Rightarrow> EventRecord list" where
  "RecentEventsByKind kind limit m = take (nat limit) (filter (\<lambda>e. evKind e = kind) (rev (stEvents m)))"

record EventAttention =
  eaSessionID :: string
  eaLastSequence :: int
  eaLatestEvent :: "EventRecord option"
  eaLatestTerminal :: "EventRecord option"

definition attentionStep :: "EventRecord \<Rightarrow> EventAttention \<Rightarrow> EventAttention" where
  "attentionStep e h =
     (let h1 = (if evSeq e > eaLastSequence h then h\<lparr>eaLastSequence := evSeq e, eaLatestEvent := Some e\<rparr> else h)
      in if isTerminalEventKind (evKind e) \<and> (case eaLatestTerminal h1 of None \<Rightarrow> True | Some t \<Rightarrow> evSeq e > evSeq t)
         then h1\<lparr>eaLatestTerminal := Some e\<rparr> else h1)"

definition attentionOf :: "string \<Rightarrow> MemoryStore \<Rightarrow> EventAttention" where
  "attentionOf i m =
     fold attentionStep (SessionEvents i m) \<lparr>eaSessionID = i, eaLastSequence = 0, eaLatestEvent = None, eaLatestTerminal = None\<rparr>"

definition SessionEventAttention :: "int \<Rightarrow> MemoryStore \<Rightarrow> int \<times> EventAttention list" where
  "SessionEventAttention since m =
     (stEventSeq m,
      filter (\<lambda>h. eaLastSequence h > since) (map (\<lambda>i. attentionOf i m) (sort (remdups (map evSessionID (stEvents m))))))"

subsection \<open>Requests\<close>

definition RecordRequest :: "RequestRecord \<Rightarrow> MemoryStore \<Rightarrow> MemoryStore" where
  "RecordRequest r m = m\<lparr>stRequests := stRequests m @ [r]\<rparr>"

definition RecentRequests :: "int \<Rightarrow> MemoryStore \<Rightarrow> RequestRecord list" where
  "RecentRequests limit m =
     (let l = (if limit \<le> 0 then 20 else limit) in take (nat l) (rev (stRequests m)))"

record ModelUsage =
  muModel :: string
  muRequests :: nat
  muPromptTokens :: int
  muCachedPromptTokens :: int
  muCompletionTokens :: int

definition usageOf :: "RequestRecord list \<Rightarrow> string \<Rightarrow> ModelUsage" where
  "usageOf rs mdl =
     (let own = filter (\<lambda>r. rrModel r = mdl) rs
      in \<lparr>muModel = mdl, muRequests = length own, muPromptTokens = sum_list (map rrPromptTokens own),
          muCachedPromptTokens = sum_list (map rrCachedPromptTokens own), muCompletionTokens = sum_list (map rrCompletionTokens own)\<rparr>)"

definition firstOccurrences :: "string list \<Rightarrow> string list" where
  "firstOccurrences xs = fold (\<lambda>x acc. if x \<in> set acc then acc else acc @ [x]) xs []"

definition TokenUsageByModel :: "MemoryStore \<Rightarrow> ModelUsage list" where
  "TokenUsageByModel m =
     sort_key (\<lambda>u. - (muPromptTokens u + muCompletionTokens u))
       (map (usageOf (stRequests m)) (firstOccurrences (map rrModel (stRequests m))))"

subsection \<open>The methods as steps\<close>

text \<open>The methods that change the store, as labels of a step relation: the mutex lets one of them run at a time.\<close>

datatype store_call =
    CallSave Session
  | CallDelete string
  | CallUpdateName int string string
  | CallArchive int string int
  | CallRestore string
  | CallClose
  | CallReserveTurnInput int TurnInput EventRecord
  | CallStartTurnInput int TurnInput Session
  | CallSetTurnInputState int string string TurnInputState
  | CallEnqueueAssetRefRelease int AssetRefRelease
  | CallDeleteWithAssetRefRelease int string AssetRefRelease
  | CallRetryAssetRefRelease int string int int
  | CallCompleteAssetRefRelease string
  | CallReserveWorktree WorktreeRecord
  | CallUpdateWorktree WorktreeRecord
  | CallRecordEvent EventRecord
  | CallRecordRequest RequestRecord

fun callStore :: "store_call \<Rightarrow> MemoryStore \<Rightarrow> MemoryStore option" where
  "callStore (CallSave s) m = Some (snd (Save s m))"
| "callStore (CallDelete i) m = Some (Delete i m)"
| "callStore (CallUpdateName now i name) m = Some (snd (UpdateName now i name m))"
| "callStore (CallArchive now i at) m = Some (snd (Archive now i at m))"
| "callStore (CallRestore i) m = Some (snd (Restore i m))"
| "callStore CallClose m = Some (Close m)"
| "callStore (CallReserveTurnInput now t e) m = map_option snd (ReserveTurnInput now t e m)"
| "callStore (CallStartTurnInput now t s) m = Some (snd (StartTurnInput now t s m))"
| "callStore (CallSetTurnInputState now i r st) m = Some (snd (SetTurnInputState now i r st m))"
| "callStore (CallEnqueueAssetRefRelease now r) m = EnqueueAssetRefRelease now r m"
| "callStore (CallDeleteWithAssetRefRelease now i r) m = DeleteWithAssetRefRelease now i r m"
| "callStore (CallRetryAssetRefRelease now i n at) m = Some (RetryAssetRefRelease now i n at m)"
| "callStore (CallCompleteAssetRefRelease i) m = Some (CompleteAssetRefRelease i m)"
| "callStore (CallReserveWorktree r) m = map_option snd (ReserveWorktree r m)"
| "callStore (CallUpdateWorktree r) m = Some (snd (UpdateWorktree r m))"
| "callStore (CallRecordEvent e) m = Some (snd (RecordEvent e m))"
| "callStore (CallRecordRequest r) m = Some (RecordRequest r m)"

text \<open>\<open>callStores\<close>: a sequence of calls; None when one of them panics.\<close>

fun callStores :: "store_call list \<Rightarrow> MemoryStore \<Rightarrow> MemoryStore option" where
  "callStores [] m = Some m"
| "callStores (c # cs) m = (case callStore c m of None \<Rightarrow> None | Some m' \<Rightarrow> callStores cs m')"

text \<open>\<open>spares i c\<close>: the call neither deletes the conversation nor closes the store.\<close>

fun spares :: "string \<Rightarrow> store_call \<Rightarrow> bool" where
  "spares i (CallDelete j) = (i \<noteq> j)"
| "spares i (CallDeleteWithAssetRefRelease now j r) = (i \<noteq> j)"
| "spares i CallClose = False"
| "spares i _ = True"

subsection \<open>The invariant\<close>

definition eventsOrdered :: "MemoryStore \<Rightarrow> bool" where
  "eventsOrdered m =
     (sorted_wrt (\<lambda>a b. evSeq a < evSeq b) (stEvents m) \<and> 0 \<le> stEventSeq m \<and>
      list_all (\<lambda>e. 1 \<le> evSeq e \<and> evSeq e \<le> stEventSeq m) (stEvents m))"

definition keyedBy :: "('v \<Rightarrow> 'k) \<Rightarrow> ('k \<times> 'v) list \<Rightarrow> bool" where
  "keyedBy key kvs = (distinct (map fst kvs) \<and> list_all (\<lambda>(k, v). key v = k) kvs)"

definition inputKey :: "TurnInput \<Rightarrow> string" where
  "inputKey t = turnInputKey (tiSessionID t) (tiRequestID t)"

definition inputsNumbered :: "MemoryStore \<Rightarrow> bool" where
  "inputsNumbered m =
     (let ns = map (\<lambda>kt. tiAcceptedSeq (snd kt)) (stTurnInputs m)
      in distinct ns \<and> list_all (\<lambda>n. 1 \<le> n \<and> n \<le> stEventSeq m) ns)"

definition storeInv :: "MemoryStore \<Rightarrow> bool" where
  "storeInv m =
     (eventsOrdered m \<and> keyedBy sID (stSessions m) \<and> keyedBy inputKey (stTurnInputs m) \<and> inputsNumbered m \<and>
      keyedBy wtClientRequestID (stWorktrees m) \<and> keyedBy arSessionID (stAssetReleases m) \<and>
      stMetas m = stMetas (reindexMetas m))"

text \<open>\<open>sameInput\<close>: the same submission, whatever has become of it.  \<open>collectPages\<close>: a client that loads the whole
  history page by page, oldest page last.\<close>

definition sameInput :: "TurnInput \<Rightarrow> TurnInput \<Rightarrow> bool" where
  "sameInput t u = (t\<lparr>tiState := tiState u, tiUpdatedAt := tiUpdatedAt u\<rparr> = u)"

definition bytesOf :: "EventRecord list \<Rightarrow> int" where
  "bytesOf es = sum_list (map (\<lambda>e. int (length (evPayload e))) es)"

fun collectPages :: "nat \<Rightarrow> (int \<Rightarrow> EventRecord list \<times> bool \<times> bool) \<Rightarrow> int \<Rightarrow> EventRecord list" where
  "collectPages 0 page before = []"
| "collectPages (Suc n) page before =
     (case page before of (recs, hasMore, truncated) \<Rightarrow>
        if hasMore then collectPages n page (evSeq (hd recs)) @ recs else recs)"

definition isTerminalOf :: "string \<Rightarrow> EventRecord \<Rightarrow> bool" where
  "isTerminalOf turnID e = (evTurnID e = turnID \<and> isTerminalEventKind (evKind e))"

definition appends :: "string \<Rightarrow> MemoryStore \<Rightarrow> MemoryStore \<Rightarrow> bool" where
  "appends i m m' = (stEventSeq m \<le> stEventSeq m' \<and>
     (\<exists>es. SessionEvents i m' = SessionEvents i m @ es \<and> (\<forall>e\<in>set es. evSeq e > stEventSeq m)))"

definition headOf :: "string \<Rightarrow> EventRecord list \<Rightarrow> EventAttention" where
  "headOf i es =
     (let ts = filter (\<lambda>e. isTerminalEventKind (evKind e)) es
      in \<lparr>eaSessionID = i, eaLastSequence = (if es = [] then 0 else evSeq (last es)),
          eaLatestEvent = (if es = [] then None else Some (last es)),
          eaLatestTerminal = (if ts = [] then None else Some (last ts))\<rparr>)"

text \<open>A small history for the instances.\<close>

definition memEvent :: "string \<Rightarrow> EventRecord" where
  "memEvent kind = \<lparr>evSeq = 0, evSessionID = ''s'', evTurnID = ''t1'', evKind = kind, evAt = 7, evPayload = ''{}''\<rparr>"

definition memInput :: TurnInput where
  "memInput = \<lparr>tiSessionID = ''s'', tiRequestID = ''r'', tiTurnID = ''t1'', tiPayloadHash = ''h'', tiText = ''hi'', tiWireModel = [],
     tiResolvedModel = [], tiAssets = [], tiLocalAssets = [], tiProvenance = None, tiManagedTask = None, tiValidationContract = None,
     tiAcceptedSeq = 0, tiState = TurnInputQueued, tiCreatedAt = 0, tiUpdatedAt = 0\<rparr>"

definition memCalls :: "store_call list" where
  "memCalls = [CallSave demoSession, CallReserveTurnInput 5 memInput (memEvent ''turn_started''),
     CallRecordEvent (memEvent ''assistant''), CallRecordEvent (memEvent ''turn_finished'')]"

definition memStore :: MemoryStore where
  "memStore = the (callStores memCalls NewMemoryStore)"

definition memLog :: "EventRecord list" where
  "memLog = [(memEvent ''turn_started'')\<lparr>evSeq := 1\<rparr>, (memEvent ''assistant'')\<lparr>evSeq := 2\<rparr>, (memEvent ''turn_finished'')\<lparr>evSeq := 3\<rparr>]"

definition memReserved :: TurnInput where
  "memReserved = memInput\<lparr>tiCreatedAt := 5, tiUpdatedAt := 5, tiState := TurnInputAccepted, tiAcceptedSeq := 1\<rparr>"


subsection \<open>Association lists\<close>

lemma set_update_subset: "set (AList.update k v kvs) \<subseteq> insert (k, v) (set kvs)"
  by (induction kvs) auto

lemma set_delete_subset: "set (AList.delete k kvs) \<subseteq> set kvs"
  by (simp add: AList.delete_eq)

lemma update_new: "map_of kvs k = None \<Longrightarrow> AList.update k v kvs = kvs @ [(k, v)]"
  by (induction kvs) (auto split: if_splits)

lemma update_same_image:
  "map_of kvs k = Some u \<Longrightarrow> f v = f u \<Longrightarrow> map (\<lambda>kv. f (snd kv)) (AList.update k v kvs) = map (\<lambda>kv. f (snd kv)) kvs"
  by (induction kvs) (auto split: if_splits)

lemma keyedBy_Nil [simp]: "keyedBy key []"
  by (simp add: keyedBy_def)

lemma keyedBy_update [intro]: "keyedBy key kvs \<Longrightarrow> key v = k \<Longrightarrow> keyedBy key (AList.update k v kvs)"
  using set_update_subset [of k v kvs] by (auto simp: keyedBy_def list_all_iff distinct_update)

lemma keyedBy_delete [intro]: "keyedBy key kvs \<Longrightarrow> keyedBy key (AList.delete k kvs)"
  using set_delete_subset [of k kvs] by (auto simp: keyedBy_def list_all_iff distinct_delete)

lemma keyedBy_filter [intro]: "keyedBy key kvs \<Longrightarrow> keyedBy key (filter P kvs)"
  by (auto simp: keyedBy_def list_all_iff distinct_map intro: inj_on_subset)

lemma keyedBy_key: "keyedBy key kvs \<Longrightarrow> map_of kvs k = Some v \<Longrightarrow> key v = k"
  by (auto simp: keyedBy_def list_all_iff dest: map_of_SomeD)

lemma keyedBy_filter_lookup:
  assumes "keyedBy key kvs" "map_of kvs k = Some v" "P (k, v)"
  shows "map_of (filter P kvs) k = Some v"
proof -
  have "distinct (map fst (filter P kvs))" using keyedBy_filter [OF assms(1), of P] by (simp add: keyedBy_def)
  moreover have "(k, v) \<in> set (filter P kvs)" using assms(2,3) by (auto dest: map_of_SomeD)
  ultimately show ?thesis by simp
qed

subsection \<open>The invariant holds of every state\<close>

lemma stMetas_reindex: "stMetas (reindexMetas m) = sort_key (\<lambda>x. - mtUpdatedAt x) (map (\<lambda>(k, s). metaOf s) (stSessions m))"
  by (simp add: reindexMetas_def)

lemma reindex_fields [simp]:
  "stSessions (reindexMetas m) = stSessions m" "stEvents (reindexMetas m) = stEvents m"
  "stEventSeq (reindexMetas m) = stEventSeq m" "stTurnInputs (reindexMetas m) = stTurnInputs m"
  "stWorktrees (reindexMetas m) = stWorktrees m" "stAssetReleases (reindexMetas m) = stAssetReleases m"
  "stRequests (reindexMetas m) = stRequests m" "stClosed (reindexMetas m) = stClosed m"
  by (simp_all add: reindexMetas_def)

text \<open>The invariant of a store whose list of conversations has just been rebuilt is that of its other parts.\<close>

lemma storeInv_reindex:
  "storeInv (reindexMetas m) \<longleftrightarrow>
     eventsOrdered m \<and> keyedBy sID (stSessions m) \<and> keyedBy inputKey (stTurnInputs m) \<and> inputsNumbered m \<and>
     keyedBy wtClientRequestID (stWorktrees m) \<and> keyedBy arSessionID (stAssetReleases m)"
  by (simp add: storeInv_def eventsOrdered_def inputsNumbered_def stMetas_reindex)

lemma eventsOrdered_append:
  "eventsOrdered m \<Longrightarrow> eventsOrdered (m\<lparr>stTurnInputs := ts, stEventSeq := stEventSeq m + 1, stEvents := stEvents m @ [e\<lparr>evSeq := stEventSeq m + 1\<rparr>]\<rparr>)"
  by (auto simp: eventsOrdered_def sorted_wrt_append list_all_iff)

lemma eventsOrdered_filter: "eventsOrdered m \<Longrightarrow> eventsOrdered (m\<lparr>stEvents := filter P (stEvents m)\<rparr>)"
  by (auto simp: eventsOrdered_def list_all_iff intro: sorted_wrt_filter)

lemma inputsNumbered_filter: "inputsNumbered m \<Longrightarrow> inputsNumbered (m\<lparr>stTurnInputs := filter P (stTurnInputs m)\<rparr>)"
  by (auto simp: inputsNumbered_def Let_def list_all_iff distinct_map intro: inj_on_subset)

lemma inputsNumbered_update:
  assumes "inputsNumbered m" "map_of (stTurnInputs m) k = Some u" "tiAcceptedSeq t = tiAcceptedSeq u"
  shows "inputsNumbered (m\<lparr>stTurnInputs := AList.update k t (stTurnInputs m)\<rparr>)"
  using assms(1) update_same_image [OF assms(2), of tiAcceptedSeq t, OF assms(3)]
  by (simp add: inputsNumbered_def)

lemma inputsNumbered_new:
  assumes "inputsNumbered m" "map_of (stTurnInputs m) k = None" "0 \<le> stEventSeq m"
  shows "inputsNumbered (m\<lparr>stTurnInputs := AList.update k (t\<lparr>tiAcceptedSeq := stEventSeq m + 1\<rparr>) (stTurnInputs m), stEventSeq := stEventSeq m + 1, stEvents := es\<rparr>)"
  using assms by (auto simp: inputsNumbered_def Let_def list_all_iff update_new [OF assms(2)])

lemma inputsNumbered_cong:
  "stTurnInputs m = stTurnInputs m' \<Longrightarrow> stEventSeq m = stEventSeq m' \<Longrightarrow> inputsNumbered m = inputsNumbered m'"
  by (simp add: inputsNumbered_def)

lemma eventsOrdered_cong:
  "stEvents m = stEvents m' \<Longrightarrow> stEventSeq m = stEventSeq m' \<Longrightarrow> eventsOrdered m = eventsOrdered m'"
  by (simp add: eventsOrdered_def)

text \<open>Each method keeps the invariant.\<close>

lemma reindex_twice [simp]: "reindexMetas (reindexMetas m) = reindexMetas m"
  by (simp add: reindexMetas_def)

lemma storeInv_put:
  assumes "storeInv m" "sID s = i"
  shows "storeInv (reindexMetas (m\<lparr>stSessions := AList.update i s (stSessions m)\<rparr>))"
  using assms by (auto simp: storeInv_def storeInv_reindex cong: inputsNumbered_cong eventsOrdered_cong)

lemma storeInv_Save: "storeInv m \<Longrightarrow> storeInv (snd (Save s m))"
  by (simp add: Save_def Let_def storeInv_put split: option.split)

lemma stored_sID: "storeInv m \<Longrightarrow> map_of (stSessions m) i = Some s \<Longrightarrow> sID s = i"
  using keyedBy_key [of sID "stSessions m" i s] by (simp add: storeInv_def)

lemma storeInv_UpdateName: "storeInv m \<Longrightarrow> storeInv (snd (UpdateName now i name m))"
  by (simp add: UpdateName_def storeInv_put stored_sID split: option.split)

lemma storeInv_Archive: "storeInv m \<Longrightarrow> storeInv (snd (Archive now i at m))"
  by (simp add: Archive_def Let_def storeInv_put stored_sID split: option.split)

lemma storeInv_Restore: "storeInv m \<Longrightarrow> storeInv (snd (Restore i m))"
  by (simp add: Restore_def storeInv_put stored_sID split: option.split)

lemma storeInv_dropSession: "storeInv m \<Longrightarrow> storeInv (dropSession i m)"
  using eventsOrdered_filter [of m] inputsNumbered_filter [of m]
  by (auto simp: dropSession_def storeInv_def storeInv_reindex eventsOrdered_def inputsNumbered_def)

lemma storeInv_Close: "storeInv m \<Longrightarrow> storeInv (Close m)"
  by (simp add: storeInv_def Close_def eventsOrdered_def inputsNumbered_def reindexMetas_def)

lemma storeInv_inputs:
  assumes "storeInv m" "map_of (stTurnInputs m) k = Some u" "inputKey t = k" "tiAcceptedSeq t = tiAcceptedSeq u"
  shows "storeInv (m\<lparr>stTurnInputs := AList.update k t (stTurnInputs m)\<rparr>)"
  using assms inputsNumbered_update [OF _ assms(2,4)]
  by (auto simp: storeInv_def eventsOrdered_def stMetas_reindex)

lemma stored_inputKey: "storeInv m \<Longrightarrow> map_of (stTurnInputs m) k = Some t \<Longrightarrow> inputKey t = k"
  using keyedBy_key [of inputKey "stTurnInputs m" k t] by (simp add: storeInv_def)

lemma inputKey_upd [simp]: "inputKey (t\<lparr>tiState := st, tiUpdatedAt := u\<rparr>) = inputKey t"
  by (simp add: inputKey_def)

lemma storeInv_SetTurnInputState: "storeInv m \<Longrightarrow> storeInv (snd (SetTurnInputState now i r st m))"
  by (auto simp: SetTurnInputState_def Let_def stored_inputKey intro: storeInv_inputs split: option.split)

lemma storeInv_StartTurnInput:
  assumes "storeInv m"
  shows "storeInv (snd (StartTurnInput now t s m))"
proof (cases "map_of (stTurnInputs m) (turnInputKey (tiSessionID t) (tiRequestID t))")
  case None
  then show ?thesis using assms by (simp add: StartTurnInput_def)
next
  case (Some u)
  have "storeInv (m\<lparr>stTurnInputs := AList.update (turnInputKey (tiSessionID t) (tiRequestID t))
      (u\<lparr>tiState := TurnInputRunning, tiUpdatedAt := now\<rparr>) (stTurnInputs m)\<rparr>)"
    using stored_inputKey [OF assms Some] by (intro storeInv_inputs [OF assms Some]) simp_all
  from storeInv_put [OF this refl, of s] show ?thesis using Some by (simp add: StartTurnInput_def Let_def)
qed

lemma storeInv_ReserveTurnInput:
  assumes inv: "storeInv m" and res: "ReserveTurnInput now t e m = Some (r, m')"
  shows "storeInv m'"
proof (cases "map_of (stTurnInputs m) (turnInputKey (tiSessionID t) (tiRequestID t))")
  case None
  define u where "u = t\<lparr>tiCreatedAt := (if tiCreatedAt t = 0 then now else tiCreatedAt t),
    tiUpdatedAt := (if tiCreatedAt t = 0 then now else tiCreatedAt t), tiState := TurnInputAccepted\<rparr>"
  let ?k = "turnInputKey (tiSessionID t) (tiRequestID t)"
  let ?ts = "AList.update ?k (u\<lparr>tiAcceptedSeq := stEventSeq m + 1\<rparr>) (stTurnInputs m)"
  have m': "m' = m\<lparr>stTurnInputs := ?ts, stEventSeq := stEventSeq m + 1, stEvents := stEvents m @ [e\<lparr>evSeq := stEventSeq m + 1\<rparr>]\<rparr>"
    using None res by (auto simp: ReserveTurnInput_def Let_def u_def split: if_splits)
  have "keyedBy inputKey ?ts" using inv by (auto simp: storeInv_def inputKey_def u_def)
  moreover have "eventsOrdered m'" unfolding m' using inv by (intro eventsOrdered_append) (simp add: storeInv_def)
  moreover have "inputsNumbered m'" unfolding m' using inv
    by (intro inputsNumbered_new) (simp_all add: storeInv_def eventsOrdered_def None)
  ultimately show ?thesis using inv by (simp add: storeInv_def m' stMetas_reindex)
next
  case (Some u)
  then show ?thesis using inv res by (simp add: ReserveTurnInput_def)
qed

lemma storeInv_releases:
  "storeInv m \<Longrightarrow> keyedBy arSessionID rs \<Longrightarrow> storeInv (m\<lparr>stAssetReleases := rs\<rparr>)"
  by (simp add: storeInv_def eventsOrdered_def inputsNumbered_def stMetas_reindex)

lemma releases_keyed: "storeInv m \<Longrightarrow> keyedBy arSessionID (stAssetReleases m)"
  by (simp add: storeInv_def)

lemma storeInv_worktrees:
  "storeInv m \<Longrightarrow> storeInv (m\<lparr>stWorktrees := AList.update (wtClientRequestID r) r (stWorktrees m)\<rparr>)"
  by (auto simp: storeInv_def eventsOrdered_def inputsNumbered_def stMetas_reindex)

lemma storeInv_RecordEvent: "storeInv m \<Longrightarrow> storeInv (snd (RecordEvent e m))"
  using eventsOrdered_append [of m e "stTurnInputs m"]
  by (auto simp: storeInv_def RecordEvent_def Let_def inputsNumbered_def eventsOrdered_def list_all_iff stMetas_reindex)

lemma storeInv_RecordRequest: "storeInv m \<Longrightarrow> storeInv (RecordRequest r m)"
  by (simp add: storeInv_def RecordRequest_def inputsNumbered_def eventsOrdered_def stMetas_reindex)

lemmas storeInv_intros = storeInv_Save storeInv_UpdateName storeInv_Archive storeInv_Restore storeInv_dropSession storeInv_Close
  storeInv_SetTurnInputState storeInv_StartTurnInput storeInv_releases storeInv_worktrees storeInv_RecordEvent storeInv_RecordRequest

lemma storeInv_Retry: "storeInv m \<Longrightarrow> storeInv (RetryAssetRefRelease now i n at m)"
  using keyedBy_key [OF releases_keyed, of m i]
  by (auto simp: RetryAssetRefRelease_def releases_keyed intro!: storeInv_releases split: option.split)

lemma storeInv_call: "storeInv m \<Longrightarrow> callStore c m = Some m' \<Longrightarrow> storeInv m'"
  by (cases c)
    (auto simp: Delete_def CompleteAssetRefRelease_def releases_keyed ReserveWorktree_def UpdateWorktree_def
       EnqueueAssetRefRelease_def DeleteWithAssetRefRelease_def Let_def
       intro!: storeInv_intros storeInv_Retry keyedBy_update keyedBy_delete dest: storeInv_ReserveTurnInput
       split: option.splits if_splits)

lemma storeInv_New: "storeInv NewMemoryStore"
  by (simp add: storeInv_def NewMemoryStore_def eventsOrdered_def inputsNumbered_def stMetas_reindex)

lemma storeInv_calls: "callStores cs m = Some m' \<Longrightarrow> storeInv m \<Longrightarrow> storeInv m'"
  by (induction cs arbitrary: m) (auto split: option.splits dest: storeInv_call)

subsection \<open>Pages and budgets\<close>

lemma bytesOf_simps [simp]:
  "bytesOf [] = 0" "bytesOf (e # es) = int (length (evPayload e)) + bytesOf es" "bytesOf (xs @ ys) = bytesOf xs + bytesOf ys"
  "bytesOf (rev xs) = bytesOf xs"
  by (simp_all add: bytesOf_def rev_map [symmetric])

lemma budgetLoop_spec:
  assumes "budgetLoop B out (bytesOf out) es = (r, t)" "length out \<le> 1 \<or> bytesOf out \<le> B"
  shows "\<exists>taken rest. es = taken @ rest \<and> r = out @ taken \<and> t = (rest \<noteq> []) \<and> (length r \<le> 1 \<or> bytesOf r \<le> B) \<and>
           (out = [] \<and> es \<noteq> [] \<longrightarrow> taken \<noteq> []) \<and> (\<forall>e rs. rest = e # rs \<longrightarrow> bytesOf (r @ [e]) > B)"
  using assms
proof (induction es arbitrary: out)
  case Nil
  then show ?case by simp
next
  case (Cons e es)
  show ?case
  proof (cases "out \<noteq> [] \<and> bytesOf out + int (length (evPayload e)) > B")
    case True
    then show ?thesis using Cons.prems by (intro exI [of _ "[]"] exI [of _ "e # es"]) auto
  next
    case False
    have "budgetLoop B (out @ [e]) (bytesOf (out @ [e])) es = (r, t)" using False Cons.prems(1) by auto
    from Cons.IH [OF this] False obtain taken rest where "es = taken @ rest" "r = out @ e # taken" "t = (rest \<noteq> [])"
      "length r \<le> 1 \<or> bytesOf r \<le> B" "\<forall>e rs. rest = e # rs \<longrightarrow> bytesOf (r @ [e]) > B" by fastforce
    then show ?thesis by (intro exI [of _ "e # taken"] exI [of _ rest]) simp
  qed
qed

lemma pageLoop_spec:
  assumes "pageLoop R B newest (bytesOf newest) rs = (r, t)" "length newest \<le> 1 \<or> bytesOf newest \<le> B"
    "length newest \<le> eventPageHardRows"
  shows "\<exists>taken rest. rs = taken @ rest \<and> r = newest @ taken \<and> (newest = [] \<and> rs \<noteq> [] \<longrightarrow> taken \<noteq> []) \<and>
           (length r \<le> 1 \<or> bytesOf r \<le> B) \<and> length r \<le> eventPageHardRows \<and>
           (t \<longrightarrow> rest \<noteq> [] \<and> evKind (last r) \<noteq> ''turn_started'') \<and>
           (\<not> t \<longrightarrow> rest = [] \<or> evKind (last r) = ''turn_started'')"
  using assms
proof (induction rs arbitrary: newest)
  case Nil
  then show ?case by simp
next
  case (Cons e es)
  show ?case
  proof (cases "newest \<noteq> [] \<and> (length newest \<ge> eventPageHardRows \<or> bytesOf newest + int (length (evPayload e)) > B)")
    case True
    then show ?thesis using Cons.prems by (intro exI [of _ "[]"] exI [of _ "e # es"]) auto
  next
    case grow: False
    have small: "length (newest @ [e]) \<le> 1 \<or> bytesOf (newest @ [e]) \<le> B" "length (newest @ [e]) \<le> eventPageHardRows"
      using grow Cons.prems(3) by (auto simp: eventPageHardRows_def)
    show ?thesis
    proof (cases "int (length (newest @ [e])) \<ge> R \<and> evKind e = ''turn_started''")
      case True
      then show ?thesis using grow Cons.prems(1) small by (intro exI [of _ "[e]"] exI [of _ es]) auto
    next
      case False
      have "pageLoop R B (newest @ [e]) (bytesOf (newest @ [e])) es = (r, t)" using grow False Cons.prems(1) by auto
      from Cons.IH [OF this small] obtain taken rest where "es = taken @ rest" "r = newest @ e # taken"
        "length r \<le> 1 \<or> bytesOf r \<le> B" "length r \<le> eventPageHardRows"
        "t \<longrightarrow> rest \<noteq> [] \<and> evKind (last r) \<noteq> ''turn_started''" "\<not> t \<longrightarrow> rest = [] \<or> evKind (last r) = ''turn_started''"
        by fastforce
      then show ?thesis by (intro exI [of _ "e # taken"] exI [of _ rest]) simp
    qed
  qed
qed

lemma BuildEventPage_spec:
  assumes "BuildEventPage R B (rev es) = (recs, t)"
  shows "\<exists>older. es = older @ recs \<and> (es \<noteq> [] \<longrightarrow> recs \<noteq> []) \<and>
           (length recs \<le> 1 \<or> bytesOf recs \<le> B) \<and> length recs \<le> eventPageHardRows \<and>
           (t \<longrightarrow> older \<noteq> [] \<and> evKind (hd recs) \<noteq> ''turn_started'') \<and>
           (\<not> t \<longrightarrow> older = [] \<or> evKind (hd recs) = ''turn_started'')"
proof -
  obtain r where r: "pageLoop R B [] (bytesOf []) (rev es) = (r, t)" "recs = rev r"
    using assms by (auto simp: BuildEventPage_def split: prod.splits)
  from pageLoop_spec [OF r(1)] obtain taken rest where "rev es = taken @ rest" "r = taken" "es \<noteq> [] \<longrightarrow> taken \<noteq> []"
    "length r \<le> 1 \<or> bytesOf r \<le> B" "length r \<le> eventPageHardRows"
    "t \<longrightarrow> rest \<noteq> [] \<and> evKind (last r) \<noteq> ''turn_started''" "\<not> t \<longrightarrow> rest = [] \<or> evKind (last r) = ''turn_started''"
    by auto
  then show ?thesis using r(2) by (intro exI [of _ "rev rest"]) (auto simp: rev_swap hd_rev)
qed

subsection \<open>The event log as an interface\<close>

text \<open>
  What a client of the event log relies on (\<open>EventStore\<close>, \<open>EventPageStore\<close>): a conversation's events in strictly
  increasing sequence, numbered from one, and pages that are the newest part of what precedes the cursor.
  Loading page by page then returns the whole log.
\<close>

locale event_log =
  fixes inv :: "'m \<Rightarrow> bool" and events :: "string \<Rightarrow> 'm \<Rightarrow> EventRecord list"
    and page :: "string \<Rightarrow> int \<Rightarrow> 'm \<Rightarrow> EventRecord list \<times> bool \<times> bool"
  assumes ordered: "inv m \<Longrightarrow> sorted_wrt (\<lambda>a b. evSeq a < evSeq b) (events i m)"
    and numbered: "inv m \<Longrightarrow> e \<in> set (events i m) \<Longrightarrow> 1 \<le> evSeq e"
    and page_newest: "inv m \<Longrightarrow> \<exists>older recs t. page i before m = (recs, older \<noteq> [], t) \<and>
      filter (\<lambda>e. before = 0 \<or> evSeq e < before) (events i m) = older @ recs \<and> (recs = [] \<longrightarrow> older = [])"
begin

lemma before_page:
  assumes "inv m" "filter (\<lambda>e. before = 0 \<or> evSeq e < before) (events i m) = older @ recs" "recs \<noteq> []"
  shows "filter (\<lambda>e. evSeq (hd recs) = 0 \<or> evSeq e < evSeq (hd recs)) (events i m) = older"
proof -
  let ?b = "evSeq (hd recs)" and ?P = "\<lambda>e. before = 0 \<or> evSeq e < before"
  have hd: "hd recs \<in> set (filter ?P (events i m))" using assms(2,3) by simp
  have pos: "?b \<noteq> 0" using numbered [OF assms(1), of "hd recs" i] hd by auto
  have "filter (\<lambda>e. evSeq e < ?b) (events i m) = filter (\<lambda>e. evSeq e < ?b) (filter ?P (events i m))"
    using hd by (auto intro!: filter_cong)
  also have "\<dots> = filter (\<lambda>e. evSeq e < ?b) (older @ recs)" using assms(2) by simp
  also have "\<dots> = older"
  proof -
    have sorted: "sorted_wrt (\<lambda>a b. evSeq a < evSeq b) (older @ recs)"
      using sorted_wrt_filter [OF ordered [OF assms(1), of i], of ?P] assms(2) by simp
    have "\<forall>e\<in>set older. evSeq e < ?b" using sorted assms(3) by (simp add: sorted_wrt_append)
    moreover have "\<forall>e\<in>set recs. \<not> evSeq e < ?b" using sorted assms(3) by (cases recs) (auto simp: sorted_wrt_append)
    ultimately show ?thesis by simp
  qed
  finally show ?thesis using pos by simp
qed

lemma collect_all:
  assumes "inv m" "length (filter (\<lambda>e. before = 0 \<or> evSeq e < before) (events i m)) \<le> n"
  shows "collectPages n (\<lambda>b. page i b m) before = filter (\<lambda>e. before = 0 \<or> evSeq e < before) (events i m)"
  using assms(2)
proof (induction n arbitrary: before)
  case 0
  then show ?case by simp
next
  case (Suc n)
  obtain older recs t where p: "page i before m = (recs, older \<noteq> [], t)"
    "filter (\<lambda>e. before = 0 \<or> evSeq e < before) (events i m) = older @ recs" "recs = [] \<longrightarrow> older = []"
    using page_newest [OF assms(1), of i before] by blast
  show ?case
  proof (cases "older = []")
    case True
    then show ?thesis using p by simp
  next
    case False
    have recs: "recs \<noteq> []" using False p(3) by auto
    have "length older \<le> n" using Suc.prems p(2) recs by (cases recs) auto
    then have "collectPages n (\<lambda>b. page i b m) (evSeq (hd recs)) = older"
      using Suc.IH [of "evSeq (hd recs)"] before_page [OF assms(1) p(2) recs] by simp
    then show ?thesis using False p by simp
  qed
qed

end

lemma SessionEvents_ordered: "storeInv m \<Longrightarrow> sorted_wrt (\<lambda>a b. evSeq a < evSeq b) (SessionEvents i m)"
  by (simp add: storeInv_def eventsOrdered_def SessionEvents_def sorted_wrt_filter)

lemma SessionEvents_numbered: "storeInv m \<Longrightarrow> e \<in> set (SessionEvents i m) \<Longrightarrow> 1 \<le> evSeq e \<and> evSeq e \<le> stEventSeq m"
  by (auto simp: storeInv_def eventsOrdered_def SessionEvents_def list_all_iff)

lemma page_events:
  "filter (\<lambda>e. evSessionID e = i \<and> P e) (stEvents m) = filter P (SessionEvents i m)"
  by (simp add: SessionEvents_def conj_commute)

lemma SessionEventPage_newest:
  assumes "storeInv m"
  shows "\<exists>older recs t. SessionEventPage i before R B m = (recs, older \<noteq> [], t) \<and>
      filter (\<lambda>e. before = 0 \<or> evSeq e < before) (SessionEvents i m) = older @ recs \<and> (recs = [] \<longrightarrow> older = []) \<and>
      (length recs \<le> 1 \<or> bytesOf recs \<le> B) \<and> length recs \<le> eventPageHardRows \<and>
      t = (older \<noteq> [] \<and> evKind (hd recs) \<noteq> ''turn_started'')"
proof -
  let ?P = "\<lambda>e. before = 0 \<or> evSeq e < before"
  obtain recs t where b: "BuildEventPage R B (rev (filter ?P (SessionEvents i m))) = (recs, t)" by fastforce
  from BuildEventPage_spec [OF b] obtain older where o: "filter ?P (SessionEvents i m) = older @ recs"
    "filter ?P (SessionEvents i m) \<noteq> [] \<longrightarrow> recs \<noteq> []" "length recs \<le> 1 \<or> bytesOf recs \<le> B" "length recs \<le> eventPageHardRows"
    "t \<longrightarrow> older \<noteq> [] \<and> evKind (hd recs) \<noteq> ''turn_started''" "\<not> t \<longrightarrow> older = [] \<or> evKind (hd recs) = ''turn_started''" by blast
  have more: "list_ex (\<lambda>e. evSessionID e = i \<and> evSeq e < evSeq (hd recs)) (stEvents m) = (older \<noteq> [])" if ne: "recs \<noteq> []"
  proof -
    have hd: "hd recs \<in> set (filter ?P (SessionEvents i m))" using o(1) ne by simp
    have sorted: "sorted_wrt (\<lambda>a b. evSeq a < evSeq b) (older @ recs)"
      using sorted_wrt_filter [OF SessionEvents_ordered [OF assms, of i], of ?P] o(1) by simp
    have "list_ex (\<lambda>e. evSessionID e = i \<and> evSeq e < evSeq (hd recs)) (stEvents m) =
        (\<exists>e\<in>set (filter ?P (SessionEvents i m)). evSeq e < evSeq (hd recs))"
      using hd by (auto simp: list_ex_iff SessionEvents_def)
    also have "\<dots> = (\<exists>e\<in>set (older @ recs). evSeq e < evSeq (hd recs))" using o(1) by simp
    also have "\<dots> = (older \<noteq> [])"
      using sorted ne by (cases recs; cases older) (auto simp: sorted_wrt_append)
    finally show ?thesis .
  qed
  have "SessionEventPage i before R B m = (recs, older \<noteq> [], t)"
    using b more o(1,2) by (auto simp: SessionEventPage_def page_events Let_def)
  then show ?thesis using o by (intro exI [of _ older] exI [of _ recs] exI [of _ t]) auto
qed

interpretation memory_log: event_log storeInv SessionEvents "\<lambda>i b m. SessionEventPage i b R B m" for R B
proof
  show "\<exists>older recs t. SessionEventPage i before R B m = (recs, older \<noteq> [], t) \<and>
      filter (\<lambda>e. before = 0 \<or> evSeq e < before) (SessionEvents i m) = older @ recs \<and> (recs = [] \<longrightarrow> older = [])"
    if "storeInv m" for m i before
    using SessionEventPage_newest [OF that, of i before R B] by blast
qed (auto simp: SessionEvents_ordered SessionEvents_numbered)

subsection \<open>What later calls keep\<close>

lemma sameInput_refl [simp]: "sameInput t t"
  by (simp add: sameInput_def)

lemma sameInput_upd [simp]: "sameInput t (t\<lparr>tiState := st, tiUpdatedAt := u\<rparr>)"
  by (simp add: sameInput_def)

lemma sameInput_trans: "sameInput t u \<Longrightarrow> sameInput u v \<Longrightarrow> sameInput t v"
  by (cases t; cases u; cases v) (simp add: sameInput_def)

lemma sameInput_fields: "sameInput t u \<Longrightarrow> tiSessionID t = tiSessionID u \<and> tiRequestID t = tiRequestID u \<and> tiAcceptedSeq t = tiAcceptedSeq u"
  by (cases t; cases u) (simp add: sameInput_def)

lemma dropSession_input:
  assumes "storeInv m" "map_of (stTurnInputs m) k = Some u" "tiSessionID u \<noteq> i"
  shows "map_of (stTurnInputs (dropSession i m)) k = Some u"
  using assms keyedBy_filter_lookup [of inputKey "stTurnInputs m" k u] by (simp add: dropSession_def storeInv_def)

lemma input_kept_call:
  assumes "storeInv m" "map_of (stTurnInputs m) k = Some u" "callStore c m = Some m'" "spares (tiSessionID u) c"
  shows "\<exists>v. map_of (stTurnInputs m') k = Some v \<and> sameInput u v"
  using assms dropSession_input [OF assms(1,2)]
proof (cases c)
  case (CallDeleteWithAssetRefRelease now i r)
  have "map_of (stTurnInputs (dropSession i (m\<lparr>stAssetReleases := rs\<rparr>))) k = Some u" for rs
    using dropSession_input [OF assms(1,2), of i] assms(4) CallDeleteWithAssetRefRelease by (simp add: dropSession_def)
  then show ?thesis using CallDeleteWithAssetRefRelease assms dropSession_input [OF assms(1,2), of i]
    by (auto simp: DeleteWithAssetRefRelease_def Let_def split: option.splits if_splits)
qed (auto simp: Save_def Delete_def UpdateName_def Archive_def Restore_def Let_def update_conv' StartTurnInput_def
    SetTurnInputState_def ReserveTurnInput_def EnqueueAssetRefRelease_def RetryAssetRefRelease_def CompleteAssetRefRelease_def
    ReserveWorktree_def UpdateWorktree_def RecordEvent_def RecordRequest_def split: option.splits if_splits)

lemma input_kept:
  "callStores cs m = Some m' \<Longrightarrow> storeInv m \<Longrightarrow> map_of (stTurnInputs m) k = Some u \<Longrightarrow> list_all (spares (tiSessionID u)) cs \<Longrightarrow>
   \<exists>v. map_of (stTurnInputs m') k = Some v \<and> sameInput u v"
proof (induction cs arbitrary: m u)
  case (Cons c cs)
  obtain m1 where m1: "callStore c m = Some m1" "callStores cs m1 = Some m'" using Cons.prems(1) by (auto split: option.splits)
  obtain w where w: "map_of (stTurnInputs m1) k = Some w" "sameInput u w"
    using input_kept_call [OF Cons.prems(2,3) m1(1)] Cons.prems(4) by auto
  obtain v where "map_of (stTurnInputs m') k = Some v" "sameInput w v"
    using Cons.IH [OF m1(2) storeInv_call [OF Cons.prems(2) m1(1)] w(1)] Cons.prems(4) sameInput_fields [OF w(2)] by auto
  then show ?case using sameInput_trans [OF w(2)] by blast
qed simp

lemma appends_refl: "SessionEvents i m' = SessionEvents i m \<Longrightarrow> stEventSeq m' = stEventSeq m \<Longrightarrow> appends i m m'"
  by (simp add: appends_def)

lemma appends_trans: "appends i m m1 \<Longrightarrow> appends i m1 m2 \<Longrightarrow> appends i m m2"
  unfolding appends_def by force

lemma appends_event:
  "stEvents m' = stEvents m @ [e\<lparr>evSeq := stEventSeq m + 1\<rparr>] \<Longrightarrow> stEventSeq m' = stEventSeq m + 1 \<Longrightarrow> appends i m m'"
  by (simp add: appends_def SessionEvents_def)

lemma dropSession_events: "i \<noteq> j \<Longrightarrow> SessionEvents i (dropSession j m) = SessionEvents i m"
  by (auto simp: SessionEvents_def dropSession_def intro!: filter_cong)

lemma dropSession_seq [simp]: "stEventSeq (dropSession j m) = stEventSeq m"
  by (simp add: dropSession_def)

lemma SessionEvents_cong: "stEvents m' = stEvents m \<Longrightarrow> SessionEvents i m' = SessionEvents i m"
  by (simp add: SessionEvents_def)

lemma SessionEvents_releases [simp]: "SessionEvents i (m\<lparr>stAssetReleases := rs\<rparr>) = SessionEvents i m"
  by (simp add: SessionEvents_def)

lemma appends_call:
  assumes "callStore c m = Some m'" "spares i c"
  shows "appends i m m'"
proof (cases c)
  case (CallRecordEvent e)
  then show ?thesis using assms by (auto simp: RecordEvent_def Let_def intro!: appends_event)
next
  case (CallReserveTurnInput now t e)
  then show ?thesis using assms
    by (auto simp: ReserveTurnInput_def Let_def split: option.splits if_splits intro: appends_refl appends_event [of _ _ e])
next
  case (CallDelete j)
  then show ?thesis using assms by (auto simp: Delete_def dropSession_events intro!: appends_refl)
next
  case (CallDeleteWithAssetRefRelease now j r)
  then have "SessionEvents i m' = SessionEvents i m \<and> stEventSeq m' = stEventSeq m" using assms
    by (auto simp: DeleteWithAssetRefRelease_def Let_def dropSession_events split: option.splits if_splits)
  then show ?thesis by (simp add: appends_refl)
qed (use assms in \<open>auto simp: Save_def UpdateName_def Archive_def Restore_def Let_def StartTurnInput_def
    SetTurnInputState_def EnqueueAssetRefRelease_def RetryAssetRefRelease_def CompleteAssetRefRelease_def
    ReserveWorktree_def UpdateWorktree_def RecordRequest_def
    intro!: appends_refl SessionEvents_cong split: option.splits if_splits\<close>)

lemma appends_calls: "callStores cs m = Some m' \<Longrightarrow> list_all (spares i) cs \<Longrightarrow> appends i m m'"
  by (induction cs arbitrary: m) (auto simp: appends_refl split: option.splits intro: appends_trans [OF appends_call])

subsection \<open>Event heads and prefixes\<close>

lemma strictly_last: "sorted_wrt (\<lambda>a b. evSeq a < evSeq b) es \<Longrightarrow> e \<in> set es \<Longrightarrow> evSeq e \<le> evSeq (last es)"
  by (induction es) (auto simp: less_imp_le)

lemma strictly_last_of:
  assumes "sorted_wrt (\<lambda>a b. evSeq a < evSeq b) es" "e \<in> set (filter P es)"
  shows "evSeq e \<le> evSeq (last (filter P es))"
  using strictly_last [OF sorted_wrt_filter [OF assms(1)] assms(2)] .

lemma headOf_fields [simp]:
  "eaSessionID (headOf i es) = i" "eaLastSequence (headOf i es) = (if es = [] then 0 else evSeq (last es))"
  by (simp_all add: headOf_def Let_def)

lemma attention_fold:
  assumes "sorted_wrt (\<lambda>a b. evSeq a < evSeq b) es" "\<forall>e\<in>set es. 1 \<le> evSeq e"
  shows "fold attentionStep es \<lparr>eaSessionID = i, eaLastSequence = 0, eaLatestEvent = None, eaLatestTerminal = None\<rparr> =
    headOf i es"
  using assms
proof (induction es rule: rev_induct)
  case (snoc e es)
  have sorted: "sorted_wrt (\<lambda>a b. evSeq a < evSeq b) es" and new: "\<forall>x\<in>set es. evSeq x < evSeq e"
    using snoc.prems(1) by (auto simp: sorted_wrt_append)
  have lt: "es \<noteq> [] \<Longrightarrow> evSeq (last es) < evSeq e" using new by simp
  have lt2: "evSeq (last (filter (\<lambda>e. isTerminalEventKind (evKind e)) es)) < evSeq e" if "filter (\<lambda>e. isTerminalEventKind (evKind e)) es \<noteq> []"
    using last_in_set [OF that] new by auto
  show ?case using snoc.IH [OF sorted] snoc.prems(2) lt lt2 by (simp add: attentionStep_def headOf_def Let_def)
qed (simp add: headOf_def)

lemma boundary_fold:
  "fold (\<lambda>e b. if P e \<and> evSeq e > b then evSeq e else b) es (b0::int) = fold max (map evSeq (filter P es)) b0"
  by (induction es arbitrary: b0) (auto simp: max_def)

lemma fold_max_last:
  "sorted_wrt (\<lambda>a b. evSeq a < evSeq b) es \<Longrightarrow> \<forall>e\<in>set es. b0 \<le> evSeq e \<Longrightarrow>
   fold max (map evSeq es) (b0::int) = (if es = [] then b0 else evSeq (last es))"
proof (induction es rule: rev_induct)
  case (snoc e es)
  have "es \<noteq> [] \<Longrightarrow> max (evSeq e) (evSeq (last es)) = evSeq e" using snoc.prems(1) last_in_set [of es]
    by (fastforce simp: sorted_wrt_append)
  then show ?case using snoc by (cases "es = []") (simp_all add: sorted_wrt_append max.absorb1)
qed simp

lemma sorted_split_at:
  assumes "sorted_wrt (\<lambda>a b. evSeq a < evSeq b) (xs @ e # ys)"
  shows "filter (\<lambda>x. evSeq x \<le> evSeq e) (xs @ e # ys) = xs @ [e]"
  using assms by (auto simp: sorted_wrt_append filter_id_conv filter_empty_conv less_imp_le)

subsection \<open>Properties\<close>

lemma sort_key_descending: "sorted_wrt (\<lambda>a b. f b \<le> f a) (sort_key (\<lambda>x. - f x :: int) xs)"
proof -
  have "sorted (map (\<lambda>x. - f x) (sort_key (\<lambda>x. - f x) xs))" by simp
  then show ?thesis by (simp add: sorted_map sorted_wrt_map)
qed

lemma metaOf_sID [simp]: "mtID (metaOf s) = sID s"
  by (simp add: metaOf_def)

lemma listed_ids:
  assumes "storeInv m"
  shows "map mtID (map (\<lambda>(k, s). metaOf s) (stSessions m)) = map fst (stSessions m)"
  using assms by (auto simp: storeInv_def keyedBy_def list_all_iff)

lemma listed_sorted: "storeInv m \<Longrightarrow> ListMetas m = sort_key (\<lambda>x. - mtUpdatedAt x) (map (\<lambda>(k, s). metaOf s) (stSessions m))"
  by (simp add: storeInv_def ListMetas_def stMetas_reindex)

lemma listed_iff_stored:
  assumes "storeInv m"
  shows "i \<in> mtID ` set (ListMetas m) \<longleftrightarrow> (\<exists>s. Load i m = Inr s)"
proof -
  have "mtID ` set (ListMetas m) = set (map mtID (map (\<lambda>(k, s). metaOf s) (stSessions m)))"
    by (simp add: listed_sorted [OF assms] del: map_map)
  also have "\<dots> = dom (map_of (stSessions m))" by (simp add: listed_ids [OF assms] dom_map_of_conv_image_fst del: map_map)
  finally show ?thesis by (auto simp: Load_def split: option.split)
qed

lemma listed_distinct:
  assumes "storeInv m"
  shows "distinct (map mtID (ListMetas m))"
proof -
  have "distinct (map mtID (map (\<lambda>(k, s). metaOf s) (stSessions m)))"
    unfolding listed_ids [OF assms] using assms by (simp add: storeInv_def keyedBy_def)
  then show ?thesis unfolding listed_sorted [OF assms] distinct_map [of mtID] by simp
qed

lemma attention_head: "storeInv m \<Longrightarrow> attentionOf i m = headOf i (SessionEvents i m)"
  unfolding attentionOf_def using attention_fold [OF SessionEvents_ordered [of m i]] SessionEvents_numbered [of m _ i] by simp

lemma through_boundary:
  assumes "storeInv m"
  shows "fold (\<lambda>e b. if evSessionID e = i \<and> evTurnID e = t \<and> isTerminalEventKind (evKind e) \<and> evSeq e > b
      then evSeq e else b) (stEvents m) (-1) =
      (if filter (isTerminalOf t) (SessionEvents i m) = [] then -1 else evSeq (last (filter (isTerminalOf t) (SessionEvents i m))))"
proof -
  let ?ts = "filter (isTerminalOf t) (SessionEvents i m)"
  have ts: "filter (\<lambda>e. evSessionID e = i \<and> evTurnID e = t \<and> isTerminalEventKind (evKind e)) (stEvents m) = ?ts"
    by (simp add: SessionEvents_def isTerminalOf_def [abs_def] conj_ac)
  have "sorted_wrt (\<lambda>a b. evSeq a < evSeq b) ?ts" by (rule sorted_wrt_filter [OF SessionEvents_ordered [OF assms]])
  moreover have "\<forall>e\<in>set ?ts. -1 \<le> evSeq e" using SessionEvents_numbered [OF assms] by fastforce
  ultimately have "fold max (map evSeq ?ts) (-1) = (if ?ts = [] then -1 else evSeq (last ?ts))" by (rule fold_max_last)
  then show ?thesis
    using boundary_fold [of "\<lambda>e. evSessionID e = i \<and> evTurnID e = t \<and> isTerminalEventKind (evKind e)" "stEvents m" "-1"] ts
    by (simp add: conj_assoc)
qed

lemma last_filter_split:
  "filter P es \<noteq> [] \<Longrightarrow> \<exists>xs e ys. es = xs @ e # ys \<and> P e \<and> filter P ys = [] \<and> last (filter P es) = e"
proof (induction es rule: rev_induct)
  case (snoc x es)
  show ?case
  proof (cases "P x")
    case True
    then show ?thesis by (intro exI [of _ es] exI [of _ x] exI [of _ "[]"]) simp
  next
    case False
    then obtain xs e ys where "es = xs @ e # ys" "P e" "filter P ys = []" "last (filter P es) = e" using snoc by auto
    then show ?thesis using False by (intro exI [of _ xs] exI [of _ e] exI [of _ "ys @ [x]"]) simp
  qed
qed simp

text \<open>The instance history.\<close>

lemma mem_calls: "callStores memCalls NewMemoryStore = Some memStore"
  by (simp add: memStore_def memCalls_def ReserveTurnInput_def Save_def NewMemoryStore_def demoSession_def reindexMetas_def Let_def)

lemma mem_fields:
  "stEvents memStore = memLog" "stEventSeq memStore = 3" "stSessions memStore = [(''s'', demoSession)]"
  "stTurnInputs memStore = [(turnInputKey ''s'' ''r'', memReserved)]" "stClosed memStore = False"
  by (simp_all add: memStore_def memCalls_def ReserveTurnInput_def Save_def NewMemoryStore_def demoSession_def reindexMetas_def
      RecordEvent_def memLog_def memReserved_def memInput_def Let_def)

lemma mem_loaded: "Load i memStore = (if i = ''s'' then Inr demoSession else Inl (SessionNotFound i))"
  by (simp add: Load_def mem_fields)

lemma mem_events: "SessionEvents ''s'' memStore = memLog" "SessionEventsSince ''s'' 1 memStore = tl memLog"
  by (simp_all add: SessionEvents_def SessionEventsSince_def mem_fields) (simp_all add: memLog_def memEvent_def)

lemma mem_pages:
  "SessionEventPage ''s'' 0 1 4 memStore = (tl memLog, True, True)" "SessionEventPage ''s'' 2 1 4 memStore = (take 1 memLog, False, False)"
  by (simp_all add: SessionEventPage_def BuildEventPage_def mem_fields memLog_def memEvent_def eventPageHardRows_def)

text \<open>C19. Whatever methods have run, in whatever order, on a new store: the event log is numbered strictly
  upwards from one, below the store's counter; no two submissions share a sequence number; and the list of conversations
  shows exactly the stored ones, newest first, each as it is stored.\<close>

theorem store_consistent:
  assumes "callStores cs NewMemoryStore = Some m"
  shows "eventsOrdered m \<and> inputsNumbered m \<and>
    sorted_wrt (\<lambda>a b. mtUpdatedAt b \<le> mtUpdatedAt a) (ListMetas m) \<and> distinct (map mtID (ListMetas m)) \<and>
    (\<forall>i. i \<in> mtID ` set (ListMetas m) \<longleftrightarrow> (\<exists>s. Load i m = Inr s)) \<and>
    (\<forall>i s. Load i m = Inr s \<longrightarrow> metaOf s \<in> set (ListMetas m) \<and> sID s = i)"
proof -
  have inv: "storeInv m" using storeInv_calls [OF assms storeInv_New] .
  have metas: "ListMetas m = sort_key (\<lambda>x. - mtUpdatedAt x) (map (\<lambda>(k, s). metaOf s) (stSessions m))"
    using listed_sorted [OF inv] .
  have "distinct (map mtID (ListMetas m))" using listed_distinct [OF inv] .
  moreover have "sorted_wrt (\<lambda>a b. mtUpdatedAt b \<le> mtUpdatedAt a) (ListMetas m)" unfolding metas by (rule sort_key_descending)
  moreover have "\<forall>i s. Load i m = Inr s \<longrightarrow> metaOf s \<in> set (ListMetas m) \<and> sID s = i"
    using stored_sID [OF inv] by (force simp: metas Load_def split: option.splits dest: map_of_SomeD)
  ultimately show ?thesis using inv listed_iff_stored [OF inv] by (simp add: storeInv_def)
qed

theorem store_consistent_witness: "eventsOrdered memStore \<and> mtID ` set (ListMetas memStore) = {''s''}"
  using store_consistent [OF mem_calls] mem_loaded by (auto simp: Load_def split: if_splits)

text \<open>C21. A submission is recorded once.  After a reservation, and whatever else the store does short of deleting
  the conversation or closing, a second submission under the same identifiers gets the first one back
  (only its state may have moved on), is not counted as new, and changes nothing.\<close>

theorem reserve_once:
  assumes "callStores before NewMemoryStore = Some m" "ReserveTurnInput now t e m = Some ((u, created, sq), m1)"
    "callStores cs m1 = Some m2" "list_all (spares (tiSessionID u)) cs"
    "tiSessionID t' = tiSessionID t" "tiRequestID t' = tiRequestID t"
  shows "\<exists>v. ReserveTurnInput now' t' e' m2 = Some ((v, False, 0), m2) \<and> sameInput u v"
proof -
  let ?k = "turnInputKey (tiSessionID t) (tiRequestID t)"
  have inv: "storeInv m" using storeInv_calls [OF assms(1) storeInv_New] .
  have "map_of (stTurnInputs m1) ?k = Some u"
    using assms(2) by (auto simp: ReserveTurnInput_def Let_def update_conv' split: option.splits if_splits)
  then obtain v where "map_of (stTurnInputs m2) ?k = Some v" "sameInput u v"
    using input_kept [OF assms(3) storeInv_ReserveTurnInput [OF inv assms(2)] _ assms(4)] by blast
  then show ?thesis using assms(5,6) by (simp add: ReserveTurnInput_def)
qed

theorem reserve_once_witness:
  "\<exists>v. ReserveTurnInput 9 memInput (memEvent ''again'') memStore = Some ((v, False, 0), memStore) \<and> sameInput memReserved v"
proof -
  define m where "m = snd (Save demoSession NewMemoryStore)"
  have before: "callStores [CallSave demoSession] NewMemoryStore = Some m" by (simp add: m_def)
  obtain m1 where res: "ReserveTurnInput 5 memInput (memEvent ''turn_started'') m = Some ((memReserved, True, 1), m1)"
    by (simp add: m_def ReserveTurnInput_def Save_def NewMemoryStore_def demoSession_def reindexMetas_def Let_def memInput_def memReserved_def)
  have after: "callStores [CallRecordEvent (memEvent ''assistant''), CallRecordEvent (memEvent ''turn_finished'')] m1 = Some memStore"
    using mem_calls res before by (simp add: memCalls_def)
  show ?thesis by (rule reserve_once [OF before res after]) simp_all
qed

text \<open>C37. Loading a conversation page by page returns its whole event log, in order and without gap or repetition, whatever
  row target and byte budget the client asks for; as many pages as there are events are enough.\<close>

theorem history_pages_complete:
  assumes "callStores cs NewMemoryStore = Some m" "length (SessionEvents i m) \<le> n"
  shows "collectPages n (\<lambda>b. SessionEventPage i b R B m) 0 = SessionEvents i m"
  using memory_log.collect_all [OF storeInv_calls [OF assms(1) storeInv_New], of 0 i n R B] assms(2) by simp

theorem history_pages_complete_witness: "collectPages 3 (\<lambda>b. SessionEventPage ''s'' b 1 4 memStore) 0 = memLog"
  using history_pages_complete [OF mem_calls, of "''s''" 3 1 4] by (simp add: mem_events) (simp add: memLog_def)

text \<open>One page: the newest events before the cursor, at most ten thousand of them, within the byte budget unless it is a
  single event; the older-history flag is exact, and the page is marked as cut inside a turn exactly when
  older events exist and its first event does not start a turn.\<close>

theorem SessionEventPage_correct:
  assumes "callStores cs NewMemoryStore = Some m" "SessionEventPage i before R B m = (recs, hasMore, truncated)"
  shows "\<exists>older. filter (\<lambda>e. before = 0 \<or> evSeq e < before) (SessionEvents i m) = older @ recs \<and> hasMore = (older \<noteq> []) \<and>
      (recs = [] \<longrightarrow> older = []) \<and> (length recs \<le> 1 \<or> bytesOf recs \<le> B) \<and> length recs \<le> eventPageHardRows \<and>
      truncated = (older \<noteq> [] \<and> evKind (hd recs) \<noteq> ''turn_started'')"
proof -
  have "storeInv m" using storeInv_calls [OF assms(1) storeInv_New] .
  from SessionEventPage_newest [OF this, of i before R B] show ?thesis unfolding assms(2) prod.inject by blast
qed

theorem SessionEventPage_correct_witness:
  "\<exists>older. memLog = older @ tl memLog \<and> older \<noteq> [] \<and> evKind (hd (tl memLog)) \<noteq> ''turn_started''"
  using SessionEventPage_correct [OF mem_calls mem_pages(1)] by (auto simp: mem_events)

text \<open>Reconnecting: a client that has seen a conversation's events up to some sequence number and asks for what came
  after it, while the store went on working without deleting the conversation, ends with the conversation's log.\<close>

theorem reconnect_replay:
  assumes "callStores before NewMemoryStore = Some m" "callStores cs m = Some m'" "list_all (spares i) cs"
    "list_all (\<lambda>e. evSeq e \<le> n) (SessionEvents i m)" "n \<le> stEventSeq m"
  shows "SessionEvents i m' = SessionEvents i m @ SessionEventsSince i n m'"
proof -
  obtain es where es: "SessionEvents i m' = SessionEvents i m @ es" "\<forall>e\<in>set es. evSeq e > stEventSeq m"
    using appends_calls [OF assms(2,3)] by (auto simp: appends_def)
  have "SessionEventsSince i n m' = filter (\<lambda>e. evSeq e > n) (SessionEvents i m')"
    by (simp add: SessionEventsSince_def page_events)
  also have "\<dots> = es"
  proof -
    have "filter (\<lambda>e. evSeq e > n) (SessionEvents i m) = []" using assms(4) by (auto simp: list_all_iff filter_empty_conv)
    moreover have "filter (\<lambda>e. evSeq e > n) es = es" using es(2) assms(5) by (auto simp: filter_id_conv)
    ultimately show ?thesis using es(1) by simp
  qed
  finally show ?thesis using es(1) by simp
qed

theorem reconnect_replay_witness:
  "SessionEvents ''s'' (snd (RecordEvent (memEvent ''note'') memStore)) =
     memLog @ SessionEventsSince ''s'' 3 (snd (RecordEvent (memEvent ''note'') memStore))"
proof -
  have after: "callStores [CallRecordEvent (memEvent ''note'')] memStore = Some (snd (RecordEvent (memEvent ''note'') memStore))" by simp
  show ?thesis using reconnect_replay [OF mem_calls after, of "''s''" 3] by (simp add: mem_events mem_fields) (simp add: memLog_def)
qed

text \<open>A replay under a byte budget is the newest part of what the client asked for: it is cut only when the next older event
  would exceed the budget, the flag tells, and at least one event is delivered when there is one.\<close>

theorem replay_budget:
  assumes "SessionEventsSinceBudget i since B m = (recs, truncated)"
  shows "\<exists>dropped. SessionEventsSince i since m = dropped @ recs \<and> truncated = (dropped \<noteq> []) \<and>
      (length recs \<le> 1 \<or> bytesOf recs \<le> B) \<and> (SessionEventsSince i since m \<noteq> [] \<longrightarrow> recs \<noteq> []) \<and>
      (dropped \<noteq> [] \<longrightarrow> bytesOf (last dropped # recs) > B)"
proof -
  obtain r where r: "budgetLoop B [] (bytesOf []) (rev (SessionEventsSince i since m)) = (r, truncated)" "recs = rev r"
    using assms by (auto simp: SessionEventsSinceBudget_def split: prod.splits)
  from budgetLoop_spec [OF r(1)] obtain rest where b: "rev (SessionEventsSince i since m) = r @ rest" "truncated = (rest \<noteq> [])"
    "length r \<le> 1 \<or> bytesOf r \<le> B" "SessionEventsSince i since m \<noteq> [] \<longrightarrow> r \<noteq> []" "\<forall>e rs. rest = e # rs \<longrightarrow> bytesOf (r @ [e]) > B"
    by auto
  have "rest \<noteq> [] \<Longrightarrow> bytesOf (hd rest # r) > B" using b(5) by (cases rest) (auto simp: add.commute)
  then show ?thesis using b r(2) by (intro exI [of _ "rev rest"]) (auto simp: rev_swap last_rev)
qed

theorem replay_budget_witness:
  "SessionEventsSinceBudget ''s'' 1 3 memStore = (drop 2 memLog, True) \<and>
   (\<exists>dropped. tl memLog = dropped @ drop 2 memLog \<and> bytesOf (last dropped # drop 2 memLog) > 3)"
proof -
  have b: "SessionEventsSinceBudget ''s'' 1 3 memStore = (drop 2 memLog, True)"
    by (simp add: SessionEventsSinceBudget_def mem_events) (simp add: memLog_def memEvent_def)
  from replay_budget [OF this] obtain dropped where "tl memLog = dropped @ drop 2 memLog" "dropped \<noteq> []"
    "dropped \<noteq> [] \<longrightarrow> bytesOf (last dropped # drop 2 memLog) > 3" by (auto simp only: mem_events)
  then show ?thesis using b by auto
qed

text \<open>The heads: the snapshot lists, by identifier and once each, exactly the conversations with an event after the cursor, each
  with its last event and the last event that ended a turn.\<close>

theorem attention_correct:
  assumes "callStores cs NewMemoryStore = Some m" "SessionEventAttention since m = (lastSeq, heads)"
  shows "lastSeq = stEventSeq m \<and> sorted (map eaSessionID heads) \<and> distinct (map eaSessionID heads) \<and>
    (\<forall>i. i \<in> eaSessionID ` set heads \<longleftrightarrow> (\<exists>e\<in>set (SessionEvents i m). evSeq e > since)) \<and>
    (\<forall>h\<in>set heads. SessionEvents (eaSessionID h) m \<noteq> [] \<and> h = headOf (eaSessionID h) (SessionEvents (eaSessionID h) m))"
proof -
  have inv: "storeInv m" using storeInv_calls [OF assms(1) storeInv_New] .
  let ?ids = "sort (remdups (map evSessionID (stEvents m)))"
  have heads: "heads = filter (\<lambda>h. eaLastSequence h > since) (map (\<lambda>i. headOf i (SessionEvents i m)) ?ids)"
    using assms(2) attention_head [OF inv] by (simp add: SessionEventAttention_def)
  have ids: "i \<in> set ?ids \<longleftrightarrow> SessionEvents i m \<noteq> []" for i by (auto simp: SessionEvents_def filter_empty_conv)
  have names: "map eaSessionID heads = filter (\<lambda>i. eaLastSequence (headOf i (SessionEvents i m)) > since) ?ids"
    by (simp add: heads filter_map o_def)
  have late: "evSeq (last (SessionEvents i m)) > since \<longleftrightarrow> (\<exists>e\<in>set (SessionEvents i m). evSeq e > since)"
    if "SessionEvents i m \<noteq> []" for i
    using last_in_set [OF that] strictly_last [OF SessionEvents_ordered [OF inv]] by (meson order_less_le_trans)
  have "sorted (map eaSessionID heads)" "distinct (map eaSessionID heads)" unfolding names using sorted_filter [of "\<lambda>x. x" ?ids] by simp_all
  moreover have "i \<in> eaSessionID ` set heads \<longleftrightarrow> (\<exists>e\<in>set (SessionEvents i m). evSeq e > since)" for i
  proof -
    have "i \<in> eaSessionID ` set heads \<longleftrightarrow> i \<in> set (map eaSessionID heads)" by simp
    also have "\<dots> \<longleftrightarrow> SessionEvents i m \<noteq> [] \<and> evSeq (last (SessionEvents i m)) > since"
      unfolding names using ids [of i] by (simp del: set_sort)
    finally show ?thesis using late [of i] by (cases "SessionEvents i m = []") simp_all
  qed
  moreover have "\<forall>h\<in>set heads. SessionEvents (eaSessionID h) m \<noteq> [] \<and> h = headOf (eaSessionID h) (SessionEvents (eaSessionID h) m)"
    using ids by (auto simp: heads SessionEvents_def filter_empty_conv)
  ultimately show ?thesis using assms(2) by (auto simp: SessionEventAttention_def)
qed

theorem attention_correct_witness: "''s'' \<in> eaSessionID ` set (snd (SessionEventAttention 2 memStore))"
proof -
  have "\<exists>e\<in>set (SessionEvents ''s'' memStore). evSeq e > 2" by (simp add: mem_events) (simp add: memLog_def)
  then show ?thesis using attention_correct [OF mem_calls, of 2] by (cases "SessionEventAttention 2 memStore") auto
qed

text \<open>The prefix through a turn: exactly the conversation's events up to the last one that ended the turn; there is none
  exactly when no event ended it.\<close>

theorem through_turn_correct:
  assumes "callStores cs NewMemoryStore = Some m"
  shows "case SessionEventsThroughTurn i turnID m of
      Inl err \<Rightarrow> err = EventTurnNotFound \<and> filter (isTerminalOf turnID) (SessionEvents i m) = []
    | Inr es \<Rightarrow> (\<exists>rest. SessionEvents i m = es @ rest \<and> es \<noteq> [] \<and> isTerminalOf turnID (last es) \<and> filter (isTerminalOf turnID) rest = [])"
proof -
  let ?es = "SessionEvents i m" and ?T = "isTerminalOf turnID"
  have inv: "storeInv m" using storeInv_calls [OF assms storeInv_New] .
  note sorted = SessionEvents_ordered [OF inv, of i]
  have boundary: "fold (\<lambda>e b. if evSessionID e = i \<and> evTurnID e = turnID \<and> isTerminalEventKind (evKind e) \<and> evSeq e > b
      then evSeq e else b) (stEvents m) (-1) = (if filter ?T ?es = [] then -1 else evSeq (last (filter ?T ?es)))"
    using through_boundary [OF inv] .
  show ?thesis
  proof (cases "filter ?T ?es = []")
    case True
    then show ?thesis using boundary by (simp add: SessionEventsThroughTurn_def Let_def)
  next
    case False
    then obtain xs e ys where split: "?es = xs @ e # ys" "?T e" "filter ?T ys = []" "last (filter ?T ?es) = e"
      using last_filter_split by blast
    have "1 \<le> evSeq e" using SessionEvents_numbered [OF inv, of e i] split(1) by simp
    then have "SessionEventsThroughTurn i turnID m = Inr (filter (\<lambda>x. evSeq x \<le> evSeq e) ?es)"
      using boundary False split(4) by (simp add: SessionEventsThroughTurn_def page_events)
    also have "filter (\<lambda>x. evSeq x \<le> evSeq e) ?es = xs @ [e]" using sorted_split_at sorted unfolding split(1) by blast
    finally show ?thesis using split by simp
  qed
qed

theorem through_turn_correct_witness:
  "\<exists>es. SessionEventsThroughTurn ''s'' ''t1'' memStore = Inr es \<and> es \<noteq> [] \<and> isTerminalOf ''t1'' (last es)"
proof -
  have "filter (isTerminalOf ''t1'') memLog \<noteq> []" by (simp add: memLog_def isTerminalOf_def memEvent_def isTerminalEventKind_def)
  then show ?thesis using through_turn_correct [OF mem_calls, of "''t1''" "''s''"]
    by (auto simp: mem_events split: sum.splits)
qed

text \<open>Saving a conversation and loading it back gives the saved one, with the archive mark the store had: a late save
  cannot bring an archived conversation back.  No other conversation changes.\<close>

theorem Save_Load:
  assumes "\<not> stClosed m" "sID s \<noteq> []"
  shows "fst (Save s m) = None \<and>
    Load (sID s) (snd (Save s m)) = Inr (s\<lparr>sArchivedAt := (case Load (sID s) m of Inr old \<Rightarrow> sArchivedAt old | Inl err \<Rightarrow> sArchivedAt s)\<rparr>) \<and>
    (\<forall>i. i \<noteq> sID s \<longrightarrow> Load i (snd (Save s m)) = Load i m)"
  using assms by (auto simp: Save_def Load_def Let_def update_conv' split: option.split)

theorem Save_Load_witness:
  "Load ''s'' (snd (Save (demoSession\<lparr>sName := ''new'', sArchivedAt := 4\<rparr>) memStore)) = Inr (demoSession\<lparr>sName := ''new'', sArchivedAt := 0\<rparr>)"
  using Save_Load [of memStore "demoSession\<lparr>sName := ''new'', sArchivedAt := 4\<rparr>"]
  by (simp add: mem_fields mem_loaded) (simp add: demoSession_def mem_loaded)

text \<open>The archive mark is kept by a save, but starting a submission stores the session it is handed as it is: a session loaded
  before the archive operation brings the archived conversation back.\<close>

theorem start_unarchives:
  "Load ''s'' (snd (StartTurnInput 9 memInput demoSession (snd (Archive 8 ''s'' 8 memStore)))) = Inr demoSession \<and>
   (\<exists>old. Load ''s'' (snd (Archive 8 ''s'' 8 memStore)) = Inr old \<and> sArchivedAt old = 8) \<and> sArchivedAt demoSession = 0"
proof -
  have a: "sArchivedAt demoSession = 0" "sID demoSession = ''s''" by (simp_all add: demoSession_def)
  have k: "turnInputKey (tiSessionID memInput) (tiRequestID memInput) = turnInputKey ''s'' ''r''" by (simp add: memInput_def)
  show ?thesis using a k by (simp add: StartTurnInput_def Archive_def Load_def mem_fields Let_def)
qed

end
