(* ===== verification/Resilient.thy ===== *)
theory Resilient
  imports Session
begin

section \<open>The retry layer of model clients\<close>

text \<open>
  \<^verbatim>\<open>internal/model/resilient.go\<close> with the parts of \<^verbatim>\<open>types.go\<close>, \<^verbatim>\<open>errors.go\<close>, \<^verbatim>\<open>metrics.go\<close>, \<^verbatim>\<open>usage_accounting.go\<close> and
  \<^verbatim>\<open>retry_after.go\<close> it calls: attempts with a classification of errors, a jittered exponential backoff, a wait that the
  provider may prolong, one telemetry record per call, and the accounting of tokens over all attempts.

  An error is the list of the errors it wraps, outermost first, as \<^verbatim>\<open>errors.Is\<close> and \<^verbatim>\<open>errors.As\<close> walk it.  What the wrapped
  provider answers to each attempt, the state of the caller's context at each point where the code looks at
  it, the random numbers and the clock are the record \<open>provider_env\<close>; an attempt's own deadline is part of the
  provider's answer.  Durations are nanoseconds in 64 bits.  The line written to the log, and the time, model and latency of the telemetry record of a whole call, are left out.
\<close>

subsection \<open>Errors\<close>

record APIError =
  aeStatusCode :: int
  aeType :: string
  aeCredentialTarget :: string
  aeCode :: string
  aeMessage :: string
  aeBody :: string
  aeRetryAfter :: int

datatype err_layer =
    Canceled | DeadlineExceeded | EmptyAssistantResponse | InvalidToolArguments | UnexpectedEOF
  | ApiLayer APIError
  | NetLayer bool                     \<comment> \<open>a \<^verbatim>\<open>net.Error\<close> and whether it is a timeout\<close>
  | InvalidCallLayer nat string
  | FinishReasonLayer string
  | AttemptsLayer int
  | NoteLayer string

type_synonym err = "err_layer list"

definition errorsIs :: "err \<Rightarrow> err_layer \<Rightarrow> bool" where
  "errorsIs e l = (l \<in> set e)"

fun asAPIError :: "err \<Rightarrow> APIError option" where
  "asAPIError [] = None"
| "asAPIError (l # e) = (case l of ApiLayer a \<Rightarrow> Some a | _ \<Rightarrow> asAPIError e)"

text \<open>\<open>context.DeadlineExceeded\<close> is itself a \<^verbatim>\<open>net.Error\<close> that reports a timeout.\<close>

fun asNetError :: "err \<Rightarrow> bool option" where
  "asNetError [] = None"
| "asNetError (l # e) = (case l of NetLayer t \<Rightarrow> Some t | DeadlineExceeded \<Rightarrow> Some True | _ \<Rightarrow> asNetError e)"

definition userAssetErrorCodes :: "string list" where
  "userAssetErrorCodes = [''asset_unavailable'', ''asset_not_ready'', ''invalid_assets'', ''asset_integrity_mismatch'',
     ''image_input_unsupported'', ''image_processing_failed'']"

definition UserAssetErrorCode :: "err \<Rightarrow> string option" where
  "UserAssetErrorCode e =
     (case asAPIError e of
        None \<Rightarrow> None
      | Some a \<Rightarrow>
          if aeType a \<noteq> ''user_asset_error'' then None
          else if aeCode a \<in> set userAssetErrorCodes then Some (aeCode a)
          else Some ''request_failed'')"

definition isUserAssetError :: "err \<Rightarrow> bool" where
  "isUserAssetError e = (UserAssetErrorCode e \<noteq> None)"

definition isQuotaExceeded :: "err \<Rightarrow> bool" where
  "isQuotaExceeded e =
     (case asAPIError e of None \<Rightarrow> False | Some a \<Rightarrow> aeCode a = ''quota_exceeded'' \<or> aeType a = ''quota_exceeded'')"

definition retryableStatus :: "int list" where
  "retryableStatus = [408, 429, 500, 502, 503, 504]"

definition isRetryable :: "err \<Rightarrow> bool" where
  "isRetryable e =
     (if errorsIs e Canceled then False
      else if errorsIs e DeadlineExceeded then True
      else if errorsIs e EmptyAssistantResponse then True
      else if errorsIs e InvalidToolArguments then True
      else
        (case asAPIError e of
           Some a \<Rightarrow>
             if isUserAssetError e then False
             else if isQuotaExceeded e then False
             else aeStatusCode a \<in> set retryableStatus
         | None \<Rightarrow>
             if asNetError e \<noteq> None then True
             else errorsIs e UnexpectedEOF))"

definition errorClass :: "err option \<Rightarrow> string" where
  "errorClass err =
     (case err of
        None \<Rightarrow> ''''
      | Some e \<Rightarrow>
          if errorsIs e DeadlineExceeded then ''timeout''
          else if errorsIs e Canceled then ''canceled''
          else if errorsIs e EmptyAssistantResponse then ''empty_response''
          else if errorsIs e InvalidToolArguments then ''invalid_tool_args''
          else
            (case asAPIError e of
               Some a \<Rightarrow>
                 if aeStatusCode a = 429 then ''429''
                 else if aeStatusCode a \<ge> 500 then ''5xx''
                 else if aeStatusCode a \<ge> 400 then ''4xx''
                 else ''http_'' @ intString (aeStatusCode a)
             | None \<Rightarrow>
                 (case asNetError e of
                    Some True \<Rightarrow> ''timeout''
                  | Some False \<Rightarrow> ''network''
                  | None \<Rightarrow> ''error'')))"

definition providerRetryDelay :: "err \<Rightarrow> int" where
  "providerRetryDelay e = (case asAPIError e of Some a \<Rightarrow> max 0 (aeRetryAfter a) | None \<Rightarrow> 0)"

text \<open>The header \<^verbatim>\<open>Retry-After\<close>: seconds, or a date, which \<^verbatim>\<open>net/http\<close> parses (\<open>parseTime\<close>, nanoseconds).\<close>

definition ParseUint64 :: "string \<Rightarrow> nat option" where
  "ParseUint64 s =
     (if s = [] \<or> \<not> list_all (byteIn 0x30 0x39) s then None
      else (let n = foldl (\<lambda>n c. 10 * n + (of_char c - 0x30)) 0 s in if n < 2 ^ 64 then Some n else None))"

definition maxDuration :: int where "maxDuration = 2 ^ 63 - 1"

definition parseRetryAfter :: "(string \<Rightarrow> int option) \<Rightarrow> string \<Rightarrow> int \<Rightarrow> int option" where
  "parseRetryAfter parseTime value now =
     (let v = TrimSpace value in
      if v = [] then None
      else
        (case ParseUint64 v of
           Some seconds \<Rightarrow>
             if int seconds > maxDuration div 1000000000 then None else Some (int seconds * 1000000000)
         | None \<Rightarrow>
             (case parseTime v of
                Some date \<Rightarrow> Some (max 0 (min maxDuration (max (- (2 ^ 63)) (date - now))))
              | None \<Rightarrow> None)))"

subsection \<open>Responses and usage\<close>

record Usage =
  uPromptTokens :: int
  uCompletionTokens :: int
  uTotalTokens :: int
  uBillingUnits :: int
  uCachedPromptTokens :: int

definition noUsage :: Usage where
  "noUsage = \<lparr>uPromptTokens = 0, uCompletionTokens = 0, uTotalTokens = 0, uBillingUnits = 0, uCachedPromptTokens = 0\<rparr>"

definition addUsage :: "Usage \<Rightarrow> Usage \<Rightarrow> Usage" where
  "addUsage u v = \<lparr>uPromptTokens = uPromptTokens u + uPromptTokens v, uCompletionTokens = uCompletionTokens u + uCompletionTokens v,
     uTotalTokens = uTotalTokens u + uTotalTokens v, uBillingUnits = uBillingUnits u + uBillingUnits v,
     uCachedPromptTokens = uCachedPromptTokens u + uCachedPromptTokens v\<rparr>"

record Response =
  rActualModel :: string
  rContent :: string
  rReasoningContent :: string
  rToolCalls :: "ToolCall list"
  rWebSearchCalls :: "WebSearchCall list"
  rFinishReason :: string
  rUsage :: Usage
  rAccountingUsage :: "Usage option"
  rRaw :: string

definition noResponse :: Response where
  "noResponse = \<lparr>rActualModel = [], rContent = [], rReasoningContent = [], rToolCalls = [], rWebSearchCalls = [], rFinishReason = [],
     rUsage = noUsage, rAccountingUsage = None, rRaw = []\<rparr>"

definition AccountingUsage :: "Response \<Rightarrow> Usage" where
  "AccountingUsage r = (case rAccountingUsage r of Some u \<Rightarrow> u | None \<Rightarrow> rUsage r)"

definition failedResponse :: "Response \<Rightarrow> Response" where
  "failedResponse r = noResponse\<lparr>rActualModel := rActualModel r, rFinishReason := rFinishReason r, rUsage := rUsage r,
     rAccountingUsage := rAccountingUsage r\<rparr>"

definition isEmptyTurn :: "Response \<Rightarrow> bool" where
  "isEmptyTurn r = (TrimSpace (rContent r) = [] \<and> rToolCalls r = [])"

definition callErrorLayers :: "call_error \<Rightarrow> err" where
  "callErrorLayers e =
     (case e of
        EmptyCallID \<Rightarrow> [NoteLayer ''tool call id is empty'']
      | UnsupportedType t \<Rightarrow> [NoteLayer (''unsupported tool call type '' @ t)]
      | EmptyFunctionName \<Rightarrow> [NoteLayer ''tool function name is empty'']
      | MalformedArguments \<Rightarrow> [NoteLayer ''malformed arguments'', InvalidToolArguments]
      | NotAnObject k \<Rightarrow> [NoteLayer (''expected a JSON object, got '' @ k), InvalidToolArguments])"

definition ValidateAssistantTurn :: "(string \<Rightarrow> raw_message) \<Rightarrow> Response \<Rightarrow> err option" where
  "ValidateAssistantTurn parse r =
     (if isEmptyTurn r then Some [EmptyAssistantResponse]
      else
        (case firstInvalidCall parse 0 (rToolCalls r) of
           Some (j, e) \<Rightarrow> Some (InvalidCallLayer j (fnName (rToolCalls r ! j)) # callErrorLayers e)
         | None \<Rightarrow> None))"

definition AssistantMessage :: "Response \<Rightarrow> Message" where
  "AssistantMessage r = (newMessage RoleAssistant (rContent r))\<lparr>mReasoningContent := rReasoningContent r, mToolCalls := rToolCalls r,
     mWebSearchCalls := rWebSearchCalls r\<rparr>"

subsection \<open>The wrapper\<close>

record ResilientProvider =
  rpInner :: bool                \<comment> \<open>whether there is a wrapped provider\<close>
  rpStreams :: bool              \<comment> \<open>whether it is a \<open>StreamingProvider\<close>\<close>
  rpMaxRetries :: int
  rpBackoff :: int
  rpMaxBackoff :: int
  rpObserver :: bool

record provider_env =
  inner :: "nat \<Rightarrow> Response \<times> err option"     \<comment> \<open>the answer to attempt \<open>n\<close>, from one\<close>
  ctxBefore :: "nat \<Rightarrow> err option"            \<comment> \<open>\<open>ctx.Err\<close> before attempt \<open>n\<close>\<close>
  ctxAfter :: "nat \<Rightarrow> err option"             \<comment> \<open>\<open>ctx.Err\<close> after attempt \<open>n\<close> failed\<close>
  waitEnds :: "nat \<Rightarrow> err option"             \<comment> \<open>the context's error when it ends the wait after attempt \<open>n\<close>\<close>
  rand :: "nat \<Rightarrow> int \<Rightarrow> int"                  \<comment> \<open>\<open>rand.Int63n\<close> in the wait after attempt \<open>n\<close>\<close>
  duration :: "nat \<Rightarrow> int"
  stream :: "Response \<times> err option"            \<comment> \<open>the outcome of the streaming attempt\<close>
  streamCtx :: "err option"                     \<comment> \<open>\<open>ctx.Err\<close> after it\<close>
  streamWait :: "err option"
  streamDuration :: int

record RetryInfo =
  riAttempt :: nat
  riMaxAttempts :: int
  riDelay :: int
  riErr :: err
  riFallback :: bool

record Attempt =
  atLatency :: int
  atErrorClass :: string
  atUsage :: Usage

record RequestStat =
  stPromptTokens :: int
  stCachedPromptTokens :: int
  stCompletionTokens :: int
  stAttempts :: nat
  stRetries :: nat
  stTimedOut :: bool
  stSuccess :: bool
  stErrorClass :: string
  stTrace :: "Attempt list"

fun backoffLoop :: "int \<Rightarrow> nat \<Rightarrow> int \<Rightarrow> int" where
  "backoffLoop maxB 0 d = d"
| "backoffLoop maxB (Suc n) d =
     (let d' = wrap64 (d * 2) in
      if d' \<le> 0 then maxB
      else if maxB > 0 \<and> d' \<ge> maxB then maxB
      else backoffLoop maxB n d')"

definition backoffFor :: "ResilientProvider \<Rightarrow> (int \<Rightarrow> int) \<Rightarrow> nat \<Rightarrow> int" where
  "backoffFor p rnd attempt =
     (if rpBackoff p \<le> 0 then 0
      else
        (let d0 = backoffLoop (rpMaxBackoff p) (attempt - 1) (rpBackoff p);
             d = (if rpMaxBackoff p > 0 \<and> (d0 \<le> 0 \<or> d0 > rpMaxBackoff p) then rpMaxBackoff p else d0);
             half = (if d < 0 then - ((- d) div 2) else d div 2)
         in if half \<le> 0 then d else half + rnd (half + 1)))"

definition attemptsOf :: "ResilientProvider \<Rightarrow> int" where
  "attemptsOf p = (let a = wrap64 (rpMaxRetries p + 1) in if a < 1 then 1 else a)"

text \<open>The error of an answer: the transport's, or that of a response that cannot be used.\<close>

definition answerError :: "(string \<Rightarrow> raw_message) \<Rightarrow> Response \<times> err option \<Rightarrow> err option" where
  "answerError parse ans =
     (case snd ans of
        Some e \<Rightarrow> Some e
      | None \<Rightarrow>
          (case ValidateAssistantTurn parse (fst ans) of
             Some v \<Rightarrow> Some (FinishReasonLayer (rFinishReason (fst ans)) # v)
           | None \<Rightarrow> None))"

record call_state =
  csUsage :: Usage
  csLast :: Response
  csAttempts :: nat
  csTimedOut :: bool
  csTrace :: "Attempt list"
  csNotices :: "RetryInfo list"

definition startState :: call_state where
  "startState = \<lparr>csUsage = noUsage, csLast = noResponse, csAttempts = 0, csTimedOut = False, csTrace = [], csNotices = []\<rparr>"

definition recordAttempt :: "(string \<Rightarrow> raw_message) \<Rightarrow> provider_env \<Rightarrow> nat \<Rightarrow> call_state \<Rightarrow> call_state" where
  "recordAttempt parse E n st =
     (let resp = fst (inner E n); cls = errorClass (answerError parse (inner E n))
      in st\<lparr>csAttempts := n, csLast := resp, csUsage := addUsage (csUsage st) (AccountingUsage resp),
           csTrace := csTrace st @ [\<lparr>atLatency = duration E n, atErrorClass = cls, atUsage = AccountingUsage resp\<rparr>],
           csTimedOut := (csTimedOut st \<or> cls = ''timeout'')\<rparr>)"

definition retryNotice :: "ResilientProvider \<Rightarrow> provider_env \<Rightarrow> int \<Rightarrow> nat \<Rightarrow> err \<Rightarrow> RetryInfo" where
  "retryNotice p E attempts n e =
     \<lparr>riAttempt = n, riMaxAttempts = attempts, riDelay = max (backoffFor p (rand E n) n) (providerRetryDelay e), riErr = e,
      riFallback = False\<rparr>"

text \<open>The loop: \<open>rest\<close> attempts remain after attempt \<open>n\<close>.\<close>

fun completeLoop ::
  "(string \<Rightarrow> raw_message) \<Rightarrow> ResilientProvider \<Rightarrow> provider_env \<Rightarrow> int \<Rightarrow> nat \<Rightarrow> nat \<Rightarrow> call_state \<Rightarrow>
   Response \<times> err option \<times> call_state" where
  "completeLoop parse p E attempts rest n st =
     (case ctxBefore E n of
        Some c \<Rightarrow> (noResponse, Some c, st)
      | None \<Rightarrow>
          (let st1 = recordAttempt parse E n st in
           case answerError parse (inner E n) of
             None \<Rightarrow> (fst (inner E n), None, st1)
           | Some e \<Rightarrow>
               (case ctxAfter E n of
                  Some c \<Rightarrow> (noResponse, Some c, st1)
                | None \<Rightarrow>
                    if \<not> isRetryable e then (noResponse, Some e, st1)
                    else
                      (case rest of
                         0 \<Rightarrow> (noResponse, Some (AttemptsLayer attempts # e), st1)
                       | Suc rest' \<Rightarrow>
                           (let st2 = st1\<lparr>csNotices := csNotices st1 @ [retryNotice p E attempts n e]\<rparr> in
                            case waitEnds E n of
                              Some c \<Rightarrow> (noResponse, Some c, st2)
                            | None \<Rightarrow> completeLoop parse p E attempts rest' (n + 1) st2)))))"

declare completeLoop.simps [simp del]

record call_result =
  crResponse :: Response
  crErr :: "err option"
  crStats :: "RequestStat list"
  crNotices :: "RetryInfo list"

definition statOf :: "err option \<Rightarrow> call_state \<Rightarrow> RequestStat" where
  "statOf err st = \<lparr>stPromptTokens = uPromptTokens (csUsage st), stCachedPromptTokens = uCachedPromptTokens (csUsage st),
     stCompletionTokens = uCompletionTokens (csUsage st), stAttempts = csAttempts st, stRetries = csAttempts st - 1,
     stTimedOut = csTimedOut st, stSuccess = (err = None), stErrorClass = errorClass err, stTrace = csTrace st\<rparr>"

definition nilInner :: call_result where
  "nilInner = \<lparr>crResponse = noResponse, crErr = Some [NoteLayer ''resilient provider: nil inner provider''], crStats = [], crNotices = []\<rparr>"

definition Complete :: "(string \<Rightarrow> raw_message) \<Rightarrow> ResilientProvider \<Rightarrow> provider_env \<Rightarrow> call_result" where
  "Complete parse p E =
     (if \<not> rpInner p then nilInner
      else
        (let attempts = attemptsOf p;
             (resp0, err, st) = completeLoop parse p E attempts (nat (attempts - 1)) 1 startState;
             resp = (case err of Some _ \<Rightarrow> failedResponse (csLast st) | None \<Rightarrow> resp0)
         in \<lparr>crResponse = resp\<lparr>rAccountingUsage := Some (csUsage st)\<rparr>, crErr = err,
             crStats = (if rpObserver p then [statOf err st] else []), crNotices = csNotices st\<rparr>))"

definition streamStat :: "provider_env \<Rightarrow> err option \<Rightarrow> RequestStat" where
  "streamStat E err =
     (let usage = AccountingUsage (fst (stream E))
      in \<lparr>stPromptTokens = uPromptTokens usage, stCachedPromptTokens = uCachedPromptTokens usage,
          stCompletionTokens = uCompletionTokens usage, stAttempts = 1, stRetries = 0, stTimedOut = (errorClass err = ''timeout''),
          stSuccess = (err = None), stErrorClass = errorClass err,
          stTrace = [\<lparr>atLatency = streamDuration E, atErrorClass = errorClass err, atUsage = usage\<rparr>]\<rparr>)"

definition CompleteStream :: "(string \<Rightarrow> raw_message) \<Rightarrow> ResilientProvider \<Rightarrow> provider_env \<Rightarrow> call_result" where
  "CompleteStream parse p E =
     (if \<not> rpInner p then nilInner
      else if \<not> rpStreams p then Complete parse p E
      else
        (let resp = fst (stream E); err = answerError parse (stream E); usage = AccountingUsage resp;
             stats = (if rpObserver p then [streamStat E err] else [])
         in case err of
              None \<Rightarrow> \<lparr>crResponse = resp, crErr = None, crStats = stats, crNotices = []\<rparr>
            | Some e \<Rightarrow>
                (case streamCtx E of
                   Some c \<Rightarrow> \<lparr>crResponse = failedResponse resp, crErr = Some c, crStats = stats, crNotices = []\<rparr>
                 | None \<Rightarrow>
                     if isQuotaExceeded e \<or> isUserAssetError e
                     then \<lparr>crResponse = failedResponse resp, crErr = Some e, crStats = stats, crNotices = []\<rparr>
                     else
                       (let delay = providerRetryDelay e;
                            notice = \<lparr>riAttempt = 0, riMaxAttempts = 0, riDelay = delay, riErr = e, riFallback = True\<rparr>;
                            r = Complete parse p E
                        in if delay > 0 \<and> streamWait E \<noteq> None
                           then \<lparr>crResponse = failedResponse resp, crErr = streamWait E, crStats = stats, crNotices = [notice]\<rparr>
                           else \<lparr>crResponse = (crResponse r)\<lparr>rAccountingUsage := Some (addUsage usage (AccountingUsage (crResponse r)))\<rparr>,
                                 crErr = crErr r, crStats = stats @ crStats r, crNotices = notice # crNotices r\<rparr>))))"

subsection \<open>Reference vocabulary\<close>

text \<open>\<open>retries\<close>: attempt \<open>n\<close> is made, fails in a way worth a retry, and the caller still wants the answer after the
  wait.  \<open>stopAttempt\<close>: the first attempt that does not lead to another.\<close>

definition failsRetryably :: "(string \<Rightarrow> raw_message) \<Rightarrow> provider_env \<Rightarrow> nat \<Rightarrow> bool" where
  "failsRetryably parse E n =
     (ctxBefore E n = None \<and> ctxAfter E n = None \<and>
      (case answerError parse (inner E n) of None \<Rightarrow> False | Some e \<Rightarrow> isRetryable e))"

definition retries :: "(string \<Rightarrow> raw_message) \<Rightarrow> provider_env \<Rightarrow> nat \<Rightarrow> bool" where
  "retries parse E n = (failsRetryably parse E n \<and> waitEnds E n = None)"

fun stopAttempt :: "(string \<Rightarrow> raw_message) \<Rightarrow> provider_env \<Rightarrow> nat \<Rightarrow> nat \<Rightarrow> nat" where
  "stopAttempt parse E 0 n = n"
| "stopAttempt parse E (Suc rest) n = (if retries parse E n then stopAttempt parse E rest (n + 1) else n)"

definition errorAt :: "(string \<Rightarrow> raw_message) \<Rightarrow> provider_env \<Rightarrow> int \<Rightarrow> bool \<Rightarrow> nat \<Rightarrow> err option" where
  "errorAt parse E attempts final n =
     (case ctxBefore E n of
        Some c \<Rightarrow> Some c
      | None \<Rightarrow>
          (case answerError parse (inner E n) of
             None \<Rightarrow> None
           | Some e \<Rightarrow>
               (case ctxAfter E n of
                  Some c \<Rightarrow> Some c
                | None \<Rightarrow>
                    if \<not> isRetryable e then Some e
                    else if final then Some (AttemptsLayer attempts # e)
                    else waitEnds E n)))"

text \<open>The attempts made, and those after which a retry was announced.\<close>

definition made :: "provider_env \<Rightarrow> nat \<Rightarrow> nat \<Rightarrow> nat list" where
  "made E a n = [a..<(if ctxBefore E n = None then Suc n else n)]"

definition announced :: "(string \<Rightarrow> raw_message) \<Rightarrow> provider_env \<Rightarrow> nat \<Rightarrow> nat \<Rightarrow> nat \<Rightarrow> nat list" where
  "announced parse E rest a n = [a..<(if n < a + rest \<and> failsRetryably parse E n then Suc n else n)]"

definition noticeOf :: "(string \<Rightarrow> raw_message) \<Rightarrow> ResilientProvider \<Rightarrow> provider_env \<Rightarrow> int \<Rightarrow> nat \<Rightarrow> RetryInfo" where
  "noticeOf parse p E attempts n = retryNotice p E attempts n (the (answerError parse (inner E n)))"

definition usageOfAttempts :: "provider_env \<Rightarrow> Usage \<Rightarrow> nat list \<Rightarrow> Usage" where
  "usageOfAttempts E u ns = foldl addUsage u (map (\<lambda>k. AccountingUsage (fst (inner E k))) ns)"

text \<open>Small instances.\<close>

definition goodAnswer :: Response where
  "goodAnswer = noResponse\<lparr>rContent := ''hi'', rUsage := noUsage\<lparr>uPromptTokens := 5\<rparr>\<rparr>"

definition busyAnswer :: "Response \<times> err option" where
  "busyAnswer = (noResponse\<lparr>rUsage := noUsage\<lparr>uPromptTokens := 3\<rparr>\<rparr>,
     Some [ApiLayer \<lparr>aeStatusCode = 503, aeType = [], aeCredentialTarget = [], aeCode = [], aeMessage = [], aeBody = [], aeRetryAfter = 9\<rparr>])"

definition flakyEnv :: provider_env where
  "flakyEnv = \<lparr>inner = (\<lambda>n. if n < 3 then busyAnswer else (goodAnswer, None)), ctxBefore = (\<lambda>_. None), ctxAfter = (\<lambda>_. None),
     waitEnds = (\<lambda>_. None), rand = (\<lambda>_ b. b - 1), duration = (\<lambda>_. 1), stream = busyAnswer, streamCtx = None, streamWait = None,
     streamDuration = 1\<rparr>"

definition flakyProvider :: ResilientProvider where
  "flakyProvider = \<lparr>rpInner = True, rpStreams = True, rpMaxRetries = 3, rpBackoff = 4, rpMaxBackoff = 6, rpObserver = True\<rparr>"


subsection \<open>Backoff\<close>

lemma wrap64_id: "- (2 ^ 63) \<le> x \<Longrightarrow> x < 2 ^ 63 \<Longrightarrow> wrap64 x = x"
  by (simp add: wrap64_def)

lemma wrap64_over: "2 ^ 63 \<le> x \<Longrightarrow> x < 2 ^ 64 \<Longrightarrow> wrap64 x = x - 2 ^ 64"
proof -
  assume "2 ^ 63 \<le> x" "x < 2 ^ 64"
  then have "(x - 2 ^ 63) mod 2 ^ 64 = x - 2 ^ 63" by simp
  then have "(x + 2 ^ 63) mod 2 ^ 64 = x - 2 ^ 63" using mod_add_self2 [of "x - 2 ^ 63" "2 ^ 64"] by (simp add: add.commute)
  then show ?thesis by (simp add: wrap64_def)
qed

lemma backoffLoop_min:
  assumes "0 < d" "d < 2 ^ 63" "0 < M" "M < 2 ^ 63"
  shows "min M (backoffLoop M n d) = min M (d * 2 ^ n) \<and> 0 < backoffLoop M n d"
  using assms(1,2)
proof (induction n arbitrary: d)
  case (Suc n)
  have grows: "d * 2 \<le> d * 2 ^ Suc n" using Suc.prems(1) by simp
  show ?case
  proof (cases "d * 2 < 2 ^ 63")
    case True
    then have w: "wrap64 (d * 2) = d * 2" using Suc.prems(1) by (intro wrap64_id) auto
    show ?thesis
    proof (cases "M \<le> d * 2")
      case True
      then have "M \<le> d * 2 ^ Suc n" using grows by linarith
      then show ?thesis using True w Suc.prems(1) assms(3) by simp
    next
      case False
      then show ?thesis using w Suc.prems(1) True Suc.IH [of "d * 2"] by (simp add: mult.assoc)
    qed
  next
    case False
    then have "wrap64 (d * 2) = d * 2 - 2 ^ 64" using Suc.prems(2) by (intro wrap64_over) auto
    then have "wrap64 (d * 2) \<le> 0" using Suc.prems(2) by simp
    moreover have "M \<le> d * 2 ^ Suc n" using False grows assms(4) by linarith
    ultimately show ?thesis using assms(3) by simp
  qed
qed simp

lemma backoffFor_bounds:
  assumes "0 < rpBackoff p" "rpBackoff p < 2 ^ 63" "0 < rpMaxBackoff p" "rpMaxBackoff p < 2 ^ 63"
    "\<forall>b > 0. 0 \<le> rnd b \<and> rnd b < b"
  shows "let d = min (rpMaxBackoff p) (rpBackoff p * 2 ^ (n - 1)) in d div 2 \<le> backoffFor p rnd n \<and> backoffFor p rnd n \<le> d \<and> 0 < backoffFor p rnd n"
proof -
  define d where "d = min (rpMaxBackoff p) (rpBackoff p * 2 ^ (n - 1))"
  have l: "min (rpMaxBackoff p) (backoffLoop (rpMaxBackoff p) (n - 1) (rpBackoff p)) = d" "0 < backoffLoop (rpMaxBackoff p) (n - 1) (rpBackoff p)"
    using backoffLoop_min [OF assms(1-4), of "n - 1"] by (simp_all add: d_def)
  have "0 < d" using assms(1,3) by (simp add: d_def)
  have capped: "(if rpMaxBackoff p > 0 \<and> (backoffLoop (rpMaxBackoff p) (n - 1) (rpBackoff p) \<le> 0 \<or>
      backoffLoop (rpMaxBackoff p) (n - 1) (rpBackoff p) > rpMaxBackoff p) then rpMaxBackoff p
      else backoffLoop (rpMaxBackoff p) (n - 1) (rpBackoff p)) = d"
    using l assms(3) by auto
  have "backoffFor p rnd n = (if d div 2 \<le> 0 then d else d div 2 + rnd (d div 2 + 1))"
    unfolding backoffFor_def Let_def capped using assms(1) \<open>0 < d\<close> by simp
  moreover have "0 \<le> rnd (d div 2 + 1) \<and> rnd (d div 2 + 1) < d div 2 + 1"
    using spec [OF assms(5), of "d div 2 + 1"] \<open>0 < d\<close> by simp
  ultimately show ?thesis unfolding d_def [symmetric] Let_def using \<open>0 < d\<close> by (auto split: if_splits)
qed

subsection \<open>The loop in closed form\<close>

lemma stopAttempt_spec:
  "a \<le> stopAttempt parse E rest a \<and> stopAttempt parse E rest a \<le> a + rest \<and>
   (\<forall>k. a \<le> k \<and> k < stopAttempt parse E rest a \<longrightarrow> retries parse E k) \<and>
   (stopAttempt parse E rest a < a + rest \<longrightarrow> \<not> retries parse E (stopAttempt parse E rest a))"
proof (induction rest arbitrary: a)
  case (Suc rest)
  show ?case
  proof (cases "retries parse E a")
    case True
    have "retries parse E k" if "a \<le> k" "k < stopAttempt parse E rest (a + 1)" for k
      using Suc.IH [of "a + 1"] that True by (cases "k = a") auto
    then show ?thesis using Suc.IH [of "a + 1"] True by auto
  qed auto
qed auto

text \<open>One round: either the attempt leads to another one, or its outcome is the outcome of the call.\<close>

lemma completeLoop_retry:
  assumes "retries parse E a"
  shows "completeLoop parse p E N (Suc rest) a st =
    completeLoop parse p E N rest (a + 1)
      ((recordAttempt parse E a st)\<lparr>csNotices := csNotices (recordAttempt parse E a st) @ [noticeOf parse p E N a]\<rparr>)"
  using assms by (subst completeLoop.simps)
    (auto simp: retries_def failsRetryably_def noticeOf_def Let_def split: option.splits)

lemma completeLoop_stop:
  assumes "rest = 0 \<or> \<not> retries parse E a"
  shows "completeLoop parse p E N rest a st =
    (case errorAt parse E N (rest = 0) a of None \<Rightarrow> fst (inner E a) | Some e \<Rightarrow> noResponse,
     errorAt parse E N (rest = 0) a,
     if ctxBefore E a \<noteq> None then st
     else if rest \<noteq> 0 \<and> failsRetryably parse E a
     then (recordAttempt parse E a st)\<lparr>csNotices := csNotices (recordAttempt parse E a st) @ [noticeOf parse p E N a]\<rparr>
     else recordAttempt parse E a st)"
  using assms by (subst completeLoop.simps)
    (auto simp: retries_def failsRetryably_def noticeOf_def errorAt_def Let_def split: option.splits nat.splits)

lemma recordAttempt_fields:
  "csUsage (recordAttempt parse E a st) = addUsage (csUsage st) (AccountingUsage (fst (inner E a)))"
  "csLast (recordAttempt parse E a st) = fst (inner E a)" "csNotices (recordAttempt parse E a st) = csNotices st"
  "length (csTrace (recordAttempt parse E a st)) = Suc (length (csTrace st))" "csAttempts (recordAttempt parse E a st) = a"
  by (simp_all add: recordAttempt_def Let_def)

lemma made_self: "made E a a = (if ctxBefore E a = None then [a] else [])"
  by (simp add: made_def)

lemma announced_self: "announced parse E rest a a = (if rest \<noteq> 0 \<and> failsRetryably parse E a then [a] else [])"
  by (simp add: announced_def)

lemma failsRetryably_made: "failsRetryably parse E a \<Longrightarrow> ctxBefore E a = None"
  by (simp add: failsRetryably_def)

lemma completeLoop_closed:
  assumes "completeLoop parse p E N rest a st = (resp, err, st')"
  defines "n \<equiv> stopAttempt parse E rest a"
  shows "err = errorAt parse E N (n = a + rest) n \<and> (err = None \<longrightarrow> resp = fst (inner E n)) \<and>
    csUsage st' = usageOfAttempts E (csUsage st) (made E a n) \<and>
    csNotices st' = csNotices st @ map (noticeOf parse p E N) (announced parse E rest a n) \<and>
    length (csTrace st') = length (csTrace st) + length (made E a n) \<and>
    csAttempts st' = (if made E a n = [] then csAttempts st else last (made E a n))"
  using assms(1) unfolding n_def
proof (induction rest arbitrary: a st)
  case 0
  then show ?case
    by (auto simp: completeLoop_stop recordAttempt_fields usageOfAttempts_def made_self announced_self failsRetryably_made split: option.splits if_splits)
next
  case (Suc rest)
  show ?case
  proof (cases "retries parse E a")
    case True
    let ?n = "stopAttempt parse E rest (a + 1)"
    have le: "a + 1 \<le> ?n" using stopAttempt_spec [of "a + 1" parse E rest] by simp
    have "made E a ?n = a # made E (a + 1) ?n" "announced parse E (Suc rest) a ?n = a # announced parse E rest (a + 1) ?n"
      using le by (auto simp: made_def announced_def upt_conv_Cons)
    then show ?thesis using Suc.IH [OF Suc.prems [unfolded completeLoop_retry [OF True]]] True
      by (auto simp: recordAttempt_fields usageOfAttempts_def)
  next
    case False
    then show ?thesis using Suc.prems
      by (auto simp: completeLoop_stop recordAttempt_fields usageOfAttempts_def made_self announced_self failsRetryably_made split: option.splits if_splits)
  qed
qed

subsection \<open>Properties\<close>

lemma attemptsOf_pos: "1 \<le> attemptsOf p"
  by (simp add: attemptsOf_def Let_def)

lemma stop_bounds:
  "1 \<le> stopAttempt parse E (nat (attemptsOf p - 1)) 1 \<and> stopAttempt parse E (nat (attemptsOf p - 1)) 1 \<le> nat (attemptsOf p)"
  using stopAttempt_spec [of 1 parse E "nat (attemptsOf p - 1)"] attemptsOf_pos [of p] by auto

lemma failed_silent:
  "rContent (failedResponse r) = [] \<and> rToolCalls (failedResponse r) = [] \<and> rReasoningContent (failedResponse r) = [] \<and>
   rWebSearchCalls (failedResponse r) = []"
  by (simp add: failedResponse_def noResponse_def)

lemma Complete_loop:
  assumes "rpInner p"
  obtains resp err st where "completeLoop parse p E (attemptsOf p) (nat (attemptsOf p - 1)) 1 startState = (resp, err, st)"
    "Complete parse p E = \<lparr>crResponse = (case err of Some _ \<Rightarrow> failedResponse (csLast st) | None \<Rightarrow> resp)\<lparr>rAccountingUsage := Some (csUsage st)\<rparr>,
       crErr = err, crStats = (if rpObserver p then [statOf err st] else []), crNotices = csNotices st\<rparr>"
  using assms by (cases "completeLoop parse p E (attemptsOf p) (nat (attemptsOf p - 1)) 1 startState") (auto simp: Complete_def Let_def)

text \<open>A call in closed form: attempts are made until one does not lead to another, at most as many as configured; the answer
  or the error is that of this attempt, an answer carries the tokens of all attempts made, and an error comes with
  no text and no calls but with the tokens too.\<close>

theorem Complete_outcome:
  fixes parse :: "string \<Rightarrow> raw_message" and E :: provider_env and p :: ResilientProvider
  assumes "rpInner p"
  defines "N \<equiv> nat (attemptsOf p)"
  defines "n \<equiv> stopAttempt parse E (N - 1) 1" and "r \<equiv> Complete parse p E"
  shows "1 \<le> n \<and> n \<le> N \<and> (\<forall>k. 1 \<le> k \<and> k < n \<longrightarrow> retries parse E k) \<and>
    crErr r = errorAt parse E (attemptsOf p) (n = N) n \<and>
    rAccountingUsage (crResponse r) = Some (usageOfAttempts E noUsage (made E 1 n)) \<and>
    (if crErr r = None then crResponse r = (fst (inner E n))\<lparr>rAccountingUsage := Some (usageOfAttempts E noUsage [1..<Suc n])\<rparr>
     else rContent (crResponse r) = [] \<and> rToolCalls (crResponse r) = [] \<and> rReasoningContent (crResponse r) = [])"
proof -
  have N: "nat (attemptsOf p - 1) = N - 1" "1 + (N - 1) = N" using attemptsOf_pos [of p] by (auto simp: N_def)
  obtain resp err st where l: "completeLoop parse p E (attemptsOf p) (N - 1) 1 startState = (resp, err, st)"
    and r: "r = \<lparr>crResponse = (case err of Some _ \<Rightarrow> failedResponse (csLast st) | None \<Rightarrow> resp)\<lparr>rAccountingUsage := Some (csUsage st)\<rparr>,
       crErr = err, crStats = (if rpObserver p then [statOf err st] else []), crNotices = csNotices st\<rparr>"
    using Complete_loop [OF assms(1), of parse E] unfolding r_def N(1) by metis
  note c = completeLoop_closed [OF l, folded n_def, unfolded N(2)]
  have m: "made E 1 n = [1..<Suc n]" if "errorAt parse E (attemptsOf p) (n = N) n = None"
    using that by (auto simp: made_def errorAt_def split: option.splits)
  show ?thesis using stopAttempt_spec [of 1 parse E "N - 1", folded n_def, unfolded N(2)] c failed_silent [of "csLast st"] m
    by (auto simp: r startState_def split: option.splits)
qed

theorem Complete_outcome_witness:
  "crErr (Complete demoParse flakyProvider flakyEnv) = None \<and>
   rAccountingUsage (crResponse (Complete demoParse flakyProvider flakyEnv)) = Some (noUsage\<lparr>uPromptTokens := 11\<rparr>)"
proof -
  have s: "rpInner flakyProvider" "attemptsOf flakyProvider = 4" "stopAttempt demoParse flakyEnv 3 1 = 3" "nat 4 - 1 = 3"
    "errorAt demoParse flakyEnv 4 (3 = nat 4) 3 = None" "usageOfAttempts flakyEnv noUsage (made flakyEnv 1 3) = noUsage\<lparr>uPromptTokens := 11\<rparr>"
    by code_simp+
  let ?n = "stopAttempt demoParse flakyEnv (nat (attemptsOf flakyProvider) - 1) 1" and ?r = "Complete demoParse flakyProvider flakyEnv"
  have "crErr ?r = errorAt demoParse flakyEnv (attemptsOf flakyProvider) (?n = nat (attemptsOf flakyProvider)) ?n \<and>
      rAccountingUsage (crResponse ?r) = Some (usageOfAttempts flakyEnv noUsage (made flakyEnv 1 ?n))"
    using Complete_outcome [OF s(1), of demoParse flakyEnv] by blast
  then show ?thesis unfolding s(2-6) by simp
qed

text \<open>C28. A call succeeds exactly when one of its attempts does and every earlier one fails in a way worth a retry while the
  caller still waits: no usable answer is thrown away, and none is invented.\<close>

theorem Complete_success_iff:
  assumes "rpInner p"
  shows "crErr (Complete parse p E) = None \<longleftrightarrow>
    (\<exists>n. 1 \<le> n \<and> n \<le> nat (attemptsOf p) \<and> ctxBefore E n = None \<and> answerError parse (inner E n) = None \<and>
       (\<forall>k. 1 \<le> k \<and> k < n \<longrightarrow> retries parse E k))"
proof -
  let ?N = "nat (attemptsOf p)" and ?n = "stopAttempt parse E (nat (attemptsOf p) - 1) 1"
  have N: "nat (attemptsOf p - 1) = ?N - 1" "1 + (?N - 1) = ?N" using attemptsOf_pos [of p] by auto
  note spec = stopAttempt_spec [of 1 parse E "?N - 1", unfolded N(2)]
  obtain resp err st where l: "completeLoop parse p E (attemptsOf p) (?N - 1) 1 startState = (resp, err, st)"
    and e: "crErr (Complete parse p E) = err" using Complete_loop [OF assms, of parse E] unfolding N(1) by (metis call_result.select_convs(2))
  have err: "crErr (Complete parse p E) = errorAt parse E (attemptsOf p) (?n = ?N) ?n"
    using completeLoop_closed [OF l, unfolded N(2)] e by simp
  have stop: "?n = m" if "1 \<le> m" "m \<le> ?N" "answerError parse (inner E m) = None" "\<forall>k. 1 \<le> k \<and> k < m \<longrightarrow> retries parse E k" for m
  proof (rule ccontr)
    assume "?n \<noteq> m"
    moreover have "\<not> retries parse E m" using that(3) by (simp add: retries_def failsRetryably_def)
    ultimately show False using spec that(1,2,4) by (metis linorder_neqE_nat order_less_le_trans)
  qed
  show ?thesis
  proof
    assume "crErr (Complete parse p E) = None"
    then have "ctxBefore E ?n = None \<and> answerError parse (inner E ?n) = None"
      using err spec by (auto simp: errorAt_def retries_def failsRetryably_def split: option.splits if_splits)
    then show "\<exists>n. 1 \<le> n \<and> n \<le> ?N \<and> ctxBefore E n = None \<and> answerError parse (inner E n) = None \<and> (\<forall>k. 1 \<le> k \<and> k < n \<longrightarrow> retries parse E k)"
      using spec by blast
  next
    assume "\<exists>n. 1 \<le> n \<and> n \<le> ?N \<and> ctxBefore E n = None \<and> answerError parse (inner E n) = None \<and> (\<forall>k. 1 \<le> k \<and> k < n \<longrightarrow> retries parse E k)"
    then obtain m where m: "1 \<le> m" "m \<le> ?N" "ctxBefore E m = None" "answerError parse (inner E m) = None" "\<forall>k. 1 \<le> k \<and> k < m \<longrightarrow> retries parse E k"
      by blast
    then show "crErr (Complete parse p E) = None" unfolding err stop [OF m(1,2,4,5)] by (simp add: errorAt_def)
  qed
qed

theorem Complete_success_iff_witness: "crErr (Complete demoParse flakyProvider flakyEnv) = None"
proof -
  have s: "rpInner flakyProvider" "attemptsOf flakyProvider = 4" "ctxBefore flakyEnv 3 = None" "answerError demoParse (inner flakyEnv 3) = None"
    "retries demoParse flakyEnv 1" "retries demoParse flakyEnv 2" by code_simp+
  have "retries demoParse flakyEnv k" if "1 \<le> k \<and> k < 3" for k
    using that s(5,6) by (cases "k = 1") (auto simp: numeral_2_eq_2 le_less_Suc_eq numeral_3_eq_3 less_Suc_eq)
  then have "\<exists>n. 1 \<le> n \<and> n \<le> nat (attemptsOf flakyProvider) \<and> ctxBefore flakyEnv n = None \<and> answerError demoParse (inner flakyEnv n) = None \<and>
      (\<forall>k. 1 \<le> k \<and> k < n \<longrightarrow> retries demoParse flakyEnv k)" using s(2-4) by (intro exI [of _ 3]) auto
  then show ?thesis using Complete_success_iff [OF s(1)] by blast
qed

text \<open>Waiting: a retry is announced only after an error worth one, at most one less than there are attempts; the delay respects the
  provider's wish and otherwise doubles from the base up to the limit, within a factor of two, whatever 64-bit
  arithmetic does to the doubling.\<close>

theorem retry_delays:
  assumes "rpInner p" "0 < rpBackoff p" "rpBackoff p < 2 ^ 63" "0 < rpMaxBackoff p" "rpMaxBackoff p < 2 ^ 63"
    "\<forall>k. \<forall>b > 0. 0 \<le> rand E k b \<and> rand E k b < b" "info \<in> set (crNotices (Complete parse p E))"
  shows "1 \<le> riAttempt info \<and> int (riAttempt info) < attemptsOf p \<and> isRetryable (riErr info) \<and>
    (let d = min (rpMaxBackoff p) (rpBackoff p * 2 ^ (riAttempt info - 1))
     in max (d div 2) (providerRetryDelay (riErr info)) \<le> riDelay info \<and> riDelay info \<le> max d (providerRetryDelay (riErr info)))"
proof -
  let ?N = "nat (attemptsOf p)" and ?n = "stopAttempt parse E (nat (attemptsOf p) - 1) 1"
  have N: "nat (attemptsOf p - 1) = ?N - 1" "1 + (?N - 1) = ?N" using attemptsOf_pos [of p] by auto
  note spec = stopAttempt_spec [of 1 parse E "?N - 1", unfolded N(2)]
  obtain resp err st where l: "completeLoop parse p E (attemptsOf p) (?N - 1) 1 startState = (resp, err, st)"
    and nt: "crNotices (Complete parse p E) = csNotices st"
    using Complete_loop [OF assms(1), of parse E] unfolding N(1) by (metis call_result.select_convs(4))
  obtain k where k: "k \<in> set (announced parse E (?N - 1) 1 ?n)" "info = noticeOf parse p E (attemptsOf p) k"
    using assms(7) completeLoop_closed [OF l] unfolding nt by (auto simp: startState_def)
  have b: "1 \<le> k" "k < ?N" using k(1) spec N(2) by (auto simp: announced_def split: if_splits)
  have "failsRetryably parse E k"
  proof (cases "k < ?n")
    case True
    then show ?thesis using spec b(1) by (auto simp: retries_def)
  next
    case False
    then have "failsRetryably parse E ?n \<and> k = ?n" using k(1) by (auto simp: announced_def split: if_splits)
    then show ?thesis by blast
  qed
  then obtain e where e: "answerError parse (inner E k) = Some e" "isRetryable e" by (auto simp: failsRetryably_def split: option.splits)
  have i: "riAttempt info = k" "riErr info = e" "riDelay info = max (backoffFor p (rand E k) k) (providerRetryDelay e)"
    by (simp_all add: k(2) noticeOf_def retryNotice_def e(1))
  have "min (rpMaxBackoff p) (rpBackoff p * 2 ^ (k - 1)) div 2 \<le> backoffFor p (rand E k) k \<and>
      backoffFor p (rand E k) k \<le> min (rpMaxBackoff p) (rpBackoff p * 2 ^ (k - 1))"
    using backoffFor_bounds [OF assms(2-5), of "rand E k" k] assms(6) by (auto simp: Let_def)
  then show ?thesis unfolding i Let_def using b e(2) by auto
qed

theorem retry_delays_witness:
  "\<exists>info \<in> set (crNotices (Complete demoParse flakyProvider flakyEnv)). 9 \<le> riDelay info \<and> riDelay info \<le> 9"
proof -
  have n: "map (\<lambda>i. (riAttempt i, riErr i)) (crNotices (Complete demoParse flakyProvider flakyEnv)) =
      [(1, the (snd busyAnswer)), (2, the (snd busyAnswer))]" "providerRetryDelay (the (snd busyAnswer)) = 9"
    by code_simp+
  then have "(2, the (snd busyAnswer)) \<in> set (map (\<lambda>i. (riAttempt i, riErr i)) (crNotices (Complete demoParse flakyProvider flakyEnv)))"
    by simp
  then obtain i where i: "i \<in> set (crNotices (Complete demoParse flakyProvider flakyEnv))" "riAttempt i = 2" "riErr i = the (snd busyAnswer)"
    by auto
  have "rpInner flakyProvider" "rpBackoff flakyProvider = 4" "rpMaxBackoff flakyProvider = 6" "rand flakyEnv = (\<lambda>_ b. b - 1)"
    by (simp_all add: flakyProvider_def flakyEnv_def)
  then show ?thesis using retry_delays [of flakyProvider flakyEnv i demoParse] i n(2) by (intro bexI [of _ i]) auto
qed

text \<open>Streaming: the stream is tried once; a usable stream is the answer; a caller that gave up, an exhausted allowance or a rejected
  asset ends the call; otherwise the retrying call answers, and its tokens are added to those the stream used.\<close>

theorem CompleteStream_accounting:
  assumes "rpInner p" "rpStreams p"
  shows "case answerError parse (stream E) of
      None \<Rightarrow> crErr (CompleteStream parse p E) = None \<and> crResponse (CompleteStream parse p E) = fst (stream E)
    | Some e \<Rightarrow>
        if streamCtx E \<noteq> None \<or> isQuotaExceeded e \<or> isUserAssetError e \<or> (0 < providerRetryDelay e \<and> streamWait E \<noteq> None)
        then crErr (CompleteStream parse p E) \<noteq> None \<and> AccountingUsage (crResponse (CompleteStream parse p E)) = AccountingUsage (fst (stream E)) \<and>
             rContent (crResponse (CompleteStream parse p E)) = [] \<and> rToolCalls (crResponse (CompleteStream parse p E)) = []
        else crErr (CompleteStream parse p E) = crErr (Complete parse p E) \<and>
             AccountingUsage (crResponse (CompleteStream parse p E)) =
               addUsage (AccountingUsage (fst (stream E))) (AccountingUsage (crResponse (Complete parse p E)))"
  using assms failed_silent [of "fst (stream E)"]
  by (auto simp: CompleteStream_def Let_def AccountingUsage_def failedResponse_def split: option.splits)

theorem CompleteStream_accounting_witness:
  "AccountingUsage (crResponse (CompleteStream demoParse flakyProvider flakyEnv)) =
     addUsage (noUsage\<lparr>uPromptTokens := 3\<rparr>) (AccountingUsage (crResponse (Complete demoParse flakyProvider flakyEnv)))"
proof -
  have s: "rpInner flakyProvider" "rpStreams flakyProvider" "answerError demoParse (stream flakyEnv) = snd busyAnswer" "streamCtx flakyEnv = None"
    "streamWait flakyEnv = None" "\<not> isQuotaExceeded (the (snd busyAnswer))" "\<not> isUserAssetError (the (snd busyAnswer))"
    "AccountingUsage (fst (stream flakyEnv)) = noUsage\<lparr>uPromptTokens := 3\<rparr>" by code_simp+
  have b: "snd busyAnswer = Some (the (snd busyAnswer))" by (simp add: busyAnswer_def)
  show ?thesis using CompleteStream_accounting [OF s(1,2), of demoParse flakyEnv, unfolded s(3)] s(4-8) by (subst (asm) b) simp
qed

text \<open>A call that is cancelled before its first attempt reports zero attempts.\<close>

theorem cancelled_call_zero_attempts:
  "map stAttempts (crStats (Complete demoParse flakyProvider (flakyEnv\<lparr>ctxBefore := (\<lambda>_. Some [Canceled])\<rparr>))) = [0]"
  by code_simp

end
