(* ===== verification/Reference.thy ===== *)
theory Reference
  imports Session "HOL-Library.AList" "HOL-Library.Char_ord" "HOL-Library.List_Lexorder"
begin

section \<open>The reference ledger\<close>

text \<open>
  \<^verbatim>\<open>internal/reference/ledger.go\<close>: opaque values that a tool result marks are kept in a ledger of the session, the model sees
  handles instead, and handles in later arguments are replaced by the values just before the call.

  A document is a parsed JSON value; what \<^verbatim>\<open>json.Unmarshal\<close> makes of it (\<open>anyValue\<close>) keeps the last of several equal keys
  and writes numbers the way a 64-bit float prints, which is the parameter \<open>floatText\<close>.  \<open>None\<close> is text that is not
  JSON.  The parser of times is a parameter; a time is a number, zero the zero time.  Go ranges over a
  map in any order, here in the order of the list; it decides only which of several errors is reported.
\<close>

subsection \<open>Values and pointers\<close>

definition lastWins :: "(string \<times> json) list \<Rightarrow> (string \<times> json) list" where
  "lastWins kvs = foldl (\<lambda>m kv. AList.update (fst kv) (snd kv) m) [] kvs"

fun anyValue :: "(string \<Rightarrow> string) \<Rightarrow> json \<Rightarrow> json"
  and anyValues :: "(string \<Rightarrow> string) \<Rightarrow> json list \<Rightarrow> json list"
  and anyFields :: "(string \<Rightarrow> string) \<Rightarrow> (string \<times> json) list \<Rightarrow> (string \<times> json) list" where
  "anyValue ft (JNumber t) = JNumber (ft t)"
| "anyValue ft (JArray xs) = JArray (anyValues ft xs)"
| "anyValue ft (JObject kvs) = JObject (lastWins (anyFields ft kvs))"
| "anyValue ft JNull = JNull"
| "anyValue ft (JBool b) = JBool b"
| "anyValue ft (JString s) = JString s"
| "anyValues ft [] = []"
| "anyValues ft (x # xs) = anyValue ft x # anyValues ft xs"
| "anyFields ft [] = []"
| "anyFields ft ((k, v) # kvs) = (k, anyValue ft v) # anyFields ft kvs"

text \<open>\<open>fmt.Sscanf\<close> with \<^verbatim>\<open>%d\<close>: space is skipped, but not a newline; then a sign and digits; what follows is ignored.\<close>

function skipScanSpace :: "string \<Rightarrow> string option" where
  "skipScanSpace s =
     (if HasPrefix s [NL] then None
      else
        (case find (HasPrefix s) spaceRunes of
           Some w \<Rightarrow> if w = [] then Some s else skipScanSpace (drop (length w) s)
         | None \<Rightarrow> Some s))"
  by auto
termination
  by (relation "measure length") (auto simp: HasPrefix_iff prefix_def dest!: find_Some_iff [THEN iffD1])

declare skipScanSpace.simps [simp del]

definition scanIndex :: "string \<Rightarrow> int option" where
  "scanIndex token =
     (case skipScanSpace token of
        None \<Rightarrow> None
      | Some s \<Rightarrow>
          (let neg = HasPrefix s ''-'';
               r = (if HasPrefix s ''-'' \<or> HasPrefix s ''+'' then tl s else s);
               ds = takeWhile (byteIn 0x30 0x39) r;
               n = foldl (\<lambda>n c. 10 * n + (int (of_char c) - 0x30)) 0 ds;
               i = (if neg then - n else n)
           in if ds = [] then None else if - (2 ^ 63) \<le> i \<and> i < 2 ^ 63 then Some i else None))"

definition unescapeToken :: "string \<Rightarrow> string" where
  "unescapeToken t = ReplaceAll (ReplaceAll t ''~1'' ''/'') ''~0'' ''~''"

definition pointerTokens :: "string \<Rightarrow> string list" where
  "pointerTokens pointer = map unescapeToken (SplitByte (CHR ''/'') (tl pointer))"

definition child :: "json \<Rightarrow> string \<Rightarrow> json option" where
  "child node token =
     (case node of
        JObject kvs \<Rightarrow> map_of kvs token
      | JArray xs \<Rightarrow>
          (case scanIndex token of
             None \<Rightarrow> None
           | Some i \<Rightarrow> if i < 0 \<or> i \<ge> int (length xs) then None else Some (xs ! nat i))
      | _ \<Rightarrow> None)"

fun getTokens :: "json \<Rightarrow> string list \<Rightarrow> json option" where
  "getTokens cur [] = Some cur"
| "getTokens cur (t # ts) = (case child cur t of None \<Rightarrow> None | Some c \<Rightarrow> getTokens c ts)"

definition getPointer :: "json \<Rightarrow> string \<Rightarrow> json option" where
  "getPointer document pointer =
     (if pointer = [] then Some document
      else if \<not> HasPrefix pointer ''/'' then None
      else getTokens document (pointerTokens pointer))"

definition getString :: "json \<Rightarrow> string \<Rightarrow> string option" where
  "getString document pointer = (case getPointer document pointer of Some (JString s) \<Rightarrow> Some s | _ \<Rightarrow> None)"

definition withChild :: "json \<Rightarrow> string \<Rightarrow> json \<Rightarrow> json" where
  "withChild node token c =
     (case node of
        JObject kvs \<Rightarrow> JObject (AList.update token c kvs)
      | JArray xs \<Rightarrow> (case scanIndex token of None \<Rightarrow> node | Some i \<Rightarrow> JArray (xs[nat i := c]))
      | _ \<Rightarrow> node)"

fun setTokens :: "json \<Rightarrow> string list \<Rightarrow> json \<Rightarrow> json option" where
  "setTokens cur [] v = None"
| "setTokens cur (t # ts) v =
     (case child cur t of
        None \<Rightarrow> None
      | Some c \<Rightarrow>
          if ts = [] then Some (withChild cur t v)
          else map_option (withChild cur t) (setTokens c ts v))"

definition setPointer :: "json \<Rightarrow> string \<Rightarrow> json \<Rightarrow> json option" where
  "setPointer document pointer v =
     (if pointer = [] \<or> \<not> HasPrefix pointer ''/'' then None else setTokens document (pointerTokens pointer) v)"

subsection \<open>Descriptors and rules\<close>

record Descriptor =
  dePointer :: string
  deKind :: string
  deExpiresAt :: string
  deScope :: string

record InputRule =
  irPointer :: string
  irKind :: string
  irMode :: string

definition decodeDescriptor :: "unicode_tables \<Rightarrow> json \<Rightarrow> Descriptor option" where
  "decodeDescriptor U j =
     (case unmarshalString U ''pointer'' (Some j) of None \<Rightarrow> None | Some p \<Rightarrow>
      (case unmarshalString U ''kind'' (Some j) of None \<Rightarrow> None | Some k \<Rightarrow>
       (case unmarshalString U ''expiresAt'' (Some j) of None \<Rightarrow> None | Some e \<Rightarrow>
        (case unmarshalString U ''scope'' (Some j) of None \<Rightarrow> None | Some s \<Rightarrow>
           Some \<lparr>dePointer = p, deKind = k, deExpiresAt = e, deScope = s\<rparr>))))"

text \<open>Encoding a map sorts its keys.\<close>

definition sortedKeys :: "json \<Rightarrow> json" where
  "sortedKeys j = (case j of JObject kvs \<Rightarrow> JObject (sort_key fst kvs) | _ \<Rightarrow> j)"

definition decodeDescriptors :: "unicode_tables \<Rightarrow> json \<Rightarrow> Descriptor list option" where
  "decodeDescriptors U j =
     (case j of
        JArray xs \<Rightarrow>
          (let ds = map (\<lambda>x. decodeDescriptor U (sortedKeys x)) xs in if None \<in> set ds then None else Some (map the ds))
      | _ \<Rightarrow> None)"

text \<open>The rules are decoded without looking at the error.\<close>

definition looseRule :: "unicode_tables \<Rightarrow> json \<Rightarrow> InputRule" where
  "looseRule U j =
     \<lparr>irPointer = looseString U ''pointer'' (Some j), irKind = looseString U ''kind'' (Some j), irMode = looseString U ''mode'' (Some j)\<rparr>"

definition inputRules :: "unicode_tables \<Rightarrow> raw_message \<Rightarrow> InputRule list" where
  "inputRules U schema =
     (case schema of
        Some (JObject kvs) \<Rightarrow>
          (case map_of (lastWins kvs) ''x-codeagent-reference-inputs'' of
             Some (JArray xs) \<Rightarrow> map (looseRule U) xs
           | _ \<Rightarrow> [])
      | _ \<Rightarrow> [])"

subsection \<open>Registering\<close>

definition handlePrefix :: string where "handlePrefix = ''$ref:''"

definition pad4 :: "string \<Rightarrow> string" where
  "pad4 s = replicate (4 - length s) (CHR ''0'') @ s"

definition handleName :: "nat \<Rightarrow> string" where
  "handleName n = ''ref_'' @ pad4 (natString n)"

definition nextHandle :: "LedgerEntry list \<Rightarrow> nat" where
  "nextHandle entries = length entries + 1"

definition parseExpiry :: "(string \<Rightarrow> int option) \<Rightarrow> string \<Rightarrow> int option" where
  "parseExpiry parseTime raw = (if raw = [] then Some 0 else parseTime raw)"

definition scopeOrSession :: "string \<Rightarrow> string" where
  "scopeOrSession scope = (if scope = [] then ''session'' else scope)"

type_synonym ledger = "LedgerEntry list \<times> (string \<times> string) list"

definition registerOne ::
  "(string \<Rightarrow> int option) \<Rightarrow> json \<Rightarrow> string \<Rightarrow> string \<Rightarrow> int \<Rightarrow> Descriptor \<Rightarrow> nat \<times> ledger \<Rightarrow> nat \<times> ledger" where
  "registerOne parseTime document sessionID callID now d acc =
     (case acc of (nxt, entries, subs) \<Rightarrow>
        if dePointer d = [] \<or> deKind d = [] then acc
        else
          (case getString document (dePointer d) of
             None \<Rightarrow> acc
           | Some value \<Rightarrow>
               if value = [] then acc
               else
                 (let expiresAt = (case parseExpiry parseTime (deExpiresAt d) of Some t \<Rightarrow> t | None \<Rightarrow> 0);
                      e = \<lparr>leHandle = handleName nxt, leRawValue = value, leKind = deKind d, leProducerCallID = callID,
                           leSessionID = sessionID, leCreatedAt = now, leExpiresAt = expiresAt, leScope = scopeOrSession (deScope d)\<rparr>
                  in (nxt + 1, entries @ [e], AList.update value (handlePrefix @ handleName nxt) subs))))"

definition Register ::
  "unicode_tables \<Rightarrow> (string \<Rightarrow> string) \<Rightarrow> (string \<Rightarrow> int option) \<Rightarrow> raw_message \<Rightarrow> LedgerEntry list \<Rightarrow> string \<Rightarrow> string \<Rightarrow> int \<Rightarrow>
   LedgerEntry list \<times> (string \<times> string) list option" where
  "Register U ft parseTime raw existing sessionID callID now =
     (case map_option (anyValue ft) raw of
        Some (JObject kvs) \<Rightarrow>
          (case map_of kvs ''references'' of
             None \<Rightarrow> (existing, None)
           | Some refs \<Rightarrow>
               (case decodeDescriptors U refs of
                  None \<Rightarrow> (existing, None)
                | Some ds \<Rightarrow>
                    (let (nxt, entries, subs) =
                           fold (registerOne parseTime (JObject kvs) sessionID callID now) ds (nextHandle existing, existing, [])
                     in if subs = [] then (existing, None) else (entries, Some subs))))
      | _ \<Rightarrow> (existing, None))"

subsection \<open>Resolving\<close>

record HandleHint =
  hhHandle :: string
  hhKind :: string
  hhExpiresAt :: int          \<comment> \<open>zero: no such field\<close>

datatype ref_error =
    InvalidToolArgs
  | InvalidRulePointer string
  | RefError string string string string string "HandleHint list"   \<comment> \<open>code, handle, pointer, kind, message, available\<close>

definition expired :: "int \<Rightarrow> LedgerEntry \<Rightarrow> bool" where
  "expired now e = (leExpiresAt e \<noteq> 0 \<and> \<not> now < leExpiresAt e)"

definition availableHandles :: "LedgerEntry list \<Rightarrow> string \<Rightarrow> int \<Rightarrow> string \<Rightarrow> HandleHint list" where
  "availableHandles entries sessionID now kind =
     map (\<lambda>e. \<lparr>hhHandle = handlePrefix @ leHandle e, hhKind = leKind e, hhExpiresAt = leExpiresAt e\<rparr>)
       (filter (\<lambda>e. \<not> (leSessionID e \<noteq> sessionID \<or> expired now e) \<and> \<not> (kind \<noteq> [] \<and> leKind e \<noteq> kind)) entries)"

definition referenceError ::
  "string \<Rightarrow> string \<Rightarrow> string \<Rightarrow> string \<Rightarrow> string \<Rightarrow> LedgerEntry list \<Rightarrow> string \<Rightarrow> int \<Rightarrow> ref_error" where
  "referenceError code handle pointer kind detail entries sessionID now =
     (let hints = availableHandles entries sessionID now kind;
          detail' = (if kind \<noteq> [] \<and> hints = [] \<and> detail \<noteq> []
                     then detail @ ''; no active '' @ kind @ '' handles are available; obtain one from a prior tool result''
                     else detail)
      in RefError code handle pointer kind detail' hints)"

definition resolveString ::
  "LedgerEntry list \<Rightarrow> string \<Rightarrow> int \<Rightarrow> string \<Rightarrow> string \<Rightarrow> string \<Rightarrow> ref_error + string" where
  "resolveString entries sessionID now expectedKind pointer v =
     (if \<not> HasPrefix v handlePrefix then Inr v
      else
        (let handle = drop (length handlePrefix) v in
         case find (\<lambda>e. leHandle e = handle) entries of
           None \<Rightarrow> Inl (referenceError ''reference_not_found'' handle pointer expectedKind [] entries sessionID now)
         | Some e \<Rightarrow>
             if leSessionID e \<noteq> sessionID then Inl (RefError ''reference_scope_denied'' handle [] [] [] [])
             else if expired now e then Inl (RefError ''reference_expired'' handle [] [] [] [])
             else if expectedKind \<noteq> [] \<and> leKind e \<noteq> expectedKind
             then Inl (referenceError ''reference_kind_mismatch'' handle pointer expectedKind
                    (''expected '' @ expectedKind @ '', got '' @ leKind e) entries sessionID now)
             else Inr (leRawValue e)))"

fun resolveValue :: "LedgerEntry list \<Rightarrow> string \<Rightarrow> int \<Rightarrow> json \<Rightarrow> ref_error + json"
  and resolveValues :: "LedgerEntry list \<Rightarrow> string \<Rightarrow> int \<Rightarrow> json list \<Rightarrow> ref_error + json list"
  and resolveFields :: "LedgerEntry list \<Rightarrow> string \<Rightarrow> int \<Rightarrow> (string \<times> json) list \<Rightarrow> ref_error + (string \<times> json) list" where
  "resolveValue es i now (JString v) = (case resolveString es i now [] [] v of Inl e \<Rightarrow> Inl e | Inr s \<Rightarrow> Inr (JString s))"
| "resolveValue es i now (JObject kvs) = (case resolveFields es i now kvs of Inl e \<Rightarrow> Inl e | Inr fs \<Rightarrow> Inr (JObject fs))"
| "resolveValue es i now (JArray xs) = (case resolveValues es i now xs of Inl e \<Rightarrow> Inl e | Inr ys \<Rightarrow> Inr (JArray ys))"
| "resolveValue es i now JNull = Inr JNull"
| "resolveValue es i now (JBool b) = Inr (JBool b)"
| "resolveValue es i now (JNumber t) = Inr (JNumber t)"
| "resolveValues es i now [] = Inr []"
| "resolveValues es i now (x # xs) =
     (case resolveValue es i now x of Inl e \<Rightarrow> Inl e | Inr y \<Rightarrow>
      (case resolveValues es i now xs of Inl e \<Rightarrow> Inl e | Inr ys \<Rightarrow> Inr (y # ys)))"
| "resolveFields es i now [] = Inr []"
| "resolveFields es i now ((k, x) # kvs) =
     (case resolveValue es i now x of Inl e \<Rightarrow> Inl e | Inr y \<Rightarrow>
      (case resolveFields es i now kvs of Inl e \<Rightarrow> Inl e | Inr ys \<Rightarrow> Inr ((k, y) # ys)))"

definition applyRule :: "LedgerEntry list \<Rightarrow> string \<Rightarrow> int \<Rightarrow> InputRule \<Rightarrow> json \<Rightarrow> ref_error + json" where
  "applyRule entries sessionID now rule value =
     (if irMode rule \<noteq> ''handle_only'' then Inr value
      else
        (case getPointer value (irPointer rule) of
           None \<Rightarrow> Inr value
         | Some candidate \<Rightarrow>
             (case candidate of
                JString s \<Rightarrow>
                  if \<not> HasPrefix s handlePrefix
                  then Inl (referenceError ''reference_handle_required'' [] (irPointer rule) (irKind rule)
                         (''field '' @ irPointer rule @ '' requires a $ref handle'') entries sessionID now)
                  else
                    (case resolveString entries sessionID now (irKind rule) (irPointer rule) s of
                       Inl e \<Rightarrow> Inl e
                     | Inr resolved \<Rightarrow>
                         (case setPointer value (irPointer rule) (JString resolved) of
                            None \<Rightarrow> Inl (InvalidRulePointer (irPointer rule))
                          | Some value' \<Rightarrow> Inr value'))
              | _ \<Rightarrow> Inl (referenceError ''reference_handle_required'' [] (irPointer rule) (irKind rule)
                      (''field '' @ irPointer rule @ '' requires a $ref handle'') entries sessionID now))))"

fun applyRules :: "LedgerEntry list \<Rightarrow> string \<Rightarrow> int \<Rightarrow> InputRule list \<Rightarrow> json \<Rightarrow> ref_error + json" where
  "applyRules es i now [] value = Inr value"
| "applyRules es i now (r # rs) value = (case applyRule es i now r value of Inl e \<Rightarrow> Inl e | Inr v \<Rightarrow> applyRules es i now rs v)"

text \<open>The argument is \<open>None\<close> when it is empty, and \<open>Some None\<close> when it is not JSON.\<close>

definition ResolveInput ::
  "unicode_tables \<Rightarrow> (string \<Rightarrow> string) \<Rightarrow> raw_message option \<Rightarrow> raw_message \<Rightarrow> LedgerEntry list \<Rightarrow> string \<Rightarrow> int \<Rightarrow> ref_error + json" where
  "ResolveInput U ft raw schema entries sessionID now =
     (case (case raw of None \<Rightarrow> Some (JObject []) | Some r \<Rightarrow> map_option (anyValue ft) r) of
        None \<Rightarrow> Inl InvalidToolArgs
      | Some value \<Rightarrow>
          (case applyRules entries sessionID now (inputRules U schema) value of
             Inl e \<Rightarrow> Inl e
           | Inr v \<Rightarrow> resolveValue entries sessionID now v))"

subsection \<open>Vocabulary\<close>

text \<open>\<open>wfLedger\<close>: entry \<open>i\<close> has handle \<open>i + 1\<close>.  \<open>live\<close>: usable by the session now.  \<open>stringsOf\<close>: the strings of a value.\<close>

definition wfLedger :: "LedgerEntry list \<Rightarrow> bool" where
  "wfLedger es = list_all (\<lambda>i. leHandle (es ! i) = handleName (Suc i)) [0..<length es]"

definition live :: "string \<Rightarrow> int \<Rightarrow> LedgerEntry \<Rightarrow> bool" where
  "live sessionID now e = (leSessionID e = sessionID \<and> \<not> expired now e)"

fun stringsOf :: "json \<Rightarrow> string set" where
  "stringsOf (JString s) = {s}"
| "stringsOf (JArray xs) = \<Union> (set (map stringsOf xs))"
| "stringsOf (JObject kvs) = \<Union> (set (map (\<lambda>kv. stringsOf (snd kv)) kvs))"
| "stringsOf _ = {}"

definition inputValue :: "(string \<Rightarrow> string) \<Rightarrow> raw_message option \<Rightarrow> json option" where
  "inputValue ft raw = (case raw of None \<Rightarrow> Some (JObject []) | Some r \<Rightarrow> map_option (anyValue ft) r)"

definition digitsValue :: "string \<Rightarrow> nat" where
  "digitsValue s = foldl (\<lambda>n c. 10 * n + (of_char c - 48)) 0 s"

definition knownStrings :: "LedgerEntry list \<Rightarrow> string \<Rightarrow> int \<Rightarrow> string set \<Rightarrow> string set" where
  "knownStrings es i now S = {s \<in> S. \<not> HasPrefix s handlePrefix} \<union> leRawValue ` {e \<in> set es. live i now e}"

text \<open>The state while the descriptors of one result are registered.\<close>

definition registered :: "LedgerEntry list \<Rightarrow> string \<Rightarrow> nat \<times> ledger \<Rightarrow> bool" where
  "registered existing i acc = (case acc of (nxt, entries, subs) \<Rightarrow>
     nxt = nextHandle entries \<and> wfLedger entries \<and> prefix existing entries \<and>
     (\<forall>v h. map_of subs v = Some h \<longrightarrow>
        (\<exists>e \<in> set (drop (length existing) entries). leRawValue e = v \<and> leSessionID e = i \<and> h = handlePrefix @ leHandle e)))"

text \<open>Instances.\<close>

definition demoResult :: json where
  "demoResult = JObject [(''id'', JString ''secret''), (''references'', JArray [JObject [(''pointer'', JString ''/id''), (''kind'', JString ''doc'')]])]"

definition demoSchema :: json where
  "demoSchema = JObject [(''x-codeagent-reference-inputs'',
     JArray [JObject [(''pointer'', JString ''/id''), (''kind'', JString ''doc''), (''mode'', JString ''handle_only'')]])]"

definition demoEntry :: "nat \<Rightarrow> string \<Rightarrow> string \<Rightarrow> LedgerEntry" where
  "demoEntry n raw kind = \<lparr>leHandle = handleName n, leRawValue = raw, leKind = kind, leProducerCallID = ''c'', leSessionID = ''s'',
     leCreatedAt = 1, leExpiresAt = 0, leScope = ''session''\<rparr>"

subsection \<open>Handles\<close>

lemma digitsValue_snoc: "digitsValue (s @ [c]) = 10 * digitsValue s + (of_char c - 48)"
  by (simp add: digitsValue_def)

lemma digitsValue_digit: "d < 10 \<Longrightarrow> of_char (digitChar d) - 48 = d"
  by (simp add: digitChar_def)

lemma digitsValue_natString: "digitsValue (natString n) = n"
proof (induction n rule: natString.induct)
  case (1 n)
  show ?case
  proof (cases "n < 10")
    case True
    then show ?thesis by (subst natString.simps) (simp add: digitsValue_def digitsValue_digit)
  next
    case False
    then show ?thesis using 1 by (subst natString.simps) (simp add: digitsValue_snoc digitsValue_digit)
  qed
qed

lemma digitsValue_zeros: "digitsValue (replicate k (CHR ''0'') @ s) = digitsValue s"
  by (induction k) (simp_all add: digitsValue_def)

lemma handleName_inj: "handleName m = handleName n \<Longrightarrow> m = n"
  by (metis append_same_eq digitsValue_natString digitsValue_zeros handleName_def pad4_def same_append_eq)

lemma wfLedger_snoc: "wfLedger (es @ [e]) \<longleftrightarrow> wfLedger es \<and> leHandle e = handleName (Suc (length es))"
  by (auto simp: wfLedger_def list_all_iff nth_append)

lemma wfLedger_find:
  assumes "wfLedger es" "e \<in> set es"
  shows "find (\<lambda>x. leHandle x = leHandle e) es = Some e"
proof -
  obtain i where i: "i < length es" "es ! i = e" using assms(2) by (auto simp: in_set_conv_nth)
  have "leHandle (es ! j) \<noteq> leHandle e" if "j < i" for j
    using assms(1) i that handleName_inj [of "Suc j" "Suc i"] by (auto simp: wfLedger_def list_all_iff)
  then show ?thesis using i by (auto simp: find_Some_iff)
qed

subsection \<open>Strings of a value\<close>

lemma stringsOf_child: "child node t = Some c \<Longrightarrow> stringsOf c \<subseteq> stringsOf node"
  by (auto simp: child_def split: json.splits option.splits if_splits dest!: map_of_SomeD) (metis nat_less_iff nth_mem linorder_not_less)+

lemma set_update_in: "kv \<in> set (AList.update k v kvs) \<Longrightarrow> kv = (k, v) \<or> kv \<in> set kvs"
  by (induction kvs) (auto split: if_splits)

lemma stringsOf_withChild: "stringsOf (withChild node t c) \<subseteq> stringsOf node \<union> stringsOf c"
  by (auto simp: withChild_def split: json.splits option.splits dest!: set_update_in in_set_takeD set_update_subset_insert [THEN subsetD])

lemma stringsOf_setTokens: "setTokens node ts v = Some node' \<Longrightarrow> stringsOf node' \<subseteq> stringsOf node \<union> stringsOf v"
proof (induction node ts v arbitrary: node' rule: setTokens.induct)
  case (2 cur t ts v)
  then obtain c where c: "child cur t = Some c" by (auto split: option.splits)
  show ?case
  proof (cases "ts = []")
    case True
    then show ?thesis using 2(2) c stringsOf_withChild by auto
  next
    case False
    then obtain c' where c': "setTokens c ts v = Some c'" "node' = withChild cur t c'" using 2(2) c by auto
    then show ?thesis using 2(1) [OF c False c'(1)] stringsOf_child [OF c] stringsOf_withChild [of cur t c'] by blast
  qed
qed simp

lemma resolveString_sound:
  assumes "resolveString es i now k p s = Inr r"
  shows "(r = s \<and> \<not> HasPrefix s handlePrefix) \<or>
    (\<exists>e \<in> set es. live i now e \<and> leRawValue e = r \<and> s = handlePrefix @ leHandle e \<and> (k = [] \<or> leKind e = k))"
proof (cases "HasPrefix s handlePrefix")
  case True
  then obtain h where h: "s = handlePrefix @ h" by (auto simp: HasPrefix_iff prefix_def)
  then show ?thesis using assms True
    by (auto simp: resolveString_def Let_def live_def find_Some_iff split: option.splits if_splits)
qed (use assms in \<open>simp add: resolveString_def\<close>)

lemma knownStrings_mono: "S \<subseteq> T \<Longrightarrow> knownStrings es i now S \<subseteq> knownStrings es i now T"
  by (auto simp: knownStrings_def)

lemma resolveValue_sound:
  "resolveValue es i now v = Inr w \<Longrightarrow> stringsOf w \<subseteq> knownStrings es i now (stringsOf v)"
  "resolveValues es i now vs = Inr ws \<Longrightarrow> stringsOf (JArray ws) \<subseteq> knownStrings es i now (stringsOf (JArray vs))"
  "resolveFields es i now fs = Inr gs \<Longrightarrow> stringsOf (JObject gs) \<subseteq> knownStrings es i now (stringsOf (JObject fs))"
proof (induction es i now v and es i now vs and es i now fs arbitrary: w and ws and gs
    rule: resolveValue_resolveValues_resolveFields.induct)
  case (1 es i now v)
  then show ?case by (auto simp: knownStrings_def split: sum.splits dest!: resolveString_sound)
next
  case (8 es i now x xs)
  then obtain y ys where y: "resolveValue es i now x = Inr y" "resolveValues es i now xs = Inr ys" "ws = y # ys"
    by (auto split: sum.splits)
  have "stringsOf y \<subseteq> knownStrings es i now (stringsOf (JArray (x # xs)))"
    using 8(1) [OF y(1)] knownStrings_mono [of "stringsOf x" "stringsOf (JArray (x # xs))" es i now] by auto
  moreover have "stringsOf (JArray ys) \<subseteq> knownStrings es i now (stringsOf (JArray (x # xs)))"
    using 8(2) [OF y(1,2)] knownStrings_mono [of "stringsOf (JArray xs)" "stringsOf (JArray (x # xs))" es i now] by auto
  ultimately show ?case using y(3) by simp
next
  case (10 es i now k x kvs)
  then obtain y ys where y: "resolveValue es i now x = Inr y" "resolveFields es i now kvs = Inr ys" "gs = (k, y) # ys"
    by (auto split: sum.splits)
  have "stringsOf y \<subseteq> knownStrings es i now (stringsOf (JObject ((k, x) # kvs)))"
    using 10(1) [OF y(1)] knownStrings_mono [of "stringsOf x" "stringsOf (JObject ((k, x) # kvs))" es i now] by auto
  moreover have "stringsOf (JObject ys) \<subseteq> knownStrings es i now (stringsOf (JObject ((k, x) # kvs)))"
    using 10(2) [OF y(1,2)] knownStrings_mono [of "stringsOf (JObject kvs)" "stringsOf (JObject ((k, x) # kvs))" es i now] by auto
  ultimately show ?case using y(3) by simp
qed (auto split: sum.splits)

lemma applyRule_strings:
  assumes "applyRule es i now r v = Inr w" "s \<in> stringsOf w"
  shows "s \<in> stringsOf v \<or> (\<exists>e \<in> set es. live i now e \<and> leRawValue e = s)"
proof (cases "w = v")
  case False
  then obtain a b where s: "HasPrefix a handlePrefix" "resolveString es i now (irKind r) (irPointer r) a = Inr b"
    "setPointer v (irPointer r) (JString b) = Some w"
    using assms(1) by (auto simp: applyRule_def split: if_splits option.splits json.splits sum.splits)
  have "stringsOf w \<subseteq> stringsOf v \<union> {b}"
    using s(3) stringsOf_setTokens [of v _ "JString b" w] by (auto simp: setPointer_def split: if_splits)
  moreover have "\<exists>e \<in> set es. live i now e \<and> leRawValue e = b" using resolveString_sound [OF s(2)] s(1) by auto
  ultimately show ?thesis using assms(2) by auto
qed (use assms in auto)

lemma applyRules_strings:
  "applyRules es i now rs v = Inr w \<Longrightarrow> s \<in> stringsOf w \<Longrightarrow> s \<in> stringsOf v \<or> (\<exists>e \<in> set es. live i now e \<and> leRawValue e = s)"
  by (induction rs arbitrary: v) (auto split: sum.splits dest: applyRule_strings)

subsection \<open>Registering\<close>

lemma wfLedger_append: "wfLedger (xs @ ys) \<Longrightarrow> wfLedger xs"
  by (induction ys rule: rev_induct) (auto simp: wfLedger_snoc simp flip: append_assoc)

lemma registerOne_registered:
  assumes "registered existing i acc"
  shows "registered existing i (registerOne pt doc i c now d acc)"
proof -
  obtain nxt entries subs where a: "acc = (nxt, entries, subs)" by (cases acc)
  have len: "length existing \<le> length entries" using assms by (auto simp: registered_def a dest: prefix_length_le)
  show ?thesis
  proof (cases "registerOne pt doc i c now d acc = acc")
    case False
    then obtain v where v: "getString doc (dePointer d) = Some v" "v \<noteq> []" "dePointer d \<noteq> []" "deKind d \<noteq> []"
      by (auto simp: a registerOne_def split: if_splits option.splits)
    then show ?thesis using assms len
      by (auto simp: a registered_def registerOne_def Let_def update_conv nextHandle_def wfLedger_snoc)
  qed (use assms in simp)
qed

lemma fold_registered:
  "registered existing i acc \<Longrightarrow> registered existing i (fold (registerOne pt doc i c now) ds acc)"
  by (induction ds arbitrary: acc) (simp_all add: registerOne_registered)

lemma Register_registered:
  assumes "Register U ft pt raw existing i c now = (entries, Some subs)" "wfLedger existing"
  shows "registered existing i (nextHandle entries, entries, subs)"
proof -
  obtain kvs refs ds where r: "map_option (anyValue ft) raw = Some (JObject kvs)" "map_of kvs ''references'' = Some refs"
      "decodeDescriptors U refs = Some ds"
    using assms(1) by (auto simp: Register_def split: option.splits json.splits)
  let ?f = "fold (registerOne pt (JObject kvs) i c now) ds (nextHandle existing, existing, [])"
  have "registered existing i ?f" by (rule fold_registered) (simp add: registered_def assms(2))
  moreover have "snd ?f = (entries, subs)"
    using assms(1) r by (auto simp: Register_def split: prod.splits if_splits)
  ultimately show ?thesis by (cases ?f) (auto simp: registered_def)
qed

lemma resolve_live:
  assumes "wfLedger es" "e \<in> set es" "live i now e"
  shows "resolveString es i now [] p (handlePrefix @ leHandle e) = Inr (leRawValue e)"
  using assms wfLedger_find [OF assms(1,2)] by (auto simp: resolveString_def live_def HasPrefix_iff Let_def)



text \<open>C30. Confinement: every string of the arguments a tool gets is a string of the model's arguments that is no handle, or
  the value of an entry of the same session that has not expired.\<close>

theorem resolve_confined:
  assumes "ResolveInput U ft raw schema entries sid now = Inr out" "inputValue ft raw = Some v" "s \<in> stringsOf out"
  shows "s \<in> stringsOf v \<and> \<not> HasPrefix s handlePrefix \<or> (\<exists>e \<in> set entries. live sid now e \<and> leRawValue e = s)"
proof -
  obtain w where w: "applyRules entries sid now (inputRules U schema) v = Inr w" "resolveValue entries sid now w = Inr out"
    using assms(1,2) by (auto simp: ResolveInput_def inputValue_def split: sum.splits option.splits)
  have "s \<in> knownStrings entries sid now (stringsOf w)" using resolveValue_sound(1) [OF w(2)] assms(3) by blast
  then show ?thesis using applyRules_strings [OF w(1)] by (auto simp: knownStrings_def)
qed

theorem resolve_confined_witness:
  "\<exists>e \<in> set [demoEntry 1 ''secret'' ''doc'']. live ''s'' 5 e \<and> leRawValue e = ''secret''"
proof -
  have "ResolveInput asciiTables id (Some (Some (JObject [(''id'', JString ''$ref:ref_0001'')]))) (Some demoSchema)
      [demoEntry 1 ''secret'' ''doc''] ''s'' 5 = Inr (JObject [(''id'', JString ''secret'')])"
    "inputValue id (Some (Some (JObject [(''id'', JString ''$ref:ref_0001'')]))) = Some (JObject [(''id'', JString ''$ref:ref_0001'')])"
    by code_simp+
  from resolve_confined [OF this, of "''secret''"] show ?thesis by simp
qed

text \<open>A field that a tool declares as \<open>handle_only\<close>: when the arguments are accepted and the field is there once the earlier
  rules are applied, it holds a handle of an entry of this session that is still valid and of the declared kind; an
  opaque value the model writes itself is refused.\<close>

theorem handle_required:
  assumes "ResolveInput U ft raw schema entries sid now = Inr out" "inputValue ft raw = Some v"
    "inputRules U schema = pre @ r # post" "irMode r = ''handle_only''"
    "applyRules entries sid now pre v = Inr w" "getPointer w (irPointer r) = Some c"
  shows "\<exists>e \<in> set entries. live sid now e \<and> c = JString (handlePrefix @ leHandle e) \<and> (irKind r = [] \<or> leKind e = irKind r)"
proof -
  have "applyRules entries sid now (pre @ r # post) v = (case applyRules entries sid now pre v of Inl e \<Rightarrow> Inl e |
      Inr w \<Rightarrow> applyRules entries sid now (r # post) w)"
    by (induction pre arbitrary: v) (auto split: sum.splits)
  then obtain w' where w': "applyRule entries sid now r w = Inr w'"
    using assms(1-3,5) by (auto simp: ResolveInput_def inputValue_def split: sum.splits option.splits)
  then obtain s t where s: "c = JString s" "HasPrefix s handlePrefix" "resolveString entries sid now (irKind r) (irPointer r) s = Inr t"
    using assms(4,6) by (auto simp: applyRule_def split: json.splits if_splits sum.splits)
  then show ?thesis using resolveString_sound [OF s(3)] by auto
qed

theorem handle_required_witness:
  "\<exists>e \<in> set [demoEntry 1 ''secret'' ''doc'']. live ''s'' 5 e \<and> JString ''$ref:ref_0001'' = JString (handlePrefix @ leHandle e) \<and> leKind e = ''doc''"
proof -
  let ?r = "\<lparr>irPointer = ''/id'', irKind = ''doc'', irMode = ''handle_only''\<rparr>" and ?v = "JObject [(''id'', JString ''$ref:ref_0001'')]"
  have s: "ResolveInput asciiTables id (Some (Some ?v)) (Some demoSchema) [demoEntry 1 ''secret'' ''doc''] ''s'' 5 =
      Inr (JObject [(''id'', JString ''secret'')])"
    "inputValue id (Some (Some ?v)) = Some ?v" "inputRules asciiTables (Some demoSchema) = [] @ ?r # []" "irMode ?r = ''handle_only''"
    "applyRules [demoEntry 1 ''secret'' ''doc''] ''s'' 5 [] ?v = Inr ?v" "getPointer ?v (irPointer ?r) = Some (JString ''$ref:ref_0001'')"
    by code_simp+
  show ?thesis using handle_required [OF s] by simp
qed

text \<open>A value that looks like a handle is resolved once more after its rule was applied, and the second time no kind is
  asked for: the tool gets the value of an entry of another kind.\<close>

theorem resolved_twice:
  "ResolveInput asciiTables id (Some (Some (JObject [(''id'', JString ''$ref:ref_0001'')]))) (Some demoSchema)
     [demoEntry 1 ''$ref:ref_0002'' ''doc'', demoEntry 2 ''secret'' ''other''] ''s'' 5 = Inr (JObject [(''id'', JString ''secret'')])"
  by code_simp

end
