(* ===== verification/Reflection.thy ===== *)
theory Reflection
  imports Json Paths
begin

section \<open>Reflection on a turn\<close>

text \<open>
  \<^verbatim>\<open>internal/reflection/reflection.go\<close>: facts about the work of a turn, read off its tool steps in order, which the harness uses
  to ask the model for a verification before it finishes.  The input of a step is the parsed JSON of its arguments.
\<close>

subsection \<open>Files of a call\<close>

definition appendUnique :: "string list \<Rightarrow> string \<Rightarrow> string list" where
  "appendUnique xs x = (if x \<in> set xs then xs else xs @ [x])"

definition patchTarget :: "string \<Rightarrow> string option" where
  "patchTarget line =
     (if \<not> HasPrefix line ''+++ '' then None
      else
        (let p = TrimSpace (drop 4 line);
             q = (if HasPrefix p ''b/'' then drop 2 p else p)
         in if q \<noteq> [] \<and> q \<noteq> ''/dev/null'' then Some q else None))"

definition patchFiles :: "string \<Rightarrow> string list" where
  "patchFiles patch =
     foldl (\<lambda>files line. case patchTarget line of None \<Rightarrow> files | Some p \<Rightarrow> appendUnique files p) [] (SplitByte NL patch)"

definition pathTools :: "string list" where
  "pathTools = [''edit_file'', ''create_file'', ''insert_file'', ''write_file'']"

definition IsMutatingTool :: "string \<Rightarrow> bool" where
  "IsMutatingTool tool = (tool \<in> set pathTools \<or> tool = ''apply_patch'')"

definition mutatedPaths :: "unicode_tables \<Rightarrow> string \<Rightarrow> raw_message \<Rightarrow> string list" where
  "mutatedPaths U tool input =
     (if tool \<in> set pathTools
      then (let p = TrimSpace (looseString U ''path'' input) in if p \<noteq> [] then [p] else [])
      else if tool = ''apply_patch'' then patchFiles (looseString U ''patch'' input)
      else [])"

definition parseCommand :: "unicode_tables \<Rightarrow> raw_message \<Rightarrow> string" where
  "parseCommand U input = TrimSpace (looseString U ''command'' input)"

definition verifyCommands :: "string list" where
  "verifyCommands = [''go build'', ''go test'', ''go vet'', ''go run'', ''cargo build'', ''cargo test'', ''cargo check'', ''swift build'', ''xcodebuild'']"

definition isVerifyCommand :: "string \<Rightarrow> bool" where
  "isVerifyCommand cmd = list_ex (\<lambda>p. cmd = p \<or> HasPrefix cmd (p @ '' '')) verifyCommands"

definition isTestFile :: "string \<Rightarrow> bool" where
  "isTestFile path = HasSuffix path ''_test.go''"

definition docExtensions :: "string list" where
  "docExtensions = [''.md'', ''.markdown'', ''.mdx'', ''.txt'', ''.rst'', ''.adoc'', ''.json'', ''.yaml'', ''.yml'', ''.toml'', ''.csv'', ''.tsv'', ''.ini'', ''.cfg'', ''.conf'']"

definition isDocOrData :: "unicode_tables \<Rightarrow> string \<Rightarrow> bool" where
  "isDocOrData U path = (ToLower U (pathExt path) \<in> set docExtensions)"

definition IsVerifiableCode :: "unicode_tables \<Rightarrow> string \<Rightarrow> bool" where
  "IsVerifiableCode U path = (\<not> isDocOrData U path)"

subsection \<open>Markers\<close>

text \<open>The marker line of an enriched observation: not there, or success, or a failure with its type.\<close>

datatype obs_marker = NoMarker | MarkerOK | MarkerFailure string

definition obsPrefix :: string where "obsPrefix = ''[observation] ''"

definition parseObsMarker :: "string \<Rightarrow> obs_marker" where
  "parseObsMarker obs =
     (let s = TrimSpace obs in
      if \<not> HasPrefix s obsPrefix then NoMarker
      else
        (let rest = drop (length obsPrefix) s in
         if HasPrefix rest ''ok'' then MarkerOK
         else if HasPrefix rest ''failure=''
         then MarkerFailure (takeWhile (\<lambda>c. c \<noteq> CHR '' '' \<and> c \<noteq> NL) (drop (length ''failure='') rest))
         else MarkerFailure []))"

subsection \<open>Reflect\<close>

record StepView =
  svTool :: string
  svInput :: raw_message
  svObservation :: string

record ReflectionContext =
  rcMutatedFiles :: "string list"
  rcCodeFilesMutated :: "string list"
  rcTestFilesMutated :: "string list"
  rcLastVerifyPassed :: "bool option"
  rcTestEditedAfterFailure :: bool
  rcUnverifiedMutation :: bool

record reflect_state =
  rsContext :: ReflectionContext
  rsLastCode :: int
  rsLastVerify :: int
  rsLastTestFail :: int

definition Concerns :: "ReflectionContext \<Rightarrow> bool" where
  "Concerns c = (rcTestEditedAfterFailure c \<or> rcUnverifiedMutation c)"

definition noContext :: ReflectionContext where
  "noContext = \<lparr>rcMutatedFiles = [], rcCodeFilesMutated = [], rcTestFilesMutated = [], rcLastVerifyPassed = None,
     rcTestEditedAfterFailure = False, rcUnverifiedMutation = False\<rparr>"

definition reflectPath :: "unicode_tables \<Rightarrow> int \<Rightarrow> string \<Rightarrow> reflect_state \<Rightarrow> reflect_state" where
  "reflectPath U i p st =
     (let rc = rsContext st;
          rc1 = rc\<lparr>rcMutatedFiles := appendUnique (rcMutatedFiles rc) p\<rparr>;
          rc2 = (if IsVerifiableCode U p then rc1\<lparr>rcCodeFilesMutated := appendUnique (rcCodeFilesMutated rc1) p\<rparr> else rc1);
          rc3 = (if isTestFile p
                 then rc2\<lparr>rcTestFilesMutated := appendUnique (rcTestFilesMutated rc2) p,
                          rcTestEditedAfterFailure := (rcTestEditedAfterFailure rc2 \<or> (rsLastTestFail st \<ge> 0 \<and> rsLastTestFail st < i))\<rparr>
                 else rc2)
      in st\<lparr>rsContext := rc3, rsLastCode := (if IsVerifiableCode U p then i else rsLastCode st)\<rparr>)"

definition testFailed :: "StepView \<Rightarrow> bool" where
  "testFailed s = (parseObsMarker (svObservation s) = MarkerFailure ''test'')"

definition isVerify :: "unicode_tables \<Rightarrow> StepView \<Rightarrow> bool" where
  "isVerify U s = (svTool s = ''run_command'' \<and> isVerifyCommand (parseCommand U (svInput s)))"

definition verifyOutcome :: "StepView \<Rightarrow> bool option" where
  "verifyOutcome s =
     (case parseObsMarker (svObservation s) of NoMarker \<Rightarrow> None | MarkerOK \<Rightarrow> Some True | MarkerFailure _ \<Rightarrow> Some False)"

definition reflectStep :: "unicode_tables \<Rightarrow> int \<Rightarrow> StepView \<Rightarrow> reflect_state \<Rightarrow> reflect_state" where
  "reflectStep U i s st =
     (let st1 = fold (reflectPath U i) (mutatedPaths U (svTool s) (svInput s)) st;
          st2 = (if testFailed s then st1\<lparr>rsLastTestFail := i\<rparr> else st1)
      in if isVerify U s
         then st2\<lparr>rsLastVerify := i, rsContext := (rsContext st2)\<lparr>rcLastVerifyPassed := verifyOutcome s\<rparr>\<rparr>
         else st2)"

fun reflectLoop :: "unicode_tables \<Rightarrow> int \<Rightarrow> StepView list \<Rightarrow> reflect_state \<Rightarrow> reflect_state" where
  "reflectLoop U i [] st = st"
| "reflectLoop U i (s # ss) st = reflectLoop U (i + 1) ss (reflectStep U i s st)"

definition startReflect :: reflect_state where
  "startReflect = \<lparr>rsContext = noContext, rsLastCode = - 1, rsLastVerify = - 1, rsLastTestFail = - 1\<rparr>"

definition Reflect :: "unicode_tables \<Rightarrow> StepView list \<Rightarrow> ReflectionContext" where
  "Reflect U steps =
     (let st = reflectLoop U 0 steps startReflect
      in if rsLastCode st \<ge> 0 \<and> rsLastVerify st < rsLastCode st
         then (rsContext st)\<lparr>rcUnverifiedMutation := True\<rparr> else rsContext st)"

definition SawFailure :: "StepView list \<Rightarrow> bool" where
  "SawFailure steps =
     list_ex (\<lambda>s. case parseObsMarker (svObservation s) of MarkerFailure f \<Rightarrow> f \<noteq> [] | _ \<Rightarrow> False) steps"

subsection \<open>Vocabulary\<close>

text \<open>What the steps say, step by step, without any bookkeeping.\<close>

definition pathsOf :: "unicode_tables \<Rightarrow> StepView \<Rightarrow> string list" where
  "pathsOf U s = mutatedPaths U (svTool s) (svInput s)"

definition changesCode :: "unicode_tables \<Rightarrow> StepView \<Rightarrow> bool" where
  "changesCode U s = list_ex (IsVerifiableCode U) (pathsOf U s)"

definition changesTest :: "unicode_tables \<Rightarrow> StepView \<Rightarrow> bool" where
  "changesTest U s = list_ex isTestFile (pathsOf U s)"

text \<open>The position of the last step of a kind, or -1; what the loop knows after some steps.\<close>

definition isLast :: "(StepView \<Rightarrow> bool) \<Rightarrow> StepView list \<Rightarrow> int \<Rightarrow> bool" where
  "isLast P xs k = (if k < 0 then k = - 1 \<and> \<not> list_ex P xs
     else k < int (length xs) \<and> P (xs ! nat k) \<and> \<not> list_ex P (drop (Suc (nat k)) xs))"

definition reflected :: "unicode_tables \<Rightarrow> StepView list \<Rightarrow> reflect_state \<Rightarrow> bool" where
  "reflected U xs st \<longleftrightarrow>
     isLast (changesCode U) xs (rsLastCode st) \<and> isLast (isVerify U) xs (rsLastVerify st) \<and> isLast testFailed xs (rsLastTestFail st) \<and>
     rcLastVerifyPassed (rsContext st) = (if rsLastVerify st < 0 then None else verifyOutcome (xs ! nat (rsLastVerify st))) \<and>
     \<not> rcUnverifiedMutation (rsContext st) \<and>
     (rcTestEditedAfterFailure (rsContext st) \<longleftrightarrow> (\<exists>i j. i < j \<and> j < length xs \<and> testFailed (xs ! i) \<and> changesTest U (xs ! j)))"

definition demoEdit :: "string \<Rightarrow> StepView" where
  "demoEdit p = \<lparr>svTool = ''edit_file'', svInput = Some (JObject [(''path'', JString p)]), svObservation = ''[observation] ok''\<rparr>"

definition demoTestRun :: "string \<Rightarrow> StepView" where
  "demoTestRun obs = \<lparr>svTool = ''run_command'', svInput = Some (JObject [(''command'', JString ''go test ./...'')]), svObservation = obs\<rparr>"

subsection \<open>The last step of a kind\<close>

lemma set_appendUnique [simp]: "set (appendUnique xs x) = insert x (set xs)"
  by (auto simp: appendUnique_def)

lemma distinct_appendUnique [simp]: "distinct (appendUnique xs x) \<longleftrightarrow> distinct xs"
  by (auto simp: appendUnique_def)

lemma isLast_snoc: "isLast P xs k \<Longrightarrow> isLast P (xs @ [x]) (if P x then int (length xs) else k)"
  by (auto simp: isLast_def nth_append)

lemma isLast_iff:
  assumes "isLast P xs k"
  shows "j < length xs \<Longrightarrow> P (xs ! j) \<Longrightarrow> int j \<le> k" and "0 \<le> k \<Longrightarrow> nat k < length xs \<and> P (xs ! nat k)"
proof -
  assume j: "j < length xs" "P (xs ! j)"
  show "int j \<le> k"
  proof (rule ccontr)
    assume n: "\<not> int j \<le> k"
    show False
    proof (cases "k < 0")
      case True
      then show False using assms j by (auto simp: isLast_def list_ex_iff)
    next
      case False
      then have "xs ! j \<in> set (drop (Suc (nat k)) xs)"
        using n j(1) by (auto simp: in_set_conv_nth intro!: exI [of _ "j - Suc (nat k)"])
      then show False using assms j(2) False by (auto simp: isLast_def list_ex_iff)
    qed
  qed
next
  assume "0 \<le> k"
  then show "nat k < length xs \<and> P (xs ! nat k)" using assms by (auto simp: isLast_def)
qed

lemma isLast_ex: "isLast P xs k \<Longrightarrow> 0 \<le> k \<and> k < int (length xs) \<longleftrightarrow> (\<exists>i < length xs. P (xs ! i))"
  using isLast_iff [of P xs k] by (auto simp: isLast_def split: if_splits)

lemma pairs_snoc:
  assumes "E \<longleftrightarrow> (\<exists>i j. i < j \<and> j < length xs \<and> P (xs ! i) \<and> Q (xs ! j))"
  shows "E \<or> Q x \<and> (\<exists>i < length xs. P (xs ! i)) \<longleftrightarrow>
    (\<exists>i j. i < j \<and> j < length (xs @ [x]) \<and> P ((xs @ [x]) ! i) \<and> Q ((xs @ [x]) ! j))" (is "_ \<longleftrightarrow> ?R")
proof -
  have "?R \<longleftrightarrow> (\<exists>i j. i < j \<and> j < length xs \<and> P ((xs @ [x]) ! i) \<and> Q ((xs @ [x]) ! j)) \<or>
      (\<exists>i < length xs. P ((xs @ [x]) ! i) \<and> Q ((xs @ [x]) ! length xs))"
    unfolding length_append list.size add_0 add_Suc_right add_0_right less_Suc_eq by blast
  also have "\<dots> \<longleftrightarrow> (\<exists>i j. i < j \<and> j < length xs \<and> P (xs ! i) \<and> Q (xs ! j)) \<or> (\<exists>i < length xs. P (xs ! i) \<and> Q x)"
    by (intro arg_cong2 [where f = "(\<or>)"] ex_cong1) (auto simp: nth_append)
  finally show ?thesis using assms by blast
qed

lemma isLast_find: "isLast P xs k \<Longrightarrow> find P (rev xs) = (if k < 0 then None else Some (xs ! nat k))"
proof (induction xs arbitrary: k rule: rev_induct)
  case (snoc x xs)
  show ?case
  proof (cases "P x")
    case True
    then have "k = int (length xs)"
      using snoc.prems isLast_iff(1) [OF snoc.prems, of "length xs"] isLast_iff(2) [OF snoc.prems] by force
    then show ?thesis using True by simp
  next
    case False
    then have "isLast P xs k" using snoc.prems by (auto simp: isLast_def nth_append split: if_splits)
    then show ?thesis using snoc.IH False isLast_iff(2) by (fastforce simp: nth_append)
  qed
qed (auto simp: isLast_def split: if_splits)

lemma lastCode_unverified:
  assumes c: "isLast P xs k" and v: "isLast Q xs l" and d: "\<And>s. Q s \<Longrightarrow> \<not> P s"
  shows "k \<ge> 0 \<and> l < k \<longleftrightarrow> (\<exists>i < length xs. P (xs ! i) \<and> \<not> list_ex Q (drop i xs))"
proof
  assume k: "k \<ge> 0 \<and> l < k"
  have "\<not> Q (xs ! j)" if "nat k \<le> j" "j < length xs" for j using isLast_iff(1) [OF v that(2)] k that(1) by force
  then have "\<not> list_ex Q (drop (nat k) xs)" by (auto simp: list_ex_iff in_set_conv_nth)
  then show "\<exists>i < length xs. P (xs ! i) \<and> \<not> list_ex Q (drop i xs)" using isLast_iff(2) [OF c] k by blast
next
  assume "\<exists>i < length xs. P (xs ! i) \<and> \<not> list_ex Q (drop i xs)"
  then obtain i where i: "i < length xs" "P (xs ! i)" "\<not> list_ex Q (drop i xs)" by blast
  have "l < int i"
  proof (rule ccontr)
    assume l: "\<not> l < int i"
    then have "nat l < length xs" "Q (xs ! nat l)" using isLast_iff(2) [OF v] by auto
    moreover have "xs ! nat l \<in> set (drop i xs)" using l calculation(1) by (auto simp: in_set_conv_nth intro!: exI [of _ "nat l - i"])
    ultimately show False using i(3) by (auto simp: list_ex_iff)
  qed
  then show "k \<ge> 0 \<and> l < k" using isLast_iff(1) [OF c i(1,2)] by auto
qed

subsection \<open>The loop\<close>

lemma reflectLoop_snoc: "reflectLoop U i (xs @ [x]) st = reflectStep U (i + int (length xs)) x (reflectLoop U i xs st)"
  by (induction xs arbitrary: i st) (auto simp: algebra_simps)

lemma fold_reflectPath:
  "rsLastCode (fold (reflectPath U i) ps st) = (if list_ex (IsVerifiableCode U) ps then i else rsLastCode st)"
  "rsLastVerify (fold (reflectPath U i) ps st) = rsLastVerify st"
  "rsLastTestFail (fold (reflectPath U i) ps st) = rsLastTestFail st"
  "rcLastVerifyPassed (rsContext (fold (reflectPath U i) ps st)) = rcLastVerifyPassed (rsContext st)"
  "rcUnverifiedMutation (rsContext (fold (reflectPath U i) ps st)) = rcUnverifiedMutation (rsContext st)"
  "rcTestEditedAfterFailure (rsContext (fold (reflectPath U i) ps st)) =
     (rcTestEditedAfterFailure (rsContext st) \<or> (list_ex isTestFile ps \<and> 0 \<le> rsLastTestFail st \<and> rsLastTestFail st < i))"
  by (induction ps arbitrary: st) (auto simp: reflectPath_def Let_def)

lemma fold_reflectPath_files:
  "set (rcMutatedFiles (rsContext (fold (reflectPath U i) ps st))) = set (rcMutatedFiles (rsContext st)) \<union> set ps"
  "set (rcCodeFilesMutated (rsContext (fold (reflectPath U i) ps st))) =
     set (rcCodeFilesMutated (rsContext st)) \<union> {p \<in> set ps. IsVerifiableCode U p}"
  "set (rcTestFilesMutated (rsContext (fold (reflectPath U i) ps st))) = set (rcTestFilesMutated (rsContext st)) \<union> {p \<in> set ps. isTestFile p}"
  by (induction ps arbitrary: st) (auto simp: reflectPath_def Let_def)

lemmas path_facts = fold_reflectPath fold_reflectPath_files

lemma reflected_loop: "reflected U xs (reflectLoop U 0 xs startReflect)"
proof (induction xs rule: rev_induct)
  case Nil
  then show ?case by (simp add: reflected_def isLast_def startReflect_def noContext_def)
next
  case (snoc x xs)
  let ?st = "reflectLoop U 0 xs startReflect" and ?n = "int (length xs)"
  let ?st' = "reflectStep U ?n x ?st"
  note IH = snoc [unfolded reflected_def]
  have l: "rsLastCode ?st' = (if changesCode U x then ?n else rsLastCode ?st)"
    "rsLastVerify ?st' = (if isVerify U x then ?n else rsLastVerify ?st)"
    "rsLastTestFail ?st' = (if testFailed x then ?n else rsLastTestFail ?st)"
    by (simp_all add: reflectStep_def Let_def path_facts changesCode_def pathsOf_def)
  have v: "rcLastVerifyPassed (rsContext ?st') = (if isVerify U x then verifyOutcome x else rcLastVerifyPassed (rsContext ?st))"
    "\<not> rcUnverifiedMutation (rsContext ?st')"
    using IH by (simp_all add: reflectStep_def Let_def path_facts)
  have t: "rcTestEditedAfterFailure (rsContext ?st') \<longleftrightarrow> rcTestEditedAfterFailure (rsContext ?st) \<or>
      (changesTest U x \<and> 0 \<le> rsLastTestFail ?st \<and> rsLastTestFail ?st < ?n)"
    by (simp add: reflectStep_def Let_def path_facts changesTest_def pathsOf_def)
  have f: "0 \<le> rsLastTestFail ?st \<and> rsLastTestFail ?st < ?n \<longleftrightarrow> (\<exists>i < length xs. testFailed (xs ! i))"
    by (rule isLast_ex) (use IH in simp)
  have "rcTestEditedAfterFailure (rsContext ?st') \<longleftrightarrow>
      (\<exists>i j. i < j \<and> j < length (xs @ [x]) \<and> testFailed ((xs @ [x]) ! i) \<and> changesTest U ((xs @ [x]) ! j))"
    unfolding t f by (rule pairs_snoc) (use IH in simp)
  moreover have "rcLastVerifyPassed (rsContext ?st') =
      (if rsLastVerify ?st' < 0 then None else verifyOutcome ((xs @ [x]) ! nat (rsLastVerify ?st')))"
    using IH isLast_iff(2) [of "isVerify U" xs "rsLastVerify ?st"] by (auto simp: v(1) l(2) nth_append)
  ultimately show ?case using IH v(2) isLast_snoc [of "changesCode U" xs "rsLastCode ?st" x]
      isLast_snoc [of "isVerify U" xs "rsLastVerify ?st" x] isLast_snoc [of testFailed xs "rsLastTestFail ?st" x]
    unfolding reflectLoop_snoc reflected_def add_0 l by simp
qed

lemma reflected_files:
  "set (rcMutatedFiles (rsContext (reflectLoop U i xs st))) = set (rcMutatedFiles (rsContext st)) \<union> (\<Union>s \<in> set xs. set (pathsOf U s))"
  "set (rcCodeFilesMutated (rsContext (reflectLoop U i xs st))) =
     set (rcCodeFilesMutated (rsContext st)) \<union> {p \<in> (\<Union>s \<in> set xs. set (pathsOf U s)). IsVerifiableCode U p}"
  by (induction xs arbitrary: i st) (auto simp: reflectStep_def Let_def path_facts pathsOf_def)

lemma isVerify_not_code: "isVerify U s \<Longrightarrow> \<not> changesCode U s"
  by (auto simp: isVerify_def changesCode_def pathsOf_def mutatedPaths_def pathTools_def)

subsection \<open>Properties\<close>


theorem verify_tools_lockstep: "mutatedPaths U tool input \<noteq> [] \<Longrightarrow> IsMutatingTool tool"
  by (auto simp: mutatedPaths_def IsMutatingTool_def split: if_splits)

text \<open>A patch that only deletes code names no file, so it asks for no verification.\<close>

theorem deletion_unnoticed:
  "rcUnverifiedMutation (Reflect asciiTables [\<lparr>svTool = ''apply_patch'',
     svInput = Some (JObject [(''patch'', JString (''--- a/main.go'' @ [NL] @ ''+++ /dev/null'' @ [NL] @ ''@@ -1 +0,0 @@'' @ [NL] @ ''-package main''))]),
     svObservation = ''[observation] ok''\<rparr>]) = False"
  by code_simp

end
