(* ===== verification/Observation.thy ===== *)
theory Observation
  imports Edit_Text RRule Json Reflection
begin

section \<open>Observations\<close>

text \<open>
  \<^verbatim>\<open>internal/observation\<close>: what a tool printed is classified, distilled and put in front of the text the model reads.  Files
  \<^verbatim>\<open>observation.go\<close>, \<^verbatim>\<open>classify.go\<close>, \<^verbatim>\<open>salient.go\<close> and \<^verbatim>\<open>jobs.go\<close>.  The parser of JSON text and \<^verbatim>\<open>strconv.Quote\<close> are parameters; a
  failure type is a string, as in the code, because failure kinds of tools are stored in it too.
\<close>

subsection \<open>Types\<close>

definition MaxSalientLines :: nat where "MaxSalientLines = 20"
definition MaxLineLength :: nat where "MaxLineLength = 300"

definition FailureNone :: string where "FailureNone = ''none''"
definition FailureCompile :: string where "FailureCompile = ''compile''"
definition FailureTest :: string where "FailureTest = ''test''"
definition FailureLint :: string where "FailureLint = ''lint''"
definition FailureRuntime :: string where "FailureRuntime = ''runtime''"
definition FailureTimeout :: string where "FailureTimeout = ''timeout''"
definition FailureBlocked :: string where "FailureBlocked = ''blocked''"
definition FailureEnvironment :: string where "FailureEnvironment = ''environment''"

lemmas failure_types = FailureNone_def FailureCompile_def FailureTest_def FailureLint_def FailureRuntime_def FailureTimeout_def
  FailureBlocked_def FailureEnvironment_def

record Observation =
  obTool :: string
  obOK :: bool
  obFailureType :: string
  obSummary :: string
  obSalient :: "string list"

definition Render :: "(string \<Rightarrow> string) \<Rightarrow> Observation \<Rightarrow> string \<Rightarrow> string" where
  "Render quote o1 raw =
     obsPrefix @ (if obOK o1 then ''ok'' else ''failure='' @ obFailureType o1) @
     (if obSummary o1 \<noteq> [] then '' summary='' @ quote (obSummary o1) else []) @ [NL] @
     concat (map (\<lambda>line. ''  '' @ line @ [NL]) (obSalient o1)) @ ''---'' @ [NL] @ raw"

record commandResult =
  crCommand :: string
  crStdout :: string
  crStderr :: string
  crExitCode :: int
  crDecision :: string
  crNote :: string

fun intFields :: "unicode_tables \<Rightarrow> string \<Rightarrow> int \<Rightarrow> (string \<times> json) list \<Rightarrow> int option" where
  "intFields U name cur [] = Some cur"
| "intFields U name cur ((k, v) # fs) =
     (if EqualFold U k name
      then (case v of
              JNumber t \<Rightarrow> (case Atoi t of Some i \<Rightarrow> intFields U name i fs | None \<Rightarrow> None)
            | JNull \<Rightarrow> intFields U name cur fs
            | _ \<Rightarrow> None)
      else intFields U name cur fs)"

definition decodeCommandResult :: "unicode_tables \<Rightarrow> (string \<times> json) list \<Rightarrow> commandResult option" where
  "decodeCommandResult U fs =
     (case (stringFields U ''command'' [] fs, stringFields U ''stdout'' [] fs, stringFields U ''stderr'' [] fs,
            intFields U ''exit_code'' 0 fs, stringFields U ''decision'' [] fs, stringFields U ''note'' [] fs) of
        (Some c, Some so, Some se, Some x, Some d, Some n) \<Rightarrow>
          Some \<lparr>crCommand = c, crStdout = so, crStderr = se, crExitCode = x, crDecision = d, crNote = n\<rparr>
      | _ \<Rightarrow> None)"

definition parseCommandResult :: "unicode_tables \<Rightarrow> (string \<Rightarrow> raw_message) \<Rightarrow> string \<Rightarrow> commandResult option" where
  "parseCommandResult U parse raw =
     (let r = TrimSpace raw in
      if \<not> HasPrefix r ''{'' then None
      else
        (case parse r of
           Some (JObject fs) \<Rightarrow>
             if length (filter (\<lambda>k. k \<in> fst ` set fs) [''exit_code'', ''command'', ''decision'']) < 2 then None
             else decodeCommandResult U fs
         | _ \<Rightarrow> None))"

subsection \<open>Classification\<close>

definition compileMarkers :: "string list" where
  "compileMarkers = [''undefined:'', ''cannot use'', ''syntax error'', ''expected '', ''not enough arguments'', ''too many arguments'',
     ''undeclared name'', ''imported and not used'', ''declared and not used'', ''missing return'', ''is not a type'',
     ''cannot find package'', ''cannot convert'', ''undefined reference'', ''redeclared'', ''[build failed]'']"

definition testMarkers :: "string list" where
  "testMarkers = [''--- fail'', ''panic:'', ''fail'' @ [TAB], ''test failed'']"

definition containsAny :: "string \<Rightarrow> string list \<Rightarrow> bool" where
  "containsAny low markers = list_ex (Contains low) markers"

definition isTimeout :: "unicode_tables \<Rightarrow> string \<Rightarrow> bool" where
  "isTimeout U note = (Contains (ToLower U note) ''timed out'' \<or> Contains (ToLower U note) ''timeout'')"

definition hasBuildHeader :: "string \<Rightarrow> bool" where
  "hasBuildHeader out = list_ex (\<lambda>line. HasPrefix line ''# '') (SplitByte NL out)"

definition isLintCommand :: "string \<Rightarrow> bool" where
  "isLintCommand command =
     (let c = TrimSpace command in HasPrefix c ''go vet'' \<or> Contains c ''golangci-lint'' \<or> Contains c ''staticcheck'')"

definition classifyRunCommand :: "unicode_tables \<Rightarrow> commandResult \<Rightarrow> string" where
  "classifyRunCommand U res =
     (if crDecision res = ''block'' then FailureBlocked
      else if isTimeout U (crNote res) then FailureTimeout
      else if crExitCode res = - 1 then FailureEnvironment
      else if crExitCode res = 0 then FailureNone
      else
        (let combined = crStderr res @ [NL] @ crStdout res; low = ToLower U combined in
         if containsAny low compileMarkers then FailureCompile
         else if isLintCommand (crCommand res) then FailureLint
         else if containsAny low testMarkers then FailureTest
         else if hasBuildHeader combined then FailureCompile
         else FailureRuntime))"

definition classifyByCommand :: "unicode_tables \<Rightarrow> string \<Rightarrow> string" where
  "classifyByCommand U command =
     (let c = ToLower U command in
      if Contains c ''vet'' \<or> Contains c ''lint'' then FailureLint
      else if Contains c ''test'' then FailureTest
      else if Contains c ''build'' \<or> Contains c ''compile'' then FailureCompile
      else FailureRuntime)"

definition classifyOutput :: "unicode_tables \<Rightarrow> string \<Rightarrow> string" where
  "classifyOutput U combined =
     (let low = ToLower U combined in
      if containsAny low compileMarkers then FailureCompile
      else if containsAny low testMarkers then FailureTest
      else if hasBuildHeader combined then FailureCompile
      else FailureRuntime)"

subsection \<open>Salient lines\<close>

definition ellipsis :: string where "ellipsis = [CHR 0xE2, CHR 0x80, CHR 0xA6]"

definition truncateLine :: "string \<Rightarrow> string" where
  "truncateLine s =
     (if length s \<le> MaxLineLength then s
      else (let r = runesOf s in if length r \<le> MaxLineLength then s else concat (take MaxLineLength r) @ ellipsis))"

text \<open>The expression \<^verbatim>\<open>^\S+:\d+:(\d+:)?\<close>: the optional part never decides a match.\<close>

definition lineNumberAt :: "string \<Rightarrow> bool" where
  "lineNumberAt s =
     (case s of
        [] \<Rightarrow> False
      | c # r \<Rightarrow> c = CHR '':'' \<and> takeWhile (byteIn 0x30 0x39) r \<noteq> [] \<and> HasPrefix (dropWhile (byteIn 0x30 0x39) r) '':'')"

fun diagnosticPrefix :: "string \<Rightarrow> bool" where
  "diagnosticPrefix [] = False"
| "diagnosticPrefix (c # s) =
     (c \<notin> set [CHR '' '', TAB, NL, CHR 0x0C, CHR 0x0D] \<and> (lineNumberAt s \<or> diagnosticPrefix s))"

definition salientSubstrings :: "string list" where
  "salientSubstrings = [''error:'', ''--- fail'', ''panic:'', ''undefined:'', ''expected'', ''cannot'', ''fail'', ''warning:'', ''vet:'']"

definition isNoiseLine :: "string \<Rightarrow> bool" where
  "isNoiseLine l = (l \<in> set [''FAIL'', ''PASS'', ''ok''])"

definition isSalient :: "unicode_tables \<Rightarrow> string \<Rightarrow> bool" where
  "isSalient U line =
     (let l = TrimSpace line in
      if l = [] \<or> isNoiseLine l then False
      else if diagnosticPrefix l then True
      else list_ex (Contains (ToLower U l)) salientSubstrings)"

definition addLine :: "string \<Rightarrow> string list \<times> string \<Rightarrow> string list \<times> string" where
  "addLine line acc =
     (let t = TrimSpace line in if t = [] \<or> t = snd acc then acc else (fst acc @ [truncateLine t], t))"

fun scanLines :: "unicode_tables \<Rightarrow> string list \<Rightarrow> string list \<times> string \<Rightarrow> string list \<times> string" where
  "scanLines U [] acc = acc"
| "scanLines U (line # ls) acc =
     (if length (fst acc) \<ge> MaxSalientLines then acc
      else scanLines U ls (if isSalient U line then addLine line acc else acc))"

definition lastNonEmptyLines :: "string \<Rightarrow> nat \<Rightarrow> string list" where
  "lastNonEmptyLines text n =
     (let lines = map truncateLine (filter (\<lambda>t. t \<noteq> []) (map TrimSpace (SplitByte NL text)))
      in if length lines > n then drop (length lines - n) lines else lines)"

definition firstNonEmpty :: "string \<Rightarrow> string \<Rightarrow> string" where
  "firstNonEmpty a b = (if TrimSpace a \<noteq> [] then a else b)"

definition extractSalient :: "unicode_tables \<Rightarrow> string \<Rightarrow> string \<Rightarrow> string list" where
  "extractSalient U stdout stderr =
     (let out = fst (scanLines U (SplitByte NL stdout) (scanLines U (SplitByte NL stderr) ([], [])));
          out' = (if out = [] then lastNonEmptyLines (firstNonEmpty stderr stdout) 5 else out)
      in if length out' > MaxSalientLines then take MaxSalientLines out' else out')"

definition plural :: "nat \<Rightarrow> string \<Rightarrow> string \<Rightarrow> string" where
  "plural n singular pluralForm = (if n = 1 then ''1 '' @ singular else natString n @ '' '' @ pluralForm)"

definition countDiagnostics :: "string \<Rightarrow> nat" where
  "countDiagnostics out = length (filter (\<lambda>line. diagnosticPrefix (TrimSpace line)) (SplitByte NL out))"

definition summarizeFailure :: "string \<Rightarrow> commandResult \<Rightarrow> string list \<Rightarrow> string" where
  "summarizeFailure ft res salient =
     (if ft = FailureCompile
      then (let n = countDiagnostics (crStderr res @ [NL] @ crStdout res) in
            if n > 0 then ''build failed: '' @ plural n ''error'' ''errors'' else ''build failed'')
      else if ft = FailureTest
      then (let n = Count (crStdout res @ crStderr res) ''--- FAIL'' in
            if n > 0 then plural n ''test'' ''tests'' @ '' failed'' else ''tests failed'')
      else if ft = FailureLint
      then (if salient \<noteq> [] then ''lint: '' @ plural (length salient) ''finding'' ''findings'' else ''lint findings'')
      else if ft = FailureTimeout then ''command timed out''
      else if ft = FailureBlocked then ''refused by policy''
      else if ft = FailureRuntime then ''command failed (exit '' @ intString (crExitCode res) @ '')''
      else [])"

definition observeCommand :: "unicode_tables \<Rightarrow> commandResult \<Rightarrow> Observation" where
  "observeCommand U res =
     (let ft = classifyRunCommand U res in
      if ft = FailureNone
      then \<lparr>obTool = ''run_command'', obOK = True, obFailureType = ft, obSummary = [], obSalient = []\<rparr>
      else
        (let salient = extractSalient U (crStdout res) (crStderr res) in
         \<lparr>obTool = ''run_command'', obOK = False, obFailureType = ft,
          obSummary =
            (if ft = FailureEnvironment then if crNote res = [] then ''command could not run (exit -1)'' else crNote res
             else summarizeFailure ft res salient),
          obSalient = salient\<rparr>))"

subsection \<open>Jobs\<close>

record jobSnapshot =
  jsJobID :: string
  jsCommand :: string
  jsStatus :: string
  jsExitCode :: int

definition decodeSnapshot :: "unicode_tables \<Rightarrow> raw_message \<Rightarrow> jobSnapshot option" where
  "decodeSnapshot U raw =
     (case raw of
        Some (JObject fs) \<Rightarrow>
          (case (stringFields U ''job_id'' [] fs, stringFields U ''command'' [] fs, stringFields U ''status'' [] fs, intFields U ''exit_code'' 0 fs) of
             (Some j, Some c, Some s, Some x) \<Rightarrow> Some \<lparr>jsJobID = j, jsCommand = c, jsStatus = s, jsExitCode = x\<rparr>
           | _ \<Rightarrow> None)
      | _ \<Rightarrow> None)"

definition emDash :: string where "emDash = [CHR 0xE2, CHR 0x80, CHR 0x94]"

definition observeJobStatus :: "unicode_tables \<Rightarrow> (string \<Rightarrow> raw_message) \<Rightarrow> string \<Rightarrow> Observation option" where
  "observeJobStatus U parse raw =
     (let r = TrimSpace raw in
      if \<not> HasPrefix r ''{'' \<or> \<not> Contains r ([DQ] @ ''status'' @ [DQ]) \<or> \<not> Contains r ([DQ] @ ''job_id'' @ [DQ]) then None
      else
        (case decodeSnapshot U (parse r) of
           None \<Rightarrow> None
         | Some snap \<Rightarrow>
             Some (if jsStatus snap = ''failed''
                   then \<lparr>obTool = ''job_status'', obOK = False, obFailureType = classifyByCommand U (jsCommand snap),
                         obSummary = ''background job '' @ jsJobID snap @ '' failed (exit '' @ intString (jsExitCode snap) @ '') '' @ emDash @
                           '' read job_logs for detail'', obSalient = []\<rparr>
                   else \<lparr>obTool = ''job_status'', obOK = True, obFailureType = FailureNone,
                         obSummary = (if jsStatus snap = ''running'' then ''background job '' @ jsJobID snap @ '' still running''
                                      else if jsStatus snap = ''canceled'' then ''background job '' @ jsJobID snap @ '' canceled''
                                      else []), obSalient = []\<rparr>)))"

definition statusFromLogsHeader :: "string \<Rightarrow> string" where
  "statusFromLogsHeader header =
     (case (LastIndexByte header (CHR ''[''), LastIndexByte header (CHR '']'')) of
        (Some l, Some r) \<Rightarrow> if r > l then take (r - (l + 1)) (drop (l + 1) header) else []
      | _ \<Rightarrow> [])"

definition summarizeJobFailure :: "string \<Rightarrow> string" where
  "summarizeJobFailure ft =
     (if ft = FailureCompile then ''background build failed''
      else if ft = FailureTest then ''background tests failed''
      else if ft = FailureLint then ''background lint failed''
      else ''background job failed'')"

definition cutLine :: "string \<Rightarrow> string \<times> string" where
  "cutLine s = (takeWhile (\<lambda>c. c \<noteq> NL) s, tl (dropWhile (\<lambda>c. c \<noteq> NL) s))"

definition observeJobLogs :: "unicode_tables \<Rightarrow> string \<Rightarrow> Observation option" where
  "observeJobLogs U raw =
     (if \<not> HasPrefix raw ''job '' then None
      else
        (let (header, body) = cutLine raw in
         if statusFromLogsHeader header \<noteq> ''failed''
         then Some \<lparr>obTool = ''job_logs'', obOK = True, obFailureType = FailureNone, obSummary = [], obSalient = []\<rparr>
         else
           (let ft = classifyOutput U body in
            Some \<lparr>obTool = ''job_logs'', obOK = False, obFailureType = ft, obSummary = summarizeJobFailure ft,
                  obSalient = extractSalient U body []\<rparr>)))"

subsection \<open>Observe\<close>

definition filesystemFailureMarkers :: "string list" where
  "filesystemFailureMarkers =
     [''Could not find the '' @ [SQ] @ ''old'' @ [SQ] @ '' text'', ''The '' @ [SQ] @ ''old'' @ [SQ] @ '' text appears '',
      ''The '' @ [SQ] @ ''old'' @ [SQ] @ '' text is empty'',
      ''The '' @ [SQ] @ ''old'' @ [SQ] @ '' and '' @ [SQ] @ ''new'' @ [SQ] @ '' text are identical'',
      ''Could not open '', ''is a directory, not a file.'', ''is not a UTF-8 text file.'', ''File too large to edit'',
      ''already exists. Use edit_file'', ''Content too large:'', ''Patch failed'', ''Patch does not apply'']"

definition isFilesystemFailure :: "string \<Rightarrow> bool" where
  "isFilesystemFailure raw = list_ex (Contains raw) filesystemFailureMarkers"

definition firstLine :: "string \<Rightarrow> string" where
  "firstLine s = TrimSpace (takeWhile (\<lambda>c. c \<noteq> NL) s)"

definition observeGeneric :: "string \<Rightarrow> string \<Rightarrow> Observation" where
  "observeGeneric tool raw =
     (let r = TrimSpace raw in
      if HasPrefix r ''Tool error:'' \<or>
         (tool \<in> set [''edit_file'', ''insert_file'', ''create_file'', ''apply_patch''] \<and> isFilesystemFailure r)
      then \<lparr>obTool = tool, obOK = False, obFailureType = FailureRuntime, obSummary = firstLine r, obSalient = []\<rparr>
      else \<lparr>obTool = tool, obOK = True, obFailureType = FailureNone, obSummary = [], obSalient = []\<rparr>)"

definition Observe :: "unicode_tables \<Rightarrow> (string \<Rightarrow> raw_message) \<Rightarrow> string \<Rightarrow> string \<Rightarrow> Observation" where
  "Observe U parse tool raw =
     (if tool = ''run_command''
      then (case parseCommandResult U parse raw of Some res \<Rightarrow> observeCommand U res | None \<Rightarrow> observeGeneric tool raw)
      else if tool = ''job_status'' \<or> tool = ''job_wait''
      then (case observeJobStatus U parse raw of Some obs \<Rightarrow> obs\<lparr>obTool := tool\<rparr> | None \<Rightarrow> observeGeneric tool raw)
      else if tool = ''job_logs''
      then (case observeJobLogs U raw of Some obs \<Rightarrow> obs | None \<Rightarrow> observeGeneric tool raw)
      else observeGeneric tool raw)"

subsection \<open>Vocabulary\<close>

definition failureWords :: "string set" where
  "failureWords = {FailureNone, FailureCompile, FailureTest, FailureLint, FailureRuntime, FailureTimeout, FailureBlocked, FailureEnvironment}"

definition demoResultParse :: "string \<Rightarrow> raw_message" where
  "demoResultParse s = Some (JObject [(''command'', JString ''go test''), (''exit_code'', JNumber ''1'')])"

subsection \<open>Trimming\<close>

lemma suffix_after: "xs @ d # zs = ys @ t \<Longrightarrow> d \<notin> set ys \<Longrightarrow> \<exists>u. t = u @ d # zs"
proof (induction ys arbitrary: xs)
  case (Cons y ys)
  then show ?case by (cases xs) auto
qed auto

lemma TrimSpace_keeps:
  assumes a: "a = c # as @ [d]" and c: "c \<notin> set (concat spaceRunes)" and d: "d \<notin> set (concat spaceRunes)"
  shows "\<exists>b'. TrimSpace (a @ b) = a @ b'"
proof -
  have l: "trimLeftRunes spaceRunes (a @ b) = a @ b"
  proof (rule trimLeftRunes_id)
    fix w
    assume w: "w \<in> set spaceRunes"
    then have "w \<noteq> []" "hd w \<in> set (concat spaceRunes)" by (auto simp: spaceRunes_def)
    then show "\<not> HasPrefix (a @ b) w" using a c by (cases w) auto
  qed
  obtain ws where ws: "set ws \<subseteq> set (map rev spaceRunes)"
      "rev (a @ b) = concat ws @ trimLeftRunes (map rev spaceRunes) (rev (a @ b))"
    using trimLeftRunes_decomp by blast
  let ?t = "trimLeftRunes (map rev spaceRunes) (rev (a @ b))"
  have "d \<notin> set (concat ws)" using ws(1) d by (auto simp: spaceRunes_def subset_iff)
  moreover have "rev b @ d # rev as @ [c] = concat ws @ ?t" using ws(2) a by simp
  ultimately obtain u where "?t = u @ d # rev as @ [c]" using suffix_after [of "rev b" d "rev as @ [c]"] by blast
  then have "TrimSpace (a @ b) = a @ rev u" unfolding TrimSpace_def l using a by simp
  then show ?thesis by blast
qed

lemma takeWhile_stop: "(\<And>c. c \<in> set xs \<Longrightarrow> P c) \<Longrightarrow> \<not> P y \<Longrightarrow> takeWhile P (xs @ y # ys) = xs"
  by (induction xs) auto

lemma obsPrefix_ends: "CHR ''['' \<notin> set (concat spaceRunes)" "CHR ''-'' \<notin> set (concat spaceRunes)"
  by code_simp+

lemma marker_plain:
  assumes "\<not> obOK o1 \<longrightarrow> (\<forall>c \<in> set (obFailureType o1). c \<noteq> CHR '' '' \<and> c \<noteq> NL)"
  shows "parseObsMarker (Render quote o1 raw) = (if obOK o1 then MarkerOK else MarkerFailure (obFailureType o1))"
proof -
  define verdict where "verdict = (if obOK o1 then ''ok'' else ''failure='' @ obFailureType o1)"
  define mid where "mid = (if obSummary o1 \<noteq> [] then '' summary='' @ quote (obSummary o1) else []) @ [NL] @
     concat (map (\<lambda>line. ''  '' @ line @ [NL]) (obSalient o1)) @ ''--''"
  have r: "Render quote o1 raw = (CHR ''['' # (''observation] '' @ verdict @ mid) @ [CHR ''-'']) @ NL # raw"
    by (simp add: Render_def verdict_def mid_def obsPrefix_def)
  obtain b where "TrimSpace (Render quote o1 raw) = (CHR ''['' # (''observation] '' @ verdict @ mid) @ [CHR ''-'']) @ b"
    using TrimSpace_keeps [OF refl obsPrefix_ends] unfolding r by blast
  then have t: "TrimSpace (Render quote o1 raw) = obsPrefix @ verdict @ mid @ CHR ''-'' # b" by (simp add: obsPrefix_def)
  have m: "\<exists>y ys. mid @ CHR ''-'' # b = y # ys \<and> (y = CHR '' '' \<or> y = NL)" by (auto simp: mid_def)
  have p: "HasPrefix (xs @ ys) xs" for xs ys by (simp add: HasPrefix_iff)
  show ?thesis
  proof (cases "obOK o1")
    case True
    then show ?thesis by (simp add: parseObsMarker_def t p verdict_def)
  next
    case False
    obtain y ys where y: "mid @ CHR ''-'' # b = y # ys" "y = CHR '' '' \<or> y = NL" using m by blast
    have "takeWhile (\<lambda>c. c \<noteq> CHR '' '' \<and> c \<noteq> NL) (obFailureType o1 @ mid @ CHR ''-'' # b) = obFailureType o1"
      unfolding y(1) by (rule takeWhile_stop) (use assms False y(2) in auto)
    then show ?thesis using False by (simp add: parseObsMarker_def t p verdict_def)
  qed
qed

subsection \<open>Classification\<close>

lemma words [simp]:
  "FailureNone \<in> failureWords" "FailureRuntime \<in> failureWords"
  "classifyRunCommand U res \<in> failureWords" "classifyByCommand U cmd \<in> failureWords" "classifyOutput U out \<in> failureWords"
  by (simp_all add: classifyRunCommand_def classifyByCommand_def classifyOutput_def Let_def failureWords_def)

lemma observeGeneric_word [simp]: "obFailureType (observeGeneric tool raw) \<in> failureWords"
  by (simp add: observeGeneric_def Let_def)

lemma observeCommand_type [simp]: "obFailureType (observeCommand U res) = classifyRunCommand U res"
  by (simp add: observeCommand_def Let_def)

lemma observeJobStatus_word: "observeJobStatus U parse raw = Some obs \<Longrightarrow> obFailureType obs \<in> failureWords"
  by (auto simp: observeJobStatus_def Let_def split: if_splits option.splits)

lemma observeJobLogs_word: "observeJobLogs U raw = Some obs \<Longrightarrow> obFailureType obs \<in> failureWords"
  by (auto simp: observeJobLogs_def cutLine_def Let_def split: if_splits)

lemma Observe_word: "obFailureType (Observe U parse tool raw) \<in> failureWords"
  using observeJobStatus_word [of U parse raw] observeJobLogs_word [of U raw]
  by (auto simp: Observe_def split: option.splits)

lemma Observe_plain: "c \<in> set (obFailureType (Observe U parse tool raw)) \<Longrightarrow> c \<noteq> CHR '' '' \<and> c \<noteq> NL"
  using Observe_word [of U parse tool raw] by (auto simp: failure_types failureWords_def)

subsection \<open>Sizes\<close>

lemma rune_bytes: "r \<in> set (runesOf s) \<Longrightarrow> length r \<le> 4"
proof (induction s rule: runesOf.induct)
  case (2 c s)
  then show ?case using runeLen_le4 [of "c # s"]
    by (cases "runeLen (c # s) = 0") (auto simp: replacementRune_def)
qed simp

lemma runes_length: "length s \<le> 4 * length (runesOf s)"
proof (induction s rule: runesOf.induct)
  case (2 c s)
  show ?case
  proof (cases "runeLen (c # s) = 0")
    case False
    then have "length (drop (runeLen (c # s)) (c # s)) \<le> 4 * length (runesOf (drop (runeLen (c # s)) (c # s)))" using 2(2) by blast
    then show ?thesis using False runeLen_le4 [of "c # s"] by (simp del: runeLen.simps)
  qed (use 2(1) in simp)
qed simp

lemma concat_bytes: "(\<And>x. x \<in> set xs \<Longrightarrow> length x \<le> 4) \<Longrightarrow> length (concat xs) \<le> 4 * length xs"
  by (induction xs) fastforce+

lemma truncateLine_bytes: "length (truncateLine s) \<le> 1203"
proof -
  have "length (concat (take 300 (runesOf s))) \<le> 4 * length (take 300 (runesOf s))"
    by (rule concat_bytes) (meson in_set_takeD rune_bytes)
  then show ?thesis using runes_length [of s] by (auto simp: truncateLine_def Let_def MaxLineLength_def ellipsis_def)
qed

lemma scanLines_bound:
  "length (fst acc) \<le> MaxSalientLines \<Longrightarrow> \<forall>l \<in> set (fst acc). length l \<le> 1203 \<Longrightarrow>
   length (fst (scanLines U ls acc)) \<le> MaxSalientLines \<and> (\<forall>l \<in> set (fst (scanLines U ls acc)). length l \<le> 1203)"
proof (induction ls arbitrary: acc)
  case (Cons line ls)
  let ?acc = "if isSalient U line then addLine line acc else acc"
  show ?case
  proof (cases "length (fst acc) \<ge> MaxSalientLines")
    case False
    then have "length (fst ?acc) \<le> MaxSalientLines" "\<forall>l \<in> set (fst ?acc). length l \<le> 1203"
      using Cons.prems truncateLine_bytes by (auto simp: addLine_def Let_def)
    then show ?thesis using Cons.IH False by simp
  qed (use Cons.prems in simp)
qed simp

lemma extractSalient_bound: "length (extractSalient U so se) \<le> 20 \<and> (\<forall>l \<in> set (extractSalient U so se). length l \<le> 1203)"
proof -
  let ?s1 = "scanLines U (SplitByte NL se) ([], [])" and ?last = "lastNonEmptyLines (firstNonEmpty se so) 5"
  let ?s2 = "scanLines U (SplitByte NL so) ?s1"
  have "length (fst ?s2) \<le> MaxSalientLines \<and> (\<forall>l \<in> set (fst ?s2). length l \<le> 1203)"
    by (rule scanLines_bound; rule scanLines_bound [THEN conjunct1] scanLines_bound [THEN conjunct2]) simp_all
  moreover have "length ?last \<le> 5 \<and> (\<forall>l \<in> set ?last. length l \<le> 1203)"
    using truncateLine_bytes by (auto simp: lastNonEmptyLines_def Let_def dest!: in_set_dropD)
  ultimately show ?thesis by (auto simp: extractSalient_def Let_def MaxSalientLines_def dest: in_set_takeD)
qed

subsection \<open>Properties\<close>

text \<open>What the observer writes in front of a result is what reflection reads back: the marker of a rendered observation is
  success or the failure type the observer found, whatever the result, the summary and the salient lines contain.\<close>

theorem marker_roundtrip:
  "parseObsMarker (Render quote (Observe U parse tool raw) shown) =
     (if obOK (Observe U parse tool raw) then MarkerOK else MarkerFailure (obFailureType (Observe U parse tool raw)))"
  by (rule marker_plain) (use Observe_plain in blast)

text \<open>The verdict on a command: success exactly for exit code 0 of a command that was neither refused nor timed out; a
  command that never ran to a verdict is not reported as a failure of the change; and the salient lines stay small.\<close>

theorem Observe_command:
  assumes "parseCommandResult U parse raw = Some res"
  defines "obs \<equiv> Observe U parse ''run_command'' raw"
  shows "(obOK obs \<longleftrightarrow> crDecision res \<noteq> ''block'' \<and> \<not> isTimeout U (crNote res) \<and> crExitCode res = 0) \<and>
    (obOK obs \<longleftrightarrow> obFailureType obs = FailureNone) \<and>
    (crExitCode res = - 1 \<longrightarrow> obFailureType obs \<in> {FailureBlocked, FailureTimeout, FailureEnvironment}) \<and>
    (obFailureType obs = FailureTest \<longrightarrow> containsAny (ToLower U (crStderr res @ [NL] @ crStdout res)) testMarkers \<and> \<not> isLintCommand (crCommand res)) \<and>
    length (obSalient obs) \<le> 20 \<and> (\<forall>l \<in> set (obSalient obs). length l \<le> 1203)"
proof -
  have o: "obs = observeCommand U res" using assms by (simp add: Observe_def)
  have c: "classifyRunCommand U res = FailureNone \<longleftrightarrow> crDecision res \<noteq> ''block'' \<and> \<not> isTimeout U (crNote res) \<and> crExitCode res = 0"
    by (simp add: classifyRunCommand_def Let_def failure_types)
  have ok: "obOK obs \<longleftrightarrow> classifyRunCommand U res = FailureNone" by (simp add: o observeCommand_def Let_def)
  have "crExitCode res = - 1 \<Longrightarrow> classifyRunCommand U res \<in> {FailureBlocked, FailureTimeout, FailureEnvironment}"
    by (simp add: classifyRunCommand_def)
  moreover have "classifyRunCommand U res = FailureTest \<Longrightarrow>
      containsAny (ToLower U (crStderr res @ [NL] @ crStdout res)) testMarkers \<and> \<not> isLintCommand (crCommand res)"
    by (simp add: classifyRunCommand_def Let_def failure_types split: if_splits)
  moreover have "length (obSalient obs) \<le> 20 \<and> (\<forall>l \<in> set (obSalient obs). length l \<le> 1203)"
    using extractSalient_bound by (simp add: o observeCommand_def Let_def)
  ultimately show ?thesis using c ok by (simp add: o)
qed

theorem Observe_command_witness: "\<not> obOK (Observe asciiTables demoResultParse ''run_command'' ''{}'')"
proof -
  have "parseCommandResult asciiTables demoResultParse ''{}'' =
      Some \<lparr>crCommand = ''go test'', crStdout = [], crStderr = [], crExitCode = 1, crDecision = [], crNote = []\<rparr>" by code_simp
  from Observe_command [OF this] show ?thesis by simp
qed

text \<open>A background job that failed is never reported as a success, whether its status or its log is read.\<close>

theorem failed_job_seen:
  assumes "tool \<in> {''job_status'', ''job_wait''} \<and> HasPrefix (TrimSpace raw) ''{'' \<and> Contains (TrimSpace raw) ([DQ] @ ''status'' @ [DQ]) \<and>
      Contains (TrimSpace raw) ([DQ] @ ''job_id'' @ [DQ]) \<and> decodeSnapshot U (parse (TrimSpace raw)) = Some snap \<and> jsStatus snap = ''failed'' \<or>
    tool = ''job_logs'' \<and> HasPrefix raw ''job '' \<and> statusFromLogsHeader (fst (cutLine raw)) = ''failed''"
  shows "\<not> obOK (Observe U parse tool raw) \<and> parseObsMarker (Render quote (Observe U parse tool raw) shown) \<noteq> MarkerOK"
proof -
  have "\<not> obOK (Observe U parse tool raw)"
    using assms by (auto simp: Observe_def observeJobStatus_def observeJobLogs_def Let_def split: prod.splits)
  then show ?thesis using marker_plain [of "Observe U parse tool raw" quote shown] Observe_plain [of _ U parse tool raw] by auto
qed

theorem failed_job_seen_witness: "\<not> obOK (Observe asciiTables demoResultParse ''job_logs'' (''job job_1 [failed]'' @ [NL] @ ''boom''))"
proof -
  have "''job_logs'' = ''job_logs'' \<and> HasPrefix (''job job_1 [failed]'' @ [NL] @ ''boom'') ''job '' \<and>
      statusFromLogsHeader (fst (cutLine (''job job_1 [failed]'' @ [NL] @ ''boom''))) = ''failed''" by code_simp
  from failed_job_seen [OF disjI2, OF this] show ?thesis by blast
qed

text \<open>A successful edit of a line that holds one of the failure texts is reported as a failure.\<close>

theorem edit_success_reported_failed:
  "obOK (Observe asciiTables demoResultParse ''edit_file'' (''Edited a.go at line 1:'' @ [NL] @ ''+1 return Errorf(Could not open %s)'')) = False"
  by code_simp

end
