(* ===== verification/Tool_Batch.thy ===== *)
theory Tool_Batch
  imports Reference Observation Approve Truncate File_Tools
begin

section \<open>Tool calls of one assistant message\<close>

text \<open>
  \<^verbatim>\<open>internal/agent/tool_batch.go\<close>: the calls of one assistant message are planned, partitioned into groups, run and committed.
  With it \<^verbatim>\<open>validation.go\<close>, \<^verbatim>\<open>side_effect.go\<close> and \<^verbatim>\<open>result.go\<close> of \<^verbatim>\<open>internal/tools\<close>, \<^verbatim>\<open>tool_result_observation.go\<close>, \<^verbatim>\<open>hook.go\<close>, the turn result and
  its file statistics (\<^verbatim>\<open>loop.go\<close>, \<^verbatim>\<open>event.go\<close>) and the asset references of \<^verbatim>\<open>internal/assetref\<close>.

  Arguments are parsed JSON: \<open>None\<close> for no bytes, \<open>Some None\<close> for bytes that are not JSON.  What the tools, the hooks, the client, the
  operating system and the clock answer is in the environment, by the index of the step that asks, so two calls
  may see different worlds.  Calls of one group run at the same time in the code; here they are run in
  order, which shows in nothing but the order of effects within a group.  An error is represented by what
  \<^verbatim>\<open>errors.Is\<close> and \<^verbatim>\<open>errors.As\<close> say about it.  The schema library is third-party code and a parameter.
\<close>

subsection \<open>Data\<close>

type_synonym args = "raw_message option"

definition argsOf :: "(string \<Rightarrow> raw_message) \<Rightarrow> string \<Rightarrow> args" where
  "argsOf parse s = (if s = [] then None else Some (parse s))"

definition rawOf :: "args \<Rightarrow> raw_message" where
  "rawOf a = (case a of None \<Rightarrow> None | Some r \<Rightarrow> r)"

record ToolFailure =
  tfKind :: string
  tfMessage :: string

record ToolUsage =
  tuToolCallID :: string
  tuToolName :: string
  tuProvider :: string
  tuOperation :: string
  tuProviderCredits :: int
  tuBillingUnits :: int
  tuFundingSource :: string
  tuReservationID :: string
  tuPricingVersion :: int
  tuReplayed :: bool

record ModelUsage =
  muPromptTokens :: int
  muCompletionTokens :: int
  muTotalTokens :: int
  muBillingUnits :: int
  muCachedPromptTokens :: int

record AssetRange =
  arStartLine :: int
  arStartColumn :: int
  arEndLine :: int
  arEndColumn :: int

record AssetRef =
  asID :: string
  asKind :: string
  asURI :: string
  asDisplayName :: string
  asWorkspaceID :: string
  asWorkspaceRelativePath :: string
  asAbsolutePath :: string
  asRange :: "AssetRange option"
  asPreview :: string
  asMIMEType :: string
  asMetadata :: raw_message
  asSourceTurnID :: string
  asSourceCallID :: string

record ToolResult =
  trReceipts :: "string list"
  trWaitFor :: "string list"
  trContent :: string
  trFailure :: "ToolFailure option"
  trOutput :: raw_message
  trAssets :: "AssetRef list"
  trUsage :: "ToolUsage option"
  trModelUsage :: "ModelUsage option"
  trNestedUsages :: "ToolUsage list"
  trWrote :: "FileWrite list"
  trNestedWrites :: "FileWrite list"

record exec_error =
  eeText :: string
  eeCanceled :: bool
  eeDeadline :: bool
  eeNotExist :: bool
  eeFatal :: bool

record ToolCallResult =     \<comment> \<open>of a client\<close>
  cresContent :: string
  cresOutput :: raw_message
  cresAssets :: "AssetRef list"
  cresIsError :: bool
  cresFailure :: "ToolFailure option"

record Todo =
  tdContent :: string
  tdActiveForm :: string
  tdStatus :: string

text \<open>A tool and the optional interfaces it implements.\<close>

record tool =
  tlName :: string
  tlSchema :: args                                                \<comment> \<open>\<open>InputSchema\<close>\<close>
  tlSideEffects :: "bool option"
  tlSideEffectsFor :: "(args \<Rightarrow> bool) option"
  tlInspect :: "(args \<Rightarrow> string \<Rightarrow> string option) option"
  tlStrictClient :: bool
  tlAnnounceSkill :: "(args \<Rightarrow> (string \<times> string \<times> string) option) option"
  tlAnnounceTodos :: "(args \<Rightarrow> Todo list option) option"

definition HasSideEffects :: "tool \<Rightarrow> bool" where
  "HasSideEffects t = (tlSideEffects t = Some True)"

definition HasSideEffectsFor :: "tool \<Rightarrow> args \<Rightarrow> bool" where
  "HasSideEffectsFor t input = (case tlSideEffectsFor t of Some f \<Rightarrow> f input | None \<Rightarrow> HasSideEffects t)"

subsection \<open>Validation of arguments\<close>

datatype schema = Schema (scRequired: "string list") (scProperties: "(string \<times> schema) list") (scItems: "schema option")

record schema_lib =
  slDecode :: "json \<Rightarrow> schema option"
  slResolves :: "schema \<Rightarrow> bool"
  slValidates :: "schema \<Rightarrow> json \<Rightarrow> bool"

record ArgumentError =
  aeCode :: string
  aeTool :: string
  aeField :: string
  aeMessage :: string
  aeRetryable :: bool

definition argumentErrorJSON :: "ArgumentError \<Rightarrow> json" where
  "argumentErrorJSON e =
     JObject [(''error'', JObject ([(''code'', JString (aeCode e)), (''tool'', JString (aeTool e))] @
       (if aeField e = [] then [] else [(''field'', JString (aeField e))]) @
       [(''message'', JString (aeMessage e)), (''retryable_by_model'', JBool (aeRetryable e))]))]"

definition firstField :: "string list \<Rightarrow> string" where
  "firstField fs = (case find (\<lambda>f. f \<noteq> []) fs of Some f \<Rightarrow> f | None \<Rightarrow> [])"

lemma map_of_json_size: "map_of kvs k = Some v \<Longrightarrow> size v < size (JObject kvs)"
  by (induction kvs) (auto split: if_splits)

lemma nth_json_size: "x \<in> set xs \<Longrightarrow> size x < size (JArray xs)"
  by (induction xs) auto

function missingRequired :: "schema option \<Rightarrow> json \<Rightarrow> string \<Rightarrow> string" where
  "missingRequired None v path = []"
| "missingRequired (Some s) (JObject kvs) path =
     (case find (\<lambda>name. name \<notin> fst ` set kvs) (scRequired s) of
        Some name \<Rightarrow> path @ name
      | None \<Rightarrow>
          firstField (map (\<lambda>key. case map_of kvs key of
                               None \<Rightarrow> []
                             | Some v \<Rightarrow> missingRequired (map_of (scProperties s) key) v (path @ key @ ''.''))
                        (sort (remdups (map fst (scProperties s))))))"
| "missingRequired (Some s) (JArray xs) path =
     firstField (map (\<lambda>(i, v). missingRequired (scItems s) v (path @ natString i @ ''.'')) (zip [0..<length xs] xs))"
| "missingRequired (Some s) JNull path = []"
| "missingRequired (Some s) (JBool b) path = []"
| "missingRequired (Some s) (JNumber t) path = []"
| "missingRequired (Some s) (JString t) path = []"
  by pat_completeness auto
termination
  by (relation "measure (\<lambda>(s, v, path). size v)") (auto dest: map_of_json_size set_zip_rightD simp del: json.size intro: nth_json_size)

fun boolPtrFields :: "unicode_tables \<Rightarrow> string \<Rightarrow> bool option \<Rightarrow> (string \<times> json) list \<Rightarrow> bool option option" where
  "boolPtrFields U name cur [] = Some cur"
| "boolPtrFields U name cur ((k, v) # fs) =
     (if EqualFold U k name
      then (case v of JBool b \<Rightarrow> boolPtrFields U name (Some b) fs | JNull \<Rightarrow> boolPtrFields U name None fs | _ \<Rightarrow> None)
      else boolPtrFields U name cur fs)"

fun mapFields :: "unicode_tables \<Rightarrow> string \<Rightarrow> string list \<Rightarrow> (string \<times> json) list \<Rightarrow> string list option" where
  "mapFields U name cur [] = Some cur"
| "mapFields U name cur ((k, v) # fs) =
     (if EqualFold U k name
      then (case v of JObject kvs \<Rightarrow> mapFields U name (cur @ map fst kvs) fs | JNull \<Rightarrow> mapFields U name [] fs | _ \<Rightarrow> None)
      else mapFields U name cur fs)"

text \<open>The keys a closed root object does not allow.\<close>

definition unknownFields :: "unicode_tables \<Rightarrow> json \<Rightarrow> json \<Rightarrow> (string list \<times> string list) option" where
  "unknownFields U schema value =
     (case (schema, value) of
        (JObject fs, JObject object) \<Rightarrow>
          (case (boolPtrFields U ''additionalProperties'' None fs, mapFields U ''properties'' [] fs, mapFields U ''patternProperties'' [] fs) of
             (Some (Some False), Some props, Some []) \<Rightarrow>
               (let unknown = filter (\<lambda>k. k \<notin> set props) (map fst object)
                in if unknown = [] then None else Some (sort unknown, sort (remdups props)))
           | _ \<Rightarrow> None)
      | _ \<Rightarrow> None)"

definition ValidateInput ::
  "unicode_tables \<Rightarrow> (string \<Rightarrow> string) \<Rightarrow> schema_lib \<Rightarrow> tool \<Rightarrow> args \<Rightarrow> ArgumentError option" where
  "ValidateInput U ft L t input =
     (let fail = (\<lambda>field msg. Some \<lparr>aeCode = ''invalid_tool_arguments'', aeTool = tlName t, aeField = field, aeMessage = msg, aeRetryable = True\<rparr>);
          bad = (\<lambda>msg. Some \<lparr>aeCode = ''invalid_tool_schema'', aeTool = tlName t, aeField = [], aeMessage = msg, aeRetryable = False\<rparr>)
      in case inputValue ft input of
           None \<Rightarrow> fail [] ''arguments must be valid JSON''
         | Some value \<Rightarrow>
             (case tlSchema t of
                None \<Rightarrow> None
              | Some None \<Rightarrow> bad ''tool input schema is invalid''
              | Some (Some raw) \<Rightarrow>
                  (case slDecode L raw of
                     None \<Rightarrow> bad ''tool input schema is invalid''
                   | Some sch \<Rightarrow>
                       if \<not> slResolves L sch then bad ''tool input schema cannot be resolved locally''
                       else if slValidates L sch value then None
                       else
                         (let field = missingRequired (Some sch) value [] in
                          if field \<noteq> [] then fail field ''required field is missing''
                          else
                            (case unknownFields U raw value of
                               Some (unknown, allowed) \<Rightarrow>
                                 fail [] (''unknown fields: '' @ Join unknown '', '' @ ''; allowed fields: '' @ Join allowed '', '')
                             | None \<Rightarrow> fail [] ''arguments do not match the tool input schema (check types, enum values and constraints)'')))))"

subsection \<open>The turn\<close>

record TurnDiffStat =
  dsFiles :: "FileWrite list"
  dsFilesChanged :: nat
  dsAddedLines :: nat
  dsRemovedLines :: nat

definition mergeWriteStatus :: "write_status \<Rightarrow> write_status \<Rightarrow> write_status" where
  "mergeWriteStatus old new =
     (if old = WriteDeleted \<or> new = WriteDeleted then WriteDeleted
      else if old = WriteAdded \<or> new = WriteAdded then WriteAdded else WriteModified)"

definition mergeWrite :: "FileWrite \<Rightarrow> FileWrite \<Rightarrow> FileWrite" where
  "mergeWrite w f = f\<lparr>fwAdded := fwAdded f + fwAdded w, fwRemoved := fwRemoved f + fwRemoved w,
     fwStatus := mergeWriteStatus (fwStatus f) (fwStatus w)\<rparr>"

definition addWrite :: "FileWrite \<Rightarrow> TurnDiffStat \<Rightarrow> TurnDiffStat" where
  "addWrite w d =
     (if fwPath w = [] then d
      else
        (let files = (if fwPath w \<in> fwPath ` set (dsFiles d)
                      then map (\<lambda>f. if fwPath f = fwPath w then mergeWrite w f else f) (dsFiles d)
                      else dsFiles d @ [w])
         in \<lparr>dsFiles = files, dsFilesChanged = length files, dsAddedLines = dsAddedLines d + fwAdded w,
             dsRemovedLines = dsRemovedLines d + fwRemoved w\<rparr>))"

definition noDiff :: TurnDiffStat where
  "noDiff = \<lparr>dsFiles = [], dsFilesChanged = 0, dsAddedLines = 0, dsRemovedLines = 0\<rparr>"

record Step =
  spIndex :: int
  spToolName :: string
  spToolInput :: args
  spObservation :: string
  spError :: string
  spStartedAt :: int
  spFinishedAt :: int

record TurnResult =
  tuTurnID :: string
  tuDeduplicated :: bool
  tuWaitingBackground :: bool
  tuFinal :: string
  tuSteps :: "Step list"
  tuPromptTokens :: int
  tuTokensUsed :: int
  tuModelBillingUnits :: int
  tuToolBillingUnits :: int
  tuTotalBillingUnits :: int
  tuExecutedToolCalls :: nat
  tuSucceededToolCalls :: nat
  tuBillableToolCalls :: nat
  tuDiffStat :: "TurnDiffStat option"
  tuBilled :: "string list"        \<comment> \<open>\<open>billedToolCallIDs\<close>\<close>
  tuHitStepLimit :: bool

definition applyToolUsage :: "ToolUsage \<Rightarrow> string \<Rightarrow> TurnResult \<Rightarrow> TurnResult" where
  "applyToolUsage u fallback t =
     (let callID = (if tuToolCallID u = [] then fallback else tuToolCallID u) in
      if callID \<in> set (tuBilled t) then t
      else t\<lparr>tuBilled := tuBilled t @ [callID], tuBillableToolCalls := tuBillableToolCalls t + 1,
             tuToolBillingUnits := tuToolBillingUnits t + tuBillingUnits u,
             tuTotalBillingUnits := tuTotalBillingUnits t + tuBillingUnits u\<rparr>)"

subsection \<open>Review gates\<close>

record gates =
  gtPlannedMutation :: bool
  gtReviewPassed :: bool
  gtReviewCount :: nat
  gtMutatedCode :: bool

definition hasPassingReviewVerdict :: "unicode_tables \<Rightarrow> string \<Rightarrow> bool" where
  "hasPassingReviewVerdict U obs =
     (case find (\<lambda>l. l \<noteq> []) (map TrimSpace (SplitByte NL obs)) of
        None \<Rightarrow> False
      | Some line \<Rightarrow> EqualFold U line ''VERDICT: PASS'')"

definition passingReview :: "unicode_tables \<Rightarrow> string \<Rightarrow> args \<Rightarrow> string \<Rightarrow> bool" where
  "passingReview U toolName input obs =
     (toolName = ''task'' \<and> hasPassingReviewVerdict U obs \<and> unmarshalString U ''subject_path'' (rawOf input) \<noteq> None \<and>
      unmarshalString U ''kind'' (rawOf input) = Some ''change_review'')"

definition updateHarnessGates :: "unicode_tables \<Rightarrow> string \<Rightarrow> args \<Rightarrow> string \<Rightarrow> bool \<Rightarrow> gates \<Rightarrow> gates" where
  "updateHarnessGates U toolName input obs sideEffecting g =
     (if sideEffecting
      then g\<lparr>gtPlannedMutation := True, gtReviewPassed := False, gtReviewCount := 0,
             gtMutatedCode := (gtMutatedCode g \<or>
               (IsMutatingTool toolName \<and> list_ex (IsVerifiableCode U) (mutatedPaths U toolName (rawOf input))))\<rparr>
      else if passingReview U toolName input obs
      then g\<lparr>gtReviewPassed := True, gtReviewCount := gtReviewCount g + 1\<rparr>
      else g)"

subsection \<open>Environment and plans\<close>

record hook =
  hkPre :: "string \<Rightarrow> args \<Rightarrow> string option"
  hkPostResult :: "string \<Rightarrow> args \<Rightarrow> string \<Rightarrow> bool \<Rightarrow> raw_message \<Rightarrow> (string \<times> bool \<times> raw_message) option"

record batch_env =
  eTables :: unicode_tables
  eFS :: fsenv
  eParse :: "string \<Rightarrow> raw_message"
  eMarshal :: "json \<Rightarrow> string"
  eFloatText :: "string \<Rightarrow> string"
  eParseTime :: "string \<Rightarrow> int option"
  eTimeText :: "int \<Rightarrow> string"
  eJSONError :: "string \<Rightarrow> string"                     \<comment> \<open>what \<^verbatim>\<open>encoding/json\<close> says of malformed text\<close>
  eQuote :: "string \<Rightarrow> string"
  ePathEscape :: "string \<Rightarrow> string"
  eSchemas :: schema_lib
  eTools :: "string \<Rightarrow> tool option"
  eAdvertised :: "string \<Rightarrow> bool"
  eMaxParallelTools :: int
  eMaxWebSearches :: int
  eClientWaiter :: "(string \<Rightarrow> ToolCallResult \<times> exec_error option) option"
  eHook :: "hook option"
  eObserver :: "(string \<Rightarrow> string \<Rightarrow> Observation) option"
  eRuntimeInputs :: bool
  eGitCache :: bool
  eExecute :: "int \<Rightarrow> args \<Rightarrow> exec_error + ToolResult"
  eCtxErr :: "int \<Rightarrow> exec_error option"                \<comment> \<open>before the group whose first step this is\<close>
  ePlanNow :: "int \<Rightarrow> int"
  eCommitNow :: "int \<Rightarrow> int"
  eCutNow :: int
  eTurnID :: string
  eLocalAssets :: "AssetRef list \<Rightarrow> LocalAssetRef list" \<comment> \<open>\<open>visionToolLocalAssets\<close>: stages image files\<close>

definition webSearchToolName :: string where "webSearchToolName = ''web_search''"

definition maxParallelTools :: "batch_env \<Rightarrow> int" where
  "maxParallelTools E = (if eMaxParallelTools E < 1 then 1 else eMaxParallelTools E)"

definition maxWebSearches :: "batch_env \<Rightarrow> int" where
  "maxWebSearches E = (if eMaxWebSearches E > 0 then eMaxWebSearches E else 5)"

definition executorFor :: "batch_env \<Rightarrow> tool option \<Rightarrow> string" where
  "executorFor E t =
     (case t of
        None \<Rightarrow> []
      | Some t \<Rightarrow> if tlStrictClient t \<and> eClientWaiter E \<noteq> None then ''client'' else [])"

record toolCallPlan =
  tpCall :: ToolCall
  tpInput :: args
  tpWireInput :: args
  tpReferenceErr :: "ref_error option"
  tpArgumentErr :: "ArgumentError option"
  tpStep :: Step
  tpTool :: "tool option"
  tpValid :: bool
  tpExecutor :: string
  tpWebSearchOrdinal :: int

definition planCall :: "batch_env \<Rightarrow> Session \<Rightarrow> int \<Rightarrow> ToolCall \<Rightarrow> int \<Rightarrow> toolCallPlan \<times> int" where
  "planCall E sess i call searches =
     (let input = argsOf (eParse E) (fnArguments call);
          t = eTools E (fnName call);
          valid = (eAdvertised E (fnName call) \<and> t \<noteq> None);
          schema = (case t of None \<Rightarrow> None | Some t \<Rightarrow> rawOf (tlSchema t));
          validate = ValidateInput (eTables E) (eFloatText E) (eSchemas E) (the t);
          (argErr, resolved) =
            (if valid \<and> input = Some None then (validate input, Inr None)
             else
               (None,
                case ResolveInput (eTables E) (eFloatText E) input schema (sReferenceLedger sess) (sID sess) (ePlanNow E i) of
                  Inl e \<Rightarrow> Inl e | Inr v \<Rightarrow> Inr (Some v)));
          refErr = (case resolved of Inl e \<Rightarrow> Some e | Inr _ \<Rightarrow> None);
          wire = (case resolved of Inr (Some v) \<Rightarrow> Some (Some v) | _ \<Rightarrow> input);
          argErr' = (if valid \<and> refErr = None \<and> argErr = None then validate wire else argErr);
          isSearch = (fnName call = webSearchToolName);
          searches' = (if isSearch then searches + 1 else searches)
      in (\<lparr>tpCall = call, tpInput = input, tpWireInput = wire, tpReferenceErr = refErr, tpArgumentErr = argErr',
           tpStep = \<lparr>spIndex = i, spToolName = fnName call, spToolInput = input, spObservation = [], spError = [],
                     spStartedAt = ePlanNow E i, spFinishedAt = 0\<rparr>,
           tpTool = t, tpValid = valid, tpExecutor = executorFor E t,
           tpWebSearchOrdinal = (if isSearch then searches' else 0)\<rparr>, searches'))"

fun planCalls :: "batch_env \<Rightarrow> Session \<Rightarrow> int \<Rightarrow> ToolCall list \<Rightarrow> int \<Rightarrow> toolCallPlan list \<times> int" where
  "planCalls E sess i [] n = ([], n)"
| "planCalls E sess i (c # cs) n =
     (let (p, n') = planCall E sess i c n; (ps, n'') = planCalls E sess (i + 1) cs n' in (p # ps, n''))"

definition parallelizable :: "toolCallPlan \<Rightarrow> bool" where
  "parallelizable p =
     (if \<not> tpValid p \<or> tpExecutor p = ''client'' \<or> tpArgumentErr p \<noteq> None \<or> tpReferenceErr p \<noteq> None then False
      else \<not> HasSideEffectsFor (the (tpTool p)) (tpInput p))"

function runEnd :: "toolCallPlan list \<Rightarrow> int \<Rightarrow> nat \<Rightarrow> nat \<Rightarrow> nat" where
  "runEnd plans maxParallel i j =
     (if j < length plans \<and> parallelizable (plans ! j) \<and> int j - int i < maxParallel then runEnd plans maxParallel i (j + 1) else j)"
  by auto
termination
  by (relation "measure (\<lambda>(plans, m, i, j). length plans - j)") auto

declare runEnd.simps [simp del]

lemma runEnd_ge: "j \<le> runEnd plans m i j"
proof (induction plans m i j rule: runEnd.induct)
  case (1 plans m i j)
  then show ?case by (subst runEnd.simps) (simp, linarith)
qed

lemma runEnd_progress: "i < length plans \<Longrightarrow> parallelizable (plans ! i) \<Longrightarrow> 1 < m \<Longrightarrow> i < runEnd plans m i i"
  using runEnd_ge [of "Suc i" plans m i] by (subst runEnd.simps) simp

function partitionFrom :: "toolCallPlan list \<Rightarrow> int \<Rightarrow> nat \<Rightarrow> (nat \<times> nat) list" where
  "partitionFrom plans maxParallel i =
     (if i < length plans
      then (if maxParallel \<le> 1 \<or> \<not> parallelizable (plans ! i) then (i, i + 1) # partitionFrom plans maxParallel (i + 1)
            else (let j = runEnd plans maxParallel i i in (i, j) # partitionFrom plans maxParallel j))
      else [])"
  by auto
termination
  by (relation "measure (\<lambda>(plans, m, i). length plans - i)") (auto intro!: diff_less_mono2 runEnd_progress)

declare partitionFrom.simps [simp del]

definition partitionToolGroups :: "toolCallPlan list \<Rightarrow> int \<Rightarrow> (nat \<times> nat) list" where
  "partitionToolGroups plans maxParallel = partitionFrom plans maxParallel 0"

subsection \<open>Running one call\<close>

text \<open>What a call does to the world, in order: asks for approval, runs the tool, waits for the client, runs hooks.\<close>

datatype effect =
    PreHooked string args
  | Asked string args Verdict
  | Ran int string args
  | Waited string
  | PostHooked string args
  | MarkedDirty

record toolCallResult =
  rtReceipts :: "string list"
  rtWaitFor :: "string list"
  rtObservation :: string
  rtOutput :: raw_message
  rtAssetRefs :: "AssetRef list"
  rtUsage :: "ToolUsage option"
  rtNestedUsage :: "ToolUsage list"
  rtModelUsage :: "ModelUsage option"
  rtWrote :: "FileWrite list"
  rtNestedWrites :: "FileWrite list"
  rtExecuted :: bool
  rtSucceeded :: bool
  rtFailure :: "ToolFailure option"
  rtStepError :: string
  rtFatalErr :: "exec_error option"

definition noResult :: toolCallResult where
  "noResult = \<lparr>rtReceipts = [], rtWaitFor = [], rtObservation = [], rtOutput = None, rtAssetRefs = [], rtUsage = None, rtNestedUsage = [],
     rtModelUsage = None, rtWrote = [], rtNestedWrites = [], rtExecuted = False, rtSucceeded = False, rtFailure = None,
     rtStepError = [], rtFatalErr = None\<rparr>"

definition failureOf :: "string \<Rightarrow> ToolFailure option" where
  "failureOf kind = Some \<lparr>tfKind = kind, tfMessage = []\<rparr>"

definition plainError :: "string \<Rightarrow> exec_error" where
  "plainError text = \<lparr>eeText = text, eeCanceled = False, eeDeadline = False, eeNotExist = False, eeFatal = False\<rparr>"

definition hintJSON :: "batch_env \<Rightarrow> HandleHint \<Rightarrow> json" where
  "hintJSON E h = JObject ([(''handle'', JString (hhHandle h)), (''kind'', JString (hhKind h))] @
     (if hhExpiresAt h = 0 then [] else [(''expiresAt'', JString (eTimeText E (hhExpiresAt h)))]))"

definition refErrorText :: "batch_env \<Rightarrow> string \<Rightarrow> ref_error \<Rightarrow> string" where
  "refErrorText E arguments e =
     (let opt = (\<lambda>k s. if s = [] then [] else [(k, JString s)]) in
      case e of
        InvalidToolArgs \<Rightarrow> ''invalid tool arguments: '' @ eJSONError E arguments
      | InvalidRulePointer ptr \<Rightarrow> ''invalid reference rule pointer: '' @ ptr
      | RefError code handle pointer kind detail available \<Rightarrow>
          eMarshal E (JObject ((''code'', JString code) # opt ''handle'' handle @ opt ''pointer'' pointer @ opt ''kind'' kind @
            opt ''message'' detail @ (if available = [] then [] else [(''available'', JArray (map (hintJSON E) available))]))))"

definition reachable :: "toolCallPlan \<Rightarrow> bool" where
  "reachable p = (tpValid p \<and> tpExecutor p \<noteq> ''client'' \<and> tpReferenceErr p = None \<and> tpArgumentErr p = None)"

definition preHookBlock :: "batch_env \<Rightarrow> string \<Rightarrow> args \<Rightarrow> string" where
  "preHookBlock E tool input =
     (case eHook E of None \<Rightarrow> [] | Some h \<Rightarrow> (case hkPre h tool input of None \<Rightarrow> [] | Some reason \<Rightarrow> reason))"

definition blockReason :: "batch_env \<Rightarrow> string \<Rightarrow> toolCallPlan \<Rightarrow> string" where
  "blockReason E root p =
     (let pre = (if reachable p then preHookBlock E (fnName (tpCall p)) (tpWireInput p) else [])
      in if reachable p \<and> pre = []
         then (case tlInspect (the (tpTool p)) of
                 None \<Rightarrow> []
               | Some f \<Rightarrow> (case f (tpWireInput p) root of None \<Rightarrow> [] | Some msg \<Rightarrow> ''blocked: '' @ msg))
         else pre)"

definition searchBudgetText :: "batch_env \<Rightarrow> int \<Rightarrow> string" where
  "searchBudgetText E ordinal =
     ''Search budget reached: '' @ intString (ordinal - 1) @ '' web searches already this turn (limit '' @ intString (maxWebSearches E) @ ''). '' @
     ''Stop searching '' @ emDash @ '' reformulating the query will not surface new results. '' @
     ''Answer with the results you already have, or web_fetch a specific URL.''"

definition builtinWriteTools :: "string list" where
  "builtinWriteTools = [''apply_patch'', ''edit_file'', ''insert_file'', ''create_file'']"

definition runClient :: "(string \<Rightarrow> ToolCallResult \<times> exec_error option) \<Rightarrow> toolCallPlan \<Rightarrow> toolCallResult \<times> exec_error option" where
  "runClient wait p =
     (case wait (tcID (tpCall p)) of (r, waitErr) \<Rightarrow>
        let res = noResult\<lparr>rtExecuted := True, rtOutput := cresOutput r, rtAssetRefs := cresAssets r\<rparr> in
        case waitErr of
          Some e \<Rightarrow> (res\<lparr>rtFailure := failureOf (if eeDeadline e then ''timeout'' else ''transport'')\<rparr>, Some e)
        | None \<Rightarrow>
            if cresIsError r \<or> cresFailure r \<noteq> None
            then (res\<lparr>rtFailure := cresFailure r\<rparr>, Some (plainError (cresContent r)))
            else (res\<lparr>rtSucceeded := True, rtObservation := cresContent r\<rparr>, None))"

definition postToolResultHook :: "batch_env \<Rightarrow> string \<Rightarrow> args \<Rightarrow> string \<Rightarrow> bool \<Rightarrow> raw_message \<Rightarrow> string \<times> bool \<times> raw_message" where
  "postToolResultHook E tool input content isError output =
     (case eHook E of
        None \<Rightarrow> (content, isError, output)
      | Some h \<Rightarrow> (case hkPostResult h tool input content isError output of None \<Rightarrow> (content, isError, output) | Some r \<Rightarrow> r))"

definition runServer :: "batch_env \<Rightarrow> toolCallPlan \<Rightarrow> toolCallResult \<times> exec_error option \<times> effect list" where
  "runServer E p =
     (let name = fnName (tpCall p); wire = tpWireInput p; ran = Ran (spIndex (tpStep p)) name wire in
      case eExecute E (spIndex (tpStep p)) wire of
        Inl e \<Rightarrow> (noResult\<lparr>rtExecuted := True\<rparr>, Some e, [ran])
      | Inr r \<Rightarrow>
          (let ok = (trFailure r = None);
               (obs, hookError, output) = postToolResultHook E name wire (trContent r) (\<not> ok) (trOutput r);
               failure = (if hookError \<and> trFailure r = None then failureOf ''runtime'' else trFailure r)
           in (\<lparr>rtReceipts = trReceipts r, rtWaitFor = trWaitFor r, rtObservation = obs, rtOutput = output, rtAssetRefs = trAssets r,
                rtUsage = trUsage r, rtNestedUsage = trNestedUsages r, rtModelUsage = trModelUsage r,
                rtWrote = (if name \<in> set builtinWriteTools then trWrote r else []), rtNestedWrites = trNestedWrites r,
                rtExecuted = True, rtSucceeded = (failure = None), rtFailure = failure, rtStepError = [], rtFatalErr = None\<rparr>,
               None,
               [ran] @ (if ok \<and> eHook E \<noteq> None then [PostHooked name wire] else []) @
               (if eGitCache E \<and> HasSideEffectsFor (the (tpTool p)) wire then [MarkedDirty] else []))))"

definition toolInterruptedObservation :: string where
  "toolInterruptedObservation = ''This tool call did not run: the turn was interrupted (app suspended or cancelled) before it executed. Re-issue the call if the result is still needed.''"

definition settleError :: "exec_error option \<Rightarrow> toolCallResult \<Rightarrow> toolCallResult" where
  "settleError err res =
     (case err of
        None \<Rightarrow> res
      | Some e \<Rightarrow>
          if eeCanceled e
          then res\<lparr>rtSucceeded := False, rtFailure := failureOf ''canceled'', rtObservation := toolInterruptedObservation\<rparr>
          else res\<lparr>rtSucceeded := False,
                   rtFailure := (case rtFailure res of
                       Some f \<Rightarrow> Some f
                     | None \<Rightarrow> failureOf (if eeNotExist e then ''not_found'' else if eeDeadline e then ''timeout'' else ''runtime'')),
                   rtStepError := eeText e, rtObservation := ''Tool error: '' @ eeText e,
                   rtFatalErr := (if eeFatal e then Some e else None)\<rparr>)"

definition runToolCall :: "batch_env \<Rightarrow> toolCallPlan \<Rightarrow> 'plan Runner \<Rightarrow> toolCallResult \<times> effect list \<times> 'plan Runner" where
  "runToolCall E p r =
     (let name = fnName (tpCall p);
          block = blockReason E (WorkspaceRoot r) p;
          pre = (if reachable p \<and> eHook E \<noteq> None then [PreHooked name (tpWireInput p)] else []);
          gated = HasSideEffectsFor (the (tpTool p)) (tpWireInput p);
          refused = (\<lambda>kind obs. noResult\<lparr>rtFailure := failureOf kind, rtObservation := obs\<rparr>);
          failed = (\<lambda>kind text. settleError (Some (plainError text)) (noResult\<lparr>rtFailure := failureOf kind\<rparr>))
      in if \<not> tpValid p then (failed ''unavailable'' (''unknown tool: '' @ name), pre, r)
         else
           (case tpReferenceErr p of
              Some e \<Rightarrow> (failed ''invalid_arguments'' (refErrorText E (fnArguments (tpCall p)) e), pre, r)
            | None \<Rightarrow>
                (case tpArgumentErr p of
                   Some e \<Rightarrow>
                     ((failed ''invalid_arguments'' (eMarshal E (argumentErrorJSON e)))\<lparr>rtOutput := Some (argumentErrorJSON e)\<rparr>, pre, r)
                 | None \<Rightarrow>
                     if tpWebSearchOrdinal p > 0 \<and> tpWebSearchOrdinal p > maxWebSearches E
                     then (refused ''blocked'' (searchBudgetText E (tpWebSearchOrdinal p)), pre, r)
                     else if block \<noteq> [] then (refused ''blocked'' (''The tool call was blocked. '' @ block), pre, r)
                     else
                       (let (verdict, r') = (if gated then approve (eTables E) (eFS E) name (rawOf (tpInput p)) r else (VerdictAllow, r));
                            pre' = pre @ (if gated then [Asked name (tpInput p) verdict] else [])
                        in if verdict \<noteq> VerdictAllow
                           then (refused ''blocked'' ''The tool call was not approved. No changes were made.'', pre', r')
                           else if tpExecutor p = ''client''
                           then (case runClient (the (eClientWaiter E)) p of (res, err) \<Rightarrow>
                                   (settleError err res, pre' @ [Waited (tcID (tpCall p))], r'))
                           else (case runServer E p of (res, err, effs) \<Rightarrow> (settleError err res, pre' @ effs, r'))))))"


subsection \<open>Asset references\<close>

definition idByte :: "char \<Rightarrow> bool" where
  "idByte c = (byteIn 0x61 0x7A c \<or> byteIn 0x41 0x5A c \<or> byteIn 0x30 0x39 c \<or> c = CHR ''_'' \<or> c = CHR ''='' \<or> c = CHR ''-'')"

fun collapse :: "bool \<Rightarrow> string \<Rightarrow> string" where
  "collapse bad [] = []"
| "collapse bad (c # s) = (if idByte c then c # collapse False s else if bad then collapse True s else CHR ''_'' # collapse True s)"

definition safeID :: "string \<Rightarrow> string" where
  "safeID s =
     (let t = rev (dropWhile (\<lambda>c. c = CHR ''_'') (rev (dropWhile (\<lambda>c. c = CHR ''_'') (collapse False s))))
      in if t = [] then ''unknown'' else t)"

definition WorkspaceID :: "unicode_tables \<Rightarrow> string \<Rightarrow> string" where
  "WorkspaceID U root =
     (let name = pathBase (Clean root);
          name' = (if name = ''.'' \<or> name = ''/'' \<or> name = [] then ''workspace'' else name)
      in safeID (ToLower U name') @ ''-local'')"

definition encodePath :: "(string \<Rightarrow> string) \<Rightarrow> string \<Rightarrow> string" where
  "encodePath esc p = Join (map esc (SplitByte (CHR ''/'') p)) ''/''"

definition WorkspaceURI :: "(string \<Rightarrow> string) \<Rightarrow> string \<Rightarrow> string \<Rightarrow> AssetRange option \<Rightarrow> string" where
  "WorkspaceURI esc workspaceID rel r =
     ''workspace://'' @ workspaceID @ ''/'' @ encodePath esc rel @
     (case r of
        None \<Rightarrow> []
      | Some r \<Rightarrow>
          if arStartLine r > 0
          then ''#L'' @ intString (arStartLine r) @ (if arStartColumn r > 0 then ''C'' @ intString (arStartColumn r) else [])
          else [])"

definition DisplayName :: "string \<Rightarrow> int \<Rightarrow> string" where
  "DisplayName path line = (if line > 0 then pathBase path @ '':'' @ intString line else pathBase path)"

definition normalizeToolAssets :: "batch_env \<Rightarrow> string \<Rightarrow> string \<Rightarrow> AssetRef list \<Rightarrow> AssetRef list" where
  "normalizeToolAssets E root callID refs =
     (let workspaceID = (if root = [] then [] else WorkspaceID (eTables E) root) in
      map (\<lambda>a0.
        let a1 = (if asSourceTurnID a0 = [] then a0\<lparr>asSourceTurnID := eTurnID E\<rparr> else a0);
            a2 = (if asSourceCallID a1 = [] then a1\<lparr>asSourceCallID := callID\<rparr> else a1);
            a3 = (if asWorkspaceID a2 = [] \<and> workspaceID \<noteq> [] then a2\<lparr>asWorkspaceID := workspaceID\<rparr> else a2);
            a4 = (if asURI a3 = [] \<and> asWorkspaceID a3 \<noteq> [] \<and> asWorkspaceRelativePath a3 \<noteq> []
                  then a3\<lparr>asURI := WorkspaceURI (ePathEscape E) (asWorkspaceID a3) (asWorkspaceRelativePath a3) (asRange a3)\<rparr> else a3)
        in if asDisplayName a4 = [] \<and> asWorkspaceRelativePath a4 \<noteq> []
           then a4\<lparr>asDisplayName := DisplayName (asWorkspaceRelativePath a4) (case asRange a4 of None \<Rightarrow> 0 | Some r \<Rightarrow> arStartLine r)\<rparr>
           else a4) refs)"

subsection \<open>Committing a result\<close>

datatype event =
    ToolStarted string int string string string           \<comment> \<open>call, step, tool, arguments, executor\<close>
  | SkillLoaded string string string
  | TodoUpdated "Todo list"
  | Observed string int string string string              \<comment> \<open>call, step, tool, summary, failure\<close>
  | ToolFinished string int string string raw_message "AssetRef list" "ToolUsage option" string string
      \<comment> \<open>call, step, tool, observation, output, assets, usage, error, failure\<close>

record 'plan batch_state =
  bsSession :: Session
  bsTurn :: TurnResult
  bsApproval :: "'plan Runner"
  bsGates :: gates
  bsTodos :: "Todo list"
  bsWaitFor :: "string list"
  bsWebSearches :: int
  bsAssets :: "AssetRef list"
  bsEvents :: "event list"
  bsEffects :: "effect list"

definition summaryLine :: "string \<Rightarrow> string" where
  "summaryLine obs =
     (let line = takeWhile (\<lambda>c. c \<noteq> NL) obs; runes = runesOf line
      in if length runes > 300 then concat (take 300 runes) @ ellipsis else line)"

definition failedObservation :: "string \<Rightarrow> Observation \<Rightarrow> Observation" where
  "failedObservation text o1 =
     (if obOK o1 then o1
      else
        (let o2 = (if obFailureType o1 = FailureNone then o1\<lparr>obFailureType := FailureRuntime\<rparr> else o1)
         in if obSummary o2 = [] then o2\<lparr>obSummary := summaryLine text\<rparr> else o2))"

definition toolResultObservation :: "batch_env \<Rightarrow> string \<Rightarrow> toolCallResult \<Rightarrow> Observation" where
  "toolResultObservation E name res =
     (let o0 = (case eObserver E of
                  None \<Rightarrow> \<lparr>obTool = name, obOK = rtSucceeded res, obFailureType = FailureNone, obSummary = [], obSalient = []\<rparr>
                | Some f \<Rightarrow> f name (rtObservation res))
      in case rtFailure res of
           None \<Rightarrow> failedObservation (rtObservation res) o0
         | Some f \<Rightarrow>
             if tfKind f = ''canceled''
             then o0\<lparr>obOK := True, obFailureType := ''canceled'', obSummary := ''tool call interrupted''\<rparr>
             else
               (let kind = (if tfKind f = [] then ''runtime'' else tfKind f)
                in failedObservation (rtObservation res)
                     ((if kind \<noteq> ''runtime'' \<or> obOK o0 then o0\<lparr>obFailureType := kind\<rparr> else o0)\<lparr>obOK := False\<rparr>)))"

definition redact :: "(string \<times> string) list \<Rightarrow> string \<Rightarrow> string" where
  "redact subs text = foldl (\<lambda>t (raw, handle). ReplaceAll t raw handle) text subs"

definition usageOf :: "ToolUsage option \<Rightarrow> ToolUsage list \<Rightarrow> ToolUsage list" where
  "usageOf u us = (case u of None \<Rightarrow> us | Some u \<Rightarrow> u # us)"

definition chargeModel :: "ModelUsage option \<Rightarrow> TurnResult \<Rightarrow> TurnResult" where
  "chargeModel u t =
     (case u of
        None \<Rightarrow> t
      | Some m \<Rightarrow> t\<lparr>tuModelBillingUnits := tuModelBillingUnits t + muBillingUnits m,
                   tuTotalBillingUnits := tuTotalBillingUnits t + muBillingUnits m,
                   tuTokensUsed := tuTokensUsed t + (muPromptTokens m + muCompletionTokens m)\<rparr>)"

definition recordWrites :: "FileWrite list \<Rightarrow> TurnResult \<Rightarrow> TurnResult" where
  "recordWrites ws t =
     (if ws = [] then t
      else t\<lparr>tuDiffStat := Some (fold addWrite ws (case tuDiffStat t of None \<Rightarrow> noDiff | Some d \<Rightarrow> d))\<rparr>)"

definition countCall :: "toolCallResult \<Rightarrow> TurnResult \<Rightarrow> TurnResult" where
  "countCall res t =
     t\<lparr>tuExecutedToolCalls := tuExecutedToolCalls t + (if rtExecuted res then 1 else 0),
       tuSucceededToolCalls := tuSucceededToolCalls t + (if rtSucceeded res then 1 else 0)\<rparr>"

definition chargeTurn :: "string \<Rightarrow> toolCallResult \<Rightarrow> TurnResult \<Rightarrow> TurnResult" where
  "chargeTurn callID res t =
     chargeModel (rtModelUsage res)
       (fold (\<lambda>u. applyToolUsage u callID) (usageOf (rtUsage res) (rtNestedUsage res))
         (recordWrites (rtWrote res @ rtNestedWrites res) (countCall res t)))"

definition announceEvents :: "tool \<Rightarrow> args \<Rightarrow> event list" where
  "announceEvents t input =
     (case tlAnnounceSkill t of
        None \<Rightarrow> []
      | Some f \<Rightarrow> (case f input of None \<Rightarrow> [] | Some (name, ver, src) \<Rightarrow> [SkillLoaded name ver src])) @
     (case tlAnnounceTodos t of
        None \<Rightarrow> []
      | Some f \<Rightarrow> (case f input of None \<Rightarrow> [] | Some todos \<Rightarrow> [TodoUpdated todos]))"

definition announcedTodos :: "tool \<Rightarrow> args \<Rightarrow> Todo list option" where
  "announcedTodos t input = (case tlAnnounceTodos t of None \<Rightarrow> None | Some f \<Rightarrow> f input)"

text \<open>The result after registering references and after the observer has had its say.\<close>

definition resolvedResult :: "batch_env \<Rightarrow> toolCallPlan \<Rightarrow> Session \<Rightarrow> toolCallResult \<Rightarrow> Session \<times> toolCallResult \<times> Observation" where
  "resolvedResult E p sess res0 =
     (let (sess1, res1) =
            (case Register (eTables E) (eFloatText E) (eParseTime E) (rtOutput res0) (sReferenceLedger sess) (sID sess)
                    (tcID (tpCall p)) (eCommitNow E (spIndex (tpStep p))) of
               (entries, Some subs) \<Rightarrow>
                 (sess\<lparr>sReferenceLedger := entries\<rparr>, res0\<lparr>rtObservation := redact subs (rtObservation res0)\<rparr>)
             | (_, None) \<Rightarrow> (sess, res0));
          obs = toolResultObservation E (fnName (tpCall p)) res1;
          ok = (rtSucceeded res1 \<and> obOK obs);
          err = (if \<not> obOK obs \<and> rtStepError res1 = []
                 then (if obSummary obs = [] then obFailureType obs else obSummary obs) else rtStepError res1)
      in (sess1, res1\<lparr>rtSucceeded := ok, rtStepError := err\<rparr>, obs))"

definition toolMessage :: "string \<Rightarrow> string \<Rightarrow> LocalAssetRef list \<Rightarrow> string list \<Rightarrow> Message" where
  "toolMessage callID content assets receipts =
     (newMessage RoleTool content)\<lparr>mToolCallID := callID, mLocalAssets := assets, mRuntimeInputReceipts := receipts\<rparr>"

definition commitToolResult :: "batch_env \<Rightarrow> toolCallPlan \<Rightarrow> toolCallResult \<Rightarrow> 'plan batch_state \<Rightarrow> 'plan batch_state" where
  "commitToolResult E p res0 st =
     (let (sess, res, obs) = resolvedResult E p (bsSession st) res0;
          callID = tcID (tpCall p); name = fnName (tpCall p); step = tpStep p;
          t = the (tpTool p);
          clean = (tpTool p \<noteq> None \<and> rtSucceeded res \<and> rtStepError res = []);
          gates = (if clean
                   then updateHarnessGates (eTables E) name (tpInput p) (rtObservation res) (HasSideEffectsFor t (tpInput p)) (bsGates st)
                   else bsGates st);
          text = (if eObserver E \<noteq> None then Render (eQuote E) obs (Head (rtObservation res) 30000)
                  else Head (rtObservation res) 30000);
          now = eCommitNow E (spIndex step);
          assets = normalizeToolAssets E (WorkspaceRoot (bsApproval st)) callID (rtAssetRefs res);
          turn = chargeTurn callID res (bsTurn st);
          message = toolMessage callID text (eLocalAssets E assets) (if eRuntimeInputs E then rtReceipts res else [])
      in st\<lparr>bsSession := sess\<lparr>sMessages := sMessages sess @ [message], sUpdatedAt := now\<rparr>,
            bsTurn := turn\<lparr>tuSteps := tuSteps turn @ [step\<lparr>spObservation := text, spError := rtStepError res, spFinishedAt := now\<rparr>]\<rparr>,
            bsGates := gates,
            bsTodos := (if clean then (case announcedTodos t (tpInput p) of Some todos \<Rightarrow> todos | None \<Rightarrow> bsTodos st) else bsTodos st),
            bsWaitFor := (if eRuntimeInputs E then bsWaitFor st @ rtWaitFor res else bsWaitFor st),
            bsAssets := bsAssets st @ assets,
            bsEvents := bsEvents st @ (if clean then announceEvents t (tpInput p) else []) @
              (if eObserver E \<noteq> None then [Observed callID (spIndex step) name (obSummary obs) (obFailureType obs)] else []) @
              [ToolFinished callID (spIndex step) name text (rtOutput res) assets (rtUsage res) (rtStepError res) (obFailureType obs)]\<rparr>)"

subsection \<open>The batch\<close>

fun runGroup :: "batch_env \<Rightarrow> toolCallPlan list \<Rightarrow> 'plan batch_state \<Rightarrow> toolCallResult list \<times> 'plan batch_state" where
  "runGroup E [] st = ([], st)"
| "runGroup E (p # ps) st =
     (let (res, effs, r) = runToolCall E p (bsApproval st);
          (rs, st') = runGroup E ps (st\<lparr>bsApproval := r, bsEffects := bsEffects st @ effs\<rparr>)
      in (res # rs, st'))"

fun commitAll :: "batch_env \<Rightarrow> toolCallPlan list \<Rightarrow> toolCallResult list \<Rightarrow> 'plan batch_state \<Rightarrow> 'plan batch_state" where
  "commitAll E (p # ps) (r # rs) st = commitAll E ps rs (commitToolResult E p r st)"
| "commitAll E _ _ st = st"

definition startGroup :: "toolCallPlan list \<Rightarrow> 'plan batch_state \<Rightarrow> 'plan batch_state" where
  "startGroup grp st =
     st\<lparr>bsEvents := bsEvents st @ map (\<lambda>p. ToolStarted (tcID (tpCall p)) (spIndex (tpStep p)) (fnName (tpCall p)) (fnArguments (tpCall p))
        (if \<not> tpValid p \<or> tpArgumentErr p \<noteq> None \<or> tpReferenceErr p \<noteq> None then ''server'' else tpExecutor p)) grp\<rparr>"

text \<open>The synthetic results of the calls that never ran.\<close>

definition interrupt :: "batch_env \<Rightarrow> toolCallPlan list \<Rightarrow> 'plan batch_state \<Rightarrow> 'plan batch_state" where
  "interrupt E ps st =
     st\<lparr>bsSession := (bsSession st)\<lparr>sMessages := sMessages (bsSession st) @
          map (\<lambda>p. toolMessage (tcID (tpCall p)) toolInterruptedObservation [] []) ps, sUpdatedAt := eCutNow E\<rparr>\<rparr>"

fun runGroups :: "batch_env \<Rightarrow> toolCallPlan list \<Rightarrow> (nat \<times> nat) list \<Rightarrow> 'plan batch_state \<Rightarrow> exec_error option \<times> 'plan batch_state" where
  "runGroups E plans [] st = (None, st)"
| "runGroups E plans ((i, j) # gs) st =
     (case eCtxErr E (spIndex (tpStep (plans ! i))) of
        Some e \<Rightarrow> (Some e, interrupt E (drop i plans) st)
      | None \<Rightarrow>
          (let grp = take (j - i) (drop i plans);
               (results, st1) = runGroup E grp (startGroup grp st);
               st2 = commitAll E grp results st1
           in case find (\<lambda>r. rtFatalErr r \<noteq> None) results of
                Some r \<Rightarrow> (rtFatalErr r, interrupt E (drop j plans) st2)
              | None \<Rightarrow> runGroups E plans gs st2))"

definition executeToolBatch :: "batch_env \<Rightarrow> ToolCall list \<Rightarrow> 'plan batch_state \<Rightarrow> exec_error option \<times> 'plan batch_state" where
  "executeToolBatch E calls st =
     (let (plans, searches) = planCalls E (bsSession st) (int (length (tuSteps (bsTurn st))) + 1) calls (bsWebSearches st)
      in runGroups E plans (partitionToolGroups plans (maxParallelTools E)) (st\<lparr>bsWebSearches := searches\<rparr>))"

subsection \<open>Vocabulary\<close>

text \<open>The history has grown by one result for each of these calls, in order.\<close>

definition appended :: "'plan batch_state \<Rightarrow> 'plan batch_state \<Rightarrow> string list \<Rightarrow> bool" where
  "appended st st' ids =
     (\<exists>rs. sMessages (bsSession st') = sMessages (bsSession st) @ rs \<and> map shape rs = map (\<lambda>c. (RoleTool, c, [])) ids)"

text \<open>What a group must satisfy.\<close>

definition groupOK :: "toolCallPlan list \<Rightarrow> int \<Rightarrow> nat \<times> nat \<Rightarrow> bool" where
  "groupOK plans m g = (case g of (a, b) \<Rightarrow>
     a < b \<and> b \<le> length plans \<and> int (b - a) \<le> max 1 m \<and>
     (b = a + 1 \<or> list_all parallelizable (take (b - a) (drop a plans))) \<and>
     (m \<le> 1 \<or> \<not> parallelizable (plans ! a) \<or> int (b - a) = m \<or> b = length plans \<or> \<not> parallelizable (plans ! b)))"

text \<open>The steps that ran.\<close>

definition ranSteps :: "effect list \<Rightarrow> int list" where
  "ranSteps effs = concat (map (\<lambda>e. case e of Ran i _ _ \<Rightarrow> [i] | _ \<Rightarrow> []) effs)"

text \<open>A call that may touch the world: offered, well formed, within the budget, not blocked, and approved if it has effects.\<close>

definition authorised :: "batch_env \<Rightarrow> 'plan Runner \<Rightarrow> toolCallPlan \<Rightarrow> bool" where
  "authorised E r p =
     (tpValid p \<and> tpReferenceErr p = None \<and> tpArgumentErr p = None \<and> tpExecutor p \<noteq> ''client'' \<and>
      \<not> (tpWebSearchOrdinal p > 0 \<and> tpWebSearchOrdinal p > maxWebSearches E) \<and> blockReason E (WorkspaceRoot r) p = [] \<and>
      (\<not> HasSideEffectsFor (the (tpTool p)) (tpWireInput p) \<or>
       fst (approve (eTables E) (eFS E) (fnName (tpCall p)) (rawOf (tpInput p)) r) = VerdictAllow))"

definition sameGate :: "'plan Runner \<Rightarrow> 'plan Runner \<Rightarrow> bool" where
  "sameGate r r' = (PlanState r' = PlanState r \<and> WorkspaceRoot r' = WorkspaceRoot r \<and> Approver r' = Approver r)"

text \<open>What the steps that ran have in common, given the plans they come from.\<close>

definition fairRuns :: "batch_env \<Rightarrow> 'plan Runner \<Rightarrow> toolCallPlan list \<Rightarrow> effect list \<Rightarrow> bool" where
  "fairRuns E r ps effs \<longleftrightarrow> subseq (ranSteps effs) (map (\<lambda>p. spIndex (tpStep p)) ps) \<and>
     (\<forall>i n w. Ran i n w \<in> set effs \<longrightarrow>
        (\<exists>p \<in> set ps. authorised E r p \<and> i = spIndex (tpStep p) \<and> n = fnName (tpCall p) \<and> w = tpWireInput p))"

definition diffOK :: "TurnDiffStat \<Rightarrow> bool" where
  "diffOK d = (distinct (map fwPath (dsFiles d)) \<and> [] \<notin> fwPath ` set (dsFiles d) \<and> dsFilesChanged d = length (dsFiles d) \<and>
     dsAddedLines d = sum_list (map fwAdded (dsFiles d)) \<and> dsRemovedLines d = sum_list (map fwRemoved (dsFiles d)))"

text \<open>Between the count of a call and its step the counters may be one ahead of the steps.\<close>

definition booksOK :: "TurnResult \<Rightarrow> bool" where
  "booksOK t = (tuTotalBillingUnits t = tuModelBillingUnits t + tuToolBillingUnits t \<and> tuBillableToolCalls t = length (tuBilled t) \<and>
     distinct (tuBilled t) \<and> (case tuDiffStat t of None \<Rightarrow> True | Some d \<Rightarrow> diffOK d))"

definition turnOK :: "TurnResult \<Rightarrow> bool" where
  "turnOK t =
     (tuTotalBillingUnits t = tuModelBillingUnits t + tuToolBillingUnits t \<and> tuBillableToolCalls t = length (tuBilled t) \<and>
      distinct (tuBilled t) \<and> tuSucceededToolCalls t \<le> tuExecutedToolCalls t \<and> tuExecutedToolCalls t \<le> length (tuSteps t) \<and>
      (case tuDiffStat t of None \<Rightarrow> True | Some d \<Rightarrow> diffOK d))"

text \<open>A sequence of clean calls as the gates see them: tool, arguments, observation, side effects.\<close>

type_synonym gate_call = "string \<times> args \<times> string \<times> bool"

definition gateStep :: "unicode_tables \<Rightarrow> gate_call \<Rightarrow> gates \<Rightarrow> gates" where
  "gateStep U c g = (case c of (name, input, obs, effects) \<Rightarrow> updateHarnessGates U name input obs effects g)"

definition mutates :: "gate_call \<Rightarrow> bool" where
  "mutates c = snd (snd (snd c))"

definition reviews :: "unicode_tables \<Rightarrow> gate_call \<Rightarrow> bool" where
  "reviews U c = (case c of (name, input, obs, effects) \<Rightarrow> \<not> effects \<and> passingReview U name input obs)"

definition freshGates :: gates where
  "freshGates = \<lparr>gtPlannedMutation = False, gtReviewPassed = False, gtReviewCount = 0, gtMutatedCode = False\<rparr>"

text \<open>An instance: a reader, a writer, and a batch of three calls.\<close>

definition demoTool :: "string \<Rightarrow> bool \<Rightarrow> tool" where
  "demoTool name effects = \<lparr>tlName = name, tlSchema = None, tlSideEffects = Some effects, tlSideEffectsFor = None, tlInspect = None,
     tlStrictClient = False, tlAnnounceSkill = None, tlAnnounceTodos = None\<rparr>"

definition demoAnswer :: ToolResult where
  "demoAnswer = \<lparr>trReceipts = [], trWaitFor = [], trContent = ''ok'', trFailure = None, trOutput = None, trAssets = [], trUsage = None,
     trModelUsage = None, trNestedUsages = [], trWrote = [], trNestedWrites = []\<rparr>"

definition demoBatchEnv :: batch_env where
  "demoBatchEnv = \<lparr>eTables = asciiTables, eFS = anyFS, eParse = (\<lambda>_. Some (JObject [])), eMarshal = (\<lambda>_. ''{}''), eFloatText = id,
     eParseTime = (\<lambda>_. None), eTimeText = (\<lambda>_. []), eJSONError = (\<lambda>_. []), eQuote = id, ePathEscape = id,
     eSchemas = \<lparr>slDecode = (\<lambda>_. None), slResolves = (\<lambda>_. True), slValidates = (\<lambda>_ _. True)\<rparr>,
     eTools = (\<lambda>n. if n = ''read'' then Some (demoTool ''read'' False) else if n = ''write'' then Some (demoTool ''write'' True) else None),
     eAdvertised = (\<lambda>_. True), eMaxParallelTools = 4, eMaxWebSearches = 0, eClientWaiter = None, eHook = None, eObserver = None,
     eRuntimeInputs = False, eGitCache = False, eExecute = (\<lambda>_ _. Inr demoAnswer), eCtxErr = (\<lambda>_. None), ePlanNow = (\<lambda>_. 1),
     eCommitNow = (\<lambda>_. 2), eCutNow = 3, eTurnID = ''t'', eLocalAssets = (\<lambda>_. [])\<rparr>"

definition demoToolCall :: "string \<Rightarrow> string \<Rightarrow> ToolCall" where
  "demoToolCall callID name = \<lparr>tcID = callID, tcType = ''function'', fnName = name, fnArguments = ''{}''\<rparr>"

definition demoCalls :: "ToolCall list" where
  "demoCalls = [demoToolCall ''a'' ''read'', demoToolCall ''b'' ''read'', demoToolCall ''c'' ''write'']"

definition demoBatchState :: "unit batch_state" where
  "demoBatchState = \<lparr>bsSession = demoSession\<lparr>sMessages := demoMessages @ [(newMessage RoleAssistant [])\<lparr>mToolCalls := demoCalls\<rparr>]\<rparr>,
     bsTurn = \<lparr>tuTurnID = ''t'', tuDeduplicated = False, tuWaitingBackground = False, tuFinal = [], tuSteps = [], tuPromptTokens = 0, tuTokensUsed = 0, tuModelBillingUnits = 0, tuToolBillingUnits = 0, tuTotalBillingUnits = 0,
       tuExecutedToolCalls = 0, tuSucceededToolCalls = 0, tuBillableToolCalls = 0, tuDiffStat = None, tuBilled = [],
       tuHitStepLimit = False\<rparr>,
     bsApproval = demoRunner, bsGates = freshGates, bsTodos = [], bsWaitFor = [], bsWebSearches = 0, bsAssets = [], bsEvents = [],
     bsEffects = []\<rparr>"

definition demoPlans :: "toolCallPlan list" where
  "demoPlans = fst (planCalls demoBatchEnv demoSession 1 demoCalls 0)"

text \<open>A tool that has effects only on \<open>.env\<close>, called with a handle for this path.\<close>

definition demoHandleEnv :: batch_env where
  "demoHandleEnv = demoBatchEnv\<lparr>eParse := (\<lambda>_. demoPath ''$ref:ref_0001''),
     eTools := (\<lambda>n. Some ((demoTool n True)\<lparr>tlSideEffectsFor := Some (\<lambda>a. rawOf a = demoPath ''.env'')\<rparr>))\<rparr>"

definition demoHandlePlan :: toolCallPlan where
  "demoHandlePlan = fst (planCall demoHandleEnv (demoSession\<lparr>sReferenceLedger := [demoEntry 1 ''.env'' ''doc'']\<rparr>) 1 (demoToolCall ''c'' ''edit_file'') 0)"


subsection \<open>Plans\<close>

lemma planCall_simps [simp]:
  "tpCall (fst (planCall E s i c n)) = c" "spIndex (tpStep (fst (planCall E s i c n))) = i"
  by (simp_all add: planCall_def Let_def split: prod.splits)

lemma planCalls_calls: "map tpCall (fst (planCalls E s i cs n)) = cs"
proof (induction cs arbitrary: i n)
  case (Cons c cs)
  obtain p n' where p: "planCall E s i c n = (p, n')" by fastforce
  obtain ps n'' where ps: "planCalls E s (i + 1) cs n' = (ps, n'')" by fastforce
  show ?case using planCall_simps(1) [of E s i c n] Cons.IH [of "i + 1" n'] by (simp add: p ps)
qed simp

lemma planCalls_step:
  "k < length (fst (planCalls E s i cs n)) \<Longrightarrow> spIndex (tpStep (fst (planCalls E s i cs n) ! k)) = i + int k"
proof (induction cs arbitrary: i n k)
  case (Cons c cs)
  obtain p n' where p: "planCall E s i c n = (p, n')" by fastforce
  obtain ps n'' where ps: "planCalls E s (i + 1) cs n' = (ps, n'')" by fastforce
  have "spIndex (tpStep p) = i" using planCall_simps(2) [of E s i c n] p by simp
  moreover have "j < length ps \<Longrightarrow> spIndex (tpStep (ps ! j)) = i + 1 + int j" for j using Cons.IH [of j "i + 1" n'] ps by simp
  ultimately show ?case using Cons.prems p ps by (cases k) auto
qed simp

lemma planCalls_distinct: "distinct (map (\<lambda>p. spIndex (tpStep p)) (fst (planCalls E s i cs n)))"
  by (auto simp: distinct_conv_nth planCalls_step)

subsection \<open>Groups\<close>

lemma runEnd_spec:
  "j \<le> length plans \<Longrightarrow> (\<forall>k. i \<le> k \<and> k < j \<longrightarrow> parallelizable (plans ! k)) \<Longrightarrow> int j - int i \<le> max 0 m \<Longrightarrow> i \<le> j \<Longrightarrow>
   (let e = runEnd plans m i j in e \<le> length plans \<and> (\<forall>k. i \<le> k \<and> k < e \<longrightarrow> parallelizable (plans ! k)) \<and> int e - int i \<le> max 0 m \<and>
      (e < length plans \<and> int e - int i < m \<longrightarrow> \<not> parallelizable (plans ! e)))"
proof (induction plans m i j rule: runEnd.induct)
  case (1 plans m i j)
  show ?case
  proof (cases "j < length plans \<and> parallelizable (plans ! j) \<and> int j - int i < m")
    case True
    then have "\<forall>k. i \<le> k \<and> k < j + 1 \<longrightarrow> parallelizable (plans ! k)" using 1(3) by (metis less_Suc_eq Suc_eq_plus1)
    then have "(let e = runEnd plans m i (j + 1) in e \<le> length plans \<and> (\<forall>k. i \<le> k \<and> k < e \<longrightarrow> parallelizable (plans ! k)) \<and>
        int e - int i \<le> max 0 m \<and> (e < length plans \<and> int e - int i < m \<longrightarrow> \<not> parallelizable (plans ! e)))"
      using 1(1) [OF True] 1(5) True by simp
    then show ?thesis using True by (subst runEnd.simps) simp
  next
    case False
    then have "runEnd plans m i j = j" by (subst runEnd.simps) (simp only: if_False)
    moreover have "j < length plans \<and> int j - int i < m \<longrightarrow> \<not> parallelizable (plans ! j)" using False by blast
    ultimately show ?thesis using 1(2-5) by (simp only: Let_def)
  qed
qed

lemma groupOK_single: "a < length plans \<Longrightarrow> m \<le> 1 \<or> \<not> parallelizable (plans ! a) \<Longrightarrow> groupOK plans m (a, a + 1)"
  by (auto simp: groupOK_def)

lemma runEnd_ok:
  assumes "i < length plans" "\<not> (m \<le> 1 \<or> \<not> parallelizable (plans ! i))"
  shows "i < runEnd plans m i i" "runEnd plans m i i \<le> length plans" "groupOK plans m (i, runEnd plans m i i)"
proof -
  let ?e = "runEnd plans m i i"
  have "\<forall>k. i \<le> k \<and> k < i \<longrightarrow> parallelizable (plans ! k)" by (meson leD)
  then have e: "?e \<le> length plans" "\<forall>k. i \<le> k \<and> k < ?e \<longrightarrow> parallelizable (plans ! k)" "int ?e - int i \<le> max 0 m"
    "?e < length plans \<and> int ?e - int i < m \<longrightarrow> \<not> parallelizable (plans ! ?e)"
    using runEnd_spec [of i plans i m] assms by (simp_all add: Let_def)
  then show p: "i < ?e" "?e \<le> length plans" using runEnd_progress [of i plans m] assms by auto
  have "list_all parallelizable (take (?e - i) (drop i plans))" using e(1,2) by (auto simp: list_all_length)
  then show "groupOK plans m (i, ?e)" using e p assms by (auto simp: groupOK_def)
qed

lemma partitionFrom_cover: "i \<le> length plans \<Longrightarrow> concat (map (\<lambda>(a, b). [a..<b]) (partitionFrom plans m i)) = [i..<length plans]"
proof (induction plans m i rule: partitionFrom.induct)
  case (1 plans m i)
  show ?case
  proof (cases "i < length plans")
    case True
    show ?thesis
    proof (cases "m \<le> 1 \<or> \<not> parallelizable (plans ! i)")
      case a: True
      then show ?thesis using 1(1) [OF True a] True by (subst partitionFrom.simps) (simp add: upt_conv_Cons)
    next
      case a: False
      note e = runEnd_ok [OF True a]
      have "[i..<length plans] = [i..<runEnd plans m i i] @ [runEnd plans m i i..<length plans]"
        using e upt_add_eq_append [of i "runEnd plans m i i" "length plans - runEnd plans m i i"] by simp
      then show ?thesis using 1(2) [OF True a refl e(2)] True a by (subst partitionFrom.simps) (simp add: Let_def)
    qed
  qed (use 1(3) in \<open>subst partitionFrom.simps, simp\<close>)
qed

lemma partitionFrom_ok: "list_all (groupOK plans m) (partitionFrom plans m i)"
proof (induction plans m i rule: partitionFrom.induct)
  case (1 plans m i)
  show ?case
  proof (cases "i < length plans")
    case True
    show ?thesis
    proof (cases "m \<le> 1 \<or> \<not> parallelizable (plans ! i)")
      case a: True
      then show ?thesis using 1(1) [OF True a] True groupOK_single [OF True a] by (subst partitionFrom.simps) simp
    next
      case a: False
      then show ?thesis using 1(2) [OF True a refl] True runEnd_ok(3) [OF True a] by (subst partitionFrom.simps) (simp add: Let_def)
    qed
  qed (subst partitionFrom.simps, simp)
qed

text \<open>Grouping: the groups run through the calls in order without gap or overlap; a group is no larger than the bound, holds more
  than one call only if all of them are read-only calls the server runs, and ends early only at a call that may not
  run beside others.\<close>

theorem partition_correct:
  "concat (map (\<lambda>(a, b). [a..<b]) (partitionToolGroups plans m)) = [0..<length plans] \<and>
   list_all (groupOK plans m) (partitionToolGroups plans m)"
  using partitionFrom_cover [of 0 plans m] partitionFrom_ok by (simp add: partitionToolGroups_def)

subsection \<open>Messages\<close>

abbreviation messagesOf :: "'plan batch_state \<Rightarrow> Message list" where
  "messagesOf st \<equiv> sMessages (bsSession st)"

lemma toolMessage_shape [simp]: "shape (toolMessage c t a r) = (RoleTool, c, [])"
  by (simp add: toolMessage_def newMessage_def shape_def)

lemma resolvedResult_messages: "resolvedResult E p s r = (s', r', obs) \<Longrightarrow> sMessages s' = sMessages s"
  by (auto simp: resolvedResult_def Let_def split: prod.splits option.splits)

lemma appended_refl [simp]: "appended st st []"
  by (simp add: appended_def)

lemma appended_trans: "appended st st1 xs \<Longrightarrow> appended st1 st2 ys \<Longrightarrow> appended st st2 (xs @ ys)"
  by (fastforce simp: appended_def)

lemma appended_same: "bsSession st0 = bsSession st \<Longrightarrow> appended st0 st' xs = appended st st' xs"
  by (simp add: appended_def)

lemma commit_messages: "appended st (commitToolResult E p r st) [tcID (tpCall p)]"
proof -
  obtain s' r' obs where x: "resolvedResult E p (bsSession st) r = (s', r', obs)" using prod_cases3 by blast
  show ?thesis using resolvedResult_messages [OF x] by (simp add: appended_def commitToolResult_def x Let_def)
qed

lemma commitAll_messages: "length rs = length ps \<Longrightarrow> appended st (commitAll E ps rs st) (map (\<lambda>p. tcID (tpCall p)) ps)"
proof (induction ps rs arbitrary: st rule: list_induct2')
  case (4 p ps r rs)
  then show ?case using appended_trans [OF commit_messages [of st E p r] "4.IH"] by simp
qed simp_all

lemma runGroup_facts: "runGroup E ps st = (rs, st') \<Longrightarrow> length rs = length ps \<and> bsSession st' = bsSession st \<and> bsTurn st' = bsTurn st"
  by (induction ps arbitrary: st rs st') (fastforce split: prod.splits)+

lemma interrupt_messages: "appended st (interrupt E ps st) (map (\<lambda>p. tcID (tpCall p)) ps)"
  by (simp add: interrupt_def appended_def comp_def)

lemma startGroup_simps [simp]:
  "bsSession (startGroup ps st) = bsSession st" "bsTurn (startGroup ps st) = bsTurn st" "bsApproval (startGroup ps st) = bsApproval st"
  "bsEffects (startGroup ps st) = bsEffects st"
  by (simp_all add: startGroup_def)

text \<open>One group at a time: what holds of the groups from a position on.\<close>

lemma partitionFrom_induct [consumes 1, case_names last step]:
  assumes "i \<le> length plans" and d: "P (length plans) []"
    and s: "\<And>i j gs. i < j \<Longrightarrow> j \<le> length plans \<Longrightarrow> gs = partitionFrom plans m j \<Longrightarrow> P j gs \<Longrightarrow> P i ((i, j) # gs)"
  shows "P i (partitionFrom plans m i)"
  using assms(1)
proof (induction "length plans - i" arbitrary: i rule: less_induct)
  case less
  show ?case
  proof (cases "i < length plans")
    case True
    show ?thesis
    proof (cases "m \<le> 1 \<or> \<not> parallelizable (plans ! i)")
      case a: True
      then show ?thesis using s [OF _ _ refl less(1) [of "i + 1"]] True by (subst partitionFrom.simps) simp
    next
      case a: False
      then show ?thesis using s [OF runEnd_ok(1,2) [OF True a] refl less(1) [of "runEnd plans m i i"]] True runEnd_ok(1,2) [OF True a]
        by (subst partitionFrom.simps) (simp add: Let_def diff_less_mono2)
    qed
  next
    case False
    then have "i = length plans" using less(2) by simp
    then show ?thesis using d by (subst partitionFrom.simps) simp
  qed
qed

lemma split_group: "i < j \<Longrightarrow> drop i xs = take (j - i) (drop i xs) @ drop j xs"
  by (metis append_take_drop_id drop_drop le_add_diff_inverse2 less_imp_le_nat add.commute)

lemma runGroups_messages:
  fixes st :: "'plan batch_state"
  assumes "i \<le> length plans" "runGroups E plans (partitionFrom plans m i) st = (err, st')"
  shows "appended st st' (map (\<lambda>p. tcID (tpCall p)) (drop i plans))"
proof -
  have "\<forall>(st :: 'plan batch_state) err st'. runGroups E plans (partitionFrom plans m i) st = (err, st') \<longrightarrow>
      appended st st' (map (\<lambda>p. tcID (tpCall p)) (drop i plans))"
    using assms(1)
  proof (induction rule: partitionFrom_induct)
    case (step i j gs)
    show ?case
    proof (intro allI impI)
      fix st :: "'plan batch_state" and err st'
      assume r: "runGroups E plans ((i, j) # gs) st = (err, st')"
      let ?g = "take (j - i) (drop i plans)" and ?ids = "map (\<lambda>p. tcID (tpCall p))"
      obtain rs st1 where g: "runGroup E ?g (startGroup ?g st) = (rs, st1)" by fastforce
      let ?st2 = "commitAll E ?g rs st1"
      have c: "appended st ?st2 (?ids ?g)"
        using runGroup_facts [OF g] commitAll_messages [of rs ?g st1 E] appended_same [of st1 st] by simp
      have d: "?ids (drop i plans) = ?ids ?g @ ?ids (drop j plans)" using split_group [OF step(1), of plans] by (metis map_append)
      consider "st' = interrupt E (drop i plans) st" | "st' = interrupt E (drop j plans) ?st2" | "runGroups E plans gs ?st2 = (err, st')"
        using r by (auto simp: g Let_def split: option.splits)
      then show "appended st st' (?ids (drop i plans))"
      proof cases
        case 1
        then show ?thesis using interrupt_messages by simp
      next
        case 2
        then show ?thesis using appended_trans [OF c interrupt_messages] unfolding d by simp
      next
        case 3
        then show ?thesis using appended_trans [OF c] step(4) unfolding d by blast
      qed
    qed
  qed simp
  then show ?thesis using assms(2) by blast
qed

lemma allAnswered_append: "allAnswered ms \<Longrightarrow> \<not> isTool a \<Longrightarrow> allAnswered (a # rs) \<Longrightarrow> allAnswered (ms @ a # rs)"
proof (induction ms)
  case (Cons m ms)
  have "takeWhile isTool (ms @ a # rs) = takeWhile isTool ms" using Cons.prems(2) by (simp add: takeWhile_tail)
  moreover have "allAnswered (ms @ a # rs)"
    using Cons.IH Cons.prems by (auto simp only: allAnswered.simps)
  ultimately show ?case using Cons.prems(1) by (auto simp only: append_Cons allAnswered.simps)
qed (simp only: append_Nil)

lemma validHistory_answered:
  assumes "validHistory ms" "\<not> isTool a" "callIDs a = ids" "mRole a = RoleAssistant"
    "map shape rs = map (\<lambda>c. (RoleTool, c, [])) ids"
  shows "validHistory (ms @ a # rs)"
proof -
  have rs: "list_all (\<lambda>r. isTool r \<and> mToolCallID r \<in> set ids) rs" "map mToolCallID rs = ids"
  proof -
    have "map (fst \<circ> shape) rs = map (\<lambda>_. RoleTool) ids" "map (fst \<circ> snd \<circ> shape) rs = ids"
      using arg_cong [OF assms(5), of "map fst"] arg_cong [OF assms(5), of "map (fst \<circ> snd)"] by (simp_all add: comp_def)
    then show i: "map mToolCallID rs = ids" by (simp add: shape_def comp_def)
    have "\<forall>r \<in> set rs. mRole r = RoleTool"
      using \<open>map (fst \<circ> shape) rs = map (\<lambda>_. RoleTool) ids\<close> by (auto simp: shape_def in_set_conv_nth list_eq_iff_nth_eq)
    then show "list_all (\<lambda>r. isTool r \<and> mToolCallID r \<in> set ids) rs" using i by (auto simp: list_all_iff isTool_def)
  qed
  have g: "wellPaired ids rs" "takeWhile isTool rs = rs" "allAnswered rs"
    using rs(1) by (induction rs, auto simp: isTool_def)
  have "wellPaired c (ms @ a # rs)" if "wellPaired c ms" for c
    using that by (induction ms arbitrary: c) (use assms(2-4) g(1) in auto)
  moreover have "allAnswered (a # rs)"
    unfolding allAnswered.simps g(2) rs(2) using assms(3) g(3) by simp
  ultimately show ?thesis using assms(1) allAnswered_append [of ms a rs] assms(2) by (simp only: validHistory_def) blast
qed

subsection \<open>Effects\<close>

lemma ranSteps_simps [simp]: "ranSteps [] = []" "ranSteps (es @ fs) = ranSteps es @ ranSteps fs" "ranSteps (PreHooked n a # es) = ranSteps es"
  "ranSteps (Asked n a v # es) = ranSteps es" "ranSteps (Ran i n a # es) = i # ranSteps es" "ranSteps (Waited c # es) = ranSteps es"
  "ranSteps (PostHooked n a # es) = ranSteps es" "ranSteps (MarkedDirty # es) = ranSteps es"
  by (simp_all add: ranSteps_def)

lemma planFileWrite_gate: "sameGate r r' \<Longrightarrow> planFileWriteAllowed U F r' n i = planFileWriteAllowed U F r n i"
  by (simp add: sameGate_def planFileWriteAllowed_def cong: option.case_cong)

lemma approve_gate: "sameGate r r' \<Longrightarrow> fst (approve U F n i r') = fst (approve U F n i r)"
  using planFileWrite_gate [of r r' U F n i] by (auto simp: approve_def sameGate_def split: option.splits prod.splits)

lemma approve_keeps: "sameGate r (snd (approve U F n i r))"
  by (auto simp: approve_def sameGate_def emitAudit_def split: option.splits prod.splits)

lemma sameGate_refl [simp]: "sameGate r r" by (simp add: sameGate_def)

lemma sameGate_trans: "sameGate r r' \<Longrightarrow> sameGate r' r'' \<Longrightarrow> sameGate r r''" by (simp add: sameGate_def)

lemma authorised_gate: "sameGate r r' \<Longrightarrow> authorised E r' p = authorised E r p"
  using approve_gate [of r r' "eTables E" "eFS E" "fnName (tpCall p)" "rawOf (tpInput p)"] by (simp add: authorised_def sameGate_def)

lemma fairRuns_nil [simp]: "fairRuns E r ps []"
  by (simp add: fairRuns_def)

lemma fairRuns_append: "fairRuns E r ps es \<Longrightarrow> fairRuns E r qs fs \<Longrightarrow> fairRuns E r (ps @ qs) (es @ fs)"
  by (auto simp: fairRuns_def list_emb_append_mono) blast+

lemma runServer_ran: "runServer E p = (res, err, effs) \<Longrightarrow>
    ranSteps effs = [spIndex (tpStep p)] \<and> (\<forall>i n w. Ran i n w \<in> set effs \<longrightarrow> i = spIndex (tpStep p) \<and> n = fnName (tpCall p) \<and> w = tpWireInput p)"
  by (auto simp: runServer_def Let_def split: sum.splits prod.splits if_splits)

lemma settle_failed: "rtSucceeded (settleError (Some e) res) = False"
  by (simp add: settleError_def)

lemma settle_none [simp]: "settleError None res = res"
  by (simp add: settleError_def)

lemma settle_executed: "rtExecuted (settleError err res) = rtExecuted res"
  by (simp add: settleError_def split: option.splits)

abbreviation stopped :: "batch_env \<Rightarrow> 'plan Runner \<Rightarrow> toolCallPlan \<Rightarrow> bool" where
  "stopped E r p \<equiv> \<not> tpValid p \<or> tpReferenceErr p \<noteq> None \<or> tpArgumentErr p \<noteq> None \<or>
     (tpWebSearchOrdinal p > 0 \<and> tpWebSearchOrdinal p > maxWebSearches E) \<or> blockReason E (WorkspaceRoot r) p \<noteq> []"

lemma stopped_facts:
  assumes "stopped E r p" "runToolCall E p r = (res, effs, r')"
  shows "r' = r \<and> ranSteps effs = [] \<and> (\<forall>i n w. Ran i n w \<notin> set effs) \<and> \<not> rtSucceeded res"
proof -
  define pre where "pre = (if reachable p \<and> eHook E \<noteq> None then [PreHooked (fnName (tpCall p)) (tpWireInput p)] else [])"
  have "ranSteps pre = []" "\<forall>i n w. Ran i n w \<notin> set pre" by (simp_all add: pre_def)
  moreover have "r' = r \<and> effs = pre \<and> \<not> rtSucceeded res"
    using assms unfolding runToolCall_def Let_def pre_def [symmetric]
    by (auto simp: settle_failed noResult_def split: option.splits if_splits)
  ultimately show ?thesis by simp
qed

lemma runClient_ok: "runClient w p = (res, err) \<Longrightarrow> rtExecuted res"
  by (auto simp: runClient_def Let_def split: prod.splits option.splits if_splits)

lemma runServer_ok: "runServer E p = (res, err, effs) \<Longrightarrow> rtExecuted res"
  by (auto simp: runServer_def Let_def split: sum.splits prod.splits)

lemma running_facts:
  assumes "\<not> stopped E r p" "runToolCall E p r = (res, effs, r')"
  shows "sameGate r r' \<and> fairRuns E r [p] effs \<and> (\<not> rtSucceeded res \<or> rtExecuted res)"
proof -
  define pre where "pre = (if reachable p \<and> eHook E \<noteq> None then [PreHooked (fnName (tpCall p)) (tpWireInput p)] else [])"
  define gated where "gated = HasSideEffectsFor (the (tpTool p)) (tpWireInput p)"
  obtain v r1 where v: "(if gated then approve (eTables E) (eFS E) (fnName (tpCall p)) (rawOf (tpInput p)) r else (VerdictAllow, r)) = (v, r1)"
    by fastforce
  define pre' where "pre' = pre @ (if gated then [Asked (fnName (tpCall p)) (tpInput p) v] else [])"
  have pre: "ranSteps pre' = []" "\<And>i n w. Ran i n w \<notin> set pre'" by (simp_all add: pre'_def pre_def)
  have same: "sameGate r r1" using v approve_keeps [of r "eTables E" "eFS E" "fnName (tpCall p)" "rawOf (tpInput p)"] by (auto split: if_splits)
  have ok: "v = VerdictAllow \<Longrightarrow> \<not> gated \<or> fst (approve (eTables E) (eFS E) (fnName (tpCall p)) (rawOf (tpInput p)) r) = VerdictAllow"
    using v by (auto split: if_splits)
  have b: "tpValid p = True" "tpReferenceErr p = None" "tpArgumentErr p = None"
    "(0 < tpWebSearchOrdinal p \<and> maxWebSearches E < tpWebSearchOrdinal p) = False" "(blockReason E (WorkspaceRoot r) p \<noteq> []) = False"
    using assms(1) by blast+
  have run: "(res, effs, r') =
      (if v \<noteq> VerdictAllow
       then (noResult\<lparr>rtFailure := failureOf ''blocked'', rtObservation := ''The tool call was not approved. No changes were made.''\<rparr>, pre', r1)
       else if tpExecutor p = ''client''
       then (case runClient (the (eClientWaiter E)) p of (res, err) \<Rightarrow> (settleError err res, pre' @ [Waited (tcID (tpCall p))], r1))
       else (case runServer E p of (res, err, effs) \<Rightarrow> (settleError err res, pre' @ effs, r1)))"
    using assms(2) [symmetric] unfolding runToolCall_def Let_def pre_def [symmetric] gated_def [symmetric] v pre'_def
    by (simp only: b if_True if_False option.case not_True_eq_False prod.case simp_thms)
  show ?thesis
  proof (cases "v = VerdictAllow \<and> tpExecutor p \<noteq> ''client''")
    case True
    obtain res0 err effs0 where s: "runServer E p = (res0, err, effs0)" using prod_cases3 by blast
    then have e: "effs = pre' @ effs0" "r' = r1" "res = settleError err res0" using run True by auto
    have "authorised E r p" using assms(1) True ok by (simp add: authorised_def gated_def)
    then have "fairRuns E r [p] effs" using runServer_ran [OF s] pre by (auto simp: fairRuns_def e)
    then show ?thesis using same e runServer_ok [OF s] by (simp add: settle_executed)
  next
    case False
    then have "ranSteps effs = [] \<and> (\<forall>i n w. Ran i n w \<notin> set effs) \<and> r' = r1 \<and> (\<not> rtSucceeded res \<or> rtExecuted res)"
      using run pre runClient_ok [of "the (eClientWaiter E)" p]
      by (auto simp: noResult_def settle_executed split: if_splits prod.splits)
    then show ?thesis using same by (simp add: fairRuns_def)
  qed
qed

lemma runToolCall_facts:
  assumes "runToolCall E p r = (res, effs, r')"
  shows "sameGate r r' \<and> fairRuns E r [p] effs \<and> (\<not> rtSucceeded res \<or> rtExecuted res)"
proof (cases "stopped E r p")
  case True
  then show ?thesis using stopped_facts [OF True assms] by (simp add: fairRuns_def)
next
  case False
  then show ?thesis by (rule running_facts [OF _ assms])
qed

lemma fairRuns_gate: "sameGate r r' \<Longrightarrow> fairRuns E r' ps es = fairRuns E r ps es"
  by (simp add: fairRuns_def authorised_gate)

lemma runGroup_effects: "runGroup E ps st = (rs, st') \<Longrightarrow>
    sameGate (bsApproval st) (bsApproval st') \<and> (\<forall>r \<in> set rs. \<not> rtSucceeded r \<or> rtExecuted r) \<and>
    (\<exists>effs. bsEffects st' = bsEffects st @ effs \<and> fairRuns E (bsApproval st) ps effs)"
proof (induction ps arbitrary: st rs st')
  case (Cons p ps)
  obtain res effs r where c: "runToolCall E p (bsApproval st) = (res, effs, r)" using prod_cases3 by blast
  let ?st = "st\<lparr>bsApproval := r, bsEffects := bsEffects st @ effs\<rparr>"
  obtain rs' st'' where g: "runGroup E ps ?st = (rs', st'')" by fastforce
  note IH = Cons.IH [OF g] and h = runToolCall_facts [OF c]
  obtain effs' where e: "bsEffects st'' = (bsEffects st @ effs) @ effs'" "fairRuns E r ps effs'" using IH by auto
  have "fairRuns E (bsApproval st) (p # ps) (effs @ effs')"
    using fairRuns_append [of E "bsApproval st" "[p]" effs ps effs'] h e(2) fairRuns_gate [of "bsApproval st" r E ps effs'] by simp
  then show ?case using Cons.prems IH h e(1) sameGate_trans [of "bsApproval st" r "bsApproval st''"] by (auto simp: c g)
qed simp

lemma commit_world [simp]: "bsEffects (commitToolResult E p r st) = bsEffects st" "bsApproval (commitToolResult E p r st) = bsApproval st"
  by (simp_all add: commitToolResult_def Let_def split: prod.splits)

lemma commitAll_world [simp]: "bsEffects (commitAll E ps rs st) = bsEffects st" "bsApproval (commitAll E ps rs st) = bsApproval st"
  by (induction ps rs arbitrary: st rule: list_induct2') simp_all

lemma interrupt_world [simp]: "bsEffects (interrupt E ps st) = bsEffects st" "bsApproval (interrupt E ps st) = bsApproval st"
  "bsTurn (interrupt E ps st) = bsTurn st"
  by (simp_all add: interrupt_def)

lemma fairRuns_more: "fairRuns E r ps es \<Longrightarrow> fairRuns E r (ps @ qs) es"
  using fairRuns_append [of E r ps es qs "[]"] by simp

lemma runGroups_effects:
  fixes st :: "'plan batch_state"
  assumes "i \<le> length plans" "runGroups E plans (partitionFrom plans m i) st = (err, st')"
  shows "\<exists>effs. bsEffects st' = bsEffects st @ effs \<and> fairRuns E (bsApproval st) (drop i plans) effs"
proof -
  have "\<forall>(st :: 'plan batch_state) err st'. runGroups E plans (partitionFrom plans m i) st = (err, st') \<longrightarrow>
      (\<exists>effs. bsEffects st' = bsEffects st @ effs \<and> fairRuns E (bsApproval st) (drop i plans) effs)"
    using assms(1)
  proof (induction rule: partitionFrom_induct)
    case (step i j gs)
    show ?case
    proof (intro allI impI)
      fix st :: "'plan batch_state" and err st'
      assume r: "runGroups E plans ((i, j) # gs) st = (err, st')"
      let ?g = "take (j - i) (drop i plans)"
      obtain rs st1 where g: "runGroup E ?g (startGroup ?g st) = (rs, st1)" by fastforce
      obtain es where e: "bsEffects st1 = bsEffects st @ es" "fairRuns E (bsApproval st) ?g es" "sameGate (bsApproval st) (bsApproval st1)"
        using runGroup_effects [OF g] by auto
      have fin: "fairRuns E (bsApproval st) (drop i plans) es"
        using fairRuns_more [OF e(2), of "drop j plans"] split_group [OF step(1), of plans] by simp
      have more: "fairRuns E (bsApproval st) (drop i plans) (es @ fs)" if "fairRuns E (bsApproval st1) (drop j plans) fs" for fs
        using fairRuns_append [OF e(2), of "drop j plans" fs] that fairRuns_gate [OF e(3)] split_group [OF step(1), of plans] by simp
      show "\<exists>effs. bsEffects st' = bsEffects st @ effs \<and> fairRuns E (bsApproval st) (drop i plans) effs"
      proof (cases "eCtxErr E (spIndex (tpStep (plans ! i))) \<noteq> None \<or> find (\<lambda>r. rtFatalErr r \<noteq> None) rs \<noteq> None")
        case True
        then have "bsEffects st' = bsEffects st \<or> bsEffects st' = bsEffects st @ es"
          using r e(1) by (auto simp: g Let_def split: option.splits)
        then show ?thesis using fin fairRuns_nil [of E "bsApproval st" "drop i plans"] by fastforce
      next
        case False
        then have "runGroups E plans gs (commitAll E ?g rs st1) = (err, st')" using r by (auto simp: g Let_def)
        then obtain fs where "bsEffects st' = bsEffects st1 @ fs" "fairRuns E (bsApproval st1) (drop j plans) fs"
          using step(4) by fastforce
        then show ?thesis using more e(1) by auto
      qed
    qed
  qed simp
  then show ?thesis using assms(2) by blast
qed

subsection \<open>Accounting\<close>

lemma mergeWrite_simps [simp]: "fwPath (mergeWrite w f) = fwPath f" "fwAdded (mergeWrite w f) = fwAdded f + fwAdded w"
  "fwRemoved (mergeWrite w f) = fwRemoved f + fwRemoved w"
  by (simp_all add: mergeWrite_def)

lemma merge_absent: "p \<notin> fwPath ` set fs \<Longrightarrow> map (\<lambda>f. if fwPath f = p then mergeWrite w f else f) fs = fs"
  by (induction fs) auto

lemma merge_sums:
  assumes "distinct (map fwPath fs)" "p \<in> fwPath ` set fs"
  shows "sum_list (map fwAdded (map (\<lambda>f. if fwPath f = p then mergeWrite w f else f) fs)) = sum_list (map fwAdded fs) + fwAdded w"
    "sum_list (map fwRemoved (map (\<lambda>f. if fwPath f = p then mergeWrite w f else f) fs)) = sum_list (map fwRemoved fs) + fwRemoved w"
  using assms
proof (induction fs)
  case (Cons f fs)
  { case 1 then show ?case using Cons.IH(1) merge_absent [of p fs w] by (cases "fwPath f = p") (auto simp del: map_map) }
  { case 2 then show ?case using Cons.IH(2) merge_absent [of p fs w] by (cases "fwPath f = p") (auto simp del: map_map) }
qed simp_all

lemma merge_paths: "map fwPath (map (\<lambda>f. if fwPath f = p then mergeWrite w f else f) fs) = map fwPath fs"
  by (induction fs) auto

lemma addWrite_ok: "diffOK d \<Longrightarrow> diffOK (addWrite w d)"
proof (cases "fwPath w = []")
  case False
  assume d: "diffOK d"
  show ?thesis
  proof (cases "fwPath w \<in> fwPath ` set (dsFiles d)")
    case True
    let ?fs = "map (\<lambda>f. if fwPath f = fwPath w then mergeWrite w f else f) (dsFiles d)"
    have "set (map fwPath ?fs) = set (map fwPath (dsFiles d))" by (simp only: merge_paths)
    then have "[] \<notin> fwPath ` set ?fs" using d by (simp only: diffOK_def set_map) simp
    moreover have "distinct (map fwPath ?fs)" using d by (simp only: merge_paths diffOK_def)
    ultimately show ?thesis using True False d merge_sums [of "dsFiles d" "fwPath w" w]
      by (simp add: addWrite_def diffOK_def del: map_map)
  next
    case new: False
    then show ?thesis using False d by (auto simp: addWrite_def diffOK_def)
  qed
qed (simp add: addWrite_def)

lemma writes_ok: "diffOK d \<Longrightarrow> diffOK (fold addWrite ws d)"
  by (induction ws arbitrary: d) (simp_all add: addWrite_ok)

lemma noDiff_ok [simp]: "diffOK noDiff"
  by (simp add: diffOK_def noDiff_def)

abbreviation countsOf :: "TurnResult \<Rightarrow> nat \<times> nat \<times> Step list" where
  "countsOf t \<equiv> (tuSucceededToolCalls t, tuExecutedToolCalls t, tuSteps t)"

lemma usage_ok: "booksOK t \<Longrightarrow> booksOK (applyToolUsage u c t) \<and> countsOf (applyToolUsage u c t) = countsOf t"
  by (auto simp: booksOK_def applyToolUsage_def Let_def)

lemma usages_ok: "booksOK t \<Longrightarrow> booksOK (fold (\<lambda>u. applyToolUsage u c) us t) \<and> countsOf (fold (\<lambda>u. applyToolUsage u c) us t) = countsOf t"
proof (induction us arbitrary: t)
  case (Cons u us)
  then show ?case using Cons.IH [of "applyToolUsage u c t"] usage_ok [of t u c] by simp
qed simp

lemma chargeModel_ok: "booksOK t \<Longrightarrow> booksOK (chargeModel u t) \<and> countsOf (chargeModel u t) = countsOf t"
  by (auto simp: booksOK_def chargeModel_def split: option.splits)

lemma recordWrites_ok: "booksOK t \<Longrightarrow> booksOK (recordWrites ws t) \<and> countsOf (recordWrites ws t) = countsOf t"
  by (auto simp: booksOK_def recordWrites_def writes_ok split: option.splits)

lemma countCall_ok: "booksOK t \<Longrightarrow> booksOK (countCall res t) \<and> countsOf (countCall res t) =
    (tuSucceededToolCalls t + (if rtSucceeded res then 1 else 0), tuExecutedToolCalls t + (if rtExecuted res then 1 else 0), tuSteps t)"
  by (auto simp: booksOK_def countCall_def)

lemma chargeTurn_ok: "booksOK t \<Longrightarrow> booksOK (chargeTurn c res t) \<and> countsOf (chargeTurn c res t) =
    (tuSucceededToolCalls t + (if rtSucceeded res then 1 else 0), tuExecutedToolCalls t + (if rtExecuted res then 1 else 0), tuSteps t)"
  unfolding chargeTurn_def using countCall_ok recordWrites_ok usages_ok chargeModel_ok by metis

lemma resolved_flags: "resolvedResult E p s r = (s', r', obs) \<Longrightarrow> \<not> rtSucceeded r \<or> rtExecuted r \<Longrightarrow> \<not> rtSucceeded r' \<or> rtExecuted r'"
  by (auto simp: resolvedResult_def Let_def split: prod.splits option.splits)

lemma turnOK_books: "turnOK t \<longleftrightarrow> booksOK t \<and> tuSucceededToolCalls t \<le> tuExecutedToolCalls t \<and> tuExecutedToolCalls t \<le> length (tuSteps t)"
  by (auto simp: turnOK_def booksOK_def)

lemma commit_turn:
  assumes "turnOK (bsTurn st)" "\<not> rtSucceeded r \<or> rtExecuted r"
  shows "turnOK (bsTurn (commitToolResult E p r st))"
proof -
  obtain s' r' obs where x: "resolvedResult E p (bsSession st) r = (s', r', obs)" using prod_cases3 by blast
  let ?t = "chargeTurn (tcID (tpCall p)) r' (bsTurn st)"
  have t: "booksOK ?t" "countsOf ?t = (tuSucceededToolCalls (bsTurn st) + (if rtSucceeded r' then 1 else 0),
      tuExecutedToolCalls (bsTurn st) + (if rtExecuted r' then 1 else 0), tuSteps (bsTurn st))"
    using chargeTurn_ok [of "bsTurn st" "tcID (tpCall p)" r'] assms(1) by (simp_all add: turnOK_books)
  have "booksOK (?t\<lparr>tuSteps := ss\<rparr>)" for ss using t(1) by (simp add: booksOK_def)
  then show ?thesis using t(2) assms(1) resolved_flags [OF x assms(2)]
    by (auto simp: commitToolResult_def x Let_def turnOK_books)
qed

lemma commitAll_turn: "turnOK (bsTurn st) \<Longrightarrow> \<forall>r \<in> set rs. \<not> rtSucceeded r \<or> rtExecuted r \<Longrightarrow> turnOK (bsTurn (commitAll E ps rs st))"
  by (induction ps rs arbitrary: st rule: list_induct2') (simp_all add: commit_turn)

lemma runGroups_turn: "turnOK (bsTurn st) \<Longrightarrow> runGroups E plans gs st = (err, st') \<Longrightarrow> turnOK (bsTurn st')"
proof (induction E plans gs st arbitrary: err st' rule: runGroups.induct)
  case (2 E plans i j gs st)
  let ?g = "take (j - i) (drop i plans)"
  obtain rs st1 where g: "runGroup E ?g (startGroup ?g st) = (rs, st1)" by fastforce
  have t: "turnOK (bsTurn (commitAll E ?g rs st1))"
    using commitAll_turn [of st1 rs] runGroup_facts [OF g] runGroup_effects [OF g] 2(2) by simp
  show ?case
  proof (cases "eCtxErr E (spIndex (tpStep (plans ! i))) \<noteq> None \<or> find (\<lambda>r. rtFatalErr r \<noteq> None) rs \<noteq> None")
    case True
    then have "bsTurn st' = bsTurn st \<or> bsTurn st' = bsTurn (commitAll E ?g rs st1)"
      using 2(3) by (auto simp: g Let_def split: option.splits)
    then show ?thesis using t 2(2) by auto
  next
    case False
    then show ?thesis using 2(1) [OF _ refl refl g [symmetric] refl _ t] 2(3) by (auto simp: g Let_def)
  qed
qed simp

subsection \<open>Calls without effects\<close>

lemma runServer_silent: "runServer E p = (res, err, effs) \<Longrightarrow> Asked n a v \<notin> set effs"
  by (auto simp: runServer_def Let_def split: sum.splits prod.splits if_splits)

lemma ungated_silent:
  assumes "\<not> HasSideEffectsFor (the (tpTool p)) (tpWireInput p)" "runToolCall E p r = (res, effs, r')"
  shows "r' = r \<and> (\<forall>n a v. Asked n a v \<notin> set effs)"
proof (cases "stopped E r p")
  case True
  define pre where "pre = (if reachable p \<and> eHook E \<noteq> None then [PreHooked (fnName (tpCall p)) (tpWireInput p)] else [])"
  have "\<forall>n a v. Asked n a v \<notin> set pre" by (simp add: pre_def)
  moreover have "r' = r \<and> effs = pre"
    using True assms(2) unfolding runToolCall_def Let_def pre_def [symmetric] by (auto split: option.splits if_splits)
  ultimately show ?thesis by simp
next
  case False
  define pre where "pre = (if reachable p \<and> eHook E \<noteq> None then [PreHooked (fnName (tpCall p)) (tpWireInput p)] else [])"
  have "\<forall>n a v. Asked n a v \<notin> set pre" by (simp add: pre_def)
  moreover have "r' = r \<and> (\<exists>fs. effs = pre @ fs \<and> (\<forall>n a v. Asked n a v \<notin> set fs))"
    using False assms unfolding runToolCall_def Let_def pre_def [symmetric]
    by (auto split: prod.splits if_splits dest: runServer_silent)
  ultimately show ?thesis by auto
qed

subsection \<open>The review gate\<close>

lemma gateStep_simps:
  "gtPlannedMutation (gateStep U c g) = (mutates c \<or> gtPlannedMutation g)"
  "gtReviewPassed (gateStep U c g) = (\<not> mutates c \<and> (reviews U c \<or> gtReviewPassed g))"
  "gtReviewCount (gateStep U c g) = (if mutates c then 0 else if reviews U c then gtReviewCount g + 1 else gtReviewCount g)"
  by (cases c; simp add: gateStep_def mutates_def reviews_def updateHarnessGates_def)+

lemma gates_closed:
  "gtPlannedMutation (fold (gateStep U) cs freshGates) = list_ex mutates cs \<and>
   gtReviewPassed (fold (gateStep U) cs freshGates) = list_ex (reviews U) (takeWhile (\<lambda>c. \<not> mutates c) (rev cs)) \<and>
   gtReviewCount (fold (gateStep U) cs freshGates) = length (filter (reviews U) (takeWhile (\<lambda>c. \<not> mutates c) (rev cs)))"
proof (induction cs rule: rev_induct)
  case (snoc c cs)
  then show ?case by (cases "mutates c"; cases "reviews U c") (simp_all add: gateStep_simps)
qed (simp add: freshGates_def)

subsection \<open>The whole batch\<close>

lemma batch_history:
  assumes "executeToolBatch E calls st = (err, st')" "messagesOf st = ms @ [a]" "validHistory ms" "mRole a = RoleAssistant" "mToolCalls a = calls"
  shows "validHistory (messagesOf st') \<and>
    (\<exists>rs. messagesOf st' = messagesOf st @ rs \<and> map shape rs = map (\<lambda>c. (RoleTool, tcID c, [])) calls)"
proof -
  obtain plans n where p: "planCalls E (bsSession st) (int (length (tuSteps (bsTurn st))) + 1) calls (bsWebSearches st) = (plans, n)" by fastforce
  have c: "map tpCall plans = calls" using planCalls_calls [of E "bsSession st"] p by (metis fst_conv)
  have "appended st st' (map (\<lambda>p. tcID (tpCall p)) plans)"
    using runGroups_messages [of 0 plans E _ _ err st'] assms(1) appended_same [of "st\<lparr>bsWebSearches := n\<rparr>" st]
    by (auto simp: executeToolBatch_def p partitionToolGroups_def)
  then obtain rs where rs: "messagesOf st' = messagesOf st @ rs" "map shape rs = map (\<lambda>c. (RoleTool, tcID c, [])) calls"
    by (auto simp: appended_def comp_def simp flip: c)
  have "validHistory (ms @ a # rs)"
    by (rule validHistory_answered [OF assms(3) _ refl assms(4)]) (use assms(4,5) rs(2) in \<open>simp_all add: isTool_def comp_def\<close>)
  then show ?thesis using rs assms(2) by auto
qed

lemma resolvedResult_summary: "resolvedResult E p s r = (s', r', obs) \<Longrightarrow> sSummary s' = sSummary s"
  by (auto simp: resolvedResult_def Let_def split: prod.splits option.splits)

lemma commit_summary: "sSummary (bsSession (commitToolResult E p r st)) = sSummary (bsSession st)"
proof -
  obtain s' r' obs where x: "resolvedResult E p (bsSession st) r = (s', r', obs)" using prod_cases3 by blast
  show ?thesis using resolvedResult_summary [OF x] by (simp add: commitToolResult_def x Let_def)
qed

lemma commitAll_summary: "sSummary (bsSession (commitAll E ps rs st)) = sSummary (bsSession st)"
  by (induction E ps rs st rule: commitAll.induct) (simp_all add: commit_summary)

lemma runGroups_summary: "runGroups E plans gs st = (err, st') \<Longrightarrow> sSummary (bsSession st') = sSummary (bsSession st)"
proof (induction E plans gs st rule: runGroups.induct)
  case (2 E plans i j gs st)
  let ?g = "take (j - i) (drop i plans)"
  obtain rs st1 where g: "runGroup E ?g (startGroup ?g st) = (rs, st1)" by fastforce
  have s: "sSummary (bsSession (commitAll E ?g rs st1)) = sSummary (bsSession st)"
    using runGroup_facts [OF g] by (simp add: commitAll_summary)
  show ?case
  proof (cases "eCtxErr E (spIndex (tpStep (plans ! i)))")
    case None
    show ?thesis
    proof (cases "find (\<lambda>r. rtFatalErr r \<noteq> None) rs")
      case n: None
      have "runGroups E plans gs (commitAll E ?g rs st1) = (err, st')" using "2.prems" by (simp add: None g n Let_def del: not_None_eq)
      then show ?thesis using "2.IH" [OF None refl, of "(rs, st1)" rs st1] g n s by (simp add: Let_def)
    qed (use "2.prems" None s in \<open>auto simp: g interrupt_def Let_def simp del: not_None_eq\<close>)
  qed (use "2.prems" in \<open>auto simp: interrupt_def\<close>)
qed simp

lemma batch_summary: "executeToolBatch E calls st = (err, st') \<Longrightarrow> sSummary (bsSession st') = sSummary (bsSession st)"
  using runGroups_summary [of E _ _ "st\<lparr>bsWebSearches := _\<rparr>" err st'] by (fastforce simp: executeToolBatch_def split: prod.splits)

lemma batch_turn: "turnOK (bsTurn st) \<Longrightarrow> executeToolBatch E calls st = (err, st') \<Longrightarrow> turnOK (bsTurn st')"
  using runGroups_turn [of "st\<lparr>bsWebSearches := _\<rparr>" E _ _ err st'] by (fastforce simp: executeToolBatch_def split: prod.splits)

lemma planCall_valid: "tpValid (fst (planCall E s i c n)) \<Longrightarrow> eAdvertised E (fnName c)"
  by (simp add: planCall_def Let_def split: prod.splits)

lemma planCalls_valid: "p \<in> set (fst (planCalls E s i cs n)) \<Longrightarrow> tpValid p \<Longrightarrow> eAdvertised E (fnName (tpCall p))"
proof (induction cs arbitrary: i n)
  case (Cons c cs)
  obtain q n' where q: "planCall E s i c n = (q, n')" by fastforce
  obtain ps n'' where ps: "planCalls E s (i + 1) cs n' = (ps, n'')" by fastforce
  show ?case using Cons.prems Cons.IH [of "i + 1" n'] planCall_valid [of E s i c n] planCall_simps(1) [of E s i c n] q ps by auto
qed simp

lemma batch_advertised:
  assumes "executeToolBatch B calls st = (err, st')"
  shows "\<exists>effs. bsEffects st' = bsEffects st @ effs \<and> (\<forall>j n w. Ran j n w \<in> set effs \<longrightarrow> eAdvertised B n)"
proof -
  obtain plans k where p: "planCalls B (bsSession st) (int (length (tuSteps (bsTurn st))) + 1) calls (bsWebSearches st) = (plans, k)" by fastforce
  obtain effs where e: "bsEffects st' = bsEffects st @ effs" "fairRuns B (bsApproval st) plans effs"
    using runGroups_effects [of 0 plans B _ "st\<lparr>bsWebSearches := k\<rparr>" err st'] assms
    by (auto simp: executeToolBatch_def p partitionToolGroups_def)
  have "eAdvertised B n" if r: "Ran j n w \<in> set effs" for j n w
  proof -
    obtain q where q: "q \<in> set plans" "authorised B (bsApproval st) q" "n = fnName (tpCall q)" using e(2) r unfolding fairRuns_def by blast
    then show ?thesis using planCalls_valid [of q B "bsSession st" _ calls "bsWebSearches st"] p by (metis authorised_def fst_conv)
  qed
  then show ?thesis using e(1) by blast
qed

subsection \<open>Properties\<close>

text \<open>C7. Whatever happens, also when the turn is cancelled or a tool ends it, every call of the assistant message is answered by exactly
  one tool result, in the order of the calls, nothing before is touched, and the history stays one a provider accepts.\<close>

theorem batch_balanced:
  assumes "executeToolBatch E calls st = (err, st')" "messagesOf st = ms @ [a]" "validHistory ms" "mRole a = RoleAssistant" "mToolCalls a = calls"
  shows "validHistory (messagesOf st') \<and>
    (\<exists>rs. messagesOf st' = messagesOf st @ rs \<and> map shape rs = map (\<lambda>c. (RoleTool, tcID c, [])) calls)"
  by (rule batch_history [OF assms])

theorem batch_balanced_witness: "validHistory (messagesOf (snd (executeToolBatch demoBatchEnv demoCalls demoBatchState)))"
proof -
  obtain err st' where e: "executeToolBatch demoBatchEnv demoCalls demoBatchState = (err, st')" by fastforce
  have "messagesOf demoBatchState = demoMessages @ [(newMessage RoleAssistant [])\<lparr>mToolCalls := demoCalls\<rparr>]" by (simp add: demoBatchState_def)
  moreover have "validHistory demoMessages" by code_simp
  ultimately show ?thesis using batch_balanced [OF e] e by (simp add: newMessage_def)
qed



text \<open>The books of a turn balance after every batch: the units are those of the model plus those of the tools, every billed call is
  counted once, no more calls succeed than run nor run than there are steps, and the file statistics add up.\<close>

theorem turn_accounting:
  assumes "turnOK (bsTurn st)" "executeToolBatch E calls st = (err, st')"
  shows "turnOK (bsTurn st')"
  by (rule batch_turn [OF assms])

theorem turn_accounting_witness: "turnOK (bsTurn (snd (executeToolBatch demoBatchEnv demoCalls demoBatchState)))"
proof -
  have "turnOK (bsTurn demoBatchState)" by (simp add: demoBatchState_def turnOK_def)
  then show ?thesis using turn_accounting [of demoBatchState demoBatchEnv demoCalls] by (metis prod.collapse)
qed

text \<open>The review gate: after any sequence of clean calls the turn counts as reviewed exactly when a passing review was committed after
  the last call with side effects, and the review count is the number of passing reviews since then.\<close>

theorem review_gate:
  "gtPlannedMutation (fold (gateStep U) cs freshGates) = list_ex mutates cs \<and>
   gtReviewPassed (fold (gateStep U) cs freshGates) = list_ex (reviews U) (takeWhile (\<lambda>c. \<not> mutates c) (rev cs)) \<and>
   gtReviewCount (fold (gateStep U) cs freshGates) = length (filter (reviews U) (takeWhile (\<lambda>c. \<not> mutates c) (rev cs)))"
  by (rule gates_closed)

text \<open>Calls that run side by side ask nobody: when a call of a group with several members has the arguments the model wrote, it
  neither prompts for approval nor changes what later calls are allowed.\<close>

theorem parallel_silent:
  assumes "g \<in> set (partitionToolGroups plans m)" "snd g - fst g \<noteq> 1" "p \<in> set (take (snd g - fst g) (drop (fst g) plans))"
    "tpWireInput p = tpInput p" "runToolCall E p r = (res, effs, r')"
  shows "r' = r \<and> (\<forall>n a v. Asked n a v \<notin> set effs)"
proof -
  have "groupOK plans m g" using partitionFrom_ok [of plans m 0] assms(1) by (auto simp: partitionToolGroups_def list_all_iff)
  then have "parallelizable p" using assms(2,3) by (cases g) (auto simp: groupOK_def list_all_iff)
  then have "\<not> HasSideEffectsFor (the (tpTool p)) (tpWireInput p)" using assms(4) by (simp add: parallelizable_def split: if_splits)
  then show ?thesis using ungated_silent assms(5) by blast
qed

theorem parallel_silent_witness:
  "fst (snd (runToolCall demoBatchEnv (hd demoPlans) demoRunner)) = [Ran 1 ''read'' (Some (Some (JObject [])))]  \<and>
   snd (snd (runToolCall demoBatchEnv (hd demoPlans) demoRunner)) = demoRunner"
proof -
  have p: "(0, 2) \<in> set (partitionToolGroups demoPlans 4)" "tpWireInput (hd demoPlans) = tpInput (hd demoPlans)" "length demoPlans = 3"
    "fst (snd (runToolCall demoBatchEnv (hd demoPlans) demoRunner)) = [Ran 1 ''read'' (Some (Some (JObject [])))]" by code_simp+
  have "hd demoPlans \<in> set (take (snd (0, 2) - fst (0, 2)) (drop (fst (0, 2)) demoPlans))"
  proof -
    obtain a b c where d: "demoPlans = [a, b, c]" using p(3) by (auto simp: numeral_3_eq_3 length_Suc_conv)
    show ?thesis unfolding d by (simp add: numeral_2_eq_2)
  qed
  from parallel_silent [OF p(1) _ this p(2), of demoBatchEnv demoRunner] p(4) show ?thesis by (metis fst_conv snd_conv prod.collapse zero_neq_one numeral_2_eq_2 diff_zero n_not_Suc_n One_nat_def)
qed

text \<open>Approval is asked for what the model wrote, the tool gets what the handle stands for: a call that writes \<open>.env\<close> may run beside others,
  and the mode that hands \<open>.env\<close> to a human approves the handle by itself.\<close>

theorem approval_sees_handle:
  "tpWireInput demoHandlePlan = Some (demoPath ''.env'') \<and> parallelizable demoHandlePlan \<and>
   HasSideEffectsFor (the (tpTool demoHandlePlan)) (tpWireInput demoHandlePlan) \<and>
   fst (ApproveAudited asciiTables anyFS (ModeApprover 2 ''/w'' (Some (Human demoHuman)) None) ''edit_file'' (rawOf (tpInput demoHandlePlan))) = VerdictAllow \<and>
   fst (ApproveAudited asciiTables anyFS (ModeApprover 2 ''/w'' (Some (Human demoHuman)) None) ''edit_file'' (rawOf (tpWireInput demoHandlePlan))) = VerdictDeny"
  by code_simp

end
