(* ===== verification/Request.thy ===== *)
theory Request
  imports Session Approve
begin

section \<open>Model requests\<close>

text \<open>
  What a turn sends to a model (\<^verbatim>\<open>internal/agent/loop.go\<close>, \<^verbatim>\<open>reference_prompt.go\<close>, \<^verbatim>\<open>context_hook_bridge.go\<close>, \<^verbatim>\<open>leak.go\<close>): the
  history with attachments as text or as inlined images, transient reminders, and the system message of the
  moment.  Nothing of this is stored.

  Quoting (\<^verbatim>\<open>%q\<close>), base64, the contents of files, the git status, the date and what extensions do are the record
  \<open>request_env\<close>.
\<close>

subsection \<open>Attachments\<close>

record request_env =
  rvQuote :: "string \<Rightarrow> string"
  rvBase64 :: "string \<Rightarrow> string"
  rvRead :: "string \<Rightarrow> string + string"                        \<comment> \<open>an error, or the bytes of a file\<close>
  rvVision :: bool
  rvRoot :: string
  rvTransform :: "(Message list \<Rightarrow> Message list) option"
  rvGitInfo :: string
  rvDate :: string                                          \<comment> \<open>today as \<^verbatim>\<open>2006-01-02 (Monday)\<close>\<close>

definition localManifest :: "request_env \<Rightarrow> LocalAssetRef list \<Rightarrow> string" where
  "localManifest E assets =
     [NL, NL] @ ''[Local attachment manifest]'' @ [NL] @
     ''The following files are stored in the workspace. Their contents are currently NOT visible to you. '' @
     ''Do not guess their contents. Use an appropriate client-side local tool such as analyze_local_image, read_pdf, or render_pdf_pages to inspect them.'' @ [NL] @
     concat (map (\<lambda>a. ''- path='' @ rvQuote E (laRelativePath a) @ ''; filename='' @ rvQuote E (laFilename a) @ ''; kind='' @ rvQuote E (laKind a) @
        ''; mime_type='' @ rvQuote E (laMIMEType a) @ ''; size_bytes='' @ intString (laSizeBytes a) @ [NL]) assets)"

definition gatewayManifest :: "GatewayAssetRef list \<Rightarrow> string" where
  "gatewayManifest assets =
     [NL, NL] @ ''[User uploaded assets]'' @ [NL] @
     ''The user uploaded the following assets. Their contents are currently NOT visible to you. '' @
     ''Do not guess their contents. Use the analyze_image client tool with the asset_id to inspect an image.'' @ [NL] @
     concat (map (\<lambda>a. ''- asset_id='' @ intString (gaAssetID a) @ ''; kind='' @ gaKind a @ ''; mime_type='' @ gaMIMEType a @
        ''; filename='' @ gaFilename a @ [NL]) assets)"

definition withTextAssetManifests :: "request_env \<Rightarrow> Message list \<Rightarrow> Message list" where
  "withTextAssetManifests E =
     map (\<lambda>m. if mLocalAssets m = [] \<and> mAssets m = [] then m
              else m\<lparr>mLocalAssets := [], mAssets := [],
                     mContent := mContent m @
                       (if mLocalAssets m \<noteq> [] \<and> mRole m \<noteq> RoleTool then localManifest E (mLocalAssets m) else []) @
                       (if mAssets m \<noteq> [] then gatewayManifest (mAssets m) else [])\<rparr>)"

subsection \<open>Images\<close>

definition visionMaxImageBytes :: int where "visionMaxImageBytes = 33554432"
definition visionMaxTotalImgBytes :: int where "visionMaxTotalImgBytes = 33554432"

definition sniffImageMIME :: "string \<Rightarrow> string" where
  "sniffImageMIME data =
     (if HasPrefix data [CHR 0xFF, CHR 0xD8, CHR 0xFF] then ''image/jpeg''
      else if HasPrefix data [CHR 0x89, CHR ''P'', CHR ''N'', CHR ''G'', CHR 0x0D, NL, CHR 0x1A, NL] then ''image/png''
      else if HasPrefix data ''GIF87a'' \<or> HasPrefix data ''GIF89a'' then ''image/gif''
      else if HasPrefix data ''RIFF'' \<and> HasPrefix (drop 8 data) ''WEBP'' then ''image/webp''
      else [])"

definition resolveAssetPath :: "string \<Rightarrow> string \<Rightarrow> string option" where
  "resolveAssetPath root rel =
     (let clean = Clean (pathJoin [root, rel]) in
      case Rel root clean of
        None \<Rightarrow> None
      | Some r \<Rightarrow> if r = DOTDOT \<or> HasPrefix r (DOTDOT @ [SLASH]) then None else Some clean)"

record vision_state =
  vsTotal :: int
  vsNotes :: string
  vsParts :: "ContentPart list"

definition addNote :: "string \<Rightarrow> vision_state \<Rightarrow> vision_state" where
  "addNote t v = v\<lparr>vsNotes := vsNotes v @ t\<rparr>"

definition imagePart :: "request_env \<Rightarrow> string \<Rightarrow> string \<Rightarrow> ContentPart" where
  "imagePart E mime data = \<lparr>cpType = ''image_url'', cpText = [], cpImageURL = Some (''data:'' @ mime @ '';base64,'' @ rvBase64 E data)\<rparr>"

definition visionAsset :: "request_env \<Rightarrow> LocalAssetRef \<Rightarrow> vision_state \<Rightarrow> vision_state" where
  "visionAsset E a v =
     (let name = rvQuote E (laFilename a) in
      case resolveAssetPath (rvRoot E) (laRelativePath a) of
        None \<Rightarrow> addNote ([NL] @ ''[Attachment '' @ name @ '' is currently unavailable (path outside the workspace).]'') v
      | Some path \<Rightarrow>
          (case rvRead E path of
             Inl e \<Rightarrow> addNote ([NL] @ ''[Attachment '' @ name @ '' is currently unavailable ('' @ e @ '').]'') v
           | Inr data \<Rightarrow>
               (let sniffed = sniffImageMIME data;
                    mime = (if sniffed \<noteq> [] then sniffed else laMIMEType a);
                    size = int (length data)
                in if sniffed = []
                   then addNote ([NL] @ ''[Attached file '' @ name @ '' ('' @ mime @ '', '' @ intString (laSizeBytes a) @ '' bytes) is stored at '' @
                          rvQuote E (laRelativePath a) @
                          ''. Inspect it with an appropriate client-side local tool; do not guess its contents.]'') v
                   else if size > visionMaxImageBytes \<or> vsTotal v + size > visionMaxTotalImgBytes
                   then addNote ([NL] @ ''[Attached image '' @ name @
                          '' was omitted: it exceeds the 32 MiB per-request image budget. It remains available at '' @
                          rvQuote E (laRelativePath a) @ '' via client-side tools.]'') v
                   else addNote ([NL] @ ''[Attached image '' @ name @ '' is visible to you above and is also stored in the workspace at '' @
                          rvQuote E (laRelativePath a) @ '' '' @ [CHR 0xE2, CHR 0x80, CHR 0x94] @
                          '' use analyze_local_image on that path for OCR, barcode, or metadata analysis.]'')
                          (v\<lparr>vsTotal := vsTotal v + size, vsParts := vsParts v @ [imagePart E mime data]\<rparr>))))"

definition visionMessage :: "request_env \<Rightarrow> Message \<Rightarrow> int \<Rightarrow> Message \<times> int" where
  "visionMessage E m used =
     (if mLocalAssets m = [] \<and> mAssets m = [] then (m, used)
      else
        (let v = fold (visionAsset E) (mLocalAssets m) \<lparr>vsTotal = used, vsNotes = [], vsParts = []\<rparr>;
             notes = vsNotes v @ (if mAssets m \<noteq> [] \<and> mRole m = RoleUser then gatewayManifest (mAssets m) else [])
         in (m\<lparr>mContentParts := (if vsParts v = [] then mContentParts m else vsParts v), mContent := mContent m @ notes,
               mLocalAssets := [], mAssets := []\<rparr>, vsTotal v)))"

fun visionMessages :: "request_env \<Rightarrow> Message list \<Rightarrow> int \<Rightarrow> Message list" where
  "visionMessages E [] used = []"
| "visionMessages E (m # ms) used = (case visionMessage E m used of (m', used') \<Rightarrow> m' # visionMessages E ms used')"

definition withVisionContentParts :: "request_env \<Rightarrow> Message list \<Rightarrow> Message list" where
  "withVisionContentParts E ms = visionMessages E ms 0"

definition withLocalAssetManifests :: "request_env \<Rightarrow> Message list \<Rightarrow> Message list" where
  "withLocalAssetManifests E ms =
     (if rvVision E \<and> rvRoot E \<noteq> [] then withVisionContentParts E ms else withTextAssetManifests E ms)"

subsection \<open>Reminders\<close>

definition appendEphemeralUser :: "Message list \<Rightarrow> string \<Rightarrow> Message list" where
  "appendEphemeralUser msgs content = msgs @ [newMessage RoleUser content]"

definition withConvergenceNudge :: "Message list \<Rightarrow> nat \<Rightarrow> Message list" where
  "withConvergenceNudge msgs toolCalls =
     appendEphemeralUser msgs (''[reminder] You have already made '' @ natString toolCalls @
       '' tool calls and very likely have enough to answer. Unless you are genuinely blocked, stop calling tools and give your final answer now. '' @
       ''Do not re-run similar queries to double-check.'')"

definition LooksLikeToolCallLeak :: "string \<Rightarrow> bool" where
  "LooksLikeToolCallLeak s = (Contains s ''DSML'' \<or> Contains s [CHR ''<'', CHR 0xEF, CHR 0xBD, CHR 0x9C])"

subsection \<open>The system message of the moment\<close>

definition onSystem :: "(string \<Rightarrow> string) \<Rightarrow> Message list \<Rightarrow> Message list" where
  "onSystem f msgs =
     (case msgs of
        [] \<Rightarrow> []
      | m # ms \<Rightarrow> if mRole m \<noteq> RoleSystem then msgs else m\<lparr>mContent := f (mContent m)\<rparr> # ms)"

definition digits :: "nat \<Rightarrow> string \<Rightarrow> bool" where
  "digits n s = (length (take n s) = n \<and> list_all (byteIn 0x30 0x39) (take n s))"

definition dateLineStart :: string where
  "dateLineStart = [NL, NL] @ ''The current date is ''"

text \<open>The length of a match of \<open>staleDateLine\<close> at the front: from the blank line to the full stop.\<close>

definition staleDateLength :: "string \<Rightarrow> nat option" where
  "staleDateLength s =
     (if \<not> HasPrefix s dateLineStart then None
      else
        (let d = drop (length dateLineStart) s;
             day = takeWhile (\<lambda>c. byteIn 0x41 0x5A c \<or> byteIn 0x61 0x7A c) (drop 12 d)
         in if digits 4 d \<and> HasPrefix (drop 4 d) ''-'' \<and> digits 2 (drop 5 d) \<and> HasPrefix (drop 7 d) ''-'' \<and> digits 2 (drop 8 d) \<and>
               HasPrefix (drop 10 d) '' ('' \<and> day \<noteq> [] \<and> HasPrefix (drop (12 + length day) d) '').''
            then Some (length dateLineStart + 12 + length day + 2) else None))"

function stripStaleDate :: "string \<Rightarrow> string" where
  "stripStaleDate [] = []"
| "stripStaleDate (c # s) = (case staleDateLength (c # s) of None \<Rightarrow> c # stripStaleDate s | Some n \<Rightarrow> stripStaleDate (drop (n - 1) s))"
  by pat_completeness auto
termination
  by (relation "measure length") (auto simp: staleDateLength_def Let_def split: if_splits)

definition withCurrentDate :: "string \<Rightarrow> Message list \<Rightarrow> Message list" where
  "withCurrentDate date = onSystem (\<lambda>c. stripStaleDate c @ dateLineStart @ date @ ''.'')"

definition injectGitInfo :: "string \<Rightarrow> Message list \<Rightarrow> Message list" where
  "injectGitInfo info msgs = (if info = [] then msgs else onSystem (\<lambda>c. c @ [NL, NL] @ info) msgs)"

definition referenceProtocolInstruction :: string where
  "referenceProtocolInstruction =
     [NL, NL] @ ''# Tool reference handles'' @ [NL, NL] @
     ''Some tool results contain values such as $ref:ref_0001. These are opaque,'' @ [NL] @
     ''session-local handles. Copy a handle exactly when passing a referenced value to'' @ [NL] @
     ''another tool. Never derive or guess an opaque identifier from a generation,'' @ [NL] @
     ''counter, window label, AX text, or any other displayed value. If a tool returns'' @ [NL] @
     ''a reference error, use one of its listed available handles; if the required kind'' @ [NL] @
     ''is unavailable, obtain it from an appropriate earlier tool result before retrying.'' @ [NL]"

definition withReferenceProtocol :: "Message list \<Rightarrow> Message list" where
  "withReferenceProtocol = onSystem (\<lambda>c. c @ referenceProtocolInstruction)"

subsection \<open>Context hooks\<close>

record ContextHookMessage =
  chRole :: Role
  chContent :: string
  chToolCallID :: string
  chToolCalls :: "ToolCall list"

definition ctxHookFromModel :: "Message list \<Rightarrow> ContextHookMessage list" where
  "ctxHookFromModel = map (\<lambda>m. \<lparr>chRole = mRole m, chContent = mContent m, chToolCallID = mToolCallID m, chToolCalls = mToolCalls m\<rparr>)"

definition ctxHookToModel :: "ContextHookMessage list \<Rightarrow> Message list" where
  "ctxHookToModel = map (\<lambda>h. (newMessage (chRole h) (chContent h))\<lparr>mToolCallID := chToolCallID h, mToolCalls := chToolCalls h\<rparr>)"

text \<open>The messages of a request: \<open>complete\<close> replaces the system prompt when there is an override, and lets extensions and
  hooks rewrite the copy before the system message is brought up to date.\<close>

definition requestMessages ::
  "request_env \<Rightarrow> (ContextHookMessage list \<Rightarrow> ContextHookMessage list) option \<Rightarrow> string \<Rightarrow> Message list \<Rightarrow> Message list" where
  "requestMessages E hook override msgs =
     (let m1 = (if override \<noteq> [] \<and> msgs \<noteq> [] \<and> mRole (hd msgs) = RoleSystem then newMessage RoleSystem override # tl msgs else msgs);
          m2 = (case rvTransform E of None \<Rightarrow> m1 | Some f \<Rightarrow> f m1);
          m3 = (case hook of None \<Rightarrow> m2 | Some h \<Rightarrow> ctxHookToModel (h (ctxHookFromModel m2)))
      in withCurrentDate (rvDate E) (withReferenceProtocol (injectGitInfo (rvGitInfo E) m3)))"

subsection \<open>Specification vocabulary\<close>

text \<open>A path that is the root or lies below it, component by component.\<close>

definition belowRoot :: "string \<Rightarrow> string \<Rightarrow> bool" where
  "belowRoot root p = prefix (cleanComps root) (cleanComps p)"

definition demoRequestEnv :: request_env where
  "demoRequestEnv = \<lparr>rvQuote = id, rvBase64 = id,
     rvRead = (\<lambda>p. if p = ''/w/a.gif'' then Inr ''GIF89a'' else Inl ''no such file''), rvVision = True, rvRoot = ''/w'',
     rvTransform = None, rvGitInfo = ''clean'', rvDate = ''2026-11-18 (Wednesday)''\<rparr>"

definition demoAsset :: "string \<Rightarrow> LocalAssetRef" where
  "demoAsset p = \<lparr>laID = [], laRelativePath = p, laFilename = p, laMIMEType = ''image/gif'', laKind = ''image'', laSizeBytes = 6, laSHA256 = [],
     laTransferPolicy = []\<rparr>"

definition demoHistory :: "Message list" where
  "demoHistory = [newMessage RoleSystem ''sys'', (newMessage RoleUser ''look'')\<lparr>mLocalAssets := [demoAsset ''a.gif'', demoAsset ''../b.gif'']\<rparr>]"

subsection \<open>Facts\<close>

lemma onSystem_shape [simp]: "map shape (onSystem f ms) = map shape ms"
  by (cases ms) (auto simp: onSystem_def shape_def)

lemma onSystem_hd [simp]: "ms \<noteq> [] \<Longrightarrow> mRole (hd (onSystem f ms)) = mRole (hd ms)" "onSystem f ms = [] \<longleftrightarrow> ms = []"
  by (cases ms; simp add: onSystem_def)+

lemma visionMessages_shape: "map shape (visionMessages E ms used) = map shape ms"
  by (induction ms arbitrary: used) (auto simp: visionMessage_def Let_def shape_def split: prod.splits if_splits)

lemma manifests_shape: "map shape (withLocalAssetManifests E ms) = map shape ms"
  by (simp add: withLocalAssetManifests_def withVisionContentParts_def visionMessages_shape withTextAssetManifests_def comp_def shape_def)

lemma hook_shape: "map shape (ctxHookToModel (ctxHookFromModel ms)) = map shape ms"
  by (simp add: ctxHookToModel_def ctxHookFromModel_def comp_def shape_def newMessage_def)

lemma request_shape:
  assumes "rvTransform E = None" "hook = None"
  shows "map shape (requestMessages E hook override ms) = map shape ms \<or>
    (\<exists>m. ms = m # tl ms \<and> mRole m = RoleSystem \<and> map shape (requestMessages E hook override ms) = shape (newMessage RoleSystem override) # map shape (tl ms))"
proof -
  have "map shape (requestMessages E hook override ms) =
      map shape (if override \<noteq> [] \<and> ms \<noteq> [] \<and> mRole (hd ms) = RoleSystem then newMessage RoleSystem override # tl ms else ms)"
    by (simp add: requestMessages_def Let_def assms withCurrentDate_def withReferenceProtocol_def injectGitInfo_def)
  then show ?thesis by (cases ms) auto
qed

lemma validHistory_system: "mRole m \<noteq> RoleTool \<Longrightarrow> mRole m \<noteq> RoleAssistant \<Longrightarrow> validHistory (m # ms) \<longleftrightarrow> validHistory ms"
  by (simp add: validHistory_def isTool_def)

lemma request_valid:
  assumes "rvTransform E = None" "hook = None" "validHistory ms"
  shows "validHistory (requestMessages E hook override ms)"
  using request_shape [OF assms(1,2), of override ms]
proof
  assume "map shape (requestMessages E hook override ms) = map shape ms"
  then show ?thesis using validHistory_shape assms(3) by blast
next
  assume "\<exists>m. ms = m # tl ms \<and> mRole m = RoleSystem \<and> map shape (requestMessages E hook override ms) = shape (newMessage RoleSystem override) # map shape (tl ms)"
  then obtain m where m: "ms = m # tl ms" "mRole m = RoleSystem"
    "map shape (requestMessages E hook override ms) = map shape (newMessage RoleSystem override # tl ms)" by auto
  have "validHistory (newMessage RoleSystem override # tl ms)"
    using assms(3) m(1,2) validHistory_system [of m "tl ms"] validHistory_system [of "newMessage RoleSystem override" "tl ms"] by (simp add: newMessage_def)
  then show ?thesis using validHistory_shape [OF m(3)] by simp
qed

lemma resolveAssetPath_inside:
  assumes "IsAbs root" "resolveAssetPath root rel = Some p"
  shows "belowRoot root p"
proof -
  let ?c = "Clean (pathJoin [root, rel])"
  have a: "IsAbs ?c" unfolding IsAbs_Clean by (rule IsAbs_pathJoin [OF assms(1)])
  have "(case Rel root ?c of None \<Rightarrow> False | Some rel \<Rightarrow> rel = DOT \<or> (rel \<noteq> DOTDOT \<and> \<not> HasPrefix rel (DOTDOT @ [SLASH])))" "p = ?c"
    using assms(2) by (auto simp: resolveAssetPath_def Let_def split: option.splits if_splits)
  then show ?thesis using Rel_abs_inside [OF assms(1) a] by (simp add: belowRoot_def)
qed

lemma visionAsset_read:
  assumes "IsAbs (rvRoot E)" "\<forall>p. belowRoot (rvRoot E) p \<longrightarrow> rvRead E p = read' p"
  shows "visionAsset (E\<lparr>rvRead := read'\<rparr>) = visionAsset E"
proof (rule ext, rule ext)
  fix a v
  have i: "imagePart (E\<lparr>rvRead := read'\<rparr>) = imagePart E" by (simp add: imagePart_def fun_eq_iff)
  show "visionAsset (E\<lparr>rvRead := read'\<rparr>) a v = visionAsset E a v"
  proof (cases "resolveAssetPath (rvRoot E) (laRelativePath a)")
    case (Some p)
    then have "read' p = rvRead E p" using assms(2) resolveAssetPath_inside [OF assms(1)] by simp
    then show ?thesis by (cases "rvRead E p") (simp_all add: visionAsset_def Let_def Some i)
  qed (simp add: visionAsset_def)
qed

definition imageParts :: "request_env \<Rightarrow> (string \<times> string) list \<Rightarrow> ContentPart list" where
  "imageParts E files = map (\<lambda>(mime, data). imagePart E mime data) files"

definition sizeOf :: "(string \<times> string) list \<Rightarrow> int" where
  "sizeOf files = sum_list (map (\<lambda>(mime, data). int (length data)) files)"

definition fromWorkspace :: "request_env \<Rightarrow> (string \<times> string) list \<Rightarrow> bool" where
  "fromWorkspace E files = (\<forall>f \<in> set files. \<exists>p. belowRoot (rvRoot E) p \<and> rvRead E p = Inr (snd f))"

lemma imageParts_simps [simp]: "imageParts E [] = []" "imageParts E (xs @ ys) = imageParts E xs @ imageParts E ys"
  "sizeOf [] = 0" "sizeOf (xs @ ys) = sizeOf xs + sizeOf ys" "fromWorkspace E []" "fromWorkspace E (xs @ ys) \<longleftrightarrow> fromWorkspace E xs \<and> fromWorkspace E ys"
  by (auto simp: imageParts_def sizeOf_def fromWorkspace_def)

definition grows :: "request_env \<Rightarrow> vision_state \<Rightarrow> vision_state \<Rightarrow> bool" where
  "grows E v v' \<longleftrightarrow> (\<exists>files. vsParts v' = vsParts v @ imageParts E files \<and> vsTotal v' = vsTotal v + sizeOf files \<and> fromWorkspace E files \<and>
     (vsTotal v \<le> visionMaxTotalImgBytes \<longrightarrow> vsTotal v' \<le> visionMaxTotalImgBytes))"

lemma grows_refl: "grows E v v"
  unfolding grows_def by (rule exI [of _ "[]"]) simp

lemma grows_trans: "grows E a b \<Longrightarrow> grows E b c \<Longrightarrow> grows E a c"
proof -
  assume "grows E a b" "grows E b c"
  then obtain xs ys where "vsParts b = vsParts a @ imageParts E xs" "vsTotal b = vsTotal a + sizeOf xs" "fromWorkspace E xs"
    "vsTotal a \<le> visionMaxTotalImgBytes \<longrightarrow> vsTotal b \<le> visionMaxTotalImgBytes"
    "vsParts c = vsParts b @ imageParts E ys" "vsTotal c = vsTotal b + sizeOf ys" "fromWorkspace E ys"
    "vsTotal b \<le> visionMaxTotalImgBytes \<longrightarrow> vsTotal c \<le> visionMaxTotalImgBytes" by (auto simp: grows_def)
  then show ?thesis unfolding grows_def by (intro exI [of _ "xs @ ys"]) simp
qed

lemma grows_note: "grows E v (addNote t v)"
  using grows_refl [of E v] by (simp add: grows_def addNote_def)

lemma visionAsset_grows:
  assumes "IsAbs (rvRoot E)"
  shows "grows E v (visionAsset E a v)"
proof (cases "resolveAssetPath (rvRoot E) (laRelativePath a)")
  case (Some p)
  note inside = resolveAssetPath_inside [OF assms Some]
  show ?thesis
  proof (cases "rvRead E p")
    case (Inr data)
    let ?w = "\<lambda>mime. v\<lparr>vsTotal := vsTotal v + int (length data), vsParts := vsParts v @ [imagePart E mime data]\<rparr>"
    have "grows E v (?w mime)" if "\<not> (int (length data) > visionMaxImageBytes \<or> vsTotal v + int (length data) > visionMaxTotalImgBytes)" for mime
      unfolding grows_def
      by (rule exI [of _ "[(mime, data)]"]) (use that inside Inr in \<open>auto simp: imageParts_def sizeOf_def fromWorkspace_def\<close>)
    then show ?thesis using grows_note grows_trans [OF _ grows_note] by (auto simp: visionAsset_def Let_def Some Inr)
  qed (simp add: visionAsset_def Some grows_note)
qed (simp add: visionAsset_def grows_note)

lemma assets_grow: "IsAbs (rvRoot E) \<Longrightarrow> grows E v (fold (visionAsset E) as v)"
  by (induction "as" arbitrary: v) (auto simp: grows_refl intro: grows_trans visionAsset_grows)

lemma visionMessages_budget:
  assumes "IsAbs (rvRoot E)"
  shows "\<forall>m \<in> set ms. mContentParts m = [] \<Longrightarrow> used \<le> visionMaxTotalImgBytes \<Longrightarrow>
    \<exists>files. concat (map mContentParts (visionMessages E ms used)) = imageParts E files \<and> used + sizeOf files \<le> visionMaxTotalImgBytes \<and> fromWorkspace E files"
proof (induction ms arbitrary: used)
  case Nil
  then show ?case by (intro exI [of _ "[]"]) simp
next
  case (Cons m ms)
  let ?v = "fold (visionAsset E) (mLocalAssets m) \<lparr>vsTotal = used, vsNotes = [], vsParts = []\<rparr>"
  obtain m' used' where v: "visionMessage E m used = (m', used')" by fastforce
  obtain xs where x: "vsParts ?v = imageParts E xs" "vsTotal ?v = used + sizeOf xs" "fromWorkspace E xs" "vsTotal ?v \<le> visionMaxTotalImgBytes"
    using assets_grow [OF assms, of "\<lparr>vsTotal = used, vsNotes = [], vsParts = []\<rparr>" "mLocalAssets m"] Cons.prems(2) by (auto simp: grows_def)
  have "\<exists>zs. mContentParts m' = imageParts E zs \<and> used' = used + sizeOf zs \<and> fromWorkspace E zs \<and> used' \<le> visionMaxTotalImgBytes"
  proof (cases "mLocalAssets m = [] \<and> mAssets m = []")
    case True
    then show ?thesis using v Cons.prems by (intro exI [of _ "[]"]) (auto simp: visionMessage_def)
  next
    case False
    then show ?thesis using v x Cons.prems(1) by (intro exI [of _ xs]) (auto simp: visionMessage_def Let_def)
  qed
  then obtain zs where z: "mContentParts m' = imageParts E zs" "used' = used + sizeOf zs" "fromWorkspace E zs" "used' \<le> visionMaxTotalImgBytes" by blast
  obtain ys where "concat (map mContentParts (visionMessages E ms used')) = imageParts E ys" "used' + sizeOf ys \<le> visionMaxTotalImgBytes" "fromWorkspace E ys"
    using Cons.IH [of used'] Cons.prems(1) z(4) by auto
  then show ?case using v z by (intro exI [of _ "zs @ ys"]) simp
qed

lemma visionMessages_stripped: "m \<in> set (visionMessages E ms used) \<Longrightarrow> mLocalAssets m = [] \<and> mAssets m = []"
  by (induction ms arbitrary: used) (auto simp: visionMessage_def Let_def split: prod.splits if_splits)

subsection \<open>Properties\<close>


lemma demo_abs: "IsAbs (rvRoot demoRequestEnv)"
  by (simp add: demoRequestEnv_def IsAbs_def)


text \<open>The images inlined in a request are files of the workspace, at most 32 MiB of them in all, and no structured reference
  to an attachment leaves the runtime.\<close>

theorem vision_budget:
  assumes "IsAbs (rvRoot E)" "\<forall>m \<in> set ms. mContentParts m = []"
  shows "(\<exists>files. concat (map mContentParts (withVisionContentParts E ms)) = imageParts E files \<and> sizeOf files \<le> 33554432 \<and> fromWorkspace E files) \<and>
    (\<forall>m \<in> set (withVisionContentParts E ms). mLocalAssets m = [] \<and> mAssets m = [])"
  using visionMessages_budget [OF assms, of 0] visionMessages_stripped unfolding withVisionContentParts_def visionMaxTotalImgBytes_def by fastforce

theorem vision_budget_witness:
  "concat (map mContentParts (withVisionContentParts demoRequestEnv demoHistory)) = imageParts demoRequestEnv [(''image/gif'', ''GIF89a'')] \<and>
   (\<forall>m \<in> set (withVisionContentParts demoRequestEnv demoHistory). mLocalAssets m = [] \<and> mAssets m = [])"
proof -
  have "\<forall>m \<in> set demoHistory. mContentParts m = []" by (simp add: demoHistory_def newMessage_def)
  then have "\<forall>m \<in> set (withVisionContentParts demoRequestEnv demoHistory). mLocalAssets m = [] \<and> mAssets m = []"
    using vision_budget [OF demo_abs] by blast
  moreover have "concat (map mContentParts (withVisionContentParts demoRequestEnv demoHistory)) = imageParts demoRequestEnv [(''image/gif'', ''GIF89a'')]"
    by code_simp
  ultimately show ?thesis by simp
qed

text \<open>The conversion for context hooks is not lossless: even a hook that changes nothing drops inlined images.\<close>

theorem context_hook_drops_images: "mContentParts ` set (ctxHookToModel (ctxHookFromModel ms)) \<subseteq> {[]}"
  by (auto simp: ctxHookToModel_def ctxHookFromModel_def newMessage_def)

text \<open>A request has at least today's date, at the end of its system message.\<close>

theorem request_dated:
  assumes "rvTransform E = None" "hook = None" "ms \<noteq> []" "mRole (hd ms) = RoleSystem"
  shows "\<exists>c. mContent (hd (requestMessages E hook override ms)) = c @ dateLineStart @ rvDate E @ ''.''"
proof -
  let ?m1 = "if override \<noteq> [] \<and> ms \<noteq> [] \<and> mRole (hd ms) = RoleSystem then newMessage RoleSystem override # tl ms else ms"
  let ?m2 = "withReferenceProtocol (injectGitInfo (rvGitInfo E) ?m1)"
  have "?m2 \<noteq> []" "mRole (hd ?m2) = RoleSystem"
    using assms(3,4) by (auto simp: withReferenceProtocol_def injectGitInfo_def newMessage_def)
  then have "mContent (hd (withCurrentDate (rvDate E) ?m2)) = stripStaleDate (mContent (hd ?m2)) @ dateLineStart @ rvDate E @ ''.''"
    by (cases ?m2) (auto simp: withCurrentDate_def onSystem_def)
  then show ?thesis by (auto simp: requestMessages_def Let_def assms(1,2))
qed

theorem request_dated_witness: "\<exists>c. mContent (hd (requestMessages demoRequestEnv None [] demoHistory)) = c @ dateLineStart @ ''2026-11-18 (Wednesday)'' @ ''.''"
  using request_dated [of demoRequestEnv None demoHistory "[]"] by (simp add: demoRequestEnv_def demoHistory_def newMessage_def)


end
