(* ===== verification/Turn_Loop.thy ===== *)
theory Turn_Loop
  imports Tool_Batch Reflection Resilient Context_Editor Runtime_Inputs Request
begin

section \<open>The turn loop\<close>

text \<open>
  \<^verbatim>\<open>internal/agent/loop.go\<close>, with \<^verbatim>\<open>continuation.go\<close>, \<^verbatim>\<open>runtime_inputs.go\<close>, \<^verbatim>\<open>model_selection.go\<close>, \<^verbatim>\<open>tool_defs.go\<close> and the registry of
  \<^verbatim>\<open>internal/tools\<close>: one turn of the agent, from the user's message to the final answer, a step limit, an error, or a
  checkpoint on which the turn is parked.  It is composed from the other theories: the history and its upkeep (\<open>Session\<close>,
  \<open>Context_Editor\<close>), requests (\<open>Request\<close>), responses (\<open>Resilient\<close>), tool batches (\<open>Tool_Batch\<close>), reflection and the store of
  runtime inputs.

  What the model answers to the request of a step, the state of the caller's context, what the database holds
  when a boundary is reached, the verdict of a stop policy, what plan tools that ran in a batch leave behind and
  the clock are the record \<open>turn_env\<close>.  The loop counts steps from \<open>startStep\<close> to \<open>MaxSteps\<close>, so the recursion is on the
  steps that remain.  Sums of tokens and units are integers; the cooldown is computed in whole numbers where
  floating point gives the same, and its interpolated value is a parameter.  Mid-turn saves of the session, which never fail a
  turn, are left out, and so are the plan and its title in a checkpoint.
\<close>

subsection \<open>The registry of tools\<close>

type_synonym registry = "(tool \<times> bool) list"             \<comment> \<open>in the order of registration; whether it is internal\<close>

definition registerTool :: "tool \<Rightarrow> bool \<Rightarrow> registry \<Rightarrow> string + registry" where
  "registerTool t internal r =
     (if tlName t = [] then Inl ''cannot register tool with empty name''
      else if tlName t \<in> tlName ` fst ` set r then Inl (''tool already registered: '' @ tlName t)
      else Inr (r @ [(t, internal)]))"

definition getTool :: "registry \<Rightarrow> string \<Rightarrow> tool option" where
  "getTool r name = map_option fst (find (\<lambda>(t, internal). tlName t = name) r)"

definition visibleTools :: "registry \<Rightarrow> tool list" where
  "visibleTools r = map fst (filter (\<lambda>(t, internal). \<not> internal) r)"

definition toolDefinitions :: "registry \<Rightarrow> string list" where   \<comment> \<open>the names of what is advertised\<close>
  "toolDefinitions r = map tlName (visibleTools r)"

subsection \<open>State\<close>

record StopContext =
  scLastText :: string
  scTodos :: "Todo list"
  scSteps :: "Step list"
  scPlanState :: PlanStatus
  scCodeMutated :: bool
  scToolCalls :: nat
  scMaxSteps :: int

record StopVerdict =
  svContinue :: bool
  svMessage :: string

record continuation_state =
  csVersion :: int
  csNextStep :: int
  csMaxSteps :: int
  csMaxWebSearches :: int
  csTurn :: TurnResult
  csWebSearches :: int
  csAssets :: "AssetRef list"
  csBilledCallIDs :: "string list"
  csHypothesized :: bool
  csPendingHarness :: string
  csPendingHypothesis :: string
  csTodos :: "Todo list"
  csPlanState :: PlanStatus
  csLastAssistantText :: string
  csGates :: gates

datatype turn_error =
    ContextError exec_error | InputsError input_error | CompactionError compact_error | ModelError err | InvalidTurn err
  | BatchError exec_error | ParkError string | MissingProvider | MissingUserMessage | ImageInputUnsupported | RequestIDRequired
  | ContinuationUnavailable | InvalidContinuation

datatype loop_event =
    ToolEvent event | SessionRepaired HistoryRepair | TurnStarted string | TurnResumed | ModelStarted | Thinking string
  | ModelFinished bool Usage | Compacted CompactionStats bool | ContextEdited nat | ContextPruned int int | Reflected string
  | PreMutation string | AssistantText string | InputsDelivered "string list" | TurnFinished TurnResult

record model_answer =
  maResponse :: Response
  maErr :: "err option"
  maStreamedText :: string
  maStreamedReasoning :: string

record turn_env =
  teBatch :: batch_env
  teTools :: registry
  tePlanTools :: "registry option"
  teProvider :: bool                                        \<comment> \<open>whether there is a model\<close>
  teCtxErr :: "int \<Rightarrow> exec_error option"                    \<comment> \<open>\<open>ctx.Err\<close> at the top of a step\<close>
  teParkCtxErr :: "int \<Rightarrow> exec_error option"                \<comment> \<open>and before parking after it\<close>
  teAnswer :: "int \<Rightarrow> Message list \<Rightarrow> string list \<Rightarrow> model_answer"
  teRequest :: "int \<Rightarrow> request_env"
  teContextHook :: "(ContextHookMessage list \<Rightarrow> ContextHookMessage list) option"
  teInputs :: "input_env option"                            \<comment> \<open>\<open>RuntimeInputs\<close>\<close>
  teDatabase :: "nat \<Rightarrow> string option \<times> int \<times> input_db"      \<comment> \<open>the store as the \<open>n\<close>-th boundary finds it\<close>
  teCompactor :: "LLMCompactor option"
  teContextEditor :: "int option"
  teCompactKeepTokens :: int
  teInterpolate :: "int \<Rightarrow> int \<Rightarrow> int \<Rightarrow> int"
  teStopPolicy :: "(int \<Rightarrow> StopContext \<Rightarrow> string + StopVerdict) option"
  tePark :: "(int \<Rightarrow> string option) option"                  \<comment> \<open>\<open>ParkContinuation\<close>: the error it returns\<close>
  teRemindHypothesis :: bool
  teReflector :: bool
  teAfterBatch :: "int \<Rightarrow> PlanStatus \<times> gates \<times> string \<Rightarrow> PlanStatus \<times> gates \<times> string"
  teSelection :: "string \<Rightarrow> json"                            \<comment> \<open>the selection, given the model that answered\<close>
  teNow :: "int \<Rightarrow> int"
  teReservedTurnID :: string
  teRequestID :: string
  teUserAssetsSupported :: bool

record 'plan loop_state =
  lsBatch :: "'plan batch_state"
  lsMaxSteps :: int
  lsMaxWebSearches :: int
  lsLastText :: string                                      \<comment> \<open>\<open>lastAssistantText\<close>\<close>
  lsHypothesized :: bool
  lsHarness :: string                                       \<comment> \<open>\<open>pendingHarness\<close>\<close>
  lsHypothesis :: string                                    \<comment> \<open>\<open>pendingHypothesis\<close>\<close>
  lsSamples :: "(int \<times> int) list"                           \<comment> \<open>prompt and cached tokens of recent calls\<close>
  lsOverride :: string                                      \<comment> \<open>\<open>SystemPromptOverride\<close>\<close>
  lsBoundaries :: nat
  lsCallSeq :: nat
  lsRequests :: "(Message list \<times> string list) list"
  lsLog :: "loop_event list"
  lsParked :: "continuation_state option"

abbreviation sessionOf :: "'plan loop_state \<Rightarrow> Session" where "sessionOf s \<equiv> bsSession (lsBatch s)"
abbreviation turnOf :: "'plan loop_state \<Rightarrow> TurnResult" where "turnOf s \<equiv> bsTurn (lsBatch s)"
abbreviation planOf :: "'plan loop_state \<Rightarrow> PlanStatus" where "planOf s \<equiv> PlanState (bsApproval (lsBatch s))"

definition onBatch :: "('plan batch_state \<Rightarrow> 'plan batch_state) \<Rightarrow> 'plan loop_state \<Rightarrow> 'plan loop_state" where
  "onBatch f s = s\<lparr>lsBatch := f (lsBatch s)\<rparr>"

definition onSession :: "(Session \<Rightarrow> Session) \<Rightarrow> 'plan loop_state \<Rightarrow> 'plan loop_state" where
  "onSession f = onBatch (\<lambda>b. b\<lparr>bsSession := f (bsSession b)\<rparr>)"

definition onTurn :: "(TurnResult \<Rightarrow> TurnResult) \<Rightarrow> 'plan loop_state \<Rightarrow> 'plan loop_state" where
  "onTurn f = onBatch (\<lambda>b. b\<lparr>bsTurn := f (bsTurn b)\<rparr>)"

definition emit :: "loop_event list \<Rightarrow> 'plan loop_state \<Rightarrow> 'plan loop_state" where
  "emit es s = s\<lparr>lsLog := lsLog s @ es\<rparr>"

definition appendMessage :: "int \<Rightarrow> Message \<Rightarrow> 'plan loop_state \<Rightarrow> 'plan loop_state" where
  "appendMessage now m = onSession (\<lambda>x. x\<lparr>sMessages := sMessages x @ [m], sUpdatedAt := now\<rparr>)"

subsection \<open>Boundaries and upkeep\<close>

definition runtimeInputReceipts :: "Session \<Rightarrow> string list" where
  "runtimeInputReceipts x = concat (map mRuntimeInputReceipts (sMessages x))"

definition runtimeInputBoundary ::
  "turn_env \<Rightarrow> bool \<Rightarrow> bool \<Rightarrow> 'plan loop_state \<Rightarrow> (input_error + nat) \<times> 'plan loop_state" where
  "runtimeInputBoundary E deliver finalize s =
     (case teInputs E of
        None \<Rightarrow> (Inr 0, s)
      | Some IE \<Rightarrow>
          (let (fault, now, db) = teDatabase E (lsBoundaries s);
               b = \<lparr>rbTurnID = eTurnID (teBatch E), rbReceipts = runtimeInputReceipts (sessionOf s), rbDeliver = deliver, rbFinalize = finalize\<rparr>;
               s1 = s\<lparr>lsBoundaries := lsBoundaries s + 1\<rparr>
           in case fst (CheckpointRuntimeInputs IE fault now b (sessionOf s) db) of
                Inl e \<Rightarrow> (Inl e, s1)
              | Inr (ids, x) \<Rightarrow> (Inr (length ids), emit (if ids = [] then [] else [InputsDelivered ids]) (onSession (\<lambda>_. x) s1))))"

definition growthRequired :: "turn_env \<Rightarrow> (int \<times> int) list \<Rightarrow> int \<Rightarrow> int" where
  "growthRequired E samples threshold =
     (let sumTotal = sum_list (map fst samples); sumHit = sum_list (map snd samples) in
      if length samples < 3 then threshold div 10
      else if sumTotal = 0 then threshold div 10
      else if 10 * sumHit \<ge> 8 * sumTotal then threshold div 5
      else if 10 * sumHit \<le> 3 * sumTotal then threshold div 20
      else teInterpolate E sumHit sumTotal threshold)"

definition recordCacheSample :: "int \<Rightarrow> int \<Rightarrow> (int \<times> int) list \<Rightarrow> (int \<times> int) list" where
  "recordCacheSample prompt cached samples =
     (let all = samples @ [(prompt, cached)] in drop (length all - 8) all)"

definition coolingDown :: "turn_env \<Rightarrow> (int \<times> int) list \<Rightarrow> Session \<Rightarrow> bool" where
  "coolingDown E samples x =
     (case LastCompaction x of
        None \<Rightarrow> False
      | Some l \<Rightarrow> Finalized l \<and> sPromptTokens x < AfterTokens l + growthRequired E samples (sCompactThreshold x))"

text \<open>Tier zero: whether pruning alone is expected to be enough, and the session it leaves.\<close>

definition pruneFirst :: "turn_env \<Rightarrow> int \<Rightarrow> Session \<Rightarrow> bool \<times> Session \<times> loop_event list" where
  "pruneFirst E before x =
     (if teCompactKeepTokens E > 0
      then (case PruneOldContext (teCompactKeepTokens E) x of
              ((saved, truncated, toolMsgs), x') \<Rightarrow>
                if saved > 0
                then (let savedTokens = int saved div 4; fragmented = (toolMsgs > 0 \<and> 10 * truncated > 3 * toolMsgs)
                      in (\<not> fragmented \<and> before - savedTokens < sCompactThreshold x, x', [ContextPruned before savedTokens]))
                else (False, x', []))
      else (False, x, []))"

definition maybeCompact :: "turn_env \<Rightarrow> int \<Rightarrow> 'plan loop_state \<Rightarrow> compact_error option \<times> 'plan loop_state" where
  "maybeCompact E i s =
     (case teCompactor E of
        None \<Rightarrow> (None, s)
      | Some c \<Rightarrow>
          (let x = sessionOf s in
           if \<not> NeedCompaction x then (None, s)
           else if coolingDown E (lsSamples s) x then (None, s)
           else
             (let before = sPromptTokens x;
                  (cleared, x1) = (case teContextEditor E of None \<Rightarrow> (0, x) | Some keep \<Rightarrow> EditContext keep x);
                  (enough, x2, pruned) = pruneFirst E before x1;
                  s2 = emit ((if cleared > 0 then [ContextEdited cleared] else []) @ pruned) (onSession (\<lambda>_. x2) s)
              in if enough then (None, s2)
                 else
                   (case Compact c x2 of
                      (Some e, x3) \<Rightarrow> (Some e, onSession (\<lambda>_. x3) s2)
                    | (None, x3) \<Rightarrow>
                        if length (sMessages x3) = length (sMessages x2) \<and> sSummary x3 = sSummary x2 then (None, onSession (\<lambda>_. x3) s2)
                        else (None, onSession (\<lambda>_. RecordCompaction (teNow E i) before (int (length (sSummary x3))) x3) s2)))))"

subsection \<open>A model call\<close>

definition planningPrompt :: string where
  "planningPrompt =
     ''[plan mode] You are in PLAN MODE. You can read, search, and write plan files to .codeagent/plans/, but you CANNOT edit project files or run commands. '' @
     ''Treat this as a discovery and design phase: research thoroughly, then produce a concrete implementation plan. '' @
     ''Your plan should describe WHAT to do and WHY '' @ emDash @ '' do NOT write pseudo-code, function signatures, '' @
     ''switch/case blocks, or method call chains. Those are implementation details; the compiler and '' @
     ''tests verify them. If you find yourself writing 5+ lines of code-like content, stop: that '' @
     ''belongs in the implementation phase, not the plan.'' @ [NL] @
     ''Your plan should include:'' @ [NL] @
     ''1. Problem summary '' @ emDash @ '' what needs to be done'' @ [NL] @
     ''2. Files to change '' @ emDash @ '' list each file and what changes'' @ [NL] @
     ''3. Approach '' @ emDash @ '' the implementation strategy and key design decisions'' @ [NL] @
     ''4. Step-by-step order '' @ emDash @ '' the sequence of changes'' @ [NL] @
     ''5. Evidence '' @ emDash @ '' concrete workspace-relative files and findings that support the design'' @ [NL] @
     ''6. Constraints and unknowns '' @ emDash @ '' resolve blocking unknowns with ask_user; do not propose while any remain'' @ [NL] @
     ''7. Risks and edge cases '' @ emDash @ '' what could go wrong and how to handle it'' @ [NL] @
     ''8. Verification '' @ emDash @ '' exact tests/checks that will prove the implementation'' @ [NL] @
     ''When your plan is complete, write it to a markdown file under .codeagent/plans/, '' @
     ''then call propose_plan with plan_path, evidence_paths, verification, and blocking_unknowns. '' @
     ''Keep the accompanying text brief; the plan file is the authoritative content '' @
     ''submitted for approval. Do NOT make any project changes. '' @
     ''You may track your plan'' @ [CHR 0x27] @ ''s steps with todo_write.''"

definition planningContinuationPrompt :: string where
  "planningContinuationPrompt =
     ''[plan mode] Plain assistant text cannot finish PLAN MODE. Continue discovery. Write the authoritative plan under .codeagent/plans/, '' @
     ''then call propose_plan with the readiness evidence.''"

definition hypothesisReminder :: string where
  "hypothesisReminder =
     ''[reflection] A build or test failed this turn and you are about to edit code. '' @
     ''Before you do, state your root-cause hypothesis in one or two sentences: what is actually wrong, and why '' @
     ''this edit fixes the CAUSE '' @ emDash @ '' not just makes the failure disappear. If you are about to change a test or a '' @
     ''value so the failure goes away, stop and fix the source instead. If you are confident in the cause, say it, then make your edit.''"

definition nudgeThreshold :: "int \<Rightarrow> int" where
  "nudgeThreshold maxSteps = (let t = (if maxSteps < 0 then - ((- maxSteps) div 2) else maxSteps div 2) in if t < 6 then 6 else t)"

definition activeTools :: "turn_env \<Rightarrow> PlanStatus \<Rightarrow> registry" where
  "activeTools E plan =
     (case tePlanTools E of
        Some r \<Rightarrow> if plan = PlanStatusPlanning \<or> plan = PlanStatusProposing then r else teTools E
      | None \<Rightarrow> teTools E)"

definition nudgedMessages :: "'plan loop_state \<Rightarrow> Message list" where
  "nudgedMessages s =
     (let n = length (tuSteps (turnOf s));
          m0 = sMessages (sessionOf s);
          m1 = (if planOf s \<noteq> PlanStatusPlanning \<and> int n \<ge> nudgeThreshold (lsMaxSteps s) then withConvergenceNudge m0 n else m0);
          m2 = (if lsHarness s \<noteq> [] then appendEphemeralUser m1 (lsHarness s) else m1);
          m3 = (if lsHypothesis s \<noteq> [] then appendEphemeralUser m2 (lsHypothesis s) else m2);
          m4 = (if planOf s = PlanStatusPlanning then appendEphemeralUser m3 planningPrompt else m3)
      in m4)"

text \<open>\<open>complete\<close>: the override is used up only when there is a system message to replace.\<close>

definition callModel ::
  "turn_env \<Rightarrow> int \<Rightarrow> string list \<Rightarrow> Message list \<Rightarrow> 'plan loop_state \<Rightarrow> model_answer \<times> 'plan loop_state" where
  "callModel E i tools msgs s =
     (let RE = (teRequest E i)\<lparr>rvRoot := WorkspaceRoot (bsApproval (lsBatch s))\<rparr>;
          shown = withLocalAssetManifests RE msgs;
          sent = requestMessages RE (teContextHook E) (lsOverride s) shown;
          a = teAnswer E i sent tools;
          u = rUsage (maResponse a)
      in (a, emit [ModelStarted]
               (s\<lparr>lsOverride := (if shown \<noteq> [] \<and> mRole (hd shown) = RoleSystem then [] else lsOverride s),
                  lsRequests := lsRequests s @ [(sent, tools)],
                  lsSamples := (if maErr a = None then recordCacheSample (uPromptTokens u) (uCachedPromptTokens u) (lsSamples s)
                                else lsSamples s)\<rparr>)))"

definition usageJSON :: "Usage \<Rightarrow> json" where
  "usageJSON u = JObject ([(''prompt_tokens'', JNumber (intString (uPromptTokens u))),
     (''completion_tokens'', JNumber (intString (uCompletionTokens u))), (''total_tokens'', JNumber (intString (uTotalTokens u)))] @
     (if uBillingUnits u = 0 then [] else [(''billing_units'', JNumber (intString (uBillingUnits u)))]))"

definition recordModelCall :: "turn_env \<Rightarrow> Response \<Rightarrow> Session \<Rightarrow> Session" where
  "recordModelCall E resp =
     setMeta ''last_model_call'' (MetaOther (JObject [(''model_selection'', teSelection E (rActualModel resp)),
       (''usage'', usageJSON (AccountingUsage resp))]))"

definition modelCallSucceeded :: "turn_env \<Rightarrow> model_answer \<Rightarrow> bool" where
  "modelCallSucceeded E a = (maErr a = None \<and> ValidateAssistantTurn (eParse (teBatch E)) (maResponse a) = None)"

definition chargeCall :: "Usage \<Rightarrow> TurnResult \<Rightarrow> TurnResult" where
  "chargeCall u t = t\<lparr>tuModelBillingUnits := tuModelBillingUnits t + uBillingUnits u,
     tuTotalBillingUnits := tuTotalBillingUnits t + uBillingUnits u,
     tuTokensUsed := tuTokensUsed t + (uPromptTokens u + uCompletionTokens u)\<rparr>"

definition isCanceled :: "err option \<Rightarrow> bool" where
  "isCanceled e = (case e of None \<Rightarrow> False | Some e \<Rightarrow> errorsIs e Canceled)"

text \<open>The text or the reasoning of an answer; a failed call leaves what was streamed.\<close>

definition settledText :: "string \<Rightarrow> string \<Rightarrow> err option \<Rightarrow> string" where
  "settledText text streamed e = (if text = [] \<and> e \<noteq> None then TrimSpace streamed else text)"

definition bookCall :: "turn_env \<Rightarrow> model_answer \<Rightarrow> 'plan loop_state \<Rightarrow> 'plan loop_state" where
  "bookCall E a s =
     (let resp = maResponse a; u = AccountingUsage resp;
          text = settledText (rContent resp) (maStreamedText a) (maErr a);
          reasoning = settledText (rReasoningContent resp) (maStreamedReasoning a) (maErr a);
          s1 = onSession (recordModelCall E resp) s;
          s2 = (if text \<noteq> [] then s1\<lparr>lsLastText := text\<rparr> else s1);
          s3 = emit ((if reasoning \<noteq> [] \<and> \<not> isCanceled (maErr a) then [Thinking reasoning] else []) @ [ModelFinished (modelCallSucceeded E a) u]) s2
      in onTurn (chargeCall u) s3)"

fun fillCalls :: "nat \<Rightarrow> ToolCall list \<Rightarrow> nat \<times> ToolCall list" where
  "fillCalls n [] = (n, [])"
| "fillCalls n (c # cs) =
     (let n1 = (if tcID c = [] then n + 1 else n);
          c1 = (if tcID c = [] then c\<lparr>tcID := ''call_'' @ natString n1\<rparr> else c);
          c2 = (if tcType c1 = [] then c1\<lparr>tcType := ''function''\<rparr> else c1);
          (n2, cs') = fillCalls n1 cs
      in (n2, c2 # cs'))"

definition finishCompaction :: "Usage \<Rightarrow> 'plan loop_state \<Rightarrow> 'plan loop_state" where
  "finishCompaction u s =
     (let s1 = onTurn (\<lambda>t. t\<lparr>tuPromptTokens := uPromptTokens u\<rparr>) (onSession (\<lambda>x. x\<lparr>sPromptTokens := uPromptTokens u\<rparr>) s);
          (stat, x) = FinalizeCompaction (uPromptTokens u) (sessionOf s1)
      in emit (case stat of None \<Rightarrow> [] | Some st \<Rightarrow> [Compacted st (sCompactThreshold x > 0 \<and> AfterTokens st \<ge> sCompactThreshold x)])
           (onSession (\<lambda>_. x) s1))"

subsection \<open>One step\<close>

datatype 'plan flow = Next "'plan loop_state" | Return "turn_error option" "'plan loop_state"

definition stepViews :: "Step list \<Rightarrow> StepView list" where
  "stepViews = map (\<lambda>s. \<lparr>svTool = spToolName s, svInput = rawOf (spToolInput s), svObservation = spObservation s\<rparr>)"

definition aboutToMutate :: "ToolCall list \<Rightarrow> bool" where
  "aboutToMutate = list_ex (\<lambda>c. IsMutatingTool (fnName c))"

definition CanContinueBackground :: "turn_env \<Rightarrow> bool" where
  "CanContinueBackground E = (tePark E \<noteq> None \<and> teInputs E \<noteq> None \<and> teStopPolicy E = None)"

definition captureContinuation :: "int \<Rightarrow> 'plan loop_state \<Rightarrow> continuation_state" where
  "captureContinuation nextStep s =
     (let b = lsBatch s in
      \<lparr>csVersion = 1, csNextStep = nextStep, csMaxSteps = lsMaxSteps s, csMaxWebSearches = lsMaxWebSearches s,
       csTurn = (bsTurn b)\<lparr>tuWaitingBackground := False, tuBilled := []\<rparr>, csWebSearches = bsWebSearches b, csAssets = bsAssets b,
       csBilledCallIDs = tuBilled (bsTurn b), csHypothesized = lsHypothesized s, csPendingHarness = lsHarness s,
       csPendingHypothesis = lsHypothesis s, csTodos = bsTodos b, csPlanState = planOf s, csLastAssistantText = lsLastText s,
       csGates = bsGates b\<rparr>)"

definition stopVerdict :: "turn_env \<Rightarrow> int \<Rightarrow> string \<Rightarrow> 'plan loop_state \<Rightarrow> StopVerdict" where
  "stopVerdict E i content s =
     (case teStopPolicy E of
        None \<Rightarrow> \<lparr>svContinue = False, svMessage = []\<rparr>
      | Some decide \<Rightarrow>
          (case decide i \<lparr>scLastText = content, scTodos = bsTodos (lsBatch s), scSteps = tuSteps (turnOf s), scPlanState = planOf s,
                         scCodeMutated = False, scToolCalls = tuExecutedToolCalls (turnOf s), scMaxSteps = lsMaxSteps s\<rparr> of
             Inl e \<Rightarrow> \<lparr>svContinue = True, svMessage = ''[policy] The stop policy could not decide: '' @ e\<rparr>
           | Inr v \<Rightarrow> v))"

definition finishStep :: "turn_env \<Rightarrow> int \<Rightarrow> Response \<Rightarrow> 'plan loop_state \<Rightarrow> 'plan flow" where
  "finishStep E i resp s =
     (if planOf s = PlanStatusPlanning
      then Next (emit [Reflected planningContinuationPrompt] (s\<lparr>lsHarness := planningContinuationPrompt\<rparr>))
      else
        (let v = stopVerdict E i (rContent resp) s in
         if svContinue v
         then Next (if svMessage v \<noteq> [] then emit [Reflected (svMessage v)] (s\<lparr>lsHarness := svMessage v\<rparr>) else s)
         else
           (case runtimeInputBoundary E True True (appendMessage (teNow E i) (AssistantMessage resp) s) of
              (Inl e, s2) \<Rightarrow> Return (Some (InputsError e)) s2
            | (Inr delivered, s2) \<Rightarrow>
                if delivered > 0 then Next (emit [AssistantText (rContent resp)] s2)
                else
                  (let s3 = onTurn (\<lambda>t. t\<lparr>tuFinal := rContent resp\<rparr>) s2
                   in Return None (emit [TurnFinished (turnOf s3)] s3)))))"

text \<open>The batch of a step, with the tools of this step, and what plan tools changed.\<close>

definition batchStep :: "turn_env \<Rightarrow> int \<Rightarrow> registry \<Rightarrow> ToolCall list \<Rightarrow> 'plan loop_state \<Rightarrow> exec_error option \<times> 'plan loop_state" where
  "batchStep E i tools calls s =
     (let B = (teBatch E)\<lparr>eTools := getTool tools, eAdvertised := (\<lambda>n. n \<in> set (toolDefinitions tools)),
                         eMaxWebSearches := lsMaxWebSearches s, eRuntimeInputs := (teInputs E \<noteq> None)\<rparr>;
          (err, b) = executeToolBatch B calls ((lsBatch s)\<lparr>bsWaitFor := [], bsEvents := []\<rparr>);
          (plan, gates, text) = teAfterBatch E i (PlanState (bsApproval b), bsGates b, lsLastText s)
      in (err, emit (map ToolEvent (bsEvents b))
                 (s\<lparr>lsBatch := b\<lparr>bsGates := gates, bsApproval := (bsApproval b)\<lparr>PlanState := plan\<rparr>, bsEvents := []\<rparr>, lsLastText := text\<rparr>)))"

definition parkStep :: "turn_env \<Rightarrow> int \<Rightarrow> 'plan loop_state \<Rightarrow> 'plan flow" where
  "parkStep E i s =
     (case teParkCtxErr E i of
        Some e \<Rightarrow> Return (Some (ContextError e)) s
      | None \<Rightarrow>
          (let c = captureContinuation (i + 1) s in
           case the (tePark E) i of
             Some e \<Rightarrow> Return (Some (ParkError e)) s
           | None \<Rightarrow> Return None (onTurn (\<lambda>t. t\<lparr>tuWaitingBackground := True\<rparr>) (s\<lparr>lsParked := Some c\<rparr>))))"

definition toolStep :: "turn_env \<Rightarrow> int \<Rightarrow> registry \<Rightarrow> Response \<Rightarrow> 'plan loop_state \<Rightarrow> 'plan flow" where
  "toolStep E i tools resp s =
     (if teRemindHypothesis E \<and> \<not> lsHypothesized s \<and> aboutToMutate (rToolCalls resp) \<and> SawFailure (stepViews (tuSteps (turnOf s)))
      then Next (emit [PreMutation hypothesisReminder] (s\<lparr>lsHypothesized := True, lsHypothesis := hypothesisReminder\<rparr>))
      else
        (let s1 = appendMessage (teNow E i) (AssistantMessage resp) s;
             s2 = emit (if rContent resp \<noteq> [] then [AssistantText (rContent resp)] else []) s1;
             (cancelErr, s3) = batchStep E i tools (rToolCalls resp) s2;
             (persisted, s4) = (if teInputs E \<noteq> None \<and> runtimeInputReceipts (sessionOf s3) \<noteq> []
                                then runtimeInputBoundary E False False s3 else (Inr 0, s3))
         in case persisted of
              Inl e \<Rightarrow> Return (Some (InputsError e)) s4
            | Inr _ \<Rightarrow>
                (case cancelErr of
                   Some e \<Rightarrow> Return (Some (BatchError e)) s4
                 | None \<Rightarrow>
                     if bsWaitFor (lsBatch s4) \<noteq> [] \<and> CanContinueBackground E \<and> i + 1 < lsMaxSteps s4 then parkStep E i s4
                     else Next s4)))"

definition answerStep :: "turn_env \<Rightarrow> int \<Rightarrow> registry \<Rightarrow> model_answer \<Rightarrow> 'plan loop_state \<Rightarrow> 'plan flow" where
  "answerStep E i tools a s =
     (case maErr a of
        Some e \<Rightarrow> Return (Some (ModelError e)) s
      | None \<Rightarrow>
          (let (sq, calls) = fillCalls (lsCallSeq s) (rToolCalls (maResponse a));
               resp = (maResponse a)\<lparr>rToolCalls := calls\<rparr>;
               s1 = s\<lparr>lsCallSeq := sq\<rparr>
           in case ValidateAssistantTurn (eParse (teBatch E)) resp of
                Some e \<Rightarrow> Return (Some (InvalidTurn e)) s1
              | None \<Rightarrow>
                  (let s2 = finishCompaction (rUsage resp) s1
                   in if calls = [] then finishStep E i resp s2 else toolStep E i tools resp s2)))"

definition iteration :: "turn_env \<Rightarrow> int \<Rightarrow> 'plan loop_state \<Rightarrow> 'plan flow" where
  "iteration E i s =
     (case teCtxErr E i of
        Some e \<Rightarrow> Return (Some (ContextError e)) s
      | None \<Rightarrow>
          (case runtimeInputBoundary E True False s of
             (Inl e, s1) \<Rightarrow> Return (Some (InputsError e)) s1
           | (Inr _, s1) \<Rightarrow>
               (case maybeCompact E i s1 of
                  (Some e, s2) \<Rightarrow> Return (Some (CompactionError e)) s2
                | (None, s2) \<Rightarrow>
                    (let tools = activeTools E (planOf s2);
                         (a, s3) = callModel E i (toolDefinitions tools) (nudgedMessages s2) (s2\<lparr>lsHarness := [], lsHypothesis := []\<rparr>)
                     in answerStep E i tools a (bookCall E a s3)))))"

fun driveLoop :: "turn_env \<Rightarrow> nat \<Rightarrow> int \<Rightarrow> 'plan loop_state \<Rightarrow> 'plan flow" where
  "driveLoop E 0 i s = Next s"
| "driveLoop E (Suc k) i s = (case iteration E i s of Next s' \<Rightarrow> driveLoop E k (i + 1) s' | Return e s' \<Rightarrow> Return e s')"

subsection \<open>The step limit\<close>

definition stepLimitMessage :: string where
  "stepLimitMessage = ''Agent stopped: reached the step limit before finishing.''"

definition stepLimitNudge :: string where
  "stepLimitNudge = ''You'' @ [CHR 0x27] @ ''ve reached the step limit and cannot call more tools. Give your best final answer now, based on everything gathered so far.''"

definition finalAnswerAfterLimit :: "turn_env \<Rightarrow> 'plan loop_state \<Rightarrow> (string \<times> Usage) \<times> 'plan loop_state" where
  "finalAnswerAfterLimit E s =
     (if teCtxErr E (lsMaxSteps s) \<noteq> None then ((stepLimitMessage, noUsage), s)
      else
        (let (a, s1) = callModel E (lsMaxSteps s) [] (appendEphemeralUser (sMessages (sessionOf s)) stepLimitNudge) s;
             resp = maResponse a; u = AccountingUsage resp;
             s2 = emit ((if rReasoningContent resp \<noteq> [] \<and> \<not> isCanceled (maErr a) then [Thinking (rReasoningContent resp)] else []) @
                        [ModelFinished (modelCallSucceeded E a) u]) (onSession (recordModelCall E resp) s1)
         in if maErr a \<noteq> None \<or> rContent resp = [] \<or> LooksLikeToolCallLeak (rContent resp) then ((stepLimitMessage, u), s2)
            else ((rContent resp, u),
                  onSession (\<lambda>x. x\<lparr>sPromptTokens := uPromptTokens (rUsage resp)\<rparr>)
                    (appendMessage (teNow E (lsMaxSteps s)) (newMessage RoleAssistant (rContent resp)) s2))))"

definition independentTaskAvailable :: "turn_env \<Rightarrow> PlanStatus \<Rightarrow> bool" where
  "independentTaskAvailable E plan =
     (getTool (case tePlanTools E of Some r \<Rightarrow> if plan = PlanStatusPlanning then r else teTools E | None \<Rightarrow> teTools E) ''task'' \<noteq> None)"

definition unreviewed :: "turn_env \<Rightarrow> 'plan loop_state \<Rightarrow> bool" where
  "unreviewed E s =
     (let g = bsGates (lsBatch s) in
      independentTaskAvailable E (planOf s) \<and> gtPlannedMutation g \<and> \<not> gtReviewPassed g \<and> (gtMutatedCode g \<or> \<not> teReflector E) \<and>
      gtReviewCount g < 1)"

definition finishLimit :: "string \<Rightarrow> 'plan loop_state \<Rightarrow> 'plan loop_state" where
  "finishLimit text s =
     (let s1 = onTurn (\<lambda>t. t\<lparr>tuFinal := text, tuHitStepLimit := True\<rparr>) s in emit [TurnFinished (turnOf s1)] s1)"

definition afterLimit :: "turn_env \<Rightarrow> 'plan loop_state \<Rightarrow> turn_error option \<times> 'plan loop_state" where
  "afterLimit E s =
     (case runtimeInputBoundary E True False s of
        (Inl e, s1) \<Rightarrow> (Some (InputsError e), s1)
      | (Inr _, s1) \<Rightarrow>
          (case runtimeInputBoundary E False True s1 of
             (Inl e, s2) \<Rightarrow> (Some (InputsError e), s2)
           | (Inr _, s2) \<Rightarrow>
               if planOf s2 = PlanStatusPlanning
               then (None, finishLimit ''Planning paused at the step limit before a review-ready plan was proposed. Continue discovery, then call propose_plan.'' s2)
               else if unreviewed E s2
               then (None, finishLimit ''Step limit reached with unreviewed code changes. Continue with a change_review task before finalizing.'' s2)
               else
                 (let ((final, u), s3) = finalAnswerAfterLimit E s2
                  in (None, finishLimit final (onTurn (chargeCall u) s3)))))"

subsection \<open>Turns\<close>

definition freshTurn :: "string \<Rightarrow> TurnResult" where
  "freshTurn tid = \<lparr>tuTurnID = tid, tuDeduplicated = False, tuWaitingBackground = False, tuFinal = [], tuSteps = [], tuPromptTokens = 0,
     tuTokensUsed = 0, tuModelBillingUnits = 0, tuToolBillingUnits = 0, tuTotalBillingUnits = 0, tuExecutedToolCalls = 0,
     tuSucceededToolCalls = 0, tuBillableToolCalls = 0, tuDiffStat = None, tuBilled = [], tuHitStepLimit = False\<rparr>"

text \<open>What \<open>drive\<close> starts from: a turn of its own, or the checkpoint of one that was parked.  The other gates keep what the
  turn before left.\<close>

definition startDrive :: "string \<Rightarrow> 'plan loop_state \<Rightarrow> 'plan loop_state" where
  "startDrive tid s =
     (onBatch (\<lambda>b. b\<lparr>bsTurn := freshTurn tid, bsGates := (bsGates b)\<lparr>gtReviewCount := 0\<rparr>, bsTodos := [], bsWebSearches := 0, bsAssets := []\<rparr>) s)
       \<lparr>lsHypothesized := False, lsHarness := [], lsHypothesis := [], lsParked := None\<rparr>"

definition restore :: "continuation_state \<Rightarrow> 'plan loop_state \<Rightarrow> 'plan loop_state" where
  "restore c s =
     (onBatch (\<lambda>b. b\<lparr>bsTurn := (csTurn c)\<lparr>tuBilled := csBilledCallIDs c\<rparr>, bsGates := csGates c, bsTodos := csTodos c,
                     bsWebSearches := csWebSearches c, bsAssets := csAssets c, bsApproval := (bsApproval b)\<lparr>PlanState := csPlanState c\<rparr>\<rparr>) s)
       \<lparr>lsMaxSteps := csMaxSteps c, lsMaxWebSearches := csMaxWebSearches c, lsHypothesized := csHypothesized c,
        lsHarness := csPendingHarness c, lsHypothesis := csPendingHypothesis c, lsLastText := csLastAssistantText c, lsParked := None\<rparr>"

definition driveFrom :: "turn_env \<Rightarrow> int \<Rightarrow> 'plan loop_state \<Rightarrow> turn_error option \<times> 'plan loop_state" where
  "driveFrom E i s =
     (case driveLoop E (nat (lsMaxSteps s - i)) i s of
        Return e s' \<Rightarrow> (e, s')
      | Next s' \<Rightarrow> afterLimit E s')"

definition defaultMaxSteps :: int where "defaultMaxSteps = 24"

definition nextSessionTurnID :: "Session \<Rightarrow> string \<times> Session" where
  "nextSessionTurnID x = (let n = metaInt64 (sMetadata x) ''turn_seq'' + 1 in (''turn_'' @ intString n, setMeta ''turn_seq'' (MetaNumber n) x))"

definition beginTurn :: "turn_env \<Rightarrow> 'plan loop_state \<Rightarrow> turn_env \<times> 'plan loop_state" where
  "beginTurn E s =
     (let s1 = (if lsMaxSteps s \<le> 0 then s\<lparr>lsMaxSteps := defaultMaxSteps\<rparr> else s);
          (tid, x) = (if teReservedTurnID E = [] then nextSessionTurnID (sessionOf s1) else (teReservedTurnID E, sessionOf s1))
      in (E\<lparr>teBatch := (teBatch E)\<lparr>eTurnID := tid\<rparr>\<rparr>, onSession (\<lambda>_. x) s1))"

text \<open>The repairs that precede a turn whose history comes from an older runtime.\<close>

definition repairHistory :: "turn_env \<Rightarrow> 'plan loop_state \<Rightarrow> 'plan loop_state" where
  "repairHistory E s =
     (let (repair, x) = TruncateInvalidToolCallTail (eParse (teBatch E)) (sessionOf s)
      in emit (case repair of None \<Rightarrow> [] | Some r \<Rightarrow> [SessionRepaired r]) (onSession (\<lambda>_. snd (RemoveEmptyAssistantNoOps x)) s))"

definition drive :: "turn_env \<Rightarrow> 'plan loop_state \<Rightarrow> turn_error option \<times> 'plan loop_state" where
  "drive E s = driveFrom E 0 (startDrive (eTurnID (teBatch E)) s)"

definition RunTurnWithAllAssets ::
  "turn_env \<Rightarrow> string \<Rightarrow> GatewayAssetRef list \<Rightarrow> LocalAssetRef list \<Rightarrow> 'plan loop_state \<Rightarrow> turn_error option \<times> 'plan loop_state" where
  "RunTurnWithAllAssets E userInput gatewayAssets localAssets s =
     (if gatewayAssets \<noteq> [] \<and> \<not> teUserAssetsSupported E then (Some ImageInputUnsupported, s)
      else if gatewayAssets \<noteq> [] \<and> teRequestID E = [] then (Some RequestIDRequired, s)
      else if \<not> teProvider E then (Some MissingProvider, s)
      else
        (let (E1, s1) = beginTurn E s;
             user = (newMessage RoleUser userInput)\<lparr>mAssets := gatewayAssets, mLocalAssets := localAssets\<rparr>
         in drive E1 (emit [TurnStarted userInput] (appendMessage (teNow E 0) user (repairHistory E1 s1)))))"

definition RunPreparedTurn :: "turn_env \<Rightarrow> 'plan loop_state \<Rightarrow> turn_error option \<times> 'plan loop_state" where
  "RunPreparedTurn E s =
     (let ms = sMessages (sessionOf s); user = last ms in
      if \<not> teProvider E then (Some MissingProvider, s)
      else if ms = [] \<or> mRole user \<noteq> RoleUser then (Some MissingUserMessage, s)
      else
        (let (E1, s1) = beginTurn E s in
         if mAssets user \<noteq> [] \<and> \<not> teUserAssetsSupported E then (Some ImageInputUnsupported, s1)
         else if mAssets user \<noteq> [] \<and> teRequestID E = [] then (Some RequestIDRequired, s1)
         else drive E1 (emit [TurnStarted (mContent user)] s1)))"

definition ResumeTurn :: "turn_env \<Rightarrow> 'plan loop_state \<Rightarrow> turn_error option \<times> 'plan loop_state" where
  "ResumeTurn E s =
     (if \<not> teProvider E then (Some MissingProvider, s)
      else
        (let (E1, s1) = beginTurn E s
         in drive E1 (emit [TurnResumed] (onSession (\<lambda>x. x\<lparr>sUpdatedAt := teNow E 0\<rparr>) (repairHistory E1 s1)))))"

text \<open>Decoding the checkpoint is the identity here.\<close>

definition ContinueBackground :: "turn_env \<Rightarrow> continuation_state \<Rightarrow> 'plan loop_state \<Rightarrow> turn_error option \<times> 'plan loop_state" where
  "ContinueBackground E c s =
     (if \<not> CanContinueBackground E \<or> \<not> teProvider E \<or> teReservedTurnID E = [] then (Some ContinuationUnavailable, s)
      else if csVersion c \<noteq> 1 \<or> tuTurnID (csTurn c) \<noteq> teReservedTurnID E \<or> csNextStep c < 1 \<or> csNextStep c \<ge> csMaxSteps c \<or>
              csMaxSteps c > 100000 \<or> csWebSearches c < 0
      then (Some InvalidContinuation, s)
      else
        (let E1 = E\<lparr>teBatch := (teBatch E)\<lparr>eTurnID := teReservedTurnID E\<rparr>\<rparr>
         in driveFrom E1 (csNextStep c) (restore c (startDrive (teReservedTurnID E) s))))"

subsection \<open>Vocabulary\<close>

text \<open>No extension rewrites requests.\<close>

definition plainRequests :: "turn_env \<Rightarrow> bool" where
  "plainRequests E \<longleftrightarrow> teContextHook E = None \<and> (\<forall>i. rvTransform (teRequest E i) = None)"

definition sentOK :: "Message list \<times> string list \<Rightarrow> bool" where
  "sentOK rq \<longleftrightarrow> validHistory (fst rq) \<and> fst rq \<noteq> [] \<and> mRole (hd (fst rq)) = RoleSystem"

definition turnInv :: "turn_env \<Rightarrow> 'plan loop_state \<Rightarrow> bool" where
  "turnInv E s \<longleftrightarrow> wfSession (sessionOf s) \<and> turnOK (turnOf s) \<and> (plainRequests E \<longrightarrow> list_all sentOK (lsRequests s))"

text \<open>What every part of the loop does: it keeps the invariant and the limit, and makes at most so many model calls.\<close>

definition advances :: "turn_env \<Rightarrow> nat \<Rightarrow> 'plan loop_state \<Rightarrow> 'plan loop_state \<Rightarrow> bool" where
  "advances E n s s' \<longleftrightarrow> (turnInv E s \<longrightarrow> turnInv E s') \<and> length (lsRequests s') \<le> length (lsRequests s) + n \<and> lsMaxSteps s' = lsMaxSteps s"

fun flowState :: "'plan flow \<Rightarrow> 'plan loop_state" where
  "flowState (Next s) = s"
| "flowState (Return e s) = s"

text \<open>How a turn ends: finished, after a boundary that delivered nothing and sealed it, or parked.\<close>

definition quiet :: "turn_env \<Rightarrow> 'plan loop_state \<Rightarrow> bool" where
  "quiet E s \<longleftrightarrow> teInputs E = None \<or>
     (\<exists>IE n fault now db b x db'. teInputs E = Some IE \<and> lsBoundaries s = n + 1 \<and> teDatabase E n = (fault, now, db) \<and>
        CheckpointRuntimeInputs IE fault now b x db = (Inr ([], sessionOf s), db') \<and> sID x = sID (sessionOf s) \<and>
        filter (waiting (sID x)) (dbInputs db') = [] \<and> dbBoundaries db' (sID x, eTurnID (teBatch E)) = Some True)"

definition finished :: "turn_env \<Rightarrow> 'plan loop_state \<Rightarrow> bool" where
  "finished E s \<longleftrightarrow> planOf s \<noteq> PlanStatusPlanning \<and> TrimSpace (tuFinal (turnOf s)) \<noteq> [] \<and>
     (\<exists>ms m. sMessages (sessionOf s) = ms @ [m] \<and> mRole m = RoleAssistant \<and> mToolCalls m = [] \<and> mContent m = tuFinal (turnOf s)) \<and>
     quiet E s"

definition parkedAt :: "int \<Rightarrow> 'plan loop_state \<Rightarrow> bool" where
  "parkedAt i s \<longleftrightarrow> tuWaitingBackground (turnOf s) \<and> i + 1 < lsMaxSteps s \<and>
     lsParked s = Some (captureContinuation (i + 1) s)"

text \<open>All the ways to run a turn, and the budget each begins with.\<close>

datatype entry =
    EnterText string "GatewayAssetRef list" "LocalAssetRef list"
  | EnterPrepared
  | EnterResume
  | EnterContinue continuation_state

definition runEntry :: "turn_env \<Rightarrow> entry \<Rightarrow> 'plan loop_state \<Rightarrow> turn_error option \<times> 'plan loop_state" where
  "runEntry E e s =
     (case e of
        EnterText t ga la \<Rightarrow> RunTurnWithAllAssets E t ga la s
      | EnterPrepared \<Rightarrow> RunPreparedTurn E s
      | EnterResume \<Rightarrow> ResumeTurn E s
      | EnterContinue c \<Rightarrow> ContinueBackground E c s)"

definition entryOK :: "entry \<Rightarrow> bool" where
  "entryOK e = (case e of EnterContinue c \<Rightarrow> turnOK ((csTurn c)\<lparr>tuBilled := csBilledCallIDs c\<rparr>) | _ \<Rightarrow> True)"

definition stepsOf :: "entry \<Rightarrow> int \<Rightarrow> nat" where
  "stepsOf e maxSteps =
     (case e of EnterContinue c \<Rightarrow> nat (csMaxSteps c - csNextStep c) | _ \<Rightarrow> if maxSteps \<le> 0 then 24 else nat maxSteps)"

text \<open>What a step changes besides the history; the tools that ran are among those offered.\<close>

definition sameGrounds :: "'plan loop_state \<Rightarrow> 'plan loop_state \<Rightarrow> bool" where
  "sameGrounds s s' \<longleftrightarrow> bsApproval (lsBatch s') = bsApproval (lsBatch s) \<and> bsEffects (lsBatch s') = bsEffects (lsBatch s)"

definition ranWithin :: "string set \<Rightarrow> 'plan loop_state \<Rightarrow> 'plan loop_state \<Rightarrow> bool" where
  "ranWithin T s s' \<longleftrightarrow> (\<exists>effs. bsEffects (lsBatch s') = bsEffects (lsBatch s) @ effs \<and> (\<forall>j n w. Ran j n w \<in> set effs \<longrightarrow> n \<in> T))"

text \<open>An instance: a model that asks for the tool \<open>read\<close> and then answers.\<close>

definition demoTurnEnv :: turn_env where
  "demoTurnEnv = \<lparr>teBatch = demoBatchEnv, teTools = [(demoTool ''read'' False, False)], tePlanTools = None, teProvider = True,
     teCtxErr = (\<lambda>_. None), teParkCtxErr = (\<lambda>_. None),
     teAnswer = (\<lambda>i _ _. \<lparr>maResponse = (if i = 0 then noResponse\<lparr>rToolCalls := [demoToolCall ''a'' ''read'']\<rparr> else goodAnswer), maErr = None,
        maStreamedText = [], maStreamedReasoning = []\<rparr>),
     teRequest = (\<lambda>_. demoRequestEnv), teContextHook = None, teInputs = Some demoInputEnv, teDatabase = (\<lambda>n. (None, 5, demoInputDB)),
     teCompactor = None, teContextEditor = None, teCompactKeepTokens = 0, teInterpolate = (\<lambda>_ _ t. t div 10), teStopPolicy = None,
     tePark = Some (\<lambda>_. None), teRemindHypothesis = False, teReflector = False, teAfterBatch = (\<lambda>_ r. r), teSelection = (\<lambda>_. JNull),
     teNow = id, teReservedTurnID = ''t'', teRequestID = ''r'', teUserAssetsSupported = False\<rparr>"

definition demoLoopState :: "unit loop_state" where
  "demoLoopState = \<lparr>lsBatch = demoBatchState\<lparr>bsSession := demoSession, bsApproval := demoRunner\<lparr>PlanState := PlanStatusNone\<rparr>\<rparr>, lsMaxSteps = 3, lsMaxWebSearches = 0, lsLastText = [], lsHypothesized = False,
     lsHarness = [], lsHypothesis = [], lsSamples = [], lsOverride = [], lsBoundaries = 0, lsCallSeq = 0, lsRequests = [], lsLog = [],
     lsParked = None\<rparr>"

definition demoRun :: "turn_env \<Rightarrow> unit loop_state" where
  "demoRun E = snd (runEntry E (EnterText ''hi'' [] []) demoLoopState)"

text \<open>A model that still only asks for tools when the limit is reached, and then answers with blanks.\<close>

definition demoBlankEnv :: turn_env where
  "demoBlankEnv = demoTurnEnv\<lparr>teAnswer := (\<lambda>i _ _. \<lparr>maResponse = (if i < 3 then noResponse\<lparr>rToolCalls := [demoToolCall ''a'' ''read'']\<rparr>
     else noResponse\<lparr>rContent := '' ''\<rparr>), maErr = None, maStreamedText = [], maStreamedReasoning = []\<rparr>)\<rparr>"

subsection \<open>Facts\<close>

lemma loop_simps [simp]:
  "sessionOf (onSession f s) = f (sessionOf s)" "turnOf (onSession f s) = turnOf s" "lsRequests (onSession f s) = lsRequests s"
  "lsMaxSteps (onSession f s) = lsMaxSteps s" "sessionOf (onTurn g s) = sessionOf s" "turnOf (onTurn g s) = g (turnOf s)"
  "lsRequests (onTurn g s) = lsRequests s" "lsMaxSteps (onTurn g s) = lsMaxSteps s" "lsBatch (emit es s) = lsBatch s"
  "lsRequests (emit es s) = lsRequests s" "lsMaxSteps (emit es s) = lsMaxSteps s"
  by (simp_all add: onSession_def onTurn_def onBatch_def emit_def)

lemma advances_refl: "advances E 0 s s"
  by (simp add: advances_def)

lemma advances_trans: "advances E m a b \<Longrightarrow> advances E n b c \<Longrightarrow> advances E (m + n) a c"
  by (auto simp: advances_def)

lemma advances_trans0: "advances E 0 a b \<Longrightarrow> advances E n b c \<Longrightarrow> advances E n a c"
  using advances_trans [of E 0 a b n c] by simp

lemma advances_more: "advances E m a b \<Longrightarrow> m \<le> n \<Longrightarrow> advances E n a b"
  by (auto simp: advances_def)

text \<open>A change that touches neither the history nor the books.\<close>

lemma wf_cong: "sMessages x' = sMessages x \<Longrightarrow> sSummary x' = sSummary x \<Longrightarrow> wfSession x' = wfSession x"
  by (simp add: wfSession_def)

lemma advances_session:
  assumes "wfSession (sessionOf s) \<Longrightarrow> wfSession (sessionOf s')" "turnOK (turnOf s) \<Longrightarrow> turnOK (turnOf s')" "lsRequests s' = lsRequests s"
    "lsMaxSteps s' = lsMaxSteps s"
  shows "advances E 0 s s'"
  using assms by (auto simp: advances_def turnInv_def)

lemma turnOK_fields: "turnOK (t\<lparr>tuFinal := x, tuHitStepLimit := h\<rparr>) = turnOK t" "turnOK (t\<lparr>tuFinal := x\<rparr>) = turnOK t"
  "turnOK (t\<lparr>tuPromptTokens := n\<rparr>) = turnOK t" "turnOK (t\<lparr>tuWaitingBackground := w\<rparr>) = turnOK t" "turnOK (chargeCall u t) = turnOK t"
  by (simp_all add: turnOK_def chargeCall_def)

lemma advances_quiet: "sMessages (sessionOf s') = sMessages (sessionOf s) \<Longrightarrow> sSummary (sessionOf s') = sSummary (sessionOf s) \<Longrightarrow>
  turnOK (turnOf s') = turnOK (turnOf s) \<Longrightarrow> lsRequests s' = lsRequests s \<Longrightarrow> lsMaxSteps s' = lsMaxSteps s \<Longrightarrow> advances E 0 s s'"
  by (rule advances_session) (simp_all add: wf_cong [of "sessionOf s'" "sessionOf s"])

lemma wf_snoc:
  assumes "wfSession x" "\<not> isTool m" "mRole m \<noteq> RoleAssistant \<or> mToolCalls m = []"
  shows "wfSession (x\<lparr>sMessages := sMessages x @ [m], sUpdatedAt := t\<rparr>)"
  using assms validHistory_snoc [of "sMessages x" m]
  by (cases "sMessages x") (auto simp: wfSession_def)

lemma appendMessage_advances: "\<not> isTool m \<Longrightarrow> mRole m \<noteq> RoleAssistant \<or> mToolCalls m = [] \<Longrightarrow> advances E 0 s (appendMessage now m s)"
  by (rule advances_session) (simp_all add: appendMessage_def wf_snoc)

lemma boundary_advances: "runtimeInputBoundary E d f s = (r, s') \<Longrightarrow> advances E 0 s s'"
proof (cases "teInputs E")
  case None
  moreover assume "runtimeInputBoundary E d f s = (r, s')"
  ultimately show ?thesis by (simp add: runtimeInputBoundary_def advances_refl)
next
  case (Some IE)
  assume b: "runtimeInputBoundary E d f s = (r, s')"
  obtain fault now db where db: "teDatabase E (lsBoundaries s) = (fault, now, db)" using prod_cases3 by blast
  let ?b = "\<lparr>rbTurnID = eTurnID (teBatch E), rbReceipts = runtimeInputReceipts (sessionOf s), rbDeliver = d, rbFinalize = f\<rparr>"
  obtain res db' where c: "CheckpointRuntimeInputs IE fault now ?b (sessionOf s) db = (res, db')" by fastforce
  show ?thesis
  proof (cases res)
    case (Inl e)
    then show ?thesis using b by (intro advances_quiet) (auto simp: runtimeInputBoundary_def Some db c Let_def)
  next
    case (Inr y)
    then obtain ids x where y: "res = Inr (ids, x)" by (cases y) simp
    then have "wfSession (sessionOf s) \<Longrightarrow> wfSession x" using Checkpoint_wf c by blast
    then show ?thesis using b y by (intro advances_session) (auto simp: runtimeInputBoundary_def Some db c Let_def)
  qed
qed

lemma pruneFirst_wf: "pruneFirst E before x = (enough, x', es) \<Longrightarrow> wfSession x \<Longrightarrow> wfSession x'"
  using Prune_wf [of x "teCompactKeepTokens E"] by (auto simp: pruneFirst_def Let_def split: if_splits prod.splits)

lemma maybeCompact_advances: "maybeCompact E i s = (r, s') \<Longrightarrow> advances E 0 s s'"
proof -
  assume m: "maybeCompact E i s = (r, s')"
  obtain cleared x1 where x1: "(case teContextEditor E of None \<Rightarrow> (0, sessionOf s) | Some keep \<Rightarrow> EditContext keep (sessionOf s)) = (cleared, x1)" by fastforce
  obtain enough x2 pruned where x2: "pruneFirst E (sPromptTokens (sessionOf s)) x1 = (enough, x2, pruned)" using prod_cases3 by blast
  have w1: "wfSession (sessionOf s) \<Longrightarrow> wfSession x1" using x1 EditContext_wf [of "sessionOf s"] by (auto split: option.splits) (metis snd_conv)
  have w2: "wfSession (sessionOf s) \<Longrightarrow> wfSession x2" using w1 pruneFirst_wf [OF x2] by blast
  have w3: "wfSession (sessionOf s) \<Longrightarrow> wfSession (snd (Compact c x2))" for c using w2 Compact_wf by blast
  have w4: "wfSession (sessionOf s) \<Longrightarrow> wfSession (RecordCompaction n b k (snd (Compact c x2)))" for c n b k
    using w3 [of c] by (simp add: RecordCompaction_def wfSession_def)
  show ?thesis
  proof (cases "teCompactor E")
    case (Some c)
    obtain e x3 where c: "Compact c x2 = (e, x3)" by fastforce
    show ?thesis using m w2 w3 [of c] w4 [of _ _ _ c]
      by (cases e; intro advances_session)
         (auto simp: maybeCompact_def Some Let_def x1 x2 c RecordCompaction_def split: if_splits)
  qed (use m in \<open>simp add: maybeCompact_def advances_refl\<close>)
qed

lemma request_hd:
  assumes "rvTransform E = None" "hook = None" "ms \<noteq> []" "mRole (hd ms) = RoleSystem"
  shows "requestMessages E hook override ms \<noteq> [] \<and> mRole (hd (requestMessages E hook override ms)) = RoleSystem"
proof -
  have "fst (shape (hd (requestMessages E hook override ms))) = RoleSystem \<and> requestMessages E hook override ms \<noteq> []"
    using request_shape [OF assms(1,2), of override ms]
  proof
    assume m: "map shape (requestMessages E hook override ms) = map shape ms"
    then have "requestMessages E hook override ms \<noteq> []" using assms(3) by auto
    then show ?thesis using arg_cong [OF m, of hd] assms(3,4) by (simp add: hd_map shape_def)
  next
    assume "\<exists>m. ms = m # tl ms \<and> mRole m = RoleSystem \<and>
      map shape (requestMessages E hook override ms) = shape (newMessage RoleSystem override) # map shape (tl ms)"
    then show ?thesis by (auto simp: map_eq_Cons_conv shape_def newMessage_def)
  qed
  then show ?thesis by (simp add: shape_def)
qed

lemma callModel_advances:
  assumes "callModel E i tools msgs s = (a, s')"
    "turnInv E s \<Longrightarrow> validHistory msgs \<and> msgs \<noteq> [] \<and> mRole (hd msgs) = RoleSystem"
  shows "advances E 1 s s'"
proof -
  let ?R = "(teRequest E i)\<lparr>rvRoot := WorkspaceRoot (bsApproval (lsBatch s))\<rparr>"
  let ?shown = "withLocalAssetManifests ?R msgs"
  let ?sent = "requestMessages ?R (teContextHook E) (lsOverride s) ?shown"
  have f: "lsBatch s' = lsBatch s" "lsMaxSteps s' = lsMaxSteps s" "lsRequests s' = lsRequests s @ [(?sent, tools)]"
    using assms(1) by (auto simp: callModel_def Let_def)
  have "sentOK (?sent, tools)" if t: "turnInv E s" and p: "plainRequests E"
  proof -
    note m = manifests_shape [of ?R msgs]
    have v: "validHistory ?shown" using assms(2) [OF t] validHistory_shape [OF m] by simp
    have n: "?shown \<noteq> []" using assms(2) [OF t] m by auto
    have "mRole (hd ?shown) = RoleSystem" using arg_cong [OF m, of hd] n assms(2) [OF t] by (simp add: hd_map shape_def)
    then show ?thesis using request_valid [OF _ _ v] request_hd [OF _ _ n] p by (simp add: sentOK_def plainRequests_def)
  qed
  then show ?thesis using f by (auto simp: advances_def turnInv_def)
qed

lemma validHistory_user: "validHistory ms \<Longrightarrow> ms \<noteq> [] \<Longrightarrow> mRole (hd ms) = RoleSystem \<Longrightarrow>
  validHistory (appendEphemeralUser ms t) \<and> appendEphemeralUser ms t \<noteq> [] \<and> mRole (hd (appendEphemeralUser ms t)) = RoleSystem"
  using validHistory_snoc [of ms "newMessage RoleUser t"] by (simp add: appendEphemeralUser_def newMessage_def isTool_def)

lemma nudged_ok: "turnInv E s \<Longrightarrow> validHistory (nudgedMessages s) \<and> nudgedMessages s \<noteq> [] \<and> mRole (hd (nudgedMessages s)) = RoleSystem"
  using validHistory_user by (simp add: nudgedMessages_def withConvergenceNudge_def Let_def turnInv_def wfSession_def)

lemma bookCall_advances: "advances E 0 s (bookCall E a s)"
  by (rule advances_quiet) (simp_all add: bookCall_def Let_def recordModelCall_def setMeta_def turnOK_fields)

lemma FinalizeCompaction_keeps: "FinalizeCompaction n x = (st, x') \<Longrightarrow> sMessages x' = sMessages x \<and> sSummary x' = sSummary x"
  by (auto simp: FinalizeCompaction_def Let_def split: if_splits)

lemma finishCompaction_advances: "advances E 0 s (finishCompaction u s)"
proof -
  obtain st x where x: "FinalizeCompaction (uPromptTokens u) ((sessionOf s)\<lparr>sPromptTokens := uPromptTokens u\<rparr>) = (st, x)" by fastforce
  show ?thesis by (rule advances_quiet) (use FinalizeCompaction_keeps [OF x] in \<open>simp_all add: finishCompaction_def Let_def x turnOK_fields\<close>)
qed

lemma finishCompaction_keeps [simp]: "sMessages (sessionOf (finishCompaction u s)) = sMessages (sessionOf s)"
  by (simp add: finishCompaction_def Let_def FinalizeCompaction_def)

text \<open>The steps of one iteration.\<close>

lemma batchStep_facts:
  assumes "batchStep E i tools calls s = (err, s')"
  obtains B st' where "executeToolBatch B calls ((lsBatch s)\<lparr>bsWaitFor := [], bsEvents := []\<rparr>) = (err, st')" "sessionOf s' = bsSession st'"
    "turnOf s' = bsTurn st'" "lsRequests s' = lsRequests s" "lsMaxSteps s' = lsMaxSteps s"
proof -
  let ?B = "(teBatch E)\<lparr>eTools := getTool tools, eAdvertised := (\<lambda>n. n \<in> set (toolDefinitions tools)),
       eMaxWebSearches := lsMaxWebSearches s, eRuntimeInputs := (teInputs E \<noteq> None)\<rparr>"
  obtain err' b where b: "executeToolBatch ?B calls ((lsBatch s)\<lparr>bsWaitFor := [], bsEvents := []\<rparr>) = (err', b)" by fastforce
  obtain plan g t where g: "teAfterBatch E i (PlanState (bsApproval b), bsGates b, lsLastText s) = (plan, g, t)" using prod_cases3 by blast
  show ?thesis using assms by (intro that [of ?B b]) (auto simp: batchStep_def Let_def b g emit_def simp del: not_None_eq)
qed

lemma batchStep_advances:
  assumes "batchStep E i tools calls (emit es (appendMessage now a s)) = (err, s')" "mRole a = RoleAssistant" "mToolCalls a = calls"
  shows "advances E 0 s s'"
proof -
  let ?s = "emit es (appendMessage now a s)"
  obtain B st' where b: "executeToolBatch B calls ((lsBatch ?s)\<lparr>bsWaitFor := [], bsEvents := []\<rparr>) = (err, st')" "sessionOf s' = bsSession st'"
    "turnOf s' = bsTurn st'" "lsRequests s' = lsRequests ?s" "lsMaxSteps s' = lsMaxSteps ?s" by (rule batchStep_facts [OF assms(1)])
  let ?st = "(lsBatch ?s)\<lparr>bsWaitFor := [], bsEvents := []\<rparr>"
  have m: "messagesOf ?st = sMessages (sessionOf s) @ [a]" "sSummary (bsSession ?st) = sSummary (sessionOf s)" "bsTurn ?st = turnOf s"
    by (simp_all add: appendMessage_def)
  have "wfSession (sessionOf s')" if w: "wfSession (sessionOf s)"
  proof -
    obtain rs where h: "validHistory (messagesOf st')" "messagesOf st' = (sMessages (sessionOf s) @ [a]) @ rs"
      using batch_history [OF b(1) m(1) _ assms(2,3)] w m(1) by (auto simp: wfSession_def)
    show ?thesis using w h b(2) batch_summary [OF b(1)] m(2)
      by (cases "sMessages (sessionOf s)") (auto simp: wfSession_def)
  qed
  moreover have "turnOK (turnOf s')" if "turnOK (turnOf s)" using batch_turn [OF _ b(1)] that m(3) b(3) by simp
  ultimately show ?thesis by (rule advances_session) (simp_all add: b appendMessage_def)
qed

lemma advances_bookkeeping:
  "advances E 0 s (emit es s)" "advances E 0 s (s\<lparr>lsHarness := h\<rparr>)" "advances E 0 s (s\<lparr>lsHypothesized := b, lsHypothesis := h\<rparr>)"
  "advances E 0 s (s\<lparr>lsHarness := h, lsHypothesis := h'\<rparr>)" "advances E 0 s (s\<lparr>lsCallSeq := n\<rparr>)" "advances E 0 s (s\<lparr>lsParked := p\<rparr>)"
  "advances E 0 s (onTurn (\<lambda>t. t\<lparr>tuFinal := x\<rparr>) s)" "advances E 0 s (onTurn (\<lambda>t. t\<lparr>tuWaitingBackground := w\<rparr>) s)"
  "advances E 0 s (onTurn (chargeCall u) s)" "advances E 0 s (onTurn (\<lambda>t. t\<lparr>tuFinal := x, tuHitStepLimit := l\<rparr>) s)"
  by (rule advances_quiet; simp add: turnOK_fields)+

lemma finishStep_advances:
  assumes "rToolCalls resp = []"
  shows "advances E 0 s (flowState (finishStep E i resp s))"
proof -
  let ?s1 = "appendMessage (teNow E i) (AssistantMessage resp) s"
  have 1: "advances E 0 s ?s1" by (rule appendMessage_advances) (simp_all add: AssistantMessage_def newMessage_def isTool_def assms)
  obtain r s2 where b: "runtimeInputBoundary E True True ?s1 = (r, s2)" by fastforce
  note 2 = advances_trans0 [OF 1 boundary_advances [OF b]]
  note e = advances_trans0 [OF advances_bookkeeping(2) advances_bookkeeping(1)]
  have 3: "advances E 0 s (emit es (onTurn (\<lambda>t. t\<lparr>tuFinal := x\<rparr>) s2))" for es x
    by (rule advances_trans0 [OF 2 advances_trans0 [OF advances_bookkeeping(7) advances_bookkeeping(1)]])
  show ?thesis using 2 3 advances_trans0 [OF 2 advances_bookkeeping(1)]
    by (cases r) (simp_all add: finishStep_def Let_def b advances_refl e)
qed

lemma parkStep_advances: "advances E 0 s (flowState (parkStep E i s))"
  by (simp add: parkStep_def Let_def advances_refl advances_trans0 [OF advances_bookkeeping(6) advances_bookkeeping(8)] split: option.split)

lemma toolStep_advances: "advances E 0 s (flowState (toolStep E i tools resp s))"
proof -
  let ?es = "if rContent resp \<noteq> [] then [AssistantText (rContent resp)] else []"
  let ?s2 = "emit ?es (appendMessage (teNow E i) (AssistantMessage resp) s)"
  obtain c s3 where b: "batchStep E i tools (rToolCalls resp) ?s2 = (c, s3)" by fastforce
  have 3: "advances E 0 s s3" by (rule batchStep_advances [OF b]) (simp_all add: AssistantMessage_def newMessage_def)
  obtain p s4 where p: "(if teInputs E \<noteq> None \<and> runtimeInputReceipts (sessionOf s3) \<noteq> [] then runtimeInputBoundary E False False s3 else (Inr 0, s3)) = (p, s4)"
    by fastforce
  have "advances E 0 s3 s4" using p boundary_advances [of E False False s3 p s4] by (auto simp: advances_refl split: if_splits)
  note 4 = advances_trans0 [OF 3 this]
  note h = advances_trans0 [OF advances_bookkeeping(3) advances_bookkeeping(1)]
  show ?thesis using 4 advances_trans0 [OF 4 parkStep_advances]
    by (cases p; cases c) (simp_all add: toolStep_def Let_def b p h del: not_None_eq)
qed

lemma answerStep_advances: "advances E 0 s (flowState (answerStep E i tools a s))"
proof (cases "maErr a")
  case None
  obtain sq calls where f: "fillCalls (lsCallSeq s) (rToolCalls (maResponse a)) = (sq, calls)" by fastforce
  let ?resp = "(maResponse a)\<lparr>rToolCalls := calls\<rparr>" and ?s1 = "s\<lparr>lsCallSeq := sq\<rparr>"
  have 1: "advances E 0 s (finishCompaction (rUsage ?resp) ?s1)"
    by (rule advances_trans0 [OF advances_bookkeeping(5) finishCompaction_advances])
  note 2 = advances_trans0 [OF 1 finishStep_advances [of ?resp]] advances_trans0 [OF 1 toolStep_advances]
  show ?thesis
    by (cases "calls = []"; use 2 in \<open>simp add: answerStep_def None f Let_def advances_bookkeeping(5) split: option.split\<close>)
qed (simp add: answerStep_def advances_refl)

lemma iteration_advances: "advances E 1 s (flowState (iteration E i s))"
proof -
  obtain r s1 where b: "runtimeInputBoundary E True False s = (r, s1)" by fastforce
  note 1 = boundary_advances [OF b]
  obtain r2 s2 where m: "maybeCompact E i s1 = (r2, s2)" by fastforce
  note 2 = advances_trans0 [OF 1 maybeCompact_advances [OF m]]
  let ?tools = "activeTools E (planOf s2)" and ?s = "s2\<lparr>lsHarness := [], lsHypothesis := []\<rparr>"
  obtain a s3 where c: "callModel E i (toolDefinitions ?tools) (nudgedMessages s2) ?s = (a, s3)" by fastforce
  have "turnInv E ?s \<Longrightarrow> turnInv E s2" by (simp add: turnInv_def)
  then have "advances E 1 ?s s3" by (intro callModel_advances [OF c] nudged_ok)
  from advances_trans0 [OF 2 advances_trans0 [OF advances_bookkeeping(4) this]] have 3: "advances E 1 s s3" .
  have 4: "advances E 1 s (flowState (answerStep E i ?tools a (bookCall E a s3)))"
    using advances_trans [OF 3 advances_trans0 [OF bookCall_advances answerStep_advances]] by simp
  show ?thesis
    using 4 advances_more [OF 1, of 1] advances_more [OF 2, of 1]
    by (cases r; cases r2) (simp_all add: iteration_def b m c Let_def advances_more [OF advances_refl] split: option.split)
qed

lemma driveLoop_advances: "advances E k s (flowState (driveLoop E k i s))"
proof (induction k arbitrary: i s)
  case (Suc k)
  show ?case
  proof (cases "iteration E i s")
    case (Next s')
    then have "advances E 1 s s'" using iteration_advances [of E s i] by simp
    then show ?thesis using advances_trans [OF _ Suc.IH [of s' "i + 1"], of 1 s] Next by simp
  next
    case (Return e s')
    then have "advances E 1 s s'" using iteration_advances [of E s i] by simp
    then show ?thesis using Return advances_more [of E 1 s s' "Suc k"] by simp
  qed
qed (simp add: advances_refl)

lemma finalAnswer_advances: "finalAnswerAfterLimit E s = (r, s') \<Longrightarrow> advances E 1 s s'"
proof -
  assume f: "finalAnswerAfterLimit E s = (r, s')"
  let ?msgs = "appendEphemeralUser (sMessages (sessionOf s)) stepLimitNudge"
  obtain a s1 where c: "callModel E (lsMaxSteps s) [] ?msgs s = (a, s1)" by fastforce
  have 1: "advances E 1 s s1" by (rule callModel_advances [OF c]) (use validHistory_user in \<open>auto simp: turnInv_def wfSession_def\<close>)
  have 2: "advances E 1 s (emit es (onSession (recordModelCall E resp) s1))" for es resp
    using advances_trans [OF 1 advances_quiet [of "emit es (onSession (recordModelCall E resp) s1)" s1 E]]
    by (simp add: recordModelCall_def setMeta_def)
  have 3: "advances E 1 s (onSession (\<lambda>x. x\<lparr>sPromptTokens := n\<rparr>) (appendMessage t (newMessage RoleAssistant c) (emit es (onSession (recordModelCall E resp) s1))))"
    for es resp n t c
    using advances_trans [OF advances_trans [OF 2 [of es resp] appendMessage_advances [of "newMessage RoleAssistant c" E _ t]]
        advances_quiet [of "onSession (\<lambda>x. x\<lparr>sPromptTokens := n\<rparr>) (appendMessage t (newMessage RoleAssistant c) (emit es (onSession (recordModelCall E resp) s1)))"]]
    by (simp add: newMessage_def isTool_def)
  show ?thesis
  proof (cases "teCtxErr E (lsMaxSteps s)")
    case None
    then show ?thesis using f 2 3 by (auto simp: finalAnswerAfterLimit_def c Let_def split: if_splits)
  qed (use f in \<open>auto simp: finalAnswerAfterLimit_def advances_more [OF advances_refl]\<close>)
qed

lemma finishLimit_advances: "advances E 0 s (finishLimit t s)"
  by (simp add: finishLimit_def Let_def advances_trans0 [OF advances_bookkeeping(10) advances_bookkeeping(1)])

lemma afterLimit_advances: "afterLimit E s = (err, s') \<Longrightarrow> advances E 1 s s'"
proof -
  assume l: "afterLimit E s = (err, s')"
  obtain r s1 where b1: "runtimeInputBoundary E True False s = (r, s1)" by fastforce
  note 1 = boundary_advances [OF b1]
  obtain r2 s2 where b2: "runtimeInputBoundary E False True s1 = (r2, s2)" by fastforce
  note 2 = advances_trans0 [OF 1 boundary_advances [OF b2]]
  obtain final u s3 where f: "finalAnswerAfterLimit E s2 = ((final, u), s3)" by (metis prod.collapse)
  have 3: "advances E 1 s (finishLimit final (onTurn (chargeCall u) s3))"
    using advances_trans [OF advances_trans0 [OF 2 finalAnswer_advances [OF f]] advances_trans0 [OF advances_bookkeeping(9) finishLimit_advances]] by simp
  have 4: "advances E 1 s (finishLimit t s2)" for t
    using advances_more [OF advances_trans0 [OF 2 finishLimit_advances], of 1] by simp
  show ?thesis using l 3 4 advances_more [OF 1, of 1] advances_more [OF 2, of 1]
    by (cases r; cases r2) (auto simp: afterLimit_def b1 b2 f split: if_splits)
qed

lemma driveFrom_advances: "driveFrom E i s = (err, s') \<Longrightarrow> advances E (nat (lsMaxSteps s - i) + 1) s s'"
proof -
  assume d: "driveFrom E i s = (err, s')"
  let ?k = "nat (lsMaxSteps s - i)"
  note l = driveLoop_advances [of E ?k s i]
  show ?thesis
  proof (cases "driveLoop E ?k i s")
    case (Next s1)
    then have "afterLimit E s1 = (err, s')" using d by (simp add: driveFrom_def)
    then show ?thesis using advances_trans [OF _ afterLimit_advances, of E ?k s s1 err s'] l Next by simp
  next
    case (Return e s1)
    then show ?thesis using d l advances_more [of E ?k s s1 "?k + 1"] by (simp add: driveFrom_def)
  qed
qed

lemma finalBoundary:
  assumes "runtimeInputBoundary E True True s = (Inr 0, s')"
  shows "quiet E s' \<and> lsBatch s' = (lsBatch s)\<lparr>bsSession := sessionOf s'\<rparr> \<and>
    (sMessages (sessionOf s') = sMessages (sessionOf s) \<or> (\<exists>ids. sMessages (sessionOf s') = map (clearReceipts ids) (sMessages (sessionOf s))))"
proof (cases "teInputs E")
  case None
  then show ?thesis using assms by (auto simp: runtimeInputBoundary_def quiet_def)
next
  case (Some IE)
  obtain fault now db where db: "teDatabase E (lsBoundaries s) = (fault, now, db)" using prod_cases3 by blast
  let ?b = "\<lparr>rbTurnID = eTurnID (teBatch E), rbReceipts = runtimeInputReceipts (sessionOf s), rbDeliver = True, rbFinalize = True\<rparr>"
  obtain res db' where c: "CheckpointRuntimeInputs IE fault now ?b (sessionOf s) db = (res, db')" by fastforce
  obtain x where x: "res = Inr ([], x)" "s' = onSession (\<lambda>_. x) (s\<lparr>lsBoundaries := lsBoundaries s + 1\<rparr>)"
    using assms by (cases res) (auto simp: runtimeInputBoundary_def Some db c Let_def emit_def onSession_def onBatch_def split: if_splits)
  note f = seal_facts [OF c [unfolded x(1)]] and m = checkpoint_messages [OF c [unfolded x(1)]]
  have s: "sessionOf s' = x" "lsBoundaries s' = lsBoundaries s + 1" "lsBatch s' = (lsBatch s)\<lparr>bsSession := x\<rparr>"
    by (simp_all add: x(2) onSession_def onBatch_def)
  have "sID x = sID (sessionOf s)" using m by auto
  then have "quiet E s'" unfolding quiet_def s
    by (intro disjI2 exI [of _ IE] exI [of _ "lsBoundaries s"] exI [of _ fault] exI [of _ now] exI [of _ db] exI [of _ ?b]
          exI [of _ "sessionOf s"] exI [of _ db']) (use Some db c x(1) f in simp)
  then show ?thesis using m s by auto
qed

lemma finishStep_done:
  assumes "finishStep E i resp s = Return None s'" "rToolCalls resp = []" "TrimSpace (rContent resp) \<noteq> []"
  shows "finished E s'"
proof -
  let ?s1 = "appendMessage (teNow E i) (AssistantMessage resp) s"
  obtain r s2 where b: "runtimeInputBoundary E True True ?s1 = (r, s2)" by fastforce
  have p: "planOf s \<noteq> PlanStatusPlanning" "\<not> svContinue (stopVerdict E i (rContent resp) s)" "r = Inr 0"
    "\<exists>es. s' = emit es (onTurn (\<lambda>t. t\<lparr>tuFinal := rContent resp\<rparr>) s2)"
    using assms(1) by (auto simp: finishStep_def Let_def b split: if_splits sum.splits)
  obtain es where s': "s' = emit es (onTurn (\<lambda>t. t\<lparr>tuFinal := rContent resp\<rparr>) s2)" using p(4) by blast
  have f: "quiet E s2" "lsBatch s2 = (lsBatch ?s1)\<lparr>bsSession := sessionOf s2\<rparr>"
    "sMessages (sessionOf s2) = sMessages (sessionOf ?s1) \<or> (\<exists>ids. sMessages (sessionOf s2) = map (clearReceipts ids) (sMessages (sessionOf ?s1)))"
    using finalBoundary [OF b [unfolded p(3)]] by auto
  have a: "sMessages (sessionOf ?s1) = sMessages (sessionOf s) @ [AssistantMessage resp]" by (simp add: appendMessage_def)
  have "\<exists>ms m. sMessages (sessionOf s2) = ms @ [m] \<and> mRole m = RoleAssistant \<and> mToolCalls m = [] \<and> mContent m = rContent resp"
    using f(3)
  proof
    assume "sMessages (sessionOf s2) = sMessages (sessionOf ?s1)"
    then show ?thesis using a assms(2) by (auto simp: AssistantMessage_def newMessage_def)
  next
    assume "\<exists>ids. sMessages (sessionOf s2) = map (clearReceipts ids) (sMessages (sessionOf ?s1))"
    then show ?thesis using a assms(2) by (auto simp: AssistantMessage_def newMessage_def clearReceipts_def)
  qed
  moreover have "planOf s2 = planOf s" using arg_cong [OF f(2), of "\<lambda>b. PlanState (bsApproval b)"] by (simp add: appendMessage_def onSession_def onBatch_def)
  moreover have "quiet E s'" using f(1) by (simp add: s' quiet_def emit_def onTurn_def onBatch_def)
  ultimately show ?thesis using p(1) assms(3) by (simp add: finished_def s' onTurn_def onBatch_def emit_def)
qed

lemma capture_waiting: "captureContinuation j (onTurn (\<lambda>t. t\<lparr>tuWaitingBackground := w\<rparr>) (s\<lparr>lsParked := p\<rparr>)) = captureContinuation j s"
  by (simp add: captureContinuation_def Let_def onTurn_def onBatch_def)

lemma parkStep_done: "parkStep E i s = Return None s' \<Longrightarrow> i + 1 < lsMaxSteps s \<Longrightarrow> parkedAt i s'"
  by (auto simp: parkStep_def Let_def parkedAt_def capture_waiting split: option.splits) (simp_all add: onTurn_def onBatch_def)

lemma toolStep_done: "toolStep E i tools resp s = Return None s' \<Longrightarrow> parkedAt i s'"
  using parkStep_done [of E i _ s']
  by (auto simp: toolStep_def Let_def split: if_splits prod.splits sum.splits option.splits)

lemma iteration_done: "iteration E i s = Return None s' \<Longrightarrow> finished E s' \<or> parkedAt i s'"
proof -
  assume d: "iteration E i s = Return None s'"
  obtain a s3 tools where a: "answerStep E i tools a s3 = Return None s'"
    using d by (auto simp: iteration_def Let_def split: option.splits prod.splits sum.splits)
  obtain sq calls where f: "fillCalls (lsCallSeq s3) (rToolCalls (maResponse a)) = (sq, calls)" by fastforce
  let ?resp = "(maResponse a)\<lparr>rToolCalls := calls\<rparr>"
  let ?s2 = "finishCompaction (rUsage ?resp) (s3\<lparr>lsCallSeq := sq\<rparr>)"
  have v: "ValidateAssistantTurn (eParse (teBatch E)) ?resp = None" and
    r: "(if calls = [] then finishStep E i ?resp ?s2 else toolStep E i tools ?resp ?s2) = Return None s'"
    using a by (auto simp: answerStep_def f Let_def split: option.splits if_splits)
  show ?thesis
  proof (cases "calls = []")
    case True
    then have "TrimSpace (rContent ?resp) \<noteq> []" using v by (auto simp: ValidateAssistantTurn_def isEmptyTurn_def split: if_splits)
    then show ?thesis using finishStep_done [of E i ?resp ?s2 s'] r True by simp
  next
    case False
    then have "parkedAt i s'" using r by (intro toolStep_done [of E i tools ?resp ?s2 s']) simp
    then show ?thesis ..
  qed
qed

lemma driveLoop_done: "driveLoop E k i s = Return None s' \<Longrightarrow> finished E s' \<or> (\<exists>j \<ge> i. parkedAt j s')"
proof (induction k arbitrary: i s)
  case (Suc k)
  show ?case
  proof (cases "iteration E i s")
    case (Next s1)
    then have "finished E s' \<or> (\<exists>j \<ge> i + 1. parkedAt j s')" using Suc by simp
    then show ?thesis by force
  next
    case (Return e s1)
    then show ?thesis using iteration_done [of E i s s'] Suc.prems by auto
  qed
qed simp

lemma finishLimit_hit: "tuHitStepLimit (turnOf (finishLimit t s))"
  by (simp add: finishLimit_def Let_def)

lemma afterLimit_hit: "afterLimit E s = (None, s') \<Longrightarrow> tuHitStepLimit (turnOf s')"
  by (auto simp: afterLimit_def finishLimit_hit split: prod.splits sum.splits if_splits)

lemma driveFrom_done: "driveFrom E i s = (None, s') \<Longrightarrow> tuHitStepLimit (turnOf s') \<or> finished E s' \<or> (\<exists>j \<ge> i. parkedAt j s')"
  using driveLoop_done [of E "nat (lsMaxSteps s - i)" i s] afterLimit_hit by (fastforce simp: driveFrom_def split: flow.splits)

text \<open>The entries.\<close>

lemma repairHistory_advances: "advances E 0 s (repairHistory E' s)"
proof (rule advances_session)
  show "wfSession (sessionOf s) \<Longrightarrow> wfSession (sessionOf (repairHistory E' s))"
    using RemoveEmpty_wf [OF Truncate_wf] by (simp add: repairHistory_def Let_def case_prod_beta)
qed (simp_all add: repairHistory_def Let_def case_prod_beta)

lemma turnInv_env: "plainRequests E1 = plainRequests E \<Longrightarrow> turnInv E1 s = turnInv E s"
  by (simp add: turnInv_def)

lemma beginTurn_facts:
  assumes "beginTurn E s = (E1, s1)"
  shows "lsMaxSteps s1 = (if lsMaxSteps s \<le> 0 then 24 else lsMaxSteps s)" "lsRequests s1 = lsRequests s" "turnInv E s \<Longrightarrow> turnInv E s1"
    "plainRequests E1 = plainRequests E" "wfSession (sessionOf s1) = wfSession (sessionOf s)"
proof -
  show p: "plainRequests E1 = plainRequests E" using assms by (auto simp: beginTurn_def Let_def plainRequests_def split: prod.splits)
  show "lsMaxSteps s1 = (if lsMaxSteps s \<le> 0 then 24 else lsMaxSteps s)" "lsRequests s1 = lsRequests s"
    "turnInv E s \<Longrightarrow> turnInv E s1" "wfSession (sessionOf s1) = wfSession (sessionOf s)" using assms
    by (auto simp: beginTurn_def Let_def defaultMaxSteps_def turnInv_def nextSessionTurnID_def setMeta_def wfSession_def split: if_splits)
qed

lemma fresh_ok [simp]: "turnOK (freshTurn tid)"
  by (simp add: turnOK_def freshTurn_def)

lemma startDrive_facts: "sessionOf (startDrive tid s) = sessionOf s" "turnOf (startDrive tid s) = freshTurn tid"
  "lsRequests (startDrive tid s) = lsRequests s" "lsMaxSteps (startDrive tid s) = lsMaxSteps s" "lsParked (startDrive tid s) = None"
  by (simp_all add: startDrive_def onBatch_def)

lemma drive_sound:
  assumes "drive E s = (err, s')" "wfSession (sessionOf s)" "lsRequests s = []"
  shows "turnInv E s' \<and> length (lsRequests s') \<le> nat (lsMaxSteps s) + 1"
proof -
  have "advances E (nat (lsMaxSteps s) + 1) (startDrive (eTurnID (teBatch E)) s) s'"
    using driveFrom_advances [of E 0 "startDrive (eTurnID (teBatch E)) s" err s'] assms(1) by (simp add: drive_def startDrive_facts)
  moreover have "turnInv E (startDrive (eTurnID (teBatch E)) s)" using assms(2,3) by (simp add: turnInv_def startDrive_facts)
  ultimately show ?thesis using assms(3) by (simp add: advances_def startDrive_facts)
qed

lemma user_wf: "wfSession x \<Longrightarrow> wfSession (x\<lparr>sMessages := sMessages x @ [(newMessage RoleUser t)\<lparr>mAssets := g, mLocalAssets := l\<rparr>], sUpdatedAt := now\<rparr>)"
  by (rule wf_snoc) (simp_all add: newMessage_def isTool_def)

lemma begun_drive:
  assumes "beginTurn E s = (E1, s1)" "drive E1 s2 = (err, s')" "turnInv E s" "lsRequests s = []"
    "wfSession (sessionOf s2)" "lsRequests s2 = lsRequests s1" "lsMaxSteps s2 = lsMaxSteps s1"
  shows "turnInv E s' \<and> length (lsRequests s') \<le> (if lsMaxSteps s \<le> 0 then 24 else nat (lsMaxSteps s)) + 1"
proof -
  note b = beginTurn_facts [OF assms(1)]
  have "lsRequests s2 = []" using assms(4,6) b(2) by simp
  from drive_sound [OF assms(2,5) this] show ?thesis
    using turnInv_env [OF b(4), of s'] b(1) assms(7) by (simp split: if_splits)
qed

lemma continued:
  assumes "driveFrom E1 (csNextStep c) (restore c (startDrive tid s)) = (err, s')" "plainRequests E1 = plainRequests E" "turnInv E s" "lsRequests s = []"
    "turnOK ((csTurn c)\<lparr>tuBilled := csBilledCallIDs c\<rparr>)"
  shows "turnInv E s' \<and> length (lsRequests s') \<le> nat (csMaxSteps c - csNextStep c) + 1"
proof -
  let ?s = "restore c (startDrive tid s)"
  have "turnInv E1 ?s" "lsMaxSteps ?s = csMaxSteps c" "lsRequests ?s = []"
    using assms(3-5) by (simp_all add: turnInv_def restore_def startDrive_def onBatch_def)
  then show ?thesis using driveFrom_advances [OF assms(1)] turnInv_env [OF assms(2), of s'] by (simp add: advances_def)
qed

lemma runEntry_sound:
  assumes "runEntry E e s = (err, s')" "turnInv E s" "lsRequests s = []" "entryOK e"
  shows "turnInv E s' \<and> length (lsRequests s') \<le> stepsOf e (lsMaxSteps s) + 1"
proof -
  obtain E1 s1 where b: "beginTurn E s = (E1, s1)" by fastforce
  note bf = beginTurn_facts [OF b]
  have w: "wfSession (sessionOf s1)" using bf(5) assms(2) by (simp add: turnInv_def)
  have rw: "wfSession (sessionOf (repairHistory E1 s1))" "lsRequests (repairHistory E1 s1) = lsRequests s1" "lsMaxSteps (repairHistory E1 s1) = lsMaxSteps s1"
    using w RemoveEmpty_wf [OF Truncate_wf] by (simp_all add: repairHistory_def Let_def case_prod_beta)
  note d = begun_drive [OF b _ assms(2,3)]
  have same: ?thesis if "s' = s" using that assms(2,3) by simp
  have same1: ?thesis if "s' = s1" using that bf(2,3) assms(2,3) by simp
  show ?thesis
  proof (cases e)
    case (EnterText t ga la)
    let ?s2 = "emit [TurnStarted t] (appendMessage (teNow E 0) ((newMessage RoleUser t)\<lparr>mAssets := ga, mLocalAssets := la\<rparr>) (repairHistory E1 s1))"
    have s2: "wfSession (sessionOf ?s2)" "lsRequests ?s2 = lsRequests s1" "lsMaxSteps ?s2 = lsMaxSteps s1"
      using rw by (simp_all add: appendMessage_def user_wf)
    have "s' = s \<or> drive E1 ?s2 = (err, s')" using assms(1) EnterText by (auto simp: runEntry_def RunTurnWithAllAssets_def b split: if_splits)
    then show ?thesis using same d [OF _ s2, of err s'] EnterText by (auto simp: stepsOf_def)
  next
    case EnterPrepared
    let ?s2 = "emit [TurnStarted (mContent (last (sMessages (sessionOf s))))] s1"
    have s2: "wfSession (sessionOf ?s2)" "lsRequests ?s2 = lsRequests s1" "lsMaxSteps ?s2 = lsMaxSteps s1" using w by simp_all
    have "s' = s \<or> s' = s1 \<or> drive E1 ?s2 = (err, s')" using assms(1) EnterPrepared
      by (auto simp: runEntry_def RunPreparedTurn_def Let_def b split: if_splits)
    then show ?thesis using same same1 d [OF _ s2, of err s'] EnterPrepared by (auto simp: stepsOf_def)
  next
    case EnterResume
    let ?s2 = "emit [TurnResumed] (onSession (\<lambda>x. x\<lparr>sUpdatedAt := teNow E 0\<rparr>) (repairHistory E1 s1))"
    have s2: "wfSession (sessionOf ?s2)" "lsRequests ?s2 = lsRequests s1" "lsMaxSteps ?s2 = lsMaxSteps s1" using rw by (simp_all add: wfSession_def)
    have "s' = s \<or> drive E1 ?s2 = (err, s')" using assms(1) EnterResume by (auto simp: runEntry_def ResumeTurn_def b split: if_splits)
    then show ?thesis using same d [OF _ s2, of err s'] EnterResume by (auto simp: stepsOf_def)
  next
    case (EnterContinue c)
    let ?E = "E\<lparr>teBatch := (teBatch E)\<lparr>eTurnID := teReservedTurnID E\<rparr>\<rparr>"
    have p: "plainRequests ?E = plainRequests E" by (simp add: plainRequests_def)
    have ok: "turnOK ((csTurn c)\<lparr>tuBilled := csBilledCallIDs c\<rparr>)" using assms(4) EnterContinue by (simp add: entryOK_def)
    have "s' = s \<or> driveFrom ?E (csNextStep c) (restore c (startDrive (teReservedTurnID E) s)) = (err, s')"
      using assms(1) EnterContinue by (auto simp: runEntry_def ContinueBackground_def split: if_splits)
    then show ?thesis using same continued [OF _ p assms(2,3) ok] EnterContinue by (auto simp: stepsOf_def)
  qed
qed

subsection \<open>The tools of a step\<close>

lemma sameGrounds_refl: "sameGrounds s s"
  by (simp add: sameGrounds_def)

lemma sameGrounds_trans: "sameGrounds a b \<Longrightarrow> sameGrounds b c \<Longrightarrow> sameGrounds a c"
  by (simp add: sameGrounds_def)

lemma grounds_simps: "sameGrounds s (onSession f s)" "sameGrounds s (onTurn g s)" "sameGrounds s (emit es s)" "sameGrounds s (appendMessage t m s)"
  "lsBatch s' = lsBatch s \<Longrightarrow> sameGrounds s s'"
  by (simp_all add: sameGrounds_def onSession_def onTurn_def onBatch_def emit_def appendMessage_def)

lemma boundary_grounds: "runtimeInputBoundary E d f s = (r, s') \<Longrightarrow> sameGrounds s s'"
  by (auto simp: runtimeInputBoundary_def Let_def sameGrounds_def emit_def onSession_def onBatch_def split: option.splits prod.splits sum.splits)

lemma maybeCompact_grounds: "maybeCompact E i s = (r, s') \<Longrightarrow> sameGrounds s s'"
  by (auto simp: maybeCompact_def Let_def sameGrounds_def emit_def onSession_def onBatch_def split: option.splits prod.splits if_splits)

lemma callModel_grounds: "callModel E i tools msgs s = (a, s') \<Longrightarrow> sameGrounds s s'"
  by (auto simp: callModel_def Let_def sameGrounds_def emit_def)

lemma bookCall_grounds: "sameGrounds s (bookCall E a s)"
  by (simp add: bookCall_def Let_def sameGrounds_def emit_def onSession_def onTurn_def onBatch_def)

lemma finishCompaction_grounds: "sameGrounds s (finishCompaction u s)"
  by (simp add: finishCompaction_def Let_def case_prod_beta sameGrounds_def emit_def onSession_def onTurn_def onBatch_def)

lemma finishStep_grounds: "sameGrounds s (flowState (finishStep E i resp s))"
proof -
  let ?s1 = "appendMessage (teNow E i) (AssistantMessage resp) s"
  obtain r s2 where b: "runtimeInputBoundary E True True ?s1 = (r, s2)" by fastforce
  have "sameGrounds s s2" by (rule sameGrounds_trans [OF grounds_simps(4) boundary_grounds [OF b]])
  then show ?thesis
    by (cases r) (simp_all add: finishStep_def Let_def b sameGrounds_def emit_def onTurn_def onBatch_def)
qed

lemma ranWithin_same: "sameGrounds s s' \<Longrightarrow> ranWithin T s s'"
  by (simp add: sameGrounds_def ranWithin_def)

lemma ranWithin_after: "sameGrounds a b \<Longrightarrow> ranWithin T b c \<Longrightarrow> ranWithin T a c" "ranWithin T a b \<Longrightarrow> sameGrounds b c \<Longrightarrow> ranWithin T a c"
  by (simp_all add: sameGrounds_def ranWithin_def)

lemma batchStep_within: "batchStep E i tools calls s = (err, s') \<Longrightarrow> ranWithin (set (toolDefinitions tools)) s s'"
proof -
  assume b: "batchStep E i tools calls s = (err, s')"
  let ?B = "(teBatch E)\<lparr>eTools := getTool tools, eAdvertised := (\<lambda>n. n \<in> set (toolDefinitions tools)),
       eMaxWebSearches := lsMaxWebSearches s, eRuntimeInputs := (teInputs E \<noteq> None)\<rparr>"
  let ?st = "(lsBatch s)\<lparr>bsWaitFor := [], bsEvents := []\<rparr>"
  obtain err' st' where x: "executeToolBatch ?B calls ?st = (err', st')" by fastforce
  obtain plan g t where g: "teAfterBatch E i (PlanState (bsApproval st'), bsGates st', lsLastText s) = (plan, g, t)" using prod_cases3 by blast
  have e: "bsEffects (lsBatch s') = bsEffects st'" using b by (auto simp: batchStep_def Let_def x g emit_def simp del: not_None_eq)
  show ?thesis using batch_advertised [OF x] by (simp add: ranWithin_def e)
qed

lemma parkStep_grounds: "sameGrounds s (flowState (parkStep E i s))"
  by (simp add: parkStep_def Let_def sameGrounds_def onTurn_def onBatch_def split: option.split)

lemma toolStep_within: "ranWithin (set (toolDefinitions tools)) s (flowState (toolStep E i tools resp s))"
proof -
  let ?es = "if rContent resp \<noteq> [] then [AssistantText (rContent resp)] else []"
  let ?s2 = "emit ?es (appendMessage (teNow E i) (AssistantMessage resp) s)"
  obtain c s3 where b: "batchStep E i tools (rToolCalls resp) ?s2 = (c, s3)" by fastforce
  have 3: "ranWithin (set (toolDefinitions tools)) s s3"
    by (rule ranWithin_after(1) [OF sameGrounds_trans [OF grounds_simps(4) grounds_simps(3)] batchStep_within [OF b]])
  obtain p s4 where p: "(if teInputs E \<noteq> None \<and> runtimeInputReceipts (sessionOf s3) \<noteq> [] then runtimeInputBoundary E False False s3 else (Inr 0, s3)) = (p, s4)"
    by fastforce
  have "sameGrounds s3 s4" using p boundary_grounds [of E False False s3 p s4] by (auto simp: sameGrounds_refl split: if_splits)
  note 4 = ranWithin_after(2) [OF 3 this]
  have h: "ranWithin (set (toolDefinitions tools)) s (emit es (s\<lparr>lsHypothesized := b, lsHypothesis := h\<rparr>))" for es b h
    by (rule ranWithin_same) (simp add: sameGrounds_def emit_def)
  show ?thesis using 4 ranWithin_after(2) [OF 4 parkStep_grounds]
    by (cases p; cases c) (simp_all add: toolStep_def Let_def b p h del: not_None_eq)
qed

lemma answerStep_within: "ranWithin (set (toolDefinitions tools)) s (flowState (answerStep E i tools a s))"
proof (cases "maErr a")
  case None
  obtain sq calls where f: "fillCalls (lsCallSeq s) (rToolCalls (maResponse a)) = (sq, calls)" by fastforce
  let ?resp = "(maResponse a)\<lparr>rToolCalls := calls\<rparr>" and ?s1 = "s\<lparr>lsCallSeq := sq\<rparr>"
  have 1: "sameGrounds s (finishCompaction (rUsage ?resp) ?s1)"
    by (rule sameGrounds_trans [OF _ finishCompaction_grounds]) (simp add: sameGrounds_def)
  note 2 = ranWithin_same [OF sameGrounds_trans [OF 1 finishStep_grounds [of _ _ _ ?resp]]] ranWithin_after(1) [OF 1 toolStep_within]
  have 3: "ranWithin T s ?s1" for T by (rule ranWithin_same) (simp add: sameGrounds_def)
  show ?thesis
    by (cases "calls = []"; use 2 3 in \<open>simp add: answerStep_def None f Let_def split: option.split\<close>)
qed (simp add: answerStep_def ranWithin_same sameGrounds_refl)

lemma iteration_within: "ranWithin (set (toolDefinitions (activeTools E (planOf s)))) s (flowState (iteration E i s))"
proof -
  obtain r s1 where b: "runtimeInputBoundary E True False s = (r, s1)" by fastforce
  note 1 = boundary_grounds [OF b]
  obtain r2 s2 where m: "maybeCompact E i s1 = (r2, s2)" by fastforce
  note 2 = sameGrounds_trans [OF 1 maybeCompact_grounds [OF m]]
  let ?tools = "activeTools E (planOf s2)" and ?s = "s2\<lparr>lsHarness := [], lsHypothesis := []\<rparr>"
  obtain a s3 where c: "callModel E i (toolDefinitions ?tools) (nudgedMessages s2) ?s = (a, s3)" by fastforce
  have "sameGrounds s2 ?s" by (simp add: sameGrounds_def)
  then have 3: "sameGrounds s (bookCall E a s3)"
    using 2 callModel_grounds [OF c] bookCall_grounds sameGrounds_trans by blast
  have p: "activeTools E (planOf s) = ?tools" using 2 by (simp add: sameGrounds_def)
  show ?thesis unfolding p
    by (cases "teCtxErr E i"; cases r; cases r2)
       (simp_all add: iteration_def b m c Let_def ranWithin_after(1) [OF 3 answerStep_within] ranWithin_same [OF 1] ranWithin_same [OF 2]
          ranWithin_same [OF sameGrounds_refl])
qed

subsection \<open>The instance\<close>

lemma demo_ok: "wfSession (sessionOf demoLoopState)" "turnOK (turnOf demoLoopState)" "lsRequests demoLoopState = []" "entryOK (EnterText t g l)"
  by (simp_all add: demoLoopState_def demo_wf demoBatchState_def turnOK_def entryOK_def)

lemma capture_restore: "captureContinuation j (restore (captureContinuation j s) (startDrive tid r)) = captureContinuation j s"
  by (simp add: captureContinuation_def Let_def restore_def startDrive_def onBatch_def)

lemma restore_capture: "restore (captureContinuation j s) (startDrive tid s) = onTurn (\<lambda>t. t\<lparr>tuWaitingBackground := False\<rparr>) (s\<lparr>lsParked := None\<rparr>)"
  by (cases s; cases "lsBatch s"; cases "turnOf s"; cases "bsApproval (lsBatch s)")
     (simp add: captureContinuation_def Let_def restore_def startDrive_def onBatch_def onTurn_def)

lemma iteration_step:
  assumes "teCtxErr E i = None" "runtimeInputBoundary E True False s = (Inr n, s1)" "maybeCompact E i s1 = (None, s2)"
    "callModel E i (toolDefinitions (activeTools E (planOf s2))) (nudgedMessages s2) (s2\<lparr>lsHarness := [], lsHypothesis := []\<rparr>) = (a, s3)"
  shows "iteration E i s = answerStep E i (activeTools E (planOf s2)) a (bookCall E a s3)"
  using assms by (simp add: iteration_def Let_def)

subsection \<open>Properties\<close>





text \<open>C9. How a turn ends without an error: at the step limit; or finished, outside plan mode, with a text that is not blank and is the last message
  of the history, after a boundary that delivered nothing, left no recorded result waiting and sealed the turn; or parked below its limit.\<close>

theorem turn_ends:
  assumes "driveFrom E i s = (None, s')"
  shows "tuHitStepLimit (turnOf s') \<or> finished E s' \<or> (\<exists>j \<ge> i. parkedAt j s')"
  by (rule driveFrom_done [OF assms])

theorem turn_ends_witness: "\<exists>s'. driveFrom demoTurnEnv 2 demoLoopState = (None, s') \<and> finished demoTurnEnv s'"
proof -
  let ?b = "runtimeInputBoundary demoTurnEnv True False demoLoopState"
  let ?s1 = "snd ?b"
  let ?tools = "activeTools demoTurnEnv (planOf ?s1)"
  let ?c = "callModel demoTurnEnv 2 (toolDefinitions ?tools) (nudgedMessages ?s1) (?s1\<lparr>lsHarness := [], lsHypothesis := []\<rparr>)"
  let ?f = "answerStep demoTurnEnv 2 ?tools (fst ?c) (bookCall demoTurnEnv (fst ?c) (snd ?c))"
  have b: "?b = (Inr 0, ?s1)"
  proof -
    have "(case fst ?b of Inr n \<Rightarrow> n = 0 | Inl _ \<Rightarrow> False)" by code_simp
    then show ?thesis by (cases ?b) (auto split: sum.splits)
  qed
  have "(case ?f of Return None s' \<Rightarrow> \<not> tuHitStepLimit (turnOf s') \<and> \<not> tuWaitingBackground (turnOf s') | _ \<Rightarrow> False)" by code_simp
  then obtain s' where f: "?f = Return None s'" "\<not> tuHitStepLimit (turnOf s')" "\<not> tuWaitingBackground (turnOf s')"
    by (cases ?f) (auto split: option.splits)
  have e: "teCtxErr demoTurnEnv 2 = None" by (simp add: demoTurnEnv_def)
  have m: "maybeCompact demoTurnEnv 2 ?s1 = (None, ?s1)" by (simp add: maybeCompact_def demoTurnEnv_def)
  have "iteration demoTurnEnv 2 demoLoopState = Return None s'"
    by (rule trans [OF iteration_step [OF e b m prod.collapse [symmetric]] f(1)])
  moreover have "nat (lsMaxSteps demoLoopState - 2) = Suc 0" by (simp add: demoLoopState_def)
  ultimately have d: "driveFrom demoTurnEnv 2 demoLoopState = (None, s')" by (simp add: driveFrom_def)
  then show ?thesis using turn_ends [OF d] f(2,3) by (auto simp: parkedAt_def)
qed



text \<open>C23. Plan mode holds: in a step, tools run only if they are offered by the registry of the plan state in which the step began, so a planning step
  runs none but those of the plan registry.\<close>

theorem tools_confined:
  "\<exists>effs. bsEffects (lsBatch (flowState (iteration E i s))) = bsEffects (lsBatch s) @ effs \<and>
     (\<forall>j n w. Ran j n w \<in> set effs \<longrightarrow> n \<in> set (toolDefinitions (activeTools E (planOf s))))"
  using iteration_within [of E s i] by (simp add: ranWithin_def)

theorem tools_confined_witness: "\<exists>effs. bsEffects (lsBatch (flowState (iteration demoTurnEnv 0 demoLoopState))) = bsEffects (lsBatch demoLoopState) @ effs \<and>
    (\<forall>j n w. Ran j n w \<in> set effs \<longrightarrow> n = ''read'')"
  using tools_confined [of demoTurnEnv 0 demoLoopState] by (simp add: demoTurnEnv_def activeTools_def toolDefinitions_def visibleTools_def demoTool_def)

text \<open>The answer after the limit is checked only for emptiness: blanks become a message that upkeep later removes as a no-op.\<close>

theorem limit_answer_blank:
  "fst (fst (finalAnswerAfterLimit demoBlankEnv demoLoopState)) = '' '' \<and>
   IsEmptyAssistantNoOp (last (sMessages (sessionOf (snd (finalAnswerAfterLimit demoBlankEnv demoLoopState)))))"
  by code_simp

text \<open>A turn with a budget of more than 100000 steps parks, and its checkpoint is refused.\<close>

theorem large_budget_never_resumes:
  assumes "parkedAt i s" "100000 < lsMaxSteps s" "CanContinueBackground E" "teProvider E" "teReservedTurnID E \<noteq> []"
  shows "ContinueBackground E (the (lsParked s)) r = (Some InvalidContinuation, r)"
  using assms by (simp add: parkedAt_def ContinueBackground_def captureContinuation_def Let_def)

end
