(* ===== verification/Spec2Isabelle.thy ===== *)
theory Spec2Isabelle
  imports Policy Scheduler Jobs Workspace Approve Run_Command Goal Automation File_Tools Context_Editor Memory_Store Resilient Reference Reflection Observation Tool_Batch Runtime_Inputs Request Turn_Loop
begin

text \<open>
  A verification development of an agent runtime: a program that lets a language model work on a
  repository through tools, among them a shell.  The modelled code decides which commands and
  writes may run without a human (\<^verbatim>\<open>internal/sandbox\<close>, \<^verbatim>\<open>internal/approve\<close>, \<^verbatim>\<open>internal/workspace\<close>), runs them
  in the foreground or as background jobs (\<^verbatim>\<open>internal/tools/shell\<close>, \<^verbatim>\<open>internal/jobs\<close>), admits turns of
  concurrent sessions (\<^verbatim>\<open>internal/conversation/scheduler.go\<close>), pursues a goal over many turns
  (\<^verbatim>\<open>internal/goal\<close>) and fires automations at their times (\<^verbatim>\<open>internal/automation\<close>); it reads and edits files for
  the model (\<^verbatim>\<open>internal/tools/filesystem\<close>) and keeps the conversation short, valid and stored (\<^verbatim>\<open>internal/session\<close>).

  How the parts interact.  A turn is a loop of steps: results of background work are delivered at its
  boundaries, the history is kept short, a request is built and sent, and the answer is either final or a
  message of tool calls.  The calls of a message are planned, grouped and run as a batch.  A tool call
  reaches \<open>approve\<close>, which asks the rules, the permission mode and the human in turn; for run_command the prompt is decided by \<open>SideEffectsFor\<close>, which classifies the
  command.  \<open>Execute\<close> classifies again, checks read paths and redirections against the workspace
  boundary, and starts a process or a job.  Turns in which this happens are admitted by the scheduler.
  A goal runs such turns until a judge, a budget or a stall ends it.  The automation scheduler polls its
  store for due automations, dispatches each as a turn or a workflow run and writes the outcome back.

  Theories, in the order of the code:

  \<^item> \<^verbatim>\<open>Go_Prelude\<close>: byte strings, runes, the functions of \<^verbatim>\<open>strings\<close> and \<^verbatim>\<open>unicode/utf8\<close> the sources call, and
    the shared lemmas.  \<^verbatim>\<open>Json\<close>: decoding of flat JSON objects, with the parser as a parameter.
    \<^verbatim>\<open>Transition\<close>: step relations, reachability, and the locales \<open>inductive_invariant\<close> and
    \<open>monotone_system\<close> that the state machines interpret.
  \<^item> \<^verbatim>\<open>Shell_Lex\<close> (\<^verbatim>\<open>sandbox/command_guard.go\<close>): scanners, SplitArgs, SplitCommands, wrapper peeling,
    substitutions.  Shown: SplitArgs inverts quoting and fails exactly on unbalanced quotes; splitting
    equals a one-pass reference; quoted text is invisible to structural checks (locale \<open>quote_masking\<close>).
  \<^item> \<^verbatim>\<open>Shell_Ast\<close> (\<^verbatim>\<open>sandbox/ast/ast.go\<close>): the parser.  \<^verbatim>\<open>Danger\<close> (\<^verbatim>\<open>danger.go\<close>, \<^verbatim>\<open>network.go\<close>, \<^verbatim>\<open>protected.go\<close>):
    the tables and their matchers; greedy matching decides embedding of patterns.
  \<^item> \<^verbatim>\<open>Policy\<close> (\<^verbatim>\<open>sandbox/policy.go\<close>): classification.  Shown: the exact decision on a simple command, that
    the decision on a compound is the strictest over its parts on every route (locale
    \<open>compound_verdict\<close>), for which commands the mutual recursion ends, independence of map order, and
    inputs on which a dangerous part is not seen.
  \<^item> \<^verbatim>\<open>Paths\<close>, \<^verbatim>\<open>Workspace\<close> (\<^verbatim>\<open>workspace/path.go\<close>): the path algebra of \<^verbatim>\<open>path/filepath\<close>, canonical paths,
    classification and validation against the workspace and the managed worktrees.
  \<^item> \<^verbatim>\<open>Approve\<close> (\<^verbatim>\<open>approve/*.go\<close>, \<^verbatim>\<open>agent/permission.go\<close>): rules, modes, tiers, plan mode, audit.  The locale
    \<open>auto_policy\<close> states what every automatic tier owes; it is interpreted on both tiers.
  \<^item> \<^verbatim>\<open>Truncate\<close>, \<^verbatim>\<open>Jobs\<close> (\<^verbatim>\<open>truncate/truncate.go\<close>, \<^verbatim>\<open>jobs/jobs.go\<close>): output limits; a capped buffer that refines
    the log of everything written (locale \<open>capped_log\<close>); the life of a job as a step relation, one step
    per critical section, so that an invariant holds under every interleaving.
  \<^item> \<^verbatim>\<open>Run_Command\<close> (\<^verbatim>\<open>tools/shell/*.go\<close>): the shell tool and the job tools above Policy, Workspace and Jobs.
  \<^item> \<^verbatim>\<open>Scheduler\<close> (\<^verbatim>\<open>conversation/scheduler.go\<close>): the queue and the permits as a step relation, one step per
    critical section; limits, order per session, work conservation, cancellation and shutdown.
  \<^item> \<^verbatim>\<open>Goal\<close> (\<^verbatim>\<open>goal/*.go\<close>): the pursuit loop, evidence, storage.  \<^verbatim>\<open>RRule\<close> (\<^verbatim>\<open>automation/rrule.go\<close>): recurrence
    rules on the calendar of package \<^verbatim>\<open>time\<close>.
  \<^item> \<^verbatim>\<open>Automation\<close> (\<^verbatim>\<open>automation/types.go\<close>, \<^verbatim>\<open>store.go\<close>, \<^verbatim>\<open>dispatcher.go\<close>, \<^verbatim>\<open>scheduler.go\<close>): the tables, every
    statement on them, the dispatcher and one firing, split at the turn so that the store may change in
    between.  Shown: a fired automation is not due again at once, failures stop it at the cap, a pause
    during a turn survives, counts are exact in every reachable store, what reconciliation leaves due.

  \<^item> \<^verbatim>\<open>Edit_Text\<close> (\<^verbatim>\<open>tools/filesystem/edit_text.go\<close> and the text functions of \<^verbatim>\<open>edit_file.go\<close>, \<^verbatim>\<open>insert_file.go\<close>,
    \<^verbatim>\<open>read_file.go\<close>): the LF view of a file, matching in three tiers, numbered lines, diffs.  Shown: where an edit
    lands, what is written around it, that stripping inverts the numbering of a read.
  \<^item> \<^verbatim>\<open>File_Tools\<close> (\<^verbatim>\<open>edit_file.go\<close>, \<^verbatim>\<open>insert_file.go\<close>, \<^verbatim>\<open>create_file.go\<close>, \<^verbatim>\<open>read_file.go\<close>, \<^verbatim>\<open>write_target.go\<close>): the tools from
    their arguments to the files.  The locale \<open>gated_writer\<close> states what every writer owes; it is interpreted on the
    three of them.  Shown: nothing changes outside what the gates admit, what a success leaves in the file,
    what a window of a read shows.
  \<^item> \<^verbatim>\<open>Session\<close> (\<^verbatim>\<open>model/types.go\<close>, \<^verbatim>\<open>session/session.go\<close>, \<^verbatim>\<open>lifecycle.go\<close>, \<^verbatim>\<open>compactor.go\<close>, \<^verbatim>\<open>prune.go\<close>, \<^verbatim>\<open>fork.go\<close>): the
    message history and its upkeep.  A history is valid when every tool result has its call before it and
    every call its results; the locale \<open>history_op\<close> states that an operation keeps this.  Shown: compaction
    keeps it, fits the budget and converges; repair, pruning and forking keep it.
  \<^item> \<^verbatim>\<open>Context_Editor\<close> (\<^verbatim>\<open>session/context_editor.go\<close>): clearing of old tool results, its idempotence, and the
    composition of all upkeep operations in any order.
  \<^item> \<^verbatim>\<open>Memory_Store\<close> (\<^verbatim>\<open>session/memory_store.go\<close>, \<^verbatim>\<open>event_page.go\<close>): the store of conversations, events and submissions,
    one step per method.  Shown: its invariant under every sequence of calls, submissions recorded once, complete
    paging and replay of events (locale \<open>event_log\<close>, interpreted on the store).

  \<^item> \<^verbatim>\<open>Resilient\<close> (\<^verbatim>\<open>model/resilient.go\<close>, \<^verbatim>\<open>errors.go\<close>, \<^verbatim>\<open>metrics.go\<close>, \<^verbatim>\<open>usage_accounting.go\<close>): the retrying model provider.  Shown: when a
    call succeeds, how often it is tried, how long it waits, what is accounted, also for a stream that falls back.
  \<^item> \<^verbatim>\<open>Reference\<close> (\<^verbatim>\<open>reference/ledger.go\<close>): opaque values behind handles.  Shown: a handle gives back its value, in its
    session and until it expires; resolved arguments contain nothing else.
  \<^item> \<^verbatim>\<open>Observation\<close> (\<^verbatim>\<open>internal/observation\<close>) and \<^verbatim>\<open>Reflection\<close> (\<^verbatim>\<open>internal/reflection\<close>): how a result is classified and what the
    steps of a turn say about its quality.  Shown: reflection reads back what the observer wrote; its facts
    are those of a declarative reading of the steps.
  \<^item> \<^verbatim>\<open>Tool_Batch\<close> (\<^verbatim>\<open>agent/tool_batch.go\<close>, \<^verbatim>\<open>tools/validation.go\<close> and parts of \<^verbatim>\<open>agent/loop.go\<close>, \<^verbatim>\<open>event.go\<close>, \<^verbatim>\<open>hook.go\<close>): the calls of
    one assistant message, over \<open>Approve\<close>, \<open>Reference\<close>, \<open>Observation\<close> and \<open>Session\<close>.  Shown: nothing runs that was not offered,
    valid, unblocked and approved; every call gets one result in order, also on cancellation, so the history stays
    valid; groups, books and review gates are right.
  \<^item> \<^verbatim>\<open>Request\<close> (parts of \<^verbatim>\<open>agent/loop.go\<close>, \<^verbatim>\<open>reference_prompt.go\<close>, \<^verbatim>\<open>context_hook_bridge.go\<close>, \<^verbatim>\<open>leak.go\<close>): what the history becomes
    before it is sent.  Shown: files read for images lie below the workspace root and fit the budget; without
    extensions a request has the shape of the history; it carries one date.
  \<^item> \<^verbatim>\<open>Runtime_Inputs\<close> (\<^verbatim>\<open>session/sqlite/runtime_inputs.go\<close>, \<^verbatim>\<open>continuations.go\<close>): results of background work and parked turns,
    one transaction per operation.  Shown, under every order of operations and every failure to commit: a result is
    delivered once, the finish race is decided, no parked turn sleeps through a result, a turn is resumed once.
  \<^item> \<^verbatim>\<open>Turn_Loop\<close> (\<^verbatim>\<open>agent/loop.go\<close>, \<^verbatim>\<open>continuation.go\<close>, \<^verbatim>\<open>runtime_inputs.go\<close>, \<^verbatim>\<open>tools/registry.go\<close>): the turn, composed of the theories
    above.  \<open>advances\<close> states what each part of the loop owes, and the parts are composed by transitivity.  Shown: the
    history and the requests stay valid, the number of model calls is bounded, how a turn ends, that parking is
    transparent, that a step runs only tools its plan state offers.

  State is a record per struct; fallible functions return a sum or an option; a map is a partial
  function or an association list where order or iteration matters; the file system, the clock, the
  process table, Unicode tables, JSON text, the time zone database, the model, the store of goals and
  the conversation and workflow services are arguments.  Mutexes appear as the atomicity of a step.

  Fuel.  \<open>Classify\<close> takes the depth of nested calls; two are enough whenever the code returns at all,
  and \<open>Classify_returns_iff\<close> says when it does.  \<open>Pursue\<close> takes a number of iterations;
  \<open>Pursue_returns\<close> gives one that is enough.  The loops of \<open>Next\<close> take a number of rounds; two are
  enough for a weekly rule of interval one, and the operations on automations pass the number on.  \<open>compoundWorkspaceRead\<close> has the code's own limit of three
  levels.  All other loops are structural or have a termination proof.

  \<open>collectPages\<close> takes a number of pages; as many as there are events are enough.

  The loop of a turn recurs on the steps that remain of its budget, so it needs no fuel.

  Not modelled: the HTTP, WebSocket, MCP and language-server transports, the terminal interface, SQL
  text, the HTTP clients of models, git, search and web tools, whose code is input and output around the parts above; the
  conversation executor and the settings; of a turn the stop policies, the plan tools, its mid-turn saves and the encoding of
  checkpoints; of a batch the staging of image files; of the automation scheduler the ticker goroutine; of the session
  store the averages of its telemetry.  Integers of the calendar in \<open>RRule\<close> are
  unbounded, so intervals near the limit of 64 bits are outside the model.
\<close>

end
